(* ===== verification/Prelude.thy ===== *)
theory Prelude
  imports Main "HOL-Library.Sublist" "HOL-Library.Char_ord" "HOL-Library.List_Lexorder"
    "HOL-Library.Word" "HOL-Library.AList"
begin

section \<open>Shared vocabulary: Go strings, results and panics\<close>

text \<open>
  What the component theories share.
  \<^item> A Go \<open>string\<close> or \<open>[]byte\<close> is a sequence of bytes: it is a HOL \<^typ>\<open>string\<close>, whose
    characters are bytes. \<open>byte_val\<close> reads a byte as a number.
  \<^item> A call that may panic returns a \<open>'a go\<close>: \<open>Ret x\<close> for a normal return and
    \<open>Panic\<close> for a run-time panic. A call that returns \<open>(value, error)\<close> returns a sum.
  \<^item> The functions of the Go standard library that the sources call (\<open>strings.IndexByte\<close>,
    \<open>strings.Cut\<close>, \<open>strings.Split\<close>, \<open>path.Clean\<close>, \<open>url.PathUnescape\<close>,
    \<open>net.SplitHostPort\<close>, ranging over the runes of a string) are modelled here once.
  \<^item> What comes from outside the repository and its standard library, the token table and the
    header checks of \<open>golang.org/x/net/http/httpguts\<close>, and the Unicode tables above ASCII are fields of the
    parameter record \<open>golib\<close>.
\<close>

named_theorems go_simps "unfolding of the result and string vocabulary"

subsection \<open>Results\<close>

datatype 'a go = Ret 'a | Panic string

fun go_bind :: "'a go \<Rightarrow> ('a \<Rightarrow> 'b go) \<Rightarrow> 'b go" where
  "go_bind (Ret x) f = f x"
| "go_bind (Panic m) f = Panic m"

definition no_panic :: "'a go \<Rightarrow> bool" where
  "no_panic r = (case r of Ret _ \<Rightarrow> True | Panic _ \<Rightarrow> False)"

text \<open>Indexing a slice at its last position; Go panics on an empty one.\<close>

definition go_last :: "'a list \<Rightarrow> 'a go" where
  "go_last xs = (if xs = [] then Panic ''index out of range'' else Ret (last xs))"

subsection \<open>Bytes and the parameters of the model\<close>

abbreviation byte_val :: "char \<Rightarrow> nat" where
  "byte_val c \<equiv> of_char c"

definition byte_of :: "nat \<Rightarrow> char" where
  "byte_of n = char_of n"

record golib =
  lib_isTokenRune :: "nat \<Rightarrow> bool"
  lib_isLetter :: "nat \<Rightarrow> bool"
  lib_isDigit :: "nat \<Rightarrow> bool"
  lib_validHeaderFieldName :: "string \<Rightarrow> bool"
  lib_validHeaderFieldValue :: "string \<Rightarrow> bool"
  lib_HeaderValuesContainsToken :: "string list \<Rightarrow> string \<Rightarrow> bool"

text \<open>One instance of the parameters, for concrete examples: ASCII tables.\<close>

definition ascii_alnum :: "nat \<Rightarrow> bool" where
  "ascii_alnum r = ((48 \<le> r \<and> r \<le> 57) \<or> (65 \<le> r \<and> r \<le> 90) \<or> (97 \<le> r \<and> r \<le> 122))"

definition example_lib :: golib where
  "example_lib = \<lparr>lib_isTokenRune = \<lambda>r. ascii_alnum r \<or> r = 45 \<or> r = 95,
     lib_isLetter = \<lambda>r. False, lib_isDigit = \<lambda>r. False,
     lib_validHeaderFieldName = \<lambda>v. v \<noteq> [] \<and> list_all (\<lambda>c. ascii_alnum (byte_val c) \<or> byte_val c = 45) v,
     lib_validHeaderFieldValue = \<lambda>v. list_all (\<lambda>c. 32 \<le> byte_val c \<and> byte_val c < 127 \<or> byte_val c = 9) v,
     lib_HeaderValuesContainsToken = \<lambda>vs t. t \<in> set vs\<rparr>"

subsection \<open>Searching and splitting\<close>

text \<open>\<open>strings.IndexByte\<close>: the index of the first \<open>c\<close>, \<open>None\<close> for Go's \<open>-1\<close>.\<close>

fun index_byte :: "'b list \<Rightarrow> 'b \<Rightarrow> nat option" where
  "index_byte [] c = None"
| "index_byte (x # xs) c = (if x = c then Some 0 else map_option Suc (index_byte xs c))"

text \<open>\<open>strings.LastIndexByte\<close>.\<close>

fun last_index_byte :: "string \<Rightarrow> char \<Rightarrow> nat option" where
  "last_index_byte [] c = None"
| "last_index_byte (x # xs) c =
     (case last_index_byte xs c of
        Some i \<Rightarrow> Some (Suc i)
      | None \<Rightarrow> (if x = c then Some 0 else None))"

text \<open>\<open>strings.Cut\<close> with a separator of one byte.\<close>

definition cut_byte :: "string \<Rightarrow> char \<Rightarrow> string \<times> string \<times> bool" where
  "cut_byte s c =
     (case index_byte s c of
        None \<Rightarrow> (s, [], False)
      | Some i \<Rightarrow> (take i s, drop (Suc i) s, True))"

text \<open>
  The idiom \<open>i := IndexByte(s, c); if i < 0 { i = len(s) }; s[:i], s[i:]\<close>.
\<close>

definition break_byte :: "char \<Rightarrow> string \<Rightarrow> string \<times> string" where
  "break_byte c s =
     (let i = (case index_byte s c of None \<Rightarrow> length s | Some i \<Rightarrow> i) in (take i s, drop i s))"

text \<open>\<open>strings.Split\<close> and \<open>strings.Join\<close> on a separator of one byte.\<close>

fun split_byte :: "char \<Rightarrow> string \<Rightarrow> string list" where
  "split_byte c [] = [[]]"
| "split_byte c (x # xs) =
     (if x = c then [] # split_byte c xs
      else (x # hd (split_byte c xs)) # tl (split_byte c xs))"

fun join_byte :: "char \<Rightarrow> string list \<Rightarrow> string" where
  "join_byte c [] = []"
| "join_byte c [s] = s"
| "join_byte c (s # t # ss) = s @ c # join_byte c (t # ss)"

text \<open>\<open>strings.HasPrefix\<close>, \<open>strings.HasSuffix\<close> and \<open>strings.CutSuffix\<close>.\<close>

definition has_prefix :: "string \<Rightarrow> string \<Rightarrow> bool" where
  "has_prefix s p = prefix p s"

definition has_suffix :: "string \<Rightarrow> string \<Rightarrow> bool" where
  "has_suffix s p = suffix p s"

definition cut_suffix :: "string \<Rightarrow> string \<Rightarrow> string \<times> bool" where
  "cut_suffix s p = (if has_suffix s p then (take (length s - length p) s, True) else (s, False))"

subsection \<open>Percent decoding\<close>

definition is_hex :: "char \<Rightarrow> bool" where
  "is_hex c = ((CHR ''0'' \<le> c \<and> c \<le> CHR ''9'') \<or> (CHR ''a'' \<le> c \<and> c \<le> CHR ''f'')
     \<or> (CHR ''A'' \<le> c \<and> c \<le> CHR ''F''))"

definition hex_val :: "char \<Rightarrow> nat" where
  "hex_val c =
     (if CHR ''0'' \<le> c \<and> c \<le> CHR ''9'' then byte_val c - 48
      else if CHR ''a'' \<le> c \<and> c \<le> CHR ''f'' then byte_val c - 87
      else byte_val c - 55)"

text \<open>\<open>url.PathUnescape\<close>: \<open>None\<close> for its \<open>EscapeError\<close>.\<close>

fun url_PathUnescape :: "string \<Rightarrow> string option" where
  "url_PathUnescape [] = Some []"
| "url_PathUnescape (c # s) =
     (if c = CHR ''%'' then
        (case s of
           a # b # t \<Rightarrow>
             if is_hex a \<and> is_hex b
             then map_option (\<lambda>r. byte_of (16 * hex_val a + hex_val b) # r) (url_PathUnescape t)
             else None
         | _ \<Rightarrow> None)
      else map_option (\<lambda>r. c # r) (url_PathUnescape s))"

subsection \<open>Runes\<close>

text \<open>
  Ranging over a Go string decodes UTF-8; an invalid byte is the rune \<open>0xFFFD\<close> of width 1.
\<close>

definition cont_byte :: "nat \<Rightarrow> nat \<Rightarrow> char \<Rightarrow> bool" where
  "cont_byte lo hi c = (lo \<le> byte_val c \<and> byte_val c \<le> hi)"

definition decode_rune :: "char \<Rightarrow> string \<Rightarrow> nat \<times> nat" where
  "decode_rune b0 s =
     (let x = byte_val b0; bad = (65533, 1) in
      if x < 128 then (x, 1)
      else if x < 194 then bad
      else if x < 224 then
        (case s of
           b1 # _ \<Rightarrow> if cont_byte 128 191 b1 then ((x - 192) * 64 + (byte_val b1 - 128), 2) else bad
         | [] \<Rightarrow> bad)
      else if x < 240 then
        (case s of
           b1 # b2 # _ \<Rightarrow>
             if cont_byte (if x = 224 then 160 else 128) (if x = 237 then 159 else 191) b1
                \<and> cont_byte 128 191 b2
             then ((x - 224) * 4096 + (byte_val b1 - 128) * 64 + (byte_val b2 - 128), 3) else bad
         | _ \<Rightarrow> bad)
      else if x < 245 then
        (case s of
           b1 # b2 # b3 # _ \<Rightarrow>
             if cont_byte (if x = 240 then 144 else 128) (if x = 244 then 143 else 191) b1
                \<and> cont_byte 128 191 b2 \<and> cont_byte 128 191 b3
             then ((x - 240) * 262144 + (byte_val b1 - 128) * 4096
                   + (byte_val b2 - 128) * 64 + (byte_val b3 - 128), 4) else bad
         | _ \<Rightarrow> bad)
      else bad)"

function runes :: "string \<Rightarrow> nat list" where
  "runes [] = []"
| "runes (b # s) = (case decode_rune b s of (r, w) \<Rightarrow> r # runes (drop (w - 1) s))"
  by pat_completeness auto
termination
  by (relation "measure length") auto

subsection \<open>Paths and hosts\<close>

text \<open>
  \<open>path.Clean\<close>: the elements between slashes are pushed on a stack (its top first); empty and
  \<open>.\<close> elements are dropped, and \<open>..\<close> pops the element before it. A rooted path drops a
  \<open>..\<close> at the root, a relative one keeps it.
\<close>

fun clean_elems :: "bool \<Rightarrow> string list \<Rightarrow> string list \<Rightarrow> string list" where
  "clean_elems rooted stk [] = stk"
| "clean_elems rooted stk (e # es) =
     (if e = [] \<or> e = ''.'' then clean_elems rooted stk es
      else if e = ''..'' then
        (if stk \<noteq> [] \<and> hd stk \<noteq> ''..'' then clean_elems rooted (tl stk) es
         else if rooted then clean_elems rooted stk es
         else clean_elems rooted (e # stk) es)
      else clean_elems rooted (e # stk) es)"

definition path_Clean :: "string \<Rightarrow> string" where
  "path_Clean p =
     (let rooted = (p \<noteq> [] \<and> hd p = CHR ''/'');
          body = join_byte (CHR ''/'') (rev (clean_elems rooted [] (split_byte (CHR ''/'') p)))
      in if rooted then CHR ''/'' # body else if body = [] then ''.'' else body)"

text \<open>\<open>net.SplitHostPort\<close>: \<open>None\<close> for its \<open>AddrError\<close>.\<close>

definition net_SplitHostPort :: "string \<Rightarrow> (string \<times> string) option" where
  "net_SplitHostPort hp =
     (case last_index_byte hp (CHR '':'') of
        None \<Rightarrow> None
      | Some i \<Rightarrow>
          (if hd hp = CHR ''['' then
             (case index_byte hp (CHR '']'') of
                None \<Rightarrow> None
              | Some e \<Rightarrow>
                  if Suc e \<noteq> i then None
                  else if CHR ''['' \<in> set (drop 1 hp) \<or> CHR '']'' \<in> set (drop (Suc e) hp) then None
                  else Some (take (e - 1) (drop 1 hp), drop (Suc i) hp))
           else if CHR '':'' \<in> set (take i hp) then None
           else if CHR ''['' \<in> set hp \<or> CHR '']'' \<in> set hp then None
           else Some (take i hp, drop (Suc i) hp)))"

subsection \<open>Lemmas on results\<close>

lemma go_bind_Ret [simp, go_simps]: "go_bind r f = Ret y \<longleftrightarrow> (\<exists>x. r = Ret x \<and> f x = Ret y)"
  by (cases r) auto

lemma no_panic_simps [simp]: "no_panic (Ret x)" "\<not> no_panic (Panic m)"
  by (simp_all add: no_panic_def)

lemma no_panic_iff: "no_panic r \<longleftrightarrow> (\<exists>x. r = Ret x)"
  by (cases r) auto

lemma go_last_snoc [simp, go_simps]: "go_last (xs @ [x]) = Ret x"
  by (simp add: go_last_def)

lemma go_last_Ret [simp]: "xs \<noteq> [] \<Longrightarrow> go_last xs = Ret (last xs)"
  by (simp add: go_last_def)

subsection \<open>Lemmas on searching and splitting\<close>

lemma index_byte_None: "index_byte s c = None \<longleftrightarrow> c \<notin> set s"
  by (induction s) auto

lemma index_byte_notin [simp]: "c \<notin> set s \<Longrightarrow> index_byte s c = None"
  by (simp add: index_byte_None)

lemma index_byte_Some:
  "index_byte s c = Some i \<Longrightarrow> i < length s \<and> s ! i = c \<and> c \<notin> set (take i s)"
  by (induction s arbitrary: i) (auto split: if_splits)

lemma index_byte_take_drop:
  "index_byte s c = Some i \<Longrightarrow>
     take i s = takeWhile (\<lambda>x. x \<noteq> c) s \<and> drop i s = dropWhile (\<lambda>x. x \<noteq> c) s"
  by (induction s arbitrary: i) (auto split: if_splits)

lemma takeWhile_dropWhile_notin:
  assumes "c \<notin> set s"
  shows "takeWhile (\<lambda>x. x \<noteq> c) s = s" and "dropWhile (\<lambda>x. x \<noteq> c) s = []"
proof -
  show "takeWhile (\<lambda>x. x \<noteq> c) s = s"
    using assms by (induction s) auto
  show "dropWhile (\<lambda>x. x \<noteq> c) s = []"
    using assms by (induction s) auto
qed

lemma break_byte_eq:
  "break_byte c s = (takeWhile (\<lambda>x. x \<noteq> c) s, dropWhile (\<lambda>x. x \<noteq> c) s)"
proof (cases "index_byte s c")
  case None
  then have "c \<notin> set s" by (simp add: index_byte_None)
  then show ?thesis by (simp add: break_byte_def takeWhile_dropWhile_notin)
next
  case (Some i)
  then show ?thesis using index_byte_take_drop [OF Some] by (simp add: break_byte_def)
qed

lemma index_byte_append: "c \<notin> set a \<Longrightarrow> index_byte (a @ c # b) c = Some (length a)"
  by (induction a) auto

lemma cut_byte_found: "c \<notin> set a \<Longrightarrow> cut_byte (a @ c # b) c = (a, b, True)"
  by (simp add: cut_byte_def index_byte_append)

lemma cut_byte_not_found: "c \<notin> set s \<Longrightarrow> cut_byte s c = (s, [], False)"
  by (simp add: cut_byte_def)

lemma cut_byte_cases:
  assumes "cut_byte s c = (a, b, found)"
  shows "if found then s = a @ c # b \<and> c \<notin> set a else a = s \<and> b = [] \<and> c \<notin> set s"
proof (cases "index_byte s c")
  case None
  then show ?thesis using assms by (auto simp: cut_byte_def index_byte_None)
next
  case (Some i)
  note idx = index_byte_Some [OF Some]
  then have "s = take i s @ c # drop (Suc i) s" using id_take_nth_drop [of i s] by simp
  then show ?thesis using assms Some idx by (auto simp: cut_byte_def)
qed

lemma split_byte_not_Nil [simp]: "split_byte c s \<noteq> []"
  by (cases s) auto

lemma split_byte_no_sep: "x \<in> set (split_byte c s) \<Longrightarrow> c \<notin> set x"
proof (induction s arbitrary: x)
  case Nil
  then show ?case by simp
next
  case (Cons y ys)
  have hd: "c \<notin> set (hd (split_byte c ys))"
    by (rule Cons.IH) simp
  have tl: "z \<in> set (tl (split_byte c ys)) \<Longrightarrow> c \<notin> set z" for z
    by (rule Cons.IH) (simp add: list.set_sel(2))
  show ?case using Cons.prems Cons.IH hd tl by (auto split: if_splits)
qed

lemma join_split_byte: "join_byte c (split_byte c s) = s"
proof (induction s)
  case (Cons x xs)
  then show ?case
    by (cases "split_byte c xs"; cases "tl (split_byte c xs)") auto
qed simp

lemma split_byte_append_sep:
  "c \<notin> set a \<Longrightarrow> split_byte c (a @ c # b) = a # split_byte c b"
  by (induction a) auto

lemma split_byte_no_sep_id: "c \<notin> set a \<Longrightarrow> split_byte c a = [a]"
  by (induction a) auto

lemma split_join_byte:
  "ss \<noteq> [] \<Longrightarrow> (\<And>s. s \<in> set ss \<Longrightarrow> c \<notin> set s) \<Longrightarrow> split_byte c (join_byte c ss) = ss"
  by (induction c ss rule: join_byte.induct)
     (auto simp: split_byte_append_sep split_byte_no_sep_id)

end
