(* ===== verification/Clean_Path.thy ===== *)
theory Clean_Path
  imports Prelude
begin

section \<open>Canonical request paths and hosts (server.go)\<close>

text \<open>
  \<open>cleanPath\<close> and \<open>stripHostPort\<close> of \<open>server.go\<close>, the sanitising steps the multiplexers apply
  before they match a request, and \<open>pathUnescape\<close> of \<open>pattern.go\<close>. The lemmas show that
  \<open>cleanPath\<close> returns a rooted path without empty, \<open>.\<close> or \<open>..\<close> elements, that it is
  idempotent and keeps a trailing slash, and which hosts \<open>stripHostPort\<close> changes.
\<close>

definition cleanPath :: "string \<Rightarrow> string" where
  "cleanPath p0 =
     (if p0 = [] then ''/''
      else
        let p = (if hd p0 \<noteq> CHR ''/'' then CHR ''/'' # p0 else p0);
            np = path_Clean p
        in if last p = CHR ''/'' \<and> np \<noteq> ''/''
           then (if length p = length np + 1 \<and> has_prefix p np then p else np @ ''/'')
           else np)"

definition stripHostPort :: "string \<Rightarrow> string" where
  "stripHostPort h =
     (if CHR '':'' \<notin> set h then h
      else case net_SplitHostPort h of None \<Rightarrow> h | Some (host, port) \<Rightarrow> host)"

definition pathUnescape :: "string \<Rightarrow> string" where
  "pathUnescape path = (case url_PathUnescape path of None \<Rightarrow> path | Some u \<Rightarrow> u)"

subsection \<open>The shape of a clean path\<close>

definition good_elem :: "string \<Rightarrow> bool" where
  "good_elem e = (e \<noteq> [] \<and> e \<noteq> ''.'' \<and> e \<noteq> ''..'' \<and> CHR ''/'' \<notin> set e)"

text \<open>The path with the elements \<open>es\<close>, with a trailing slash if \<open>t\<close>.\<close>

definition path_of :: "string list \<Rightarrow> bool \<Rightarrow> string" where
  "path_of es t = CHR ''/'' # join_byte (CHR ''/'') es @ (if t \<and> es \<noteq> [] then ''/'' else [])"

lemma clean_elems_good:
  "list_all good_elem stk \<Longrightarrow> list_all (\<lambda>e. CHR ''/'' \<notin> set e) es \<Longrightarrow>
     list_all good_elem (clean_elems True stk es)"
proof (induction es arbitrary: stk)
  case (Cons e es)
  have "list_all good_elem (tl stk)" using Cons.prems(1) by (cases stk) simp_all
  moreover have "e = [] \<or> e = ''.'' \<or> e = ''..'' \<or> good_elem e"
    using Cons.prems(2) unfolding good_elem_def by (simp only: list.pred_inject) blast
  ultimately show ?case using Cons.IH Cons.prems by (elim disjE) simp_all
qed simp

lemma good_no_slash: "list_all good_elem es \<Longrightarrow> e \<in> set es \<Longrightarrow> CHR ''/'' \<notin> set e"
  by (simp add: list_all_iff good_elem_def)

lemma clean_elems_id:
  "list_all good_elem es \<Longrightarrow> clean_elems True stk es = rev es @ stk"
  by (induction es arbitrary: stk) (simp_all add: good_elem_def)

lemma clean_elems_snoc_Nil: "clean_elems True stk (es @ [[]]) = clean_elems True stk es"
  by (induction es arbitrary: stk) simp_all

lemma join_byte_snoc_Nil: "es \<noteq> [] \<Longrightarrow> join_byte c (es @ [[]]) = join_byte c es @ [c]"
  by (induction c es rule: join_byte.induct) auto

lemma path_Clean_rooted:
  "path_Clean (CHR ''/'' # s) =
     path_of (rev (clean_elems True [] (split_byte (CHR ''/'') s))) False"
  by (simp add: path_Clean_def path_of_def)

lemma rooted_elems_good: "list_all good_elem (rev (clean_elems True [] (split_byte (CHR ''/'') s)))"
  using clean_elems_good [of "[]" "split_byte (CHR ''/'') s"] split_byte_no_sep [of _ "CHR ''/''" s]
  by (simp add: list_all_iff)

lemma join_byte_eq_Nil: "list_all good_elem es \<Longrightarrow> join_byte c es = [] \<longleftrightarrow> es = []"
  by (induction c es rule: join_byte.induct) (auto simp: good_elem_def)

lemma path_of_eq_root: "list_all good_elem es \<Longrightarrow> path_of es t = ''/'' \<longleftrightarrow> es = []"
  by (auto simp: path_of_def join_byte_eq_Nil)

lemma path_of_True: "es \<noteq> [] \<Longrightarrow> path_of es True = path_of es False @ ''/''"
  by (simp add: path_of_def)

lemma path_of_Nil [simp]: "path_of [] t = ''/''"
  by (simp add: path_of_def)

lemma last_join_byte: "list_all good_elem es \<Longrightarrow> es \<noteq> [] \<Longrightarrow> last (join_byte c es) = last (last es)"
  by (induction c es rule: join_byte.induct)
     (auto simp: good_elem_def join_byte_eq_Nil neq_Nil_conv)

lemma last_path_of:
  assumes "list_all good_elem es" and "es \<noteq> []"
  shows "last (path_of es t) = CHR ''/'' \<longleftrightarrow> t"
proof -
  have "good_elem (last es)" using assms by (simp add: list_all_iff)
  then have "last (last es) \<noteq> CHR ''/''" by (metis good_elem_def last_in_set)
  then show ?thesis
    using assms by (auto simp: path_of_def last_join_byte join_byte_eq_Nil)
qed

lemma path_Clean_path_of:
  assumes "list_all good_elem es"
  shows "path_Clean (path_of es t) = path_of es False"
proof (cases "es = []")
  case True
  then show ?thesis by (simp add: path_Clean_def)
next
  case False
  have sep: "s \<in> set (es @ [[]]) \<Longrightarrow> CHR ''/'' \<notin> set s" for s
    using good_no_slash [OF assms, of s] by auto
  have "split_byte (CHR ''/'') (join_byte (CHR ''/'') es @ (if t then ''/'' else [])) =
      es @ (if t then [[]] else [])"
  proof (cases t)
    case True
    then show ?thesis
      using split_join_byte [of "es @ [[]]", OF _ sep] by (simp add: join_byte_snoc_Nil [OF False])
  next
    case no: False
    then show ?thesis using split_join_byte [OF False] sep by simp
  qed
  then have "clean_elems True [] (split_byte (CHR ''/'')
      (join_byte (CHR ''/'') es @ (if t then ''/'' else []))) = rev es"
    by (simp add: clean_elems_snoc_Nil clean_elems_id [OF assms])
  moreover have "path_of es t = CHR ''/'' # join_byte (CHR ''/'') es @ (if t then ''/'' else [])"
    using False by (simp add: path_of_def)
  ultimately show ?thesis by (simp only: path_Clean_rooted rev_rev_ident)
qed

lemma cleanPath_path_of:
  assumes "list_all good_elem es"
  shows "cleanPath (path_of es t) = path_of es t"
proof (cases "es = []")
  case True
  then show ?thesis by (simp add: cleanPath_def path_Clean_def)
next
  case False
  have hd: "path_of es t \<noteq> []" "hd (path_of es t) = CHR ''/''" by (simp_all add: path_of_def)
  have "length (path_of es True) = length (path_of es False) + 1" "prefix (path_of es False) (path_of es True)"
    using False by (simp_all add: path_of_True)
  then show ?thesis
    using hd last_path_of [OF assms False] path_of_eq_root [OF assms] False
    by (cases t) (simp_all add: cleanPath_def path_Clean_path_of [OF assms] has_prefix_def)
qed

lemma slash_completes:
  assumes "length p = length q + 1" and "prefix q p" and "last p = c"
  shows "p = q @ [c]"
proof -
  obtain r where r: "p = q @ r" using assms(2) by (auto simp: prefix_def)
  with assms(1) obtain x where "r = [x]" by (auto simp: length_Suc_conv)
  with r assms(3) show ?thesis by simp
qed

lemma cleanPath_form:
  obtains es t where "cleanPath p = path_of es t" and "list_all good_elem es"
    and "es = [] \<or> t = (p \<noteq> [] \<and> last p = CHR ''/'')"
proof (cases "p = []")
  case True
  then show ?thesis using that [of "[]" False] by (simp add: cleanPath_def)
next
  case False
  define s where "s = (if hd p \<noteq> CHR ''/'' then p else tl p)"
  define es where "es = rev (clean_elems True [] (split_byte (CHR ''/'') s))"
  have good: "list_all good_elem es" using rooted_elems_good by (simp add: es_def)
  have p: "(if hd p \<noteq> CHR ''/'' then CHR ''/'' # p else p) = CHR ''/'' # s"
    using False by (cases p) (simp_all add: s_def)
  have l: "es \<noteq> [] \<Longrightarrow> last (CHR ''/'' # s) = last p"
    using False by (cases p) (auto simp: s_def es_def)
  have clean: "path_Clean (CHR ''/'' # s) = path_of es False" by (simp add: path_Clean_rooted es_def)
  show ?thesis
  proof (cases "es \<noteq> [] \<and> last p = CHR ''/''")
    case True
    have "length (CHR ''/'' # s) = length (path_of es False) + 1 \<and>
        prefix (path_of es False) (CHR ''/'' # s) \<Longrightarrow> CHR ''/'' # s = path_of es True"
      using True l path_of_True [of es] slash_completes [of "CHR ''/'' # s"] by auto
    then have "cleanPath p = path_of es True"
      using True False p l clean path_of_eq_root [OF good]
      by (simp add: cleanPath_def Let_def has_prefix_def path_of_True)
    then show ?thesis using that [of es True] good True False by simp
  next
    case no: False
    then have "cleanPath p = path_of es False"
      using False p l clean path_of_eq_root [OF good]
      by (cases "es = []") (auto simp: cleanPath_def Let_def)
    then show ?thesis using that [of es False] good no False by blast
  qed
qed

text \<open>\<open>cleanPath\<close> returns \<open>/\<close> followed by elements none of which is empty, \<open>.\<close> or \<open>..\<close> or
  holds a slash, joined by single slashes; a trailing slash of the argument is kept, and cleaning
  the result again changes nothing.\<close>

theorem cleanPath_canonical:
  "\<exists>es t. cleanPath p = path_of es t \<and> list_all good_elem es \<and> cleanPath (cleanPath p) = cleanPath p \<and>
     (es = [] \<or> t = (p \<noteq> [] \<and> last p = CHR ''/''))"
proof -
  obtain es t where "cleanPath p = path_of es t" "list_all good_elem es"
    "es = [] \<or> t = (p \<noteq> [] \<and> last p = CHR ''/'')" by (rule cleanPath_form [of p])
  then show ?thesis by (intro exI [of _ es] exI [of _ t]) (simp add: cleanPath_path_of)
qed

end
