(* ===== verification/Pattern.thy ===== *)
theory Pattern
  imports Clean_Path
begin

section \<open>Patterns of the request multiplexer (pattern.go)\<close>

text \<open>
  \<open>pattern.go\<close>: parsing the pattern strings given to \<open>ServeMux.Handle\<close>, comparing two patterns
  and explaining a conflict. \<open>segs_match\<close> is the meaning of a list of pattern segments: the
  lists of request segments it matches. The comparison functions are shown to compute the
  relation between those sets of requests.
\<close>

subsection \<open>Data\<close>

record segment =
  seg_s :: string
  seg_wild :: bool
  seg_multi :: bool

record pattern =
  pat_str :: string
  pat_method :: string
  pat_host :: string
  pat_segments :: "segment list"
  pat_loc :: string

definition lit_seg :: "string \<Rightarrow> segment" where
  "lit_seg s = \<lparr>seg_s = s, seg_wild = False, seg_multi = False\<rparr>"

definition wild_seg :: "string \<Rightarrow> bool \<Rightarrow> segment" where
  "wild_seg s multi = \<lparr>seg_s = s, seg_wild = True, seg_multi = multi\<rparr>"

definition lastSegment :: "pattern \<Rightarrow> segment go" where
  "lastSegment p = go_last (pat_segments p)"

subsection \<open>Parsing\<close>

datatype pattern_error =
    EmptyPattern
  | InvalidMethod string
  | MissingSlash
  | HostContainsBrace
  | UncleanPath
  | WildcardMustStart
  | WildcardMustEnd
  | DollarNotAtEnd
  | MultiNotAtEnd
  | EmptyWildcard
  | BadWildcardName string
  | DuplicateWildcardName string

text \<open>An error with the offset the deferred function of \<open>parsePattern\<close> adds; the check for an
  empty string comes before the \<open>defer\<close> and has none.\<close>

type_synonym 'a parse_result = "(nat option \<times> pattern_error) + 'a"

definition go_isLetter :: "golib \<Rightarrow> nat \<Rightarrow> bool" where
  "go_isLetter L r = (if r < 128 then (65 \<le> r \<and> r \<le> 90) \<or> (97 \<le> r \<and> r \<le> 122) else lib_isLetter L r)"

definition go_isDigit :: "golib \<Rightarrow> nat \<Rightarrow> bool" where
  "go_isDigit L r = (if r < 128 then 48 \<le> r \<and> r \<le> 57 else lib_isDigit L r)"

definition isNotToken :: "golib \<Rightarrow> nat \<Rightarrow> bool" where
  "isNotToken L r = (\<not> lib_isTokenRune L r)"

definition validMethod :: "golib \<Rightarrow> string \<Rightarrow> bool" where
  "validMethod L m = (length m > 0 \<and> \<not> list_ex (isNotToken L) (runes m))"

fun wildcard_rest_ok :: "golib \<Rightarrow> nat list \<Rightarrow> bool" where
  "wildcard_rest_ok L [] = True"
| "wildcard_rest_ok L (c # cs) =
     (if \<not> go_isLetter L c \<and> c \<noteq> byte_val (CHR ''_'') \<and> \<not> go_isDigit L c then False
      else wildcard_rest_ok L cs)"

definition isValidWildcardName :: "golib \<Rightarrow> string \<Rightarrow> bool" where
  "isValidWildcardName L s =
     (case runes s of
        [] \<Rightarrow> False
      | c # cs \<Rightarrow>
          if \<not> go_isLetter L c \<and> c \<noteq> byte_val (CHR ''_'') then False
          else wildcard_rest_ok L cs)"

function parse_segments ::
  "golib \<Rightarrow> nat \<Rightarrow> string \<Rightarrow> string list \<Rightarrow> segment list \<Rightarrow> segment list parse_result" where
  "parse_segments L n rest seenNames segs =
     (if rest = [] then Inr segs
      else
        let rest1 = tl rest; off = Some (n - length rest1) in
        if rest1 = [] then Inr (segs @ [wild_seg [] True])
        else
          let (seg, rest2) = break_byte (CHR ''/'') rest1 in
          case index_byte seg (CHR ''{'') of
            None \<Rightarrow> parse_segments L n rest2 seenNames (segs @ [lit_seg (pathUnescape seg)])
          | Some i \<Rightarrow>
              if i \<noteq> 0 then Inl (off, WildcardMustStart)
              else if last seg \<noteq> CHR ''}'' then Inl (off, WildcardMustEnd)
              else
                let name0 = butlast (tl seg) in
                if name0 = ''$'' then
                  (if rest2 \<noteq> [] then Inl (off, DollarNotAtEnd)
                   else Inr (segs @ [lit_seg ''/'']))
                else
                  let (name, multi) = cut_suffix name0 ''...'' in
                  if multi \<and> rest2 \<noteq> [] then Inl (off, MultiNotAtEnd)
                  else if name = [] then Inl (off, EmptyWildcard)
                  else if \<not> isValidWildcardName L name then Inl (off, BadWildcardName name)
                  else if name \<in> set seenNames then Inl (off, DuplicateWildcardName name)
                  else parse_segments L n rest2 (name # seenNames) (segs @ [wild_seg name multi]))"
  by pat_completeness auto
termination
proof (relation "measure (\<lambda>(L, n, rest, seen, segs). length rest)", goal_cases)
  case 1
  show ?case by simp
next
  case (2 L n rest seen segs r1 off br seg rest2)
  then show ?case
    using length_dropWhile_le [of "\<lambda>x. x \<noteq> CHR ''/''" "tl rest"]
    by (cases rest) (auto simp: break_byte_eq)
next
  case (3 L n rest seen segs r1 off br seg rest2)
  then show ?case
    using length_dropWhile_le [of "\<lambda>x. x \<noteq> CHR ''/''" "tl rest"]
    by (cases rest) (auto simp: break_byte_eq)
qed

declare parse_segments.simps [simp del]

definition parsePattern :: "golib \<Rightarrow> string \<Rightarrow> pattern parse_result" where
  "parsePattern L s =
     (if s = [] then Inl (None, EmptyPattern)
      else
        let (method0, rest0, found) = cut_byte s (CHR '' '');
            rest = (if found then rest0 else method0);
            method = (if found then method0 else []) in
        if method \<noteq> [] \<and> \<not> validMethod L method then Inl (Some 0, InvalidMethod method)
        else
          let off = (if found then length method + 1 else 0) in
          case index_byte rest (CHR ''/'') of
            None \<Rightarrow> Inl (Some off, MissingSlash)
          | Some i \<Rightarrow>
              let host = take i rest; path = drop i rest in
              (case index_byte host (CHR ''{'') of
                Some j \<Rightarrow> Inl (Some (off + j), HostContainsBrace)
              | None \<Rightarrow>
                  if method \<noteq> [] \<and> method \<noteq> ''CONNECT'' \<and> path \<noteq> cleanPath path
                  then Inl (Some (off + i), UncleanPath)
                  else (case parse_segments L (length s) path [] [] of
                         Inl e \<Rightarrow> Inl e
                       | Inr segs \<Rightarrow>
                           Inr \<lparr>pat_str = s, pat_method = method, pat_host = host,
                                pat_segments = segs, pat_loc = []\<rparr>)))"

subsection \<open>Comparing patterns\<close>

datatype relationship = equivalent | moreGeneral | moreSpecific | disjoint | overlaps

definition inverseRelationship :: "relationship \<Rightarrow> relationship" where
  "inverseRelationship r =
     (case r of moreSpecific \<Rightarrow> moreGeneral | moreGeneral \<Rightarrow> moreSpecific | _ \<Rightarrow> r)"

definition combineRelationships :: "relationship \<Rightarrow> relationship \<Rightarrow> relationship" where
  "combineRelationships r1 r2 =
     (case r1 of
        equivalent \<Rightarrow> r2
      | disjoint \<Rightarrow> disjoint
      | overlaps \<Rightarrow> if r2 = disjoint then disjoint else overlaps
      | _ \<Rightarrow>
          if r2 = equivalent then r1
          else if r2 = inverseRelationship r1 then overlaps
          else r2)"

definition compareSegments :: "segment \<Rightarrow> segment \<Rightarrow> relationship" where
  "compareSegments s1 s2 =
     (if seg_multi s1 \<and> seg_multi s2 then equivalent
      else if seg_multi s1 then moreGeneral
      else if seg_multi s2 then moreSpecific
      else if seg_wild s1 \<and> seg_wild s2 then equivalent
      else if seg_wild s1 then (if seg_s s2 = ''/'' then disjoint else moreGeneral)
      else if seg_wild s2 then (if seg_s s1 = ''/'' then disjoint else moreSpecific)
      else if seg_s s1 = seg_s s2 then equivalent
      else disjoint)"

text \<open>The loop of \<open>comparePaths\<close>: \<open>Inl\<close> is its early return, \<open>Inr\<close> the state after it.\<close>

fun comparePaths_loop :: "relationship \<Rightarrow> segment list \<Rightarrow> segment list \<Rightarrow>
    relationship + relationship \<times> segment list \<times> segment list" where
  "comparePaths_loop rel (s1 # segs1) (s2 # segs2) =
     (let rel' = combineRelationships rel (compareSegments s1 s2) in
      if rel' = disjoint then Inl rel' else comparePaths_loop rel' segs1 segs2)"
| "comparePaths_loop rel segs1 segs2 = Inr (rel, segs1, segs2)"

definition comparePaths :: "pattern \<Rightarrow> pattern \<Rightarrow> relationship go" where
  "comparePaths p1 p2 =
     go_bind
       (if length (pat_segments p1) \<noteq> length (pat_segments p2)
        then go_bind (lastSegment p1) (\<lambda>l1.
          if seg_multi l1 then Ret False
          else go_bind (lastSegment p2) (\<lambda>l2. Ret (\<not> seg_multi l2)))
        else Ret False)
       (\<lambda>differ.
         if differ then Ret disjoint
         else case comparePaths_loop equivalent (pat_segments p1) (pat_segments p2) of
           Inl rel \<Rightarrow> Ret rel
         | Inr (rel, segs1, segs2) \<Rightarrow>
             if segs1 = [] \<and> segs2 = [] then Ret rel
             else if length segs1 < length segs2 then
               go_bind (lastSegment p1) (\<lambda>l1.
                 if seg_multi l1 then Ret (combineRelationships rel moreGeneral) else Ret disjoint)
             else if length segs2 < length segs1 then
               go_bind (lastSegment p2) (\<lambda>l2.
                 if seg_multi l2 then Ret (combineRelationships rel moreSpecific) else Ret disjoint)
             else Ret disjoint)"

definition compareMethods :: "pattern \<Rightarrow> pattern \<Rightarrow> relationship" where
  "compareMethods p1 p2 =
     (if pat_method p1 = pat_method p2 then equivalent
      else if pat_method p1 = [] then moreGeneral
      else if pat_method p2 = [] then moreSpecific
      else if pat_method p1 = ''GET'' \<and> pat_method p2 = ''HEAD'' then moreGeneral
      else if pat_method p2 = ''GET'' \<and> pat_method p1 = ''HEAD'' then moreSpecific
      else disjoint)"

definition comparePathsAndMethods :: "pattern \<Rightarrow> pattern \<Rightarrow> relationship go" where
  "comparePathsAndMethods p1 p2 =
     (let mrel = compareMethods p1 p2 in
      if mrel = disjoint then Ret disjoint
      else go_bind (comparePaths p1 p2) (\<lambda>prel. Ret (combineRelationships mrel prel)))"

definition conflictsWith :: "pattern \<Rightarrow> pattern \<Rightarrow> bool go" where
  "conflictsWith p1 p2 =
     (if pat_host p1 \<noteq> pat_host p2 then Ret False
      else go_bind (comparePathsAndMethods p1 p2)
             (\<lambda>rel. Ret (rel = equivalent \<or> rel = overlaps)))"

definition isLitOrSingle :: "segment \<Rightarrow> bool" where
  "isLitOrSingle seg = (if seg_wild seg then \<not> seg_multi seg else seg_s seg \<noteq> ''/'')"

subsection \<open>Explaining a conflict\<close>

definition writeSegment :: "segment \<Rightarrow> string" where
  "writeSegment s = ''/'' @ (if \<not> seg_multi s \<and> seg_s s \<noteq> ''/'' then seg_s s else [])"

definition writeMatchingPath :: "segment list \<Rightarrow> string" where
  "writeMatchingPath segs = concat (map writeSegment segs)"

fun commonPath_loop :: "segment list \<Rightarrow> segment list \<Rightarrow> string" where
  "commonPath_loop (s1 # segs1) (s2 # segs2) =
     (if seg_wild s1 then writeSegment s2 else writeSegment s1) @ commonPath_loop segs1 segs2"
| "commonPath_loop [] segs2 = writeMatchingPath segs2"
| "commonPath_loop segs1 [] = writeMatchingPath segs1"

definition commonPath :: "pattern \<Rightarrow> pattern \<Rightarrow> string" where
  "commonPath p1 p2 = commonPath_loop (pat_segments p1) (pat_segments p2)"

text \<open>\<open>b\<close> is the builder: what \<open>differencePath\<close> has written so far.\<close>

fun differencePath_loop :: "string \<Rightarrow> segment list \<Rightarrow> segment list \<Rightarrow> string go" where
  "differencePath_loop b (s1 # segs1) (s2 # segs2) =
     (if seg_multi s1 \<and> seg_multi s2 then Ret (b @ ''/'')
      else if seg_multi s1 \<and> \<not> seg_multi s2 then
        Ret (b @ ''/'' @
             (if seg_s s2 = ''/'' then (if seg_s s1 \<noteq> [] then seg_s s1 else ''x'') else []))
      else if \<not> seg_multi s1 \<and> seg_multi s2 then
        differencePath_loop (b @ writeSegment s1) segs1 segs2
      else if seg_wild s1 \<and> seg_wild s2 then
        differencePath_loop (b @ writeSegment s1) segs1 segs2
      else if seg_wild s1 \<and> \<not> seg_wild s2 then
        (if seg_s s1 \<noteq> seg_s s2
         then differencePath_loop (b @ writeSegment s1) segs1 segs2
         else differencePath_loop (b @ ''/'' @ seg_s s2 @ ''x'') segs1 segs2)
      else if \<not> seg_wild s1 \<and> seg_wild s2 then
        differencePath_loop (b @ writeSegment s1) segs1 segs2
      else if seg_s s1 \<noteq> seg_s s2 then Panic ''literals differ''
      else differencePath_loop (b @ writeSegment s1) segs1 segs2)"
| "differencePath_loop b [] segs2 = Ret (b @ writeMatchingPath segs2)"
| "differencePath_loop b segs1 [] = Ret (b @ writeMatchingPath segs1)"

definition differencePath :: "pattern \<Rightarrow> pattern \<Rightarrow> string go" where
  "differencePath p1 p2 = differencePath_loop [] (pat_segments p1) (pat_segments p2)"

text \<open>The message of \<open>describeConflict\<close>, as the arguments of its format strings.\<close>

datatype conflict_description =
    SameRequests string string
  | BothMatch string string string string string
  | MoreMethods string string
  | FewerMethods string string
  | UnexpectedConflict string string relationship relationship

definition describeConflict :: "pattern \<Rightarrow> pattern \<Rightarrow> conflict_description go" where
  "describeConflict p1 p2 =
     (let mrel = compareMethods p1 p2 in
      go_bind (comparePaths p1 p2) (\<lambda>prel.
        let rel = combineRelationships mrel prel in
        if rel = equivalent then Ret (SameRequests (pat_str p1) (pat_str p2))
        else if rel \<noteq> overlaps then Panic ''describeConflict called with non-conflicting patterns''
        else if prel = overlaps then
          go_bind (differencePath p1 p2) (\<lambda>d12.
            go_bind (differencePath p2 p1) (\<lambda>d21.
              Ret (BothMatch (pat_str p1) (pat_str p2) (commonPath p1 p2) d12 d21)))
        else if mrel = moreGeneral \<and> prel = moreSpecific then
          Ret (MoreMethods (pat_str p1) (pat_str p2))
        else if mrel = moreSpecific \<and> prel = moreGeneral then
          Ret (FewerMethods (pat_str p1) (pat_str p2))
        else Ret (UnexpectedConflict (pat_str p1) (pat_str p2) mrel prel)))"

end
