(* ===== verification/Pattern_Meaning.thy ===== *)
theory Pattern_Meaning
  imports Pattern
begin

section \<open>What patterns mean, and that the comparisons compute it\<close>

text \<open>
  The meaning of a pattern is the set of requests it matches: a set of methods and a set of
  lists of request segments. \<open>rel_of\<close> is the relation between two such sets that the comments
  of \<open>pattern.go\<close> give for each value of \<open>relationship\<close>. The lemmas show that
  \<open>compareSegments\<close>, \<open>comparePaths\<close>, \<open>compareMethods\<close>, \<open>comparePathsAndMethods\<close> and
  \<open>conflictsWith\<close> decide these relations.
\<close>

subsection \<open>Requests\<close>

text \<open>
  A request path is a list of non-empty segments; a trailing slash is the segment \<open>/\<close>.
\<close>

fun segs_match :: "segment list \<Rightarrow> string list \<Rightarrow> bool" where
  "segs_match [] rs = (rs = [])"
| "segs_match (s # ss) [] = False"
| "segs_match (s # ss) (r # rs) =
     (if seg_multi s then True
      else if seg_wild s then r \<noteq> ''/'' \<and> segs_match ss rs
      else r = seg_s s \<and> segs_match ss rs)"

definition seg_set :: "segment \<Rightarrow> string set" where
  "seg_set s = (if seg_wild s then {r. r \<noteq> [] \<and> r \<noteq> ''/''} else {seg_s s})"

definition path_set :: "segment list \<Rightarrow> string list set" where
  "path_set ss = {rs. [] \<notin> set rs \<and> segs_match ss rs}"

definition method_matches :: "string \<Rightarrow> string \<Rightarrow> bool" where
  "method_matches pm m = (pm = [] \<or> pm = m \<or> (pm = ''GET'' \<and> m = ''HEAD''))"

definition method_set :: "string \<Rightarrow> string set" where
  "method_set pm = {m. method_matches pm m}"

definition request_set :: "pattern \<Rightarrow> (string \<times> string list) set" where
  "request_set p = method_set (pat_method p) \<times> path_set (pat_segments p)"

text \<open>The relation of two sets of requests that each \<open>relationship\<close> stands for.\<close>

definition rel_of :: "'a set \<Rightarrow> 'a set \<Rightarrow> relationship" where
  "rel_of A B =
     (if A = B then equivalent
      else if A \<inter> B = {} then disjoint
      else if B \<subseteq> A then moreGeneral
      else if A \<subseteq> B then moreSpecific
      else overlaps)"

subsection \<open>Well-formed patterns\<close>

fun multi_last :: "segment list \<Rightarrow> bool" where
  "multi_last [] = True"
| "multi_last (s # ss) = ((seg_multi s \<longrightarrow> seg_wild s \<and> ss = []) \<and> multi_last ss)"

text \<open>
  Every segment list \<open>parsePattern\<close> returns is non-empty and has its multi wildcard last; the
  literals are non-empty unless the path has a repeated slash.
\<close>

definition nonempty_lits :: "segment list \<Rightarrow> bool" where
  "nonempty_lits ss = (\<forall>s \<in> set ss. \<not> seg_wild s \<longrightarrow> seg_s s \<noteq> [])"

definition wf_segs :: "segment list \<Rightarrow> bool" where
  "wf_segs ss = (ss \<noteq> [] \<and> multi_last ss \<and> nonempty_lits ss)"

definition wf_pattern :: "pattern \<Rightarrow> bool" where
  "wf_pattern p = wf_segs (pat_segments p)"

text \<open>A pattern with the given method, host and segments, for examples.\<close>

abbreviation example_pattern :: "string \<Rightarrow> string \<Rightarrow> segment list \<Rightarrow> pattern" where
  "example_pattern m h ss \<equiv>
     \<lparr>pat_str = [], pat_method = m, pat_host = h, pat_segments = ss, pat_loc = []\<rparr>"

lemmas example_simps = wf_pattern_def wf_segs_def nonempty_lits_def lit_seg_def wild_seg_def

subsection \<open>The algebra of relationships\<close>

lemmas relationship_defs = combineRelationships_def inverseRelationship_def

lemma combine_equivalent [simp]:
  "combineRelationships equivalent r = r" "combineRelationships r equivalent = r"
  by (cases r; simp add: relationship_defs)+

lemma combine_disjoint [simp]:
  "combineRelationships disjoint r = disjoint" "combineRelationships r disjoint = disjoint"
  by (cases r; simp add: relationship_defs)+

lemma combine_assoc:
  "combineRelationships (combineRelationships a b) c =
     combineRelationships a (combineRelationships b c)"
  by (cases a; cases b; cases c; simp add: relationship_defs)

lemma combine_same [simp]: "combineRelationships r r = r"
  by (cases r; simp add: relationship_defs)

lemma combine_eq_disjoint [simp]:
  "combineRelationships a b = disjoint \<longleftrightarrow> a = disjoint \<or> b = disjoint"
  by (cases a; cases b; simp add: relationship_defs)

lemma rel_of_inverse: "rel_of B A = inverseRelationship (rel_of A B)"
  by (auto simp: rel_of_def inverseRelationship_def split: relationship.splits)

lemma rel_of_image: "inj f \<Longrightarrow> rel_of (f ` A) (f ` B) = rel_of A B"
  by (simp add: rel_of_def inj_image_eq_iff inj_image_subset_iff
      flip: image_Int)

lemma rel_of_Times:
  assumes "A1 \<noteq> {}" "A2 \<noteq> {}" "B1 \<noteq> {}" "B2 \<noteq> {}"
  shows "rel_of (A1 \<times> B1) (A2 \<times> B2) = combineRelationships (rel_of A1 A2) (rel_of B1 B2)"
proof -
  have "A1 \<times> B1 = A2 \<times> B2 \<longleftrightarrow> A1 = A2 \<and> B1 = B2"
    using assms by (simp add: times_eq_iff)
  moreover have "A1 \<times> B1 \<inter> A2 \<times> B2 = {} \<longleftrightarrow> A1 \<inter> A2 = {} \<or> B1 \<inter> B2 = {}"
    by auto
  moreover have "A1 \<times> B1 \<subseteq> A2 \<times> B2 \<longleftrightarrow> A1 \<subseteq> A2 \<and> B1 \<subseteq> B2"
    and "A2 \<times> B2 \<subseteq> A1 \<times> B1 \<longleftrightarrow> A2 \<subseteq> A1 \<and> B2 \<subseteq> B1"
    using assms by (simp_all add: times_subset_iff)
  ultimately show ?thesis
    using assms unfolding rel_of_def relationship_defs
    by (auto split: if_splits)
qed

subsection \<open>Segments and paths\<close>

lemma seg_set_not_empty: "seg_set s \<noteq> {}"
proof -
  have "''x'' \<in> {r. r \<noteq> [] \<and> r \<noteq> ''/''}" by simp
  then show ?thesis by (auto simp: seg_set_def)
qed

lemma wild_set_not_singleton: "{r. r \<noteq> [] \<and> r \<noteq> ''/''} \<noteq> {l}"
proof
  assume eq: "{r. r \<noteq> [] \<and> r \<noteq> ''/''} = {l}"
  have "''x'' \<in> {r. r \<noteq> [] \<and> r \<noteq> ''/''}" and "''y'' \<in> {r. r \<noteq> [] \<and> r \<noteq> ''/''}" by simp_all
  then have "''x'' = l" and "''y'' = l" unfolding eq by (simp_all only: singleton_iff)
  then have "''x'' = ''y''" by (rule trans [OF _ sym])
  then show False by simp
qed

lemma compareSegments_rel_of:
  assumes "\<not> seg_multi s1" "\<not> seg_multi s2"
    and "\<not> seg_wild s1 \<Longrightarrow> seg_s s1 \<noteq> []" "\<not> seg_wild s2 \<Longrightarrow> seg_s s2 \<noteq> []"
  shows "compareSegments s1 s2 = rel_of (seg_set s1) (seg_set s2)"
  using assms wild_set_not_singleton [of "seg_s s1"] wild_set_not_singleton [of "seg_s s2"]
  by (auto simp: compareSegments_def rel_of_def seg_set_def)

lemma path_set_Nil [simp]: "path_set [] = {[]}"
  by (auto simp: path_set_def)

lemma path_set_multi [simp]: "seg_multi s \<Longrightarrow> path_set (s # ss) = {rs. rs \<noteq> [] \<and> [] \<notin> set rs}"
proof -
  assume "seg_multi s"
  then have "segs_match (s # ss) rs \<longleftrightarrow> rs \<noteq> []" for rs by (cases rs) simp_all
  then show ?thesis by (auto simp: path_set_def)
qed

lemma path_set_Cons:
  assumes "\<not> seg_multi s" and "\<not> seg_wild s \<Longrightarrow> seg_s s \<noteq> []"
  shows "path_set (s # ss) = (\<lambda>(r, rs). r # rs) ` (seg_set s \<times> path_set ss)"
proof -
  have "x \<in> path_set (s # ss) \<longleftrightarrow> (\<exists>r rs. x = r # rs \<and> r \<in> seg_set s \<and> rs \<in> path_set ss)" for x
    using assms by (cases x) (auto simp: path_set_def seg_set_def)
  then show ?thesis by (auto simp: image_def)
qed

lemma path_set_not_empty: "multi_last ss \<Longrightarrow> nonempty_lits ss \<Longrightarrow> path_set ss \<noteq> {}"
proof (induction ss)
  case Nil
  then show ?case by simp
next
  case (Cons s ss)
  show ?case
  proof (cases "seg_multi s")
    case True
    have "[''x''] \<in> {rs. rs \<noteq> [] \<and> [] \<notin> set rs}" by simp
    then show ?thesis unfolding path_set_multi [OF True] by blast
  next
    case False
    with Cons seg_set_not_empty [of s] show ?thesis
      by (simp add: path_set_Cons nonempty_lits_def)
  qed
qed

text \<open>The comparison of two segment lists, position by position.\<close>

fun compare_segs :: "segment list \<Rightarrow> segment list \<Rightarrow> relationship" where
  "compare_segs [] [] = equivalent"
| "compare_segs (s1 # ss1) (s2 # ss2) =
     (if seg_multi s1 \<or> seg_multi s2 then compareSegments s1 s2
      else combineRelationships (compareSegments s1 s2) (compare_segs ss1 ss2))"
| "compare_segs ss1 ss2 = disjoint"

lemma rel_of_Nil_Cons:
  "rel_of (path_set []) (path_set (s # ss)) = disjoint"
  "rel_of (path_set (s # ss)) (path_set []) = disjoint"
proof -
  have "[] \<notin> path_set (s # ss)" by (simp add: path_set_def)
  then show "rel_of (path_set []) (path_set (s # ss)) = disjoint"
    and "rel_of (path_set (s # ss)) (path_set []) = disjoint"
    by (auto simp: rel_of_def)
qed

lemma rel_of_multi:
  assumes m: "seg_multi s1" "\<not> seg_multi s2" and l: "\<not> seg_wild s2 \<Longrightarrow> seg_s s2 \<noteq> []"
    and ne: "path_set ss2 \<noteq> {}"
  shows "rel_of (path_set (s1 # ss1)) (path_set (s2 # ss2)) = moreGeneral"
proof -
  let ?A = "{rs. rs \<noteq> [] \<and> ([]::string) \<notin> set rs}" and ?B = "path_set (s2 # ss2)"
  have sub: "?B \<subseteq> ?A"
    by (auto simp: path_set_def)
  have neB: "?B \<noteq> {}"
    using m l ne seg_set_not_empty [of s2] by (simp add: path_set_Cons)
  have "\<exists>rs \<in> ?A. rs \<notin> ?B"
  proof (cases "seg_wild s2")
    case True
    then have "[''/''] \<in> ?A \<and> [''/''] \<notin> ?B" using m by (simp add: path_set_def)
    then show ?thesis by blast
  next
    case False
    then have "[seg_s s2 @ ''x''] \<in> ?A \<and> [seg_s s2 @ ''x''] \<notin> ?B"
      using m by (simp add: path_set_def)
    then show ?thesis by blast
  qed
  then have "?A \<noteq> ?B" by blast
  then show ?thesis
    unfolding path_set_multi [OF m(1)] rel_of_def using sub neB by (auto simp: Int_absorb1)
qed

lemma compare_segs_rel_of:
  assumes "multi_last ss1" "multi_last ss2" "nonempty_lits ss1" "nonempty_lits ss2"
  shows "compare_segs ss1 ss2 = rel_of (path_set ss1) (path_set ss2)"
  using assms
proof (induction ss1 ss2 rule: compare_segs.induct)
  case 1
  then show ?case by (simp add: rel_of_def)
next
  case (2 s1 ss1 s2 ss2)
  have lits: "\<not> seg_wild s1 \<Longrightarrow> seg_s s1 \<noteq> []" "\<not> seg_wild s2 \<Longrightarrow> seg_s s2 \<noteq> []"
    using "2.prems" by (simp_all add: nonempty_lits_def)
  have ne: "path_set ss1 \<noteq> {}" "path_set ss2 \<noteq> {}"
    using "2.prems" by (simp_all add: nonempty_lits_def path_set_not_empty)
  show ?case
  proof (cases "seg_multi s1 \<or> seg_multi s2")
    case True
    then consider "seg_multi s1" "seg_multi s2" | "seg_multi s1" "\<not> seg_multi s2"
      | "\<not> seg_multi s1" "seg_multi s2" by blast
    then show ?thesis
    proof cases
      case 1
      then show ?thesis by (simp add: compareSegments_def rel_of_def)
    next
      case 2
      then show ?thesis
        using rel_of_multi [OF 2 lits(2) ne(2)] by (simp add: compareSegments_def)
    next
      case 3
      have "rel_of (path_set (s2 # ss2)) (path_set (s1 # ss1)) = moreGeneral"
        by (rule rel_of_multi [OF 3(2,1) lits(1) ne(1)])
      then have "rel_of (path_set (s1 # ss1)) (path_set (s2 # ss2)) = moreSpecific"
        by (subst rel_of_inverse) (simp add: inverseRelationship_def)
      with 3 show ?thesis by (simp add: compareSegments_def)
    qed
  next
    case False
    have "inj (\<lambda>(r :: string, rs). r # rs)" by (auto simp: inj_def)
    then have "rel_of (path_set (s1 # ss1)) (path_set (s2 # ss2)) =
      combineRelationships (rel_of (seg_set s1) (seg_set s2)) (rel_of (path_set ss1) (path_set ss2))"
      using False lits ne
      by (simp add: path_set_Cons rel_of_image rel_of_Times seg_set_not_empty)
    moreover have "compare_segs ss1 ss2 = rel_of (path_set ss1) (path_set ss2)"
      using False "2.IH" "2.prems" by (simp add: nonempty_lits_def)
    ultimately show ?thesis
      using False lits by (simp add: compareSegments_rel_of)
  qed
qed (simp_all only: compare_segs.simps rel_of_Nil_Cons)

subsection \<open>The comparison functions of the code\<close>

definition ends_multi :: "segment list \<Rightarrow> bool" where
  "ends_multi ss = (ss \<noteq> [] \<and> seg_multi (last ss))"

definition after_loop :: "segment list \<Rightarrow> segment list \<Rightarrow>
    relationship + relationship \<times> segment list \<times> segment list \<Rightarrow> relationship" where
  "after_loop ss1 ss2 res =
     (case res of
        Inl rel \<Rightarrow> rel
      | Inr (rel, t1, t2) \<Rightarrow>
          if t1 = [] \<and> t2 = [] then rel
          else if length t1 < length t2 then
            (if ends_multi ss1 then combineRelationships rel moreGeneral else disjoint)
          else if length t2 < length t1 then
            (if ends_multi ss2 then combineRelationships rel moreSpecific else disjoint)
          else disjoint)"

lemma after_loop_Cons:
  assumes "ss1 \<noteq> []" "ss2 \<noteq> []"
  shows "after_loop (s1 # ss1) (s2 # ss2) res = after_loop ss1 ss2 res"
proof -
  have "ends_multi (s1 # ss1) = ends_multi ss1" "ends_multi (s2 # ss2) = ends_multi ss2"
    using assms by (simp_all add: ends_multi_def)
  then show ?thesis by (simp only: after_loop_def)
qed

lemma comparePaths_loop_compare_segs:
  assumes "multi_last ss1" "multi_last ss2"
  shows "after_loop ss1 ss2 (comparePaths_loop rel ss1 ss2) =
           combineRelationships rel (compare_segs ss1 ss2)"
  using assms
proof (induction rel ss1 ss2 rule: comparePaths_loop.induct)
  case (1 rel s1 ss1 s2 ss2)
  let ?rel = "combineRelationships rel (compareSegments s1 s2)"
  show ?case
  proof (cases "?rel = disjoint")
    case True
    then show ?thesis
      by (auto simp: after_loop_def Let_def)
  next
    case False
    show ?thesis
    proof (cases "ss1 = [] \<or> ss2 = []")
      case True
      then show ?thesis using False "1.prems"
        by (cases ss1; cases ss2)
          (auto simp: after_loop_def ends_multi_def Let_def compareSegments_def combine_assoc)
    next
      case both: False
      then have nm: "\<not> seg_multi s1" "\<not> seg_multi s2" using "1.prems" by auto
      have "after_loop ss1 ss2 (comparePaths_loop ?rel ss1 ss2) =
          combineRelationships ?rel (compare_segs ss1 ss2)"
        using "1.IH" False "1.prems" by simp
      then show ?thesis using both nm False
        by (simp add: after_loop_Cons Let_def combine_assoc)
    qed
  qed
qed (auto simp: after_loop_def ends_multi_def neq_Nil_conv)

lemma compare_segs_length:
  "length ss1 \<noteq> length ss2 \<Longrightarrow> multi_last ss1 \<Longrightarrow> multi_last ss2 \<Longrightarrow>
     \<not> ends_multi ss1 \<Longrightarrow> \<not> ends_multi ss2 \<Longrightarrow> compare_segs ss1 ss2 = disjoint"
  by (induction ss1 ss2 rule: compare_segs.induct)
    (auto simp: ends_multi_def split: if_splits)

lemma comparePaths_compare_segs:
  assumes "wf_pattern p1" "wf_pattern p2"
  shows "comparePaths p1 p2 = Ret (compare_segs (pat_segments p1) (pat_segments p2))"
proof -
  let ?s1 = "pat_segments p1" and ?s2 = "pat_segments p2"
  have ml: "multi_last ?s1" "multi_last ?s2" and ne: "?s1 \<noteq> []" "?s2 \<noteq> []"
    using assms by (auto simp: wf_pattern_def wf_segs_def)
  have "combineRelationships equivalent (compare_segs ?s1 ?s2) =
      after_loop ?s1 ?s2 (comparePaths_loop equivalent ?s1 ?s2)"
    using comparePaths_loop_compare_segs [OF ml] by simp
  then show ?thesis
    using ne compare_segs_length [of ?s1 ?s2] ml
    by (auto simp: comparePaths_def lastSegment_def after_loop_def ends_multi_def
        split: sum.splits)
qed

text \<open>C6: \<open>comparePaths\<close> never panics on well-formed patterns and returns exactly the relation
  between the sets of request paths the two patterns match: \<open>equivalent\<close> for equal sets,
  \<open>moreGeneral\<close> and \<open>moreSpecific\<close> for strict inclusion, \<open>disjoint\<close> for no common path,
  \<open>overlaps\<close> otherwise.\<close>

theorem comparePaths_correct:
  assumes "wf_pattern p1" and "wf_pattern p2"
  shows "comparePaths p1 p2 = Ret (rel_of (path_set (pat_segments p1)) (path_set (pat_segments p2)))"
  using assms
  by (simp add: comparePaths_compare_segs compare_segs_rel_of wf_pattern_def wf_segs_def)

theorem comparePaths_correct_witness:
  "wf_pattern (example_pattern [] [] [lit_seg ''a'', wild_seg ''x'' False]) \<and>
   wf_pattern (example_pattern [] [] [wild_seg ''y'' False, lit_seg ''b'']) \<and>
   rel_of (path_set [lit_seg ''a'', wild_seg ''x'' False])
     (path_set [wild_seg ''y'' False, lit_seg ''b'']) = overlaps"
  using comparePaths_correct [of "example_pattern [] [] [lit_seg ''a'', wild_seg ''x'' False]"
      "example_pattern [] [] [wild_seg ''y'' False, lit_seg ''b'']"]
  by (simp add: example_simps comparePaths_def lastSegment_def compareSegments_def relationship_defs)

subsection \<open>Methods and whole patterns\<close>

lemma compareMethods_rel_of:
  "compareMethods p1 p2 = rel_of (method_set (pat_method p1)) (method_set (pat_method p2))"
proof -
  have get: "method_set ''GET'' = {''GET'', ''HEAD''}"
    by (auto simp: method_set_def method_matches_def)
  have any: "method_set [] = UNIV"
    by (simp add: method_set_def method_matches_def)
  have other: "m \<noteq> [] \<Longrightarrow> m \<noteq> ''GET'' \<Longrightarrow> method_set m = {m}" for m
    by (auto simp: method_set_def method_matches_def)
  have inf: "finite A \<Longrightarrow> (UNIV :: string set) \<noteq> A" for A
    using infinite_UNIV_listI by metis
  show ?thesis
    using inf [of "{''GET'', ''HEAD''}"] inf [of "{pat_method p1}"] inf [of "{pat_method p2}"]
      get any other [of "pat_method p1"] other [of "pat_method p2"]
    by (cases "pat_method p1 = ''GET''"; cases "pat_method p2 = ''GET''";
        cases "pat_method p1 = []"; cases "pat_method p2 = []")
       (auto simp: compareMethods_def rel_of_def)
qed

lemma method_set_not_empty: "method_set m \<noteq> {}"
  by (auto simp: method_set_def method_matches_def)

lemma wf_path_set_not_empty: "wf_pattern p \<Longrightarrow> path_set (pat_segments p) \<noteq> {}"
  by (simp add: wf_pattern_def wf_segs_def path_set_not_empty)

lemma comparePathsAndMethods_rel_of:
  assumes "wf_pattern p1" and "wf_pattern p2"
  shows "comparePathsAndMethods p1 p2 = Ret (rel_of (request_set p1) (request_set p2))"
  using assms
  by (simp add: comparePathsAndMethods_def comparePaths_compare_segs compare_segs_rel_of
      wf_pattern_def wf_segs_def request_set_def rel_of_Times method_set_not_empty
      path_set_not_empty Let_def compareMethods_rel_of)

text \<open>Two well-formed patterns conflict exactly when they have the same host, some request
  is matched by both, and neither matches strictly fewer requests than the other: the rule the
  comment of \<open>conflictsWith\<close> states.\<close>

theorem conflictsWith_correct:
  assumes "wf_pattern p1" and "wf_pattern p2"
  shows "conflictsWith p1 p2 =
           Ret (pat_host p1 = pat_host p2 \<and> request_set p1 \<inter> request_set p2 \<noteq> {} \<and>
                \<not> request_set p1 \<subset> request_set p2 \<and> \<not> request_set p2 \<subset> request_set p1)"
proof -
  have ne: "request_set p1 \<noteq> {}" "request_set p2 \<noteq> {}"
    using assms by (auto simp: request_set_def method_set_not_empty wf_path_set_not_empty)
  have "rel_of (request_set p1) (request_set p2) \<in> {equivalent, overlaps} \<longleftrightarrow>
      request_set p1 \<inter> request_set p2 \<noteq> {} \<and>
      \<not> request_set p1 \<subset> request_set p2 \<and> \<not> request_set p2 \<subset> request_set p1"
    using ne by (auto simp: rel_of_def)
  then show ?thesis
    by (auto simp: conflictsWith_def comparePathsAndMethods_rel_of [OF assms])
qed

theorem conflictsWith_correct_witness:
  "wf_pattern (example_pattern ''GET'' [] [wild_seg ''x'' False]) \<and>
   wf_pattern (example_pattern [] [] [lit_seg ''a'']) \<and>
   request_set (example_pattern ''GET'' [] [wild_seg ''x'' False]) \<inter>
     request_set (example_pattern [] [] [lit_seg ''a'']) \<noteq> {}"
  using conflictsWith_correct [of "example_pattern ''GET'' [] [wild_seg ''x'' False]"
      "example_pattern [] [] [lit_seg ''a'']"]
  by (simp add: example_simps conflictsWith_def comparePathsAndMethods_def compareMethods_def
      comparePaths_def lastSegment_def compareSegments_def relationship_defs)

end
