(* ===== verification/Request_Path.thy ===== *)
theory Request_Path
  imports Pattern_Meaning
begin

section \<open>Splitting request paths into segments (routing_tree.go)\<close>

text \<open>
  \<open>firstSegment\<close> of \<open>routing_tree.go\<close> and the list of all segments it cuts a path into.
  \<open>render\<close> writes such a list back; the lemmas show that the two are inverse on segments
  without slashes and percent signs, and that every list of non-empty segments is the
  segment list of some path.
\<close>

definition firstSegment :: "string \<Rightarrow> string \<times> string" where
  "firstSegment path =
     (if path = ''/'' then (''/'', [])
      else case break_byte (CHR ''/'') (tl path) of (a, b) \<Rightarrow> (pathUnescape a, b))"

lemma firstSegment_shorter: "path \<noteq> [] \<Longrightarrow> length (snd (firstSegment path)) < length path"
  using length_dropWhile_le [of "\<lambda>x. x \<noteq> CHR ''/''" "tl path"]
  by (cases path) (auto simp: firstSegment_def break_byte_eq)

function path_segs :: "string \<Rightarrow> string list" where
  "path_segs path =
     (if path = [] then []
      else case firstSegment path of (seg, rest) \<Rightarrow> seg # path_segs rest)"
  by pat_completeness auto
termination
proof (relation "measure length", goal_cases)
  case 1
  show ?case by simp
next
  case (2 path seg rest)
  then have "snd (firstSegment path) = rest" by (metis snd_conv)
  with 2 show ?case using firstSegment_shorter [of path] by auto
qed

declare path_segs.simps [simp del]

lemma path_segs_Nil [simp]: "path_segs [] = []"
  by (simp add: path_segs.simps)

lemma path_segs_slash [simp]: "path_segs ''/'' = [''/'']"
  by (simp add: path_segs.simps firstSegment_def)

definition path_matches :: "pattern \<Rightarrow> string \<Rightarrow> bool" where
  "path_matches p path = (path_segs path \<in> path_set (pat_segments p))"

subsection \<open>Writing segments back\<close>

definition plain_seg :: "string \<Rightarrow> bool" where
  "plain_seg r = (r \<noteq> [] \<and> CHR ''/'' \<notin> set r \<and> CHR ''%'' \<notin> set r)"

fun plain_segs :: "string list \<Rightarrow> bool" where
  "plain_segs [] = True"
| "plain_segs (r # rs) = ((plain_seg r \<or> (r = ''/'' \<and> rs = [])) \<and> plain_segs rs)"

definition render_seg :: "string \<Rightarrow> string" where
  "render_seg r = (if r = ''/'' then ''/'' else CHR ''/'' # r)"

definition render :: "string list \<Rightarrow> string" where
  "render rs = concat (map render_seg rs)"

lemma plain_seg_not [simp]: "\<not> plain_seg ''/''" "\<not> plain_seg []"
  by (simp_all add: plain_seg_def)

lemma plain_seg_ne: "plain_seg r \<Longrightarrow> r \<noteq> ''/'' \<and> r \<noteq> []"
  by (auto simp: plain_seg_def)

lemma url_PathUnescape_plain: "CHR ''%'' \<notin> set s \<Longrightarrow> url_PathUnescape s = Some s"
  by (induction s) auto

lemma pathUnescape_plain [simp]: "CHR ''%'' \<notin> set s \<Longrightarrow> pathUnescape s = s"
  by (simp add: pathUnescape_def url_PathUnescape_plain)

lemma render_simps [simp]: "render [] = []" "render (r # rs) = render_seg r @ render rs"
  by (simp_all add: render_def)

lemma render_append: "render (xs @ ys) = render xs @ render ys"
  by (simp add: render_def)

lemma render_starts: "render rs = [] \<or> (\<exists>t. render rs = CHR ''/'' # t)"
  by (cases rs) (auto simp: render_seg_def)

lemma break_byte_before:
  assumes "c \<notin> set a" and "b = [] \<or> (\<exists>t. b = c # t)"
  shows "break_byte c (a @ b) = (a, b)"
proof -
  have "takeWhile (\<lambda>x. x \<noteq> c) (a @ b) = a" and "dropWhile (\<lambda>x. x \<noteq> c) (a @ b) = b"
    using assms by (induction a) auto
  then show ?thesis by (simp add: break_byte_eq)
qed

lemma path_segs_Cons:
  assumes "CHR ''/'' \<notin> set a" and "a \<noteq> []" and "b = [] \<or> (\<exists>t. b = CHR ''/'' # t)"
  shows "path_segs (CHR ''/'' # a @ b) = pathUnescape a # path_segs b"
  using assms(2) break_byte_before [OF assms(1,3)]
  by (subst path_segs.simps) (auto simp: firstSegment_def)

lemma path_segs_render: "plain_segs rs \<Longrightarrow> path_segs (render rs) = rs"
proof (induction rs)
  case Nil
  then show ?case by simp
next
  case (Cons r rs)
  show ?case
  proof (cases "plain_seg r")
    case True
    then have "r \<noteq> ''/''" by (auto simp: plain_seg_def)
    with True Cons render_starts [of rs] show ?thesis
      by (auto simp: render_seg_def path_segs_Cons plain_seg_def)
  next
    case False
    with Cons.prems show ?thesis by (simp add: render_seg_def)
  qed
qed

end
