(* ===== verification/Pattern_Conflict.thy ===== *)
theory Pattern_Conflict
  imports Request_Path
begin

section \<open>The examples in conflict messages (pattern.go)\<close>

text \<open>
  \<open>describeConflict\<close> shows the user a path both patterns match and, for each pattern, a path
  only that pattern matches. The lemmas show that \<open>differencePath\<close> always keeps this promise
  and \<open>commonPath\<close> keeps it unless a single wildcard of the first pattern meets a multi
  wildcard of the second, where the example it writes is not matched.
\<close>

subsection \<open>Segments whose text can be written into a path\<close>

fun printable_segs :: "segment list \<Rightarrow> bool" where
  "printable_segs [] = True"
| "printable_segs (s # ss) =
     ((if seg_multi s then seg_s s = [] \<or> plain_seg (seg_s s)
       else plain_seg (seg_s s) \<or> (\<not> seg_wild s \<and> seg_s s = ''/'' \<and> ss = []))
      \<and> printable_segs ss)"

definition seg_witness :: "segment \<Rightarrow> string" where
  "seg_witness s = (if seg_multi s then ''/'' else seg_s s)"

lemma writeSegment_render: "writeSegment s = render_seg (seg_witness s)"
  by (simp add: writeSegment_def render_seg_def seg_witness_def)

lemma writeMatchingPath_render: "writeMatchingPath ss = render (map seg_witness ss)"
  by (induction ss) (simp_all add: writeMatchingPath_def writeSegment_render)

lemma seg_witness_in:
  "printable_segs (s # ss) \<Longrightarrow> \<not> seg_multi s \<Longrightarrow> seg_witness s \<in> seg_set s"
  by (auto simp: seg_witness_def seg_set_def)

lemma plain_seg_witness:
  "printable_segs (s # ss) \<Longrightarrow> multi_last (s # ss) \<Longrightarrow>
     plain_seg (seg_witness s) \<or> (seg_witness s = ''/'' \<and> ss = [])"
  by (auto simp: seg_witness_def)

lemma path_set_ConsI:
  assumes "\<not> seg_multi s" and "r \<in> seg_set s" and "rs \<in> path_set ss" and "r \<noteq> []"
  shows "r # rs \<in> path_set (s # ss)"
  using assms by (auto simp: path_set_def seg_set_def split: if_splits)

lemma path_set_ConsD:
  "\<not> seg_multi s \<Longrightarrow> r # rs \<in> path_set (s # ss) \<Longrightarrow> r \<in> seg_set s \<and> rs \<in> path_set ss"
  by (auto simp: path_set_def seg_set_def)

lemma seg_set_nonempty:
  "printable_segs (s # ss) \<Longrightarrow> \<not> seg_multi s \<Longrightarrow> r \<in> seg_set s \<Longrightarrow> r \<noteq> []"
  by (auto simp: seg_set_def split: if_splits)

lemma witnesses_match:
  assumes "multi_last ss" and "printable_segs ss"
  shows "plain_segs (map seg_witness ss) \<and> map seg_witness ss \<in> path_set ss"
  using assms
proof (induction ss)
  case Nil
  then show ?case by simp
next
  case (Cons s ss)
  then have IH: "plain_segs (map seg_witness ss)" "map seg_witness ss \<in> path_set ss"
    by auto
  have pl: "plain_segs (map seg_witness (s # ss))"
    using IH(1) plain_seg_witness [OF Cons.prems(2,1)] by auto
  show ?case
  proof (cases "seg_multi s")
    case True
    with Cons.prems pl show ?thesis by (simp add: seg_witness_def)
  next
    case False
    with IH(2) pl Cons.prems show ?thesis
      using seg_witness_in [OF Cons.prems(2) False] seg_set_nonempty [OF Cons.prems(2) False]
      by (auto intro!: path_set_ConsI)
  qed
qed

subsection \<open>Difference paths\<close>

lemma diff_step:
  assumes nm: "\<not> seg_multi s1" "\<not> seg_multi s2"
    and pr: "printable_segs (s1 # ss1)" "printable_segs (s2 # ss2)"
    and nd: "compareSegments s1 s2 \<noteq> disjoint"
  obtains d where "differencePath_loop b (s1 # ss1) (s2 # ss2) =
      differencePath_loop (b @ render_seg d) ss1 ss2"
    and "d \<in> seg_set s1" and "plain_seg d \<or> (d = ''/'' \<and> ss1 = [])"
    and "compareSegments s1 s2 = moreGeneral \<Longrightarrow> d \<notin> seg_set s2"
proof (cases "seg_wild s1 \<and> \<not> seg_wild s2 \<and> seg_s s1 = seg_s s2")
  case True
  let ?d = "seg_s s2 @ ''x''"
  have "plain_seg (seg_s s2)" using True pr nm by auto
  then have "plain_seg ?d" by (simp add: plain_seg_def)
  moreover have "render_seg ?d = ''/'' @ seg_s s2 @ ''x''"
    by (cases "seg_s s2") (auto simp: render_seg_def)
  ultimately show ?thesis using True nm plain_seg_ne [of ?d]
    by (intro that [of ?d]) (auto simp: seg_set_def)
next
  case False
  let ?d = "seg_witness s1"
  have eq: "differencePath_loop b (s1 # ss1) (s2 # ss2) =
      differencePath_loop (b @ render_seg ?d) ss1 ss2"
    using False nm nd
    by (auto simp: compareSegments_def writeSegment_render split: if_splits)
  have ind: "?d \<in> seg_set s1" by (rule seg_witness_in [OF pr(1) nm(1)])
  have pl: "plain_seg ?d \<or> (?d = ''/'' \<and> ss1 = [])"
    using pr nm by (auto simp: seg_witness_def)
  have "compareSegments s1 s2 = moreGeneral \<Longrightarrow> ?d \<notin> seg_set s2"
    using False nm by (auto simp: compareSegments_def seg_set_def seg_witness_def split: if_splits)
  with eq ind pl show ?thesis by (rule that)
qed

lemma combine_gains:
  "combineRelationships c r \<in> {moreGeneral, overlaps} \<Longrightarrow>
     c = moreGeneral \<or> c = overlaps \<or> r \<in> {moreGeneral, overlaps}"
  by (cases c; cases r; simp add: relationship_defs)

lemma compareSegments_not_overlaps [simp]: "compareSegments s1 s2 \<noteq> overlaps"
  by (simp add: compareSegments_def)

lemma diff_multi:
  assumes "seg_multi s1" "\<not> seg_multi s2"
    and "printable_segs (s1 # ss1)" "printable_segs (s2 # ss2)"
  obtains d where "differencePath_loop b (s1 # ss1) (s2 # ss2) = Ret (b @ render [d])"
    and "plain_segs [d]" and "[d] \<notin> path_set (s2 # ss2)" and "d \<noteq> []"
proof -
  let ?d = "if seg_s s2 = ''/'' then (if seg_s s1 \<noteq> [] then seg_s s1 else ''x'') else ''/''"
  have "differencePath_loop b (s1 # ss1) (s2 # ss2) = Ret (b @ render [?d])"
    using assms plain_seg_ne [of "seg_s s1"] by (auto simp: render_seg_def)
  moreover have "plain_segs [?d]" using assms by (auto simp: plain_seg_def)
  moreover have "[?d] \<notin> path_set (s2 # ss2)"
    using assms plain_seg_ne [of "seg_s s1"] by (auto simp: path_set_def split: if_splits)
  moreover have "?d \<noteq> []" by simp
  ultimately show ?thesis by (rule that)
qed

lemma differencePath_loop_correct:
  assumes "multi_last ss1" "multi_last ss2" "printable_segs ss1" "printable_segs ss2"
    and "compare_segs ss1 ss2 \<noteq> disjoint"
  shows "\<exists>ds. differencePath_loop b ss1 ss2 = Ret (b @ render ds) \<and> plain_segs ds \<and>
           ds \<in> path_set ss1 \<and>
           (compare_segs ss1 ss2 \<in> {moreGeneral, overlaps} \<longrightarrow> ds \<notin> path_set ss2)"
  using assms
proof (induction ss1 ss2 arbitrary: b rule: compare_segs.induct)
  case 1
  then show ?case by (intro exI [of _ "[]"]) (simp add: writeMatchingPath_def)
next
  case (2 s1 ss1 s2 ss2)
  consider (mm) "seg_multi s1" "seg_multi s2" | (ms) "seg_multi s1" "\<not> seg_multi s2"
    | (sm) "\<not> seg_multi s1" "seg_multi s2" | (ss) "\<not> seg_multi s1" "\<not> seg_multi s2" by blast
  then show ?case
  proof cases
    case mm
    then show ?thesis
      by (intro exI [of _ "[''/'']"]) (simp add: render_seg_def compareSegments_def)
  next
    case ms
    obtain d where "differencePath_loop b (s1 # ss1) (s2 # ss2) = Ret (b @ render [d])"
      "plain_segs [d]" "[d] \<notin> path_set (s2 # ss2)" "d \<noteq> []"
      using diff_multi [OF ms "2.prems"(3,4)] by blast
    with ms show ?thesis by (intro exI [of _ "[d]"]) simp
  next
    case sm
    then have "ss2 = []" using "2.prems" by auto
    then have "differencePath_loop b (s1 # ss1) (s2 # ss2) =
        Ret (b @ render (map seg_witness (s1 # ss1)))"
      using sm by (cases ss1) (simp_all add: writeSegment_render writeMatchingPath_render)
    moreover have "compare_segs (s1 # ss1) (s2 # ss2) = moreSpecific"
      using sm by (simp add: compareSegments_def)
    ultimately show ?thesis
      using witnesses_match [OF "2.prems"(1,3)]
      by (intro exI [of _ "map seg_witness (s1 # ss1)"]) simp
  next
    case ss
    have c: "compareSegments s1 s2 \<noteq> disjoint" and r: "compare_segs ss1 ss2 \<noteq> disjoint"
      using "2.prems"(5) ss by auto
    obtain d where d:
      "differencePath_loop b (s1 # ss1) (s2 # ss2) = differencePath_loop (b @ render_seg d) ss1 ss2"
      "d \<in> seg_set s1" "plain_seg d \<or> (d = ''/'' \<and> ss1 = [])"
      "compareSegments s1 s2 = moreGeneral \<Longrightarrow> d \<notin> seg_set s2"
      using diff_step [OF ss "2.prems"(3,4) c, of b] by blast
    from r ss "2.prems" "2.IH" [of "b @ render_seg d"] obtain ds where ds:
      "differencePath_loop (b @ render_seg d) ss1 ss2 = Ret ((b @ render_seg d) @ render ds)"
      "plain_segs ds" "ds \<in> path_set ss1"
      "compare_segs ss1 ss2 \<in> {moreGeneral, overlaps} \<Longrightarrow> ds \<notin> path_set ss2"
      by auto
    have "ss1 = [] \<Longrightarrow> ds = []" using ds(3) by simp
    then have pl: "plain_segs (d # ds)" using d(3) ds(2) by auto
    have "d \<noteq> []" using d(3) by (auto simp: plain_seg_def)
    then have "d # ds \<in> path_set (s1 # ss1)"
      using ss(1) d(2) ds(3) by (simp add: path_set_ConsI)
    moreover have "compare_segs (s1 # ss1) (s2 # ss2) \<in> {moreGeneral, overlaps} \<Longrightarrow>
        d # ds \<notin> path_set (s2 # ss2)"
      using combine_gains [of "compareSegments s1 s2" "compare_segs ss1 ss2"] d(4) ds(4) ss
      by (auto dest: path_set_ConsD)
    ultimately show ?thesis using d(1) ds(1) pl by (intro exI [of _ "d # ds"]) auto
  qed
qed simp_all

text \<open>Whenever one pattern is more general than or overlaps another, \<open>differencePath\<close>
  returns (it does not panic) a path that the first pattern matches and the second does not.\<close>

theorem differencePath_correct:
  assumes "wf_pattern p1" "wf_pattern p2"
    and "printable_segs (pat_segments p1)" "printable_segs (pat_segments p2)"
    and "comparePaths p1 p2 = Ret rel" and "rel = overlaps \<or> rel = moreGeneral"
  shows "\<exists>path. differencePath p1 p2 = Ret path \<and> path_matches p1 path \<and> \<not> path_matches p2 path"
proof -
  have cmp: "compare_segs (pat_segments p1) (pat_segments p2) = rel"
    using assms(5) comparePaths_compare_segs [OF assms(1,2)] by simp
  with assms differencePath_loop_correct [of "pat_segments p1" "pat_segments p2" "[]"]
  obtain ds where "differencePath p1 p2 = Ret (render ds)" "plain_segs ds"
    "ds \<in> path_set (pat_segments p1)" "ds \<notin> path_set (pat_segments p2)"
    by (auto simp: differencePath_def wf_pattern_def wf_segs_def)
  then show ?thesis by (auto simp: path_matches_def path_segs_render)
qed

theorem differencePath_correct_witness:
  "\<exists>path. differencePath (example_pattern [] [] [lit_seg ''a'', wild_seg ''x'' False])
             (example_pattern [] [] [wild_seg ''y'' False, lit_seg ''b'']) = Ret path \<and>
     path_matches (example_pattern [] [] [lit_seg ''a'', wild_seg ''x'' False]) path"
  using differencePath_correct [of "example_pattern [] [] [lit_seg ''a'', wild_seg ''x'' False]"
      "example_pattern [] [] [wild_seg ''y'' False, lit_seg ''b'']" overlaps]
  by (auto simp add: example_simps comparePaths_def lastSegment_def compareSegments_def
      relationship_defs plain_seg_def)

subsection \<open>Common paths\<close>

fun common_list :: "segment list \<Rightarrow> segment list \<Rightarrow> string list" where
  "common_list (s1 # ss1) (s2 # ss2) =
     (if seg_wild s1 then seg_witness s2 else seg_witness s1) # common_list ss1 ss2"
| "common_list [] ss2 = map seg_witness ss2"
| "common_list ss1 [] = map seg_witness ss1"

text \<open>A single wildcard of the first pattern meets a multi wildcard of the second.\<close>

fun single_meets_multi :: "segment list \<Rightarrow> segment list \<Rightarrow> bool" where
  "single_meets_multi (s1 # ss1) (s2 # ss2) =
     ((seg_wild s1 \<and> \<not> seg_multi s1 \<and> seg_multi s2) \<or> single_meets_multi ss1 ss2)"
| "single_meets_multi ss1 ss2 = False"

lemma commonPath_loop_render: "commonPath_loop ss1 ss2 = render (common_list ss1 ss2)"
  by (induction ss1 ss2 rule: common_list.induct)
     (simp_all add: writeSegment_render writeMatchingPath_render)

lemma common_list_match:
  assumes "multi_last ss1" "multi_last ss2" "printable_segs ss1" "printable_segs ss2"
    and "compare_segs ss1 ss2 \<noteq> disjoint" "\<not> single_meets_multi ss1 ss2"
  shows "plain_segs (common_list ss1 ss2) \<and> common_list ss1 ss2 \<in> path_set ss1 \<inter> path_set ss2"
  using assms
proof (induction ss1 ss2 rule: compare_segs.induct)
  case 1
  then show ?case by simp
next
  case (2 s1 ss1 s2 ss2)
  consider (m1) "seg_multi s1" | (m2) "\<not> seg_multi s1" "seg_multi s2"
    | (ss) "\<not> seg_multi s1" "\<not> seg_multi s2" by blast
  then show ?case
  proof cases
    case m1
    then have "common_list (s1 # ss1) (s2 # ss2) = map seg_witness (s2 # ss2)"
      using "2.prems"(1) by auto
    with m1 witnesses_match [OF "2.prems"(2,4)] show ?thesis
      by (auto simp: path_set_def)
  next
    case m2
    then have "common_list (s1 # ss1) (s2 # ss2) = map seg_witness (s1 # ss1)"
      using "2.prems"(2,6) by (cases ss1) auto
    with m2 witnesses_match [OF "2.prems"(1,3)] show ?thesis
      by (auto simp: path_set_def)
  next
    case ss
    let ?d = "if seg_wild s1 then seg_witness s2 else seg_witness s1"
    have IH: "plain_segs (common_list ss1 ss2)"
      "common_list ss1 ss2 \<in> path_set ss1" "common_list ss1 ss2 \<in> path_set ss2"
      using "2.IH" "2.prems" ss by auto
    have d: "?d \<in> seg_set s1" "?d \<in> seg_set s2" "?d \<noteq> []"
      and pl: "plain_seg ?d \<or> (?d = ''/'' \<and> (ss1 = [] \<or> ss2 = []))"
      using "2.prems" ss
      by (auto simp: compareSegments_def seg_witness_def seg_set_def plain_seg_def split: if_splits)
    have "ss1 = [] \<or> ss2 = [] \<Longrightarrow> common_list ss1 ss2 = []" using IH(2,3) by auto
    then show ?thesis
      using IH d pl ss path_set_ConsI [of s1 ?d "common_list ss1 ss2" ss1]
        path_set_ConsI [of s2 ?d "common_list ss1 ss2" ss2]
      by auto
  qed
qed simp_all

text \<open>For two patterns that are not disjoint, \<open>commonPath\<close> returns a path both match,
  provided no single wildcard of the first pattern meets a multi wildcard of the second.\<close>

theorem commonPath_correct:
  assumes "wf_pattern p1" "wf_pattern p2"
    and "printable_segs (pat_segments p1)" "printable_segs (pat_segments p2)"
    and "comparePaths p1 p2 = Ret rel" "rel \<noteq> disjoint"
    and "\<not> single_meets_multi (pat_segments p1) (pat_segments p2)"
  shows "path_matches p1 (commonPath p1 p2) \<and> path_matches p2 (commonPath p1 p2)"
proof -
  have "compare_segs (pat_segments p1) (pat_segments p2) = rel"
    using assms(5) comparePaths_compare_segs [OF assms(1,2)] by simp
  with assms show ?thesis
    using common_list_match [of "pat_segments p1" "pat_segments p2"]
    by (simp add: path_matches_def commonPath_def commonPath_loop_render path_segs_render
        wf_pattern_def wf_segs_def)
qed

theorem commonPath_correct_witness:
  "path_matches (example_pattern [] [] [lit_seg ''a'', wild_seg ''x'' False]) ''/a/b''"
  using commonPath_correct [of "example_pattern [] [] [lit_seg ''a'', wild_seg ''x'' False]"
      "example_pattern [] [] [wild_seg ''y'' False, lit_seg ''b'']" overlaps]
  by (simp add: example_simps comparePaths_def lastSegment_def compareSegments_def
      relationship_defs plain_seg_def commonPath_def writeSegment_def writeMatchingPath_def)

end
