(* ===== verification/Child_Mapping.thy ===== *)
theory Child_Mapping
  imports Prelude
begin

section \<open>The adaptive mapping (mapping.go)\<close>

text \<open>
  \<open>mapping.go\<close>: a collection of key-value pairs kept in a slice while it is small and in a
  Go map once it has more than \<open>maxSlice\<close> pairs. The locale \<open>keyed_store\<close> is the interface the
  routing tree relies on; its interpretation on \<open>mapping_add\<close> and \<open>mapping_find\<close> shows that
  the change of representation is not observable. A Go map is an association list with
  distinct keys, whose order stands for one of the iteration orders Go may choose.
\<close>

subsection \<open>The interface\<close>

text \<open>
  \<open>add\<close> enters a new key, \<open>put\<close> replaces the value of a key that is present, \<open>pairs\<close> are the
  pairs an iteration visits.
\<close>

locale keyed_store =
  fixes empty :: "'m"
    and add :: "'k \<Rightarrow> 'v \<Rightarrow> 'm \<Rightarrow> 'm"
    and put :: "'k \<Rightarrow> 'v \<Rightarrow> 'm \<Rightarrow> 'm"
    and find :: "'m \<Rightarrow> 'k \<Rightarrow> 'v option"
    and pairs :: "'m \<Rightarrow> ('k \<times> 'v) list"
    and invar :: "'m \<Rightarrow> bool"
  assumes find_empty [simp]: "find empty k = None"
    and find_add: "invar m \<Longrightarrow> find m k = None \<Longrightarrow> find (add k v m) = (find m)(k \<mapsto> v)"
    and find_put: "invar m \<Longrightarrow> find m k \<noteq> None \<Longrightarrow> find (put k v m) = (find m)(k \<mapsto> v)"
    and find_pairs: "invar m \<Longrightarrow> find m k = Some v \<longleftrightarrow> (k, v) \<in> set (pairs m)"
    and distinct_pairs: "invar m \<Longrightarrow> distinct (map fst (pairs m))"
    and invar_empty: "invar empty"
    and invar_add: "invar m \<Longrightarrow> find m k = None \<Longrightarrow> invar (add k v m)"
    and invar_put: "invar m \<Longrightarrow> find m k \<noteq> None \<Longrightarrow> invar (put k v m)"
begin

text \<open>Enter or replace, whichever applies: what mutating the child stored under a key does.\<close>

definition store_upsert :: "'k \<Rightarrow> 'v \<Rightarrow> 'm \<Rightarrow> 'm" where
  "store_upsert k v m = (if find m k = None then add k v m else put k v m)"

lemma find_upsert: "invar m \<Longrightarrow> find (store_upsert k v m) = (find m)(k \<mapsto> v)"
  by (auto simp: store_upsert_def find_add find_put)

lemma invar_upsert: "invar m \<Longrightarrow> invar (store_upsert k v m)"
  by (auto simp: store_upsert_def invar_add invar_put)

text \<open>Entering pairs with new distinct keys one after the other gives a map with all of them.\<close>

lemma find_add_list:
  assumes "invar m" and "distinct (map fst kvs)" and "\<forall>k \<in> fst ` set kvs. find m k = None"
  shows "invar (fold (\<lambda>(k, v). add k v) kvs m) \<and>
         find (fold (\<lambda>(k, v). add k v) kvs m) = find m ++ map_of kvs"
  using assms
proof (induction kvs arbitrary: m)
  case Nil
  then show ?case by simp
next
  case (Cons kv kvs)
  obtain k v where kv: "kv = (k, v)" by fastforce
  have new: "find m k = None" using Cons.prems(3) kv by simp
  have "\<forall>k' \<in> fst ` set kvs. find (add k v m) k' = None"
    using Cons.prems kv by (auto simp: find_add [OF Cons.prems(1) new])
  then have "invar (fold (\<lambda>(k, v). add k v) kvs (add k v m)) \<and>
      find (fold (\<lambda>(k, v). add k v) kvs (add k v m)) = find (add k v m) ++ map_of kvs"
    using Cons.IH [of "add k v m"] Cons.prems invar_add [OF Cons.prems(1) new] by simp
  moreover have "k \<notin> dom (map_of kvs)"
    using Cons.prems(2) kv by (simp add: dom_map_of_conv_image_fst)
  ultimately show ?case
    by (auto simp: kv find_add [OF Cons.prems(1) new] fun_eq_iff map_add_def split: option.splits)
qed

end

subsection \<open>The code\<close>

datatype ('k, 'v) mapping_t =
  MkMapping (mapping_s: "('k \<times> 'v) list") (mapping_m: "('k \<times> 'v) list option")

definition maxSlice :: nat where
  "maxSlice = 8"

definition mapping_empty :: "('k, 'v) mapping_t" where
  "mapping_empty = MkMapping [] None"

definition mapping_add :: "'k \<Rightarrow> 'v \<Rightarrow> ('k, 'v) mapping_t \<Rightarrow> ('k, 'v) mapping_t" where
  "mapping_add k v h =
     (if mapping_m h = None \<and> length (mapping_s h) < maxSlice
      then MkMapping (mapping_s h @ [(k, v)]) (mapping_m h)
      else
        let h' = (case mapping_m h of
                    None \<Rightarrow> MkMapping [] (Some (fold (\<lambda>(k, v). AList.update k v) (mapping_s h) []))
                  | Some _ \<Rightarrow> h)
        in MkMapping (mapping_s h') (map_option (AList.update k v) (mapping_m h')))"

fun slice_find :: "('k \<times> 'v) list \<Rightarrow> 'k \<Rightarrow> 'v option" where
  "slice_find [] k = None"
| "slice_find (e # es) k = (if fst e = k then Some (snd e) else slice_find es k)"

definition mapping_find :: "('k, 'v) mapping_t \<Rightarrow> 'k \<Rightarrow> 'v option" where
  "mapping_find h k =
     (case mapping_m h of
        Some m \<Rightarrow> map_of m k
      | None \<Rightarrow> slice_find (mapping_s h) k)"

text \<open>
  \<open>eachPair\<close> runs its callback over the pairs until it returns \<open>False\<close>; the state is what the
  callback captures.
\<close>

fun each_entry :: "('k \<Rightarrow> 'v \<Rightarrow> 's \<Rightarrow> 's \<times> bool) \<Rightarrow> ('k \<times> 'v) list \<Rightarrow> 's \<Rightarrow> 's" where
  "each_entry f [] st = st"
| "each_entry f ((k, v) # es) st =
     (case f k v st of (st', go_on) \<Rightarrow> if \<not> go_on then st' else each_entry f es st')"

definition mapping_eachPair ::
  "('k \<Rightarrow> 'v \<Rightarrow> 's \<Rightarrow> 's \<times> bool) \<Rightarrow> ('k, 'v) mapping_t \<Rightarrow> 's \<Rightarrow> 's" where
  "mapping_eachPair f h st =
     (case mapping_m h of
        Some m \<Rightarrow> each_entry f m st
      | None \<Rightarrow> each_entry f (mapping_s h) st)"

text \<open>The effect on the mapping of mutating the value a stored pointer leads to.\<close>

definition mapping_put :: "'k \<Rightarrow> 'v \<Rightarrow> ('k, 'v) mapping_t \<Rightarrow> ('k, 'v) mapping_t" where
  "mapping_put k v h =
     (case mapping_m h of
        Some m \<Rightarrow> MkMapping (mapping_s h) (Some (AList.update k v m))
      | None \<Rightarrow> MkMapping (AList.update k v (mapping_s h)) None)"

subsection \<open>The invariant and the interpretation\<close>

definition mapping_pairs :: "('k, 'v) mapping_t \<Rightarrow> ('k \<times> 'v) list" where
  "mapping_pairs h = (case mapping_m h of Some m \<Rightarrow> m | None \<Rightarrow> mapping_s h)"

definition mapping_invar :: "('k, 'v) mapping_t \<Rightarrow> bool" where
  "mapping_invar h =
     (distinct (map fst (mapping_pairs h)) \<and>
      (case mapping_m h of
         None \<Rightarrow> length (mapping_s h) \<le> maxSlice
       | Some m \<Rightarrow> mapping_s h = [] \<and> maxSlice < length m))"

lemma slice_find_map_of: "slice_find es k = map_of es k"
  by (induction es) auto

lemma mapping_find_map_of: "mapping_find h = map_of (mapping_pairs h)"
  by (auto simp: mapping_find_def mapping_pairs_def slice_find_map_of fun_eq_iff split: option.split)

lemma update_new: "k \<notin> fst ` set es \<Longrightarrow> AList.update k v es = es @ [(k, v)]"
  by (induction es) auto

lemma fold_update_distinct:
  "distinct (map fst (es @ es')) \<Longrightarrow> fold (\<lambda>(k, v). AList.update k v) es' es = es @ es'"
  by (induction es' arbitrary: es) (auto simp: update_new)

lemma length_update_old: "k \<in> fst ` set es \<Longrightarrow> length (AList.update k v es) = length es"
  by (induction es) auto

lemma mapping_pairs_add:
  assumes "mapping_invar h" and "mapping_find h k = None"
  shows "mapping_pairs (mapping_add k v h) = mapping_pairs h @ [(k, v)]"
  using assms fold_update_distinct [of "[]" "mapping_s h"]
  by (auto simp: mapping_add_def mapping_find_map_of mapping_pairs_def mapping_invar_def
      map_of_eq_None_iff update_new split: option.splits)

lemma mapping_pairs_put: "mapping_pairs (mapping_put k v h) = AList.update k v (mapping_pairs h)"
  by (simp add: mapping_put_def mapping_pairs_def split: option.split)

lemma mapping_add_shape:
  assumes "mapping_invar h" and "mapping_find h k = None"
  shows "mapping_invar (mapping_add k v h)"
proof -
  have d: "distinct (map fst (mapping_pairs (mapping_add k v h)))"
    using assms mapping_pairs_add [OF assms]
    by (auto simp: mapping_invar_def mapping_find_map_of map_of_eq_None_iff)
  show ?thesis
    using assms d mapping_pairs_add [OF assms, of v] fold_update_distinct [of "[]" "mapping_s h"]
    by (auto simp: mapping_invar_def mapping_add_def mapping_pairs_def map_of_eq_None_iff
        mapping_find_map_of update_new split: option.splits)
qed

lemma mapping_put_shape:
  assumes "mapping_invar h" and "mapping_find h k \<noteq> None"
  shows "mapping_invar (mapping_put k v h)"
proof -
  have "k \<in> fst ` set (mapping_pairs h)"
    using assms(2) by (auto simp: mapping_find_map_of map_of_eq_None_iff)
  with assms(1) show ?thesis
    unfolding mapping_invar_def mapping_pairs_put
    by (auto simp: mapping_put_def mapping_pairs_def length_update_old distinct_update
        split: option.splits)
qed

interpretation cm: keyed_store mapping_empty mapping_add mapping_put mapping_find mapping_pairs mapping_invar
proof (unfold_locales, goal_cases)
  case (1 k)
  show ?case by (simp add: mapping_empty_def mapping_find_def)
next
  case (2 m k v)
  then show ?case
    by (auto simp: mapping_find_map_of mapping_pairs_add fun_eq_iff map_add_def
        split: option.splits)
next
  case (3 m k v)
  then show ?case by (simp add: mapping_find_map_of mapping_pairs_put update_conv')
next
  case (4 m k v)
  then show ?case by (simp add: mapping_find_map_of mapping_invar_def)
next
  case (5 m)
  then show ?case by (simp add: mapping_invar_def)
next
  case 6
  show ?case by (simp add: mapping_invar_def mapping_empty_def mapping_pairs_def)
next
  case (7 m k v)
  then show ?case by (rule mapping_add_shape)
next
  case (8 m k v)
  then show ?case by (rule mapping_put_shape)
qed

text \<open>Adding any list of pairs with distinct keys to the zero mapping, in slice or in map
  representation, gives a mapping that finds exactly these pairs.\<close>

theorem mapping_find_after_adds:
  assumes "distinct (map fst kvs)"
  shows "mapping_find (fold (\<lambda>(k, v). mapping_add k v) kvs mapping_empty) = map_of kvs"
  using cm.find_add_list [OF cm.invar_empty assms] by (auto simp: fun_eq_iff map_add_def split: option.split)

theorem mapping_find_after_adds_witness:
  "mapping_find (fold (\<lambda>(k, v). mapping_add k v) (zip [0 ..< 12] [20 ..< 32]) mapping_empty) (9 :: nat) =
     Some (29 :: nat)"
proof -
  have "distinct (map fst (zip [0 ..< 12] [20 ..< 32 :: nat]))" by simp
  from mapping_find_after_adds [OF this] show ?thesis by (simp add: upt_rec)
qed

end
