(* ===== verification/Routing_Tree.thy ===== *)
theory Routing_Tree
  imports Child_Mapping Request_Path
begin

section \<open>The routing tree (routing_tree.go)\<close>

text \<open>
  \<open>routing_tree.go\<close>: the decision tree that finds the pattern for a request. Its first two levels
  branch on the host and the method, the rest on the segments of the path; a child key is
  \<open>""\<close> for a single wildcard and \<open>"*"\<close> for a multi wildcard. A node the code mutates through
  a pointer is returned updated here and written back into its parent by \<open>storeChild\<close>. The
  leaf test of \<open>matchPath\<close> dereferences \<open>c.pattern\<close>, which panics on an interior node.
\<close>

datatype 'h routingNode =
  RNode (rn_pattern: "pattern option") (rn_handler: "'h option")
    (rn_children: "(string, 'h routingNode) mapping_t") (rn_emptyChild: "'h routingNode option")

definition newNode :: "'h routingNode" where
  "newNode = RNode None None mapping_empty None"

subsection \<open>Adding patterns\<close>

definition findChild :: "'h routingNode \<Rightarrow> string \<Rightarrow> 'h routingNode option" where
  "findChild n key = (if key = [] then rn_emptyChild n else mapping_find (rn_children n) key)"

text \<open>The node after \<open>addChild\<close> and the child it returns.\<close>

definition addChild :: "string \<Rightarrow> 'h routingNode \<Rightarrow> 'h routingNode \<times> 'h routingNode" where
  "addChild key n =
     (if key = [] then
        (case rn_emptyChild n of
           None \<Rightarrow> (RNode (rn_pattern n) (rn_handler n) (rn_children n) (Some newNode), newNode)
         | Some c \<Rightarrow> (n, c))
      else
        (case findChild n key of
           Some c \<Rightarrow> (n, c)
         | None \<Rightarrow>
             (RNode (rn_pattern n) (rn_handler n) (mapping_add key newNode (rn_children n))
                (rn_emptyChild n), newNode)))"

definition storeChild :: "string \<Rightarrow> 'h routingNode \<Rightarrow> 'h routingNode \<Rightarrow> 'h routingNode" where
  "storeChild key c n =
     (if key = [] then RNode (rn_pattern n) (rn_handler n) (rn_children n) (Some c)
      else RNode (rn_pattern n) (rn_handler n) (mapping_put key c (rn_children n)) (rn_emptyChild n))"

definition set_leaf :: "pattern \<Rightarrow> 'h \<Rightarrow> 'h routingNode \<Rightarrow> 'h routingNode go" where
  "set_leaf p h n =
     (if rn_pattern n \<noteq> None \<or> rn_handler n \<noteq> None then Panic ''non-nil leaf fields''
      else Ret (RNode (Some p) (Some h) (rn_children n) (rn_emptyChild n)))"

text \<open>\<open>n.addChild(key)\<close> followed by a mutation \<open>f\<close> of the child it returns.\<close>

definition at_child ::
  "string \<Rightarrow> ('h routingNode \<Rightarrow> 'h routingNode go) \<Rightarrow> 'h routingNode \<Rightarrow> 'h routingNode go" where
  "at_child key f n =
     (case addChild key n of (n1, c) \<Rightarrow> go_bind (f c) (\<lambda>c'. Ret (storeChild key c' n1)))"

fun addSegments :: "segment list \<Rightarrow> pattern \<Rightarrow> 'h \<Rightarrow> 'h routingNode \<Rightarrow> 'h routingNode go" where
  "addSegments [] p h n = set_leaf p h n"
| "addSegments (seg # segs) p h n =
     (if seg_multi seg then
        (if segs \<noteq> [] then Panic ''multi wildcard not last''
         else at_child ''*'' (set_leaf p h) n)
      else if seg_wild seg then at_child [] (addSegments segs p h) n
      else at_child (seg_s seg) (addSegments segs p h) n)"

definition addPattern :: "pattern \<Rightarrow> 'h \<Rightarrow> 'h routingNode \<Rightarrow> 'h routingNode go" where
  "addPattern p h root =
     at_child (pat_host p) (at_child (pat_method p) (addSegments (pat_segments p) p h)) root"

subsection \<open>Matching requests\<close>

function matchPath :: "'h routingNode option \<Rightarrow> string \<Rightarrow> string list \<Rightarrow>
    ('h routingNode \<times> string list) option go" where
  "matchPath None path matches = Ret None"
| "matchPath (Some n) path matches =
     (if path = [] then
        (if rn_pattern n = None then Ret None else Ret (Some (n, matches)))
      else
        case firstSegment path of (seg, rest) \<Rightarrow>
          go_bind (matchPath (findChild n seg) rest matches) (\<lambda>r.
            case r of Some m \<Rightarrow> Ret (Some m)
            | None \<Rightarrow>
                go_bind (if seg \<noteq> ''/'' then matchPath (rn_emptyChild n) rest (matches @ [seg])
                         else Ret None) (\<lambda>r.
                  case r of Some m \<Rightarrow> Ret (Some m)
                  | None \<Rightarrow>
                      (case findChild n ''*'' of
                         None \<Rightarrow> Ret None
                       | Some c \<Rightarrow>
                           (case rn_pattern c of
                              None \<Rightarrow> Panic ''nil pointer dereference''
                            | Some p \<Rightarrow>
                                go_bind (lastSegment p) (\<lambda>l.
                                  Ret (Some (c, if seg_s l \<noteq> []
                                                then matches @ [pathUnescape (tl path)]
                                                else matches))))))))"
  by pat_completeness auto
termination
proof (relation "measure (\<lambda>(n, path, ms). length path)", goal_cases)
  case 1
  show ?case by simp
next
  case (2 n path ms seg rest)
  then have "snd (firstSegment path) = rest" by (metis snd_conv)
  with 2 show ?case using firstSegment_shorter [of path] by auto
next
  case (3 n path ms seg rest)
  then have "snd (firstSegment path) = rest" by (metis snd_conv)
  with 3 show ?case using firstSegment_shorter [of path] by auto
qed

declare matchPath.simps(2) [simp del]

definition matchMethodAndPath :: "'h routingNode option \<Rightarrow> string \<Rightarrow> string \<Rightarrow>
    ('h routingNode \<times> string list) option go" where
  "matchMethodAndPath n method path =
     (case n of None \<Rightarrow> Ret None
      | Some n \<Rightarrow>
          go_bind (matchPath (findChild n method) path []) (\<lambda>r.
            case r of Some m \<Rightarrow> Ret (Some m)
            | None \<Rightarrow>
                go_bind (if method = ''HEAD'' then matchPath (findChild n ''GET'') path []
                         else Ret None) (\<lambda>r.
                  case r of Some m \<Rightarrow> Ret (Some m)
                  | None \<Rightarrow> matchPath (rn_emptyChild n) path [])))"

definition match_tree :: "'h routingNode \<Rightarrow> string \<Rightarrow> string \<Rightarrow> string \<Rightarrow>
    ('h routingNode \<times> string list) option go" where
  "match_tree root host method path =
     go_bind (if host \<noteq> [] then matchMethodAndPath (findChild root host) method path else Ret None)
       (\<lambda>r. case r of Some m \<Rightarrow> Ret (Some m)
            | None \<Rightarrow> matchMethodAndPath (rn_emptyChild root) method path)"

text \<open>
  \<open>matchingMethods\<close> adds methods to a set; a panic of \<open>matchPath\<close> in the callback stops the
  iteration.
\<close>

definition add_matching_method ::
  "string \<Rightarrow> string \<Rightarrow> 'h routingNode \<Rightarrow> string set go \<Rightarrow> string set go \<times> bool" where
  "add_matching_method path method c st =
     (case st of Panic e \<Rightarrow> (Panic e, False)
      | Ret ms \<Rightarrow>
          (case matchPath (Some c) path [] of
             Panic e \<Rightarrow> (Panic e, False)
           | Ret r \<Rightarrow> (Ret (if r \<noteq> None then insert method ms else ms), True)))"

definition matchingMethodsPath ::
  "'h routingNode option \<Rightarrow> string \<Rightarrow> string set go \<Rightarrow> string set go" where
  "matchingMethodsPath n path st =
     (case n of None \<Rightarrow> st
      | Some n \<Rightarrow> mapping_eachPair (add_matching_method path) (rn_children n) st)"

definition matchingMethods_tree ::
  "'h routingNode \<Rightarrow> string \<Rightarrow> string \<Rightarrow> string set \<Rightarrow> string set go" where
  "matchingMethods_tree root host path methodSet =
     go_bind
       (matchingMethodsPath (rn_emptyChild root) path
         (if host \<noteq> [] then matchingMethodsPath (findChild root host) path (Ret methodSet)
          else Ret methodSet))
       (\<lambda>ms. Ret (if ''GET'' \<in> ms then insert ''HEAD'' ms else ms))"

end
