(* ===== verification/Routing_Match.thy ===== *)
theory Routing_Match
  imports Routing_Tree
begin

section \<open>The routing tree finds the most specific pattern\<close>

text \<open>
  The tree as a map from key lists to registered patterns (\<open>entry_at\<close>): adding a pattern updates
  this map at the pattern's own keys and nowhere else, and \<open>match_tree\<close> returns the entry whose
  pattern matches the request and precedes every other matching entry.
\<close>

subsection \<open>The tree as a map from keys to entries\<close>

fun node_at :: "'h routingNode \<Rightarrow> string list \<Rightarrow> 'h routingNode option" where
  "node_at n [] = Some n"
| "node_at n (k # ks) = (case findChild n k of None \<Rightarrow> None | Some c \<Rightarrow> node_at c ks)"

definition node_entry :: "'h routingNode \<Rightarrow> (pattern \<times> 'h) option" where
  "node_entry n =
     (case rn_pattern n of None \<Rightarrow> None
      | Some p \<Rightarrow> (case rn_handler n of None \<Rightarrow> None | Some h \<Rightarrow> Some (p, h)))"

definition entry_at :: "'h routingNode \<Rightarrow> string list \<Rightarrow> (pattern \<times> 'h) option" where
  "entry_at n ks = (case node_at n ks of None \<Rightarrow> None | Some c \<Rightarrow> node_entry c)"

definition seg_key :: "segment \<Rightarrow> string" where
  "seg_key s = (if seg_multi s then ''*'' else if seg_wild s then [] else seg_s s)"

definition pattern_keys :: "pattern \<Rightarrow> string list" where
  "pattern_keys p = pat_host p # pat_method p # map seg_key (pat_segments p)"

text \<open>
  Every node has its children in a well-formed mapping without the key \<open>""\<close> and both or neither of its leaf fields;
  every child leads to an entry.
\<close>

definition children_ok :: "(string, 'h routingNode) mapping_t \<Rightarrow> bool" where
  "children_ok m = (mapping_invar m \<and> mapping_find m [] = None)"

definition node_ok :: "'h routingNode \<Rightarrow> bool" where
  "node_ok n = (\<forall>ks c. node_at n ks = Some c \<longrightarrow>
     children_ok (rn_children c) \<and> (rn_pattern c = None \<longleftrightarrow> rn_handler c = None) \<and>
     (ks \<noteq> [] \<longrightarrow> (\<exists>ks'. entry_at c ks' \<noteq> None)))"

lemma entry_at_Nil [simp]: "entry_at n [] = node_entry n"
  by (simp add: entry_at_def)

lemma entry_at_Cons:
  "entry_at n (k # ks) = (case findChild n k of None \<Rightarrow> None | Some c \<Rightarrow> entry_at c ks)"
  by (simp add: entry_at_def split: option.split)

lemma node_ok_local:
  assumes "node_ok n"
  shows "children_ok (rn_children n)" and "rn_pattern n = None \<longleftrightarrow> rn_handler n = None"
  using assms unfolding node_ok_def by (metis node_at.simps(1))+

lemma node_ok_child:
  assumes "node_ok n" and "findChild n k = Some c"
  shows "node_ok c" and "\<exists>ks. entry_at c ks \<noteq> None"
proof -
  have "node_at n (k # ks) = node_at c ks" for ks using assms(2) by simp
  with assms(1) show "node_ok c" unfolding node_ok_def by (metis list.distinct(1))
  have "node_at n [k] = Some c" using assms(2) by simp
  with assms(1) show "\<exists>ks. entry_at c ks \<noteq> None" unfolding node_ok_def by blast
qed

lemma node_ok_step:
  assumes "children_ok (rn_children n)" and "rn_pattern n = None \<longleftrightarrow> rn_handler n = None"
    and "\<And>k c. findChild n k = Some c \<Longrightarrow> node_ok c \<and> (\<exists>ks. entry_at c ks \<noteq> None)"
  shows "node_ok n"
  unfolding node_ok_def
proof (intro allI impI)
  fix ks c
  assume at: "node_at n ks = Some c"
  show "children_ok (rn_children c) \<and> (rn_pattern c = None \<longleftrightarrow> rn_handler c = None) \<and>
      (ks \<noteq> [] \<longrightarrow> (\<exists>ks'. entry_at c ks' \<noteq> None))"
  proof (cases ks)
    case Nil
    with at assms(1,2) show ?thesis by simp
  next
    case (Cons k ks')
    with at obtain d where d: "findChild n k = Some d" "node_at d ks' = Some c"
      by (auto split: option.splits)
    have okd: "node_ok d" and ex: "\<exists>ks. entry_at d ks \<noteq> None"
      using assms(3) [OF d(1)] by auto
    from okd d(2) have "children_ok (rn_children c) \<and>
        (rn_pattern c = None \<longleftrightarrow> rn_handler c = None) \<and> (ks' \<noteq> [] \<longrightarrow> (\<exists>ks. entry_at c ks \<noteq> None))"
      unfolding node_ok_def by blast
    moreover have "ks' = [] \<Longrightarrow> c = d" using d(2) by simp
    ultimately show ?thesis using ex by blast
  qed
qed

lemma node_ok_newNode [simp]: "node_ok newNode" and entry_at_newNode [simp]: "entry_at newNode ks = None"
proof -
  have none: "findChild newNode k = None" for k :: string
    by (simp add: findChild_def newNode_def)
  show "node_ok (newNode :: 'h routingNode)"
    by (rule node_ok_step) (simp_all add: none, simp_all add: newNode_def cm.invar_empty children_ok_def)
  show "entry_at (newNode :: 'h routingNode) ks = None"
    by (cases ks) (simp_all add: entry_at_Cons none, simp add: node_entry_def newNode_def)
qed

subsection \<open>Adding a pattern\<close>

text \<open>Mutating the child under a key changes that child only.\<close>

lemma at_child_spec:
  assumes ok: "children_ok (rn_children n)"
    and ret: "at_child key f n = Ret n'"
  obtains c' where
    "f (case findChild n key of None \<Rightarrow> newNode | Some c \<Rightarrow> c) = Ret c'"
    and "findChild n' = (findChild n)(key \<mapsto> c')"
    and "children_ok (rn_children n')"
    and "rn_pattern n' = rn_pattern n" and "rn_handler n' = rn_handler n"
proof -
  have inv: "mapping_invar (rn_children n)" and none: "mapping_find (rn_children n) [] = None"
    using ok by (simp_all add: children_ok_def)
  obtain n1 c where ac: "addChild key n = (n1, c)" by fastforce
  with ret obtain c' where c': "f c = Ret c'" "n' = storeChild key c' n1"
    by (auto simp: at_child_def)
  have c: "c = (case findChild n key of None \<Rightarrow> newNode | Some c \<Rightarrow> c)"
    using ac by (auto simp: addChild_def findChild_def split: if_splits option.splits)
  have n1: "children_ok (rn_children n1)" "key \<noteq> [] \<longrightarrow> mapping_find (rn_children n1) key \<noteq> None"
    and same: "rn_pattern n1 = rn_pattern n" "rn_handler n1 = rn_handler n"
    and other: "k \<noteq> key \<Longrightarrow> findChild n1 k = findChild n k" for k
    using ac inv none cm.invar_add [OF inv] cm.find_add [OF inv]
    by (auto simp: addChild_def findChild_def children_ok_def split: if_splits option.splits)
  have inv1: "mapping_invar (rn_children n1)" using n1(1) by (simp add: children_ok_def)
  have "findChild n' = (findChild n)(key \<mapsto> c')"
  proof
    fix k
    show "findChild n' k = ((findChild n)(key \<mapsto> c')) k"
      using c'(2) n1 other [of k] cm.find_put [OF inv1, of key c']
      by (auto simp: storeChild_def findChild_def)
  qed
  moreover have "children_ok (rn_children n')"
    using c'(2) n1 inv1 cm.invar_put [OF inv1] cm.find_put [OF inv1]
    by (auto simp: storeChild_def children_ok_def)
  ultimately show ?thesis
    using that [of c'] c' c same by (simp add: storeChild_def split: if_splits)
qed

text \<open>What an update at the keys \<open>ks\<close> does to the map of entries.\<close>

definition adds_entry ::
  "('h routingNode \<Rightarrow> 'h routingNode go) \<Rightarrow> string list \<Rightarrow> pattern \<times> 'h \<Rightarrow> bool" where
  "adds_entry f ks e = (\<forall>n. node_ok n \<longrightarrow>
     (\<forall>n'. f n = Ret n' \<longrightarrow> node_ok n' \<and> entry_at n' = (entry_at n)(ks \<mapsto> e)) \<and>
     (entry_at n ks = None \<longrightarrow> no_panic (f n)))"

lemma adds_entry_set_leaf:
  fixes h :: 'h
  shows "adds_entry (set_leaf p h) [] (p, h)"
  unfolding adds_entry_def
proof (intro allI impI conjI)
  fix n n' :: "'h routingNode"
  assume ok: "node_ok n" and ret: "set_leaf p h n = Ret n'"
  then have n': "n' = RNode (Some p) (Some h) (rn_children n) (rn_emptyChild n)"
    by (simp add: set_leaf_def split: if_splits)
  then have fc: "findChild n' = findChild n" by (simp add: findChild_def fun_eq_iff)
  show "node_ok n'"
  proof (rule node_ok_step)
    show "children_ok (rn_children n')" "rn_pattern n' = None \<longleftrightarrow> rn_handler n' = None"
      using n' node_ok_local [OF ok] by simp_all
    show "node_ok c \<and> (\<exists>ks. entry_at c ks \<noteq> None)" if "findChild n' k = Some c" for k c
      using that node_ok_child [OF ok] unfolding fc by blast
  qed
  show "entry_at n' = (entry_at n)([] \<mapsto> (p, h))"
  proof
    fix ks
    show "entry_at n' ks = ((entry_at n)([] \<mapsto> (p, h))) ks"
      by (cases ks) (simp_all add: entry_at_Cons fc, simp add: node_entry_def n')
  qed
next
  fix n :: "'h routingNode"
  assume ok: "node_ok n" and "entry_at n [] = None"
  then show "no_panic (set_leaf p h n)"
    using node_ok_local(2) [OF ok] by (auto simp: set_leaf_def node_entry_def split: option.splits)
qed

lemma adds_entry_at_child:
  fixes f :: "'h routingNode \<Rightarrow> 'h routingNode go"
  assumes f: "adds_entry f ks e"
  shows "adds_entry (at_child key f) (key # ks) e"
  unfolding adds_entry_def
proof (intro allI impI conjI)
  fix n n' :: "'h routingNode"
  assume ok: "node_ok n" and ret: "at_child key f n = Ret n'"
  let ?c = "case findChild n key of None \<Rightarrow> newNode | Some c \<Rightarrow> c"
  have okc: "node_ok ?c" using node_ok_child(1) [OF ok] by (auto split: option.split)
  obtain c' where c': "f ?c = Ret c'" and fc: "findChild n' = (findChild n)(key \<mapsto> c')"
    and inv: "children_ok (rn_children n')"
    and same: "rn_pattern n' = rn_pattern n" "rn_handler n' = rn_handler n"
    using at_child_spec [OF node_ok_local(1) [OF ok] ret] by blast
  have c'_ok: "node_ok c'" and c'_e: "entry_at c' = (entry_at ?c)(ks \<mapsto> e)"
    using f okc c' unfolding adds_entry_def by blast+
  then have "\<exists>ks. entry_at c' ks \<noteq> None" by (intro exI [of _ ks]) simp
  then show "node_ok n'"
    using inv same node_ok_local(2) [OF ok] node_ok_child [OF ok] c'_ok fc
    by (intro node_ok_step) (auto split: if_splits)
  show "entry_at n' = (entry_at n)(key # ks \<mapsto> e)"
  proof
    fix js
    show "entry_at n' js = ((entry_at n)(key # ks \<mapsto> e)) js"
      using same c'_e
      by (cases js) (auto simp: entry_at_Cons fc node_entry_def split: option.splits)
  qed
next
  fix n :: "'h routingNode"
  assume ok: "node_ok n" and new: "entry_at n (key # ks) = None"
  obtain n1 c where ac: "addChild key n = (n1, c)" by fastforce
  have c: "c = (case findChild n key of None \<Rightarrow> newNode | Some c \<Rightarrow> c)"
    using ac by (auto simp: addChild_def findChild_def split: if_splits option.splits)
  then have "node_ok c" "entry_at c ks = None"
    using node_ok_child(1) [OF ok] new by (auto simp: entry_at_Cons split: option.splits)
  then have "no_panic (f c)" using f unfolding adds_entry_def by blast
  then show "no_panic (at_child key f n)"
    using ac by (auto simp: at_child_def no_panic_iff)
qed

lemma adds_entry_addSegments:
  "multi_last segs \<Longrightarrow> adds_entry (addSegments segs p h) (map seg_key segs) (p, h)"
proof (induction segs)
  case Nil
  then show ?case using adds_entry_set_leaf by simp
next
  case (Cons s ss)
  show ?case
  proof (cases "seg_multi s")
    case True
    then have "ss = []" using Cons.prems by simp
    with True show ?thesis
      using adds_entry_at_child [OF adds_entry_set_leaf, of "''*''"] by (simp add: seg_key_def)
  next
    case False
    then have "seg_key s = (if seg_wild s then [] else seg_s s)" by (simp add: seg_key_def)
    with Cons False show ?thesis
      using adds_entry_at_child [of "addSegments ss p h" "map seg_key ss" "(p, h)"] by simp
  qed
qed

lemma adds_entry_addPattern:
  "multi_last (pat_segments p) \<Longrightarrow> adds_entry (addPattern p h) (pattern_keys p) (p, h)"
  unfolding addPattern_def pattern_keys_def
  by (intro adds_entry_at_child adds_entry_addSegments)

text \<open>Adding a pattern to a tree changes the entry at the pattern's own keys and no other,
  keeps the tree well formed, and cannot panic when those keys are free.\<close>

theorem addPattern_correct:
  assumes "node_ok root" and "multi_last (pat_segments p)"
    and "entry_at root (pattern_keys p) = None"
  shows "\<exists>root'. addPattern p h root = Ret root' \<and> node_ok root' \<and>
           entry_at root' = (entry_at root)(pattern_keys p \<mapsto> (p, h))"
  using adds_entry_addPattern [OF assms(2), of h] assms(1,3)
  unfolding adds_entry_def no_panic_iff by blast

theorem addPattern_correct_witness:
  "\<exists>root'. addPattern (example_pattern ''GET'' [] [lit_seg ''a'', wild_seg [] True]) (7 :: nat) newNode =
     Ret root' \<and> entry_at root' [[], ''GET'', ''a'', ''*''] \<noteq> None"
  using addPattern_correct [of newNode "example_pattern ''GET'' [] [lit_seg ''a'', wild_seg [] True]" 7]
  by (auto simp: pattern_keys_def seg_key_def lit_seg_def wild_seg_def)

subsection \<open>Matching a path\<close>

text \<open>
  Key lists determine segments: no literal is one of the reserved keys. Below a node, the
  entries are the patterns with the remaining segments.
\<close>

definition routable_segs :: "segment list \<Rightarrow> bool" where
  "routable_segs ss = (\<forall>s \<in> set ss. \<not> seg_wild s \<longrightarrow> seg_s s \<noteq> [] \<and> seg_s s \<noteq> ''*'')"

definition plain_request :: "string \<Rightarrow> bool" where
  "plain_request path = ([] \<notin> set (path_segs path) \<and> ''*'' \<notin> set (path_segs path))"

definition path_node :: "'h routingNode \<Rightarrow> bool" where
  "path_node n = (node_ok n \<and>
     (\<forall>ks p h. entry_at n ks = Some (p, h) \<longrightarrow>
        (\<exists>ss. ks = map seg_key ss \<and> suffix ss (pat_segments p) \<and> multi_last ss \<and> routable_segs ss \<and>
              pat_segments p \<noteq> [])))"

text \<open>The wildcard values a match records.\<close>

fun captures :: "segment list \<Rightarrow> string \<Rightarrow> string list" where
  "captures [] path = []"
| "captures (s # ss) path =
     (if seg_multi s then (if seg_s s \<noteq> [] then [pathUnescape (tl path)] else [])
      else if seg_wild s then fst (firstSegment path) # captures ss (snd (firstSegment path))
      else captures ss (snd (firstSegment path)))"

lemma path_node_child:
  assumes "path_node n" and "findChild n k = Some c"
  shows "path_node c"
proof -
  have ok: "node_ok n" and e: "entry_at n ks = Some (p, h) \<Longrightarrow>
      \<exists>ss. ks = map seg_key ss \<and> suffix ss (pat_segments p) \<and> multi_last ss \<and> routable_segs ss \<and>
        pat_segments p \<noteq> []" for ks p h
    using assms(1) by (auto simp: path_node_def)
  show ?thesis
    unfolding path_node_def
  proof (intro conjI allI impI)
    show "node_ok c" by (rule node_ok_child(1) [OF ok assms(2)])
    fix ks p h
    assume "entry_at c ks = Some (p, h)"
    then have "entry_at n (k # ks) = Some (p, h)" using assms(2) by (simp add: entry_at_Cons)
    from e [OF this] obtain s ss where "ks = map seg_key ss" "suffix (s # ss) (pat_segments p)"
      "multi_last (s # ss)" "routable_segs (s # ss)" "pat_segments p \<noteq> []" by auto
    then show "\<exists>ss. ks = map seg_key ss \<and> suffix ss (pat_segments p) \<and> multi_last ss \<and>
        routable_segs ss \<and> pat_segments p \<noteq> []"
      by (auto simp: routable_segs_def dest: suffix_ConsD intro!: exI [of _ ss])
  qed
qed

lemma path_node_entryE:
  assumes "path_node n" and "entry_at n ks = Some (p, h)"
  obtains ss where "ks = map seg_key ss" and "suffix ss (pat_segments p)" and "multi_last ss"
    and "routable_segs ss" and "pat_segments p \<noteq> []"
  using assms unfolding path_node_def by metis

text \<open>The child under \<open>"*"\<close> is the leaf of a multi wildcard.\<close>

lemma path_node_multi_leaf:
  assumes n: "path_node n" and c: "findChild n ''*'' = Some c"
  obtains p h s where "node_entry c = Some (p, h)" and "entry_at n [''*''] = Some (p, h)"
    and "seg_multi s" and "suffix [s] (pat_segments p)" and "routable_segs [s]" and "seg_wild s"
proof -
  have ok: "node_ok n" using n by (simp add: path_node_def)
  obtain ks p h where e: "entry_at c ks = Some (p, h)"
    using node_ok_child(2) [OF ok c] by auto
  then have "entry_at n (''*'' # ks) = Some (p, h)" using c by (simp add: entry_at_Cons)
  then obtain ss where ss: "''*'' # ks = map seg_key ss" "suffix ss (pat_segments p)"
    "multi_last ss" "routable_segs ss"
    by (rule path_node_entryE [OF n])
  then obtain s ss' where s: "ss = s # ss'" "seg_key s = ''*''" "ks = map seg_key ss'" by (cases ss) auto
  with ss have m: "seg_multi s" by (auto simp: seg_key_def routable_segs_def split: if_splits)
  with ss s have "ss' = []" by simp
  with s e c m ss show ?thesis
    by (intro that [of p h s]) (auto simp: entry_at_Cons)
qed

lemma seg_key_literal:
  assumes "seg_key s = r" and "r \<noteq> []" and "r \<noteq> ''*''"
  shows "\<not> seg_multi s \<and> \<not> seg_wild s \<and> seg_s s = r"
  using assms by (auto simp: seg_key_def split: if_splits)

lemma seg_key_wild:
  assumes "seg_key s = []" and "routable_segs (s # ss)"
  shows "\<not> seg_multi s \<and> seg_wild s"
  using assms by (auto simp: seg_key_def routable_segs_def split: if_splits)

text \<open>The patterns below a node, by their remaining segments, and those that match a path.\<close>

definition fits :: "'h routingNode \<Rightarrow> segment list \<Rightarrow> pattern \<Rightarrow> 'h \<Rightarrow> bool" where
  "fits n ss p h = (entry_at n (map seg_key ss) = Some (p, h) \<and> suffix ss (pat_segments p) \<and>
     multi_last ss \<and> routable_segs ss)"

definition solutions :: "'h routingNode option \<Rightarrow> string \<Rightarrow> segment list set" where
  "solutions no path =
     {ss. \<exists>n p h. no = Some n \<and> fits n ss p h \<and> segs_match ss (path_segs path)}"

lemma fits_down:
  "fits n (s # ss) p h \<Longrightarrow> \<exists>c. findChild n (seg_key s) = Some c \<and> fits c ss p h"
  by (auto simp: fits_def entry_at_Cons routable_segs_def dest: suffix_ConsD split: option.splits)

lemma fits_up:
  assumes "path_node n" and "findChild n k = Some c" and "fits c ss p h"
  obtains s where "seg_key s = k" and "fits n (s # ss) p h"
proof -
  have "entry_at n (k # map seg_key ss) = Some (p, h)"
    using assms by (simp add: entry_at_Cons fits_def)
  then obtain ss0 where ss0: "k # map seg_key ss = map seg_key ss0" "suffix ss0 (pat_segments p)"
    "multi_last ss0" "routable_segs ss0"
    by (rule path_node_entryE [OF assms(1)])
  then obtain s ss' where ss': "ss0 = s # ss'" "seg_key s = k" "map seg_key ss' = map seg_key ss"
    by (cases ss0) auto
  have "suffix ss' (pat_segments p)" "suffix ss (pat_segments p)" "length ss' = length ss"
    using ss0 ss' assms(3) by (auto simp: fits_def dest: suffix_ConsD map_eq_imp_length_eq)
  then have "ss' = ss" by (auto simp: suffix_def)
  with ss0 ss' assms(2,3) have "fits n (s # ss) p h"
    by (simp add: fits_def entry_at_Cons)
  with ss'(2) show ?thesis by (rule that)
qed

text \<open>A solution of a node starts with the literal, a single wildcard or a multi wildcard.\<close>

lemma solutions_cases:
  assumes n: "path_node n" and path: "path \<noteq> []" "firstSegment path = (seg, rest)"
    and ss: "ss \<in> solutions (Some n) path"
  obtains (lit) s ss' where "ss = s # ss'" "\<not> seg_multi s" "\<not> seg_wild s" "seg_s s = seg"
      "ss' \<in> solutions (findChild n seg) rest"
  | (wild) s ss' where "ss = s # ss'" "\<not> seg_multi s" "seg_wild s" "seg \<noteq> ''/''"
      "ss' \<in> solutions (rn_emptyChild n) rest"
  | (multi) s where "ss = [s]" "seg_multi s" "seg_wild s" "findChild n ''*'' \<noteq> None"
proof -
  have segs: "path_segs path = seg # path_segs rest" using path by (simp add: path_segs.simps)
  obtain p h where f: "fits n ss p h" and m: "segs_match ss (path_segs path)"
    using ss by (auto simp: solutions_def)
  then obtain s ss' where s: "ss = s # ss'" using segs by (cases ss) auto
  obtain c where c: "findChild n (seg_key s) = Some c" "fits c ss' p h"
    using fits_down [OF f [unfolded s]] by auto
  have ml: "seg_multi s \<longrightarrow> seg_wild s \<and> ss' = []" using f s by (simp add: fits_def)
  consider "seg_multi s" | "\<not> seg_multi s" "seg_wild s" | "\<not> seg_multi s" "\<not> seg_wild s" by blast
  then show ?thesis
  proof cases
    case 1
    with ml s c show ?thesis by (intro multi) (auto simp: seg_key_def)
  next
    case 2
    with s m segs c show ?thesis
      by (intro wild) (auto simp: solutions_def seg_key_def findChild_def)
  next
    case 3
    with s m segs c show ?thesis by (intro lit) (auto simp: solutions_def seg_key_def)
  qed
qed

text \<open>What \<open>matchPath\<close> promises: the first solution, and what it captured.\<close>

definition match_ok :: "'h routingNode option \<Rightarrow> string \<Rightarrow> string list \<Rightarrow>
    ('h routingNode \<times> string list) option \<Rightarrow> bool" where
  "match_ok no path ms r =
     (case r of
        None \<Rightarrow> solutions no path = {}
      | Some (c, ms') \<Rightarrow>
          \<exists>n ss p h. no = Some n \<and> node_entry c = Some (p, h) \<and> fits n ss p h \<and>
            segs_match ss (path_segs path) \<and> ms' = ms @ captures ss path \<and>
            (\<forall>ss2 \<in> solutions no path. compare_segs ss ss2 \<noteq> moreGeneral))"

lemma combine_moreSpecific_not_general: "combineRelationships moreSpecific r \<noteq> moreGeneral"
  by (cases r) (simp_all add: relationship_defs)

lemma match_ok_literal:
  assumes n: "path_node n" and path: "path \<noteq> []" "firstSegment path = (seg, rest)"
    and seg: "seg \<noteq> []" "seg \<noteq> ''*''"
    and ok: "match_ok (findChild n seg) rest ms (Some m)"
  shows "match_ok (Some n) path ms (Some m)"
proof -
  obtain c ms' where m: "m = (c, ms')" by fastforce
  with ok obtain d ss p h where d: "findChild n seg = Some d" "node_entry c = Some (p, h)"
    "fits d ss p h" "segs_match ss (path_segs rest)" "ms' = ms @ captures ss rest"
    "\<forall>ss2 \<in> solutions (findChild n seg) rest. compare_segs ss ss2 \<noteq> moreGeneral"
    by (auto simp: match_ok_def)
  obtain s where s: "seg_key s = seg" "fits n (s # ss) p h" by (rule fits_up [OF n d(1,3)])
  have lit: "\<not> seg_multi s" "\<not> seg_wild s" "seg_s s = seg"
    using seg_key_literal [OF s(1) seg] by auto
  have "\<forall>ss2 \<in> solutions (Some n) path. compare_segs (s # ss) ss2 \<noteq> moreGeneral"
  proof
    fix ss2
    assume "ss2 \<in> solutions (Some n) path"
    then show "compare_segs (s # ss) ss2 \<noteq> moreGeneral"
      by (rule solutions_cases [OF n path])
        (use lit d(6) in \<open>auto simp: compareSegments_def combine_moreSpecific_not_general\<close>)
  qed
  moreover have "segs_match (s # ss) (path_segs path)"
    using lit d(4) path by (simp add: path_segs.simps)
  ultimately show ?thesis
    using m d s lit path by (auto simp: match_ok_def intro!: exI [of _ "s # ss"])
qed

lemma match_ok_wild:
  assumes n: "path_node n" and path: "path \<noteq> []" "firstSegment path = (seg, rest)" "seg \<noteq> ''/''"
    and none: "solutions (findChild n seg) rest = {}"
    and ok: "match_ok (rn_emptyChild n) rest (ms @ [seg]) (Some m)"
  shows "match_ok (Some n) path ms (Some m)"
proof -
  obtain c ms' where m: "m = (c, ms')" by fastforce
  with ok obtain d ss p h where d: "rn_emptyChild n = Some d" "node_entry c = Some (p, h)"
    "fits d ss p h" "segs_match ss (path_segs rest)" "ms' = ms @ seg # captures ss rest"
    "\<forall>ss2 \<in> solutions (rn_emptyChild n) rest. compare_segs ss ss2 \<noteq> moreGeneral"
    by (auto simp: match_ok_def)
  have "findChild n [] = Some d" using d(1) by (simp add: findChild_def)
  then obtain s where s: "seg_key s = []" "fits n (s # ss) p h" by (rule fits_up [OF n _ d(3)])
  have wild: "\<not> seg_multi s" "seg_wild s"
    using seg_key_wild [OF s(1)] s(2) by (auto simp: fits_def)
  have "\<forall>ss2 \<in> solutions (Some n) path. compare_segs (s # ss) ss2 \<noteq> moreGeneral"
  proof
    fix ss2
    assume "ss2 \<in> solutions (Some n) path"
    then show "compare_segs (s # ss) ss2 \<noteq> moreGeneral"
      by (rule solutions_cases [OF n path(1,2)])
        (use wild d(6) none in \<open>auto simp: compareSegments_def\<close>)
  qed
  moreover have "segs_match (s # ss) (path_segs path)"
    using wild d(4) path by (simp add: path_segs.simps)
  ultimately show ?thesis
    using m d s wild path by (auto simp: match_ok_def intro!: exI [of _ "s # ss"])
qed

lemma match_ok_multi:
  assumes n: "path_node n" and path: "path \<noteq> []" "firstSegment path = (seg, rest)"
    and none: "solutions (findChild n seg) rest = {}"
      "seg \<noteq> ''/'' \<Longrightarrow> solutions (rn_emptyChild n) rest = {}"
    and c: "findChild n ''*'' = Some c"
  obtains p l where "rn_pattern c = Some p" and "lastSegment p = Ret l"
    and "match_ok (Some n) path ms
      (Some (c, if seg_s l \<noteq> [] then ms @ [pathUnescape (tl path)] else ms))"
proof -
  obtain p h s where e: "node_entry c = Some (p, h)" "entry_at n [''*''] = Some (p, h)"
    "seg_multi s" "suffix [s] (pat_segments p)" "routable_segs [s]" "seg_wild s"
    by (rule path_node_multi_leaf [OF n c])
  have last: "lastSegment p = Ret s" using e(4) by (auto simp: lastSegment_def suffix_def)
  have f: "fits n [s] p h" using e by (simp add: fits_def seg_key_def)
  have "segs_match [s] (path_segs path)" using e(3) path by (simp add: path_segs.simps)
  moreover have "\<forall>ss2 \<in> solutions (Some n) path. compare_segs [s] ss2 \<noteq> moreGeneral"
  proof
    fix ss2
    assume "ss2 \<in> solutions (Some n) path"
    then show "compare_segs [s] ss2 \<noteq> moreGeneral"
      by (rule solutions_cases [OF n path])
        (use e(3) none in \<open>auto simp: compareSegments_def\<close>)
  qed
  ultimately have "match_ok (Some n) path ms
      (Some (c, if seg_s s \<noteq> [] then ms @ [pathUnescape (tl path)] else ms))"
    using e f by (auto simp: match_ok_def intro!: exI [of _ "[s]"])
  moreover have "rn_pattern c = Some p" using e(1) by (auto simp: node_entry_def split: option.splits)
  ultimately show ?thesis using last that by blast
qed

lemma match_ok_none:
  assumes n: "path_node n" and path: "path \<noteq> []" "firstSegment path = (seg, rest)"
    and none: "solutions (findChild n seg) rest = {}"
      "seg \<noteq> ''/'' \<Longrightarrow> solutions (rn_emptyChild n) rest = {}"
    and c: "findChild n ''*'' = None"
  shows "match_ok (Some n) path ms None"
proof -
  have "ss \<notin> solutions (Some n) path" for ss
  proof
    assume "ss \<in> solutions (Some n) path"
    then show False by (rule solutions_cases [OF n path]) (use none c in auto)
  qed
  then show ?thesis by (auto simp: match_ok_def)
qed

lemma match_ok_end:
  assumes n: "path_node n"
  shows "match_ok (Some n) [] ms (if rn_pattern n = None then None else Some (n, ms))"
proof -
  have ok: "rn_pattern n = None \<longleftrightarrow> rn_handler n = None"
    using n node_ok_local(2) [of n] by (simp add: path_node_def)
  have sol: "ss \<in> solutions (Some n) [] \<Longrightarrow> ss = [] \<and> node_entry n \<noteq> None" for ss
    by (cases ss) (auto simp: solutions_def fits_def)
  show ?thesis
  proof (cases "rn_pattern n")
    case None
    with sol show ?thesis by (auto simp: match_ok_def node_entry_def)
  next
    case (Some p)
    with ok obtain h where h: "node_entry n = Some (p, h)" by (auto simp: node_entry_def)
    have "fits n [] p h" using h by (simp add: fits_def routable_segs_def)
    with Some h sol show ?thesis by (fastforce simp: match_ok_def)
  qed
qed

lemma matchPath_correct:
  assumes "\<And>n. no = Some n \<Longrightarrow> path_node n" and "plain_request path"
  shows "\<exists>r. matchPath no path ms = Ret r \<and> match_ok no path ms r"
  using assms
proof (induction no path ms rule: matchPath.induct)
  case (1 path ms)
  then show ?case by (simp add: match_ok_def solutions_def)
next
  case (2 n path ms)
  have n: "path_node n" using "2.prems" by simp
  show ?case
  proof (cases "path = []")
    case True
    then show ?thesis using match_ok_end [OF n, of ms] by (auto simp: matchPath.simps(2))
  next
    case False
    obtain seg rest where fs: "firstSegment path = (seg, rest)" by fastforce
    have segs: "path_segs path = seg # path_segs rest" using fs False by (simp add: path_segs.simps)
    have seg: "seg \<noteq> []" "seg \<noteq> ''*''" and rest: "plain_request rest"
      using "2.prems"(2) segs by (auto simp: plain_request_def)
    obtain r1 where r1: "matchPath (findChild n seg) rest ms = Ret r1"
      "match_ok (findChild n seg) rest ms r1"
      using "2.IH"(1) [OF False fs [symmetric] _ rest] path_node_child [OF n] by blast
    show ?thesis
    proof (cases r1)
      case (Some m)
      then show ?thesis using r1 match_ok_literal [OF n False fs seg] False fs
        by (auto simp: matchPath.simps(2))
    next
      case None
      then have none1: "solutions (findChild n seg) rest = {}" using r1(2) by (simp add: match_ok_def)
      have child: "rn_emptyChild n = Some c \<Longrightarrow> path_node c" for c
        using path_node_child [OF n, of "[]"] by (simp add: findChild_def)
      obtain r2 where r2: "(if seg \<noteq> ''/'' then matchPath (rn_emptyChild n) rest (ms @ [seg]) else Ret None) = Ret r2"
        "seg \<noteq> ''/'' \<Longrightarrow> match_ok (rn_emptyChild n) rest (ms @ [seg]) r2"
        "seg = ''/'' \<Longrightarrow> r2 = None"
        using "2.IH"(2) [OF False fs [symmetric] _ _ rest] child by (cases "seg = ''/''") auto
      show ?thesis
      proof (cases r2)
        case (Some m)
        then have "seg \<noteq> ''/''" using r2(3) by auto
        then show ?thesis using Some r2 match_ok_wild [OF n False fs _ none1] False fs r1 None
          by (auto simp: matchPath.simps(2))
      next
        case n2: None
        then have none2: "seg \<noteq> ''/'' \<Longrightarrow> solutions (rn_emptyChild n) rest = {}"
          using r2(2) by (simp add: match_ok_def)
        have eq: "matchPath (Some n) path ms =
          (case findChild n ''*'' of None \<Rightarrow> Ret None
           | Some c \<Rightarrow> (case rn_pattern c of None \<Rightarrow> Panic ''nil pointer dereference''
              | Some p \<Rightarrow> go_bind (lastSegment p) (\<lambda>l. Ret (Some (c, if seg_s l \<noteq> []
                    then ms @ [pathUnescape (tl path)] else ms)))))"
          using r1(1) r2(1) None n2 False fs by (subst matchPath.simps(2)) simp
        show ?thesis
        proof (cases "findChild n ''*''")
          case None
          then show ?thesis using eq match_ok_none [OF n False fs none1 none2 None] by simp
        next
          case (Some c)
          obtain p l where "rn_pattern c = Some p" "lastSegment p = Ret l"
            "match_ok (Some n) path ms (Some (c, if seg_s l \<noteq> [] then ms @ [pathUnescape (tl path)] else ms))"
            by (rule match_ok_multi [OF n False fs none1 none2 Some])
          then show ?thesis using eq Some by simp
        qed
      qed
    qed
  qed
qed

subsection \<open>Matching a request\<close>

definition routable_pattern :: "pattern \<Rightarrow> bool" where
  "routable_pattern p =
     (pat_segments p \<noteq> [] \<and> multi_last (pat_segments p) \<and> routable_segs (pat_segments p))"

text \<open>The tree holds exactly the registered patterns, each under its own keys.\<close>

definition tree_holds :: "'h routingNode \<Rightarrow> (pattern \<times> 'h) list \<Rightarrow> bool" where
  "tree_holds root ps =
     (node_ok root \<and> (\<forall>(p, h) \<in> set ps. routable_pattern p) \<and>
      (\<forall>ks p h. entry_at root ks = Some (p, h) \<longleftrightarrow> (p, h) \<in> set ps \<and> ks = pattern_keys p))"

definition request_matches :: "pattern \<Rightarrow> string \<Rightarrow> string \<Rightarrow> string \<Rightarrow> bool" where
  "request_matches p host method path =
     ((pat_host p = [] \<or> pat_host p = host) \<and> method_matches (pat_method p) method \<and>
      path_matches p path)"

lemma tree_holds_empty: "tree_holds newNode []"
  by (simp add: tree_holds_def)

lemma tree_holds_add:
  assumes t: "tree_holds root ps" and p: "routable_pattern p"
    and new: "entry_at root (pattern_keys p) = None"
  shows "\<exists>root'. addPattern p h root = Ret root' \<and> tree_holds root' (ps @ [(p, h)])"
proof -
  have ok: "node_ok root" and e: "entry_at root ks = Some (q, g) \<longleftrightarrow> (q, g) \<in> set ps \<and> ks = pattern_keys q"
    for ks q g using t by (auto simp: tree_holds_def)
  obtain root' where r: "addPattern p h root = Ret root'" "node_ok root'"
    "entry_at root' = (entry_at root)(pattern_keys p \<mapsto> (p, h))"
    using adds_entry_addPattern [of p h] p ok new
    unfolding adds_entry_def no_panic_iff routable_pattern_def by blast
  have other: "pattern_keys q \<noteq> pattern_keys p" if "(q, g) \<in> set ps" for q g
    using that new e [of "pattern_keys q" q g] by auto
  have "entry_at root' ks = Some (q, g) \<longleftrightarrow> (q, g) \<in> set (ps @ [(p, h)]) \<and> ks = pattern_keys q"
    for ks q g
    using other [of q g] by (auto simp: r(3) e)
  then show ?thesis using r t p by (auto simp: tree_holds_def)
qed

lemma routable_wf: "routable_pattern p \<Longrightarrow> wf_pattern p"
  by (auto simp: routable_pattern_def wf_pattern_def wf_segs_def nonempty_lits_def routable_segs_def)

definition level_node :: "'h routingNode \<Rightarrow> string \<Rightarrow> string \<Rightarrow> 'h routingNode option" where
  "level_node root host method =
     (case findChild root host of None \<Rightarrow> None | Some n \<Rightarrow> findChild n method)"

lemma level_node_entry:
  "level_node root host method = Some n \<Longrightarrow> entry_at n ks = entry_at root (host # method # ks)"
  by (auto simp: level_node_def entry_at_Cons split: option.splits)

lemma level_node_fits:
  assumes t: "tree_holds root ps" and n: "level_node root host method = Some n"
  shows "fits n ss p h \<longleftrightarrow>
    (p, h) \<in> set ps \<and> pat_host p = host \<and> pat_method p = method \<and> ss = pat_segments p"
proof -
  have e: "entry_at n ks = Some (p, h) \<longleftrightarrow> (p, h) \<in> set ps \<and> host # method # ks = pattern_keys p" for ks
    using t level_node_entry [OF n] by (simp add: tree_holds_def)
  have r: "(p, h) \<in> set ps \<Longrightarrow> routable_pattern p" using t by (auto simp: tree_holds_def)
  have len: "map seg_key ss = map seg_key (pat_segments p) \<Longrightarrow> suffix ss (pat_segments p) \<Longrightarrow>
      ss = pat_segments p"
    by (auto simp: suffix_def dest: map_eq_imp_length_eq)
  show ?thesis
    using r len by (auto simp: fits_def e pattern_keys_def routable_pattern_def)
qed

lemma level_node_path_node:
  assumes t: "tree_holds root ps" and n: "level_node root host method = Some n"
  shows "path_node n"
proof -
  obtain m where m: "findChild root host = Some m" "findChild m method = Some n"
    using n by (auto simp: level_node_def split: option.splits)
  have "node_ok root" using t by (simp add: tree_holds_def)
  then have "node_ok n" using m node_ok_child(1) by blast
  moreover have "\<exists>ss. ks = map seg_key ss \<and> suffix ss (pat_segments p) \<and> multi_last ss \<and>
      routable_segs ss \<and> pat_segments p \<noteq> []" if "entry_at n ks = Some (p, h)" for ks p h
    using that t level_node_entry [OF n, of ks]
    by (intro exI [of _ "pat_segments p"])
      (auto simp: tree_holds_def pattern_keys_def routable_pattern_def)
  ultimately show ?thesis by (auto simp: path_node_def)
qed

text \<open>The result of one level, and the results of the levels together.\<close>

definition best_match :: "(pattern \<times> 'h) set \<Rightarrow> string \<Rightarrow>
    ('h routingNode \<times> string list) option \<Rightarrow> bool" where
  "best_match cands path r =
     (case r of
        None \<Rightarrow> cands = {}
      | Some (c, ms) \<Rightarrow>
          \<exists>p h. (p, h) \<in> cands \<and> node_entry c = Some (p, h) \<and> ms = captures (pat_segments p) path \<and>
            (\<forall>(q, g) \<in> cands. rel_of (request_set p) (request_set q) \<noteq> moreGeneral))"

definition cands_at :: "(pattern \<times> 'h) list \<Rightarrow> string \<Rightarrow> string \<Rightarrow> string \<Rightarrow> (pattern \<times> 'h) set" where
  "cands_at ps host method path =
     {(p, h) \<in> set ps. pat_host p = host \<and> pat_method p = method \<and> path_matches p path}"

lemma rel_of_request_set:
  assumes "routable_pattern p" and "routable_pattern q"
  shows "rel_of (request_set p) (request_set q) =
    combineRelationships (compareMethods p q) (compare_segs (pat_segments p) (pat_segments q))"
proof -
  have wf: "wf_segs (pat_segments p)" "wf_segs (pat_segments q)"
    using assms [THEN routable_wf] by (simp_all add: wf_pattern_def)
  then show ?thesis
    by (simp add: request_set_def rel_of_Times method_set_not_empty path_set_not_empty
        compareMethods_rel_of compare_segs_rel_of wf_segs_def)
qed

lemma level_match:
  assumes t: "tree_holds root ps" and pr: "plain_request path"
  shows "\<exists>r. matchPath (level_node root host method) path [] = Ret r \<and>
           best_match (cands_at ps host method path) path r"
proof -
  obtain r where r: "matchPath (level_node root host method) path [] = Ret r"
    "match_ok (level_node root host method) path [] r"
    using matchPath_correct [OF _ pr] level_node_path_node [OF t] by blast
  have rt: "(p, h) \<in> set ps \<Longrightarrow> routable_pattern p" for p h using t by (auto simp: tree_holds_def)
  have pm: "path_matches p path \<longleftrightarrow> segs_match (pat_segments p) (path_segs path)" for p
    using pr by (auto simp: path_matches_def path_set_def plain_request_def)
  have absent: "level_node root host method \<noteq> None" if "(p, h) \<in> cands_at ps host method path" for p h
  proof -
    have "entry_at root (host # method # map seg_key (pat_segments p)) = Some (p, h)"
      using that t by (auto simp: cands_at_def tree_holds_def pattern_keys_def)
    then show ?thesis by (auto simp: entry_at_Cons level_node_def split: option.splits)
  qed
  have sol: "pat_segments p \<in> solutions (level_node root host method) path"
    if c: "(p, h) \<in> cands_at ps host method path" for p h
  proof -
    obtain n where n: "level_node root host method = Some n" using absent [OF c] by auto
    have "fits n (pat_segments p) p h" using c level_node_fits [OF t n] by (simp add: cands_at_def)
    moreover have "segs_match (pat_segments p) (path_segs path)"
      using c pm by (simp add: cands_at_def)
    ultimately show ?thesis using n unfolding solutions_def by blast
  qed
  show ?thesis
  proof (cases r)
    case None
    then show ?thesis using r sol by (auto simp: match_ok_def best_match_def)
  next
    case (Some cm)
    obtain c ms where cm: "cm = (c, ms)" by fastforce
    with Some r(2) obtain n ss p h where n: "level_node root host method = Some n"
      "node_entry c = Some (p, h)" "fits n ss p h" "segs_match ss (path_segs path)"
      "ms = captures ss path"
      "\<forall>ss2 \<in> solutions (level_node root host method) path. compare_segs ss ss2 \<noteq> moreGeneral"
      by (auto simp: match_ok_def)
    have p: "(p, h) \<in> cands_at ps host method path" "ss = pat_segments p"
      using n(3,4) level_node_fits [OF t n(1)] pm by (auto simp: cands_at_def)
    have "rel_of (request_set p) (request_set q) \<noteq> moreGeneral"
      if "(q, g) \<in> cands_at ps host method path" for q g
    proof -
      have "compareMethods p q = equivalent" using that p by (auto simp: cands_at_def compareMethods_def)
      moreover have "compare_segs (pat_segments p) (pat_segments q) \<noteq> moreGeneral"
        using n(6) sol [OF that] p by simp
      ultimately show ?thesis
        using that p rt by (auto simp: cands_at_def rel_of_request_set)
    qed
    then show ?thesis using r cm Some n p by (auto simp: best_match_def)
  qed
qed

text \<open>Combining two levels: the first one that matches wins.\<close>

lemma best_match_or:
  assumes A: "best_match A path r1" and B: "r1 = None \<Longrightarrow> best_match B path r2"
    and rel: "\<And>p h q g. (p, h) \<in> A \<Longrightarrow> (q, g) \<in> B \<Longrightarrow> (q, g) \<notin> A \<Longrightarrow>
      rel_of (request_set p) (request_set q) \<noteq> moreGeneral"
  shows "best_match (A \<union> B) path (case r1 of Some m \<Rightarrow> Some m | None \<Rightarrow> r2)"
proof (cases r1)
  case None
  with A B show ?thesis by (simp add: best_match_def)
next
  case (Some m)
  obtain c ms where m: "m = (c, ms)" by fastforce
  obtain p h where p: "(p, h) \<in> A" "node_entry c = Some (p, h)" "ms = captures (pat_segments p) path"
    "\<forall>(q, g) \<in> A. rel_of (request_set p) (request_set q) \<noteq> moreGeneral"
    using A unfolding Some m best_match_def by auto
  have "\<forall>(q, g) \<in> A \<union> B. rel_of (request_set p) (request_set q) \<noteq> moreGeneral"
    using p(4) rel [OF p(1)] by blast
  then show ?thesis unfolding Some m best_match_def using p by auto
qed

lemma rel_of_by_method:
  assumes "tree_holds root ps" and "(p, h) \<in> set ps" and "(q, g) \<in> set ps"
    and "compareMethods p q = moreSpecific"
  shows "rel_of (request_set p) (request_set q) \<noteq> moreGeneral"
proof -
  have "routable_pattern p" "routable_pattern q" using assms by (auto simp: tree_holds_def)
  then show ?thesis using assms(4) by (simp add: rel_of_request_set combine_moreSpecific_not_general)
qed

definition host_cands :: "(pattern \<times> 'h) list \<Rightarrow> string \<Rightarrow> string \<Rightarrow> string \<Rightarrow> (pattern \<times> 'h) set" where
  "host_cands ps host method path =
     {(p, h) \<in> set ps. pat_host p = host \<and> method_matches (pat_method p) method \<and> path_matches p path}"

lemma host_cands_split:
  "host_cands ps host method path =
     cands_at ps host method path \<union>
     ((if method = ''HEAD'' then cands_at ps host ''GET'' path else {}) \<union> cands_at ps host [] path)"
  by (auto simp: host_cands_def cands_at_def method_matches_def)

lemma findChild_Nil: "findChild n [] = rn_emptyChild n"
  by (simp add: findChild_def)

lemma go_or:
  assumes "x = Ret r1"
  shows "go_bind x (\<lambda>r. case r of Some m \<Rightarrow> Ret (Some m) | None \<Rightarrow> f) =
           (case r1 of Some m \<Rightarrow> Ret (Some m) | None \<Rightarrow> f)"
  using assms by simp

lemma matchMethodAndPath_correct:
  assumes t: "tree_holds root ps" and pr: "plain_request path"
  shows "\<exists>r. matchMethodAndPath (findChild root host) method path = Ret r \<and>
           best_match (host_cands ps host method path) path r"
proof -
  let ?C = "\<lambda>m. cands_at ps host m path"
  let ?G = "if method = ''HEAD'' then ?C ''GET'' else {}"
  obtain r1 where r1: "matchPath (level_node root host method) path [] = Ret r1"
    "best_match (?C method) path r1" using level_match [OF t pr] by blast
  obtain r2 where r2: "(if method = ''HEAD'' then matchPath (level_node root host ''GET'') path []
      else Ret None) = Ret r2" "best_match ?G path r2"
    using level_match [OF t pr, of host "''GET''"]
    by (cases "method = ''HEAD''") (auto simp: best_match_def)
  obtain r3 where r3: "matchPath (level_node root host []) path [] = Ret r3"
    "best_match (?C []) path r3" using level_match [OF t pr] by blast
  let ?r23 = "case r2 of Some m \<Rightarrow> Some m | None \<Rightarrow> r3"
  have b23: "best_match (?G \<union> ?C []) path ?r23"
  proof (rule best_match_or [OF r2(2) r3(2)])
    fix p h q g
    assume p: "(p, h) \<in> ?G" and q: "(q, g) \<in> ?C []"
    then have "compareMethods p q = moreSpecific"
      by (auto simp: cands_at_def compareMethods_def split: if_splits)
    with p q show "rel_of (request_set p) (request_set q) \<noteq> moreGeneral"
      using rel_of_by_method [OF t] by (auto simp: cands_at_def split: if_splits)
  qed
  have "best_match (?C method \<union> (?G \<union> ?C [])) path (case r1 of Some m \<Rightarrow> Some m | None \<Rightarrow> ?r23)"
  proof (rule best_match_or [OF r1(2) b23])
    fix p h q g
    assume p: "(p, h) \<in> ?C method" and q: "(q, g) \<in> ?G \<union> ?C []" "(q, g) \<notin> ?C method"
    then have "compareMethods p q = moreSpecific"
      by (auto simp: cands_at_def compareMethods_def split: if_splits)
    with p q show "rel_of (request_set p) (request_set q) \<noteq> moreGeneral"
      using rel_of_by_method [OF t] by (auto simp: cands_at_def split: if_splits)
  qed
  moreover have "matchMethodAndPath (findChild root host) method path =
      Ret (case r1 of Some m \<Rightarrow> Some m | None \<Rightarrow> ?r23)"
  proof (cases "findChild root host")
    case None
    then have "r1 = None" "r2 = None" "r3 = None"
      using r1(1) r2(1) r3(1) by (auto simp: level_node_def split: if_splits)
    with None show ?thesis by (simp add: matchMethodAndPath_def)
  next
    case (Some n)
    then have "matchPath (findChild n method) path [] = Ret r1"
      "(if method = ''HEAD'' then matchPath (findChild n ''GET'') path [] else Ret None) = Ret r2"
      "matchPath (rn_emptyChild n) path [] = Ret r3"
      using r1(1) r2(1) r3(1) by (auto simp: level_node_def findChild_Nil split: if_splits)
    with Some show ?thesis
      by (simp add: matchMethodAndPath_def go_or split: option.split)
  qed
  ultimately show ?thesis unfolding host_cands_split by blast
qed

text \<open>
  With no conflicts among the registered patterns, "not more general" becomes "strictly more
  specific".
\<close>

definition conflict_free :: "(pattern \<times> 'h) list \<Rightarrow> bool" where
  "conflict_free ps = (\<forall>(p, h) \<in> set ps. \<forall>(q, g) \<in> set ps.
     p \<noteq> q \<longrightarrow> conflictsWith p q = Ret False)"

lemma no_conflict_specific:
  assumes "wf_pattern p" "wf_pattern q" "pat_host p = pat_host q"
    and "conflictsWith p q = Ret False" and "request_set p \<inter> request_set q \<noteq> {}"
    and "rel_of (request_set p) (request_set q) \<noteq> moreGeneral"
  shows "request_set p \<subset> request_set q"
proof -
  let ?R = "rel_of (request_set p) (request_set q)"
  have "?R \<noteq> equivalent" "?R \<noteq> overlaps"
    using assms(3,4) by (auto simp: conflictsWith_def comparePathsAndMethods_rel_of [OF assms(1,2)])
  moreover have "?R \<noteq> disjoint" using assms(5) by (auto simp: rel_of_def split: if_splits)
  ultimately have "?R = moreSpecific" using assms(6) by (cases ?R) auto
  then show ?thesis by (auto simp: rel_of_def split: if_splits)
qed

lemma common_request:
  "method_matches (pat_method p) m \<Longrightarrow> path_matches p path \<Longrightarrow> (m, path_segs path) \<in> request_set p"
  by (simp add: request_set_def method_set_def path_matches_def)

definition wins :: "(pattern \<times> 'h) list \<Rightarrow> string \<Rightarrow> string \<Rightarrow> string \<Rightarrow>
    'h routingNode \<Rightarrow> string list \<Rightarrow> bool" where
  "wins ps host method path c ms =
     (\<exists>p h. (p, h) \<in> set ps \<and> rn_pattern c = Some p \<and> rn_handler c = Some h \<and>
        request_matches p host method path \<and> ms = captures (pat_segments p) path \<and>
        (\<forall>(q, g) \<in> set ps. q \<noteq> p \<longrightarrow> request_matches q host method path \<longrightarrow>
           (pat_host p \<noteq> [] \<and> pat_host q = []) \<or> request_set p \<subset> request_set q))"

lemma best_match_wins:
  assumes t: "tree_holds root ps" and cf: "conflict_free ps"
    and b: "best_match (host_cands ps H method path) path (Some (c, ms))"
    and H: "H = host \<or> H = []"
    and first: "\<And>q g. (q, g) \<in> set ps \<Longrightarrow> request_matches q host method path \<Longrightarrow>
      pat_host q = H \<or> (H \<noteq> [] \<and> pat_host q = [])"
  shows "wins ps host method path c ms"
proof -
  have wf: "(p, h) \<in> set ps \<Longrightarrow> wf_pattern p" for p h using t by (auto simp: tree_holds_def routable_wf)
  obtain p h where p: "(p, h) \<in> host_cands ps H method path" "node_entry c = Some (p, h)"
    "ms = captures (pat_segments p) path"
    "\<forall>(q, g) \<in> host_cands ps H method path. rel_of (request_set p) (request_set q) \<noteq> moreGeneral"
    using b unfolding best_match_def by auto
  have in_ps: "(p, h) \<in> set ps" "pat_host p = H" "request_matches p host method path"
    using p(1) H by (auto simp: host_cands_def request_matches_def)
  have best: "(pat_host p \<noteq> [] \<and> pat_host q = []) \<or> request_set p \<subset> request_set q"
    if q: "(q, g) \<in> set ps" "q \<noteq> p" "request_matches q host method path" for q g
  proof (cases "pat_host q = H")
    case True
    then have "(q, g) \<in> host_cands ps H method path"
      using q by (auto simp: host_cands_def request_matches_def)
    then have ng: "rel_of (request_set p) (request_set q) \<noteq> moreGeneral" using p(4) by auto
    have "(method, path_segs path) \<in> request_set p \<inter> request_set q"
      using in_ps(3) q(3) by (simp add: request_matches_def common_request)
    then have meet: "request_set p \<inter> request_set q \<noteq> {}" by blast
    have nc: "conflictsWith p q = Ret False"
      using cf in_ps(1) q(1,2) by (auto simp: conflict_free_def)
    have "pat_host p = pat_host q" using in_ps(2) True by simp
    then show ?thesis
      using no_conflict_specific [OF wf [OF in_ps(1)] wf [OF q(1)] _ nc meet ng] by blast
  next
    case False
    with first [OF q(1,3)] in_ps(2) show ?thesis by blast
  qed
  have "rn_pattern c = Some p" "rn_handler c = Some h"
    using p(2) by (auto simp: node_entry_def split: option.splits)
  then show ?thesis
    unfolding wins_def using p(3) in_ps best by (intro exI [of _ p] exI [of _ h]) auto
qed

lemma match_tree_wins:
  assumes t: "tree_holds root ps" and cf: "conflict_free ps" and pr: "plain_request path"
  shows "\<exists>r. match_tree root host method path = Ret r \<and>
    (case r of
       None \<Rightarrow> \<forall>(p, h) \<in> set ps. \<not> request_matches p host method path
     | Some (c, ms) \<Rightarrow> wins ps host method path c ms)"
proof -
  obtain r1 where r1: "(if host \<noteq> [] then matchMethodAndPath (findChild root host) method path
      else Ret None) = Ret r1"
    "best_match (if host \<noteq> [] then host_cands ps host method path else {}) path r1"
    using matchMethodAndPath_correct [OF t pr, of host "method"]
    by (cases "host = []") (auto simp: best_match_def)
  obtain r2 where r2: "matchMethodAndPath (rn_emptyChild root) method path = Ret r2"
    "best_match (host_cands ps [] method path) path r2"
    using matchMethodAndPath_correct [OF t pr, of "[]" "method"] by (auto simp: findChild_Nil)
  have res: "match_tree root host method path = (case r1 of Some m \<Rightarrow> Ret (Some m) | None \<Rightarrow> Ret r2)"
    using r1(1) r2(1) by (auto simp: match_tree_def split: option.split)
  show ?thesis
  proof (cases r1)
    case (Some cm)
    obtain c ms where cm: "cm = (c, ms)" by fastforce
    have hne: "host \<noteq> []" using r1(1) Some by auto
    then have "best_match (host_cands ps host method path) path (Some (c, ms))"
      using r1(2) Some cm by simp
    then have "wins ps host method path c ms"
      by (rule best_match_wins [OF t cf]) (use hne in \<open>auto simp: request_matches_def\<close>)
    then show ?thesis using res Some cm by simp
  next
    case None
    then have none: "pat_host q \<noteq> host \<or> host = []"
      if "(q, g) \<in> set ps" "request_matches q host method path" for q g
      using that r1(2) by (auto simp: best_match_def host_cands_def request_matches_def split: if_splits)
    show ?thesis
    proof (cases r2)
      case n2: None
      have "\<forall>(p, h) \<in> set ps. \<not> request_matches p host method path"
        using r2(2) none n2 by (auto simp: best_match_def host_cands_def request_matches_def)
      then show ?thesis using res None n2 by simp
    next
      case (Some cm)
      obtain c ms where cm: "cm = (c, ms)" by fastforce
      have "wins ps host method path c ms"
        by (rule best_match_wins [OF t cf, of "[]"])
          (use none r2(2) Some cm in \<open>auto simp: request_matches_def\<close>)
      then show ?thesis using res None Some cm by simp
    qed
  qed
qed

text \<open>C4: \<open>match\<close> on a tree that holds conflict-free patterns does not panic. It returns no node
  exactly when no registered pattern matches the request. Otherwise it returns the leaf of a
  registered matching pattern with the wildcard values of the path, and every other matching
  pattern either has no host while the returned one has, or matches strictly more requests.\<close>

theorem match_tree_correct:
  assumes t: "tree_holds root ps" and cf: "conflict_free ps" and pr: "plain_request path"
  shows "\<exists>r. match_tree root host method path = Ret r \<and>
    (case r of
       None \<Rightarrow> \<forall>(p, h) \<in> set ps. \<not> request_matches p host method path
     | Some (c, ms) \<Rightarrow>
         \<exists>p h. (p, h) \<in> set ps \<and> rn_pattern c = Some p \<and> rn_handler c = Some h \<and>
           request_matches p host method path \<and> ms = captures (pat_segments p) path \<and>
           (\<forall>(q, g) \<in> set ps. q \<noteq> p \<longrightarrow> request_matches q host method path \<longrightarrow>
              (pat_host p \<noteq> [] \<and> pat_host q = []) \<or> request_set p \<subset> request_set q))"
  using match_tree_wins [OF assms, of host "method"] unfolding wins_def .

theorem match_tree_correct_witness:
  "\<exists>(root :: string routingNode) c. match_tree root [] ''GET'' ''/a'' = Ret (Some (c, [])) \<and>
     rn_pattern c = Some (example_pattern [] [] [lit_seg ''a''])"
proof -
  let ?p = "example_pattern [] [] [wild_seg ''x'' False]" and ?q = "example_pattern [] [] [lit_seg ''a'']"
  have rt: "routable_pattern ?p" "routable_pattern ?q"
    by (simp_all add: routable_pattern_def routable_segs_def lit_seg_def wild_seg_def)
  obtain r1 where r1: "tree_holds r1 ([] @ [(?p, ''p'')])"
    using tree_holds_add [OF tree_holds_empty rt(1), of "''p''"] by auto
  have "entry_at r1 (pattern_keys ?q) \<noteq> Some e" for e
    using r1 by (cases e) (auto simp: tree_holds_def pattern_keys_def seg_key_def lit_seg_def wild_seg_def)
  then have "entry_at r1 (pattern_keys ?q) = None" by (metis not_None_eq)
  then obtain r2 where t: "tree_holds r2 [(?p, ''p''), (?q, ''q'')]"
    using tree_holds_add [OF r1 rt(2), of "''q''"] by auto
  have cf: "conflict_free [(?p, ''p''), (?q, ''q'')]"
    by (auto simp: conflict_free_def conflictsWith_def comparePathsAndMethods_def compareMethods_def
        comparePaths_def lastSegment_def compareSegments_def relationship_defs lit_seg_def wild_seg_def)
  have segs: "path_segs ''/a'' = [''a'']"
    using path_segs_render [of "[''a'']"] by (simp add: plain_seg_def render_seg_def)
  then have pr: "plain_request ''/a''" by (simp add: plain_request_def)
  have m: "request_matches ?p [] ''GET'' ''/a''" "request_matches ?q [] ''GET'' ''/a''"
    by (simp_all add: request_matches_def method_matches_def path_matches_def segs path_set_def
        lit_seg_def wild_seg_def)
  have "([], [''b'']) \<in> request_set ?p" "([], [''b'']) \<notin> request_set ?q"
    by (simp_all add: request_set_def method_set_def method_matches_def path_set_def lit_seg_def wild_seg_def)
  then have "\<not> request_set ?p \<subset> request_set ?q" by blast
  moreover have ne: "?p \<noteq> ?q" by (simp add: lit_seg_def wild_seg_def)
  moreover have cap: "captures (pat_segments ?q) ''/a'' = []" by (simp add: lit_seg_def)
  obtain r where r: "match_tree r2 [] ''GET'' ''/a'' = Ret r"
    and ok: "case r of None \<Rightarrow> \<forall>(p, h) \<in> set [(?p, ''p''), (?q, ''q'')]. \<not> request_matches p [] ''GET'' ''/a''
      | Some (c, ms) \<Rightarrow> \<exists>p h. (p, h) \<in> set [(?p, ''p''), (?q, ''q'')] \<and> rn_pattern c = Some p \<and>
           rn_handler c = Some h \<and> request_matches p [] ''GET'' ''/a'' \<and>
           ms = captures (pat_segments p) ''/a'' \<and>
           (\<forall>(q, g) \<in> set [(?p, ''p''), (?q, ''q'')]. q \<noteq> p \<longrightarrow> request_matches q [] ''GET'' ''/a'' \<longrightarrow>
              (pat_host p \<noteq> [] \<and> pat_host q = []) \<or> request_set p \<subset> request_set q)"
    using match_tree_correct [OF t cf pr, of "[]" "''GET''"] by blast
  from ok m(1) obtain c ms p where c: "r = Some (c, ms)" "rn_pattern c = Some p"
    "p = ?p \<or> p = ?q" "ms = captures (pat_segments p) ''/a''"
    "?q \<noteq> p \<longrightarrow> pat_host p \<noteq> [] \<or> request_set p \<subset> request_set ?q"
    using m(2) by (cases r) auto
  ultimately have "p = ?q" by auto
  then show ?thesis using r c cap by (intro exI [of _ r2] exI [of _ c]) simp
qed

end
