(* ===== verification/Pattern_Parse.thy ===== *)
theory Pattern_Parse
  imports Request_Path
begin

section \<open>What parsePattern accepts (pattern.go)\<close>

text \<open>
  Lemmas on \<open>parsePattern\<close>: every pattern it returns is well formed (its segments are
  non-empty, a multi wildcard comes last, the wildcard names are distinct identifiers), and
  printing a well-formed pattern and parsing the text gives the pattern back.
\<close>

definition wild_names :: "segment list \<Rightarrow> string list" where
  "wild_names ss = map seg_s (filter (\<lambda>s. seg_wild s \<and> seg_s s \<noteq> []) ss)"

text \<open>
  What the loop of \<open>parsePattern\<close> appends, given the names seen so far: the segments end with
  a multi wildcard or \<open>{$}\<close> or at the end of the text.
\<close>

definition named_singles :: "segment list \<Rightarrow> bool" where
  "named_singles ss = (\<forall>s \<in> set ss. seg_wild s \<and> \<not> seg_multi s \<longrightarrow> seg_s s \<noteq> [])"

definition new_segs_ok :: "golib \<Rightarrow> string list \<Rightarrow> segment list \<Rightarrow> bool" where
  "new_segs_ok L seen ss =
     (multi_last ss \<and> distinct (wild_names ss) \<and> set (wild_names ss) \<inter> set seen = {} \<and>
      (\<forall>n \<in> set (wild_names ss). isValidWildcardName L n) \<and> named_singles ss)"

lemma new_segs_ok_Nil [simp]: "new_segs_ok L seen []"
  by (simp add: new_segs_ok_def wild_names_def named_singles_def)

lemma new_segs_ok_lit: "new_segs_ok L seen ss \<Longrightarrow> new_segs_ok L seen (lit_seg l # ss)"
  by (simp add: new_segs_ok_def wild_names_def named_singles_def lit_seg_def)

lemma new_segs_ok_wild:
  assumes "new_segs_ok L (n # seen) ss" and "isValidWildcardName L n" and "n \<notin> set seen"
    and "n \<noteq> []" and "multi \<Longrightarrow> ss = []"
  shows "new_segs_ok L seen (wild_seg n multi # ss)"
  using assms by (auto simp: new_segs_ok_def wild_names_def named_singles_def wild_seg_def)

lemma parse_segments_new:
  assumes "parse_segments L n rest seen segs = Inr out"
  shows "\<exists>new. out = segs @ new \<and> new_segs_ok L seen new \<and> (rest \<noteq> [] \<longrightarrow> new \<noteq> []) \<and>
           (rest = [] \<longrightarrow> new = [])"
  using assms
proof (induction L n rest seen segs arbitrary: out rule: parse_segments.induct)
  case (1 L n rest seen segs)
  obtain seg rest2 where br: "break_byte (CHR ''/'') (tl rest) = (seg, rest2)"
    by fastforce
  obtain name multi where nm: "cut_suffix (butlast (tl seg)) ''...'' = (name, multi)"
    by fastforce
  note eqn = "1.prems" [unfolded parse_segments.simps [of L n rest]]
  consider (nil) "rest = []" | (slash) "rest \<noteq> []" "tl rest = []" | (more) "rest \<noteq> []" "tl rest \<noteq> []"
    by blast
  then show ?case
  proof cases
    case nil
    with eqn show ?thesis by simp
  next
    case slash
    with eqn have "out = segs @ [wild_seg [] True]" by simp
    moreover have "new_segs_ok L seen [wild_seg [] True]"
      by (simp add: new_segs_ok_def wild_names_def named_singles_def wild_seg_def)
    ultimately show ?thesis using slash by blast
  next
    case more
    show ?thesis
    proof (cases "index_byte seg (CHR ''{'')")
      case None
      let ?l = "lit_seg (pathUnescape seg)"
      from eqn more br None have "parse_segments L n rest2 seen (segs @ [?l]) = Inr out"
        by (simp add: Let_def)
      with "1.IH"(1) [OF more(1) refl refl more(2) br [symmetric] refl None] obtain new where
        "out = (segs @ [?l]) @ new" "new_segs_ok L seen new" by blast
      with more show ?thesis by (intro exI [of _ "?l # new"]) (simp add: new_segs_ok_lit)
    next
      case (Some i)
      show ?thesis
      proof (cases "butlast (tl seg) = ''$''")
        case True
        with eqn more br Some have "out = segs @ [lit_seg ''/'']"
          by (auto simp: Let_def split: if_splits)
        with more show ?thesis by (auto intro: new_segs_ok_lit)
      next
        case False
        with eqn more br Some nm have rec:
          "parse_segments L n rest2 (name # seen) (segs @ [wild_seg name multi]) = Inr out"
          and ok: "i = 0" "last seg = CHR ''}''" "\<not> (multi \<and> rest2 \<noteq> [])" "name \<noteq> []"
          "isValidWildcardName L name" "name \<notin> set seen"
          by (auto simp: Let_def split: if_splits)
        from "1.IH"(2) [OF more(1) refl refl more(2) br [symmetric] refl Some _ _ refl False
            nm [symmetric] refl ok(3) ok(4) _ ok(6) rec] ok obtain new where
          "out = (segs @ [wild_seg name multi]) @ new" "new_segs_ok L (name # seen) new"
          "rest2 = [] \<longrightarrow> new = []" by auto
        with ok more show ?thesis
          by (intro exI [of _ "wild_seg name multi # new"]) (simp add: new_segs_ok_wild)
      qed
    qed
  qed
qed

text \<open>How an accepted pattern splits into method, host and path.\<close>

lemma parsePattern_InrD:
  assumes "parsePattern L s = Inr p"
  obtains path where "s = pat_method p @ '' '' @ pat_host p @ path \<or>
      (pat_method p = [] \<and> s = pat_host p @ path)"
    and "path \<noteq> []" and "hd path = CHR ''/''"
    and "pat_method p = [] \<or> validMethod L (pat_method p)"
    and "CHR ''/'' \<notin> set (pat_host p)" and "CHR ''{'' \<notin> set (pat_host p)"
    and "pat_method p \<noteq> [] \<Longrightarrow> pat_method p \<noteq> ''CONNECT'' \<Longrightarrow> cleanPath path = path"
    and "parse_segments L (length s) path [] [] = Inr (pat_segments p)"
    and "pat_str p = s"
proof -
  obtain method0 rest0 found where cut: "cut_byte s (CHR '' '') = (method0, rest0, found)"
    by (cases "cut_byte s (CHR '' '')") auto
  define rest where "rest = (if found then rest0 else method0)"
  define meth where "meth = (if found then method0 else [])"
  have s: "s = meth @ '' '' @ rest \<or> (meth = [] \<and> s = rest)"
    using cut_byte_cases [OF cut] by (auto simp: rest_def meth_def split: if_splits)
  have sne: "s \<noteq> []" using assms by (auto simp: parsePattern_def)
  note eqn = assms [unfolded parsePattern_def cut Let_def prod.case,
      folded rest_def meth_def]
  then have mv: "meth = [] \<or> validMethod L meth" using sne by (auto split: if_splits)
  with eqn sne obtain i where i: "index_byte rest (CHR ''/'') = Some i"
    by (auto split: option.splits if_splits)
  let ?host = "take i rest" and ?path = "drop i rest"
  note idx = index_byte_Some [OF i]
  have br: "CHR ''{'' \<notin> set ?host" 
    using eqn sne mv i by (cases "index_byte ?host (CHR ''{'')") (auto simp: index_byte_None split: if_splits)
  have cl: "meth \<noteq> [] \<Longrightarrow> meth \<noteq> ''CONNECT'' \<Longrightarrow> cleanPath ?path = ?path"
    using eqn sne mv i br by (auto split: if_splits)
  have ps: "parse_segments L (length s) ?path [] [] = Inr (pat_segments p)"
    and p: "pat_method p = meth" "pat_host p = ?host" "pat_str p = s"
    using eqn sne mv i br cl by (auto split: if_splits sum.splits)
  show ?thesis
    by (rule that [of ?path]) (use s mv idx br cl ps p in \<open>auto simp: hd_drop_conv_nth\<close>)
qed

lemma parsePattern_segments:
  assumes "parsePattern L s = Inr p"
  shows "pat_segments p \<noteq> [] \<and> multi_last (pat_segments p) \<and>
    distinct (wild_names (pat_segments p)) \<and> named_singles (pat_segments p) \<and>
    (\<forall>n \<in> set (wild_names (pat_segments p)). isValidWildcardName L n) \<and>
    (pat_method p = [] \<or> validMethod L (pat_method p)) \<and>
    CHR ''/'' \<notin> set (pat_host p) \<and> CHR ''{'' \<notin> set (pat_host p) \<and> pat_str p = s"
proof -
  obtain path where p: "path \<noteq> []" "parse_segments L (length s) path [] [] = Inr (pat_segments p)"
    "pat_method p = [] \<or> validMethod L (pat_method p)" "CHR ''/'' \<notin> set (pat_host p)"
    "CHR ''{'' \<notin> set (pat_host p)" "pat_str p = s"
    using parsePattern_InrD [OF assms] by metis
  obtain new where "pat_segments p = [] @ new" "new_segs_ok L [] new" "new \<noteq> []"
    using parse_segments_new [OF p(2)] p(1) by blast
  then show ?thesis using p by (simp add: new_segs_ok_def)
qed

text \<open>C7: a pattern that \<open>parsePattern\<close> accepts has at least one segment, at most its last
  segment is a multi wildcard, its wildcards other than a trailing slash are named, with distinct valid identifiers, its method is
  empty or valid, its host holds no slash or brace and its text is the parsed string.\<close>

theorem parsePattern_wellformed:
  assumes "parsePattern L s = Inr p"
  shows "pat_segments p \<noteq> [] \<and> multi_last (pat_segments p) \<and>
    distinct (wild_names (pat_segments p)) \<and> named_singles (pat_segments p) \<and>
    (\<forall>n \<in> set (wild_names (pat_segments p)). isValidWildcardName L n) \<and>
    (pat_method p = [] \<or> validMethod L (pat_method p)) \<and>
    CHR ''/'' \<notin> set (pat_host p) \<and> CHR ''{'' \<notin> set (pat_host p) \<and> pat_str p = s"
  using parsePattern_segments [OF assms] .

lemmas parse_eval = parsePattern_def parse_segments.simps cut_byte_def break_byte_def cut_suffix_def
  has_suffix_def suffix_def validMethod_def isNotToken_def isValidWildcardName_def go_isLetter_def
  go_isDigit_def decode_rune_def example_lib_def ascii_alnum_def cleanPath_def path_Clean_def
  pathUnescape_def has_prefix_def lit_seg_def wild_seg_def

theorem parsePattern_wellformed_witness:
  "\<exists>p. parsePattern example_lib ''GET /b/{x}/{y...}'' = Inr p \<and>
     distinct (wild_names (pat_segments p)) \<and> multi_last (pat_segments p)"
proof -
  have "parsePattern example_lib ''GET /b/{x}/{y...}'' =
      Inr \<lparr>pat_str = ''GET /b/{x}/{y...}'', pat_method = ''GET'', pat_host = [],
           pat_segments = [lit_seg ''b'', wild_seg ''x'' False, wild_seg ''y'' True], pat_loc = []\<rparr>"
    by (simp add: parse_eval)
  from parsePattern_wellformed [OF this] this show ?thesis by blast
qed

subsection \<open>Printing and parsing back\<close>

definition seg_text :: "segment \<Rightarrow> string" where
  "seg_text s =
     (if \<not> seg_wild s then (if seg_s s = ''/'' then ''/{$}'' else CHR ''/'' # seg_s s)
      else if seg_multi s then (if seg_s s = [] then ''/'' else ''/{'' @ seg_s s @ ''...}'')
      else ''/{'' @ seg_s s @ ''}'')"

definition path_text :: "segment list \<Rightarrow> string" where
  "path_text ss = concat (map seg_text ss)"

text \<open>
  Segments whose text parses back: literals are plain and have no brace, \<open>{$}\<close> and multi
  wildcards come last, names are identifiers without slashes and are distinct.
\<close>

fun parseable_segs :: "golib \<Rightarrow> string list \<Rightarrow> segment list \<Rightarrow> bool" where
  "parseable_segs L seen [] = True"
| "parseable_segs L seen (s # ss) =
     (if \<not> seg_wild s then
        \<not> seg_multi s \<and> parseable_segs L seen ss \<and>
        ((plain_seg (seg_s s) \<and> CHR ''{'' \<notin> set (seg_s s)) \<or> (seg_s s = ''/'' \<and> ss = []))
      else if seg_multi s \<and> seg_s s = [] then ss = []
      else isValidWildcardName L (seg_s s) \<and> seg_s s \<noteq> [] \<and> CHR ''/'' \<notin> set (seg_s s) \<and>
        seg_s s \<noteq> ''$'' \<and> \<not> has_suffix (seg_s s) ''...'' \<and> seg_s s \<notin> set seen \<and>
        (seg_multi s \<longrightarrow> ss = []) \<and> parseable_segs L (seg_s s # seen) ss)"

lemma path_text_simps [simp]: "path_text [] = []" "path_text (s # ss) = seg_text s @ path_text ss"
  by (simp_all add: path_text_def)

lemma path_text_starts: "path_text ss = [] \<or> (\<exists>t. path_text ss = CHR ''/'' # t)"
  by (cases ss) (auto simp: seg_text_def)

lemma parse_segments_step:
  assumes "CHR ''/'' \<notin> set seg" and "seg \<noteq> []"
  shows "parse_segments L n (CHR ''/'' # seg @ path_text ss) seen segs =
     (let off = Some (n - length (seg @ path_text ss)) in
      case index_byte seg (CHR ''{'') of
        None \<Rightarrow> parse_segments L n (path_text ss) seen (segs @ [lit_seg (pathUnescape seg)])
      | Some i \<Rightarrow>
          if i \<noteq> 0 then Inl (off, WildcardMustStart)
          else if last seg \<noteq> CHR ''}'' then Inl (off, WildcardMustEnd)
          else if butlast (tl seg) = ''$'' then
            (if path_text ss \<noteq> [] then Inl (off, DollarNotAtEnd) else Inr (segs @ [lit_seg ''/'']))
          else (case cut_suffix (butlast (tl seg)) ''...'' of (name, multi) \<Rightarrow>
            if multi \<and> path_text ss \<noteq> [] then Inl (off, MultiNotAtEnd)
            else if name = [] then Inl (off, EmptyWildcard)
            else if \<not> isValidWildcardName L name then Inl (off, BadWildcardName name)
            else if name \<in> set seen then Inl (off, DuplicateWildcardName name)
            else parse_segments L n (path_text ss) (name # seen) (segs @ [wild_seg name multi])))"
proof -
  have "break_byte (CHR ''/'') (seg @ path_text ss) = (seg, path_text ss)"
    using assms(1) path_text_starts by (rule break_byte_before)
  then show ?thesis using assms(2)
    by (subst parse_segments.simps)
      (cases "index_byte seg (CHR ''{'')"; simp add: Let_def split: prod.split)
qed

lemma cut_suffix_append: "cut_suffix (n @ ''...'') ''...'' = (n, True)"
  by (simp add: cut_suffix_def has_suffix_def suffix_def)

lemma seg_eta:
  "\<not> seg_wild s \<Longrightarrow> \<not> seg_multi s \<Longrightarrow> lit_seg (seg_s s) = s"
  "seg_wild s \<Longrightarrow> wild_seg (seg_s s) (seg_multi s) = s"
  by (cases s; simp add: lit_seg_def wild_seg_def)+

lemma parse_segments_text:
  "parseable_segs L seen ss \<Longrightarrow> parse_segments L n (path_text ss) seen segs = Inr (segs @ ss)"
proof (induction ss arbitrary: seen segs)
  case Nil
  then show ?case by (simp add: parse_segments.simps)
next
  case (Cons s ss)
  consider (lit) "\<not> seg_wild s" "seg_s s \<noteq> ''/''" | (dollar) "\<not> seg_wild s" "seg_s s = ''/''"
    | (anon) "seg_wild s" "seg_multi s" "seg_s s = []" | (single) "seg_wild s" "\<not> seg_multi s"
    | (multi) "seg_wild s" "seg_multi s" "seg_s s \<noteq> []" by blast
  then show ?case
  proof cases
    case lit
    then have pl: "plain_seg (seg_s s)" "CHR ''{'' \<notin> set (seg_s s)" "\<not> seg_multi s"
      "parseable_segs L seen ss" using Cons.prems by auto
    then show ?thesis
      using Cons.IH [OF pl(4), of "segs @ [s]"] lit
      by (simp add: seg_text_def parse_segments_step plain_seg_def seg_eta)
  next
    case dollar
    then have "ss = []" "\<not> seg_multi s" using Cons.prems by auto
    moreover have "parse_segments L n (CHR ''/'' # ''{$}'' @ path_text []) seen segs =
        Inr (segs @ [lit_seg ''/''])"
      by (subst parse_segments_step) simp_all
    ultimately show ?thesis using dollar seg_eta(1) [of s] by (simp add: seg_text_def)
  next
    case anon
    then show ?thesis using Cons.prems seg_eta(2) [of s]
      by (simp add: seg_text_def parse_segments.simps)
  next
    case single
    let ?seg = "CHR ''{'' # seg_s s @ ''}''"
    have "parse_segments L n (CHR ''/'' # ?seg @ path_text ss) seen segs = Inr (segs @ s # ss)"
      using Cons.prems single Cons.IH [of "seg_s s # seen" "segs @ [s]"] seg_eta(2) [of s]
      by (subst parse_segments_step) (simp_all add: cut_suffix_def butlast_append)
    then show ?thesis using single by (simp add: seg_text_def)
  next
    case multi
    let ?seg = "CHR ''{'' # (seg_s s @ ''...'') @ ''}''"
    have ne: "seg_s s @ ''...'' \<noteq> ''$''" by (cases "seg_s s") auto
    have "butlast (tl ?seg) = seg_s s @ ''...''" by (simp add: butlast_append)
    then have "parse_segments L n (CHR ''/'' # ?seg @ path_text ss) seen segs = Inr (segs @ s # ss)"
      using Cons.prems multi Cons.IH [of "seg_s s # seen" "segs @ [s]"] seg_eta(2) [of s] ne
      by (subst parse_segments_step) (simp_all add: cut_suffix_append del: tl_append2)
    then show ?thesis using multi by (simp add: seg_text_def)
  qed
qed

definition pattern_text :: "pattern \<Rightarrow> string" where
  "pattern_text p =
     (if pat_method p = [] then [] else pat_method p @ '' '') @ pat_host p @ path_text (pat_segments p)"

text \<open>Printing a pattern with parseable segments and parsing the text returns the pattern.\<close>

theorem parsePattern_roundtrip:
  assumes segs: "parseable_segs L [] (pat_segments p)" "pat_segments p \<noteq> []"
    and host: "CHR ''/'' \<notin> set (pat_host p)" "CHR ''{'' \<notin> set (pat_host p)"
    and meth: "pat_method p \<noteq> [] \<Longrightarrow> validMethod L (pat_method p) \<and> CHR '' '' \<notin> set (pat_method p)"
    and spc: "pat_method p = [] \<Longrightarrow> CHR '' '' \<notin> set (pattern_text p)"
    and clean: "pat_method p \<noteq> [] \<Longrightarrow> pat_method p \<noteq> ''CONNECT'' \<Longrightarrow>
      cleanPath (path_text (pat_segments p)) = path_text (pat_segments p)"
  shows "parsePattern L (pattern_text p) = Inr (p\<lparr>pat_str := pattern_text p, pat_loc := []\<rparr>)"
proof -
  let ?path = "path_text (pat_segments p)"
  obtain t where t: "?path = CHR ''/'' # t"
    using path_text_starts [of "pat_segments p"] segs(2)
    by (cases "pat_segments p") (auto simp: seg_text_def split: if_splits)
  have idx: "index_byte (pat_host p @ ?path) (CHR ''/'') = Some (length (pat_host p))"
    using host(1) unfolding t by (rule index_byte_append)
  have ps: "parse_segments L n ?path [] [] = Inr (pat_segments p)" for n
    using parse_segments_text [OF segs(1), of n "[]"] by simp
  have p: "p\<lparr>pat_str := x, pat_loc := []\<rparr> = \<lparr>pat_str = x, pat_method = pat_method p,
      pat_host = pat_host p, pat_segments = pat_segments p, pat_loc = []\<rparr>" for x
    by (cases p) simp
  show ?thesis
  proof (cases "pat_method p = []")
    case True
    have "cut_byte (pattern_text p) (CHR '' '') = (pattern_text p, [], False)"
      by (rule cut_byte_not_found [OF spc [OF True]])
    then show ?thesis using True idx host ps p [of "pattern_text p"] t
      by (simp add: parsePattern_def pattern_text_def Let_def)
  next
    case False
    have "cut_byte (pattern_text p) (CHR '' '') = (pat_method p, pat_host p @ ?path, True)"
      using False meth cut_byte_found [of "CHR '' ''" "pat_method p" "pat_host p @ ?path"]
      by (simp add: pattern_text_def)
    then show ?thesis using False meth idx host ps p [of "pattern_text p"] clean
      by (cases "pat_method p = ''CONNECT''") (simp_all add: parsePattern_def pattern_text_def Let_def)
  qed
qed

theorem parsePattern_roundtrip_witness:
  "parsePattern example_lib ''POST example.com/a/{x}/{$}'' =
     Inr ((example_pattern ''POST'' ''example.com''
       [lit_seg ''a'', wild_seg ''x'' False, lit_seg ''/''])
       \<lparr>pat_str := ''POST example.com/a/{x}/{$}''\<rparr>)"
proof -
  let ?p = "example_pattern ''POST'' ''example.com'' [lit_seg ''a'', wild_seg ''x'' False, lit_seg ''/'']"
  have txt_eq: "pattern_text ?p = ''POST example.com/a/{x}/{$}''"
    by (simp add: pattern_text_def path_text_def seg_text_def lit_seg_def wild_seg_def)
  have segs: "parseable_segs example_lib [] (pat_segments ?p)"
    by (simp add: parse_eval plain_seg_def path_text_def seg_text_def)
  have clean: "cleanPath (path_text (pat_segments ?p)) = path_text (pat_segments ?p)"
    by (simp add: parse_eval plain_seg_def path_text_def seg_text_def)
  have meth: "validMethod example_lib (pat_method ?p)"
    by (simp add: parse_eval)
  show ?thesis
    using parsePattern_roundtrip [of example_lib ?p] segs clean meth txt_eq by simp
qed

end
