(* ===== verification/Mux_Request.thy ===== *)
theory Mux_Request
  imports Routing_Match Pattern_Parse
begin

section \<open>Requests as the multiplexer sees them (request.go)\<close>

text \<open>
  The fields of \<open>Request\<close> and \<open>url.URL\<close> that routing reads and writes, \<open>URL.EscapedPath\<close> of
  the standard library, and the accessors of \<open>request.go\<close> for wildcard values: \<open>PathValue\<close>,
  \<open>SetPathValue\<close> and \<open>patIndex\<close>. The lemmas show that a value set is the value read, that
  other names keep their values, and that the values of a match are read back without a panic.
\<close>

subsection \<open>URLs\<close>

record url =
  url_Host :: string
  url_Path :: string
  url_RawPath :: string
  url_RawQuery :: string

definition is_alnum :: "char \<Rightarrow> bool" where
  "is_alnum c = ((CHR ''a'' \<le> c \<and> c \<le> CHR ''z'') \<or> (CHR ''A'' \<le> c \<and> c \<le> CHR ''Z'')
     \<or> (CHR ''0'' \<le> c \<and> c \<le> CHR ''9''))"

text \<open>\<open>shouldEscape\<close>, \<open>escape\<close> and \<open>validEncoded\<close> of \<open>net/url\<close> in the mode \<open>encodePath\<close>.\<close>

definition path_should_escape :: "char \<Rightarrow> bool" where
  "path_should_escape c = (\<not> is_alnum c \<and> c \<notin> set ''-_.~$&+,/:;=@'')"

definition upper_hex :: "nat \<Rightarrow> char" where
  "upper_hex n = ''0123456789ABCDEF'' ! n"

definition path_escape :: "string \<Rightarrow> string" where
  "path_escape s = concat (map (\<lambda>c. if path_should_escape c
     then [CHR ''%'', upper_hex (byte_val c div 16), upper_hex (byte_val c mod 16)] else [c]) s)"

definition valid_encoded_path :: "string \<Rightarrow> bool" where
  "valid_encoded_path s =
     list_all (\<lambda>c. c \<in> set ''!$&()*+,;=:@[]%'' \<or> byte_val c = 39 \<or> \<not> path_should_escape c) s"

definition EscapedPath :: "url \<Rightarrow> string" where
  "EscapedPath u =
     (if url_RawPath u \<noteq> [] \<and> valid_encoded_path (url_RawPath u) \<and>
         url_PathUnescape (url_RawPath u) = Some (url_Path u)
      then url_RawPath u
      else if url_Path u = ''*'' then ''*''
      else path_escape (url_Path u))"

subsection \<open>Requests and their path values\<close>

record request =
  req_Method :: string
  req_Host :: string
  req_URL :: url
  req_RequestURI :: string
  req_ProtoMajor :: int
  req_ProtoMinor :: int
  req_pat :: "pattern option"
  req_matches :: "string list"
  req_otherValues :: "(string \<times> string) list option"

fun pat_index_loop :: "string \<Rightarrow> segment list \<Rightarrow> nat \<Rightarrow> nat option" where
  "pat_index_loop name [] i = None"
| "pat_index_loop name (seg # segs) i =
     (if seg_wild seg \<and> seg_s seg \<noteq> [] then
        (if name = seg_s seg then Some i else pat_index_loop name segs (Suc i))
      else pat_index_loop name segs i)"

definition patIndex :: "request \<Rightarrow> string \<Rightarrow> nat option" where
  "patIndex r name =
     (case req_pat r of None \<Rightarrow> None | Some p \<Rightarrow> pat_index_loop name (pat_segments p) 0)"

definition PathValue :: "request \<Rightarrow> string \<Rightarrow> string go" where
  "PathValue r name =
     (case patIndex r name of
        Some i \<Rightarrow>
          if i < length (req_matches r) then Ret (req_matches r ! i) else Panic ''index out of range''
      | None \<Rightarrow>
          Ret (case req_otherValues r of None \<Rightarrow> []
               | Some m \<Rightarrow> (case map_of m name of None \<Rightarrow> [] | Some v \<Rightarrow> v)))"

definition SetPathValue :: "string \<Rightarrow> string \<Rightarrow> request \<Rightarrow> request go" where
  "SetPathValue name v r =
     (case patIndex r name of
        Some i \<Rightarrow>
          if i < length (req_matches r) then Ret (r\<lparr>req_matches := (req_matches r)[i := v]\<rparr>)
          else Panic ''index out of range''
      | None \<Rightarrow>
          Ret (r\<lparr>req_otherValues :=
            Some (AList.update name v (case req_otherValues r of None \<Rightarrow> [] | Some m \<Rightarrow> m))\<rparr>))"

lemma pat_index_loop_Some:
  assumes "pat_index_loop name segs i = Some j"
  shows "\<exists>k < length (wild_names segs). j = i + k \<and> wild_names segs ! k = name"
  using assms
proof (induction segs arbitrary: i)
  case (Cons seg segs)
  have names: "wild_names (seg # segs) =
      (if seg_wild seg \<and> seg_s seg \<noteq> [] then seg_s seg # wild_names segs else wild_names segs)"
    by (simp add: wild_names_def)
  show ?case
  proof (cases "seg_wild seg \<and> seg_s seg \<noteq> [] \<and> name \<noteq> seg_s seg")
    case True
    with Cons.prems Cons.IH [of "Suc i"] obtain k where "k < length (wild_names segs)"
      "j = i + Suc k" "wild_names segs ! k = name" by auto
    with True show ?thesis unfolding names by (intro exI [of _ "Suc k"]) simp
  next
    case False
    with Cons show ?thesis unfolding names by (auto split: if_splits)
  qed
qed simp

lemma pat_index_loop_None: "pat_index_loop name segs i = None \<longleftrightarrow> name \<notin> set (wild_names segs)"
  by (induction segs arbitrary: i) (auto simp: wild_names_def)

lemma patIndex_update [simp]:
  "patIndex (r\<lparr>req_otherValues := m\<rparr>) name = patIndex r name"
  "patIndex (r\<lparr>req_matches := ms\<rparr>) name = patIndex r name"
  by (simp_all add: patIndex_def)

lemma patIndex_inj: "patIndex r a = Some i \<Longrightarrow> patIndex r b = Some i \<Longrightarrow> a = b"
  by (auto simp: patIndex_def split: option.splits dest!: pat_index_loop_Some)

text \<open>After \<open>SetPathValue\<close> returns, \<open>PathValue\<close> of the same name returns the value set and
  \<open>PathValue\<close> of every other name is unchanged.\<close>

theorem SetPathValue_PathValue:
  assumes "SetPathValue name v r = Ret r'"
  shows "PathValue r' name = Ret v \<and> (\<forall>other. other \<noteq> name \<longrightarrow> PathValue r' other = PathValue r other)"
proof (cases "patIndex r name")
  case None
  then have r': "r' = r\<lparr>req_otherValues :=
      Some (AList.update name v (case req_otherValues r of None \<Rightarrow> [] | Some m \<Rightarrow> m))\<rparr>"
    using assms by (simp add: SetPathValue_def)
  show ?thesis
    using None unfolding PathValue_def r' by (auto simp: update_conv' split: option.split)
next
  case (Some i)
  then have i: "i < length (req_matches r)" and r': "r' = r\<lparr>req_matches := (req_matches r)[i := v]\<rparr>"
    using assms by (auto simp: SetPathValue_def split: if_splits)
  have "j \<noteq> i" if "other \<noteq> name" "patIndex r other = Some j" for other j
    using that patIndex_inj [OF Some] by blast
  then show ?thesis
    using Some i unfolding PathValue_def r' by (auto split: option.split) (metis nth_list_update_neq)
qed

text \<open>The values recorded by a match are as many as the names of the pattern.\<close>

lemma length_captures:
  "multi_last ss \<Longrightarrow> named_singles ss \<Longrightarrow> length (captures ss path) = length (wild_names ss)"
  by (induction ss arbitrary: path) (auto simp: wild_names_def named_singles_def)

lemma PathValue_captures:
  assumes "req_pat r = Some p" and "req_matches r = captures (pat_segments p) path"
    and "multi_last (pat_segments p)" and "named_singles (pat_segments p)"
  shows "no_panic (PathValue r name)"
  using assms length_captures [OF assms(3,4), of path]
  by (auto simp: PathValue_def patIndex_def split: option.splits dest: pat_index_loop_Some)

text \<open>A request with an empty URL and the given pattern and matches, for examples.\<close>

abbreviation example_request :: "pattern option \<Rightarrow> string list \<Rightarrow> request" where
  "example_request pat ms \<equiv>
     \<lparr>req_Method = ''GET'', req_Host = [],
      req_URL = \<lparr>url_Host = [], url_Path = ''/'', url_RawPath = [], url_RawQuery = []\<rparr>,
      req_RequestURI = ''/'', req_ProtoMajor = 1, req_ProtoMinor = 1, req_pat = pat,
      req_matches = ms, req_otherValues = None\<rparr>"

theorem SetPathValue_PathValue_witness:
  "\<exists>r'. SetPathValue ''y'' ''new''
       (example_request (Some (example_pattern [] [] [wild_seg ''x'' False, wild_seg ''y'' True])) [''a'', ''b'']) =
     Ret r' \<and> PathValue r' ''y'' = Ret ''new'' \<and> PathValue r' ''x'' = Ret ''a''"
proof -
  let ?r = "example_request (Some (example_pattern [] [] [wild_seg ''x'' False, wild_seg ''y'' True])) [''a'', ''b'']"
  have s: "SetPathValue ''y'' ''new'' ?r = Ret (?r\<lparr>req_matches := [''a'', ''new'']\<rparr>)"
    and "PathValue ?r ''x'' = Ret ''a''"
    by (simp_all add: SetPathValue_def PathValue_def patIndex_def wild_seg_def)
  with SetPathValue_PathValue [OF s] show ?thesis by simp
qed

subsection \<open>Handlers\<close>

text \<open>
  The interface value \<open>Handler\<close> a caller passes: nil, a nil \<open>HandlerFunc\<close>, or a handler. What
  a multiplexer decides to run is such a handler or one it makes itself; a redirect keeps the
  URL whose \<open>String()\<close> is passed to \<open>RedirectHandler\<close>.
\<close>

datatype 'h handler = NilHandler | NilHandlerFunc | HandlerImpl 'h

datatype 'h dispatch =
    UserHandler "'h handler"
  | RedirectHandler url nat
  | MethodNotAllowedHandler "string list"
  | NotFoundHandler

definition redirect_url :: "string \<Rightarrow> string \<Rightarrow> url" where
  "redirect_url path query = \<lparr>url_Host = [], url_Path = path, url_RawPath = [], url_RawQuery = query\<rparr>"

definition StatusMovedPermanently :: nat where
  "StatusMovedPermanently = 301"

end
