(* ===== verification/Serve_Mux_121.thy ===== *)
theory Serve_Mux_121
  imports Mux_Request
begin

section \<open>The multiplexer of Go 1.21 (servemux121.go)\<close>

text \<open>
  \<open>servemux121.go\<close>: the multiplexer used under \<open>GODEBUG=httpmuxgo121=1\<close>. Patterns are literal
  strings; those that end in a slash match by prefix and are kept sorted by length. The lemmas
  show that the entries stay sorted, that \<open>match\<close> returns the exact entry or the longest
  registered prefix, and that a redirect to the path with a slash leads to the handler
  registered for it.
\<close>

record 'h muxEntry =
  me_h :: "'h handler"
  me_pattern :: string

record 'h serveMux121 =
  m121_m :: "(string \<times> 'h muxEntry) list"
  m121_es :: "'h muxEntry list"
  m121_hosts :: bool

definition mux121_empty :: "'h serveMux121" where
  "mux121_empty = \<lparr>m121_m = [], m121_es = [], m121_hosts = False\<rparr>"

subsection \<open>Registering\<close>

text \<open>The binary search of \<open>sort.Search\<close>.\<close>

function sort_Search_loop :: "(nat \<Rightarrow> bool) \<Rightarrow> nat \<Rightarrow> nat \<Rightarrow> nat" where
  "sort_Search_loop f i j =
     (if i < j then
        let h = (i + j) div 2 in
        if \<not> f h then sort_Search_loop f (h + 1) j else sort_Search_loop f i h
      else i)"
  by pat_completeness auto
termination
  by (relation "measure (\<lambda>(f, i, j). j - i)") auto

declare sort_Search_loop.simps [simp del]

definition sort_Search :: "nat \<Rightarrow> (nat \<Rightarrow> bool) \<Rightarrow> nat" where
  "sort_Search n f = sort_Search_loop f 0 n"

definition appendSorted :: "'h muxEntry list \<Rightarrow> 'h muxEntry \<Rightarrow> 'h muxEntry list" where
  "appendSorted es e =
     (let n = length es;
          i = sort_Search n (\<lambda>i. length (me_pattern (es ! i)) < length (me_pattern e))
      in if i = n then es @ [e] else take i es @ e # drop i es)"

definition handle121 :: "string \<Rightarrow> 'h handler \<Rightarrow> 'h serveMux121 \<Rightarrow> 'h serveMux121 go" where
  "handle121 pat handler mux =
     (if pat = [] then Panic ''http: invalid pattern''
      else if handler = NilHandler then Panic ''http: nil handler''
      else if map_of (m121_m mux) pat \<noteq> None then Panic (''http: multiple registrations for '' @ pat)
      else
        let e = \<lparr>me_h = handler, me_pattern = pat\<rparr> in
        Ret \<lparr>m121_m = AList.update pat e (m121_m mux),
             m121_es = (if last pat = CHR ''/'' then appendSorted (m121_es mux) e else m121_es mux),
             m121_hosts = (if hd pat \<noteq> CHR ''/'' then True else m121_hosts mux)\<rparr>)"

text \<open>\<open>None\<close> is a nil function.\<close>

definition handleFunc121 :: "string \<Rightarrow> 'h option \<Rightarrow> 'h serveMux121 \<Rightarrow> 'h serveMux121 go" where
  "handleFunc121 pat handler mux =
     (case handler of None \<Rightarrow> Panic ''http: nil handler''
      | Some h \<Rightarrow> handle121 pat (HandlerImpl h) mux)"

subsection \<open>Matching\<close>

fun first_prefix :: "'h muxEntry list \<Rightarrow> string \<Rightarrow> 'h muxEntry option" where
  "first_prefix [] path = None"
| "first_prefix (e # es) path = (if has_prefix path (me_pattern e) then Some e else first_prefix es path)"

definition match121 :: "'h serveMux121 \<Rightarrow> string \<Rightarrow> ('h handler \<times> string) option" where
  "match121 mux path =
     (case map_of (m121_m mux) path of
        Some v \<Rightarrow> Some (me_h v, me_pattern v)
      | None \<Rightarrow> map_option (\<lambda>e. (me_h e, me_pattern e)) (first_prefix (m121_es mux) path))"

definition handler121 :: "'h serveMux121 \<Rightarrow> string \<Rightarrow> string \<Rightarrow> 'h dispatch \<times> string" where
  "handler121 mux host path =
     (case (if m121_hosts mux then match121 mux (host @ path) else None) of
        Some (h, p) \<Rightarrow> (UserHandler h, p)
      | None \<Rightarrow>
          (case match121 mux path of
             Some (h, p) \<Rightarrow> (UserHandler h, p)
           | None \<Rightarrow> (NotFoundHandler, [])))"

definition shouldRedirectRLocked :: "'h serveMux121 \<Rightarrow> string \<Rightarrow> string \<Rightarrow> bool" where
  "shouldRedirectRLocked mux host path =
     (if map_of (m121_m mux) path \<noteq> None \<or> map_of (m121_m mux) (host @ path) \<noteq> None then False
      else if path = [] then False
      else if map_of (m121_m mux) (path @ ''/'') \<noteq> None \<or> map_of (m121_m mux) (host @ path @ ''/'') \<noteq> None
      then last path \<noteq> CHR ''/''
      else False)"

definition redirectToPathSlash :: "'h serveMux121 \<Rightarrow> string \<Rightarrow> string \<Rightarrow> url \<Rightarrow> url \<times> bool" where
  "redirectToPathSlash mux host path u =
     (if \<not> shouldRedirectRLocked mux host path then (u, False)
      else (redirect_url (path @ ''/'') (url_RawQuery u), True))"

definition findHandler121 :: "'h serveMux121 \<Rightarrow> request \<Rightarrow> 'h dispatch \<times> string" where
  "findHandler121 mux r =
     (if req_Method r = ''CONNECT'' then
        (case redirectToPathSlash mux (url_Host (req_URL r)) (url_Path (req_URL r)) (req_URL r) of
           (u, ok) \<Rightarrow>
             if ok then (RedirectHandler u StatusMovedPermanently, url_Path u)
             else handler121 mux (req_Host r) (url_Path (req_URL r)))
      else
        let host = stripHostPort (req_Host r);
            path = cleanPath (url_Path (req_URL r)) in
        (case redirectToPathSlash mux host path (req_URL r) of
           (u, ok) \<Rightarrow>
             if ok then (RedirectHandler u StatusMovedPermanently, url_Path u)
             else if path \<noteq> url_Path (req_URL r) then
               (RedirectHandler (redirect_url path (url_RawQuery (req_URL r))) StatusMovedPermanently,
                snd (handler121 mux host path))
             else handler121 mux host (url_Path (req_URL r))))"

subsection \<open>The entries stay sorted\<close>

definition mono_below :: "nat \<Rightarrow> (nat \<Rightarrow> bool) \<Rightarrow> bool" where
  "mono_below n f = (\<forall>a b. a \<le> b \<and> b < n \<and> f a \<longrightarrow> f b)"

definition splits_at :: "nat \<Rightarrow> (nat \<Rightarrow> bool) \<Rightarrow> nat \<Rightarrow> bool" where
  "splits_at n f r = (r \<le> n \<and> (\<forall>k < r. \<not> f k) \<and> (\<forall>k. r \<le> k \<and> k < n \<longrightarrow> f k))"

lemma sort_Search_loop_correct:
  assumes "i \<le> j" "j \<le> n" and "\<forall>k < i. \<not> f k" and "\<forall>k. j \<le> k \<and> k < n \<longrightarrow> f k" and "mono_below n f"
  shows "splits_at n f (sort_Search_loop f i j)"
  using assms
proof (induction f i j rule: sort_Search_loop.induct)
  case (1 f i j)
  let ?h = "(i + j) div 2"
  show ?case
  proof (cases "i < j")
    case False
    with "1.prems" show ?thesis by (simp add: sort_Search_loop.simps splits_at_def)
  next
    case lt: True
    then have h: "i \<le> ?h" "?h < j" by auto
    show ?thesis
    proof (cases "f ?h")
      case True
      have "\<forall>k. ?h \<le> k \<and> k < n \<longrightarrow> f k" using "1.prems"(5) True unfolding mono_below_def by blast
      then have "splits_at n f (sort_Search_loop f i ?h)"
        using "1.IH"(2) [OF lt refl] True h "1.prems" by (simp add: less_imp_le)
      then show ?thesis using lt True by (simp add: sort_Search_loop.simps [of f i j] Let_def)
    next
      case False
      have "\<not> f k" if "k < ?h + 1" for k
      proof
        assume "f k"
        moreover have "k \<le> ?h" "?h < n" using that h "1.prems"(2) by linarith+
        ultimately show False using "1.prems"(5) False unfolding mono_below_def by blast
      qed
      then have "splits_at n f (sort_Search_loop f (?h + 1) j)"
        using "1.IH"(1) [OF lt refl False] h "1.prems" by simp
      then show ?thesis using lt False by (simp add: sort_Search_loop.simps [of f i j] Let_def)
    qed
  qed
qed

lemma sort_Search_correct: "mono_below n f \<Longrightarrow> splits_at n f (sort_Search n f)"
  unfolding sort_Search_def by (rule sort_Search_loop_correct) auto

definition longest_first :: "'h muxEntry list \<Rightarrow> bool" where
  "longest_first es = sorted_wrt (\<lambda>a b. length (me_pattern b) \<le> length (me_pattern a)) es"

lemma appendSorted_correct:
  assumes "longest_first es"
  shows "longest_first (appendSorted es e)" and "set (appendSorted es e) = insert e (set es)"
proof -
  let ?f = "\<lambda>i. length (me_pattern (es ! i)) < length (me_pattern e)"
  define i where "i = sort_Search (length es) ?f"
  have "mono_below (length es) ?f"
    unfolding mono_below_def
  proof (intro allI impI, elim conjE)
    fix a b
    assume ab: "a \<le> b" "b < length es" "?f a"
    have "length (me_pattern (es ! b)) \<le> length (me_pattern (es ! a))"
      using ab assms by (cases "a = b") (simp_all add: longest_first_def sorted_wrt_iff_nth_less)
    with ab(3) show "?f b" by simp
  qed
  from sort_Search_correct [OF this] have ss: "i \<le> length es" "\<forall>k < i. \<not> ?f k"
    "\<forall>k. i \<le> k \<and> k < length es \<longrightarrow> ?f k" unfolding splits_at_def i_def by blast+
  have as: "appendSorted es e = take i es @ e # drop i es"
    using ss(1) by (simp add: appendSorted_def Let_def flip: i_def)
  have front: "\<forall>x \<in> set (take i es). length (me_pattern e) \<le> length (me_pattern x)"
    using ss(1,2) by (auto simp: in_set_conv_nth not_less)
  have behind: "\<forall>x \<in> set (drop i es). length (me_pattern x) \<le> length (me_pattern e)"
  proof
    fix x
    assume "x \<in> set (drop i es)"
    then obtain k where k: "k < length (drop i es)" "x = drop i es ! k" by (metis in_set_conv_nth)
    then have "i + k < length es" "x = es ! (i + k)" by auto
    with ss(3) [rule_format, of "i + k"] show "length (me_pattern x) \<le> length (me_pattern e)" by simp
  qed
  have "sorted_wrt (\<lambda>a b. length (me_pattern b) \<le> length (me_pattern a)) (take i es @ drop i es)"
    using assms by (simp add: longest_first_def)
  then show "longest_first (appendSorted es e)"
    unfolding as longest_first_def sorted_wrt_append using front behind by auto
  show "set (appendSorted es e) = insert e (set es)"
    unfolding as by (metis append_take_drop_id insert_is_Un list.simps(15) set_append Un_left_commute)
qed

definition mux121_ok :: "'h serveMux121 \<Rightarrow> bool" where
  "mux121_ok mux =
     ((\<forall>k e. map_of (m121_m mux) k = Some e \<longrightarrow> me_pattern e = k \<and> k \<noteq> []) \<and>
      longest_first (m121_es mux) \<and>
      set (m121_es mux) = {e. \<exists>k. map_of (m121_m mux) k = Some e \<and> last k = CHR ''/''} \<and>
      m121_hosts mux = (\<exists>k \<in> dom (map_of (m121_m mux)). hd k \<noteq> CHR ''/''))"

lemma mux121_ok_empty: "mux121_ok mux121_empty"
  by (simp add: mux121_ok_def mux121_empty_def longest_first_def)

lemma handle121_ok:
  assumes ok: "mux121_ok mux" and h: "handle121 pat handler mux = Ret mux'"
  shows "mux121_ok mux'"
    and "map_of (m121_m mux') = (map_of (m121_m mux))(pat \<mapsto> \<lparr>me_h = handler, me_pattern = pat\<rparr>)"
proof -
  let ?e = "\<lparr>me_h = handler, me_pattern = pat\<rparr>"
  have new: "map_of (m121_m mux) pat = None" and ne: "pat \<noteq> []"
    and mux': "mux' = \<lparr>m121_m = AList.update pat ?e (m121_m mux),
      m121_es = (if last pat = CHR ''/'' then appendSorted (m121_es mux) ?e else m121_es mux),
      m121_hosts = (if hd pat \<noteq> CHR ''/'' then True else m121_hosts mux)\<rparr>"
    using h by (auto simp: handle121_def Let_def split: if_splits)
  show m: "map_of (m121_m mux') = (map_of (m121_m mux))(pat \<mapsto> ?e)"
    by (simp add: mux' update_conv')
  have sorted: "longest_first (m121_es mux)" using ok by (simp add: mux121_ok_def)
  have es: "set (m121_es mux') = {e. \<exists>k. map_of (m121_m mux') k = Some e \<and> last k = CHR ''/''}"
  proof -
    have "{e. \<exists>k. map_of (m121_m mux') k = Some e \<and> last k = CHR ''/''} =
        {e. \<exists>k. map_of (m121_m mux) k = Some e \<and> last k = CHR ''/''} \<union>
        (if last pat = CHR ''/'' then {?e} else {})"
    proof -
      have "(\<exists>k. map_of (m121_m mux') k = Some x \<and> last k = CHR ''/'') \<longleftrightarrow>
          (\<exists>k. map_of (m121_m mux) k = Some x \<and> last k = CHR ''/'') \<or> (last pat = CHR ''/'' \<and> x = ?e)"
        (is "?new \<longleftrightarrow> ?old \<or> ?pat") for x
      proof
        show "?new \<Longrightarrow> ?old \<or> ?pat" by (auto simp: m split: if_splits)
        assume "?old \<or> ?pat"
        then show ?new
        proof
          assume ?old
          then obtain k where k: "map_of (m121_m mux) k = Some x" "last k = CHR ''/''" by blast
          with new have "k \<noteq> pat" by auto
          with k show ?new by (auto simp: m)
        next
          assume ?pat
          then show ?new by (auto simp: m)
        qed
      qed
      then show ?thesis by auto
    qed
    then show ?thesis
      using ok appendSorted_correct(2) [OF sorted, of ?e] by (simp add: mux121_ok_def mux')
  qed
  show "mux121_ok mux'"
    unfolding mux121_ok_def es m
    using ok ne appendSorted_correct(1) [OF sorted, of ?e]
    by (auto simp: mux121_ok_def mux' split: if_splits)
qed

subsection \<open>The longest pattern wins\<close>

text \<open>A registered pattern applies to a path if it is the path, or ends in a slash and is a prefix.\<close>

definition covers :: "string \<Rightarrow> string \<Rightarrow> bool" where
  "covers pat path = (pat = path \<or> (last pat = CHR ''/'' \<and> prefix pat path))"

lemma first_prefix_Some:
  assumes "first_prefix es path = Some e" and "longest_first es"
  shows "e \<in> set es \<and> prefix (me_pattern e) path \<and>
    (\<forall>d \<in> set es. prefix (me_pattern d) path \<longrightarrow> length (me_pattern d) \<le> length (me_pattern e))"
  using assms by (induction es) (auto simp: has_prefix_def longest_first_def split: if_splits)

lemma first_prefix_None: "first_prefix es path = None \<longleftrightarrow> (\<forall>e \<in> set es. \<not> prefix (me_pattern e) path)"
  by (induction es) (auto simp: has_prefix_def)

inductive mux121_reachable :: "'h serveMux121 \<Rightarrow> bool" where
  mux121_start: "mux121_reachable mux121_empty"
| mux121_handle: "mux121_reachable mux \<Longrightarrow> handle121 pat handler mux = Ret mux' \<Longrightarrow> mux121_reachable mux'"

lemma mux121_reachable_ok: "mux121_reachable mux \<Longrightarrow> mux121_ok mux"
  by (induction rule: mux121_reachable.induct) (auto intro: mux121_ok_empty handle121_ok(1))

text \<open>In every state the registrations can reach, \<open>match\<close> returns nothing exactly when no
  registered pattern applies to the path; otherwise it returns the handler registered under the
  longest pattern that applies.\<close>

theorem match121_longest:
  assumes "mux121_reachable mux"
  shows "case match121 mux path of
      None \<Rightarrow> \<forall>k \<in> dom (map_of (m121_m mux)). \<not> covers k path
    | Some (h, pat) \<Rightarrow>
        map_of (m121_m mux) pat = Some \<lparr>me_h = h, me_pattern = pat\<rparr> \<and> covers pat path \<and>
        (\<forall>k \<in> dom (map_of (m121_m mux)). covers k path \<longrightarrow> length k \<le> length pat)"
proof -
  let ?m = "map_of (m121_m mux)"
  have key: "?m k = Some e \<Longrightarrow> me_pattern e = k" for k e
    using mux121_reachable_ok [OF assms] unfolding mux121_ok_def by blast
  have pat: "?m k = Some e \<Longrightarrow> e = \<lparr>me_h = me_h e, me_pattern = k\<rparr>" for k e
    using key [of k e] by (cases e) simp
  have es: "longest_first (m121_es mux)"
    "e \<in> set (m121_es mux) \<longleftrightarrow> ?m (me_pattern e) = Some e \<and> last (me_pattern e) = CHR ''/''" for e
    using mux121_reachable_ok [OF assms] key unfolding mux121_ok_def by blast+
  show ?thesis
  proof (cases "?m path")
    case (Some e)
    have "covers path path" by (simp add: covers_def)
    moreover have "covers k path \<Longrightarrow> length k \<le> length path" for k
      by (auto simp: covers_def prefix_length_le)
    ultimately show ?thesis
      using Some pat [OF Some] by (cases e) (auto simp: match121_def)
  next
    case None
    have cov: "covers k path \<longleftrightarrow> last k = CHR ''/'' \<and> prefix k path" if "k \<in> dom ?m" for k
      using that None by (auto simp: covers_def)
    have mem: "\<exists>e \<in> set (m121_es mux). me_pattern e = k" if "k \<in> dom ?m" "last k = CHR ''/''" for k
      using that pat es(2) by (metis domD muxEntry.select_convs(2))
    show ?thesis
    proof (cases "first_prefix (m121_es mux) path")
      case no: None
      have "\<not> covers k path" if "k \<in> dom ?m" for k
        using cov [OF that] mem [OF that] no by (auto simp: first_prefix_None)
      then show ?thesis using None no by (simp add: match121_def)
    next
      case (Some e)
      note fp = first_prefix_Some [OF Some es(1)]
      have reg: "?m (me_pattern e) = Some e" "last (me_pattern e) = CHR ''/''" using fp es(2) by auto
      have "length k \<le> length (me_pattern e)" if "k \<in> dom ?m" "covers k path" for k
        using that cov [OF that(1)] mem [OF that(1)] fp by blast
      then show ?thesis
        using None Some fp reg cov [of "me_pattern e"] by (cases e) (auto simp: match121_def)
    qed
  qed
qed

subsection \<open>Redirects\<close>

definition is_redirect :: "'h dispatch \<Rightarrow> bool" where
  "is_redirect d = (case d of RedirectHandler _ _ \<Rightarrow> True | _ \<Rightarrow> False)"

lemma handler121_not_redirect: "\<not> is_redirect (fst (handler121 mux host path))"
  by (auto simp: handler121_def is_redirect_def split: option.split)

lemma cleanPath_slash:
  assumes "cleanPath p = p" and "last p \<noteq> CHR ''/''"
  shows "cleanPath (p @ ''/'') = p @ ''/''"
proof -
  obtain es t where p: "p = path_of es t" "list_all good_elem es"
    using assms(1) cleanPath_form [of p] by metis
  then have "es \<noteq> []" using assms(2) by auto
  moreover from this have "\<not> t" using assms(2) last_path_of [OF p(2)] p(1) by blast
  ultimately have "p @ ''/'' = path_of es True" using p(1) by (simp add: path_of_True)
  then show ?thesis using cleanPath_path_of [OF p(2)] by metis
qed

lemma cleanPath_idem: "cleanPath (cleanPath p) = cleanPath p"
  by (metis cleanPath_form cleanPath_path_of)

text \<open>One redirect is enough: when the multiplexer answers a request that is not a CONNECT
  with a redirect, the request for the URL of that redirect is answered without another one.\<close>

theorem findHandler121_one_redirect:
  assumes "req_Method r \<noteq> ''CONNECT''"
    and "findHandler121 mux r = (RedirectHandler u code, s)"
  shows "\<not> is_redirect (fst (findHandler121 mux (r\<lparr>req_URL := u\<rparr>)))"
proof -
  let ?host = "stripHostPort (req_Host r)" and ?path = "cleanPath (url_Path (req_URL r))"
  have clean: "cleanPath ?path = ?path" by (rule cleanPath_idem)
  have final: "\<not> is_redirect (fst (findHandler121 mux (r\<lparr>req_URL := u\<rparr>)))"
    if "cleanPath (url_Path u) = url_Path u" "\<not> shouldRedirectRLocked mux ?host (url_Path u)"
    using that assms(1) handler121_not_redirect
    by (auto simp: findHandler121_def redirectToPathSlash_def Let_def)
  show ?thesis
  proof (cases "shouldRedirectRLocked mux ?host ?path")
    case True
    then have last: "last ?path \<noteq> CHR ''/''" by (auto simp: shouldRedirectRLocked_def split: if_splits)
    have "u = redirect_url (?path @ ''/'') (url_RawQuery (req_URL r))"
      using assms True by (simp add: findHandler121_def redirectToPathSlash_def Let_def)
    then have "url_Path u = ?path @ ''/''" by (simp add: redirect_url_def)
    then show ?thesis
      using final cleanPath_slash [OF clean last] by (simp add: shouldRedirectRLocked_def)
  next
    case False
    then have "url_Path u = ?path"
      using assms handler121_not_redirect [of mux ?host "url_Path (req_URL r)"]
      by (auto simp: findHandler121_def redirectToPathSlash_def redirect_url_def Let_def is_redirect_def
          split: if_splits)
    with False clean final show ?thesis by simp
  qed
qed

subsection \<open>Examples\<close>

abbreviation example_get :: "string \<Rightarrow> request" where
  "example_get path \<equiv> (example_request None [])\<lparr>req_URL := redirect_url path []\<rparr>"

lemma mux121_example:
  obtains mux where "mux121_reachable mux"
    and "map_of (m121_m mux) = [''/a/'' \<mapsto> \<lparr>me_h = HandlerImpl (1 :: int), me_pattern = ''/a/''\<rparr>,
           ''/a/b/'' \<mapsto> \<lparr>me_h = HandlerImpl 2, me_pattern = ''/a/b/''\<rparr>]"
proof -
  obtain m1 where m1: "handle121 ''/a/'' (HandlerImpl (1 :: int)) mux121_empty = Ret m1"
    by (simp add: handle121_def mux121_empty_def Let_def)
  have ok: "mux121_reachable m1" by (rule mux121_handle [OF mux121_start m1])
  note map1 = handle121_ok(2) [OF mux121_ok_empty m1]
  obtain m2 where m2: "handle121 ''/a/b/'' (HandlerImpl 2) m1 = Ret m2"
    using map1 by (simp add: handle121_def mux121_empty_def Let_def)
  note map2 = handle121_ok(2) [OF mux121_reachable_ok [OF ok] m2]
  show ?thesis
    by (rule that [OF mux121_handle [OF ok m2]]) (simp add: map2 map1 mux121_empty_def)
qed

theorem match121_longest_witness:
  "\<exists>mux. mux121_reachable mux \<and> match121 mux ''/a/b/c'' = Some (HandlerImpl (2 :: int), ''/a/b/'')"
proof -
  obtain mux where mux: "mux121_reachable mux"
    "map_of (m121_m mux) = [''/a/'' \<mapsto> \<lparr>me_h = HandlerImpl (1 :: int), me_pattern = ''/a/''\<rparr>,
       ''/a/b/'' \<mapsto> \<lparr>me_h = HandlerImpl 2, me_pattern = ''/a/b/''\<rparr>]"
    by (rule mux121_example)
  show ?thesis
    using match121_longest [OF mux(1), of "''/a/b/c''"] mux
    by (auto simp: covers_def split: option.splits if_splits)
qed

theorem findHandler121_one_redirect_witness:
  "\<exists>mux u. fst (findHandler121 mux (example_get ''/a'')) = (RedirectHandler u 301 :: int dispatch) \<and>
     \<not> is_redirect (fst (findHandler121 mux ((example_get ''/a'')\<lparr>req_URL := u\<rparr>)))"
proof -
  obtain mux where mux: "mux121_reachable mux"
    "map_of (m121_m mux) = [''/a/'' \<mapsto> \<lparr>me_h = HandlerImpl (1 :: int), me_pattern = ''/a/''\<rparr>,
       ''/a/b/'' \<mapsto> \<lparr>me_h = HandlerImpl 2, me_pattern = ''/a/b/''\<rparr>]"
    by (rule mux121_example)
  have "cleanPath ''/a'' = ''/a''"
    using cleanPath_path_of [of "[''a'']" False] by (simp add: path_of_def good_elem_def)
  then have f: "findHandler121 mux (example_get ''/a'') =
      (RedirectHandler (redirect_url ''/a/'' []) 301, ''/a/'')"
    using mux(2) by (simp add: findHandler121_def redirect_url_def stripHostPort_def Let_def
        redirectToPathSlash_def shouldRedirectRLocked_def StatusMovedPermanently_def)
  then show ?thesis
    using findHandler121_one_redirect [OF _ f]
    by (intro exI [of _ mux] exI [of _ "redirect_url ''/a/'' []"]) simp
qed

end
