(* ===== verification/Routing_Methods.thy ===== *)
theory Routing_Methods
  imports Routing_Match
begin

section \<open>Absence of panics and the methods that match a path\<close>

text \<open>
  Two more facts about the routing tree: on a tree that holds routable patterns no request path
  makes \<open>match\<close> panic, and \<open>matchingMethods\<close> collects exactly the methods that would match.
\<close>

subsection \<open>No request panics\<close>

lemma no_panic_or:
  "no_panic x \<Longrightarrow> no_panic f \<Longrightarrow> no_panic (go_bind x (\<lambda>r. case r of Some m \<Rightarrow> Ret (Some m) | None \<Rightarrow> f))"
  by (cases x) (simp_all split: option.split)

lemma matchPath_no_panic:
  "(\<And>n'. n = Some n' \<Longrightarrow> path_node n') \<Longrightarrow> no_panic (matchPath n path ms)"
proof (induction n path ms rule: matchPath.induct)
  case (2 n path ms)
  obtain seg rest where fs: "firstSegment path = (seg, rest)" by fastforce
  have pn: "path_node n" using "2.prems" by simp
  have child: "path_node c" if "findChild n k = Some c" for k c
    using path_node_child [OF pn that] .
  have empty: "path_node c" if "rn_emptyChild n = Some c" for c
    using child [of "[]" c] that by (simp add: findChild_Nil)
  have star: "\<exists>p. rn_pattern c = Some p \<and> pat_segments p \<noteq> []" if c: "findChild n ''*'' = Some c" for c
  proof -
    obtain p h s where e: "node_entry c = Some (p, h)" and s: "suffix [s] (pat_segments p)"
      using path_node_multi_leaf [OF pn c] by metis
    have "rn_pattern c = Some p" using e by (simp add: node_entry_def split: option.splits)
    moreover have "pat_segments p \<noteq> []" using s by (auto simp: suffix_def)
    ultimately show ?thesis by blast
  qed
  show ?case
  proof (cases "path = []")
    case True
    then show ?thesis by (simp add: matchPath.simps(2))
  next
    case False
    have lit: "no_panic (matchPath (findChild n seg) rest ms)"
      using "2.IH"(1) [OF False fs [symmetric]] child by blast
    have wild: "seg \<noteq> ''/'' \<Longrightarrow> no_panic (matchPath (rn_emptyChild n) rest (ms @ [seg]))"
      using "2.IH"(2) [OF False fs [symmetric]] empty by blast
    have "no_panic (case findChild n ''*'' of None \<Rightarrow> Ret None
       | Some c \<Rightarrow> (case rn_pattern c of None \<Rightarrow> Panic ''nil pointer dereference''
          | Some p \<Rightarrow> go_bind (lastSegment p) (\<lambda>l.
              Ret (Some (c, if seg_s l \<noteq> [] then ms @ [pathUnescape (tl path)] else ms)))))"
      using star by (auto simp: lastSegment_def split: option.split)
    with False fs lit wild show ?thesis
      by (cases "seg = ''/''") (simp_all add: matchPath.simps(2) no_panic_or)
  qed
qed simp

lemma level_no_panic:
  "tree_holds root ps \<Longrightarrow> no_panic (matchPath (level_node root host method) path [])"
  by (rule matchPath_no_panic) (rule level_node_path_node)

lemma matchMethodAndPath_no_panic:
  assumes t: "tree_holds root ps"
  shows "no_panic (matchMethodAndPath (findChild root host) method path)"
proof (cases "findChild root host")
  case None
  then show ?thesis by (simp add: matchMethodAndPath_def)
next
  case (Some n)
  then have "findChild n m = level_node root host m" for m by (simp add: level_node_def)
  then have "no_panic (matchPath (findChild n m) path [])" for m using level_no_panic [OF t] by simp
  then have "no_panic (matchPath (findChild n m) path [])" "no_panic (matchPath (rn_emptyChild n) path [])" for m
    by (auto simp flip: findChild_Nil)
  with Some show ?thesis
    by (cases "method = ''HEAD''") (simp_all add: matchMethodAndPath_def no_panic_or)
qed

lemma match_tree_no_panic:
  assumes t: "tree_holds root ps"
  shows "\<exists>r. match_tree root host method path = Ret r"
proof -
  have "no_panic (matchMethodAndPath (findChild root host) method path)"
    "no_panic (matchMethodAndPath (rn_emptyChild root) method path)"
    using matchMethodAndPath_no_panic [OF t] by (auto simp flip: findChild_Nil)
  then have "no_panic (match_tree root host method path)"
    by (cases "host = []") (simp_all add: match_tree_def no_panic_or)
  then show ?thesis by (simp add: no_panic_iff)
qed

subsection \<open>The methods that match a path\<close>

lemma each_entry_methods:
  assumes "\<forall>(k, c) \<in> set es. matchPath (Some c) path [] = Ret (res c)"
  shows "each_entry (add_matching_method path) es (Ret ms) =
         Ret (ms \<union> fst ` {(k, c) \<in> set es. res c \<noteq> None})"
  using assms
proof (induction es arbitrary: ms)
  case (Cons e es)
  obtain k c where e: "e = (k, c)" by fastforce
  have "add_matching_method path k c (Ret ms) = (Ret (if res c \<noteq> None then insert k ms else ms), True)"
    using Cons.prems e by (simp add: add_matching_method_def)
  moreover have "fst ` {(k, c) \<in> set (e # es). res c \<noteq> None} =
      (if res c \<noteq> None then {k} else {}) \<union> fst ` {(k, c) \<in> set es. res c \<noteq> None}"
    unfolding e by (auto simp: image_iff) blast
  ultimately show ?case using Cons e by simp
qed simp

lemma mapping_eachPair_pairs: "mapping_eachPair f h st = each_entry f (mapping_pairs h) st"
  by (simp add: mapping_eachPair_def mapping_pairs_def split: option.split)

definition methods_at :: "(pattern \<times> 'h) list \<Rightarrow> string \<Rightarrow> string \<Rightarrow> string set" where
  "methods_at ps host path = {m. m \<noteq> [] \<and> cands_at ps host m path \<noteq> {}}"

lemma best_match_None: "best_match C path None \<longleftrightarrow> C = {}"
  by (simp add: best_match_def)

lemma best_match_Some: "best_match C path (Some m) \<Longrightarrow> C \<noteq> {}"
  by (auto simp: best_match_def split: prod.splits)

lemma matchingMethodsPath_correct:
  assumes t: "tree_holds root ps" and pr: "plain_request path"
  shows "matchingMethodsPath (findChild root host) path (Ret ms) = Ret (ms \<union> methods_at ps host path)"
proof (cases "findChild root host")
  case None
  then have "cands_at ps host m path = {}" for m
    using level_match [OF t pr, of host m] by (simp add: level_node_def best_match_None)
  then have "methods_at ps host path = {}" by (simp add: methods_at_def)
  then show ?thesis using None by (simp add: matchingMethodsPath_def)
next
  case (Some n)
  have ok: "node_ok n" using t node_ok_child(1) [OF _ Some] by (simp add: tree_holds_def)
  have ch: "(k, c) \<in> set (mapping_pairs (rn_children n)) \<longleftrightarrow> k \<noteq> [] \<and> findChild n k = Some c" for k c
    using cm.find_pairs [of "rn_children n" k c] node_ok_local(1) [OF ok]
    by (auto simp: children_ok_def findChild_def)
  let ?res = "\<lambda>c. case matchPath (Some c) path [] of Ret r \<Rightarrow> r | Panic _ \<Rightarrow> None"
  have lv: "level_node root host k = findChild n k" for k using Some by (simp add: level_node_def)
  have m: "matchPath (Some c) path [] = Ret (?res c) \<and> (?res c \<noteq> None \<longleftrightarrow> cands_at ps host k path \<noteq> {})"
    if c: "findChild n k = Some c" for k c
  proof -
    obtain r where r: "matchPath (Some c) path [] = Ret r" "best_match (cands_at ps host k path) path r"
      using c level_match [OF t pr, of host k] lv by auto
    then show ?thesis using best_match_Some by (cases r) (auto simp: best_match_None)
  qed
  have none: "cands_at ps host k path = {}" if "findChild n k = None" for k
    using that level_match [OF t pr, of host k] lv by (simp add: best_match_None)
  have "matchingMethodsPath (findChild root host) path (Ret ms) =
      Ret (ms \<union> fst ` {(k, c) \<in> set (mapping_pairs (rn_children n)). ?res c \<noteq> None})"
    unfolding Some matchingMethodsPath_def option.case mapping_eachPair_pairs
    by (rule each_entry_methods) (use m ch in blast)
  moreover have "fst ` {(k, c) \<in> set (mapping_pairs (rn_children n)). ?res c \<noteq> None} = methods_at ps host path"
  proof (rule set_eqI)
    fix k
    have "k \<in> fst ` {(k, c) \<in> set (mapping_pairs (rn_children n)). ?res c \<noteq> None} \<longleftrightarrow>
        (\<exists>c. k \<noteq> [] \<and> findChild n k = Some c \<and> ?res c \<noteq> None)"
      by (auto simp only: image_iff mem_Collect_eq case_prod_beta ch fst_conv snd_conv split: prod.splits) (force simp: ch)
    also have "\<dots> \<longleftrightarrow> k \<in> methods_at ps host path"
      using m [of k] none [of k] by (cases "findChild n k") (auto simp: methods_at_def)
    finally show "k \<in> fst ` {(k, c) \<in> set (mapping_pairs (rn_children n)). ?res c \<noteq> None} \<longleftrightarrow>
        k \<in> methods_at ps host path" .
  qed
  ultimately show ?thesis by simp
qed

definition allowed_methods :: "(pattern \<times> 'h) list \<Rightarrow> string \<Rightarrow> string \<Rightarrow> string set" where
  "allowed_methods ps host path =
     {m. \<exists>(p, h) \<in> set ps. pat_method p \<noteq> [] \<and> request_matches p host m path}"

lemma methods_at_allowed:
  "(let A = methods_at ps host path \<union> methods_at ps [] path in
    if ''GET'' \<in> A then insert ''HEAD'' A else A) = allowed_methods ps host path"
proof -
  define Q where "Q m = (\<exists>(p, h) \<in> set ps. pat_method p = m \<and> (pat_host p = [] \<or> pat_host p = host) \<and>
      path_matches p path)" for m
  have "methods_at ps host path \<union> methods_at ps [] path = {m. m \<noteq> [] \<and> Q m}"
    by (auto simp: methods_at_def cands_at_def Q_def)
  moreover have "allowed_methods ps host path =
      {m. \<exists>m'. m' \<noteq> [] \<and> Q m' \<and> (m' = m \<or> (m' = ''GET'' \<and> m = ''HEAD''))}"
    unfolding allowed_methods_def request_matches_def method_matches_def Q_def by blast
  ultimately show ?thesis by (auto simp: Let_def)
qed

lemma matchingMethods_tree_correct:
  assumes t: "tree_holds root ps" and pr: "plain_request path"
    and closed: "''GET'' \<in> ms \<longrightarrow> ''HEAD'' \<in> ms"
  shows "matchingMethods_tree root host path ms = Ret (ms \<union> allowed_methods ps host path)"
proof -
  let ?A = "methods_at ps host path \<union> methods_at ps [] path"
  have "matchingMethods_tree root host path ms =
      Ret (if ''GET'' \<in> ms \<union> ?A then insert ''HEAD'' (ms \<union> ?A) else ms \<union> ?A)"
    using matchingMethodsPath_correct [OF t pr, of host] matchingMethodsPath_correct [OF t pr, of "[]"]
    by (cases "host = []") (simp_all add: matchingMethods_tree_def findChild_Nil Un_assoc)
  also have "(if ''GET'' \<in> ms \<union> ?A then insert ''HEAD'' (ms \<union> ?A) else ms \<union> ?A) =
      ms \<union> allowed_methods ps host path"
    using closed unfolding methods_at_allowed [of ps host path, symmetric] Let_def by auto
  finally show ?thesis .
qed

end
