(* ===== verification/Routing_Index.thy ===== *)
theory Routing_Index
  imports Request_Path
begin

section \<open>The conflict index (routing_index.go)\<close>

text \<open>
  \<open>routing_index.go\<close>: an index of the registered patterns by segment position and literal, used
  to find the patterns that may conflict with a new one. The main lemma is the contract stated
  in the comment of \<open>possiblyConflictingPatterns\<close>: every registered pattern that conflicts with
  the argument is handed to the callback. A Go map is an association list; its order stands
  for one of the orders in which Go may iterate.
\<close>

record routingIndexKey =
  rik_pos :: nat
  rik_s :: string

record routingIndex =
  idx_segments :: "(routingIndexKey \<times> pattern list) list"
  idx_multis :: "pattern list"

definition index_empty :: routingIndex where
  "index_empty = \<lparr>idx_segments = [], idx_multis = []\<rparr>"

definition index_get :: "(routingIndexKey \<times> pattern list) list \<Rightarrow> routingIndexKey \<Rightarrow> pattern list" where
  "index_get m k = (case map_of m k of None \<Rightarrow> [] | Some ps \<Rightarrow> ps)"

definition rkey :: "nat \<Rightarrow> segment \<Rightarrow> routingIndexKey" where
  "rkey pos seg = \<lparr>rik_pos = pos, rik_s = (if \<not> seg_wild seg then seg_s seg else [])\<rparr>"

fun index_add_segs :: "pattern \<Rightarrow> nat \<Rightarrow> segment list \<Rightarrow>
    (routingIndexKey \<times> pattern list) list \<Rightarrow> (routingIndexKey \<times> pattern list) list" where
  "index_add_segs pat pos [] m = m"
| "index_add_segs pat pos (seg # segs) m =
     index_add_segs pat (Suc pos) segs
       (AList.update (rkey pos seg) (index_get m (rkey pos seg) @ [pat]) m)"

definition index_addPattern :: "pattern \<Rightarrow> routingIndex \<Rightarrow> routingIndex go" where
  "index_addPattern pat idx =
     go_bind (lastSegment pat) (\<lambda>l.
       if seg_multi l then Ret (idx\<lparr>idx_multis := idx_multis idx @ [pat]\<rparr>)
       else Ret (idx\<lparr>idx_segments := index_add_segs pat 0 (pat_segments pat) (idx_segments idx)\<rparr>))"

text \<open>The callback returns an error or nil and may panic; \<open>apply\<close> stops at the first error.\<close>

fun apply_pats :: "(pattern \<Rightarrow> 'e option go) \<Rightarrow> pattern list \<Rightarrow> 'e option go" where
  "apply_pats f [] = Ret None"
| "apply_pats f (p # ps) =
     go_bind (f p) (\<lambda>err. if err \<noteq> None then Ret err else apply_pats f ps)"

text \<open>
  The loop over \<open>pat.segments\<close> that looks for the literal position with the fewest patterns;
  \<open>None\<close> stands for the initial \<open>math.MaxInt\<close>, above every sum of lengths.
\<close>

fun fewest_loop :: "(routingIndexKey \<times> pattern list) list \<Rightarrow> nat \<Rightarrow> segment list \<Rightarrow>
    pattern list \<times> pattern list \<times> nat option \<times> bool \<Rightarrow>
    pattern list \<times> pattern list \<times> nat option \<times> bool" where
  "fewest_loop m i [] st = st"
| "fewest_loop m i (seg # segs) (lmin, wmin, least, hasLit) =
     (if seg_multi seg then (lmin, wmin, least, hasLit)
      else if \<not> seg_wild seg then
        let lpats = index_get m \<lparr>rik_pos = i, rik_s = seg_s seg\<rparr>;
            wpats = index_get m \<lparr>rik_pos = i, rik_s = []\<rparr>;
            sum = length lpats + length wpats
        in if (case least of None \<Rightarrow> True | Some k \<Rightarrow> sum < k)
           then fewest_loop m (Suc i) segs (lpats, wpats, Some sum, True)
           else fewest_loop m (Suc i) segs (lmin, wmin, least, True)
      else fewest_loop m (Suc i) segs (lmin, wmin, least, hasLit))"

definition possiblyConflictingPatterns ::
  "routingIndex \<Rightarrow> pattern \<Rightarrow> (pattern \<Rightarrow> 'e option go) \<Rightarrow> 'e option go" where
  "possiblyConflictingPatterns idx pat f =
     go_bind (apply_pats f (idx_multis idx)) (\<lambda>err.
       if err \<noteq> None then Ret err
       else go_bind (lastSegment pat) (\<lambda>l.
         if seg_s l = ''/'' then
           apply_pats f (index_get (idx_segments idx)
             \<lparr>rik_pos = length (pat_segments pat) - 1, rik_s = ''/''\<rparr>)
         else
           (case fewest_loop (idx_segments idx) 0 (pat_segments pat) ([], [], None, False) of
              (lmin, wmin, least, hasLit) \<Rightarrow>
                if hasLit then
                  go_bind (apply_pats f lmin) (\<lambda>err.
                    if err \<noteq> None then Ret err else apply_pats f wmin)
                else apply_pats f (concat (map snd (idx_segments idx))))))"

subsection \<open>What the index holds\<close>

definition key_fits :: "routingIndexKey \<Rightarrow> pattern \<Rightarrow> bool" where
  "key_fits k p = (rik_pos k < length (pat_segments p) \<and>
     k = rkey (rik_pos k) (pat_segments p ! rik_pos k))"

definition index_holds :: "routingIndex \<Rightarrow> pattern list \<Rightarrow> bool" where
  "index_holds idx ps =
     (distinct (map fst (idx_segments idx)) \<and>
      set (idx_multis idx) = {p \<in> set ps. ends_multi (pat_segments p)} \<and>
      (\<forall>k. set (index_get (idx_segments idx) k) =
             {p \<in> set ps. \<not> ends_multi (pat_segments p) \<and> key_fits k p}))"

lemma index_get_update:
  "index_get (AList.update k v m) k' = (if k' = k then v else index_get m k')"
  by (simp add: index_get_def update_conv')

lemma index_add_segs_get:
  "set (index_get (index_add_segs pat pos segs m) k) =
     set (index_get m k) \<union>
     (if \<exists>i < length segs. k = rkey (pos + i) (segs ! i) then {pat} else {})"
proof (induction segs arbitrary: pos m)
  case Nil
  then show ?case by simp
next
  case (Cons seg segs)
  have ex: "(\<exists>i < length (seg # segs). k = rkey (pos + i) ((seg # segs) ! i)) \<longleftrightarrow>
      k = rkey pos seg \<or> (\<exists>i < length segs. k = rkey (Suc pos + i) (segs ! i))"
    by (subst Ex_less_Suc2 [of "length segs", folded length_Cons [of seg]]) simp
  show ?case unfolding ex by (auto simp: Cons.IH index_get_update)
qed

lemma index_add_segs_distinct:
  "distinct (map fst m) \<Longrightarrow> distinct (map fst (index_add_segs pat pos segs m))"
  by (induction segs arbitrary: pos m) (simp_all add: distinct_update)

lemma key_fits_ex: "key_fits k p \<longleftrightarrow> (\<exists>i < length (pat_segments p). k = rkey (0 + i) (pat_segments p ! i))"
  by (auto simp: key_fits_def rkey_def)

lemma index_addPattern_holds:
  assumes "index_holds idx ps" and "pat_segments pat \<noteq> []"
  shows "\<exists>idx'. index_addPattern pat idx = Ret idx' \<and> index_holds idx' (ps @ [pat])"
proof (cases "ends_multi (pat_segments pat)")
  case True
  with assms show ?thesis
    by (auto simp: index_addPattern_def lastSegment_def ends_multi_def index_holds_def)
next
  case False
  with assms show ?thesis
    by (auto simp: index_addPattern_def lastSegment_def ends_multi_def index_holds_def
        index_add_segs_get index_add_segs_distinct key_fits_ex)
qed

subsection \<open>Every conflicting pattern is visited\<close>

lemma compare_segs_nth:
  assumes "compare_segs ss1 ss2 \<noteq> disjoint" "multi_last ss1" "multi_last ss2" "\<not> ends_multi ss2"
    and "i < length ss1" "\<not> seg_multi (ss1 ! i)"
  shows "i < length ss2 \<and> compareSegments (ss1 ! i) (ss2 ! i) \<noteq> disjoint \<and> \<not> seg_multi (ss2 ! i)"
  using assms
proof (induction ss1 ss2 arbitrary: i rule: compare_segs.induct)
  case (2 s1 ss1 s2 ss2)
  have nm: "\<not> seg_multi s1" "\<not> seg_multi s2"
    using 2 by (auto simp: ends_multi_def less_Suc_eq_0_disj)
  with 2 have "compareSegments s1 s2 \<noteq> disjoint" "compare_segs ss1 ss2 \<noteq> disjoint"
    "multi_last ss1" "multi_last ss2" by auto
  moreover have "\<not> ends_multi ss2" using 2 by (auto simp: ends_multi_def)
  ultimately show ?case using 2 nm by (cases i) auto
qed simp_all

lemma apply_pats_append:
  "apply_pats f (ps @ qs) = go_bind (apply_pats f ps) (\<lambda>err. if err \<noteq> None then Ret err else apply_pats f qs)"
proof (induction ps)
  case (Cons p ps)
  then show ?case by (cases "f p") (auto split: option.split)
qed simp

lemma fewest_loop_result:
  assumes "fewest_loop m i segs (l, w, least, h) = (l', w', least', h')" and "h'"
    and "least = None \<longleftrightarrow> \<not> h"
  shows "(h \<and> l' = l \<and> w' = w) \<or>
    (\<exists>j < length segs. \<not> seg_wild (segs ! j) \<and> \<not> seg_multi (segs ! j) \<and>
       l' = index_get m \<lparr>rik_pos = i + j, rik_s = seg_s (segs ! j)\<rparr> \<and>
       w' = index_get m \<lparr>rik_pos = i + j, rik_s = []\<rparr>)"
  using assms
proof (induction m i segs "(l, w, least, h)" arbitrary: l w least h rule: fewest_loop.induct)
  case (2 m i seg segs l w least h)
  let ?l = "index_get m \<lparr>rik_pos = i, rik_s = seg_s seg\<rparr>"
  let ?w = "index_get m \<lparr>rik_pos = i, rik_s = []\<rparr>"
  let ?hit = "\<lambda>i segs. \<exists>j < length segs. \<not> seg_wild (segs ! j) \<and> \<not> seg_multi (segs ! j) \<and>
     l' = index_get m \<lparr>rik_pos = i + j, rik_s = seg_s (segs ! j)\<rparr> \<and>
     w' = index_get m \<lparr>rik_pos = i + j, rik_s = []\<rparr>"
  have later: "?hit i (seg # segs)" if "?hit (Suc i) segs"
    using that by (metis Suc_less_eq add_Suc_shift length_Cons nth_Cons_Suc)
  have here: "?hit i (seg # segs)" if "\<not> seg_wild seg" "\<not> seg_multi seg" "l' = ?l" "w' = ?w"
    using that by (intro exI [of _ 0]) simp
  consider "seg_multi seg" | "\<not> seg_multi seg" "seg_wild seg"
    | "\<not> seg_multi seg" "\<not> seg_wild seg" "case least of None \<Rightarrow> True | Some k \<Rightarrow> length ?l + length ?w < k"
    | "\<not> seg_multi seg" "\<not> seg_wild seg" "\<not> (case least of None \<Rightarrow> True | Some k \<Rightarrow> length ?l + length ?w < k)"
    by blast
  then show ?case
  proof cases
    case 1
    with "2.prems" show ?thesis by simp
  next
    case 2
    then have "(h \<and> l' = l \<and> w' = w) \<or> ?hit (Suc i) segs"
      using "2.prems" "2.hyps"(3) by simp
    with later show ?thesis by blast
  next
    case 3
    then have "(True \<and> l' = ?l \<and> w' = ?w) \<or> ?hit (Suc i) segs"
      using "2.prems" "2.hyps"(1) [of ?l ?w] by (simp add: Let_def)
    with here later 3 show ?thesis by blast
  next
    case 4
    then have "(True \<and> l' = l \<and> w' = w) \<or> ?hit (Suc i) segs"
      using "2.prems" "2.hyps"(2) [of ?l ?w] by (cases least) (simp_all add: Let_def)
    moreover have h using 4 "2.prems"(3) by (cases least) auto
    ultimately show ?thesis using later by blast
  qed
qed simp

lemma conflict_compare_segs:
  assumes "wf_pattern p" "wf_pattern q" "conflictsWith p q = Ret True"
  shows "compare_segs (pat_segments p) (pat_segments q) \<noteq> disjoint"
  using assms
  by (auto simp: conflictsWith_def comparePathsAndMethods_def comparePaths_compare_segs Let_def
      split: if_splits)

text \<open>The entries at a literal position of one pattern hold every pattern that may overlap it.\<close>

lemma index_get_literal:
  assumes h: "index_holds idx ps" and q: "q \<in> set ps" "\<not> ends_multi (pat_segments q)"
    and c: "compare_segs segs (pat_segments q) \<noteq> disjoint"
    and ml: "multi_last segs" "multi_last (pat_segments q)"
    and i: "i < length segs" "\<not> seg_wild (segs ! i)" "\<not> seg_multi (segs ! i)"
  shows "q \<in> set (index_get (idx_segments idx) \<lparr>rik_pos = i, rik_s = seg_s (segs ! i)\<rparr>) \<or>
    (q \<in> set (index_get (idx_segments idx) \<lparr>rik_pos = i, rik_s = []\<rparr>) \<and> seg_s (segs ! i) \<noteq> ''/'')"
proof -
  have "i < length (pat_segments q) \<and> compareSegments (segs ! i) (pat_segments q ! i) \<noteq> disjoint \<and>
      \<not> seg_multi (pat_segments q ! i)"
    using compare_segs_nth [OF c ml q(2) i(1,3)] .
  then show ?thesis
    using h q i by (auto simp: index_holds_def key_fits_def rkey_def compareSegments_def split: if_splits)
qed

lemma index_get_concat: "set (index_get m k) \<subseteq> set (concat (map snd m))"
proof (cases "map_of m k")
  case (Some qs)
  then have "(k, qs) \<in> set m" by (rule map_of_SomeD)
  with Some show ?thesis by (force simp: index_get_def)
qed (simp add: index_get_def)

lemma index_entries_registered:
  assumes "index_holds idx ps"
  shows "set (concat (map snd (idx_segments idx))) \<subseteq> set ps"
proof
  fix q
  assume "q \<in> set (concat (map snd (idx_segments idx)))"
  then obtain k qs where "(k, qs) \<in> set (idx_segments idx)" "q \<in> set qs" by auto
  then have "q \<in> set (index_get (idx_segments idx) k)"
    using assms by (auto simp: index_holds_def index_get_def)
  then show "q \<in> set ps" using assms by (auto simp: index_holds_def)
qed

text \<open>The patterns the callback is applied to, in order.\<close>

definition candidates :: "routingIndex \<Rightarrow> pattern \<Rightarrow> pattern list" where
  "candidates idx pat =
     idx_multis idx @
     (if seg_s (last (pat_segments pat)) = ''/'' then
        index_get (idx_segments idx) \<lparr>rik_pos = length (pat_segments pat) - 1, rik_s = ''/''\<rparr>
      else
        (case fewest_loop (idx_segments idx) 0 (pat_segments pat) ([], [], None, False) of
           (lmin, wmin, least, hasLit) \<Rightarrow>
             if hasLit then lmin @ wmin else concat (map snd (idx_segments idx))))"

lemma possiblyConflictingPatterns_candidates:
  "pat_segments pat \<noteq> [] \<Longrightarrow>
     possiblyConflictingPatterns idx pat f = apply_pats f (candidates idx pat)"
  by (auto simp: possiblyConflictingPatterns_def candidates_def apply_pats_append lastSegment_def
      split: prod.splits intro!: arg_cong [where f = "go_bind _"])

lemma candidates_registered:
  assumes "index_holds idx ps" and "pat_segments pat \<noteq> []"
  shows "set (candidates idx pat) \<subseteq> set ps"
proof -
  have get: "set (index_get (idx_segments idx) k) \<subseteq> set ps" for k
    using assms(1) by (auto simp: index_holds_def)
  obtain l w least h where fl: "fewest_loop (idx_segments idx) 0 (pat_segments pat) ([], [], None, False) = (l, w, least, h)"
    by (metis prod_cases4)
  have "h \<Longrightarrow> set l \<subseteq> set ps \<and> set w \<subseteq> set ps"
    using fewest_loop_result [OF fl] get by auto
  moreover have "set (idx_multis idx) \<subseteq> set ps" using assms(1) by (auto simp: index_holds_def)
  ultimately show ?thesis
    using get index_entries_registered [OF assms(1)] unfolding candidates_def fl by auto
qed

definition no_slash_names :: "segment list \<Rightarrow> bool" where
  "no_slash_names ss = (\<forall>s \<in> set ss. seg_wild s \<longrightarrow> seg_s s \<noteq> ''/'')"

lemma multi_is_wild: "multi_last ss \<Longrightarrow> s \<in> set ss \<Longrightarrow> seg_multi s \<Longrightarrow> seg_wild s"
  by (induction ss) auto

lemma candidates_complete:
  assumes h: "index_holds idx ps" and q: "q \<in> set ps"
    and c: "compare_segs (pat_segments pat) (pat_segments q) \<noteq> disjoint"
    and ml: "multi_last (pat_segments pat)" "multi_last (pat_segments q)"
    and ne: "pat_segments pat \<noteq> []" "pat_segments q \<noteq> []" and ns: "no_slash_names (pat_segments pat)"
  shows "q \<in> set (candidates idx pat)"
proof (cases "ends_multi (pat_segments q)")
  case True
  with h q show ?thesis by (simp add: candidates_def index_holds_def)
next
  case False
  note lit = index_get_literal [OF h q False c ml]
  show ?thesis
  proof (cases "seg_s (last (pat_segments pat)) = ''/''")
    case True
    let ?n = "length (pat_segments pat) - 1"
    have l: "last (pat_segments pat) = pat_segments pat ! ?n" by (rule last_conv_nth [OF ne(1)])
    have "last (pat_segments pat) \<in> set (pat_segments pat)" using ne(1) by simp
    then have nw: "\<not> seg_wild (pat_segments pat ! ?n)" "\<not> seg_multi (pat_segments pat ! ?n)"
      using True ns multi_is_wild [OF ml(1)] l by (auto simp: no_slash_names_def)
    have "?n < length (pat_segments pat)" using ne(1) by simp
    from lit [OF this nw] show ?thesis using True l by (auto simp: candidates_def)
  next
    case nslash: False
    obtain l w least hl where fl: "fewest_loop (idx_segments idx) 0 (pat_segments pat) ([], [], None, False) = (l, w, least, hl)"
      by (metis prod_cases4)
    show ?thesis
    proof (cases hl)
      case True
      with fewest_loop_result [OF fl] lit nslash fl show ?thesis by (auto simp: candidates_def)
    next
      case no: False
      have "key_fits (rkey 0 (pat_segments q ! 0)) q" using ne(2) by (simp add: key_fits_def rkey_def)
      then have "q \<in> set (index_get (idx_segments idx) (rkey 0 (pat_segments q ! 0)))"
        using h q False by (simp add: index_holds_def)
      with index_get_concat no nslash fl show ?thesis by (auto simp: candidates_def)
    qed
  qed
qed

text \<open>\<open>possiblyConflictingPatterns\<close> applies its callback to registered patterns only and to
  every registered pattern that conflicts with the argument, stopping at the first error.\<close>

theorem possiblyConflictingPatterns_correct:
  assumes "index_holds idx ps" and "wf_pattern pat" and "no_slash_names (pat_segments pat)"
    and "\<forall>q \<in> set ps. wf_pattern q"
  shows "\<exists>visited. possiblyConflictingPatterns idx pat f = apply_pats f visited \<and>
    {q \<in> set ps. conflictsWith pat q = Ret True} \<subseteq> set visited \<and> set visited \<subseteq> set ps"
  using assms possiblyConflictingPatterns_candidates [of pat idx f] candidates_registered [of idx ps pat]
    candidates_complete [of idx ps _ pat] conflict_compare_segs [of pat]
  by (intro exI [of _ "candidates idx pat"]) (auto simp: wf_pattern_def wf_segs_def)

lemma index_holds_empty: "index_holds index_empty []"
  by (simp add: index_holds_def index_empty_def index_get_def)

theorem possiblyConflictingPatterns_correct_witness:
  "\<exists>idx. possiblyConflictingPatterns idx (example_pattern [] [] [wild_seg ''x'' False]) (\<lambda>q. Ret (Some q)) =
     Ret (Some (example_pattern [] [] [wild_seg ''y'' False]))"
proof -
  let ?p = "example_pattern [] [] [wild_seg ''x'' False]" and ?q = "example_pattern [] [] [wild_seg ''y'' False]"
  obtain idx where i: "index_holds idx [?q]"
    using index_addPattern_holds [OF index_holds_empty, of ?q] by auto
  have wf: "wf_pattern ?p" "no_slash_names (pat_segments ?p)" "\<forall>q \<in> set [?q]. wf_pattern q"
    by (simp_all add: example_simps no_slash_names_def)
  have c: "conflictsWith ?p ?q = Ret True"
    by (simp add: conflictsWith_def comparePathsAndMethods_def compareMethods_def comparePaths_def
        lastSegment_def compareSegments_def relationship_defs wild_seg_def)
  obtain visited where v: "possiblyConflictingPatterns idx ?p (\<lambda>q. Ret (Some q)) =
      apply_pats (\<lambda>q. Ret (Some q)) visited" "set visited = {?q}"
    using possiblyConflictingPatterns_correct [OF i wf, of "\<lambda>q. Ret (Some q)"] c by auto
  then show ?thesis by (cases visited) auto
qed

end
