(* ===== verification/Serve_Mux.thy ===== *)
theory Serve_Mux
  imports Serve_Mux_121 Routing_Methods Routing_Index
begin

section \<open>The request multiplexer (server.go)\<close>

text \<open>
  \<open>ServeMux\<close> of \<open>server.go\<close>: the routing tree, the conflict index and the list of patterns,
  registration (\<open>registerErr\<close>, \<open>register\<close>, \<open>Handle\<close>, \<open>HandleFunc\<close>) and dispatch
  (\<open>findHandler\<close>, \<open>matchOrRedirect\<close>, \<open>exactMatch\<close>, \<open>matchingMethods\<close>, \<open>ServeHTTP\<close>). Every
  operation runs under the lock of the multiplexer, so operations are steps on its state.
  \<open>use121\<close> is the setting read at start-up; the caller's location is an argument.
\<close>

record 'h serveMux =
  mux_tree :: "'h handler routingNode"
  mux_index :: routingIndex
  mux_patterns :: "pattern list"
  mux_121 :: "'h serveMux121"

definition NewServeMux :: "'h serveMux" where
  "NewServeMux = \<lparr>mux_tree = newNode, mux_index = index_empty, mux_patterns = [], mux_121 = mux121_empty\<rparr>"

subsection \<open>Registration\<close>

datatype register_error =
    InvalidPattern
  | NilHandlerError
  | ParsingError string "nat option \<times> pattern_error"
  | ConflictError pattern pattern conflict_description

definition conflict_check :: "pattern \<Rightarrow> pattern \<Rightarrow> register_error option go" where
  "conflict_check pat pat2 =
     go_bind (conflictsWith pat pat2) (\<lambda>c.
       if c then go_bind (describeConflict pat pat2) (\<lambda>d. Ret (Some (ConflictError pat pat2 d)))
       else Ret None)"

text \<open>\<open>loc\<close> is what \<open>runtime.Caller\<close> reports, \<open>None\<close> when it reports nothing. The result is the
  error or nil, and the state after the call.\<close>

definition registerErr :: "golib \<Rightarrow> string option \<Rightarrow> string \<Rightarrow> 'h handler \<Rightarrow> 'h serveMux \<Rightarrow>
    (register_error option \<times> 'h serveMux) go" where
  "registerErr L loc patstr handler mux =
     (if patstr = [] then Ret (Some InvalidPattern, mux)
      else if handler = NilHandler \<or> handler = NilHandlerFunc then Ret (Some NilHandlerError, mux)
      else case parsePattern L patstr of
        Inl err \<Rightarrow> Ret (Some (ParsingError patstr err), mux)
      | Inr pat0 \<Rightarrow>
          let pat = pat0\<lparr>pat_loc := (case loc of None \<Rightarrow> ''unknown location'' | Some l \<Rightarrow> l)\<rparr> in
          go_bind (possiblyConflictingPatterns (mux_index mux) pat (conflict_check pat)) (\<lambda>err.
            if err \<noteq> None then Ret (err, mux)
            else
              go_bind (addPattern pat handler (mux_tree mux)) (\<lambda>tree.
                go_bind (index_addPattern pat (mux_index mux)) (\<lambda>index.
                  Ret (None, mux\<lparr>mux_tree := tree, mux_index := index,
                                 mux_patterns := mux_patterns mux @ [pat]\<rparr>)))))"

definition register :: "golib \<Rightarrow> string option \<Rightarrow> string \<Rightarrow> 'h handler \<Rightarrow> 'h serveMux \<Rightarrow> 'h serveMux go" where
  "register L loc patstr handler mux =
     go_bind (registerErr L loc patstr handler mux) (\<lambda>(err, mux').
       if err \<noteq> None then Panic ''register error'' else Ret mux')"

definition Handle :: "bool \<Rightarrow> golib \<Rightarrow> string option \<Rightarrow> string \<Rightarrow> 'h handler \<Rightarrow> 'h serveMux \<Rightarrow> 'h serveMux go" where
  "Handle use121 L loc pat handler mux =
     (if use121 then go_bind (handle121 pat handler (mux_121 mux)) (\<lambda>m. Ret (mux\<lparr>mux_121 := m\<rparr>))
      else register L loc pat handler mux)"

definition HandleFunc :: "bool \<Rightarrow> golib \<Rightarrow> string option \<Rightarrow> string \<Rightarrow> 'h option \<Rightarrow> 'h serveMux \<Rightarrow> 'h serveMux go" where
  "HandleFunc use121 L loc pat handler mux =
     (if use121 then go_bind (handleFunc121 pat handler (mux_121 mux)) (\<lambda>m. Ret (mux\<lparr>mux_121 := m\<rparr>))
      else register L loc pat
             (case handler of None \<Rightarrow> NilHandlerFunc | Some h \<Rightarrow> HandlerImpl h) mux)"

subsection \<open>Dispatch\<close>

definition exactMatch :: "'h routingNode option \<Rightarrow> string \<Rightarrow> bool go" where
  "exactMatch n path =
     (case n of None \<Rightarrow> Ret False
      | Some n \<Rightarrow>
          (case rn_pattern n of None \<Rightarrow> Panic ''nil pointer dereference''
           | Some p \<Rightarrow>
               go_bind (lastSegment p) (\<lambda>l.
                 if \<not> seg_multi l then Ret True
                 else if path \<noteq> [] \<and> last path \<noteq> CHR ''/'' then Ret False
                 else Ret (length (pat_segments p) = length (filter (\<lambda>c. c = CHR ''/'') path)))))"

text \<open>The node and matches (\<open>None\<close> for a nil node), and the URL to redirect to.\<close>

definition matchOrRedirect :: "'h serveMux \<Rightarrow> string \<Rightarrow> string \<Rightarrow> string \<Rightarrow> url option \<Rightarrow>
    (('h handler routingNode \<times> string list) option \<times> url option) go" where
  "matchOrRedirect mux host method path u =
     go_bind (match_tree (mux_tree mux) host method path) (\<lambda>r.
       go_bind (exactMatch (map_option fst r) path) (\<lambda>exact.
         case (if exact then None else u) of
           None \<Rightarrow> Ret (r, None)
         | Some u \<Rightarrow>
             go_bind (match_tree (mux_tree mux) host method (path @ ''/'')) (\<lambda>r2.
               go_bind (exactMatch (map_option fst r2) (path @ ''/'')) (\<lambda>exact2.
                 if exact2 then Ret (None, Some (redirect_url (cleanPath (url_Path u) @ ''/'') (url_RawQuery u)))
                 else Ret (r, None)))))"

definition matchingMethods :: "'h serveMux \<Rightarrow> string \<Rightarrow> string \<Rightarrow> string list go" where
  "matchingMethods mux host path =
     go_bind (matchingMethods_tree (mux_tree mux) host path {}) (\<lambda>ms.
       go_bind (matchingMethods_tree (mux_tree mux) host (path @ ''/'') ms) (\<lambda>ms.
         Ret (sorted_list_of_set ms)))"

text \<open>The handler, the pattern string, the pattern and the matches \<open>findHandler\<close> returns.\<close>

type_synonym 'h find_result = "'h dispatch \<times> string \<times> pattern option \<times> string list"

definition found_or_error :: "'h serveMux \<Rightarrow> string \<Rightarrow> string \<Rightarrow>
    ('h handler routingNode \<times> string list) option \<Rightarrow> 'h find_result go" where
  "found_or_error mux host path r =
     (case r of
        None \<Rightarrow>
          go_bind (matchingMethods mux host path) (\<lambda>allowed.
            if allowed \<noteq> [] then Ret (MethodNotAllowedHandler allowed, [], None, [])
            else Ret (NotFoundHandler, [], None, []))
      | Some (n, ms) \<Rightarrow>
          (case (rn_pattern n, rn_handler n) of
             (Some p, Some h) \<Rightarrow> Ret (UserHandler h, pat_str p, Some p, ms)
           | _ \<Rightarrow> Panic ''nil pointer dereference''))"

definition findHandler :: "'h serveMux \<Rightarrow> request \<Rightarrow> 'h find_result go" where
  "findHandler mux r =
     (let escapedPath = EscapedPath (req_URL r) in
      if req_Method r = ''CONNECT'' then
        go_bind (matchOrRedirect mux (url_Host (req_URL r)) (req_Method r) escapedPath (Some (req_URL r)))
          (\<lambda>(_, u).
            case u of
              Some u \<Rightarrow> Ret (RedirectHandler u StatusMovedPermanently, url_Path u, None, [])
            | None \<Rightarrow>
                go_bind (matchOrRedirect mux (req_Host r) (req_Method r) escapedPath None)
                  (\<lambda>(n, _). found_or_error mux (url_Host (req_URL r)) escapedPath n))
      else
        let host = stripHostPort (req_Host r); path = cleanPath escapedPath in
        go_bind (matchOrRedirect mux host (req_Method r) path (Some (req_URL r))) (\<lambda>(n, u).
          case u of
            Some u \<Rightarrow> Ret (RedirectHandler u StatusMovedPermanently, url_Path u, None, [])
          | None \<Rightarrow>
              if path \<noteq> escapedPath then
                go_bind (case n of None \<Rightarrow> Ret []
                         | Some (n, _) \<Rightarrow>
                             (case rn_pattern n of None \<Rightarrow> Panic ''nil pointer dereference''
                              | Some p \<Rightarrow> Ret (pat_str p)))
                  (\<lambda>patStr. Ret (RedirectHandler (redirect_url path (url_RawQuery (req_URL r)))
                                   StatusMovedPermanently, patStr, None, []))
              else found_or_error mux host path n))"

definition Handler :: "bool \<Rightarrow> 'h serveMux \<Rightarrow> request \<Rightarrow> ('h dispatch \<times> string) go" where
  "Handler use121 mux r =
     (if use121 then Ret (findHandler121 (mux_121 mux) r)
      else go_bind (findHandler mux r) (\<lambda>(h, p, _, _). Ret (h, p)))"

text \<open>
  What \<open>ServeHTTP\<close> does: it rejects the request target \<open>*\<close> itself (the flag says whether the
  header \<open>Connection: close\<close> is set), or runs a handler on the request with its pattern and
  matches set.
\<close>

datatype 'h serve_action = BadRequest bool | Run "'h dispatch" request

definition ProtoAtLeast :: "request \<Rightarrow> int \<Rightarrow> int \<Rightarrow> bool" where
  "ProtoAtLeast r major minor =
     (req_ProtoMajor r > major \<or> (req_ProtoMajor r = major \<and> req_ProtoMinor r \<ge> minor))"

definition ServeHTTP :: "bool \<Rightarrow> 'h serveMux \<Rightarrow> request \<Rightarrow> 'h serve_action go" where
  "ServeHTTP use121 mux r =
     (if req_RequestURI r = ''*'' then Ret (BadRequest (ProtoAtLeast r 1 1))
      else if use121 then Ret (Run (fst (findHandler121 (mux_121 mux) r)) r)
      else go_bind (findHandler mux r) (\<lambda>(h, _, p, ms).
             Ret (Run h (r\<lparr>req_pat := p, req_matches := ms\<rparr>))))"

end
