(* ===== verification/Mux_Register.thy ===== *)
theory Mux_Register
  imports Serve_Mux
begin

section \<open>Registering patterns with the multiplexer\<close>

text \<open>
  \<open>mux_ok\<close> relates a multiplexer to the list of patterns and handlers registered with it: the
  tree and the index hold exactly those, and no two of them conflict. Registration keeps it,
  never panics, and fails exactly when the new pattern conflicts with a registered one. The
  theory is about patterns whose literals are neither empty nor \<open>*\<close>; the literals that are
  left out share a key of the tree with the wildcards.
\<close>

subsection \<open>Conflicts between patterns\<close>

lemma conflictsWith_wf:
  assumes "wf_pattern p" and "wf_pattern q"
  shows "conflictsWith p q =
    Ret (pat_host p = pat_host q \<and> rel_of (request_set p) (request_set q) \<in> {equivalent, overlaps})"
  by (auto simp: conflictsWith_def comparePathsAndMethods_rel_of [OF assms])

lemma conflictsWith_sym:
  assumes "wf_pattern p" and "wf_pattern q"
  shows "conflictsWith q p = conflictsWith p q"
proof -
  have "rel_of (request_set q) (request_set p) \<in> {equivalent, overlaps} \<longleftrightarrow>
      rel_of (request_set p) (request_set q) \<in> {equivalent, overlaps}"
    unfolding rel_of_inverse [of "request_set q"]
    by (cases "rel_of (request_set p) (request_set q)") (simp_all add: inverseRelationship_def)
  then show ?thesis using assms by (auto simp: conflictsWith_wf)
qed

lemma differencePath_loop_no_panic:
  "compare_segs ss1 ss2 \<noteq> disjoint \<Longrightarrow> multi_last ss1 \<Longrightarrow> multi_last ss2 \<Longrightarrow>
     no_panic (differencePath_loop b ss1 ss2)"
proof (induction ss1 ss2 arbitrary: b rule: compare_segs.induct)
  case (2 s1 ss1 s2 ss2)
  show ?case
  proof (cases "seg_multi s1 \<or> seg_multi s2")
    case True
    with "2.prems" have "seg_multi s1 \<or> ss2 = []" by auto
    moreover have "no_panic (differencePath_loop b' ss1 [])" for b' by (cases ss1) simp_all
    ultimately show ?thesis using True by auto
  next
    case False
    with "2.prems" have c: "compareSegments s1 s2 \<noteq> disjoint" "compare_segs ss1 ss2 \<noteq> disjoint"
      "multi_last ss1" "multi_last ss2" by auto
    have "no_panic (differencePath_loop b' ss1 ss2)" for b'
      by (rule "2.IH" [OF False c(2-4)])
    with False c(1) show ?thesis by (simp add: compareSegments_def split: if_splits)
  qed
qed simp_all

lemma compare_segs_sym:
  assumes "wf_segs ss1" and "wf_segs ss2"
  shows "compare_segs ss2 ss1 = inverseRelationship (compare_segs ss1 ss2)"
  using assms rel_of_inverse [of "path_set ss2" "path_set ss1"]
  by (simp add: compare_segs_rel_of wf_segs_def)

lemma describeConflict_no_panic:
  assumes wf: "wf_pattern p" "wf_pattern q" and c: "conflictsWith p q = Ret True"
  shows "no_panic (describeConflict p q)"
proof -
  let ?m = "compareMethods p q" and ?c = "compare_segs (pat_segments p) (pat_segments q)"
  have rel: "combineRelationships ?m ?c = equivalent \<or> combineRelationships ?m ?c = overlaps"
    using c by (auto simp: conflictsWith_def comparePathsAndMethods_def comparePaths_compare_segs [OF wf]
        Let_def split: if_splits)
  have diff: "no_panic (differencePath p q)" "no_panic (differencePath q p)" if "?c \<noteq> disjoint"
    using that wf compare_segs_sym [of "pat_segments p" "pat_segments q"]
      differencePath_loop_no_panic [of "pat_segments p" "pat_segments q"]
      differencePath_loop_no_panic [of "pat_segments q" "pat_segments p"]
    by (auto simp: differencePath_def wf_pattern_def wf_segs_def inverseRelationship_def
        split: relationship.splits)
  show ?thesis
    using rel diff by (auto simp: describeConflict_def comparePaths_compare_segs [OF wf] Let_def no_panic_iff)
qed

lemma conflict_check_Ret:
  assumes "wf_pattern p" and "wf_pattern q"
  shows "\<exists>r. conflict_check p q = Ret r \<and> (r = None \<longleftrightarrow> conflictsWith p q = Ret False) \<and>
    (r \<noteq> None \<longrightarrow> conflictsWith p q = Ret True \<and> (\<exists>d. r = Some (ConflictError p q d)))"
  using conflictsWith_wf [OF assms] describeConflict_no_panic [OF assms]
  by (auto simp: conflict_check_def no_panic_iff)

text \<open>Patterns with the same keys match the same requests.\<close>

lemma same_keys_equivalent:
  "map seg_key ss1 = map seg_key ss2 \<Longrightarrow> multi_last ss1 \<Longrightarrow> multi_last ss2 \<Longrightarrow>
     routable_segs ss1 \<Longrightarrow> routable_segs ss2 \<Longrightarrow> compare_segs ss1 ss2 = equivalent"
proof (induction ss1 ss2 rule: compare_segs.induct)
  case (2 s1 ss1 s2 ss2)
  have "compareSegments s1 s2 = equivalent" "seg_multi s1 \<longleftrightarrow> seg_multi s2"
    using "2.prems" by (auto simp: seg_key_def routable_segs_def compareSegments_def split: if_splits)
  moreover have "\<not> (seg_multi s1 \<or> seg_multi s2) \<Longrightarrow> compare_segs ss1 ss2 = equivalent"
    using 2 by (simp add: routable_segs_def)
  ultimately show ?case by simp
qed simp_all

lemma same_keys_conflict:
  assumes "routable_pattern p" and "routable_pattern q" and "pattern_keys p = pattern_keys q"
  shows "conflictsWith p q = Ret True"
proof -
  have "compare_segs (pat_segments p) (pat_segments q) = equivalent"
    using assms by (intro same_keys_equivalent) (auto simp: routable_pattern_def pattern_keys_def)
  moreover have "pat_host p = pat_host q" "pat_method p = pat_method q"
    using assms(3) by (auto simp: pattern_keys_def)
  ultimately show ?thesis
    using assms(1,2) [THEN routable_wf]
    by (simp add: conflictsWith_def comparePathsAndMethods_def comparePaths_compare_segs compareMethods_def)
qed

subsection \<open>The invariant of the multiplexer\<close>

definition mux_ok :: "'h serveMux \<Rightarrow> (pattern \<times> 'h handler) list \<Rightarrow> bool" where
  "mux_ok mux ps =
     (tree_holds (mux_tree mux) ps \<and> index_holds (mux_index mux) (map fst ps) \<and>
      mux_patterns mux = map fst ps \<and> conflict_free ps \<and>
      (\<forall>(p, h) \<in> set ps. named_singles (pat_segments p)))"

lemma mux_ok_new: "mux_ok NewServeMux []"
  by (simp add: mux_ok_def NewServeMux_def tree_holds_empty index_holds_empty conflict_free_def)

lemma mux_ok_wf: "mux_ok mux ps \<Longrightarrow> p \<in> set (map fst ps) \<Longrightarrow> routable_pattern p \<and> wf_pattern p"
  by (auto simp: mux_ok_def tree_holds_def routable_wf)

lemma apply_conflict_check:
  assumes "wf_pattern p" and "\<forall>q \<in> set qs. wf_pattern q"
  shows "\<exists>r. apply_pats (conflict_check p) qs = Ret r \<and>
    (r = None \<longleftrightarrow> (\<forall>q \<in> set qs. conflictsWith p q = Ret False)) \<and>
    (r \<noteq> None \<longrightarrow> (\<exists>q d. q \<in> set qs \<and> conflictsWith p q = Ret True \<and> r = Some (ConflictError p q d)))"
  using assms(2)
proof (induction qs)
  case (Cons q qs)
  then have "wf_pattern q" by simp
  from conflict_check_Ret [OF assms(1) this] Cons show ?case by fastforce
qed simp

lemma conflict_free_snoc:
  assumes cf: "conflict_free ps" and wf: "wf_pattern p" "\<forall>q \<in> set (map fst ps). wf_pattern q"
    and new: "\<forall>q \<in> set (map fst ps). conflictsWith p q = Ret False"
  shows "conflict_free (ps @ [(p, h)])"
proof -
  have "conflictsWith q p = Ret False" if "q \<in> set (map fst ps)" for q
    using that new wf conflictsWith_sym [of p q] by metis
  then have "conflictsWith q p = Ret False \<and> conflictsWith p q = Ret False" if "(q, g) \<in> set ps" for q g
    using that new by force
  moreover have "conflictsWith x y = Ret False" if "(x, a) \<in> set ps" "(y, b) \<in> set ps" "x \<noteq> y" for x y a b
    using cf that by (auto simp: conflict_free_def)
  ultimately show ?thesis unfolding conflict_free_def by auto
qed

lemma parsed_no_slash_names:
  assumes "parsePattern L s = Inr p"
  shows "no_slash_names (pat_segments p)"
  unfolding no_slash_names_def
proof (intro ballI impI notI)
  fix seg
  assume "seg \<in> set (pat_segments p)" "seg_wild seg" "seg_s seg = ''/''"
  then have "''/'' \<in> set (wild_names (pat_segments p))" by (force simp: wild_names_def)
  then have "isValidWildcardName L ''/''" using parsePattern_segments [OF assms] by blast
  then show False by (simp add: isValidWildcardName_def decode_rune_def go_isLetter_def)
qed

definition located :: "string option \<Rightarrow> pattern \<Rightarrow> pattern" where
  "located loc p = p\<lparr>pat_loc := (case loc of None \<Rightarrow> ''unknown location'' | Some l \<Rightarrow> l)\<rparr>"

lemma located_simps [simp]:
  "pat_segments (located loc p) = pat_segments p" "pat_host (located loc p) = pat_host p"
  "pat_method (located loc p) = pat_method p" "pat_str (located loc p) = pat_str p"
  by (simp_all add: located_def)

lemma located_routable [simp]: "routable_pattern (located loc p) = routable_pattern p"
  by (simp add: routable_pattern_def)

lemma registerErr_parsed:
  fixes loc :: "string option"
  assumes ok: "mux_ok mux ps" and parse: "parsePattern L s = Inr p0" and r: "routable_pattern p0"
    and h: "handler \<noteq> NilHandler" "handler \<noteq> NilHandlerFunc"
  defines "p \<equiv> located loc p0"
  shows "if \<exists>q \<in> set (mux_patterns mux). conflictsWith p q = Ret True
    then \<exists>q d. registerErr L loc s handler mux = Ret (Some (ConflictError p q d), mux) \<and>
           q \<in> set (mux_patterns mux) \<and> conflictsWith p q = Ret True
    else \<exists>mux'. registerErr L loc s handler mux = Ret (None, mux') \<and> mux_ok mux' (ps @ [(p, handler)]) \<and>
           mux_121 mux' = mux_121 mux"
proof -
  have ne: "s \<noteq> []" using parse by (auto simp: parsePattern_def)
  have rp: "routable_pattern p" and wf: "wf_pattern p" using r by (simp_all add: p_def routable_wf)
  have tr: "tree_holds (mux_tree mux) ps" and ix: "index_holds (mux_index mux) (map fst ps)"
    and pats: "mux_patterns mux = map fst ps" and cf: "conflict_free ps"
    and names: "\<forall>(p, h) \<in> set ps. named_singles (pat_segments p)" using ok by (simp_all add: mux_ok_def)
  have wfs: "\<forall>q \<in> set (map fst ps). wf_pattern q" using mux_ok_wf [OF ok] by blast
  have segs: "pat_segments p \<noteq> []" "no_slash_names (pat_segments p)" "named_singles (pat_segments p)"
    using parsePattern_segments [OF parse] parsed_no_slash_names [OF parse] by (simp_all add: p_def)
  let ?cands = "candidates (mux_index mux) p"
  have cands: "set ?cands \<subseteq> set (map fst ps)" by (rule candidates_registered [OF ix segs(1)])
  have all: "q \<in> set ?cands" if q: "q \<in> set (map fst ps)" "conflictsWith p q = Ret True" for q
  proof (rule candidates_complete [OF ix q(1)])
    show "compare_segs (pat_segments p) (pat_segments q) \<noteq> disjoint"
      using conflict_compare_segs [OF wf _ q(2)] wfs q(1) by blast
  qed (use segs wf wfs q(1) in \<open>auto simp: wf_pattern_def wf_segs_def\<close>)
  have dec: "conflictsWith p q = Ret True \<or> conflictsWith p q = Ret False" if "q \<in> set (map fst ps)" for q
    using conflictsWith_wf [OF wf] wfs that by auto
  have wfc: "\<forall>q \<in> set ?cands. wf_pattern q" using cands wfs by blast
  obtain res where res: "possiblyConflictingPatterns (mux_index mux) p (conflict_check p) = Ret res"
    "res = None \<longleftrightarrow> (\<forall>q \<in> set ?cands. conflictsWith p q = Ret False)"
    "res \<noteq> None \<longrightarrow> (\<exists>q d. q \<in> set ?cands \<and> conflictsWith p q = Ret True \<and> res = Some (ConflictError p q d))"
    unfolding possiblyConflictingPatterns_candidates [OF segs(1)]
    using apply_conflict_check [OF wf wfc] by metis
  have reg: "registerErr L loc s handler mux =
      (if res \<noteq> None then Ret (res, mux)
       else go_bind (addPattern p handler (mux_tree mux)) (\<lambda>tree.
         go_bind (index_addPattern p (mux_index mux)) (\<lambda>index.
           Ret (None, mux\<lparr>mux_tree := tree, mux_index := index, mux_patterns := mux_patterns mux @ [p]\<rparr>))))"
    using ne h parse res(1) by (simp add: registerErr_def p_def located_def Let_def)
  show ?thesis
  proof (cases "\<exists>q \<in> set (mux_patterns mux). conflictsWith p q = Ret True")
    case True
    then obtain q where q: "q \<in> set (map fst ps)" "conflictsWith p q = Ret True" using pats by auto
    with all [OF q] have "res \<noteq> None" using res(2) by force
    then show ?thesis using True reg res(3) cands pats by auto
  next
    case False
    then have none: "\<forall>q \<in> set (map fst ps). conflictsWith p q = Ret False" using dec pats by auto
    then have "res = None" using res(2) cands by blast
    have free: "entry_at (mux_tree mux) (pattern_keys p) = None"
    proof (rule ccontr)
      assume "entry_at (mux_tree mux) (pattern_keys p) \<noteq> None"
      then obtain q g where q: "(q, g) \<in> set ps" "pattern_keys p = pattern_keys q"
        using tr by (auto simp: tree_holds_def)
      then have q': "q \<in> set (map fst ps)" by force
      have "conflictsWith p q = Ret True"
        using same_keys_conflict [OF rp _ q(2)] mux_ok_wf [OF ok q'] by blast
      with none q' show False by auto
    qed
    obtain tree where tree: "addPattern p handler (mux_tree mux) = Ret tree" "tree_holds tree (ps @ [(p, handler)])"
      using tree_holds_add [OF tr rp free] by blast
    obtain index where index: "index_addPattern p (mux_index mux) = Ret index" "index_holds index (map fst ps @ [p])"
      using index_addPattern_holds [OF ix segs(1)] by blast
    have "conflict_free (ps @ [(p, handler)])" by (rule conflict_free_snoc [OF cf wf wfs none])
    then show ?thesis
      using False reg \<open>res = None\<close> tree index pats names segs(3) by (auto simp: mux_ok_def)
  qed
qed

text \<open>C2: registering a routable pattern with a well-formed multiplexer never panics. It fails,
  leaving the state unchanged and naming a registered pattern the new one conflicts with, exactly
  when there is such a pattern; otherwise the tree, the index and the list of patterns hold the
  old patterns and the new one and are still free of conflicts.\<close>

theorem registerErr_correct:
  assumes "mux_ok mux ps" and "parsePattern L s = Inr p0" and "routable_pattern p0"
    and "handler \<noteq> NilHandler" "handler \<noteq> NilHandlerFunc" and "p = located loc p0"
  shows "if \<exists>q \<in> set (mux_patterns mux). conflictsWith p q = Ret True
    then \<exists>q d. registerErr L loc s handler mux = Ret (Some (ConflictError p q d), mux) \<and>
           q \<in> set (mux_patterns mux) \<and> conflictsWith p q = Ret True
    else \<exists>mux'. registerErr L loc s handler mux = Ret (None, mux') \<and> mux_ok mux' (ps @ [(p, handler)])"
  using registerErr_parsed [OF assms(1-5), of loc] assms(6) by (auto split: if_splits)

subsection \<open>Reachable multiplexers\<close>

text \<open>
  The states of a multiplexer under \<open>Handle\<close> and \<open>HandleFunc\<close>: a call that returns an error
  becomes a panic of the caller and leaves the state as it was. Only the literals reserved as
  keys are excluded.
\<close>

inductive mux_reachable :: "golib \<Rightarrow> 'h serveMux \<Rightarrow> bool" for L where
  mux_new: "mux_reachable L NewServeMux"
| mux_register: "mux_reachable L mux \<Longrightarrow> registerErr L loc s handler mux = Ret (err, mux') \<Longrightarrow>
    (\<forall>p. parsePattern L s = Inr p \<longrightarrow> routable_pattern p) \<Longrightarrow> mux_reachable L mux'"

lemma registerErr_cases:
  assumes ok: "mux_ok mux ps" and r: "\<forall>p. parsePattern L s = Inr p \<longrightarrow> routable_pattern p"
  shows "\<exists>err mux' ps'. registerErr L loc s handler mux = Ret (err, mux') \<and> mux_ok mux' ps'"
proof (cases "s = [] \<or> handler = NilHandler \<or> handler = NilHandlerFunc")
  case True
  with ok show ?thesis by (auto simp: registerErr_def)
next
  case False
  show ?thesis
  proof (cases "parsePattern L s")
    case (Inl e)
    with False ok show ?thesis by (auto simp: registerErr_def)
  next
    case (Inr p)
    with r have "routable_pattern p" by blast
    with registerErr_parsed [OF ok Inr this, of handler loc] False ok show ?thesis
      by (auto split: if_splits)
  qed
qed

lemma mux_reachable_holds: "mux_reachable L mux \<Longrightarrow> \<exists>ps. mux_ok mux ps"
proof (induction rule: mux_reachable.induct)
  case mux_new
  then show ?case using mux_ok_new by blast
next
  case (mux_register mux loc s handler err mux')
  then obtain ps where "mux_ok mux ps" by blast
  from registerErr_cases [OF this mux_register.hyps(3), of loc handler] mux_register.hyps(2)
  show ?case by auto
qed


subsection \<open>Examples\<close>

lemma parse_example:
  "parsePattern example_lib ''/{x}/{$}'' =
     Inr \<lparr>pat_str = ''/{x}/{$}'', pat_method = [], pat_host = [],
          pat_segments = [wild_seg ''x'' False, lit_seg ''/''], pat_loc = []\<rparr>"
  by (simp add: parse_eval)

theorem registerErr_correct_witness:
  "\<exists>mux p. registerErr example_lib None ''/{x}/{$}'' (HandlerImpl (1 :: int)) NewServeMux = Ret (None, mux) \<and>
     mux_ok mux [(p, HandlerImpl 1)]"
  using registerErr_correct [OF mux_ok_new parse_example _ _ _ refl, of "HandlerImpl (1 :: int)" None]
  by (auto simp: NewServeMux_def routable_pattern_def routable_segs_def wild_seg_def lit_seg_def)


end
