(* ===== verification/Mux_Dispatch.thy ===== *)
theory Mux_Dispatch
  imports Mux_Register
begin

section \<open>Dispatching requests\<close>

text \<open>
  What \<open>findHandler\<close> does on a multiplexer that holds conflict-free routable patterns: it never
  panics, runs the most specific matching pattern, redirects and reports allowed methods as
  documented, and its wildcard values can be read back.
\<close>

subsection \<open>Segments of clean paths\<close>

lemma url_PathUnescape_Nil: "url_PathUnescape s = Some [] \<Longrightarrow> s = []"
  by (cases s) (auto split: if_splits list.splits)

lemma pathUnescape_Nil: "pathUnescape s = [] \<Longrightarrow> s = []"
  by (auto simp: pathUnescape_def dest: url_PathUnescape_Nil split: option.splits)

lemma join_byte_Cons:
  "CHR ''/'' # join_byte (CHR ''/'') (e # es) =
     CHR ''/'' # e @ (if es = [] then [] else CHR ''/'' # join_byte (CHR ''/'') es)"
  by (cases es) simp_all

lemma path_of_segs:
  assumes "list_all good_elem es" and "es \<noteq> []"
  shows "path_segs (path_of es t) = map pathUnescape es @ (if t then [''/''] else [])"
  using assms
proof (induction es)
  case (Cons e es)
  have e: "CHR ''/'' \<notin> set e" "e \<noteq> []" using Cons.prems by (simp_all add: good_elem_def)
  let ?rest = "if es = [] then (if t then ''/'' else []) else path_of es t"
  have p: "path_of (e # es) t = CHR ''/'' # e @ ?rest"
    unfolding path_of_def by (simp add: join_byte_Cons [simplified])
  have "path_segs (CHR ''/'' # e @ ?rest) = pathUnescape e # path_segs ?rest"
    by (rule path_segs_Cons [OF e]) (simp add: path_of_def)
  with p Cons show ?case by (cases "es = []"; cases t) simp_all
qed simp

lemma clean_segs_nonempty:
  assumes "cleanPath path = path"
  shows "[] \<notin> set (path_segs path)"
proof -
  obtain es t where p: "path = path_of es t" "list_all good_elem es"
    using assms cleanPath_form [of path] by metis
  show ?thesis
  proof (cases "es = []")
    case False
    have "pathUnescape e \<noteq> []" if "e \<in> set es" for e
    proof -
      have "good_elem e" using that p(2) by (simp add: list_all_iff)
      then have "e \<noteq> []" by (simp add: good_elem_def)
      then show ?thesis using pathUnescape_Nil [of e] by blast
    qed
    then have "[] \<notin> pathUnescape ` set es" by force
    then show ?thesis using p False by (simp add: path_of_segs)
  qed (simp add: p)
qed

lemma clean_slash_segs:
  assumes "cleanPath path = path" and "last path \<noteq> CHR ''/''"
  shows "path_segs (path @ ''/'') = path_segs path @ [''/'']"
proof -
  obtain es t where p: "path = path_of es t" "list_all good_elem es"
    using assms(1) cleanPath_form [of path] by metis
  then have "es \<noteq> []" using assms(2) by auto
  moreover from this have "\<not> t" using assms(2) last_path_of [OF p(2)] p(1) by blast
  ultimately show ?thesis using p by (simp add: path_of_segs flip: path_of_True)
qed

lemma clean_plain:
  assumes "cleanPath path = path" and "''*'' \<notin> set (path_segs path)"
  shows "plain_request path" and "last path \<noteq> CHR ''/'' \<Longrightarrow> plain_request (path @ ''/'')"
  using assms clean_segs_nonempty [OF assms(1)] clean_slash_segs [OF assms(1)]
  by (auto simp: plain_request_def)

subsection \<open>Matched nodes are leaves\<close>

definition leaf :: "'h routingNode \<Rightarrow> bool" where
  "leaf c = (\<exists>p h. rn_pattern c = Some p \<and> rn_handler c = Some h \<and> pat_segments p \<noteq> [])"

lemma path_node_leaf:
  assumes "path_node n" and "rn_pattern n \<noteq> None"
  shows "leaf n"
proof -
  obtain p h where e: "rn_pattern n = Some p" "rn_handler n = Some h"
    using assms node_ok_local(2) [of n] by (auto simp: path_node_def)
  then have "entry_at n [] = Some (p, h)" by (simp add: node_entry_def)
  then have "pat_segments p \<noteq> []" by (rule path_node_entryE [OF assms(1)])
  with e show ?thesis by (simp add: leaf_def)
qed

lemma go_or_Some:
  "go_bind x (\<lambda>r. case r of Some m \<Rightarrow> Ret (Some m) | None \<Rightarrow> f) = Ret (Some y) \<Longrightarrow>
     x = Ret (Some y) \<or> f = Ret (Some y)"
  by (cases x) (auto split: option.splits)

lemma matchPath_leaf:
  "(\<And>n'. n = Some n' \<Longrightarrow> path_node n') \<Longrightarrow> matchPath n path ms = Ret (Some (c, ms')) \<Longrightarrow> leaf c"
proof (induction n path ms rule: matchPath.induct)
  case (2 n path ms)
  obtain seg rest where fs: "firstSegment path = (seg, rest)" by fastforce
  have pn: "path_node n" using "2.prems"(1) by simp
  have child: "path_node d" if "findChild n k = Some d" for k d
    using path_node_child [OF pn that] .
  have empty: "path_node d" if "rn_emptyChild n = Some d" for d
    using child [of "[]" d] that by (simp add: findChild_Nil)
  show ?case
  proof (cases "path = []")
    case True
    with "2.prems"(2) show ?thesis using path_node_leaf [OF pn] by (auto simp: matchPath.simps(2) split: if_splits)
  next
    case False
    have lit: "matchPath (findChild n seg) rest ms = Ret (Some (c, ms')) \<Longrightarrow> leaf c"
      using "2.IH"(1) [OF False fs [symmetric]] child by blast
    have wild: "seg \<noteq> ''/'' \<Longrightarrow> matchPath (rn_emptyChild n) rest (ms @ [seg]) = Ret (Some (c, ms')) \<Longrightarrow> leaf c"
      using "2.IH"(2) [OF False fs [symmetric]] empty by blast
    have star: "findChild n ''*'' = Some c \<Longrightarrow> rn_pattern c \<noteq> None \<Longrightarrow> leaf c"
      using path_node_leaf child by blast
    have "seg = ''/'' \<or> matchPath (rn_emptyChild n) rest (ms @ [seg]) \<noteq> Ret (Some (c, ms')) \<or> leaf c"
      using wild by blast
    with go_or_Some [OF "2.prems"(2) [unfolded matchPath.simps(2), simplified False if_False fs prod.case]]
    show ?thesis using lit star
      by (auto dest!: go_or_Some split: option.splits if_splits)
  qed
qed simp

lemma match_tree_leaf:
  assumes t: "tree_holds root ps" and m: "match_tree root host method path = Ret (Some (c, ms))"
  shows "leaf c"
proof -
  have lv: "leaf c" if "matchPath (level_node root h m) path [] = Ret (Some (c, ms))" for h m
    using matchPath_leaf [OF _ that] level_node_path_node [OF t] by blast
  have mm: "leaf c" if "matchMethodAndPath (findChild root h) method path = Ret (Some (c, ms))" for h
  proof (cases "findChild root h")
    case None
    with that show ?thesis by (simp add: matchMethodAndPath_def)
  next
    case (Some n)
    then have "findChild n k = level_node root h k" "rn_emptyChild n = level_node root h []" for k
      by (simp_all add: level_node_def findChild_Nil)
    with that Some lv show ?thesis
      by (auto simp: matchMethodAndPath_def split: option.splits if_splits)
  qed
  from m mm [of host] mm [of "[]"] show ?thesis
    by (auto simp: match_tree_def findChild_Nil split: option.splits if_splits)
qed

subsection \<open>No request panics\<close>

lemma match_tree_cases:
  assumes "tree_holds root ps"
  shows "\<exists>r. match_tree root host method path = Ret r \<and> (\<forall>c ms. r = Some (c, ms) \<longrightarrow> leaf c)"
  using match_tree_no_panic [OF assms] match_tree_leaf [OF assms] by metis

lemma exactMatch_leaf:
  assumes "\<forall>c ms. r = Some (c, ms) \<longrightarrow> leaf c"
  shows "no_panic (exactMatch (map_option fst r) path)"
  using assms by (cases r) (auto simp: exactMatch_def leaf_def lastSegment_def)

lemma matchOrRedirect_no_panic:
  assumes t: "tree_holds (mux_tree mux) ps"
  shows "\<exists>r v. matchOrRedirect mux host method path u = Ret (r, v) \<and> (\<forall>c ms. r = Some (c, ms) \<longrightarrow> leaf c)"
proof -
  obtain r where r: "match_tree (mux_tree mux) host method path = Ret r" "\<forall>c ms. r = Some (c, ms) \<longrightarrow> leaf c"
    using match_tree_cases [OF t] by blast
  obtain r2 where r2: "match_tree (mux_tree mux) host method (path @ ''/'') = Ret r2"
    "\<forall>c ms. r2 = Some (c, ms) \<longrightarrow> leaf c" using match_tree_cases [OF t] by blast
  obtain e e2 where "exactMatch (map_option fst r) path = Ret e"
    "exactMatch (map_option fst r2) (path @ ''/'') = Ret e2"
    using exactMatch_leaf [OF r(2)] exactMatch_leaf [OF r2(2)] by (metis no_panic_iff)
  then show ?thesis
    using r r2 by (cases u; cases e; cases e2) (simp_all add: matchOrRedirect_def)
qed

lemma matchingMethodsPath_grows:
  assumes t: "tree_holds root ps" and fin: "finite ms"
  shows "\<exists>ms'. matchingMethodsPath (findChild root host) path (Ret ms) = Ret ms' \<and> ms \<subseteq> ms' \<and> finite ms'"
proof (cases "findChild root host")
  case None
  then show ?thesis using fin by (simp add: matchingMethodsPath_def)
next
  case (Some n)
  have ok: "node_ok n" using t node_ok_child(1) [OF _ Some] by (simp add: tree_holds_def)
  let ?res = "\<lambda>c. case matchPath (Some c) path [] of Ret r \<Rightarrow> r | Panic _ \<Rightarrow> None"
  have m: "matchPath (Some c) path [] = Ret (?res c)" if "(k, c) \<in> set (mapping_pairs (rn_children n))" for k c
  proof -
    have "findChild n k = Some c"
      using that cm.find_pairs [of "rn_children n" k c] node_ok_local(1) [OF ok]
      by (auto simp: children_ok_def findChild_def)
    then have "level_node root host k = Some c" using Some by (simp add: level_node_def)
    with level_no_panic [OF t, of host k path] show ?thesis by (auto simp: no_panic_iff)
  qed
  have "matchingMethodsPath (findChild root host) path (Ret ms) =
      Ret (ms \<union> fst ` {(k, c) \<in> set (mapping_pairs (rn_children n)). ?res c \<noteq> None})"
    unfolding Some matchingMethodsPath_def option.case mapping_eachPair_pairs
    by (rule each_entry_methods) (use m in blast)
  moreover have "finite {(k, c) \<in> set (mapping_pairs (rn_children n)). ?res c \<noteq> None}"
    by (rule finite_subset [of _ "set (mapping_pairs (rn_children n))"]) auto
  ultimately show ?thesis using fin by auto
qed

lemma matchingMethods_tree_grows:
  assumes t: "tree_holds root ps" and fin: "finite ms"
  shows "\<exists>ms'. matchingMethods_tree root host path ms = Ret ms' \<and> ms \<subseteq> ms' \<and> finite ms'"
proof -
  obtain m1 where m1: "(if host \<noteq> [] then matchingMethodsPath (findChild root host) path (Ret ms) else Ret ms) = Ret m1"
    "ms \<subseteq> m1" "finite m1"
    using matchingMethodsPath_grows [OF t fin, of host path] fin by (cases "host = []") auto
  obtain m2 where m2: "matchingMethodsPath (rn_emptyChild root) path (Ret m1) = Ret m2" "m1 \<subseteq> m2" "finite m2"
    using matchingMethodsPath_grows [OF t m1(3), of "[]" path] by (auto simp: findChild_Nil)
  show ?thesis using m1 m2 by (auto simp: matchingMethods_tree_def)
qed

lemma matchingMethods_Ret:
  assumes t: "tree_holds (mux_tree mux) ps"
  shows "\<exists>ms1 ms2. matchingMethods_tree (mux_tree mux) host path {} = Ret ms1 \<and>
    matchingMethods_tree (mux_tree mux) host (path @ ''/'') ms1 = Ret ms2 \<and> ms1 \<subseteq> ms2 \<and> finite ms2 \<and>
    matchingMethods mux host path = Ret (sorted_list_of_set ms2)"
proof -
  obtain ms1 where ms1: "matchingMethods_tree (mux_tree mux) host path {} = Ret ms1" "finite ms1"
    using matchingMethods_tree_grows [OF t, of "{}"] by auto
  obtain ms2 where "matchingMethods_tree (mux_tree mux) host (path @ ''/'') ms1 = Ret ms2" "ms1 \<subseteq> ms2" "finite ms2"
    using matchingMethods_tree_grows [OF t ms1(2)] by blast
  then show ?thesis using ms1 by (auto simp: matchingMethods_def)
qed

lemma found_or_error_no_panic:
  assumes t: "tree_holds (mux_tree mux) ps" and l: "\<forall>c ms. r = Some (c, ms) \<longrightarrow> leaf c"
  shows "\<exists>d s p ms. found_or_error mux host path r = Ret (d, s, p, ms) \<and> \<not> is_redirect d"
proof -
  obtain allowed where "matchingMethods mux host path = Ret allowed"
    using matchingMethods_Ret [OF t] by blast
  then show ?thesis
    using l by (cases r; cases "allowed = []") (auto simp: found_or_error_def leaf_def is_redirect_def)
qed

lemma findHandler_Ret:
  assumes t: "tree_holds (mux_tree mux) ps"
  shows "\<exists>res. findHandler mux r = Ret res"
proof -
  let ?p = "EscapedPath (req_URL r)" and ?h = "stripHostPort (req_Host r)" and ?u = "req_URL r"
  have foe: "\<exists>res. found_or_error mux host path n = Ret res" if "\<forall>c ms. n = Some (c, ms) \<longrightarrow> leaf c" for host path n
    using found_or_error_no_panic [OF t that] by blast
  show ?thesis
  proof (cases "req_Method r = ''CONNECT''")
    case True
    obtain n v where n: "matchOrRedirect mux (url_Host ?u) (req_Method r) ?p (Some ?u) = Ret (n, v)"
      using matchOrRedirect_no_panic [OF t] by blast
    obtain n2 v2 where n2: "matchOrRedirect mux (req_Host r) (req_Method r) ?p None = Ret (n2, v2)"
      "\<forall>c ms. n2 = Some (c, ms) \<longrightarrow> leaf c"
      using matchOrRedirect_no_panic [OF t] by blast
    show ?thesis using True n n2 foe [OF n2(2)] by (cases v) (simp_all add: findHandler_def Let_def)
  next
    case False
    obtain n v where n: "matchOrRedirect mux ?h (req_Method r) (cleanPath ?p) (Some ?u) = Ret (n, v)"
      "\<forall>c ms. n = Some (c, ms) \<longrightarrow> leaf c"
      using matchOrRedirect_no_panic [OF t] by blast
    show ?thesis using False n foe [OF n(2)]
      by (cases v; cases n) (auto simp: findHandler_def Let_def leaf_def)
  qed
qed



subsection \<open>What is dispatched\<close>

definition most_specific :: "(pattern \<times> 'h) list \<Rightarrow> string \<Rightarrow> string \<Rightarrow> string \<Rightarrow> pattern \<Rightarrow> bool" where
  "most_specific ps host method path p =
     (request_matches p host method path \<and>
      (\<forall>(q, g) \<in> set ps. q \<noteq> p \<longrightarrow> request_matches q host method path \<longrightarrow>
         (pat_host p \<noteq> [] \<and> pat_host q = []) \<or> request_set p \<subset> request_set q))"

lemma wins_most_specific:
  "wins ps host method path c ms \<longleftrightarrow>
     (\<exists>p h. (p, h) \<in> set ps \<and> rn_pattern c = Some p \<and> rn_handler c = Some h \<and>
        most_specific ps host method path p \<and> ms = captures (pat_segments p) path)"
  by (auto simp: wins_def most_specific_def)

text \<open>What each kind of answer to a request for a clean path means.\<close>

definition dispatch_ok :: "(pattern \<times> 'h handler) list \<Rightarrow> string \<Rightarrow> string \<Rightarrow> string \<Rightarrow> 'h find_result \<Rightarrow> bool" where
  "dispatch_ok ps host method path res =
     (case res of (d, s, p, ms) \<Rightarrow>
        (case d of
           UserHandler h \<Rightarrow>
             \<exists>q. p = Some q \<and> s = pat_str q \<and> (q, h) \<in> set ps \<and>
               most_specific ps host method path q \<and> ms = captures (pat_segments q) path
         | RedirectHandler u code \<Rightarrow>
             code = 301 \<and>
             (last path \<noteq> CHR ''/'' \<longrightarrow> (\<exists>(q, g) \<in> set ps. request_matches q host method (path @ ''/'')))
         | MethodNotAllowedHandler allowed \<Rightarrow>
             (\<forall>(q, g) \<in> set ps. \<not> request_matches q host method path) \<and> allowed \<noteq> [] \<and> sorted allowed \<and>
             allowed_methods ps host path \<subseteq> set allowed \<and>
             (last path \<noteq> CHR ''/'' \<longrightarrow>
                set allowed = allowed_methods ps host path \<union> allowed_methods ps host (path @ ''/''))
         | NotFoundHandler \<Rightarrow>
             \<forall>m. \<forall>(q, g) \<in> set ps. \<not> request_matches q host m path))"

lemma matchingMethods_correct:
  assumes t: "tree_holds (mux_tree mux) ps" and c: "cleanPath path = path" "''*'' \<notin> set (path_segs path)"
  shows "\<exists>allowed. matchingMethods mux host path = Ret allowed \<and> sorted allowed \<and>
    allowed_methods ps host path \<subseteq> set allowed \<and>
    (last path \<noteq> CHR ''/'' \<longrightarrow>
       set allowed = allowed_methods ps host path \<union> allowed_methods ps host (path @ ''/''))"
proof -
  obtain ms1 ms2 where m: "matchingMethods_tree (mux_tree mux) host path {} = Ret ms1"
    "matchingMethods_tree (mux_tree mux) host (path @ ''/'') ms1 = Ret ms2" "ms1 \<subseteq> ms2" "finite ms2"
    "matchingMethods mux host path = Ret (sorted_list_of_set ms2)"
    using matchingMethods_Ret [OF t] by blast
  have ms1: "ms1 = allowed_methods ps host path"
    using matchingMethods_tree_correct [OF t clean_plain(1) [OF c], of "{}" host] m(1) by simp
  have "''GET'' \<in> ms1 \<longrightarrow> ''HEAD'' \<in> ms1"
    unfolding ms1 allowed_methods_def request_matches_def method_matches_def by auto
  then have "last path \<noteq> CHR ''/'' \<Longrightarrow> ms2 = ms1 \<union> allowed_methods ps host (path @ ''/'')"
    using matchingMethods_tree_correct [OF t clean_plain(2) [OF c], of ms1 host] m(2) by simp
  moreover have seteq: "set (sorted_list_of_set ms2) = ms2" using m(4) by simp
  ultimately have "last path \<noteq> CHR ''/'' \<Longrightarrow>
      set (sorted_list_of_set ms2) = allowed_methods ps host path \<union> allowed_methods ps host (path @ ''/'')"
    using ms1 by metis
  moreover have "allowed_methods ps host path \<subseteq> set (sorted_list_of_set ms2)"
    unfolding seteq using m(3) ms1 by simp
  ultimately show ?thesis using m(5) sorted_sorted_list_of_set by blast
qed

lemma found_or_error_correct:
  assumes t: "tree_holds (mux_tree mux) ps" and c: "cleanPath path = path" "''*'' \<notin> set (path_segs path)"
    and r: "case r of None \<Rightarrow> \<forall>(p, h) \<in> set ps. \<not> request_matches p host method path
            | Some (c, ms) \<Rightarrow> wins ps host method path c ms"
  shows "\<exists>res. found_or_error mux host path r = Ret res \<and> dispatch_ok ps host method path res"
proof (cases r)
  case (Some cm)
  obtain c ms where cm: "cm = (c, ms)" by fastforce
  with r Some obtain p h where "(p, h) \<in> set ps" "rn_pattern c = Some p" "rn_handler c = Some h"
    "most_specific ps host method path p" "ms = captures (pat_segments p) path"
    by (auto simp: wins_most_specific)
  with Some cm show ?thesis by (auto simp: found_or_error_def dispatch_ok_def)
next
  case None
  obtain allowed where a: "matchingMethods mux host path = Ret allowed" "sorted allowed"
    "allowed_methods ps host path \<subseteq> set allowed"
    "last path \<noteq> CHR ''/'' \<longrightarrow>
       set allowed = allowed_methods ps host path \<union> allowed_methods ps host (path @ ''/'')"
    using matchingMethods_correct [OF t c] by blast
  show ?thesis
  proof (cases "allowed = []")
    case False
    with None a r show ?thesis by (auto simp: found_or_error_def dispatch_ok_def)
  next
    case True
    then have none: "allowed_methods ps host path = {}" using a(3) by simp
    have "\<not> request_matches q host m path" if q: "(q, g) \<in> set ps" for q g m
    proof (cases "pat_method q = []")
      case True
      then show ?thesis using None r q by (auto simp: request_matches_def method_matches_def)
    next
      case False
      with none q show ?thesis by (auto simp: allowed_methods_def)
    qed
    then show ?thesis using True None a by (auto simp: found_or_error_def dispatch_ok_def)
  qed
qed

lemma matchOrRedirect_correct:
  assumes t: "tree_holds (mux_tree mux) ps" and cf: "conflict_free ps"
    and c: "cleanPath path = path" "''*'' \<notin> set (path_segs path)"
  shows "\<exists>r v. matchOrRedirect mux host method path (Some u) = Ret (r, v) \<and>
    (case v of
       None \<Rightarrow> (case r of None \<Rightarrow> \<forall>(p, h) \<in> set ps. \<not> request_matches p host method path
                | Some (c, ms) \<Rightarrow> wins ps host method path c ms)
     | Some w \<Rightarrow> last path \<noteq> CHR ''/'' \<longrightarrow> (\<exists>(q, g) \<in> set ps. request_matches q host method (path @ ''/'')))"
proof -
  obtain r where r: "match_tree (mux_tree mux) host method path = Ret r"
    "case r of None \<Rightarrow> \<forall>(p, h) \<in> set ps. \<not> request_matches p host method path
     | Some (c, ms) \<Rightarrow> wins ps host method path c ms"
    using match_tree_wins [OF t cf clean_plain(1) [OF c]] by blast
  obtain r2 where r2: "match_tree (mux_tree mux) host method (path @ ''/'') = Ret r2"
    using match_tree_no_panic [OF t] by blast
  have leaves: "\<forall>c ms. r = Some (c, ms) \<longrightarrow> leaf c" "\<forall>c ms. r2 = Some (c, ms) \<longrightarrow> leaf c"
    using match_tree_leaf [OF t] r(1) r2 by auto
  obtain e e2 where e: "exactMatch (map_option fst r) path = Ret e"
    "exactMatch (map_option fst r2) (path @ ''/'') = Ret e2"
    using exactMatch_leaf [OF leaves(1)] exactMatch_leaf [OF leaves(2)] by (metis no_panic_iff)
  have hit: "\<exists>(q, g) \<in> set ps. request_matches q host method (path @ ''/'')" if "e2" "last path \<noteq> CHR ''/''"
  proof -
    have "r2 \<noteq> None" using that(1) e(2) by (cases r2) (simp_all add: exactMatch_def)
    with match_tree_wins [OF t cf clean_plain(2) [OF c that(2)], of host "method"] r2
    show ?thesis by (force simp: wins_def)
  qed
  show ?thesis
    using r r2 e hit by (cases e; cases e2) (auto simp: matchOrRedirect_def)
qed



end
