(* ===== verification/Mux_Limits.thy ===== *)
theory Mux_Limits
  imports Mux_Dispatch
begin

section \<open>Where the multiplexer departs from its documentation\<close>

text \<open>
  Concrete runs of the model outside the hypotheses of the main theorems: the literal segment
  \<open>*\<close> shares its key with the multi wildcard, an escaped slash is taken for the end of the path,
  appending a slash to a path that ends in one gives a redirect that never ends, and the
  redirect to a cleaned path escapes the path twice.
\<close>

lemmas mux_eval = registerErr_def register_def NewServeMux_def Let_def
  possiblyConflictingPatterns_def index_empty_def index_get_def lastSegment_def addPattern_def
  at_child_def addChild_def storeChild_def newNode_def findChild_def set_leaf_def mapping_empty_def
  mapping_find_def mapping_add_def mapping_put_def maxSlice_def index_addPattern_def rkey_def
  wild_seg_def lit_seg_def

lemmas find_eval = findHandler_def matchOrRedirect_def match_tree_def matchMethodAndPath_def
  matchPath.simps(2) exactMatch_def firstSegment_def break_byte_def pathUnescape_def EscapedPath_def
  redirect_url_def path_escape_def path_should_escape_def is_alnum_def cleanPath_def path_Clean_def
  stripHostPort_def StatusMovedPermanently_def has_prefix_def valid_encoded_path_def

text \<open>With the single pattern \<open>/{x}/{$}\<close> registered, which should not match the path \<open>/\<close>, a
  GET of \<open>/\<close> is redirected to \<open>//\<close>, and a GET of \<open>//\<close> is redirected to \<open>//\<close> again: the redirects
  never end.\<close>

theorem redirect_never_ends:
  "\<exists>mux. register example_lib None ''/{x}/{$}'' (HandlerImpl (1 :: int)) NewServeMux = Ret mux \<and>
     findHandler mux (example_get ''/'') = Ret (RedirectHandler (redirect_url ''//'' []) 301, ''//'', None, []) \<and>
     findHandler mux (example_get ''//'') = Ret (RedirectHandler (redirect_url ''//'' []) 301, ''//'', None, [])"
  by (simp add: mux_eval parse_example) (simp add: mux_eval find_eval)

lemma parse_star: "parsePattern example_lib ''/*'' =
    Inr \<lparr>pat_str = ''/*'', pat_method = [], pat_host = [], pat_segments = [lit_seg ''*''], pat_loc = []\<rparr>"
  by (simp add: parse_eval)

lemma parse_star_a: "parsePattern example_lib ''/*/a'' =
    Inr \<lparr>pat_str = ''/*/a'', pat_method = [], pat_host = [],
         pat_segments = [lit_seg ''*'', lit_seg ''a''], pat_loc = []\<rparr>"
  by (simp add: parse_eval)

lemma parse_rest: "parsePattern example_lib ''/{x...}'' =
    Inr \<lparr>pat_str = ''/{x...}'', pat_method = [], pat_host = [],
         pat_segments = [wild_seg ''x'' True], pat_loc = []\<rparr>"
  by (simp add: parse_eval)

text \<open>The pattern \<open>/*\<close>, whose only segment is a literal, serves a request for \<open>/foo\<close>; with
  the pattern \<open>/*/a\<close> registered the same request panics.\<close>

theorem literal_star_matches_everything:
  "(\<exists>mux p. register example_lib None ''/*'' (HandlerImpl (1 :: int)) NewServeMux = Ret mux \<and>
      findHandler mux (example_get ''/foo'') = Ret (UserHandler (HandlerImpl 1), ''/*'', Some p, [''foo'']) \<and>
      \<not> request_matches p [] ''GET'' ''/foo'') \<and>
   (\<exists>mux. register example_lib None ''/*/a'' (HandlerImpl (1 :: int)) NewServeMux = Ret mux \<and>
      \<not> no_panic (findHandler mux (example_get ''/foo'')))"
proof
  have segs: "path_segs ''/foo'' = [''foo'']"
    using path_segs_render [of "[''foo'']"] by (simp add: plain_seg_def render_seg_def)
  show "\<exists>mux p. register example_lib None ''/*'' (HandlerImpl (1 :: int)) NewServeMux = Ret mux \<and>
      findHandler mux (example_get ''/foo'') = Ret (UserHandler (HandlerImpl 1), ''/*'', Some p, [''foo'']) \<and>
      \<not> request_matches p [] ''GET'' ''/foo''"
    by (simp add: mux_eval parse_star)
       (simp add: mux_eval find_eval found_or_error_def request_matches_def path_matches_def path_set_def segs)
  show "\<exists>mux. register example_lib None ''/*/a'' (HandlerImpl (1 :: int)) NewServeMux = Ret mux \<and>
      \<not> no_panic (findHandler mux (example_get ''/foo''))"
    by (simp add: mux_eval parse_star_a) (simp add: mux_eval find_eval)
qed

text \<open>After \<open>/*\<close> is registered, registering \<open>/{x...}\<close> panics inside the tree although the two
  patterns do not conflict, so no conflict is reported.\<close>

lemma literal_star_registration_panics:
  "\<exists>mux p q. register example_lib None ''/*'' (HandlerImpl (1 :: int)) NewServeMux = Ret mux \<and>
     parsePattern example_lib ''/*'' = Inr p \<and> parsePattern example_lib ''/{x...}'' = Inr q \<and>
     conflictsWith q p = Ret False \<and>
     registerErr example_lib None ''/{x...}'' (HandlerImpl 2) mux = Panic ''non-nil leaf fields''"
  by (simp add: mux_eval parse_star parse_rest)
     (simp add: mux_eval parse_rest conflict_check_def conflictsWith_def comparePathsAndMethods_def
       compareMethods_def comparePaths_def compareSegments_def relationship_defs)

text \<open>A request for \<open>/*\<close> that the pattern \<open>/{x...}\<close> serves has no wildcard value, so reading
  \<open>PathValue("x")\<close> panics.\<close>

lemma star_request_has_no_value:
  "\<exists>mux h p ms. register example_lib None ''/{x...}'' (HandlerImpl (1 :: int)) NewServeMux = Ret mux \<and>
     findHandler mux ((example_get [])\<lparr>req_URL := \<lparr>url_Host = [], url_Path = ''/*'', url_RawPath = ''/*'', url_RawQuery = []\<rparr>\<rparr>) =
       Ret (UserHandler h, ''/{x...}'', Some p, ms) \<and>
     PathValue ((example_get [])\<lparr>req_pat := Some p, req_matches := ms\<rparr>) ''x'' = Panic ''index out of range''"
  by (simp add: mux_eval parse_rest)
     (simp add: mux_eval find_eval found_or_error_def PathValue_def patIndex_def)

lemma parse_end: "parsePattern example_lib ''/{$}'' =
    Inr \<lparr>pat_str = ''/{$}'', pat_method = [], pat_host = [], pat_segments = [lit_seg ''/''], pat_loc = []\<rparr>"
  by (simp add: parse_eval)

lemma unescape_2F:
  "is_hex (CHR ''2'')" "is_hex (CHR ''F'')" "hex_val (CHR ''2'') = 2" "hex_val (CHR ''F'') = 15"
  "byte_of 47 = CHR ''/''"
  by (simp_all add: is_hex_def hex_val_def) (simp only: byte_of_def, code_simp)

text \<open>A request for \<open>/%2F\<close>, one segment that holds an escaped slash, is served by the pattern
  \<open>/{$}\<close>, which is documented to match the path \<open>/\<close> only.\<close>

lemma escaped_slash_is_end:
  "\<exists>mux p. register example_lib None ''/{$}'' (HandlerImpl (1 :: int)) NewServeMux = Ret mux \<and>
     findHandler mux ((example_get [])\<lparr>req_URL := \<lparr>url_Host = [], url_Path = ''//'', url_RawPath = ''/%2F'', url_RawQuery = []\<rparr>\<rparr>) =
       Ret (UserHandler (HandlerImpl 1), ''/{$}'', Some p, [])"
  by (simp add: mux_eval parse_end)
     (simp add: mux_eval find_eval found_or_error_def unescape_2F)

text \<open>A request for \<open>/a%20b//c\<close> is redirected to a URL whose path is the already escaped text
  \<open>/a%20b/c\<close>; written out, that URL is \<open>/a%2520b/c\<close>, not the cleaned form of what was asked for.\<close>

theorem clean_redirect_escapes_twice:
  "\<exists>u. findHandler (NewServeMux :: int serveMux)
       ((example_get [])\<lparr>req_URL := \<lparr>url_Host = [], url_Path = ''/a b//c'', url_RawPath = [], url_RawQuery = []\<rparr>\<rparr>) =
       Ret (RedirectHandler u 301, [], None, []) \<and>
     EscapedPath \<lparr>url_Host = [], url_Path = ''/a b//c'', url_RawPath = [], url_RawQuery = []\<rparr> = ''/a%20b//c'' \<and>
     EscapedPath u = ''/a%2520b/c''"
  by (simp add: mux_eval find_eval upper_hex_def)

text \<open>For the overlapping patterns \<open>/{x}/{y}\<close> and \<open>/a/\<close> the path \<open>commonPath\<close> reports as
  matched by both is \<open>/a/\<close>, which the first does not match.\<close>

theorem commonPath_not_common:
  "\<exists>p q. parsePattern example_lib ''/{x}/{y}'' = Inr p \<and> parsePattern example_lib ''/a/'' = Inr q \<and>
     comparePaths p q = Ret overlaps \<and> commonPath p q = ''/a/'' \<and> \<not> path_matches p ''/a/''"
proof -
  have segs: "path_segs ''/a/'' = [''a'', ''/'']"
    using path_segs_render [of "[''a'', ''/'']"] by (simp add: plain_seg_def render_seg_def)
  show ?thesis
    by (simp add: parse_eval comparePaths_def lastSegment_def compareSegments_def relationship_defs
        commonPath_def writeSegment_def writeMatchingPath_def path_matches_def path_set_def segs) blast
qed

end
