(* ===== verification/Bufio.thy ===== *)
theory Bufio
  imports Prelude
begin

section \<open>Buffered readers of the standard library\<close>

text \<open>
  \<open>bufio.Reader\<close> over a source that delivers its bytes in blocks of any sizes and then reports
  \<open>io.EOF\<close>: the buffered bytes and the blocks still to come. \<open>remaining\<close> is everything that is
  still to be read; the lemmas show that every operation returns a prefix of it and keeps the
  rest, whatever the blocks are.
\<close>

datatype io_error =
    EOF
  | ErrUnexpectedEOF
  | ErrBufferFull
  | ErrLineTooLong
  | ErrShortWrite
  | OtherError string

record 'b bufr =
  bf_buf :: "'b list"
  bf_src :: "'b list list"

definition bufio_size :: nat where
  "bufio_size = 4096"

definition remaining :: "'b bufr \<Rightarrow> 'b list" where
  "remaining r = bf_buf r @ concat (bf_src r)"

definition bufr_Buffered :: "'b bufr \<Rightarrow> nat" where
  "bufr_Buffered r = length (bf_buf r)"

text \<open>One read of the source into a slice of \<open>k\<close> bytes, and the blocks left after it.\<close>

fun source_read :: "nat \<Rightarrow> 'b list list \<Rightarrow> ('b list \<times> 'b list list) option" where
  "source_read k [] = None"
| "source_read k (b # bs) =
     (if b = [] then source_read k bs else Some (take k b, drop k b # bs))"

lemma source_read_Some:
  assumes "source_read k src = Some (d, src')"
  shows "concat src = d @ concat src'" and "0 < k \<Longrightarrow> d \<noteq> []" and "length d \<le> k"
proof -
  have "concat src = d @ concat src' \<and> (0 < k \<longrightarrow> d \<noteq> []) \<and> length d \<le> k"
    using assms by (induction src) (auto split: if_splits)
  then show "concat src = d @ concat src'" "0 < k \<Longrightarrow> d \<noteq> []" "length d \<le> k" by blast+
qed

lemma source_read_None: "source_read k src = None \<longleftrightarrow> concat src = []"
  by (induction src) auto

text \<open>\<open>ReadSlice\<close>: the bytes up to and with the delimiter, or an error.\<close>

function bufr_ReadSlice :: "'b \<Rightarrow> 'b bufr \<Rightarrow> (io_error + 'b list) \<times> 'b bufr" where
  "bufr_ReadSlice delim r =
     (case index_byte (bf_buf r) delim of
        Some i \<Rightarrow> (Inr (take (Suc i) (bf_buf r)), r\<lparr>bf_buf := drop (Suc i) (bf_buf r)\<rparr>)
      | None \<Rightarrow>
          if bufio_size \<le> length (bf_buf r) then (Inl ErrBufferFull, r\<lparr>bf_buf := []\<rparr>)
          else
            (case source_read (bufio_size - length (bf_buf r)) (bf_src r) of
               None \<Rightarrow> (Inl EOF, r\<lparr>bf_buf := []\<rparr>)
             | Some (d, src) \<Rightarrow> bufr_ReadSlice delim (r\<lparr>bf_buf := bf_buf r @ d, bf_src := src\<rparr>)))"
  by pat_completeness auto
termination
proof (relation "measure (\<lambda>(delim, r). length (concat (bf_src r)))", goal_cases)
  case (2 delim r x d src)
  then have "source_read (bufio_size - length (bf_buf r)) (bf_src r) = Some (d, src)" by simp
  note sr = source_read_Some [OF this]
  have "d \<noteq> []" using 2 sr(2) by simp
  with sr(1) show ?case by simp
qed simp

declare bufr_ReadSlice.simps [simp del]

text \<open>\<open>Read\<close> into a slice of \<open>m\<close> bytes.\<close>

definition bufr_Read :: "nat \<Rightarrow> 'b bufr \<Rightarrow> (io_error + 'b list) \<times> 'b bufr" where
  "bufr_Read m r =
     (if m = 0 then (Inr [], r)
      else if bf_buf r \<noteq> [] then (Inr (take m (bf_buf r)), r\<lparr>bf_buf := drop m (bf_buf r)\<rparr>)
      else if bufio_size \<le> m then
        (case source_read m (bf_src r) of
           None \<Rightarrow> (Inl EOF, r)
         | Some (d, src) \<Rightarrow> (Inr d, r\<lparr>bf_src := src\<rparr>))
      else
        (case source_read bufio_size (bf_src r) of
           None \<Rightarrow> (Inl EOF, r)
         | Some (d, src) \<Rightarrow> (Inr (take m d), r\<lparr>bf_buf := drop m d, bf_src := src\<rparr>)))"

text \<open>\<open>Peek(n)\<close> fills the buffer until it holds \<open>n\<close> bytes, is full, or the source ends; \<open>Discard(n)\<close> of
  bytes that were peeked drops them.\<close>

function bufr_fill :: "nat \<Rightarrow> 'b bufr \<Rightarrow> 'b bufr" where
  "bufr_fill n r =
     (if n \<le> length (bf_buf r) \<or> bufio_size \<le> length (bf_buf r) then r
      else
        (case source_read (bufio_size - length (bf_buf r)) (bf_src r) of
           None \<Rightarrow> r
         | Some (d, src) \<Rightarrow> bufr_fill n (r\<lparr>bf_buf := bf_buf r @ d, bf_src := src\<rparr>)))"
  by pat_completeness auto
termination
proof (relation "measure (\<lambda>(n, r). length (concat (bf_src r)))", goal_cases)
  case (2 n r x d src)
  then have "source_read (bufio_size - length (bf_buf r)) (bf_src r) = Some (d, src)" by simp
  note sr = source_read_Some [OF this]
  have "d \<noteq> []" using 2 sr(2) by simp
  with sr(1) show ?case by simp
qed simp

declare bufr_fill.simps [simp del]

definition bufr_Peek :: "nat \<Rightarrow> 'b bufr \<Rightarrow> 'b list \<times> io_error option \<times> 'b bufr" where
  "bufr_Peek n r =
     (let r1 = bufr_fill n r in
      if bufio_size < n then (bf_buf r1, Some ErrBufferFull, r1)
      else if length (bf_buf r1) < n then (bf_buf r1, Some EOF, r1)
      else (take n (bf_buf r1), None, r1))"

definition bufr_Discard :: "nat \<Rightarrow> 'b bufr \<Rightarrow> 'b bufr" where
  "bufr_Discard n r = r\<lparr>bf_buf := drop n (bf_buf r)\<rparr>"

lemma bufr_fill_remaining [simp]: "remaining (bufr_fill n r) = remaining r"
proof (induction n r rule: bufr_fill.induct)
  case (1 n r)
  show ?case
  proof (cases "n \<le> length (bf_buf r) \<or> bufio_size \<le> length (bf_buf r)")
    case False
    show ?thesis
    proof (cases "source_read (bufio_size - length (bf_buf r)) (bf_src r)")
      case (Some x)
      then obtain d src where x: "source_read (bufio_size - length (bf_buf r)) (bf_src r) = Some (d, src)" by (cases x) auto
      then have "remaining (r\<lparr>bf_buf := bf_buf r @ d, bf_src := src\<rparr>) = remaining r"
        using source_read_Some(1) [OF x] by (simp add: remaining_def)
      then show ?thesis using "1.IH" [OF False x refl] False x by (simp add: bufr_fill.simps [of n r])
    qed (simp add: bufr_fill.simps [of n r])
  qed (simp add: bufr_fill.simps [of n r])
qed

lemma bufr_fill_enough:
  "n \<le> bufio_size \<Longrightarrow> n \<le> length (bf_buf (bufr_fill n r)) \<or> bf_buf (bufr_fill n r) = remaining r"
proof (induction n r rule: bufr_fill.induct)
  case (1 n r)
  show ?case
  proof (cases "n \<le> length (bf_buf r) \<or> bufio_size \<le> length (bf_buf r)")
    case True
    then show ?thesis using "1.prems" by (auto simp: bufr_fill.simps [of n r])
  next
    case False
    show ?thesis
    proof (cases "source_read (bufio_size - length (bf_buf r)) (bf_src r)")
      case None
      then have "bufr_fill n r = r" using False by (simp add: bufr_fill.simps [of n r])
      moreover have "concat (bf_src r) = []" using None source_read_None by blast
      ultimately show ?thesis by (simp add: remaining_def)
    next
      case (Some x)
      then obtain d src where x: "source_read (bufio_size - length (bf_buf r)) (bf_src r) = Some (d, src)" by (cases x) auto
      then have "remaining (r\<lparr>bf_buf := bf_buf r @ d, bf_src := src\<rparr>) = remaining r"
        using source_read_Some(1) [OF x] by (simp add: remaining_def)
      then show ?thesis using "1.IH" [OF False x refl "1.prems"] False x by (simp add: bufr_fill.simps [of n r])
    qed
  qed
qed

lemma bufr_Peek_prefix:
  assumes "bufr_Peek n r = (d, e, r')" "n \<le> bufio_size"
  shows "remaining r' = remaining r" "d = take n (remaining r)" "prefix d (bf_buf r')"
proof -
  have r': "r' = bufr_fill n r" using assms by (auto simp: bufr_Peek_def Let_def split: if_splits)
  then show "remaining r' = remaining r" by simp
  have b: "take n (remaining r) = take n (bf_buf r')"
    using bufr_fill_enough [OF assms(2), of r] r'
  proof (elim disjE)
    assume "n \<le> length (bf_buf (bufr_fill n r))"
    then have "take n (remaining (bufr_fill n r)) = take n (bf_buf r')" using r' by (simp add: remaining_def)
    then show ?thesis by simp
  qed simp
  show "d = take n (remaining r)"
    using assms b r' by (auto simp: bufr_Peek_def Let_def split: if_splits)
  then show "prefix d (bf_buf r')" using b by (simp add: take_is_prefix)
qed

text \<open>\<open>io.ReadFull\<close> into a slice of \<open>m\<close> bytes: \<open>EOF\<close> if there are none, \<open>ErrUnexpectedEOF\<close> if
  there are too few.\<close>

lemma bufr_Read_Inr:
  assumes "bufr_Read m r = (Inr d, r')"
  shows "remaining r = d @ remaining r'" and "0 < m \<Longrightarrow> d \<noteq> []" and "length d \<le> m"
proof -
  have src: "concat (bf_src r) = e @ concat src'" "0 < k \<Longrightarrow> e \<noteq> []" "length e \<le> k"
    if "source_read k (bf_src r) = Some (e, src')" for k e src'
    using source_read_Some [OF that] by blast+
  have pos: "0 < bufio_size" by (simp add: bufio_size_def)
  consider "m = 0" "d = []" "r' = r" | "m \<noteq> 0" "bf_buf r \<noteq> []" "d = take m (bf_buf r)" "r' = r\<lparr>bf_buf := drop m (bf_buf r)\<rparr>"
    | src' where "m \<noteq> 0" "bf_buf r = []" "source_read m (bf_src r) = Some (d, src')" "r' = r\<lparr>bf_src := src'\<rparr>"
    | e src' where "m \<noteq> 0" "bf_buf r = []" "source_read bufio_size (bf_src r) = Some (e, src')" "d = take m e"
      "r' = r\<lparr>bf_buf := drop m e, bf_src := src'\<rparr>"
    using assms by (auto simp: bufr_Read_def split: if_splits option.splits)
  then have "remaining r = d @ remaining r' \<and> (0 < m \<longrightarrow> d \<noteq> []) \<and> length d \<le> m"
  proof cases
    case (3 src')
    then show ?thesis using src [OF 3(3)] by (simp add: remaining_def)
  next
    case (4 e src')
    then show ?thesis using src [OF 4(3)] pos by (simp add: remaining_def)
  qed (simp_all add: remaining_def)
  then show "remaining r = d @ remaining r'" "0 < m \<Longrightarrow> d \<noteq> []" "length d \<le> m" by blast+
qed

lemma bufr_Read_Inl:
  assumes "bufr_Read m r = (Inl e, r')"
  shows "e = EOF \<and> remaining r = [] \<and> remaining r' = [] \<and> 0 < m"
  using assms
  by (auto simp: bufr_Read_def remaining_def source_read_None split: if_splits option.splits)

lemma bufr_Read_cases:
  assumes "remaining r \<noteq> []" and "0 < m"
  obtains d r' where "bufr_Read m r = (Inr d, r')" and "d \<noteq> []" and "remaining r = d @ remaining r'"
    and "length d \<le> m"
proof (cases "bufr_Read m r")
  case (Pair x r')
  then show ?thesis
    using that bufr_Read_Inr [of m r _ r'] bufr_Read_Inl [of m r _ r'] assms by (cases x) auto
qed

function bufr_ReadFull_loop :: "nat \<Rightarrow> 'b list \<Rightarrow> 'b bufr \<Rightarrow> (io_error + 'b list) \<times> 'b bufr" where
  "bufr_ReadFull_loop m acc r =
     (if m \<le> length acc then (Inr acc, r)
      else
        (case bufr_Read (m - length acc) r of
           (Inl e, r') \<Rightarrow> (Inl (if acc \<noteq> [] \<and> e = EOF then ErrUnexpectedEOF else e), r')
         | (Inr d, r') \<Rightarrow> bufr_ReadFull_loop m (acc @ d) r'))"
  by pat_completeness auto
termination
proof (relation "measure (\<lambda>(m, acc, r). m - length acc)", goal_cases)
  case (2 m acc r x r' d)
  then have "bufr_Read (m - length acc) r = (Inr d, r')" by simp
  with bufr_Read_Inr(2) [OF this] 2 have "d \<noteq> []" by simp
  with 2 show ?case by (cases d) auto
qed simp

declare bufr_ReadFull_loop.simps [simp del]

definition bufr_ReadFull :: "nat \<Rightarrow> 'b bufr \<Rightarrow> (io_error + 'b list) \<times> 'b bufr" where
  "bufr_ReadFull m r = bufr_ReadFull_loop m [] r"

lemma bufr_ReadSlice_Inr:
  "bufr_ReadSlice delim r = (Inr line, r') \<Longrightarrow>
     remaining r = line @ remaining r' \<and> line \<noteq> []"
proof (induction delim r rule: bufr_ReadSlice.induct)
  case (1 delim r)
  show ?case
  proof (cases "index_byte (bf_buf r) delim")
    case (Some i)
    have "bf_buf r \<noteq> []" using index_byte_Some [OF Some] by auto
    then show ?thesis
      using Some "1.prems" by (auto simp: bufr_ReadSlice.simps [of delim r] remaining_def simp flip: append_assoc)
  next
    case None
    show ?thesis
    proof (cases "bufio_size \<le> length (bf_buf r)")
      case True
      with None "1.prems" show ?thesis by (simp add: bufr_ReadSlice.simps [of delim r])
    next
      case False
      with None "1.prems" obtain d src where
        sr: "source_read (bufio_size - length (bf_buf r)) (bf_src r) = Some (d, src)"
        and rec: "bufr_ReadSlice delim (r\<lparr>bf_buf := bf_buf r @ d, bf_src := src\<rparr>) = (Inr line, r')"
        by (auto simp: bufr_ReadSlice.simps [of delim r] split: option.splits)
      from "1.IH" [OF None False sr refl rec] source_read_Some(1) [OF sr]
      show ?thesis by (simp add: remaining_def)
    qed
  qed
qed

lemma first_delim_eq:
  "c \<notin> set a \<Longrightarrow> c \<notin> set b \<Longrightarrow> a @ c # x = b @ c # y \<Longrightarrow> a = b \<and> x = y"
proof (induction a arbitrary: b)
  case Nil
  then show ?case by (cases b) auto
next
  case (Cons z a)
  then show ?case by (cases b) auto
qed

lemma bufr_ReadSlice_found:
  assumes "remaining r = line @ delim # rest" and "delim \<notin> set line" and "length line < bufio_size"
  shows "\<exists>r'. bufr_ReadSlice delim r = (Inr (line @ [delim]), r') \<and> remaining r' = rest"
  using assms
proof (induction delim r rule: bufr_ReadSlice.induct)
  case (1 delim r)
  show ?case
  proof (cases "index_byte (bf_buf r) delim")
    case (Some i)
    note idx = index_byte_Some [OF Some]
    have buf: "bf_buf r = take i (bf_buf r) @ delim # drop (Suc i) (bf_buf r)"
      using idx id_take_nth_drop [of i "bf_buf r"] by simp
    then have "take i (bf_buf r) @ delim # (drop (Suc i) (bf_buf r) @ concat (bf_src r)) = line @ delim # rest"
      using "1.prems"(1) unfolding remaining_def by (metis append_Cons append_assoc)
    then have "take i (bf_buf r) = line \<and> drop (Suc i) (bf_buf r) @ concat (bf_src r) = rest"
      using idx "1.prems"(2) first_delim_eq by metis
    then show ?thesis
      using Some idx by (simp add: bufr_ReadSlice.simps [of delim r] remaining_def take_Suc_conv_app_nth)
  next
    case None
    then have no: "delim \<notin> set (bf_buf r)" by (simp add: index_byte_None)
    have "prefix (bf_buf r) line"
    proof -
      have "bf_buf r @ concat (bf_src r) = line @ delim # rest" using "1.prems"(1) by (simp add: remaining_def)
      then obtain us where "bf_buf r @ us = line \<or> bf_buf r = line @ us \<and> us @ concat (bf_src r) = delim # rest"
        by (auto simp: append_eq_append_conv2)
      then show ?thesis using no by (cases us) auto
    qed
    then obtain us where us: "line = bf_buf r @ us" by (auto simp: prefix_def)
    with "1.prems"(3) have short: "\<not> bufio_size \<le> length (bf_buf r)" by simp
    have "concat (bf_src r) \<noteq> []" using "1.prems"(1) us by (auto simp: remaining_def)
    then obtain d src where sr: "source_read (bufio_size - length (bf_buf r)) (bf_src r) = Some (d, src)"
      using source_read_None [of "bufio_size - length (bf_buf r)" "bf_src r"] by auto
    have "remaining (r\<lparr>bf_buf := bf_buf r @ d, bf_src := src\<rparr>) = line @ delim # rest"
      using "1.prems"(1) source_read_Some(1) [OF sr] by (simp add: remaining_def)
    from "1.IH" [OF None short sr refl this "1.prems"(2,3)] None short sr
    show ?thesis by (simp add: bufr_ReadSlice.simps [of delim r])
  qed
qed

lemma bufr_ReadFull_loop_Inr:
  "bufr_ReadFull_loop m acc r = (Inr d, r') \<Longrightarrow> acc @ remaining r = d @ remaining r'"
proof (induction m acc r rule: bufr_ReadFull_loop.induct)
  case (1 m acc r)
  show ?case
  proof (cases "m \<le> length acc")
    case True
    with "1.prems" show ?thesis by (simp add: bufr_ReadFull_loop.simps [of m acc r])
  next
    case False
    obtain x r1 where x: "bufr_Read (m - length acc) r = (x, r1)" by fastforce
    with False "1.prems" obtain e where e: "x = Inr e" "bufr_ReadFull_loop m (acc @ e) r1 = (Inr d, r')"
      by (cases x) (auto simp: bufr_ReadFull_loop.simps [of m acc r])
    from "1.IH" [OF False x [symmetric] e] bufr_Read_Inr(1) [OF x [unfolded e(1)]]
    show ?thesis by simp
  qed
qed

lemma bufr_ReadFull_loop_enough:
  "m \<le> length acc + length (remaining r) \<Longrightarrow> length acc \<le> m \<Longrightarrow>
     \<exists>d r'. bufr_ReadFull_loop m acc r = (Inr d, r') \<and> length d = m"
proof (induction m acc r rule: bufr_ReadFull_loop.induct)
  case (1 m acc r)
  show ?case
  proof (cases "m \<le> length acc")
    case True
    with "1.prems" show ?thesis by (simp add: bufr_ReadFull_loop.simps [of m acc r])
  next
    case False
    then have "remaining r \<noteq> []" "0 < m - length acc" using "1.prems" by auto
    then obtain d r1 where d: "bufr_Read (m - length acc) r = (Inr d, r1)" "remaining r = d @ remaining r1"
      "length d \<le> m - length acc" by (rule bufr_Read_cases)
    have "\<exists>d' r'. bufr_ReadFull_loop m (acc @ d) r1 = (Inr d', r') \<and> length d' = m"
      by (rule "1.IH" [OF False d(1) [symmetric] refl]) (use d False "1.prems" in auto)
    with False d(1) show ?thesis by (simp add: bufr_ReadFull_loop.simps [of m acc r])
  qed
qed

lemma bufr_ReadFull_exact:
  assumes "remaining r = d @ rest" and "length d = m"
  shows "\<exists>r'. bufr_ReadFull m r = (Inr d, r') \<and> remaining r' = rest"
proof -
  obtain e r' where e: "bufr_ReadFull m r = (Inr e, r')" "length e = m"
    using bufr_ReadFull_loop_enough [of m "[]" r] assms by (auto simp: bufr_ReadFull_def)
  with bufr_ReadFull_loop_Inr [of m "[]" r e r'] assms show ?thesis
    by (simp add: bufr_ReadFull_def)
qed

lemma bufr_ReadFull_Inr:
  "bufr_ReadFull m r = (Inr d, r') \<Longrightarrow> remaining r = d @ remaining r'"
  using bufr_ReadFull_loop_Inr [of m "[]"] by (simp add: bufr_ReadFull_def)

lemma bufr_ReadFull_loop_length: "bufr_ReadFull_loop m acc r = (Inr d, r') \<Longrightarrow> m \<le> length d"
proof (induction m acc r rule: bufr_ReadFull_loop.induct)
  case (1 m acc r)
  then show ?case
    by (auto simp: bufr_ReadFull_loop.simps [of m acc r] split: if_splits prod.splits sum.splits)
qed

lemma bufr_ReadFull_length: "bufr_ReadFull m r = (Inr d, r') \<Longrightarrow> m \<le> length d"
  using bufr_ReadFull_loop_length by (simp add: bufr_ReadFull_def)

subsection \<open>Writers\<close>

text \<open>
  What the documentation of \<open>io.Writer\<close> promises: a write reports how many of its bytes reached the
  sink, and all of them did when there is no error. \<open>io.WriteString\<close> and \<open>fmt.Fprintf\<close> are one
  write of the bytes.
\<close>

type_synonym ('b, 'w) write_fun = "'b list \<Rightarrow> 'w \<Rightarrow> nat \<times> io_error option \<times> 'w"

locale byte_sink =
  fixes wr :: "('b, 'w) write_fun" and written :: "'w \<Rightarrow> 'b list"
  assumes wr_written: "wr d w = (n, err, w') \<Longrightarrow> written w' = written w @ take n d"
    and wr_short: "wr d w = (n, err, w') \<Longrightarrow> n \<le> length d"
    and wr_full: "wr d w = (n, None, w') \<Longrightarrow> n = length d"
begin

lemma wr_ok: "wr d w = (n, None, w') \<Longrightarrow> written w' = written w @ d"
  using wr_written wr_full by fastforce

text \<open>A sequence of writes that stops at the first error.\<close>

primrec write_all :: "'b list list \<Rightarrow> 'w \<Rightarrow> io_error option \<times> 'w" where
  "write_all [] w = (None, w)"
| "write_all (d # ds) w = (case wr d w of (n, err, w1) \<Rightarrow> if err \<noteq> None then (err, w1) else write_all ds w1)"

lemma write_all_written:
  "write_all ds w = (err, w') \<Longrightarrow>
     \<exists>p q. written w' = written w @ p \<and> concat ds = p @ q \<and> (err = None \<longrightarrow> q = [])"
proof (induction ds arbitrary: w)
  case Nil
  then show ?case by simp
next
  case (Cons d ds)
  obtain n e w1 where w1: "wr d w = (n, e, w1)" by (cases "wr d w")
  show ?case
  proof (cases e)
    case None
    then have "write_all ds w1 = (err, w')" using Cons.prems w1 by simp
    from Cons.IH [OF this] wr_ok [of d w n w1] w1 None show ?thesis by auto
  next
    case (Some x)
    then have r: "err = Some x" "w' = w1" using Cons.prems w1 by simp_all
    have "concat (d # ds) = take n d @ (drop n d @ concat ds)" by simp
    with wr_written [OF w1] r show ?thesis by blast
  qed
qed

end

text \<open>
  \<open>bufio.Writer\<close> over a connection that takes \<open>room\<close> more bytes before it fails, or any number of
  them. Errors are sticky; after a failed flush the bytes not taken stay in the buffer.
\<close>

record 'b bufw =
  bw_buf :: "'b list"
  bw_err :: "io_error option"
  bw_conn :: "'b list"
  bw_room :: "nat option"

definition conn_write :: "'b list \<Rightarrow> 'b bufw \<Rightarrow> nat \<times> io_error option \<times> 'b bufw" where
  "conn_write p b =
     (case bw_room b of
        None \<Rightarrow> (length p, None, b\<lparr>bw_conn := bw_conn b @ p\<rparr>)
      | Some k \<Rightarrow>
          (let n = min k (length p) in
           (n, if n < length p then Some (OtherError ''write: broken pipe'') else None,
            b\<lparr>bw_conn := bw_conn b @ take n p, bw_room := Some (k - n)\<rparr>)))"

definition bufw_Flush :: "'b bufw \<Rightarrow> io_error option \<times> 'b bufw" where
  "bufw_Flush b =
     (if bw_err b \<noteq> None then (bw_err b, b)
      else if bw_buf b = [] then (None, b)
      else
        (case conn_write (bw_buf b) b of
           (n, err, b1) \<Rightarrow>
             (let err1 = (if n < length (bw_buf b) \<and> err = None then Some ErrShortWrite else err) in
              if err1 \<noteq> None then (err1, b1\<lparr>bw_buf := drop n (bw_buf b), bw_err := err1\<rparr>)
              else (None, b1\<lparr>bw_buf := []\<rparr>))))"

lemma conn_write_fields:
  assumes "conn_write p b = (n, err, b')"
  shows "bw_buf b' = bw_buf b" and "bw_err b' = bw_err b" and "bw_conn b' = bw_conn b @ take n p"
    and "n \<le> length p" and "err = None \<Longrightarrow> n = length p"
  using assms by (auto simp: conn_write_def Let_def split: option.splits if_splits)

lemma bufw_Flush_None: "bufw_Flush b = (None, b') \<Longrightarrow> bw_err b = None \<and> bw_err b' = None \<and> bw_buf b' = []"
  by (auto simp: bufw_Flush_def Let_def dest: conn_write_fields(2) split: if_splits prod.splits)

function bufw_Write_loop :: "nat \<Rightarrow> 'b list \<Rightarrow> 'b bufw \<Rightarrow> nat \<times> 'b list \<times> 'b bufw" where
  "bufw_Write_loop nn p b =
     (if length p \<le> bufio_size - length (bw_buf b) \<or> bw_err b \<noteq> None then (nn, p, b)
      else if bw_buf b = [] then
        (case conn_write p b of
           (n, err, b1) \<Rightarrow>
             if err \<noteq> None then (nn + n, drop n p, b1\<lparr>bw_err := err\<rparr>)
             else bufw_Write_loop (nn + n) (drop n p) b1)
      else
        (let n = bufio_size - length (bw_buf b) in
         case bufw_Flush (b\<lparr>bw_buf := bw_buf b @ take n p\<rparr>) of
           (err, b1) \<Rightarrow>
             if err \<noteq> None then (nn + n, drop n p, b1) else bufw_Write_loop (nn + n) (drop n p) b1))"
  by pat_completeness auto
termination
proof (relation "measure (\<lambda>(nn, p, b). length p + length (bw_buf b))", goal_cases)
  case 1
  then show ?case by simp
next
  case (2 nn p b n y err b1)
  then have "conn_write p b = (n, None, b1)" by simp
  from conn_write_fields [OF this] 2 show ?case by (auto simp: not_le intro: le_less_trans)
next
  case (3 nn p b n err b1)
  then have "bufw_Flush (b\<lparr>bw_buf := bw_buf b @ take n p\<rparr>) = (None, b1)" by simp
  from bufw_Flush_None [OF this] have "bw_buf b1 = []" by simp
  moreover have "0 < length (bw_buf b)" using 3 by simp
  ultimately show ?case by (simp only: in_measure prod.case length_drop list.size)
qed

declare bufw_Write_loop.simps [simp del]

definition bufw_Write :: "'b list \<Rightarrow> 'b bufw \<Rightarrow> nat \<times> io_error option \<times> 'b bufw" where
  "bufw_Write p b =
     (case bufw_Write_loop 0 p b of
        (nn, p1, b1) \<Rightarrow>
          if bw_err b1 \<noteq> None then (nn, bw_err b1, b1)
          else (nn + length p1, None, b1\<lparr>bw_buf := bw_buf b1 @ p1\<rparr>))"

definition bufw_written :: "'b bufw \<Rightarrow> 'b list" where
  "bufw_written b = bw_conn b @ bw_buf b"

lemma bufw_Flush_written: "bufw_Flush b = (err, b') \<Longrightarrow> bufw_written b' = bufw_written b"
  by (auto simp: bufw_Flush_def bufw_written_def Let_def dest: conn_write_fields split: if_splits prod.splits)

lemma bufw_Write_loop_written:
  "bufw_Write_loop nn p b = (nn', p', b') \<Longrightarrow>
     \<exists>k \<le> length p. nn' = nn + k \<and> p' = drop k p \<and> bufw_written b' = bufw_written b @ take k p"
proof (induction nn p b rule: bufw_Write_loop.induct)
  case (1 nn p b)
  show ?case
  proof (cases "length p \<le> bufio_size - length (bw_buf b) \<or> bw_err b \<noteq> None")
    case True
    then show ?thesis using "1.prems" by (simp add: bufw_Write_loop.simps [of nn p b])
  next
    case go: False
    show ?thesis
    proof (cases "bw_buf b = []")
      case True
      obtain n err b1 where c: "conn_write p b = (n, err, b1)" by (cases "conn_write p b")
      note f = conn_write_fields [OF c]
      show ?thesis
      proof (cases err)
        case None
        then have "bufw_Write_loop (nn + n) (drop n p) b1 = (nn', p', b')"
          using "1.prems" go True c by (simp add: bufw_Write_loop.simps [of nn p b])
        from "1.IH"(1) [OF go True c [symmetric] refl _ this] None obtain k where
          "k \<le> length (drop n p)" "nn' = nn + n + k" "p' = drop k (drop n p)"
          "bufw_written b' = bufw_written b1 @ take k (drop n p)" by auto
        then show ?thesis using f None True by (auto simp: bufw_written_def)
      next
        case (Some e)
        then have "nn' = nn + n" "p' = drop n p" "b' = b1\<lparr>bw_err := err\<rparr>"
          using "1.prems" go True c by (simp_all add: bufw_Write_loop.simps [of nn p b])
        then show ?thesis using f True by (auto simp: bufw_written_def)
      qed
    next
      case False
      define n where "n = bufio_size - length (bw_buf b)"
      obtain err b1 where c: "bufw_Flush (b\<lparr>bw_buf := bw_buf b @ take n p\<rparr>) = (err, b1)" by fastforce
      have w: "bufw_written b1 = bufw_written b @ take n p"
        using bufw_Flush_written [OF c] by (simp add: bufw_written_def)
      have n: "n < length p" using go by (simp add: n_def)
      show ?thesis
      proof (cases err)
        case None
        then have "bufw_Write_loop (nn + n) (drop n p) b1 = (nn', p', b')"
          using "1.prems" go False c by (simp add: bufw_Write_loop.simps [of nn p b] n_def [symmetric] Let_def)
        from "1.IH"(2) [OF go False n_def c [symmetric] _ this] None obtain k where
          k: "k \<le> length (drop n p)" "nn' = nn + n + k" "p' = drop k (drop n p)"
          "bufw_written b' = bufw_written b1 @ take k (drop n p)" by auto
        have "take (n + k) p = take n p @ take k (drop n p)" by (rule take_add)
        with k w n show ?thesis by (intro exI [of _ "n + k"]) (simp add: add.commute)
      next
        case (Some e)
        then have "nn' = nn + n" "p' = drop n p" "b' = b1"
          using "1.prems" go False c by (simp_all add: bufw_Write_loop.simps [of nn p b] n_def [symmetric] Let_def)
        then show ?thesis using w n by (intro exI [of _ n]) simp
      qed
    qed
  qed
qed

interpretation bw: byte_sink bufw_Write bufw_written
proof (unfold_locales, goal_cases)
  case (1 d w n err w')
  obtain nn p1 b1 where l: "bufw_Write_loop 0 d w = (nn, p1, b1)" by (cases "bufw_Write_loop 0 d w")
  from bufw_Write_loop_written [OF l] have "bufw_written b1 = bufw_written w @ take nn d" "p1 = drop nn d" "nn \<le> length d"
    by auto
  moreover have "bufw_written (b1\<lparr>bw_buf := bw_buf b1 @ p1\<rparr>) = bufw_written b1 @ p1"
    by (simp add: bufw_written_def)
  ultimately show ?case using 1 by (auto simp: bufw_Write_def l split: if_splits)
next
  case (2 d w n err w')
  obtain nn p1 b1 where l: "bufw_Write_loop 0 d w = (nn, p1, b1)" by (cases "bufw_Write_loop 0 d w")
  from bufw_Write_loop_written [OF l] 2 show ?case by (auto simp: bufw_Write_def l split: if_splits)
next
  case (3 d w n w')
  obtain nn p1 b1 where l: "bufw_Write_loop 0 d w = (nn, p1, b1)" by (cases "bufw_Write_loop 0 d w")
  from bufw_Write_loop_written [OF l] 3 show ?case by (auto simp: bufw_Write_def l split: if_splits)
qed

end
