(* ===== verification/Chunked.thy ===== *)
theory Chunked
  imports Bufio
begin

section \<open>The chunked transfer encoding (internal/chunked.go)\<close>

text \<open>
  \<open>chunkedReader\<close> and \<open>chunkedWriter\<close> of \<open>internal/chunked.go\<close>, with chunk sizes as 64-bit words
  and the overhead counter as a signed 64-bit word. The reader is shown to refine reading from
  the abstract byte stream the chunks carry, for every way the source may split the wire bytes
  into blocks and every sequence of buffer sizes; what the writer writes is such a stream.
\<close>

unbundle bit_operations_syntax

subsection \<open>Reading\<close>

definition maxLineLength :: nat where
  "maxLineLength = 4096"

record chunkedReader =
  cr_r :: "char bufr"
  cr_n :: "64 word"
  cr_err :: "io_error option"
  cr_checkEnd :: bool
  cr_excess :: "64 word"

definition NewChunkedReader :: "char bufr \<Rightarrow> chunkedReader" where
  "NewChunkedReader r = \<lparr>cr_r = r, cr_n = 0, cr_err = None, cr_checkEnd = False, cr_excess = 0\<rparr>"

definition readChunkLine :: "char bufr \<Rightarrow> (io_error + string) \<times> char bufr" where
  "readChunkLine b =
     (case bufr_ReadSlice (CHR 0x0A) b of
        (Inl e, b') \<Rightarrow>
          (Inl (if e = EOF then ErrUnexpectedEOF else if e = ErrBufferFull then ErrLineTooLong else e), b')
      | (Inr p, b') \<Rightarrow> if maxLineLength \<le> length p then (Inl ErrLineTooLong, b') else (Inr p, b'))"

definition isASCIISpace :: "char \<Rightarrow> bool" where
  "isASCIISpace b = (b = CHR '' '' \<or> b = CHR 0x09 \<or> b = CHR 0x0A \<or> b = CHR 0x0D)"

function trimTrailingWhitespace :: "string \<Rightarrow> string" where
  "trimTrailingWhitespace b =
     (if b \<noteq> [] \<and> isASCIISpace (last b) then trimTrailingWhitespace (butlast b) else b)"
  by pat_completeness auto
termination
  by (relation "measure length") auto

declare trimTrailingWhitespace.simps [simp del]

definition removeChunkExtension :: "string \<Rightarrow> string" where
  "removeChunkExtension p = fst (cut_byte p (CHR '';''))"

definition hex_byte :: "char \<Rightarrow> nat option" where
  "hex_byte b =
     (if CHR ''0'' \<le> b \<and> b \<le> CHR ''9'' then Some (byte_val b - byte_val (CHR ''0''))
      else if CHR ''a'' \<le> b \<and> b \<le> CHR ''f'' then Some (byte_val b - byte_val (CHR ''a'') + 10)
      else if CHR ''A'' \<le> b \<and> b \<le> CHR ''F'' then Some (byte_val b - byte_val (CHR ''A'') + 10)
      else None)"

fun parseHexUint_loop :: "nat \<Rightarrow> 64 word \<Rightarrow> string \<Rightarrow> io_error + 64 word" where
  "parseHexUint_loop i n [] = Inr n"
| "parseHexUint_loop i n (b # v) =
     (case hex_byte b of
        None \<Rightarrow> Inl (OtherError ''invalid byte in chunk length'')
      | Some d \<Rightarrow>
          if i = 16 then Inl (OtherError ''http chunk length too large'')
          else parseHexUint_loop (Suc i) (push_bit 4 n OR of_nat d) v)"

definition parseHexUint :: "string \<Rightarrow> io_error + 64 word" where
  "parseHexUint v =
     (if v = [] then Inl (OtherError ''empty hex number for chunk length'')
      else parseHexUint_loop 0 0 v)"

text \<open>\<open>cr.excess -= 16 + 2*int64(cr.n); cr.excess = max(cr.excess, 0)\<close>.\<close>

definition spend_excess :: "64 word \<Rightarrow> 64 word \<Rightarrow> 64 word" where
  "spend_excess excess n = (let e = excess - (16 + 2 * n) in if sint e < 0 then 0 else e)"

definition beginChunk :: "chunkedReader \<Rightarrow> chunkedReader" where
  "beginChunk cr =
     (case readChunkLine (cr_r cr) of
        (Inl e, r) \<Rightarrow> cr\<lparr>cr_r := r, cr_err := Some e\<rparr>
      | (Inr line, r) \<Rightarrow>
          let cr1 = cr\<lparr>cr_r := r, cr_excess := cr_excess cr + (of_nat (length line) + 2)\<rparr> in
          (case parseHexUint (removeChunkExtension (trimTrailingWhitespace line)) of
             Inl e \<Rightarrow> cr1\<lparr>cr_n := 0, cr_err := Some e\<rparr>
           | Inr n \<Rightarrow>
               let e2 = spend_excess (cr_excess cr1) n;
                   err1 = (if sint e2 > 16 * 1024
                           then Some (OtherError ''chunked encoding contains too much non-data'') else None);
                   err2 = (if n = 0 then Some EOF else err1)
               in cr1\<lparr>cr_n := n, cr_excess := e2, cr_err := err2\<rparr>))"

definition chunkHeaderAvailable :: "chunkedReader \<Rightarrow> bool" where
  "chunkHeaderAvailable cr =
     (let n = bufr_Buffered (cr_r cr) in
      if n > 0 then index_byte (bf_buf (cr_r cr)) (CHR 0x0A) \<noteq> None else False)"

text \<open>The two bytes after a chunk, read when \<open>checkEnd\<close> is set; the flag says whether the loop goes on.\<close>

definition check_end :: "chunkedReader \<Rightarrow> chunkedReader \<times> bool" where
  "check_end cr =
     (case bufr_ReadFull 2 (cr_r cr) of
        (Inl e, r) \<Rightarrow> (cr\<lparr>cr_r := r, cr_err := Some (if e = EOF then ErrUnexpectedEOF else e)\<rparr>, False)
      | (Inr d, r) \<Rightarrow>
          if d \<noteq> [CHR 0x0D, CHR 0x0A]
          then (cr\<lparr>cr_r := r, cr_err := Some (OtherError ''malformed chunked encoding'')\<rparr>, False)
          else (cr\<lparr>cr_r := r, cr_checkEnd := False\<rparr>, True))"

lemma readChunkLine_Inr:
  assumes "readChunkLine b = (Inr p, b')"
  shows "remaining b = p @ remaining b'" and "p \<noteq> []"
proof -
  have "bufr_ReadSlice (CHR 0x0A) b = (Inr p, b')"
    using assms by (auto simp: readChunkLine_def split: prod.splits sum.splits if_splits)
  from bufr_ReadSlice_Inr [OF this] show "remaining b = p @ remaining b'" "p \<noteq> []" by auto
qed

lemma beginChunk_shrinks:
  assumes "cr_err (beginChunk cr) = None"
  shows "length (remaining (cr_r (beginChunk cr))) < length (remaining (cr_r cr))"
proof (cases "readChunkLine (cr_r cr)")
  case (Pair x r)
  then obtain p where p: "readChunkLine (cr_r cr) = (Inr p, r)"
    using assms by (cases x) (simp_all add: beginChunk_def)
  then have "cr_r (beginChunk cr) = r"
    by (auto simp: beginChunk_def Let_def split: sum.split)
  with readChunkLine_Inr [OF p] show ?thesis by simp
qed

lemma check_end_shrinks: "check_end cr = (cr', True) \<Longrightarrow> length (remaining (cr_r cr')) \<le> length (remaining (cr_r cr))"
  by (auto simp: check_end_def dest!: bufr_ReadFull_Inr split: prod.splits sum.splits if_splits)

text \<open>
  \<open>Read\<close> into a slice of \<open>m\<close> bytes, of which \<open>out\<close> are filled: the bytes read and the state.
  The loop ends because every round that goes on takes a byte from the source.
\<close>

function Read_loop :: "nat \<Rightarrow> string \<Rightarrow> chunkedReader \<Rightarrow> string \<times> chunkedReader" where
  "Read_loop m out cr =
     (if cr_err cr \<noteq> None then (out, cr)
      else if cr_checkEnd cr \<and> out \<noteq> [] \<and> bufr_Buffered (cr_r cr) < 2 then (out, cr)
      else
        case (if cr_checkEnd cr then check_end cr else (cr, True)) of
          (cr1, go_on) \<Rightarrow>
            if \<not> go_on then (out, cr1)
            else if cr_n cr1 = 0 then
              (if out \<noteq> [] \<and> \<not> chunkHeaderAvailable cr1 then (out, cr1)
               else if cr_err (beginChunk cr1) \<noteq> None then (out, beginChunk cr1)
               else Read_loop m out (beginChunk cr1))
            else if m \<le> length out then (out, cr1)
            else
              (case bufr_Read (min (m - length out) (unat (cr_n cr1))) (cr_r cr1) of
                 (Inl e, r) \<Rightarrow>
                   (out, cr1\<lparr>cr_r := r, cr_err := Some (if e = EOF then ErrUnexpectedEOF else e)\<rparr>)
               | (Inr d, r) \<Rightarrow>
                   let n = cr_n cr1 - of_nat (length d) in
                   Read_loop m (out @ d) (cr1\<lparr>cr_r := r, cr_n := n, cr_checkEnd := (n = 0)\<rparr>)))"
  by pat_completeness auto
termination
proof (relation "measure (\<lambda>(m, out, cr). length (remaining (cr_r cr)))", goal_cases)
  case 1
  then show ?case by simp
next
  case (2 m out cr cr1 go_on)
  have "length (remaining (cr_r cr1)) \<le> length (remaining (cr_r cr))"
    using 2 check_end_shrinks [of cr cr1] by (auto split: if_splits)
  with beginChunk_shrinks [of cr1] 2 show ?case by simp
next
  case (3 m out cr cr1 go_on s r d n)
  have le: "length (remaining (cr_r cr1)) \<le> length (remaining (cr_r cr))"
    using 3 check_end_shrinks [of cr cr1] by (auto split: if_splits)
  have "bufr_Read (min (m - length out) (unat (cr_n cr1))) (cr_r cr1) = (Inr d, r)" using 3 by simp
  note rd = bufr_Read_Inr [OF this]
  have "0 < min (m - length out) (unat (cr_n cr1))" using 3 by (simp add: unat_gt_0)
  then have "d \<noteq> []" using rd(2) by simp
  with rd(1) le show ?case by (cases d) auto
qed

declare Read_loop.simps [simp del]

definition cr_Read :: "nat \<Rightarrow> chunkedReader \<Rightarrow> string \<times> io_error option \<times> chunkedReader" where
  "cr_Read m cr = (case Read_loop m [] cr of (out, cr') \<Rightarrow> (out, cr_err cr', cr'))"

subsection \<open>Chunk sizes\<close>

lemma hex_step:
  assumes "d < 16"
  shows "push_bit 4 n OR of_nat d = n * 16 + (of_nat d :: 64 word)"
proof -
  have t: "take_bit 4 d = d" using assms by (simp add: take_bit_nat_eq_self_iff)
  have "\<not> bit d k" if "4 \<le> k" for k using t that by (metis bit_take_bit_iff not_less)
  then have "push_bit 4 n AND (of_nat d :: 64 word) = 0"
    by (intro bit_word_eqI) (auto simp: bit_simps)
  then have "push_bit 4 n OR (of_nat d :: 64 word) = push_bit 4 n + of_nat d"
    by (simp add: disjunctive_add_eq_or)
  then show ?thesis by (simp add: push_bit_eq_mult)
qed

lemma hex_step_unat:
  assumes "d < 16" and "unat (n :: 64 word) < 2 ^ 60"
  shows "unat (push_bit 4 n OR of_nat d) = 16 * unat n + d"
proof -
  have "unat (n * 16 + (of_nat d :: 64 word)) = 16 * unat n + d"
    using assms by (simp add: unat_word_ariths unat_of_nat)
  then show ?thesis by (simp only: hex_step [OF assms(1)])
qed

definition hex_num :: "nat \<Rightarrow> string \<Rightarrow> nat" where
  "hex_num = foldl (\<lambda>a b. 16 * a + the (hex_byte b))"

lemma hex_byte_less: "hex_byte b = Some d \<Longrightarrow> d < 16"
  by (auto simp: hex_byte_def less_eq_char_def split: if_splits)

lemma parseHexUint_loop_correct:
  assumes "\<forall>b \<in> set v. hex_byte b \<noteq> None" and "i + length v \<le> 16" and "unat n < 16 ^ i"
  shows "\<exists>w. parseHexUint_loop i n v = Inr w \<and> unat w = hex_num (unat n) v"
  using assms
proof (induction v arbitrary: i n)
  case Nil
  then show ?case by (simp add: hex_num_def)
next
  case (Cons b v)
  then obtain d where d: "hex_byte b = Some d" by auto
  note d16 = hex_byte_less [OF d]
  have "i \<le> 15" using Cons.prems(2) by simp
  then have "(16 :: nat) ^ i \<le> 16 ^ 15" by (intro power_increasing) simp_all
  then have "unat n < 2 ^ 60" using Cons.prems(3) by simp
  from hex_step_unat [OF d16 this] have u: "unat (push_bit 4 n OR of_nat d) = 16 * unat n + d" .
  have "\<exists>w. parseHexUint_loop (Suc i) (push_bit 4 n OR of_nat d) v = Inr w \<and>
      unat w = hex_num (unat (push_bit 4 n OR of_nat d)) v"
    by (rule Cons.IH) (use Cons.prems d16 u in auto)
  then show ?case using d u \<open>i \<le> 15\<close> by (simp add: hex_num_def)
qed

lemma parseHexUint_loop_too_long:
  "\<forall>b \<in> set v. hex_byte b \<noteq> None \<Longrightarrow> i \<le> 16 \<Longrightarrow> 16 < i + length v \<Longrightarrow>
     parseHexUint_loop i n v = Inl (OtherError ''http chunk length too large'')"
  by (induction v arbitrary: i n) (auto split: option.splits)

lemma parseHexUint_loop_bad:
  "b \<in> set v \<Longrightarrow> hex_byte b = None \<Longrightarrow> \<exists>e. parseHexUint_loop i n v = Inl e"
  by (induction v arbitrary: i n) (auto split: option.split)

text \<open>\<open>parseHexUint\<close> accepts exactly the strings of 1 to 16 hexadecimal digits and returns
  their value, which the 64-bit accumulator holds without wrapping.\<close>

theorem parseHexUint_correct:
  "if v \<noteq> [] \<and> length v \<le> 16 \<and> (\<forall>b \<in> set v. hex_byte b \<noteq> None)
   then \<exists>w. parseHexUint v = Inr w \<and> unat w = hex_num 0 v
   else \<exists>e. parseHexUint v = Inl e"
proof (cases "v = [] \<or> (\<exists>b \<in> set v. hex_byte b = None)")
  case True
  then show ?thesis using parseHexUint_loop_bad by (fastforce simp: parseHexUint_def)
next
  case False
  then show ?thesis
    using parseHexUint_loop_correct [of v 0 0] parseHexUint_loop_too_long [of v 0 0]
    by (auto simp: parseHexUint_def)
qed

subsection \<open>What the writer puts on the wire\<close>

text \<open>The verb \<open>%x\<close> of \<open>fmt.Fprintf\<close> for a non-negative int.\<close>

definition hex_char :: "nat \<Rightarrow> char" where
  "hex_char d = ''0123456789abcdef'' ! d"

fun fmt_hex :: "nat \<Rightarrow> string" where
  "fmt_hex n = (if n < 16 then [hex_char n] else fmt_hex (n div 16) @ [hex_char (n mod 16)])"

declare fmt_hex.simps [simp del]

lemma hex_byte_char: "d < 16 \<Longrightarrow> hex_byte (hex_char d) = Some d"
proof -
  assume "d < 16"
  then have "d \<in> set [0 ..< 16]" by simp
  moreover have "list_all (\<lambda>d. hex_byte (hex_char d) = Some d) [0 ..< 16]" by code_simp
  ultimately show ?thesis unfolding list_all_iff by blast
qed

lemma fmt_hex_digits: "\<forall>b \<in> set (fmt_hex n). hex_byte b \<noteq> None" and fmt_hex_value: "hex_num 0 (fmt_hex n) = n"
proof (induction n rule: fmt_hex.induct)
  case (1 n)
  {
    case 1
    show ?case using "1.IH"(1) by (subst fmt_hex.simps) (auto simp: hex_byte_char)
  next
    case 2
    show ?case using "1.IH"(2) by (subst fmt_hex.simps) (auto simp: hex_num_def hex_byte_char)
  }
qed

lemma fmt_hex_length: "n < 16 ^ k \<Longrightarrow> 0 < k \<Longrightarrow> length (fmt_hex n) \<le> k"
proof (induction n arbitrary: k rule: fmt_hex.induct)
  case (1 n)
  show ?case
  proof (cases "n < 16")
    case True
    with "1.prems" show ?thesis by (subst fmt_hex.simps) simp
  next
    case False
    with "1.prems" obtain j where j: "k = Suc j" "0 < j" by (cases k; cases "k - 1") auto
    have "n div 16 < 16 ^ j" using "1.prems"(1) j by (simp add: less_mult_imp_div_less mult.commute)
    from "1.IH" [OF False this j(2)] show ?thesis using False j by (subst fmt_hex.simps) simp
  qed
qed

lemma fmt_hex_not_Nil [simp]: "fmt_hex n \<noteq> []"
  by (subst fmt_hex.simps) simp

definition crlf :: string where
  "crlf = [CHR 0x0D, CHR 0x0A]"

definition chunk_wire :: "string \<Rightarrow> string" where
  "chunk_wire d = fmt_hex (length d) @ crlf @ d @ crlf"

definition chunks_wire :: "string list \<Rightarrow> string \<Rightarrow> string" where
  "chunks_wire ds rest = concat (map chunk_wire ds) @ ''0'' @ crlf @ rest"

lemma trim_hex:
  assumes "h \<noteq> []" and "hex_byte (last h) \<noteq> None"
  shows "trimTrailingWhitespace (h @ crlf) = h"
proof -
  have "\<not> isASCIISpace (last h)"
    using assms(2) by (auto simp: isASCIISpace_def hex_byte_def less_eq_char_def)
  with assms(1) show ?thesis
    by (simp add: trimTrailingWhitespace.simps crlf_def butlast_append isASCIISpace_def)
qed

lemma hex_bytes_plain:
  assumes "\<forall>b \<in> set h. hex_byte b \<noteq> None"
  shows "CHR 0x0A \<notin> set h" and "CHR '';'' \<notin> set h"
proof -
  have "hex_byte (CHR 0x0A) = None" "hex_byte (CHR '';'') = None"
    by (simp_all add: hex_byte_def less_eq_char_def)
  with assms show "CHR 0x0A \<notin> set h" "CHR '';'' \<notin> set h" by metis+
qed

lemma readChunkLine_wire:
  assumes h: "\<forall>b \<in> set h. hex_byte b \<noteq> None" "length h \<le> 16" and r: "remaining r = h @ crlf @ rest"
  shows "\<exists>r'. readChunkLine r = (Inr (h @ crlf), r') \<and> remaining r' = rest"
proof -
  have r2: "remaining r = (h @ [CHR 0x0D]) @ CHR 0x0A # rest" using r by (simp add: crlf_def)
  have "CHR 0x0A \<notin> set (h @ [CHR 0x0D])" using hex_bytes_plain(1) [OF h(1)] by simp
  moreover have "length (h @ [CHR 0x0D]) < bufio_size" using h(2) by (simp add: bufio_size_def)
  ultimately obtain r' where "bufr_ReadSlice (CHR 0x0A) r = (Inr ((h @ [CHR 0x0D]) @ [CHR 0x0A]), r')" "remaining r' = rest"
    using bufr_ReadSlice_found [OF r2] by blast
  then show ?thesis using h(2) by (simp add: readChunkLine_def maxLineLength_def crlf_def)
qed

text \<open>The overhead of a chunk with a minimal header stays below what the chunk pays for.\<close>

lemma small_zero:
  assumes "n < 2 ^ 61"
  shows "(of_nat n :: 64 word) = 0 \<longleftrightarrow> n = 0"
proof -
  have "unat (of_nat n :: 64 word) = n" using assms by (simp add: unat_of_nat)
  then show ?thesis by (metis unat_eq_0)
qed

lemma sint_small:
  assumes "- (2 ^ 63) \<le> z" and "z < 2 ^ 63"
  shows "sint (word_of_int z :: 64 word) = z"
proof -
  have "sint (word_of_int z :: 64 word) = signed_take_bit 63 z" by transfer simp
  with assms show ?thesis by (simp add: signed_take_bit_int_eq_self)
qed

lemma chunk_overhead:
  assumes "n < 2 ^ 61"
  shows "spend_excess (0 + (of_nat (length (fmt_hex n @ crlf)) + 2)) (of_nat n) = 0"
proof -
  have len: "length (fmt_hex n) \<le> 16" using fmt_hex_length [of n 16] assms by simp
  have "length (fmt_hex n) \<le> 12 + 2 * n"
    using len fmt_hex_length [of n 12] by (cases "n < 16 ^ 12") auto
  then have z: "int (length (fmt_hex n)) - 12 - 2 * int n \<le> 0" by linarith
  let ?z = "int (length (fmt_hex n)) - 12 - 2 * int n"
  have e: "0 + (of_nat (length (fmt_hex n @ crlf)) + 2) - (16 + 2 * (of_nat n :: 64 word)) = word_of_int ?z"
    by (simp add: crlf_def algebra_simps)
  have "- (2 ^ 63) \<le> ?z" using assms by simp
  with z have "sint (word_of_int ?z :: 64 word) = ?z"
    by (intro sint_small) simp_all
  with z show ?thesis unfolding spend_excess_def Let_def e by (cases "?z = 0") auto
qed

lemma beginChunk_wire:
  assumes n: "n < 2 ^ 61" and r: "remaining (cr_r cr) = fmt_hex n @ crlf @ rest" and ex: "cr_excess cr = 0"
  shows "\<exists>r'. remaining r' = rest \<and>
    beginChunk cr = cr\<lparr>cr_r := r', cr_n := of_nat n, cr_excess := 0, cr_err := (if n = 0 then Some EOF else None)\<rparr>"
proof -
  let ?h = "fmt_hex n"
  have len: "length ?h \<le> 16" using fmt_hex_length [of n 16] n by simp
  obtain r' where r': "readChunkLine (cr_r cr) = (Inr (?h @ crlf), r')" "remaining r' = rest"
    using readChunkLine_wire [OF fmt_hex_digits len r] by blast
  have "hex_byte (last ?h) \<noteq> None" using fmt_hex_digits [of n] by simp
  then have line: "removeChunkExtension (trimTrailingWhitespace (?h @ crlf)) = ?h"
    using trim_hex [of ?h] hex_bytes_plain(2) [OF fmt_hex_digits]
    by (simp add: removeChunkExtension_def cut_byte_not_found)
  obtain w where w: "parseHexUint ?h = Inr w" "unat w = n"
    using parseHexUint_loop_correct [of ?h 0 0] fmt_hex_digits [of n] fmt_hex_value [of n] len
    by (auto simp: parseHexUint_def)
  have w': "w = of_nat n" unfolding w(2) [symmetric] by simp
  have zero: "(of_nat n :: 64 word) = 0 \<longleftrightarrow> n = 0" by (rule small_zero [OF n])
  have "beginChunk cr = cr\<lparr>cr_r := r', cr_n := of_nat n, cr_excess := 0, cr_err := (if n = 0 then Some EOF else None)\<rparr>"
    unfolding beginChunk_def r'(1) prod.case sum.case line w(1) Let_def w'
    using chunk_overhead [OF n] zero by (simp add: ex del: of_nat_add length_append)
  with r'(2) show ?thesis by blast
qed

subsection \<open>The reader refines the abstract stream\<close>

text \<open>
  The reader is about to deliver \<open>data\<close> and then \<open>io.EOF\<close>, leaving \<open>rest\<close> unread. Between chunks,
  before the line break that ends a chunk, and inside a chunk.
\<close>

definition chunks_ok :: "string list \<Rightarrow> bool" where
  "chunks_ok ds = (\<forall>d \<in> set ds. d \<noteq> [] \<and> length d < 2 ^ 61)"

definition at_header :: "chunkedReader \<Rightarrow> string \<Rightarrow> string \<Rightarrow> bool" where
  "at_header cr data rest = (\<not> cr_checkEnd cr \<and> cr_n cr = 0 \<and>
     (\<exists>ds. chunks_ok ds \<and> remaining (cr_r cr) = chunks_wire ds rest \<and> data = concat ds))"

definition at_end :: "chunkedReader \<Rightarrow> string \<Rightarrow> string \<Rightarrow> bool" where
  "at_end cr data rest = (cr_checkEnd cr \<and> cr_n cr = 0 \<and>
     (\<exists>ds. chunks_ok ds \<and> remaining (cr_r cr) = crlf @ chunks_wire ds rest \<and> data = concat ds))"

definition in_chunk :: "chunkedReader \<Rightarrow> string \<Rightarrow> string \<Rightarrow> bool" where
  "in_chunk cr data rest = (\<not> cr_checkEnd cr \<and> (\<exists>d ds. chunks_ok (d # ds) \<and> cr_n cr = of_nat (length d) \<and>
     remaining (cr_r cr) = d @ crlf @ chunks_wire ds rest \<and> data = d @ concat ds))"

definition stream_state :: "chunkedReader \<Rightarrow> string \<Rightarrow> string \<Rightarrow> bool" where
  "stream_state cr data rest = (cr_err cr = None \<and> cr_excess cr = 0 \<and>
     (at_header cr data rest \<or> at_end cr data rest \<or> in_chunk cr data rest))"

lemma unat_len: "length d < 2 ^ 61 \<Longrightarrow> unat (of_nat (length d) :: 64 word) = length d"
  by (simp add: unat_of_nat)

lemma in_chunk_n: "in_chunk cr data rest \<Longrightarrow> cr_n cr \<noteq> 0"
  using small_zero by (auto simp: in_chunk_def chunks_ok_def)

lemma check_end_stream:
  assumes "stream_state cr data rest" and "cr_checkEnd cr"
  shows "\<exists>cr1. check_end cr = (cr1, True) \<and> stream_state cr1 data rest \<and> \<not> cr_checkEnd cr1"
proof -
  obtain ds where ds: "chunks_ok ds" "remaining (cr_r cr) = crlf @ chunks_wire ds rest" "data = concat ds"
    "cr_n cr = 0" "cr_err cr = None" "cr_excess cr = 0"
    using assms by (auto simp: stream_state_def at_header_def at_end_def in_chunk_def)
  obtain r' where "bufr_ReadFull 2 (cr_r cr) = (Inr crlf, r')" "remaining r' = chunks_wire ds rest"
    using bufr_ReadFull_exact [OF ds(2), of 2] by (auto simp: crlf_def)
  then show ?thesis
    using ds by (auto simp: check_end_def crlf_def stream_state_def at_header_def)
qed

lemma beginChunk_stream:
  assumes s: "stream_state cr data rest" and c: "\<not> cr_checkEnd cr" "cr_n cr = 0"
  shows "(cr_err (beginChunk cr) = Some EOF \<and> data = [] \<and> remaining (cr_r (beginChunk cr)) = rest) \<or>
    (stream_state (beginChunk cr) data rest \<and> in_chunk (beginChunk cr) data rest)"
proof -
  obtain ds where ds: "chunks_ok ds" "remaining (cr_r cr) = chunks_wire ds rest" "data = concat ds" "cr_excess cr = 0"
    using s c in_chunk_n [of cr data rest] by (auto simp: stream_state_def at_header_def at_end_def)
  show ?thesis
  proof (cases ds)
    case Nil
    have "remaining (cr_r cr) = fmt_hex 0 @ crlf @ rest"
      using ds(2) Nil by (simp add: chunks_wire_def fmt_hex.simps hex_char_def)
    from beginChunk_wire [OF _ this ds(4)] Nil ds(3) show ?thesis by auto
  next
    case (Cons d es)
    then have d: "d \<noteq> []" "length d < 2 ^ 61" using ds(1) by (auto simp: chunks_ok_def)
    have "remaining (cr_r cr) = fmt_hex (length d) @ crlf @ (d @ crlf @ chunks_wire es rest)"
      using ds(2) Cons by (simp add: chunks_wire_def chunk_wire_def)
    from beginChunk_wire [OF d(2) this ds(4)] obtain r' where
      "remaining r' = d @ crlf @ chunks_wire es rest"
      "beginChunk cr = cr\<lparr>cr_r := r', cr_n := of_nat (length d), cr_excess := 0, cr_err := None\<rparr>"
      using d(1) by auto
    then have "in_chunk (beginChunk cr) data rest" "cr_err (beginChunk cr) = None" "cr_excess (beginChunk cr) = 0"
      using ds Cons c(1) by (auto simp: in_chunk_def)
    then show ?thesis by (simp add: stream_state_def)
  qed
qed

lemma chunk_data_stream:
  assumes s: "stream_state cr data rest" and c: "\<not> cr_checkEnd cr" "cr_n cr \<noteq> 0" and k: "0 < k"
  shows "\<exists>d r. bufr_Read (min k (unat (cr_n cr))) (cr_r cr) = (Inr d, r) \<and> d \<noteq> [] \<and> length d \<le> k \<and>
    (\<exists>data'. data = d @ data' \<and>
       stream_state (cr\<lparr>cr_r := r, cr_n := cr_n cr - of_nat (length d), cr_checkEnd := (cr_n cr - of_nat (length d) = 0)\<rparr>) data' rest)"
proof -
  obtain e es where e: "chunks_ok (e # es)" "cr_n cr = of_nat (length e)"
    "remaining (cr_r cr) = e @ crlf @ chunks_wire es rest" "data = e @ concat es"
    "cr_err cr = None" "cr_excess cr = 0"
    using s c by (auto simp: stream_state_def at_header_def at_end_def in_chunk_def)
  then have el: "e \<noteq> []" "length e < 2 ^ 61" by (auto simp: chunks_ok_def)
  have un: "unat (cr_n cr) = length e" using e(2) unat_len [OF el(2)] by simp
  have "remaining (cr_r cr) \<noteq> []" "0 < min k (unat (cr_n cr))" using e(3) el k un by auto
  then obtain d r where d: "bufr_Read (min k (unat (cr_n cr))) (cr_r cr) = (Inr d, r)" "d \<noteq> []"
    "remaining (cr_r cr) = d @ remaining r" "length d \<le> min k (unat (cr_n cr))" by (rule bufr_Read_cases)
  then have dl: "length d \<le> k" "length d \<le> length e" using un by auto
  have "d @ remaining r = e @ crlf @ chunks_wire es rest" using d(3) e(3) by simp
  then obtain f where f: "e = d @ f" "remaining r = f @ crlf @ chunks_wire es rest"
    using dl(2) by (auto simp: append_eq_append_conv2)
  have n: "cr_n cr - of_nat (length d) = of_nat (length f)" using e(2) f(1) by simp
  have fl: "length f < 2 ^ 61" using el(2) f(1) by simp
  have z: "(of_nat (length f) :: 64 word) = 0 \<longleftrightarrow> f = []"
    using small_zero [OF fl] by simp
  let ?cr = "cr\<lparr>cr_r := r, cr_n := of_nat (length f), cr_checkEnd := (f = [])\<rparr>"
  have "stream_state ?cr (f @ concat es) rest"
  proof (cases "f = []")
    case True
    then have "at_end ?cr (f @ concat es) rest" using f e(1) by (auto simp: at_end_def chunks_ok_def)
    with e show ?thesis by (simp add: stream_state_def)
  next
    case False
    then have "in_chunk ?cr (f @ concat es) rest"
      using f e(1) fl by (auto simp: in_chunk_def chunks_ok_def intro!: exI [of _ f] exI [of _ es])
    with e show ?thesis by (simp add: stream_state_def)
  qed
  then show ?thesis
    using d(1,2) dl(1) e(4) f(1) n z by (intro exI [of _ d] exI [of _ r]) simp
qed

text \<open>What one call delivers: a prefix of the stream, and the state it leaves.\<close>

definition delivers :: "nat \<Rightarrow> string \<Rightarrow> string \<Rightarrow> string \<Rightarrow> string \<times> chunkedReader \<Rightarrow> bool" where
  "delivers m out data rest res =
     (case res of (out', cr') \<Rightarrow>
        \<exists>got data'. out' = out @ got \<and> data = got @ data' \<and> (got \<noteq> [] \<longrightarrow> length out' \<le> m) \<and>
          (if cr_err cr' = None then stream_state cr' data' rest \<and> (out = [] \<and> 0 < m \<longrightarrow> got \<noteq> [])
           else cr_err cr' = Some EOF \<and> data' = [] \<and> remaining (cr_r cr') = rest))"

lemma stream_state_err: "stream_state cr data rest \<Longrightarrow> cr_err cr = None"
  by (simp add: stream_state_def)

lemma delivers_stop:
  "stream_state cr data rest \<Longrightarrow> out \<noteq> [] \<or> m = 0 \<Longrightarrow> delivers m out data rest (out, cr)"
  by (auto simp: delivers_def stream_state_err)

lemma delivers_more:
  assumes "delivers m (out @ d) data' rest (out', cr')" and "data = d @ data'" and "d \<noteq> []" and "length (out @ d) \<le> m"
  shows "delivers m out data rest (out', cr')"
proof -
  obtain got data'' where g: "out' = (out @ d) @ got" "data' = got @ data''" "got \<noteq> [] \<longrightarrow> length out' \<le> m"
    and c: "if cr_err cr' = None then stream_state cr' data'' rest \<and> (out @ d = [] \<and> 0 < m \<longrightarrow> got \<noteq> [])
     else cr_err cr' = Some EOF \<and> data'' = [] \<and> remaining (cr_r cr') = rest"
    using assms(1) unfolding delivers_def by auto
  have "out' = out @ (d @ got)" "data = (d @ got) @ data''" using g assms(2) by simp_all
  moreover have "length out' \<le> m" using g(1,3) assms(4) by (cases "got = []") simp_all
  moreover have "if cr_err cr' = None then stream_state cr' data'' rest \<and> (out = [] \<and> 0 < m \<longrightarrow> d @ got \<noteq> [])
     else cr_err cr' = Some EOF \<and> data'' = [] \<and> remaining (cr_r cr') = rest"
    using c assms(3) by (simp split: if_splits)
  ultimately show ?thesis unfolding delivers_def by blast
qed

text \<open>One round of the loop, by the way it leaves it.\<close>

lemma Read_loop_round:
  assumes "cr_err cr = None" and "\<not> (cr_checkEnd cr \<and> out \<noteq> [] \<and> bufr_Buffered (cr_r cr) < 2)"
    and "(if cr_checkEnd cr then check_end cr else (cr, True)) = (cr1, True)"
  shows "cr_n cr1 = 0 \<Longrightarrow> Read_loop m out cr =
      (if out \<noteq> [] \<and> \<not> chunkHeaderAvailable cr1 then (out, cr1)
       else if cr_err (beginChunk cr1) \<noteq> None then (out, beginChunk cr1)
       else Read_loop m out (beginChunk cr1))"
    and "cr_n cr1 \<noteq> 0 \<Longrightarrow> m \<le> length out \<Longrightarrow> Read_loop m out cr = (out, cr1)"
    and "cr_n cr1 \<noteq> 0 \<Longrightarrow> \<not> m \<le> length out \<Longrightarrow>
      bufr_Read (min (m - length out) (unat (cr_n cr1))) (cr_r cr1) = (Inr d, r) \<Longrightarrow>
      Read_loop m out cr = Read_loop m (out @ d) (cr1\<lparr>cr_r := r, cr_n := cr_n cr1 - of_nat (length d),
         cr_checkEnd := (cr_n cr1 - of_nat (length d) = 0)\<rparr>)"
  unfolding Read_loop.simps [of m out cr] assms(3) prod.case using assms(1,2)
  by (simp_all only: if_False if_True simp_thms sum.case prod.case Let_def)

lemma Read_loop_stream:
  "stream_state cr data rest \<Longrightarrow> delivers m out data rest (Read_loop m out cr)"
proof (induction m out cr arbitrary: data rule: Read_loop.induct)
  case (1 m out cr)
  let ?cr = "if cr_checkEnd cr then check_end cr else (cr, True)"
  have e0: "cr_err cr = None" by (rule stream_state_err [OF "1.prems"])
  then have err: "\<not> cr_err cr \<noteq> None" by simp
  show ?case
  proof (cases "cr_checkEnd cr \<and> out \<noteq> [] \<and> bufr_Buffered (cr_r cr) < 2")
    case True
    then have "Read_loop m out cr = (out, cr)" using err by (simp add: Read_loop.simps [of m out cr])
    then show ?thesis using delivers_stop [OF "1.prems"] True by simp
  next
    case noexit: False
    obtain cr1 where cr1: "?cr = (cr1, True)" and s: "stream_state cr1 data rest" and ce: "\<not> cr_checkEnd cr1"
      using "1.prems" check_end_stream [OF "1.prems"] by (cases "cr_checkEnd cr") auto
    have ntrue: "\<not> \<not> True" by simp
    show ?thesis
    proof (cases "cr_n cr1 = 0")
      case n0: True
      show ?thesis
      proof (cases "out \<noteq> [] \<and> \<not> chunkHeaderAvailable cr1")
        case True
        then have "Read_loop m out cr = (out, cr1)"
          using Read_loop_round(1) [OF e0 noexit cr1 n0] by simp
        then show ?thesis using delivers_stop [OF s] True by simp
      next
        case noheader: False
        have loop: "Read_loop m out cr =
            (if cr_err (beginChunk cr1) \<noteq> None then (out, beginChunk cr1) else Read_loop m out (beginChunk cr1))"
          using Read_loop_round(1) [OF e0 noexit cr1 n0] noheader by simp
        from beginChunk_stream [OF s ce n0] show ?thesis
        proof
          assume "cr_err (beginChunk cr1) = Some EOF \<and> data = [] \<and> remaining (cr_r (beginChunk cr1)) = rest"
          then show ?thesis unfolding loop by (simp add: delivers_def)
        next
          assume st: "stream_state (beginChunk cr1) data rest \<and> in_chunk (beginChunk cr1) data rest"
          have e: "\<not> cr_err (beginChunk cr1) \<noteq> None" using stream_state_err [OF conjunct1 [OF st]] by simp
          from "1.IH"(1) [OF err noexit cr1 [symmetric] ntrue n0 noheader e] st e
          show ?thesis unfolding loop by simp
        qed
      qed
    next
      case n: False
      show ?thesis
      proof (cases "m \<le> length out")
        case True
        then have "Read_loop m out cr = (out, cr1)"
          by (rule Read_loop_round(2) [OF e0 noexit cr1 n])
        then show ?thesis using delivers_stop [OF s] True by (cases "out = []") simp_all
      next
        case room: False
        then have k: "0 < m - length out" by simp
        obtain d r data' where d: "bufr_Read (min (m - length out) (unat (cr_n cr1))) (cr_r cr1) = (Inr d, r)"
          "d \<noteq> []" "length d \<le> m - length out" "data = d @ data'"
          and st: "stream_state (cr1\<lparr>cr_r := r, cr_n := cr_n cr1 - of_nat (length d),
             cr_checkEnd := (cr_n cr1 - of_nat (length d) = 0)\<rparr>) data' rest"
          using chunk_data_stream [OF s ce n k] by blast
        have loop: "Read_loop m out cr = Read_loop m (out @ d) (cr1\<lparr>cr_r := r, cr_n := cr_n cr1 - of_nat (length d),
             cr_checkEnd := (cr_n cr1 - of_nat (length d) = 0)\<rparr>)"
          by (rule Read_loop_round(3) [OF e0 noexit cr1 n room d(1)])
        obtain out' cr' where res: "Read_loop m (out @ d) (cr1\<lparr>cr_r := r, cr_n := cr_n cr1 - of_nat (length d),
             cr_checkEnd := (cr_n cr1 - of_nat (length d) = 0)\<rparr>) = (out', cr')" by fastforce
        show ?thesis
          unfolding loop res
          by (rule delivers_more [OF "1.IH"(2) [OF err noexit cr1 [symmetric] ntrue n room d(1) [symmetric] refl refl st, unfolded res] d(4,2)])
            (use d(3) room in simp)
      qed
    qed
  qed
qed

lemma cr_Read_delivers:
  assumes "stream_state cr data rest" and "cr_Read m cr = (out, err, cr')"
  shows "delivers m [] data rest (out, cr') \<and> err = cr_err cr'"
  using assms(2) Read_loop_stream [OF assms(1), of m "[]"] by (auto simp: cr_Read_def split: prod.splits)

text \<open>C8: the chunked reader refines reading from the abstract stream its wire bytes carry. From a
  reader about to deliver \<open>data\<close> and then \<open>io.EOF\<close>, one \<open>Read\<close> into a slice of \<open>m\<close> bytes
  returns at most \<open>m\<close> bytes that start \<open>data\<close>, and either leaves a reader about to deliver
  the others, having made progress when \<open>m\<close> is positive, or reports \<open>io.EOF\<close> with nothing left to deliver
  and the bytes after the last chunk unread.\<close>

theorem cr_Read_refines_stream:
  assumes "stream_state cr data rest" and "cr_Read m cr = (out, err, cr')"
  shows "\<exists>data'. data = out @ data' \<and> length out \<le> m \<and>
    (case err of
       None \<Rightarrow> stream_state cr' data' rest \<and> (0 < m \<longrightarrow> out \<noteq> [])
     | Some e \<Rightarrow> e = EOF \<and> data' = [] \<and> remaining (cr_r cr') = rest)"
  using cr_Read_delivers [OF assms] unfolding delivers_def by (cases "cr_err cr'") fastforce+

subsection \<open>Writing\<close>

text \<open>
  \<open>chunkedWriter.Write\<close> and \<open>Close\<close> over the wire's write function \<open>wr\<close>. \<open>fl\<close> is the flush of
  a wire that is a \<open>FlushAfterChunkWriter\<close>, \<open>None\<close> for any other wire.
\<close>

definition cw_Write :: "(char, 'w) write_fun \<Rightarrow> ('w \<Rightarrow> io_error option \<times> 'w) option \<Rightarrow> (char, 'w) write_fun" where
  "cw_Write wr fl data w =
     (if data = [] then (0, None, w)
      else (case wr (fmt_hex (length data) @ crlf) w of (_, err, w1) \<Rightarrow>
        if err \<noteq> None then (0, err, w1)
        else (case wr data w1 of (n, err, w2) \<Rightarrow>
          if err \<noteq> None then (n, err, w2)
          else if n \<noteq> length data then (n, Some ErrShortWrite, w2)
          else (case wr crlf w2 of (_, err, w3) \<Rightarrow>
            if err \<noteq> None then (n, err, w3)
            else (case fl of
                None \<Rightarrow> (n, None, w3)
              | Some flush \<Rightarrow> (case flush w3 of (err, w4) \<Rightarrow> (n, err, w4)))))))"

definition cw_Close :: "(char, 'w) write_fun \<Rightarrow> 'w \<Rightarrow> io_error option \<times> 'w" where
  "cw_Close wr w = (case wr (''0'' @ crlf) w of (_, err, w1) \<Rightarrow> (err, w1))"

text \<open>A body written by several calls and closed, stopping at the first error.\<close>

primrec cw_body :: "(char, 'w) write_fun \<Rightarrow> ('w \<Rightarrow> io_error option \<times> 'w) option \<Rightarrow> string list \<Rightarrow> 'w \<Rightarrow> io_error option \<times> 'w" where
  "cw_body wr fl [] w = cw_Close wr w"
| "cw_body wr fl (d # ds) w =
     (case cw_Write wr fl d w of (_, err, w1) \<Rightarrow> if err \<noteq> None then (err, w1) else cw_body wr fl ds w1)"

text \<open>A wire whose flush keeps the bytes written.\<close>

locale chunk_wire_sink = byte_sink wr written for wr :: "(char, 'w) write_fun" and written :: "'w \<Rightarrow> string" +
  fixes fl :: "('w \<Rightarrow> io_error option \<times> 'w) option"
  assumes flush_written: "fl = Some flush \<Longrightarrow> flush w = (err, w') \<Longrightarrow> written w' = written w"
begin

lemma cw_Write_ok:
  assumes "cw_Write wr fl d w = (n, None, w')"
  shows "n = length d" and "written w' = written w @ (if d = [] then [] else chunk_wire d)"
proof -
  have "n = length d \<and> written w' = written w @ (if d = [] then [] else chunk_wire d)"
  proof (cases "d = []")
    case True
    then show ?thesis using assms by (simp add: cw_Write_def)
  next
    case False
    obtain n1 w1 n2 w2 n3 w3 where
      w: "wr (fmt_hex (length d) @ crlf) w = (n1, None, w1)" "wr d w1 = (n2, None, w2)" "wr crlf w2 = (n3, None, w3)"
        "n2 = length d"
      using assms False unfolding cw_Write_def by (auto split: prod.splits if_splits)
    have s: "written w3 = written w @ chunk_wire d"
      using w(1-3) [THEN wr_ok] by (simp add: chunk_wire_def)
    show ?thesis
    proof (cases fl)
      case None
      then show ?thesis using assms False w s by (simp add: cw_Write_def)
    next
      case (Some flush)
      then obtain e w4 where "flush w3 = (e, w4)" "w' = w4" "n = length d"
        using assms False w by (auto simp: cw_Write_def split: prod.splits)
      then show ?thesis using flush_written [OF Some] s False by simp
    qed
  qed
  then show "n = length d" "written w' = written w @ (if d = [] then [] else chunk_wire d)" by simp_all
qed

lemma cw_body_ok:
  "cw_body wr fl ds w = (None, w') \<Longrightarrow> written w' @ rest = written w @ chunks_wire (filter (\<lambda>d. d \<noteq> []) ds) rest"
proof (induction ds arbitrary: w)
  case Nil
  then obtain n where "wr (''0'' @ crlf) w = (n, None, w')" by (auto simp: cw_Close_def split: prod.splits)
  from wr_ok [OF this] show ?case by (simp add: chunks_wire_def)
next
  case (Cons d ds)
  then obtain n w1 where w1: "cw_Write wr fl d w = (n, None, w1)" "cw_body wr fl ds w1 = (None, w')"
    by (auto split: prod.splits if_splits)
  from Cons.IH [OF w1(2)] cw_Write_ok(2) [OF w1(1)] show ?case by (auto simp: chunks_wire_def)
qed

end

interpretation bcw: chunk_wire_sink bufw_Write bufw_written "Some bufw_Flush"
  by unfold_locales (auto dest: bufw_Flush_written)

text \<open>Reading a stream to its end, with buffers of the given sizes.\<close>

fun cr_ReadAll :: "nat list \<Rightarrow> chunkedReader \<Rightarrow> string \<times> io_error option \<times> chunkedReader" where
  "cr_ReadAll [] cr = ([], None, cr)"
| "cr_ReadAll (m # ms) cr =
     (case cr_Read m cr of
        (out, Some e, cr') \<Rightarrow> (out, Some e, cr')
      | (out, None, cr') \<Rightarrow> (case cr_ReadAll ms cr' of (out2, e, cr2) \<Rightarrow> (out @ out2, e, cr2)))"

lemma cr_ReadAll_stream:
  "stream_state cr data rest \<Longrightarrow> length data < length (filter (\<lambda>m. 0 < m) ms) \<Longrightarrow>
     \<exists>cr'. cr_ReadAll ms cr = (data, Some EOF, cr') \<and> remaining (cr_r cr') = rest"
proof (induction ms arbitrary: cr data)
  case Nil
  then show ?case by simp
next
  case (Cons m ms)
  obtain out err cr' where rd: "cr_Read m cr = (out, err, cr')" by (cases "cr_Read m cr")
  from cr_Read_delivers [OF Cons.prems(1) rd] obtain data' where d: "data = out @ data'" "err = cr_err cr'"
    and c: "if cr_err cr' = None then stream_state cr' data' rest \<and> (0 < m \<longrightarrow> out \<noteq> [])
      else cr_err cr' = Some EOF \<and> data' = [] \<and> remaining (cr_r cr') = rest"
    unfolding delivers_def by (cases "cr_err cr'") auto
  show ?case
  proof (cases "cr_err cr'")
    case None
    have "length data' < length (filter (\<lambda>m. 0 < m) ms)"
      using Cons.prems(2) c None d(1) by (cases "0 < m"; cases out) auto
    moreover have "stream_state cr' data' rest" using c None by simp
    ultimately obtain cr2 where "cr_ReadAll ms cr' = (data', Some EOF, cr2)" "remaining (cr_r cr2) = rest"
      using Cons.IH by blast
    with None d rd show ?thesis by simp
  next
    case (Some e)
    with c d rd show ?thesis by simp
  qed
qed

lemma new_reader_stream:
  "chunks_ok ds \<Longrightarrow> remaining r = chunks_wire ds rest \<Longrightarrow> stream_state (NewChunkedReader r) (concat ds) rest"
  by (auto simp: stream_state_def at_header_def NewChunkedReader_def)

text \<open>C9: what the chunked writer writes, the chunked reader reads back. When a body written in
  any number of writes and closed over a buffered connection reports no error, a reader over the
  bytes written, however the source splits them into blocks and whatever follows them, returns the
  body and then \<open>io.EOF\<close>, and leaves what follows unread, provided it is called often enough with
  a buffer that is not empty.\<close>

theorem chunked_roundtrip:
  assumes body: "cw_body bufw_Write (Some bufw_Flush) ds w = (None, w')" and w: "bufw_written w = []"
    and len: "\<forall>d \<in> set ds. length d < 2 ^ 61"
    and r: "remaining r = bufw_written w' @ rest"
    and ms: "length (concat ds) < length (filter (\<lambda>m. 0 < m) ms)"
  shows "\<exists>cr'. cr_ReadAll ms (NewChunkedReader r) = (concat ds, Some EOF, cr') \<and> remaining (cr_r cr') = rest"
proof -
  let ?ds = "filter (\<lambda>d. d \<noteq> []) ds"
  have c: "concat ?ds = concat ds" by (induction ds) auto
  have "chunks_ok ?ds" using len by (auto simp: chunks_ok_def)
  moreover have "remaining r = chunks_wire ?ds rest" using r bcw.cw_body_ok [OF body, of rest] w by simp
  ultimately have "stream_state (NewChunkedReader r) (concat ds) rest" using new_reader_stream c by metis
  with ms show ?thesis by (rule cr_ReadAll_stream [rotated])
qed

subsection \<open>Reading ends\<close>

text \<open>A round that goes on or stops without an error takes at least the bytes it returns from the source.\<close>

lemma Read_loop_progress:
  "Read_loop m out cr = (out', cr') \<Longrightarrow> cr_err cr' = None \<Longrightarrow>
     \<exists>got. out' = out @ got \<and> length (remaining (cr_r cr')) + length got \<le> length (remaining (cr_r cr)) \<and> (0 < m \<longrightarrow> out' \<noteq> [])"
proof (induction m out cr rule: Read_loop.induct)
  case (1 m out cr)
  have err: "\<not> cr_err cr \<noteq> None"
  proof
    assume "cr_err cr \<noteq> None"
    then have "Read_loop m out cr = (out, cr)" by (simp add: Read_loop.simps [of m out cr])
    then show False using "1.prems" \<open>cr_err cr \<noteq> None\<close> by simp
  qed
  show ?case
  proof (cases "cr_checkEnd cr \<and> out \<noteq> [] \<and> bufr_Buffered (cr_r cr) < 2")
    case True
    then show ?thesis using "1.prems" err by (simp add: Read_loop.simps [of m out cr])
  next
    case noexit: False
    obtain cr1 go_on where c: "(if cr_checkEnd cr then check_end cr else (cr, True)) = (cr1, go_on)"
      by (cases "if cr_checkEnd cr then check_end cr else (cr, True)")
    have stop: "\<not> go_on \<Longrightarrow> cr_err cr1 \<noteq> None"
      using c by (auto simp: check_end_def split: if_splits prod.splits sum.splits)
    have "go_on"
    proof (rule ccontr)
      assume "\<not> go_on"
      then have "Read_loop m out cr = (out, cr1)" using err noexit unfolding Read_loop.simps [of m out cr] c prod.case
        by (simp only: if_False if_True simp_thms)
      then show False using stop [OF \<open>\<not> go_on\<close>] "1.prems" by simp
    qed
    then have c1: "(if cr_checkEnd cr then check_end cr else (cr, True)) = (cr1, True)" using c by simp
    have le: "length (remaining (cr_r cr1)) \<le> length (remaining (cr_r cr))"
      using c1 check_end_shrinks [of cr cr1] by (auto split: if_splits)
    have e0: "cr_err cr = None" using err by simp
    have nt: "\<not> \<not> True" by simp
    note round = Read_loop_round [OF e0 noexit c1]
    show ?thesis
    proof (cases "cr_n cr1 = 0")
      case n0: True
      show ?thesis
      proof (cases "out \<noteq> [] \<and> \<not> chunkHeaderAvailable cr1")
        case True
        then show ?thesis using round(1) [OF n0, of m] "1.prems" le by simp
      next
        case go: False
        then have ne: "\<not> cr_err (beginChunk cr1) \<noteq> None" and eq: "Read_loop m out (beginChunk cr1) = (out', cr')"
          using round(1) [OF n0, of m] "1.prems" by (auto split: if_splits)
        from "1.IH"(1) [OF err noexit c1 [symmetric] nt n0 go ne eq "1.prems"(2)] beginChunk_shrinks [of cr1] ne le
        show ?thesis by fastforce
      qed
    next
      case n: False
      show ?thesis
      proof (cases "m \<le> length out")
        case True
        then show ?thesis using round(2) [OF n True] "1.prems" le by auto
      next
        case room: False
        obtain x r where x: "bufr_Read (min (m - length out) (unat (cr_n cr1))) (cr_r cr1) = (x, r)" by fastforce
        have "\<exists>d. x = Inr d"
        proof (rule ccontr)
          assume "\<nexists>d. x = Inr d"
          then obtain e where e: "x = Inl e" by (cases x) auto
          have "Read_loop m out cr = (out, cr1\<lparr>cr_r := r, cr_err := Some (if e = EOF then ErrUnexpectedEOF else e)\<rparr>)"
            using e0 noexit n room x e unfolding Read_loop.simps [of m out cr] c1 prod.case
            by (simp only: if_False if_True simp_thms sum.case prod.case)
          then show False using "1.prems"(1,2) by auto
        qed
        then obtain d where d: "bufr_Read (min (m - length out) (unat (cr_n cr1))) (cr_r cr1) = (Inr d, r)" using x by blast
        have eq: "Read_loop m (out @ d) (cr1\<lparr>cr_r := r, cr_n := cr_n cr1 - of_nat (length d),
            cr_checkEnd := (cr_n cr1 - of_nat (length d) = 0)\<rparr>) = (out', cr')"
          using round(3) [OF n room d] "1.prems"(1) by simp
        from "1.IH"(2) [OF err noexit c1 [symmetric] nt n room d [symmetric] refl refl eq "1.prems"(2)] bufr_Read_Inr(1) [OF d] le
        show ?thesis by fastforce
      qed
    qed
  qed
qed

text \<open>C18: reading a chunked body always ends. Over any input at all, well formed or hostile, a reader that is
  called with buffers that are not empty reports an error, \<open>io.EOF\<close> or another one, after at most one call
  more than there are bytes in the input.\<close>

theorem chunked_reader_ends:
  assumes "length (remaining (cr_r cr)) < length (filter (\<lambda>m. 0 < m) ms)"
  shows "\<exists>out e cr'. cr_ReadAll ms cr = (out, Some e, cr')"
  using assms
proof (induction ms arbitrary: cr)
  case (Cons m ms)
  obtain out err cr' where rd: "cr_Read m cr = (out, err, cr')" by (cases "cr_Read m cr")
  show ?case
  proof (cases err)
    case None
    have "Read_loop m [] cr = (out, cr')" "cr_err cr' = None"
      using rd None by (auto simp: cr_Read_def split: prod.splits)
    from Read_loop_progress [OF this] have le: "length (remaining (cr_r cr')) + length out \<le> length (remaining (cr_r cr))"
      and ne: "0 < m \<longrightarrow> out \<noteq> []" by auto
    have "length (remaining (cr_r cr')) < length (filter (\<lambda>m. 0 < m) ms)"
      using le ne Cons.prems by (cases "0 < m"; cases out) auto
    from Cons.IH [OF this] rd None show ?thesis by (auto split: prod.splits)
  next
    case (Some e)
    then show ?thesis using rd by simp
  qed
qed simp

theorem parseHexUint_correct_witness:
  "\<exists>w. parseHexUint ''1aF'' = Inr w \<and> unat w = 431"
proof -
  have "hex_byte (CHR ''1'') = Some 1" "hex_byte (CHR ''a'') = Some 10" "hex_byte (CHR ''F'') = Some 15"
    by (simp_all add: hex_byte_def less_eq_char_def)
  then show ?thesis using parseHexUint_correct [of "''1aF''"] by (simp add: hex_num_def)
qed

theorem chunked_reader_ends_witness:
  "\<exists>out e cr'. cr_ReadAll [1, 0, 5, 7] (NewChunkedReader \<lparr>bf_buf = ''z'', bf_src = [''!'']\<rparr>) = (out, Some e, cr')"
  by (rule chunked_reader_ends) (simp add: NewChunkedReader_def remaining_def)

definition example_reader :: "char bufr" where
  "example_reader = \<lparr>bf_buf = [], bf_src = [''3'', crlf @ ''a'', ''bc'' @ crlf @ ''0'' @ crlf @ ''x'']\<rparr>"

lemma example_stream: "stream_state (NewChunkedReader example_reader) ''abc'' ''x''"
  using new_reader_stream [of "[''abc'']" example_reader "''x''"]
  by (simp add: chunks_ok_def remaining_def example_reader_def chunks_wire_def chunk_wire_def fmt_hex.simps hex_char_def)

theorem cr_Read_refines_stream_witness:
  "\<exists>out err cr' data'. cr_Read 2 (NewChunkedReader example_reader) = (out, err, cr') \<and>
     ''abc'' = out @ data' \<and> length out \<le> 2"
proof -
  obtain out err cr' where "cr_Read 2 (NewChunkedReader example_reader) = (out, err, cr')"
    by (cases "cr_Read 2 (NewChunkedReader example_reader)")
  with cr_Read_refines_stream [OF example_stream this] show ?thesis by blast
qed

definition example_writer :: "char bufw" where
  "example_writer = \<lparr>bw_buf = [], bw_err = None, bw_conn = [], bw_room = Some 100\<rparr>"

theorem chunked_roundtrip_witness:
  "\<exists>w' cr'. cw_body bufw_Write (Some bufw_Flush) [''abc'', [], ''d''] example_writer = (None, w') \<and>
     cr_ReadAll [1, 0, 1, 9, 9, 9] (NewChunkedReader \<lparr>bf_buf = [], bf_src = [bufw_written w', ''x'']\<rparr>)
       = (''abcd'', Some EOF, cr') \<and> remaining (cr_r cr') = ''x''"
proof -
  obtain w' where w': "cw_body bufw_Write (Some bufw_Flush) [''abc'', [], ''d''] example_writer = (None, w')"
    by (simp add: cw_Write_def cw_Close_def bufw_Write_def bufw_Write_loop.simps bufw_Flush_def conn_write_def
        example_writer_def bufio_size_def fmt_hex.simps hex_char_def crlf_def)
  let ?r = "\<lparr>bf_buf = [], bf_src = [bufw_written w', ''x'']\<rparr>"
  have "\<exists>cr'. cr_ReadAll [1, 0, 1, 9, 9, 9] (NewChunkedReader ?r) = (concat [''abc'', [], ''d''], Some EOF, cr') \<and>
      remaining (cr_r cr') = ''x''"
    by (rule chunked_roundtrip [OF w']) (simp_all add: example_writer_def bufw_written_def remaining_def)
  with w' show ?thesis by auto
qed

end
