(* ===== verification/Bytes.thy ===== *)
theory Bytes
  imports Prelude
begin

section \<open>Bytes and big-endian integers\<close>

text \<open>
  Bytes as 8-bit words, and the big-endian encodings of the standard library
  (\<open>encoding/binary\<close>) that the wire formats use, with their round trips.
\<close>

unbundle bit_operations_syntax

type_synonym byte = "8 word"

definition put_uint16 :: "16 word \<Rightarrow> byte list" where
  "put_uint16 v = [ucast (drop_bit 8 v), ucast v]"

definition put_uint24 :: "32 word \<Rightarrow> byte list" where
  "put_uint24 v = [ucast (drop_bit 16 v), ucast (drop_bit 8 v), ucast v]"

definition put_uint32 :: "32 word \<Rightarrow> byte list" where
  "put_uint32 v = [ucast (drop_bit 24 v), ucast (drop_bit 16 v), ucast (drop_bit 8 v), ucast v]"

text \<open>The readers take the first bytes of the slice; the source calls them on slices that are long
  enough.\<close>

fun get_uint16 :: "byte list \<Rightarrow> 16 word" where
  "get_uint16 (a # b # _) = push_bit 8 (ucast a) OR ucast b"
| "get_uint16 _ = 0"

fun get_uint24 :: "byte list \<Rightarrow> 32 word" where
  "get_uint24 (a # b # c # _) = push_bit 16 (ucast a) OR push_bit 8 (ucast b) OR ucast c"
| "get_uint24 _ = 0"

fun get_uint32 :: "byte list \<Rightarrow> 32 word" where
  "get_uint32 (a # b # c # d # _) =
     push_bit 24 (ucast a) OR push_bit 16 (ucast b) OR push_bit 8 (ucast c) OR ucast d"
| "get_uint32 _ = 0"

lemma put_uint_lengths [simp]:
  "length (put_uint16 v) = 2" "length (put_uint24 w) = 3" "length (put_uint32 w) = 4"
  by (simp_all add: put_uint16_def put_uint24_def put_uint32_def)

lemma get_put_uint16 [simp]: "get_uint16 (put_uint16 v @ rest) = v"
  unfolding put_uint16_def by (simp, intro bit_word_eqI) (auto simp: bit_simps)

lemma get_put_uint32 [simp]: "get_uint32 (put_uint32 v @ rest) = v"
proof (rule bit_word_eqI)
  fix n
  assume "n < LENGTH(32)"
  then consider "n < 8" | "8 \<le> n" "n < 16" | "16 \<le> n" "n < 24" | "24 \<le> n" "n < 32" by fastforce
  then show "bit (get_uint32 (put_uint32 v @ rest)) n = bit v n"
    by cases (auto simp: put_uint32_def bit_simps)
qed

lemma get_put_uint24:
  assumes "v < 2 ^ 24"
  shows "get_uint24 (put_uint24 v @ rest) = v"
proof (rule bit_word_eqI)
  have "unat v < 2 ^ 24" using assms by (simp add: word_less_nat_alt)
  then have "take_bit 24 v = v" by (simp add: take_bit_eq_mod word_arith_nat_mod)
  then have hi: "24 \<le> n \<Longrightarrow> \<not> bit v n" for n by (metis bit_take_bit_iff not_less)
  fix n
  assume "n < LENGTH(32)"
  then consider "n < 8" | "8 \<le> n" "n < 16" | "16 \<le> n" "n < 24" | "24 \<le> n" by fastforce
  then show "bit (get_uint24 (put_uint24 v @ rest)) n = bit v n"
    by cases (auto simp: put_uint24_def bit_simps hi)
qed

lemma put_uint_not_Nil [simp]: "put_uint16 v \<noteq> []" "put_uint24 w \<noteq> []" "put_uint32 w \<noteq> []"
  by (simp_all add: put_uint16_def put_uint24_def put_uint32_def)

lemma put_get_uint32: "put_uint32 (get_uint32 [a, b, c, d]) = [a, b, c, d]"
  unfolding put_uint32_def list.inject by (intro conjI refl bit_word_eqI) (auto simp: bit_simps dest: bit_imp_le_length)

end
