(* ===== verification/Strconv.thy ===== *)
theory Strconv
  imports Prelude
begin

section \<open>Decimal numbers (strconv)\<close>

text \<open>
  \<open>strconv.Itoa\<close>, \<open>ParseUint\<close>, \<open>ParseInt\<close> and \<open>Atoi\<close> in base 10, as the program uses them,
  and the facts that printing and parsing are inverse and that parsing is bounded by the bit size.
\<close>

datatype num_error = ErrSyntax | ErrRange

definition dec_char :: "nat \<Rightarrow> char" where
  "dec_char d = ''0123456789'' ! d"

definition dec_byte :: "char \<Rightarrow> nat option" where
  "dec_byte c = (if CHR ''0'' \<le> c \<and> c \<le> CHR ''9'' then Some (byte_val c - 48) else None)"

fun fmt_nat :: "nat \<Rightarrow> string" where
  "fmt_nat n = (if n < 10 then [dec_char n] else fmt_nat (n div 10) @ [dec_char (n mod 10)])"

declare fmt_nat.simps [simp del]

definition fmt_int :: "int \<Rightarrow> string" where
  "fmt_int z = (if z < 0 then CHR ''-'' # fmt_nat (nat (- z)) else fmt_nat (nat z))"

definition dec_num :: "nat \<Rightarrow> string \<Rightarrow> nat" where
  "dec_num = foldl (\<lambda>a c. 10 * a + the (dec_byte c))"

definition all_digits :: "string \<Rightarrow> bool" where
  "all_digits s = list_all (\<lambda>c. dec_byte c \<noteq> None) s"

text \<open>\<open>ParseUint(s, 10, bits)\<close>.\<close>

definition parse_uint :: "nat \<Rightarrow> string \<Rightarrow> num_error + nat" where
  "parse_uint bits s =
     (if s = [] \<or> \<not> all_digits s then Inl ErrSyntax
      else if 2 ^ bits \<le> dec_num 0 s then Inl ErrRange
      else Inr (dec_num 0 s))"

text \<open>\<open>ParseInt(s, 10, bits)\<close> with its optional sign.\<close>

definition parse_int :: "nat \<Rightarrow> string \<Rightarrow> num_error + int" where
  "parse_int bits s =
     (let neg = (s \<noteq> [] \<and> hd s = CHR ''-'');
          u = (if s \<noteq> [] \<and> (hd s = CHR ''-'' \<or> hd s = CHR ''+'') then tl s else s)
      in case parse_uint bits u of
           Inl e \<Rightarrow> Inl e
         | Inr n \<Rightarrow>
             if neg then (if 2 ^ (bits - 1) < n then Inl ErrRange else Inr (- int n))
             else (if 2 ^ (bits - 1) \<le> n then Inl ErrRange else Inr (int n)))"

definition go_Atoi :: "string \<Rightarrow> num_error + int" where
  "go_Atoi s = parse_int 64 s"

lemma dec_byte_char: "d < 10 \<Longrightarrow> dec_byte (dec_char d) = Some d"
proof -
  assume "d < 10"
  then have "d \<in> set [0 ..< 10]" by simp
  moreover have "list_all (\<lambda>d. dec_byte (dec_char d) = Some d) [0 ..< 10]" by code_simp
  ultimately show ?thesis unfolding list_all_iff by blast
qed

lemma fmt_nat_digits: "all_digits (fmt_nat n)" and fmt_nat_value: "dec_num 0 (fmt_nat n) = n"
proof (induction n rule: fmt_nat.induct)
  case (1 n)
  {
    case 1
    show ?case using "1.IH"(1) by (subst fmt_nat.simps) (auto simp: dec_byte_char all_digits_def)
  next
    case 2
    show ?case using "1.IH"(2) by (subst fmt_nat.simps) (auto simp: dec_num_def dec_byte_char)
  }
qed

lemma fmt_nat_not_Nil [simp]: "fmt_nat n \<noteq> []"
  by (subst fmt_nat.simps) simp

lemma fmt_nat_plain: "c \<in> set (fmt_nat n) \<Longrightarrow> CHR ''0'' \<le> c \<and> c \<le> CHR ''9''"
  using fmt_nat_digits [of n] by (auto simp: all_digits_def list_all_iff dec_byte_def split: if_splits)

lemma fmt_nat_avoids: "dec_byte c = None \<Longrightarrow> c \<notin> set (fmt_nat n)"
  using fmt_nat_digits [of n] by (auto simp: all_digits_def list_all_iff)

lemma parse_uint_fmt [simp]: "n < 2 ^ bits \<Longrightarrow> parse_uint bits (fmt_nat n) = Inr n"
  by (simp add: parse_uint_def fmt_nat_digits fmt_nat_value)

lemma parse_uint_bound: "parse_uint bits s = Inr n \<Longrightarrow> n < 2 ^ bits \<and> all_digits s \<and> s \<noteq> [] \<and> n = dec_num 0 s"
  by (auto simp: parse_uint_def split: if_splits)

lemma parse_int_bound:
  assumes "parse_int 64 s = Inr z"
  shows "- (2 ^ 63) \<le> z" and "z < 2 ^ 63"
proof -
  obtain n where "z = - int n \<and> \<not> 2 ^ 63 < n \<or> z = int n \<and> \<not> 2 ^ 63 \<le> n"
    using assms by (auto simp: parse_int_def Let_def split: sum.splits if_splits)
  then show "- (2 ^ 63) \<le> z" "z < 2 ^ 63" by auto
qed

lemma hd_fmt_nat: "hd (fmt_nat n) \<noteq> CHR ''-''" "hd (fmt_nat n) \<noteq> CHR ''+''"
proof -
  have "hd (fmt_nat n) \<in> set (fmt_nat n)" by simp
  from fmt_nat_plain [OF this] show "hd (fmt_nat n) \<noteq> CHR ''-''" "hd (fmt_nat n) \<noteq> CHR ''+''"
    by (auto simp: less_eq_char_def)
qed

lemma parse_int_fmt:
  assumes "- (2 ^ 63) \<le> z" and "z < 2 ^ 63"
  shows "parse_int 64 (fmt_int z) = Inr z"
proof (cases "z < 0")
  case True
  then have "nat (- z) < 2 ^ 64" "nat (- z) \<le> 2 ^ 63" using assms by simp_all
  with True show ?thesis by (simp add: fmt_int_def parse_int_def)
next
  case False
  then have "nat z < 2 ^ 64" "nat z < 2 ^ 63" using assms by simp_all
  with False show ?thesis by (simp add: fmt_int_def parse_int_def hd_fmt_nat)
qed

end
