(* ===== verification/Http2_Frame.thy ===== *)
theory Http2_Frame
  imports Bufio Bytes Strconv
begin

section \<open>HTTP/2 frames: types and parsers (h2_bundle.go)\<close>

text \<open>
  Frame headers, the eleven frame types and the parser of each, as \<open>http2typeFrameParser\<close> selects
  them. Frames are values: the sharing of payload buffers between a frame and the framer, and the
  \<open>valid\<close> flag that guards it, are not modelled. A parse error carries the token the parser hands
  to \<open>countError\<close>.
\<close>

subsection \<open>Error codes and errors\<close>

type_synonym http2_ErrCode = "32 word"

abbreviation (input) ErrCodeNo :: http2_ErrCode where "ErrCodeNo \<equiv> 0x0"
abbreviation (input) ErrCodeProtocol :: http2_ErrCode where "ErrCodeProtocol \<equiv> 0x1"
abbreviation (input) ErrCodeInternal :: http2_ErrCode where "ErrCodeInternal \<equiv> 0x2"
abbreviation (input) ErrCodeFlowControl :: http2_ErrCode where "ErrCodeFlowControl \<equiv> 0x3"
abbreviation (input) ErrCodeStreamClosed :: http2_ErrCode where "ErrCodeStreamClosed \<equiv> 0x5"
abbreviation (input) ErrCodeFrameSize :: http2_ErrCode where "ErrCodeFrameSize \<equiv> 0x6"
abbreviation (input) ErrCodeRefusedStream :: http2_ErrCode where "ErrCodeRefusedStream \<equiv> 0x7"
abbreviation (input) ErrCodeCompression :: http2_ErrCode where "ErrCodeCompression \<equiv> 0x9"
abbreviation (input) ErrCodeEnhanceYourCalm :: http2_ErrCode where "ErrCodeEnhanceYourCalm \<equiv> 0xb"

text \<open>What can be wrong with a decoded header field; a stream error may carry one as its cause.\<close>

datatype http2_header_error =
    pseudoHeaderError string
  | duplicatePseudoHeaderError string
  | headerFieldNameError string
  | headerFieldValueError string
  | errMixPseudoHeaderTypes
  | errPseudoAfterRegular

datatype http2_error =
    http2_ConnectionError http2_ErrCode
  | http2_StreamError "32 word" http2_ErrCode "http2_header_error option"
  | http2_connError http2_ErrCode string
  | http2_IOError io_error
  | http2_ErrFrameTooLarge
  | http2_errStreamID
  | http2_errDepStreamID
  | http2_errPadLength
  | http2_errPadBytes
  | http2_OtherError string

definition streamError :: "32 word \<Rightarrow> http2_ErrCode \<Rightarrow> http2_error" where
  "streamError sid code = http2_StreamError sid code None"

subsection \<open>Frame types, flags and headers\<close>

type_synonym http2_FrameType = "8 word"
type_synonym http2_Flags = "8 word"

abbreviation (input) FrameData :: http2_FrameType where "FrameData \<equiv> 0x0"
abbreviation (input) FrameHeaders :: http2_FrameType where "FrameHeaders \<equiv> 0x1"
abbreviation (input) FramePriority :: http2_FrameType where "FramePriority \<equiv> 0x2"
abbreviation (input) FrameRSTStream :: http2_FrameType where "FrameRSTStream \<equiv> 0x3"
abbreviation (input) FrameSettings :: http2_FrameType where "FrameSettings \<equiv> 0x4"
abbreviation (input) FramePushPromise :: http2_FrameType where "FramePushPromise \<equiv> 0x5"
abbreviation (input) FramePing :: http2_FrameType where "FramePing \<equiv> 0x6"
abbreviation (input) FrameGoAway :: http2_FrameType where "FrameGoAway \<equiv> 0x7"
abbreviation (input) FrameWindowUpdate :: http2_FrameType where "FrameWindowUpdate \<equiv> 0x8"
abbreviation (input) FrameContinuation :: http2_FrameType where "FrameContinuation \<equiv> 0x9"

abbreviation (input) FlagDataEndStream :: http2_Flags where "FlagDataEndStream \<equiv> 0x1"
abbreviation (input) FlagDataPadded :: http2_Flags where "FlagDataPadded \<equiv> 0x8"
abbreviation (input) FlagHeadersEndStream :: http2_Flags where "FlagHeadersEndStream \<equiv> 0x1"
abbreviation (input) FlagHeadersEndHeaders :: http2_Flags where "FlagHeadersEndHeaders \<equiv> 0x4"
abbreviation (input) FlagHeadersPadded :: http2_Flags where "FlagHeadersPadded \<equiv> 0x8"
abbreviation (input) FlagHeadersPriority :: http2_Flags where "FlagHeadersPriority \<equiv> 0x20"
abbreviation (input) FlagSettingsAck :: http2_Flags where "FlagSettingsAck \<equiv> 0x1"
abbreviation (input) FlagPingAck :: http2_Flags where "FlagPingAck \<equiv> 0x1"
abbreviation (input) FlagContinuationEndHeaders :: http2_Flags where "FlagContinuationEndHeaders \<equiv> 0x4"
abbreviation (input) FlagPushPromiseEndHeaders :: http2_Flags where "FlagPushPromiseEndHeaders \<equiv> 0x4"
abbreviation (input) FlagPushPromisePadded :: http2_Flags where "FlagPushPromisePadded \<equiv> 0x8"

definition FrameType_String :: "http2_FrameType \<Rightarrow> string" where
  "FrameType_String t =
     (if t = FrameData then ''DATA''
      else if t = FrameHeaders then ''HEADERS''
      else if t = FramePriority then ''PRIORITY''
      else if t = FrameRSTStream then ''RST_STREAM''
      else if t = FrameSettings then ''SETTINGS''
      else if t = FramePushPromise then ''PUSH_PROMISE''
      else if t = FramePing then ''PING''
      else if t = FrameGoAway then ''GOAWAY''
      else if t = FrameWindowUpdate then ''WINDOW_UPDATE''
      else if t = FrameContinuation then ''CONTINUATION''
      else ''UNKNOWN_FRAME_TYPE_'' @ fmt_nat (unat t))"

definition Flags_Has :: "http2_Flags \<Rightarrow> http2_Flags \<Rightarrow> bool" where
  "Flags_Has f v = (f AND v = v)"

record http2_FrameHeader =
  fh_Type :: http2_FrameType
  fh_Flags :: http2_Flags
  fh_Length :: "32 word"
  fh_StreamID :: "32 word"

definition frameHeaderLen :: nat where
  "frameHeaderLen = 9"

text \<open>\<open>1<<31 - 1\<close>, the mask that removes the reserved bit.\<close>

definition mask31 :: "32 word" where
  "mask31 = 0x7fffffff"

definition decode_frame_header :: "byte list \<Rightarrow> http2_FrameHeader" where
  "decode_frame_header buf =
     \<lparr>fh_Type = buf ! 3, fh_Flags = buf ! 4, fh_Length = get_uint24 buf,
      fh_StreamID = get_uint32 (drop 5 buf) AND mask31\<rparr>"

definition readFrameHeader :: "byte bufr \<Rightarrow> (io_error + http2_FrameHeader) \<times> byte bufr" where
  "readFrameHeader r =
     (case bufr_ReadFull frameHeaderLen r of
        (Inl e, r') \<Rightarrow> (Inl e, r')
      | (Inr buf, r') \<Rightarrow> (Inr (decode_frame_header buf), r'))"

record http2_PriorityParam =
  pp_StreamDep :: "32 word"
  pp_Exclusive :: bool
  pp_Weight :: byte

definition zero_priority :: http2_PriorityParam where
  "zero_priority = \<lparr>pp_StreamDep = 0, pp_Exclusive = False, pp_Weight = 0\<rparr>"

definition PriorityParam_IsZero :: "http2_PriorityParam \<Rightarrow> bool" where
  "PriorityParam_IsZero p = (p = zero_priority)"

datatype http2_Frame =
    DataFrame http2_FrameHeader "byte list"
  | HeadersFrame http2_FrameHeader http2_PriorityParam "byte list"
  | PriorityFrame http2_FrameHeader http2_PriorityParam
  | RSTStreamFrame http2_FrameHeader http2_ErrCode
  | SettingsFrame http2_FrameHeader "byte list"
  | PushPromiseFrame http2_FrameHeader "32 word" "byte list"
  | PingFrame http2_FrameHeader "byte list"
  | GoAwayFrame http2_FrameHeader "32 word" http2_ErrCode "byte list"
  | WindowUpdateFrame http2_FrameHeader "32 word"
  | ContinuationFrame http2_FrameHeader "byte list"
  | UnknownFrame http2_FrameHeader "byte list"

primrec frame_Header :: "http2_Frame \<Rightarrow> http2_FrameHeader" where
  "frame_Header (DataFrame fh _) = fh"
| "frame_Header (HeadersFrame fh _ _) = fh"
| "frame_Header (PriorityFrame fh _) = fh"
| "frame_Header (RSTStreamFrame fh _) = fh"
| "frame_Header (SettingsFrame fh _) = fh"
| "frame_Header (PushPromiseFrame fh _ _) = fh"
| "frame_Header (PingFrame fh _) = fh"
| "frame_Header (GoAwayFrame fh _ _ _) = fh"
| "frame_Header (WindowUpdateFrame fh _) = fh"
| "frame_Header (ContinuationFrame fh _) = fh"
| "frame_Header (UnknownFrame fh _) = fh"

subsection \<open>Settings\<close>

record http2_Setting =
  st_ID :: "16 word"
  st_Val :: "32 word"

abbreviation (input) SettingHeaderTableSize :: "16 word" where "SettingHeaderTableSize \<equiv> 0x1"
abbreviation (input) SettingEnablePush :: "16 word" where "SettingEnablePush \<equiv> 0x2"
abbreviation (input) SettingMaxConcurrentStreams :: "16 word" where "SettingMaxConcurrentStreams \<equiv> 0x3"
abbreviation (input) SettingInitialWindowSize :: "16 word" where "SettingInitialWindowSize \<equiv> 0x4"
abbreviation (input) SettingMaxFrameSize :: "16 word" where "SettingMaxFrameSize \<equiv> 0x5"
abbreviation (input) SettingMaxHeaderListSize :: "16 word" where "SettingMaxHeaderListSize \<equiv> 0x6"

definition Setting_Valid :: "http2_Setting \<Rightarrow> http2_error option" where
  "Setting_Valid s =
     (if st_ID s = SettingEnablePush then
        (if st_Val s \<noteq> 1 \<and> st_Val s \<noteq> 0 then Some (http2_ConnectionError ErrCodeProtocol) else None)
      else if st_ID s = SettingInitialWindowSize then
        (if st_Val s > mask31 then Some (http2_ConnectionError ErrCodeFlowControl) else None)
      else if st_ID s = SettingMaxFrameSize then
        (if st_Val s < 16384 \<or> st_Val s > 0xffffff then Some (http2_ConnectionError ErrCodeProtocol) else None)
      else None)"

text \<open>The accessors of a SETTINGS payload \<open>p\<close>.\<close>

definition NumSettings :: "byte list \<Rightarrow> nat" where
  "NumSettings p = length p div 6"

definition Setting_at :: "byte list \<Rightarrow> nat \<Rightarrow> http2_Setting" where
  "Setting_at p i = \<lparr>st_ID = get_uint16 (drop (i * 6) p), st_Val = get_uint32 (drop (i * 6 + 2) p)\<rparr>"

text \<open>The loop of \<open>Value\<close> from index \<open>i\<close>, over \<open>k\<close> more settings.\<close>

fun Settings_Value_loop :: "byte list \<Rightarrow> 16 word \<Rightarrow> nat \<Rightarrow> nat \<Rightarrow> 32 word option" where
  "Settings_Value_loop p sid i 0 = None"
| "Settings_Value_loop p sid i (Suc k) =
     (if st_ID (Setting_at p i) = sid then Some (st_Val (Setting_at p i))
      else Settings_Value_loop p sid (Suc i) k)"

definition Settings_Value :: "byte list \<Rightarrow> 16 word \<Rightarrow> 32 word option" where
  "Settings_Value p sid = Settings_Value_loop p sid 0 (NumSettings p)"

text \<open>\<open>HasDuplicates\<close>: a quadratic search below ten settings, a set of seen identifiers above.\<close>

definition dup_quadratic :: "byte list \<Rightarrow> nat \<Rightarrow> bool" where
  "dup_quadratic p num =
     list_ex (\<lambda>i. list_ex (\<lambda>j. st_ID (Setting_at p i) = st_ID (Setting_at p j)) [i + 1 ..< num]) [0 ..< num]"

fun dup_seen :: "byte list \<Rightarrow> 16 word list \<Rightarrow> nat list \<Rightarrow> bool" where
  "dup_seen p seen [] = False"
| "dup_seen p seen (i # is) =
     (let sid = st_ID (Setting_at p i) in
      if List.member seen sid then True else dup_seen p (sid # seen) is)"

definition HasDuplicates :: "byte list \<Rightarrow> bool" where
  "HasDuplicates p =
     (let num = NumSettings p in
      if num = 0 then False
      else if num < 10 then dup_quadratic p num
      else dup_seen p [] [0 ..< num])"

text \<open>\<open>ForeachSetting\<close> with a callback that threads a state and may fail.\<close>

fun Foreach_loop :: "(http2_Setting \<Rightarrow> 's \<Rightarrow> http2_error option \<times> 's) \<Rightarrow> byte list \<Rightarrow> nat \<Rightarrow> nat \<Rightarrow> 's \<Rightarrow> http2_error option \<times> 's" where
  "Foreach_loop fn p i 0 s = (None, s)"
| "Foreach_loop fn p i (Suc k) s =
     (case fn (Setting_at p i) s of
        (Some e, s') \<Rightarrow> (Some e, s')
      | (None, s') \<Rightarrow> Foreach_loop fn p (Suc i) k s')"

definition ForeachSetting :: "(http2_Setting \<Rightarrow> 's \<Rightarrow> http2_error option \<times> 's) \<Rightarrow> byte list \<Rightarrow> 's \<Rightarrow> http2_error option \<times> 's" where
  "ForeachSetting fn p s = Foreach_loop fn p 0 (NumSettings p) s"

subsection \<open>The parsers\<close>

type_synonym parse_result = "(string \<times> http2_error) + http2_Frame"

definition readByte :: "byte list \<Rightarrow> (byte list \<times> byte) option" where
  "readByte p = (case p of [] \<Rightarrow> None | b # rest \<Rightarrow> Some (rest, b))"

definition readUint32 :: "byte list \<Rightarrow> (byte list \<times> 32 word) option" where
  "readUint32 p = (if length p < 4 then None else Some (drop 4 p, get_uint32 p))"

abbreviation unexpected_eof :: http2_error where
  "unexpected_eof \<equiv> http2_IOError ErrUnexpectedEOF"

definition parseDataFrame :: "http2_FrameHeader \<Rightarrow> byte list \<Rightarrow> parse_result" where
  "parseDataFrame fh payload =
     (if fh_StreamID fh = 0
      then Inl (''frame_data_stream_0'', http2_connError ErrCodeProtocol ''DATA frame with stream ID 0'')
      else
        (case (if Flags_Has (fh_Flags fh) FlagDataPadded then readByte payload else Some (payload, 0)) of
           None \<Rightarrow> Inl (''frame_data_pad_byte_short'', unexpected_eof)
         | Some (payload1, padSize) \<Rightarrow>
             if unat padSize > length payload1
             then Inl (''frame_data_pad_too_big'', http2_connError ErrCodeProtocol ''pad size larger than data payload'')
             else Inr (DataFrame fh (take (length payload1 - unat padSize) payload1))))"

definition parseSettingsFrame :: "http2_FrameHeader \<Rightarrow> byte list \<Rightarrow> parse_result" where
  "parseSettingsFrame fh p =
     (if Flags_Has (fh_Flags fh) FlagSettingsAck \<and> fh_Length fh > 0
      then Inl (''frame_settings_ack_with_length'', http2_ConnectionError ErrCodeFrameSize)
      else if fh_StreamID fh \<noteq> 0
      then Inl (''frame_settings_has_stream'', http2_ConnectionError ErrCodeProtocol)
      else if length p mod 6 \<noteq> 0
      then Inl (''frame_settings_mod_6'', http2_ConnectionError ErrCodeFrameSize)
      else
        (case Settings_Value p SettingInitialWindowSize of
           Some v \<Rightarrow>
             if v > mask31
             then Inl (''frame_settings_window_size_too_big'', http2_ConnectionError ErrCodeFlowControl)
             else Inr (SettingsFrame fh p)
         | None \<Rightarrow> Inr (SettingsFrame fh p)))"

definition parsePingFrame :: "http2_FrameHeader \<Rightarrow> byte list \<Rightarrow> parse_result" where
  "parsePingFrame fh payload =
     (if length payload \<noteq> 8 then Inl (''frame_ping_length'', http2_ConnectionError ErrCodeFrameSize)
      else if fh_StreamID fh \<noteq> 0 then Inl (''frame_ping_has_stream'', http2_ConnectionError ErrCodeProtocol)
      else Inr (PingFrame fh payload))"

definition parseGoAwayFrame :: "http2_FrameHeader \<Rightarrow> byte list \<Rightarrow> parse_result" where
  "parseGoAwayFrame fh p =
     (if fh_StreamID fh \<noteq> 0 then Inl (''frame_goaway_has_stream'', http2_ConnectionError ErrCodeProtocol)
      else if length p < 8 then Inl (''frame_goaway_short'', http2_ConnectionError ErrCodeFrameSize)
      else Inr (GoAwayFrame fh (get_uint32 p AND mask31) (get_uint32 (drop 4 p)) (drop 8 p)))"

definition parseUnknownFrame :: "http2_FrameHeader \<Rightarrow> byte list \<Rightarrow> parse_result" where
  "parseUnknownFrame fh p = Inr (UnknownFrame fh p)"

definition parseWindowUpdateFrame :: "http2_FrameHeader \<Rightarrow> byte list \<Rightarrow> parse_result" where
  "parseWindowUpdateFrame fh p =
     (if length p \<noteq> 4 then Inl (''frame_windowupdate_bad_len'', http2_ConnectionError ErrCodeFrameSize)
      else
        (let inc = get_uint32 p AND mask31 in
         if inc = 0 then
           (if fh_StreamID fh = 0
            then Inl (''frame_windowupdate_zero_inc_conn'', http2_ConnectionError ErrCodeProtocol)
            else Inl (''frame_windowupdate_zero_inc_stream'', streamError (fh_StreamID fh) ErrCodeProtocol))
         else Inr (WindowUpdateFrame fh inc)))"

definition decode_priority :: "32 word \<Rightarrow> byte \<Rightarrow> http2_PriorityParam" where
  "decode_priority v weight =
     \<lparr>pp_StreamDep = v AND mask31, pp_Exclusive = (v \<noteq> v AND mask31), pp_Weight = weight\<rparr>"

definition parse_headers_priority :: "http2_FrameHeader \<Rightarrow> byte list \<Rightarrow> string + (byte list \<times> http2_PriorityParam)" where
  "parse_headers_priority fh p =
     (if Flags_Has (fh_Flags fh) FlagHeadersPriority then
        (case readUint32 p of
           None \<Rightarrow> Inl ''frame_headers_prio_short''
         | Some (p1, v) \<Rightarrow>
             (case readByte p1 of
                None \<Rightarrow> Inl ''frame_headers_prio_weight_short''
              | Some (p2, weight) \<Rightarrow> Inr (p2, decode_priority v weight)))
      else Inr (p, zero_priority))"

definition parseHeadersFrame :: "http2_FrameHeader \<Rightarrow> byte list \<Rightarrow> parse_result" where
  "parseHeadersFrame fh p =
     (if fh_StreamID fh = 0
      then Inl (''frame_headers_zero_stream'', http2_connError ErrCodeProtocol ''HEADERS frame with stream ID 0'')
      else
        (case (if Flags_Has (fh_Flags fh) FlagHeadersPadded then readByte p else Some (p, 0)) of
           None \<Rightarrow> Inl (''frame_headers_pad_short'', unexpected_eof)
         | Some (p1, padLength) \<Rightarrow>
             (case parse_headers_priority fh p1 of
                Inl token \<Rightarrow> Inl (token, unexpected_eof)
              | Inr (p2, prio) \<Rightarrow>
                  if length p2 < unat padLength
                  then Inl (''frame_headers_pad_too_big'', streamError (fh_StreamID fh) ErrCodeProtocol)
                  else Inr (HeadersFrame fh prio (take (length p2 - unat padLength) p2)))))"

definition parsePriorityFrame :: "http2_FrameHeader \<Rightarrow> byte list \<Rightarrow> parse_result" where
  "parsePriorityFrame fh payload =
     (if fh_StreamID fh = 0
      then Inl (''frame_priority_zero_stream'', http2_connError ErrCodeProtocol ''PRIORITY frame with stream ID 0'')
      else if length payload \<noteq> 5
      then Inl (''frame_priority_bad_length'', http2_connError ErrCodeFrameSize
          (''PRIORITY frame payload size was '' @ fmt_nat (length payload) @ ''; want 5''))
      else Inr (PriorityFrame fh (decode_priority (get_uint32 payload) (payload ! 4))))"

definition parseRSTStreamFrame :: "http2_FrameHeader \<Rightarrow> byte list \<Rightarrow> parse_result" where
  "parseRSTStreamFrame fh p =
     (if length p \<noteq> 4 then Inl (''frame_rststream_bad_len'', http2_ConnectionError ErrCodeFrameSize)
      else if fh_StreamID fh = 0 then Inl (''frame_rststream_zero_stream'', http2_ConnectionError ErrCodeProtocol)
      else Inr (RSTStreamFrame fh (get_uint32 p)))"

definition parseContinuationFrame :: "http2_FrameHeader \<Rightarrow> byte list \<Rightarrow> parse_result" where
  "parseContinuationFrame fh p =
     (if fh_StreamID fh = 0
      then Inl (''frame_continuation_zero_stream'', http2_connError ErrCodeProtocol ''CONTINUATION frame with stream ID 0'')
      else Inr (ContinuationFrame fh p))"

definition parsePushPromise :: "http2_FrameHeader \<Rightarrow> byte list \<Rightarrow> parse_result" where
  "parsePushPromise fh p =
     (if fh_StreamID fh = 0 then Inl (''frame_pushpromise_zero_stream'', http2_ConnectionError ErrCodeProtocol)
      else
        (case (if Flags_Has (fh_Flags fh) FlagPushPromisePadded then readByte p else Some (p, 0)) of
           None \<Rightarrow> Inl (''frame_pushpromise_pad_short'', unexpected_eof)
         | Some (p1, padLength) \<Rightarrow>
             (case readUint32 p1 of
                None \<Rightarrow> Inl (''frame_pushpromise_promiseid_short'', unexpected_eof)
              | Some (p2, promise) \<Rightarrow>
                  if unat padLength > length p2
                  then Inl (''frame_pushpromise_pad_too_big'', http2_ConnectionError ErrCodeProtocol)
                  else Inr (PushPromiseFrame fh (promise AND mask31) (take (length p2 - unat padLength) p2)))))"

definition typeFrameParser :: "http2_FrameType \<Rightarrow> http2_FrameHeader \<Rightarrow> byte list \<Rightarrow> parse_result" where
  "typeFrameParser t =
     (if t = FrameData then parseDataFrame
      else if t = FrameHeaders then parseHeadersFrame
      else if t = FramePriority then parsePriorityFrame
      else if t = FrameRSTStream then parseRSTStreamFrame
      else if t = FrameSettings then parseSettingsFrame
      else if t = FramePushPromise then parsePushPromise
      else if t = FramePing then parsePingFrame
      else if t = FrameGoAway then parseGoAwayFrame
      else if t = FrameWindowUpdate then parseWindowUpdateFrame
      else if t = FrameContinuation then parseContinuationFrame
      else parseUnknownFrame)"

end
