(* ===== verification/Http2_Framer.thy ===== *)
theory Http2_Framer
  imports Http2_Frame
begin

section \<open>The HTTP/2 framer (h2_bundle.go)\<close>

text \<open>
  \<open>http2Framer\<close>: the write methods, which build a frame in \<open>wbuf\<close> and hand it to the wire in one
  write, and \<open>ReadFrame\<close> with the check of the frame order. Logging and the reuse of read buffers
  are not modelled. The framer's writer is the state \<open>fr_w\<close> of a write function \<open>wr\<close>.
\<close>

datatype err_detail = Reason string | HeaderError http2_header_error

record 'w http2_Framer =
  fr_r :: "byte bufr"
  fr_lastFrame :: "http2_Frame option"
  fr_errDetail :: "err_detail option"
  fr_counted :: "string list"
  fr_lastHeaderStream :: "32 word"
  fr_maxReadSize :: "32 word"
  fr_w :: 'w
  fr_wbuf :: "byte list"
  fr_AllowIllegalWrites :: bool
  fr_AllowIllegalReads :: bool
  fr_MaxHeaderListSize :: "32 word"

definition maxFrameSize :: "32 word" where
  "maxFrameSize = 0xffffff"

definition SetMaxReadFrameSize :: "32 word \<Rightarrow> 'w http2_Framer \<Rightarrow> 'w http2_Framer" where
  "SetMaxReadFrameSize v fr = fr\<lparr>fr_maxReadSize := (if v > maxFrameSize then maxFrameSize else v)\<rparr>"

definition NewFramer :: "'w \<Rightarrow> byte bufr \<Rightarrow> 'w http2_Framer" where
  "NewFramer w r =
     SetMaxReadFrameSize maxFrameSize
       \<lparr>fr_r = r, fr_lastFrame = None, fr_errDetail = None, fr_counted = [], fr_lastHeaderStream = 0,
        fr_maxReadSize = 0, fr_w = w, fr_wbuf = [], fr_AllowIllegalWrites = False,
        fr_AllowIllegalReads = False, fr_MaxHeaderListSize = 0\<rparr>"

subsection \<open>Writing\<close>

definition startWrite :: "http2_FrameType \<Rightarrow> http2_Flags \<Rightarrow> 32 word \<Rightarrow> 'w http2_Framer \<Rightarrow> 'w http2_Framer" where
  "startWrite ftype flags streamID f = f\<lparr>fr_wbuf := [0, 0, 0, ftype, flags] @ put_uint32 streamID\<rparr>"

definition writeBytes :: "byte list \<Rightarrow> 'w http2_Framer \<Rightarrow> 'w http2_Framer" where
  "writeBytes v f = f\<lparr>fr_wbuf := fr_wbuf f @ v\<rparr>"

definition writeByte :: "byte \<Rightarrow> 'w http2_Framer \<Rightarrow> 'w http2_Framer" where
  "writeByte v f = f\<lparr>fr_wbuf := fr_wbuf f @ [v]\<rparr>"

definition writeUint16 :: "16 word \<Rightarrow> 'w http2_Framer \<Rightarrow> 'w http2_Framer" where
  "writeUint16 v f = f\<lparr>fr_wbuf := fr_wbuf f @ put_uint16 v\<rparr>"

definition writeUint32 :: "32 word \<Rightarrow> 'w http2_Framer \<Rightarrow> 'w http2_Framer" where
  "writeUint32 v f = f\<lparr>fr_wbuf := fr_wbuf f @ put_uint32 v\<rparr>"

definition endWrite :: "(byte, 'w) write_fun \<Rightarrow> 'w http2_Framer \<Rightarrow> http2_error option \<times> 'w http2_Framer" where
  "endWrite wr f =
     (let len = length (fr_wbuf f) - frameHeaderLen in
      if 2 ^ 24 \<le> len then (Some http2_ErrFrameTooLarge, f)
      else
        (let buf = put_uint24 (of_nat len) @ drop 3 (fr_wbuf f) in
         case wr buf (fr_w f) of
           (n, err, w) \<Rightarrow>
             ((case err of
                 Some e \<Rightarrow> Some (http2_IOError e)
               | None \<Rightarrow> if n \<noteq> length buf then Some (http2_IOError ErrShortWrite) else None),
              f\<lparr>fr_wbuf := buf, fr_w := w\<rparr>)))"

definition validStreamIDOrZero :: "32 word \<Rightarrow> bool" where
  "validStreamIDOrZero streamID = (streamID AND push_bit 31 1 = 0)"

definition validStreamID :: "32 word \<Rightarrow> bool" where
  "validStreamID streamID = (streamID \<noteq> 0 \<and> streamID AND push_bit 31 1 = 0)"

text \<open>The optional padding is \<open>None\<close> for a nil slice.\<close>

definition startWriteDataPadded ::
  "32 word \<Rightarrow> bool \<Rightarrow> byte list \<Rightarrow> byte list option \<Rightarrow> 'w http2_Framer \<Rightarrow> http2_error option \<times> 'w http2_Framer" where
  "startWriteDataPadded streamID endStream data pad f =
     (if \<not> validStreamID streamID \<and> \<not> fr_AllowIllegalWrites f then (Some http2_errStreamID, f)
      else
        (let padding = (case pad of None \<Rightarrow> [] | Some p \<Rightarrow> p) in
         if length padding > 255 then (Some http2_errPadLength, f)
         else if \<not> fr_AllowIllegalWrites f \<and> list_ex (\<lambda>b. b \<noteq> 0) padding then (Some http2_errPadBytes, f)
         else
           (let flags = (if endStream then FlagDataEndStream else 0) OR (if pad \<noteq> None then FlagDataPadded else 0);
                f1 = startWrite FrameData flags streamID f;
                f2 = (if pad \<noteq> None then writeByte (of_nat (length padding)) f1 else f1)
            in (None, writeBytes padding (writeBytes data f2)))))"

definition WriteDataPadded ::
  "(byte, 'w) write_fun \<Rightarrow> 32 word \<Rightarrow> bool \<Rightarrow> byte list \<Rightarrow> byte list option \<Rightarrow> 'w http2_Framer \<Rightarrow> http2_error option \<times> 'w http2_Framer" where
  "WriteDataPadded wr streamID endStream data pad f =
     (case startWriteDataPadded streamID endStream data pad f of
        (Some e, f1) \<Rightarrow> (Some e, f1)
      | (None, f1) \<Rightarrow> endWrite wr f1)"

definition WriteData ::
  "(byte, 'w) write_fun \<Rightarrow> 32 word \<Rightarrow> bool \<Rightarrow> byte list \<Rightarrow> 'w http2_Framer \<Rightarrow> http2_error option \<times> 'w http2_Framer" where
  "WriteData wr streamID endStream data f = WriteDataPadded wr streamID endStream data None f"

fun write_settings_loop :: "http2_Setting list \<Rightarrow> 'w http2_Framer \<Rightarrow> 'w http2_Framer" where
  "write_settings_loop [] f = f"
| "write_settings_loop (s # settings) f =
     write_settings_loop settings (writeUint32 (st_Val s) (writeUint16 (st_ID s) f))"

definition WriteSettings ::
  "(byte, 'w) write_fun \<Rightarrow> http2_Setting list \<Rightarrow> 'w http2_Framer \<Rightarrow> http2_error option \<times> 'w http2_Framer" where
  "WriteSettings wr settings f = endWrite wr (write_settings_loop settings (startWrite FrameSettings 0 0 f))"

definition WriteSettingsAck :: "(byte, 'w) write_fun \<Rightarrow> 'w http2_Framer \<Rightarrow> http2_error option \<times> 'w http2_Framer" where
  "WriteSettingsAck wr f = endWrite wr (startWrite FrameSettings FlagSettingsAck 0 f)"

definition WritePing ::
  "(byte, 'w) write_fun \<Rightarrow> bool \<Rightarrow> byte list \<Rightarrow> 'w http2_Framer \<Rightarrow> http2_error option \<times> 'w http2_Framer" where
  "WritePing wr ack data f =
     endWrite wr (writeBytes data (startWrite FramePing (if ack then FlagPingAck else 0) 0 f))"

definition WriteGoAway ::
  "(byte, 'w) write_fun \<Rightarrow> 32 word \<Rightarrow> http2_ErrCode \<Rightarrow> byte list \<Rightarrow> 'w http2_Framer \<Rightarrow> http2_error option \<times> 'w http2_Framer" where
  "WriteGoAway wr maxStreamID code debugData f =
     endWrite wr (writeBytes debugData (writeUint32 code (writeUint32 (maxStreamID AND mask31) (startWrite FrameGoAway 0 0 f))))"

definition WriteWindowUpdate ::
  "(byte, 'w) write_fun \<Rightarrow> 32 word \<Rightarrow> 32 word \<Rightarrow> 'w http2_Framer \<Rightarrow> http2_error option \<times> 'w http2_Framer" where
  "WriteWindowUpdate wr streamID incr f =
     (if (incr < 1 \<or> incr > 2147483647) \<and> \<not> fr_AllowIllegalWrites f
      then (Some (http2_OtherError ''illegal window increment value''), f)
      else endWrite wr (writeUint32 incr (startWrite FrameWindowUpdate 0 streamID f)))"

record http2_HeadersFrameParam =
  hp_StreamID :: "32 word"
  hp_BlockFragment :: "byte list"
  hp_EndStream :: bool
  hp_EndHeaders :: bool
  hp_PadLength :: byte
  hp_Priority :: http2_PriorityParam

definition encode_priority :: "http2_PriorityParam \<Rightarrow> 32 word" where
  "encode_priority p = (if pp_Exclusive p then pp_StreamDep p OR push_bit 31 1 else pp_StreamDep p)"

definition WriteHeaders ::
  "(byte, 'w) write_fun \<Rightarrow> http2_HeadersFrameParam \<Rightarrow> 'w http2_Framer \<Rightarrow> http2_error option \<times> 'w http2_Framer" where
  "WriteHeaders wr p f =
     (if \<not> validStreamID (hp_StreamID p) \<and> \<not> fr_AllowIllegalWrites f then (Some http2_errStreamID, f)
      else
        (let flags = (if hp_PadLength p \<noteq> 0 then FlagHeadersPadded else 0)
                     OR (if hp_EndStream p then FlagHeadersEndStream else 0)
                     OR (if hp_EndHeaders p then FlagHeadersEndHeaders else 0)
                     OR (if \<not> PriorityParam_IsZero (hp_Priority p) then FlagHeadersPriority else 0);
             f1 = startWrite FrameHeaders flags (hp_StreamID p) f;
             f2 = (if hp_PadLength p \<noteq> 0 then writeByte (hp_PadLength p) f1 else f1);
             body = (\<lambda>g. endWrite wr (writeBytes (replicate (unat (hp_PadLength p)) 0) (writeBytes (hp_BlockFragment p) g)))
         in
           if \<not> PriorityParam_IsZero (hp_Priority p) then
             (if \<not> validStreamIDOrZero (pp_StreamDep (hp_Priority p)) \<and> \<not> fr_AllowIllegalWrites f
              then (Some http2_errDepStreamID, f2)
              else body (writeByte (pp_Weight (hp_Priority p)) (writeUint32 (encode_priority (hp_Priority p)) f2)))
           else body f2))"

definition WritePriority ::
  "(byte, 'w) write_fun \<Rightarrow> 32 word \<Rightarrow> http2_PriorityParam \<Rightarrow> 'w http2_Framer \<Rightarrow> http2_error option \<times> 'w http2_Framer" where
  "WritePriority wr streamID p f =
     (if \<not> validStreamID streamID \<and> \<not> fr_AllowIllegalWrites f then (Some http2_errStreamID, f)
      else if \<not> validStreamIDOrZero (pp_StreamDep p) then (Some http2_errDepStreamID, f)
      else endWrite wr (writeByte (pp_Weight p) (writeUint32 (encode_priority p) (startWrite FramePriority 0 streamID f))))"

definition WriteRSTStream ::
  "(byte, 'w) write_fun \<Rightarrow> 32 word \<Rightarrow> http2_ErrCode \<Rightarrow> 'w http2_Framer \<Rightarrow> http2_error option \<times> 'w http2_Framer" where
  "WriteRSTStream wr streamID code f =
     (if \<not> validStreamID streamID \<and> \<not> fr_AllowIllegalWrites f then (Some http2_errStreamID, f)
      else endWrite wr (writeUint32 code (startWrite FrameRSTStream 0 streamID f)))"

definition WriteContinuation ::
  "(byte, 'w) write_fun \<Rightarrow> 32 word \<Rightarrow> bool \<Rightarrow> byte list \<Rightarrow> 'w http2_Framer \<Rightarrow> http2_error option \<times> 'w http2_Framer" where
  "WriteContinuation wr streamID endHeaders headerBlockFragment f =
     (if \<not> validStreamID streamID \<and> \<not> fr_AllowIllegalWrites f then (Some http2_errStreamID, f)
      else endWrite wr (writeBytes headerBlockFragment
             (startWrite FrameContinuation (if endHeaders then FlagContinuationEndHeaders else 0) streamID f)))"

record http2_PushPromiseParam =
  pu_StreamID :: "32 word"
  pu_PromiseID :: "32 word"
  pu_BlockFragment :: "byte list"
  pu_EndHeaders :: bool
  pu_PadLength :: byte

definition WritePushPromise ::
  "(byte, 'w) write_fun \<Rightarrow> http2_PushPromiseParam \<Rightarrow> 'w http2_Framer \<Rightarrow> http2_error option \<times> 'w http2_Framer" where
  "WritePushPromise wr p f =
     (if \<not> validStreamID (pu_StreamID p) \<and> \<not> fr_AllowIllegalWrites f then (Some http2_errStreamID, f)
      else
        (let flags = (if pu_PadLength p \<noteq> 0 then FlagPushPromisePadded else 0)
                     OR (if pu_EndHeaders p then FlagPushPromiseEndHeaders else 0);
             f1 = startWrite FramePushPromise flags (pu_StreamID p) f;
             f2 = (if pu_PadLength p \<noteq> 0 then writeByte (pu_PadLength p) f1 else f1)
         in
           if \<not> validStreamID (pu_PromiseID p) \<and> \<not> fr_AllowIllegalWrites f then (Some http2_errStreamID, f2)
           else endWrite wr (writeBytes (replicate (unat (pu_PadLength p)) 0)
                  (writeBytes (pu_BlockFragment p) (writeUint32 (pu_PromiseID p) f2)))))"

definition WriteRawFrame ::
  "(byte, 'w) write_fun \<Rightarrow> http2_FrameType \<Rightarrow> http2_Flags \<Rightarrow> 32 word \<Rightarrow> byte list \<Rightarrow> 'w http2_Framer \<Rightarrow> http2_error option \<times> 'w http2_Framer" where
  "WriteRawFrame wr t flags streamID payload f = endWrite wr (writeBytes payload (startWrite t flags streamID f))"

subsection \<open>Reading\<close>

definition connError :: "http2_ErrCode \<Rightarrow> string \<Rightarrow> 'w http2_Framer \<Rightarrow> http2_error \<times> 'w http2_Framer" where
  "connError code reason fr = (http2_ConnectionError code, fr\<lparr>fr_errDetail := Some (Reason reason)\<rparr>)"

text \<open>The type of the frame before the rejected one, which the error text names.\<close>

definition last_type :: "http2_Frame option \<Rightarrow> http2_FrameType" where
  "last_type f = (case f of Some g \<Rightarrow> fh_Type (frame_Header g) | None \<Rightarrow> 0)"

definition checkFrameOrder :: "http2_Frame \<Rightarrow> 'w http2_Framer \<Rightarrow> http2_error option \<times> 'w http2_Framer" where
  "checkFrameOrder f fr =
     (let last = fr_lastFrame fr; fr1 = fr\<lparr>fr_lastFrame := Some f\<rparr>; fh = frame_Header f;
          reject = (\<lambda>reason. case connError ErrCodeProtocol reason fr1 of (e, fr2) \<Rightarrow> (Some e, fr2));
          sid = fmt_nat (unat (fh_StreamID fh)); lsid = fmt_nat (unat (fr_lastHeaderStream fr))
      in
        if fr_AllowIllegalReads fr then (None, fr1)
        else if fr_lastHeaderStream fr \<noteq> 0 \<and> fh_Type fh \<noteq> FrameContinuation then
          reject (''got '' @ FrameType_String (fh_Type fh) @ '' for stream '' @ sid @ ''; expected CONTINUATION following ''
                  @ FrameType_String (last_type last) @ '' for stream '' @ lsid)
        else if fr_lastHeaderStream fr \<noteq> 0 \<and> fh_StreamID fh \<noteq> fr_lastHeaderStream fr then
          reject (''got CONTINUATION for stream '' @ sid @ ''; expected stream '' @ lsid)
        else if fr_lastHeaderStream fr = 0 \<and> fh_Type fh = FrameContinuation then
          reject (''unexpected CONTINUATION for stream '' @ sid)
        else if fh_Type fh = FrameHeaders \<or> fh_Type fh = FrameContinuation then
          (None, fr1\<lparr>fr_lastHeaderStream := (if Flags_Has (fh_Flags fh) FlagHeadersEndHeaders then 0 else fh_StreamID fh)\<rparr>)
        else (None, fr1))"

text \<open>\<open>ReadFrame\<close> up to the merging of header blocks, which is below in \<open>Http2_Meta\<close>.\<close>

definition read_wire_frame :: "'w http2_Framer \<Rightarrow> (http2_error + http2_Frame) \<times> 'w http2_Framer" where
  "read_wire_frame fr =
     (let fr0 = fr\<lparr>fr_errDetail := None\<rparr> in
      case readFrameHeader (fr_r fr0) of
        (Inl e, r) \<Rightarrow> (Inl (http2_IOError e), fr0\<lparr>fr_r := r\<rparr>)
      | (Inr fh, r) \<Rightarrow>
          let fr1 = fr0\<lparr>fr_r := r\<rparr> in
          if fh_Length fh > fr_maxReadSize fr1 then (Inl http2_ErrFrameTooLarge, fr1)
          else
            (case bufr_ReadFull (unat (fh_Length fh)) (fr_r fr1) of
               (Inl e, r2) \<Rightarrow> (Inl (http2_IOError e), fr1\<lparr>fr_r := r2\<rparr>)
             | (Inr payload, r2) \<Rightarrow>
                 let fr2 = fr1\<lparr>fr_r := r2\<rparr> in
                 (case typeFrameParser (fh_Type fh) fh payload of
                    Inl (token, e) \<Rightarrow>
                      let fr3 = fr2\<lparr>fr_counted := fr_counted fr2 @ [token]\<rparr> in
                      (case e of
                         http2_connError code reason \<Rightarrow>
                           (case connError code reason fr3 of (e2, fr4) \<Rightarrow> (Inl e2, fr4))
                       | _ \<Rightarrow> (Inl e, fr3))
                  | Inr f \<Rightarrow>
                      (case checkFrameOrder f fr2 of
                         (Some e, fr3) \<Rightarrow> (Inl e, fr3)
                       | (None, fr3) \<Rightarrow> (Inr f, fr3)))))"

end
