(* ===== verification/Http2_Roundtrip.thy ===== *)
theory Http2_Roundtrip
  imports Http2_Framer
begin

section \<open>Frames written and read back\<close>

text \<open>
  Every write method of the framer puts one frame on the wire, and \<open>ReadFrame\<close> of a framer over
  those bytes returns the frame that was asked for. The write methods are collected in a datatype
  of requests so that the round trip is stated for any sequence of them.
\<close>

subsection \<open>The reserved bit\<close>

lemma mask31_eq: "mask31 = mask 31"
  by (simp add: mask31_def mask_eq_exp_minus_1)

lemma valid_or_zero_bit: "validStreamIDOrZero v \<longleftrightarrow> \<not> bit v 31"
  by (simp only: validStreamIDOrZero_def push_bit_of_1 and_exp_eq_0_iff_not_bit)

lemma validStreamID_eq: "validStreamID v \<longleftrightarrow> v \<noteq> 0 \<and> validStreamIDOrZero v"
  by (simp add: validStreamID_def validStreamIDOrZero_def)

lemma and_mask31_id:
  assumes "validStreamIDOrZero v"
  shows "v AND mask31 = v"
proof (rule bit_word_eqI)
  fix n
  assume "n < LENGTH(32)"
  then consider "n < 31" | "n = 31" by fastforce
  then show "bit (v AND mask31) n = bit v n"
    using assms by cases (simp_all add: mask31_eq valid_or_zero_bit bit_simps)
qed

lemma priority_roundtrip:
  assumes "validStreamIDOrZero (pp_StreamDep p)"
  shows "decode_priority (encode_priority p) (pp_Weight p) = p"
proof -
  have b: "\<not> bit (pp_StreamDep p) 31" using assms by (simp add: valid_or_zero_bit)
  have d: "pp_StreamDep p AND mask31 = pp_StreamDep p" by (rule and_mask31_id [OF assms])
  have "(push_bit 31 1 :: 32 word) AND mask31 = 0" by (simp add: mask31_def)
  then have e: "(pp_StreamDep p OR push_bit 31 1) AND mask31 = pp_StreamDep p"
    using d by (simp only: bit.conj_disj_distrib2 bit.disj_zero_right)
  have ne: "pp_StreamDep p OR push_bit 31 1 \<noteq> pp_StreamDep p"
  proof
    assume "pp_StreamDep p OR push_bit 31 1 = pp_StreamDep p"
    then have "bit (pp_StreamDep p OR push_bit 31 1) 31 = bit (pp_StreamDep p) 31" by simp
    then show False using b by (simp add: bit_simps)
  qed
  show ?thesis using d e ne by (simp add: decode_priority_def encode_priority_def)
qed

subsection \<open>One frame on the wire\<close>

definition frame_bytes :: "http2_FrameType \<Rightarrow> http2_Flags \<Rightarrow> 32 word \<Rightarrow> byte list \<Rightarrow> byte list" where
  "frame_bytes t flags sid payload =
     put_uint24 (of_nat (length payload)) @ [t, flags] @ put_uint32 sid @ payload"

definition frame_header :: "http2_FrameType \<Rightarrow> http2_Flags \<Rightarrow> 32 word \<Rightarrow> byte list \<Rightarrow> http2_FrameHeader" where
  "frame_header t flags sid payload =
     \<lparr>fh_Type = t, fh_Flags = flags, fh_Length = of_nat (length payload), fh_StreamID = sid\<rparr>"

lemma of_nat_24: "n < 2 ^ 24 \<Longrightarrow> (of_nat n :: 32 word) < 2 ^ 24" "n < 2 ^ 24 \<Longrightarrow> unat (of_nat n :: 32 word) = n"
  by (simp_all add: word_less_nat_alt unat_of_nat)

lemma decode_frame_bytes:
  assumes "length payload < 2 ^ 24" and "validStreamIDOrZero sid"
  shows "decode_frame_header (put_uint24 (of_nat (length payload)) @ [t, flags] @ put_uint32 sid) = frame_header t flags sid payload"
proof -
  have "get_uint24 (put_uint24 (of_nat (length payload)) @ [t, flags] @ put_uint32 sid) = of_nat (length payload)"
    by (rule get_put_uint24 [OF of_nat_24(1) [OF assms(1)]])
  moreover have "get_uint32 (drop 5 (put_uint24 (of_nat (length payload)) @ [t, flags] @ put_uint32 sid)) = sid"
    using get_put_uint32 [of sid "[]"] by (simp add: put_uint24_def)
  ultimately show ?thesis
    using and_mask31_id [OF assms(2)] by (simp add: decode_frame_header_def frame_header_def nth_append)
qed

text \<open>What \<open>ReadFrame\<close> does with a whole frame at the front of its input.\<close>

definition after_parse :: "http2_FrameHeader \<Rightarrow> byte list \<Rightarrow> 'w http2_Framer \<Rightarrow> (http2_error + http2_Frame) \<times> 'w http2_Framer" where
  "after_parse fh payload fr2 =
     (case typeFrameParser (fh_Type fh) fh payload of
        Inl (token, e) \<Rightarrow>
          let fr3 = fr2\<lparr>fr_counted := fr_counted fr2 @ [token]\<rparr> in
          (case e of
             http2_connError code reason \<Rightarrow> (case connError code reason fr3 of (e2, fr4) \<Rightarrow> (Inl e2, fr4))
           | _ \<Rightarrow> (Inl e, fr3))
      | Inr f \<Rightarrow>
          (case checkFrameOrder f fr2 of
             (Some e, fr3) \<Rightarrow> (Inl e, fr3)
           | (None, fr3) \<Rightarrow> (Inr f, fr3)))"

lemma read_wire_frame_bytes:
  assumes "remaining (fr_r fr) = frame_bytes t flags sid payload @ rest"
    and len: "length payload < 2 ^ 24" and sid: "validStreamIDOrZero sid"
    and max: "of_nat (length payload) \<le> fr_maxReadSize fr"
  shows "\<exists>r. remaining r = rest \<and>
    read_wire_frame fr = after_parse (frame_header t flags sid payload) payload (fr\<lparr>fr_errDetail := None, fr_r := r\<rparr>)"
proof -
  let ?h = "put_uint24 (of_nat (length payload)) @ [t, flags] @ put_uint32 sid"
  have r0: "remaining (fr_r fr) = ?h @ payload @ rest" using assms(1) by (simp add: frame_bytes_def)
  obtain r1 where r1: "bufr_ReadFull frameHeaderLen (fr_r fr) = (Inr ?h, r1)" "remaining r1 = payload @ rest"
    using bufr_ReadFull_exact [OF r0, of frameHeaderLen] by (auto simp: frameHeaderLen_def)
  obtain r2 where r2: "bufr_ReadFull (length payload) r1 = (Inr payload, r2)" "remaining r2 = rest"
    using bufr_ReadFull_exact [OF r1(2), of "length payload"] by auto
  have h: "readFrameHeader (fr_r fr) = (Inr (frame_header t flags sid payload), r1)"
    unfolding readFrameHeader_def r1(1) by (simp only: prod.case sum.case decode_frame_bytes [OF len sid])
  have l: "fh_Length (frame_header t flags sid payload) = of_nat (length payload)" by (simp add: frame_header_def)
  have "\<not> fh_Length (frame_header t flags sid payload) > fr_maxReadSize fr" using max l by simp
  then have "read_wire_frame fr = after_parse (frame_header t flags sid payload) payload (fr\<lparr>fr_errDetail := None, fr_r := r2\<rparr>)"
    using h r2(1) of_nat_24(2) [OF len] by (simp add: read_wire_frame_def after_parse_def Let_def l)
  with r2(2) show ?thesis by blast
qed

subsection \<open>Write requests\<close>

datatype write_op =
    OpData "32 word" bool "byte list" "byte list option"
  | OpHeaders http2_HeadersFrameParam
  | OpPriority "32 word" http2_PriorityParam
  | OpRSTStream "32 word" http2_ErrCode
  | OpSettings "http2_Setting list"
  | OpSettingsAck
  | OpPushPromise http2_PushPromiseParam
  | OpPing bool "byte list"
  | OpGoAway "32 word" http2_ErrCode "byte list"
  | OpWindowUpdate "32 word" "32 word"
  | OpContinuation "32 word" bool "byte list"
  | OpRaw http2_FrameType http2_Flags "32 word" "byte list"

primrec exec_op :: "(byte, 'w) write_fun \<Rightarrow> write_op \<Rightarrow> 'w http2_Framer \<Rightarrow> http2_error option \<times> 'w http2_Framer" where
  "exec_op wr (OpData sid es data pad) = WriteDataPadded wr sid es data pad"
| "exec_op wr (OpHeaders p) = WriteHeaders wr p"
| "exec_op wr (OpPriority sid p) = WritePriority wr sid p"
| "exec_op wr (OpRSTStream sid code) = WriteRSTStream wr sid code"
| "exec_op wr (OpSettings ss) = WriteSettings wr ss"
| "exec_op wr OpSettingsAck = WriteSettingsAck wr"
| "exec_op wr (OpPushPromise p) = WritePushPromise wr p"
| "exec_op wr (OpPing ack data) = WritePing wr ack data"
| "exec_op wr (OpGoAway sid code debug) = WriteGoAway wr sid code debug"
| "exec_op wr (OpWindowUpdate sid incr) = WriteWindowUpdate wr sid incr"
| "exec_op wr (OpContinuation sid eh frag) = WriteContinuation wr sid eh frag"
| "exec_op wr (OpRaw t flags sid payload) = WriteRawFrame wr t flags sid payload"

text \<open>The frame a request asks for, and the fields of its header.\<close>

definition settings_payload :: "http2_Setting list \<Rightarrow> byte list" where
  "settings_payload ss = concat (map (\<lambda>s. put_uint16 (st_ID s) @ put_uint32 (st_Val s)) ss)"

primrec op_sid :: "write_op \<Rightarrow> 32 word" where
  "op_sid (OpData sid es data pad) = sid"
| "op_sid (OpHeaders p) = hp_StreamID p"
| "op_sid (OpPriority sid p) = sid"
| "op_sid (OpRSTStream sid code) = sid"
| "op_sid (OpSettings ss) = 0"
| "op_sid OpSettingsAck = 0"
| "op_sid (OpPushPromise p) = pu_StreamID p"
| "op_sid (OpPing ack data) = 0"
| "op_sid (OpGoAway sid code debug) = 0"
| "op_sid (OpWindowUpdate sid incr) = sid"
| "op_sid (OpContinuation sid eh frag) = sid"
| "op_sid (OpRaw t flags sid payload) = sid"

primrec op_type :: "write_op \<Rightarrow> http2_FrameType" where
  "op_type (OpData sid es data pad) = FrameData"
| "op_type (OpHeaders p) = FrameHeaders"
| "op_type (OpPriority sid p) = FramePriority"
| "op_type (OpRSTStream sid code) = FrameRSTStream"
| "op_type (OpSettings ss) = FrameSettings"
| "op_type OpSettingsAck = FrameSettings"
| "op_type (OpPushPromise p) = FramePushPromise"
| "op_type (OpPing ack data) = FramePing"
| "op_type (OpGoAway sid code debug) = FrameGoAway"
| "op_type (OpWindowUpdate sid incr) = FrameWindowUpdate"
| "op_type (OpContinuation sid eh frag) = FrameContinuation"
| "op_type (OpRaw t flags sid payload) = t"

definition flag_if :: "bool \<Rightarrow> http2_Flags \<Rightarrow> http2_Flags" where
  "flag_if c v = (if c then v else 0)"

primrec op_flags :: "write_op \<Rightarrow> http2_Flags" where
  "op_flags (OpData sid es data pad) = flag_if es FlagDataEndStream OR flag_if (pad \<noteq> None) FlagDataPadded"
| "op_flags (OpHeaders p) =
     flag_if (hp_PadLength p \<noteq> 0) FlagHeadersPadded OR flag_if (hp_EndStream p) FlagHeadersEndStream
     OR flag_if (hp_EndHeaders p) FlagHeadersEndHeaders OR flag_if (hp_Priority p \<noteq> zero_priority) FlagHeadersPriority"
| "op_flags (OpPriority sid p) = 0"
| "op_flags (OpRSTStream sid code) = 0"
| "op_flags (OpSettings ss) = 0"
| "op_flags OpSettingsAck = FlagSettingsAck"
| "op_flags (OpPushPromise p) =
     flag_if (pu_PadLength p \<noteq> 0) FlagPushPromisePadded OR flag_if (pu_EndHeaders p) FlagPushPromiseEndHeaders"
| "op_flags (OpPing ack data) = flag_if ack FlagPingAck"
| "op_flags (OpGoAway sid code debug) = 0"
| "op_flags (OpWindowUpdate sid incr) = 0"
| "op_flags (OpContinuation sid eh frag) = flag_if eh FlagContinuationEndHeaders"
| "op_flags (OpRaw t flags sid payload) = flags"

definition pad_byte :: "byte \<Rightarrow> byte list" where
  "pad_byte n = (if n \<noteq> 0 then [n] else [])"

definition priority_bytes :: "http2_PriorityParam \<Rightarrow> byte list" where
  "priority_bytes p = put_uint32 (encode_priority p) @ [pp_Weight p]"

primrec op_payload :: "write_op \<Rightarrow> byte list" where
  "op_payload (OpData sid es data pad) =
     (case pad of None \<Rightarrow> data | Some p \<Rightarrow> of_nat (length p) # data @ p)"
| "op_payload (OpHeaders p) =
     pad_byte (hp_PadLength p) @ (if hp_Priority p \<noteq> zero_priority then priority_bytes (hp_Priority p) else [])
     @ hp_BlockFragment p @ replicate (unat (hp_PadLength p)) 0"
| "op_payload (OpPriority sid p) = priority_bytes p"
| "op_payload (OpRSTStream sid code) = put_uint32 code"
| "op_payload (OpSettings ss) = settings_payload ss"
| "op_payload OpSettingsAck = []"
| "op_payload (OpPushPromise p) =
     pad_byte (pu_PadLength p) @ put_uint32 (pu_PromiseID p) @ pu_BlockFragment p @ replicate (unat (pu_PadLength p)) 0"
| "op_payload (OpPing ack data) = data"
| "op_payload (OpGoAway sid code debug) = put_uint32 (sid AND mask31) @ put_uint32 code @ debug"
| "op_payload (OpWindowUpdate sid incr) = put_uint32 incr"
| "op_payload (OpContinuation sid eh frag) = frag"
| "op_payload (OpRaw t flags sid payload) = payload"

definition op_header :: "write_op \<Rightarrow> http2_FrameHeader" where
  "op_header op = frame_header (op_type op) (op_flags op) (op_sid op) (op_payload op)"

primrec op_body :: "write_op \<Rightarrow> http2_FrameHeader \<Rightarrow> http2_Frame" where
  "op_body (OpData sid es data pad) fh = DataFrame fh data"
| "op_body (OpHeaders p) fh = HeadersFrame fh (hp_Priority p) (hp_BlockFragment p)"
| "op_body (OpPriority sid p) fh = PriorityFrame fh p"
| "op_body (OpRSTStream sid code) fh = RSTStreamFrame fh code"
| "op_body (OpSettings ss) fh = SettingsFrame fh (settings_payload ss)"
| "op_body OpSettingsAck fh = SettingsFrame fh []"
| "op_body (OpPushPromise p) fh = PushPromiseFrame fh (pu_PromiseID p) (pu_BlockFragment p)"
| "op_body (OpPing ack data) fh = PingFrame fh data"
| "op_body (OpGoAway sid code debug) fh = GoAwayFrame fh (sid AND mask31) code debug"
| "op_body (OpWindowUpdate sid incr) fh = WindowUpdateFrame fh incr"
| "op_body (OpContinuation sid eh frag) fh = ContinuationFrame fh frag"
| "op_body (OpRaw t flags sid payload) fh = UnknownFrame fh payload"

definition op_frame :: "write_op \<Rightarrow> http2_Frame" where
  "op_frame op = op_body op (op_header op)"

text \<open>
  What the write methods leave to their caller: the arguments that are fixed-size arrays, the stream
  of a window update, the initial window size of a SETTINGS frame, and raw frames of a known type.
\<close>

primrec op_ok :: "write_op \<Rightarrow> bool" where
  "op_ok (OpData sid es data pad) = True"
| "op_ok (OpHeaders p) = True"
| "op_ok (OpPriority sid p) = True"
| "op_ok (OpRSTStream sid code) = True"
| "op_ok (OpSettings ss) =
     list_all (\<lambda>s. st_ID s = SettingInitialWindowSize \<longrightarrow> st_Val s \<le> mask31) ss"
| "op_ok OpSettingsAck = True"
| "op_ok (OpPushPromise p) = True"
| "op_ok (OpPing ack data) = (length data = 8)"
| "op_ok (OpGoAway sid code debug) = True"
| "op_ok (OpWindowUpdate sid incr) = validStreamIDOrZero sid"
| "op_ok (OpContinuation sid eh frag) = True"
| "op_ok (OpRaw t flags sid payload) = (validStreamIDOrZero sid \<and> FrameContinuation < t)"

text \<open>What the write methods check.\<close>

primrec op_checked :: "write_op \<Rightarrow> bool" where
  "op_checked (OpData sid es data pad) =
     (validStreamID sid \<and> (case pad of None \<Rightarrow> True | Some p \<Rightarrow> length p \<le> 255 \<and> list_all (\<lambda>b. b = 0) p))"
| "op_checked (OpHeaders p) = (validStreamID (hp_StreamID p) \<and> validStreamIDOrZero (pp_StreamDep (hp_Priority p)))"
| "op_checked (OpPriority sid p) = (validStreamID sid \<and> validStreamIDOrZero (pp_StreamDep p))"
| "op_checked (OpRSTStream sid code) = validStreamID sid"
| "op_checked (OpSettings ss) = True"
| "op_checked OpSettingsAck = True"
| "op_checked (OpPushPromise p) = (validStreamID (pu_StreamID p) \<and> validStreamID (pu_PromiseID p))"
| "op_checked (OpPing ack data) = True"
| "op_checked (OpGoAway sid code debug) = True"
| "op_checked (OpWindowUpdate sid incr) = (1 \<le> incr \<and> incr \<le> 2147483647)"
| "op_checked (OpContinuation sid eh frag) = validStreamID sid"
| "op_checked (OpRaw t flags sid payload) = True"


subsection \<open>The write methods\<close>

lemmas write_defs = startWrite_def writeBytes_def writeByte_def writeUint16_def writeUint32_def

definition frame_wbuf :: "write_op \<Rightarrow> byte list" where
  "frame_wbuf op = [0, 0, 0, op_type op, op_flags op] @ put_uint32 (op_sid op) @ op_payload op"

lemma write_settings_loop_wbuf:
  "write_settings_loop ss f = f\<lparr>fr_wbuf := fr_wbuf f @ settings_payload ss\<rparr>"
  by (induction ss arbitrary: f) (simp_all add: settings_payload_def write_defs)

lemma zero_priority_valid: "validStreamIDOrZero (pp_StreamDep zero_priority)"
  by (simp add: zero_priority_def validStreamIDOrZero_def)

lemma exec_op_checked:
  assumes "\<not> fr_AllowIllegalWrites f" and "op_checked op"
  shows "exec_op wr op f = endWrite wr (f\<lparr>fr_wbuf := frame_wbuf op\<rparr>)"
proof (cases op)
  case (OpData sid es data pad)
  have "length p \<le> 255 \<Longrightarrow> list_all (\<lambda>b. b = 0) p \<Longrightarrow> \<not> list_ex (\<lambda>b. b \<noteq> 0) p" for p :: "byte list"
    by (simp add: list_all_iff list_ex_iff)
  then show ?thesis using assms OpData
    by (cases pad) (simp_all add: WriteDataPadded_def startWriteDataPadded_def Let_def write_defs frame_wbuf_def flag_if_def)
next
  case (OpHeaders p)
  then show ?thesis using assms
    by (cases "hp_Priority p = zero_priority"; cases "hp_PadLength p = 0")
      (simp_all add: WriteHeaders_def PriorityParam_IsZero_def Let_def write_defs frame_wbuf_def flag_if_def
        pad_byte_def priority_bytes_def)
next
  case (OpPushPromise p)
  then show ?thesis using assms
    by (cases "pu_PadLength p = 0") (simp_all add: WritePushPromise_def Let_def write_defs frame_wbuf_def flag_if_def pad_byte_def)
next
  case (OpSettings ss)
  then show ?thesis by (simp add: WriteSettings_def write_settings_loop_wbuf write_defs frame_wbuf_def)
next
  case (OpWindowUpdate sid incr)
  then have "1 \<le> incr" "incr \<le> 2147483647" using assms(2) by simp_all
  then have "\<not> (incr < 1 \<or> incr > 2147483647)" using leD by blast
  then show ?thesis using OpWindowUpdate by (simp add: WriteWindowUpdate_def write_defs frame_wbuf_def)
qed (use assms in \<open>simp_all add: WritePriority_def WriteRSTStream_def WriteSettingsAck_def WritePing_def WriteGoAway_def
  WriteContinuation_def WriteRawFrame_def write_defs frame_wbuf_def flag_if_def priority_bytes_def\<close>)

text \<open>A refused request writes nothing.\<close>

lemma exec_op_unchecked:
  assumes "\<not> fr_AllowIllegalWrites f" and "\<not> op_checked op"
  shows "\<exists>e f'. exec_op wr op f = (Some e, f') \<and> fr_w f' = fr_w f"
proof (cases op)
  case (OpData sid es data pad)
  then show ?thesis using assms
    by (cases pad) (auto simp: WriteDataPadded_def startWriteDataPadded_def Let_def list_all_iff list_ex_iff)
next
  case (OpHeaders p)
  then show ?thesis using assms zero_priority_valid
    by (auto simp: WriteHeaders_def PriorityParam_IsZero_def Let_def write_defs)
next
  case (OpPushPromise p)
  then show ?thesis using assms by (auto simp: WritePushPromise_def Let_def write_defs)
next
  case (OpWindowUpdate sid incr)
  then show ?thesis using assms by (simp add: WriteWindowUpdate_def not_le)
qed (use assms in \<open>auto simp: WritePriority_def WriteRSTStream_def WriteContinuation_def\<close>)

lemma endWrite_buf:
  assumes "fr_wbuf f = [0, 0, 0, t, flags] @ put_uint32 sid @ payload"
  shows "endWrite wr f =
    (if 2 ^ 24 \<le> length payload then (Some http2_ErrFrameTooLarge, f)
     else case wr (frame_bytes t flags sid payload) (fr_w f) of
       (n, err, w) \<Rightarrow>
         ((case err of
             Some e \<Rightarrow> Some (http2_IOError e)
           | None \<Rightarrow> if n \<noteq> length (frame_bytes t flags sid payload) then Some (http2_IOError ErrShortWrite) else None),
          f\<lparr>fr_wbuf := frame_bytes t flags sid payload, fr_w := w\<rparr>))"
proof -
  have l: "length (fr_wbuf f) - frameHeaderLen = length payload" using assms by (simp add: frameHeaderLen_def)
  have b: "put_uint24 (of_nat (length payload)) @ drop 3 (fr_wbuf f) = frame_bytes t flags sid payload"
    using assms by (simp add: frame_bytes_def)
  show ?thesis unfolding endWrite_def l b Let_def ..
qed

locale frame_sink = byte_sink wr written
  for wr :: "(byte, 'w) write_fun" and written :: "'w \<Rightarrow> byte list"
begin

text \<open>A request that succeeds appends exactly its frame to what was written.\<close>

lemma exec_op_written:
  assumes "\<not> fr_AllowIllegalWrites f" and "exec_op wr op f = (None, f')"
  shows "op_checked op" and "length (op_payload op) < 2 ^ 24" and "\<not> fr_AllowIllegalWrites f'"
    and "written (fr_w f') = written (fr_w f) @ frame_bytes (op_type op) (op_flags op) (op_sid op) (op_payload op)"
proof -
  show chk: "op_checked op" using exec_op_unchecked [OF assms(1), of op wr] assms(2) by auto
  let ?b = "frame_bytes (op_type op) (op_flags op) (op_sid op) (op_payload op)"
  obtain n err w where w: "wr ?b (fr_w f) = (n, err, w)" by (cases "wr ?b (fr_w f)")
  have "fr_wbuf (f\<lparr>fr_wbuf := frame_wbuf op\<rparr>) = [0, 0, 0, op_type op, op_flags op] @ put_uint32 (op_sid op) @ op_payload op"
    by (simp add: frame_wbuf_def)
  note eb = endWrite_buf [OF this, of wr]
  have e: "(if 2 ^ 24 \<le> length (op_payload op) then (Some http2_ErrFrameTooLarge, f\<lparr>fr_wbuf := frame_wbuf op\<rparr>)
     else ((case err of
             Some e \<Rightarrow> Some (http2_IOError e)
           | None \<Rightarrow> if n \<noteq> length ?b then Some (http2_IOError ErrShortWrite) else None),
          f\<lparr>fr_wbuf := ?b, fr_w := w\<rparr>)) = (None, f')"
    using assms(2) unfolding exec_op_checked [OF assms(1) chk] eb
    by (cases "2 ^ 24 \<le> length (op_payload op)") (simp_all add: w)
  then show "length (op_payload op) < 2 ^ 24" by (auto split: if_splits)
  have "err = None" "f' = f\<lparr>fr_wbuf := ?b, fr_w := w\<rparr>" using e by (auto split: if_splits option.splits)
  then show "\<not> fr_AllowIllegalWrites f'" "written (fr_w f') = written (fr_w f) @ ?b"
    using assms(1) wr_ok [of ?b "fr_w f" n w] w by simp_all
qed

end

interpretation bfs: frame_sink bufw_Write bufw_written
  by unfold_locales

subsection \<open>The parsers\<close>

lemma length_settings_payload [simp]: "length (settings_payload ss) = 6 * length ss"
  by (induction ss) (simp_all add: settings_payload_def)

lemma drop_settings_payload: "drop (i * 6) (settings_payload ss) = settings_payload (drop i ss)"
proof (induction ss arbitrary: i)
  case Nil
  then show ?case by (simp add: settings_payload_def)
next
  case (Cons s ss)
  show ?case
  proof (cases i)
    case 0
    then show ?thesis by simp
  next
    case (Suc j)
    have "drop 6 (settings_payload (s # ss)) = settings_payload ss" by (simp add: settings_payload_def)
    then have "drop (6 + j * 6) (settings_payload (s # ss)) = drop (j * 6) (settings_payload ss)"
      by (metis drop_drop add.commute)
    with Suc Cons.IH [of j] show ?thesis by simp
  qed
qed

lemma Setting_at_payload: "i < length ss \<Longrightarrow> Setting_at (settings_payload ss) i = ss ! i"
proof -
  assume i: "i < length ss"
  have d: "drop (i * 6) (settings_payload ss) = put_uint16 (st_ID (ss ! i)) @ put_uint32 (st_Val (ss ! i)) @ settings_payload (drop (Suc i) ss)"
    using i unfolding drop_settings_payload by (simp add: Cons_nth_drop_Suc [symmetric] settings_payload_def)
  have "drop (i * 6 + 2) (settings_payload ss) = drop 2 (drop (i * 6) (settings_payload ss))"
    by (simp add: add.commute)
  then have "drop (i * 6 + 2) (settings_payload ss) = put_uint32 (st_Val (ss ! i)) @ settings_payload (drop (Suc i) ss)"
    unfolding d by simp
  with d show ?thesis by (simp add: Setting_at_def)
qed

lemma NumSettings_payload [simp]: "NumSettings (settings_payload ss) = length ss"
  by (simp add: NumSettings_def)

lemma Settings_Value_loop_bound:
  assumes "\<forall>s \<in> set ss. st_ID s = sid \<longrightarrow> st_Val s \<le> b"
  shows "i + k \<le> length ss \<Longrightarrow> Settings_Value_loop (settings_payload ss) sid i k = Some v \<Longrightarrow> v \<le> b"
proof (induction k arbitrary: i)
  case (Suc k)
  then have i: "i < length ss" "Suc i + k \<le> length ss" by simp_all
  show ?case
    using Suc.IH [OF i(2)] Suc.prems(2) assms nth_mem [OF i(1)] by (auto simp: Setting_at_payload [OF i(1)] split: if_splits)
qed simp

lemma settings_parse:
  assumes "op_ok (OpSettings ss)"
  shows "parseSettingsFrame (frame_header FrameSettings 0 0 (settings_payload ss)) (settings_payload ss) =
    Inr (SettingsFrame (frame_header FrameSettings 0 0 (settings_payload ss)) (settings_payload ss))"
proof -
  have "v \<le> mask31" if "Settings_Value (settings_payload ss) SettingInitialWindowSize = Some v" for v
    using Settings_Value_loop_bound [of ss SettingInitialWindowSize mask31 0 "length ss" v] assms that
    by (simp add: Settings_Value_def list_all_iff)
  then show ?thesis
    by (auto simp: parseSettingsFrame_def frame_header_def Flags_Has_def not_less split: option.split)
qed

lemma Flags_Has_data: "Flags_Has (flag_if a 1 OR flag_if b 8) 8 = b"
  by (cases a; cases b) (simp_all add: flag_if_def Flags_Has_def)

lemma Flags_Has_headers:
  "Flags_Has (flag_if a 8 OR flag_if b 1 OR flag_if c 4 OR flag_if d 0x20) 8 = a"
  "Flags_Has (flag_if a 8 OR flag_if b 1 OR flag_if c 4 OR flag_if d 0x20) 0x20 = d"
  by (cases a; cases b; cases c; cases d; simp add: flag_if_def Flags_Has_def)+

lemma Flags_Has_push: "Flags_Has (flag_if a 8 OR flag_if b 4) 8 = a"
  by (cases a; cases b) (simp_all add: flag_if_def Flags_Has_def)

lemma pad_split: "(if n \<noteq> 0 then readByte (pad_byte n @ p) else Some (pad_byte n @ p, 0)) = Some (p, n)"
  by (simp add: pad_byte_def readByte_def)

lemma priority_parse:
  assumes "validStreamIDOrZero (pp_StreamDep prio)"
  shows "Flags_Has (fh_Flags fh) FlagHeadersPriority = (prio \<noteq> zero_priority) \<Longrightarrow>
    parse_headers_priority fh ((if prio \<noteq> zero_priority then priority_bytes prio else []) @ p) = Inr (p, prio)"
  using priority_roundtrip [OF assms]
  by (auto simp: parse_headers_priority_def priority_bytes_def readUint32_def readByte_def)

lemma headers_parse:
  assumes "op_checked (OpHeaders p)"
  shows "parseHeadersFrame (op_header (OpHeaders p)) (op_payload (OpHeaders p)) = Inr (op_frame (OpHeaders p))"
proof -
  let ?fh = "op_header (OpHeaders p)"
  let ?prio = "if hp_Priority p \<noteq> zero_priority then priority_bytes (hp_Priority p) else []"
  let ?rest = "hp_BlockFragment p @ replicate (unat (hp_PadLength p)) 0"
  have fl: "Flags_Has (fh_Flags ?fh) FlagHeadersPadded = (hp_PadLength p \<noteq> 0)"
    "Flags_Has (fh_Flags ?fh) FlagHeadersPriority = (hp_Priority p \<noteq> zero_priority)"
    by (simp_all add: op_header_def frame_header_def Flags_Has_headers)
  have sid: "fh_StreamID ?fh \<noteq> 0" using assms by (simp add: op_header_def frame_header_def validStreamID_def)
  have pr: "parse_headers_priority ?fh (?prio @ ?rest) = Inr (?rest, hp_Priority p)"
    by (rule priority_parse) (use assms fl(2) in simp_all)
  have "op_payload (OpHeaders p) = pad_byte (hp_PadLength p) @ ?prio @ ?rest" by simp
  then show ?thesis
    unfolding parseHeadersFrame_def fl(1) using sid
    by (simp only: pad_split pr option.case prod.case sum.case if_False) (simp add: op_frame_def)
qed

lemma push_parse:
  assumes "op_checked (OpPushPromise p)"
  shows "parsePushPromise (op_header (OpPushPromise p)) (op_payload (OpPushPromise p)) = Inr (op_frame (OpPushPromise p))"
proof -
  let ?fh = "op_header (OpPushPromise p)"
  let ?rest = "put_uint32 (pu_PromiseID p) @ pu_BlockFragment p @ replicate (unat (pu_PadLength p)) 0"
  have fl: "Flags_Has (fh_Flags ?fh) FlagPushPromisePadded = (pu_PadLength p \<noteq> 0)"
    by (simp add: op_header_def frame_header_def Flags_Has_push)
  have sid: "fh_StreamID ?fh \<noteq> 0" "pu_PromiseID p AND mask31 = pu_PromiseID p"
    using assms and_mask31_id by (simp_all add: op_header_def frame_header_def validStreamID_eq)
  have "op_payload (OpPushPromise p) = pad_byte (pu_PadLength p) @ ?rest" by simp
  then show ?thesis
    unfolding parsePushPromise_def fl using sid
    by (simp only: pad_split option.case prod.case if_False) (simp add: op_frame_def readUint32_def)
qed

lemma data_parse:
  assumes "op_checked (OpData sid es data pad)"
  shows "parseDataFrame (op_header (OpData sid es data pad)) (op_payload (OpData sid es data pad)) = Inr (op_frame (OpData sid es data pad))"
proof -
  have fl: "Flags_Has (fh_Flags (op_header (OpData sid es data pad))) FlagDataPadded = (pad \<noteq> None)"
    by (simp add: op_header_def frame_header_def Flags_Has_data)
  have "unat (of_nat n :: byte) = n" if "n \<le> 255" for n using that by (simp add: unat_of_nat)
  then show ?thesis
    unfolding parseDataFrame_def fl using assms
    by (cases pad) (simp_all add: op_frame_def op_header_def frame_header_def readByte_def validStreamID_def)
qed

lemma op_parses:
  assumes "op_ok op" and "op_checked op"
  shows "typeFrameParser (op_type op) (op_header op) (op_payload op) = Inr (op_frame op)"
proof (cases op)
  case (OpData sid es data pad)
  then show ?thesis using data_parse assms(2) by (simp add: typeFrameParser_def del: op_payload.simps)
next
  case (OpHeaders p)
  then show ?thesis using headers_parse assms(2) by (simp add: typeFrameParser_def del: op_payload.simps)
next
  case (OpPushPromise p)
  then show ?thesis using push_parse assms(2) by (simp add: typeFrameParser_def del: op_payload.simps)
next
  case (OpSettings ss)
  then show ?thesis using settings_parse [of ss] assms(1) by (simp add: typeFrameParser_def op_frame_def op_header_def)
next
  case (OpPriority sid p)
  then show ?thesis using assms(2) priority_roundtrip [of p]
    by (simp add: typeFrameParser_def parsePriorityFrame_def op_frame_def op_header_def frame_header_def
        priority_bytes_def validStreamID_eq nth_append)
next
  case (OpWindowUpdate sid incr)
  then have "1 \<le> incr" "incr \<le> 2147483647" using assms(2) by simp_all
  moreover from this have "unat incr < 2 ^ 31" "incr \<noteq> 0" by (auto simp: word_le_nat_alt)
  moreover from this have "incr AND mask31 = incr"
    by (simp add: mask31_eq flip: take_bit_eq_mask) (simp add: take_bit_eq_mod word_arith_nat_mod)
  ultimately show ?thesis
    using OpWindowUpdate get_put_uint32 [of incr "[]"]
    by (simp add: typeFrameParser_def parseWindowUpdateFrame_def op_frame_def op_header_def)
next
  case (OpRaw t flags sid payload)
  then have "9 < unat t" using assms(1) by (simp add: word_less_nat_alt)
  then show ?thesis using OpRaw
    by (auto simp: typeFrameParser_def parseUnknownFrame_def op_frame_def op_header_def)
next
  case (OpGoAway sid code debug)
  then show ?thesis
    by (simp add: typeFrameParser_def parseGoAwayFrame_def op_frame_def op_header_def frame_header_def)
next
  case (OpRSTStream sid code)
  then show ?thesis using assms(2) get_put_uint32 [of code "[]"]
    by (simp add: typeFrameParser_def parseRSTStreamFrame_def op_frame_def op_header_def frame_header_def validStreamID_def)
next
  case OpSettingsAck
  then show ?thesis using settings_parse [of "[]"]
    by (simp add: typeFrameParser_def parseSettingsFrame_def op_frame_def op_header_def frame_header_def
        Settings_Value_def NumSettings_def)
qed (use assms in \<open>simp_all add: typeFrameParser_def parsePingFrame_def parseContinuationFrame_def op_frame_def op_header_def
    frame_header_def validStreamID_def\<close>)

subsection \<open>The order of frames\<close>

text \<open>
  The order a framer enforces, on headers alone: \<open>s\<close> is the stream whose header block is unfinished,
  or 0; the result is the next such stream, or \<open>None\<close> if the frame may not come now.
\<close>

definition order_next :: "32 word \<Rightarrow> http2_FrameHeader \<Rightarrow> 32 word option" where
  "order_next s fh =
     (if s \<noteq> 0 \<and> (fh_Type fh \<noteq> FrameContinuation \<or> fh_StreamID fh \<noteq> s) \<or> s = 0 \<and> fh_Type fh = FrameContinuation then None
      else if fh_Type fh = FrameHeaders \<or> fh_Type fh = FrameContinuation
      then Some (if Flags_Has (fh_Flags fh) FlagHeadersEndHeaders then 0 else fh_StreamID fh)
      else Some s)"

lemma checkFrameOrder_next:
  assumes "\<not> fr_AllowIllegalReads fr"
  shows "case order_next (fr_lastHeaderStream fr) (frame_Header f) of
      Some s \<Rightarrow> checkFrameOrder f fr = (None, fr\<lparr>fr_lastFrame := Some f, fr_lastHeaderStream := s\<rparr>)
    | None \<Rightarrow> \<exists>reason. checkFrameOrder f fr =
        (Some (http2_ConnectionError ErrCodeProtocol), fr\<lparr>fr_lastFrame := Some f, fr_errDetail := Some (Reason reason)\<rparr>)"
  using assms by (auto simp: checkFrameOrder_def order_next_def connError_def Let_def)

fun headers_ordered :: "32 word \<Rightarrow> http2_FrameHeader list \<Rightarrow> bool" where
  "headers_ordered s [] = True"
| "headers_ordered s (fh # fhs) = (case order_next s fh of None \<Rightarrow> False | Some s' \<Rightarrow> headers_ordered s' fhs)"

text \<open>Reading up to \<open>k\<close> frames, stopping at the first error.\<close>

fun read_frames :: "nat \<Rightarrow> 'w http2_Framer \<Rightarrow> http2_Frame list \<times> http2_error option \<times> 'w http2_Framer" where
  "read_frames 0 fr = ([], None, fr)"
| "read_frames (Suc k) fr =
     (case read_wire_frame fr of
        (Inl e, fr1) \<Rightarrow> ([], Some e, fr1)
      | (Inr f, fr1) \<Rightarrow> (case read_frames k fr1 of (fs, e, fr2) \<Rightarrow> (f # fs, e, fr2)))"

fun exec_ops :: "(byte, 'w) write_fun \<Rightarrow> write_op list \<Rightarrow> 'w http2_Framer \<Rightarrow> http2_error option \<times> 'w http2_Framer" where
  "exec_ops wr [] f = (None, f)"
| "exec_ops wr (op # ops) f =
     (case exec_op wr op f of
        (Some e, f1) \<Rightarrow> (Some e, f1)
      | (None, f1) \<Rightarrow> exec_ops wr ops f1)"

definition op_bytes :: "write_op \<Rightarrow> byte list" where
  "op_bytes op = frame_bytes (op_type op) (op_flags op) (op_sid op) (op_payload op)"

context frame_sink
begin

lemma exec_ops_written:
  "\<not> fr_AllowIllegalWrites f \<Longrightarrow> exec_ops wr ops f = (None, f') \<Longrightarrow>
     written (fr_w f') = written (fr_w f) @ concat (map op_bytes ops) \<and>
     (\<forall>op \<in> set ops. op_checked op \<and> length (op_payload op) < 2 ^ 24)"
proof (induction ops arbitrary: f)
  case Nil
  then show ?case by simp
next
  case (Cons op ops)
  then obtain f1 where f1: "exec_op wr op f = (None, f1)" "exec_ops wr ops f1 = (None, f')"
    by (auto split: prod.splits option.splits)
  note w = exec_op_written [OF Cons.prems(1) f1(1)]
  from Cons.IH [OF w(3) f1(2)] w show ?case by (simp add: op_bytes_def)
qed

end

lemma op_frame_header [simp]: "frame_Header (op_frame op) = op_header op"
  by (cases op) (simp_all add: op_frame_def)

lemma op_sid_valid: "op_ok op \<Longrightarrow> op_checked op \<Longrightarrow> validStreamIDOrZero (op_sid op)"
  by (cases op) (simp_all add: validStreamID_eq validStreamIDOrZero_def)

lemma read_op:
  assumes "op_ok op" and "op_checked op" and "length (op_payload op) < 2 ^ 24"
    and "remaining (fr_r rd) = op_bytes op @ rest" and "\<not> fr_AllowIllegalReads rd"
    and "fr_maxReadSize rd = maxFrameSize" and "order_next (fr_lastHeaderStream rd) (op_header op) = Some s"
  shows "\<exists>r. remaining r = rest \<and> read_wire_frame rd = (Inr (op_frame op),
    rd\<lparr>fr_errDetail := None, fr_r := r, fr_lastFrame := Some (op_frame op), fr_lastHeaderStream := s\<rparr>)"
proof -
  have "unat (of_nat (length (op_payload op)) :: 32 word) \<le> unat maxFrameSize"
    using assms(3) by (simp add: of_nat_24(2) maxFrameSize_def)
  then have "of_nat (length (op_payload op)) \<le> fr_maxReadSize rd" using assms(6) by (simp add: word_le_nat_alt)
  from read_wire_frame_bytes [OF assms(4) [unfolded op_bytes_def] assms(3) op_sid_valid [OF assms(1,2)] this]
  obtain r where r: "remaining r = rest"
    "read_wire_frame rd = after_parse (op_header op) (op_payload op) (rd\<lparr>fr_errDetail := None, fr_r := r\<rparr>)"
    unfolding op_header_def by blast
  have "fh_Type (op_header op) = op_type op" by (simp add: op_header_def frame_header_def)
  with op_parses [OF assms(1,2)] checkFrameOrder_next [of "rd\<lparr>fr_errDetail := None, fr_r := r\<rparr>" "op_frame op"] assms(5,7) r
  show ?thesis by (intro exI [of _ r]) (simp add: after_parse_def)
qed

lemma read_ops:
  assumes "\<forall>op \<in> set ops. op_ok op \<and> op_checked op \<and> length (op_payload op) < 2 ^ 24"
    and "remaining (fr_r rd) = concat (map op_bytes ops) @ rest" and "\<not> fr_AllowIllegalReads rd"
    and "fr_maxReadSize rd = maxFrameSize" and "headers_ordered (fr_lastHeaderStream rd) (map op_header ops)"
  shows "\<exists>rd'. read_frames (length ops) rd = (map op_frame ops, None, rd') \<and> remaining (fr_r rd') = rest"
  using assms
proof (induction ops arbitrary: rd)
  case Nil
  then show ?case by simp
next
  case (Cons op ops)
  from Cons.prems(5) obtain s where s: "order_next (fr_lastHeaderStream rd) (op_header op) = Some s"
    "headers_ordered s (map op_header ops)" by (auto split: option.splits)
  have rem: "remaining (fr_r rd) = op_bytes op @ (concat (map op_bytes ops) @ rest)" using Cons.prems(2) by simp
  have "\<exists>r. remaining r = concat (map op_bytes ops) @ rest \<and> read_wire_frame rd = (Inr (op_frame op),
    rd\<lparr>fr_errDetail := None, fr_r := r, fr_lastFrame := Some (op_frame op), fr_lastHeaderStream := s\<rparr>)"
    by (rule read_op [OF _ _ _ rem Cons.prems(3,4) s(1)]) (use Cons.prems(1) in simp_all)
  then obtain r where r: "remaining r = concat (map op_bytes ops) @ rest"
    "read_wire_frame rd = (Inr (op_frame op),
       rd\<lparr>fr_errDetail := None, fr_r := r, fr_lastFrame := Some (op_frame op), fr_lastHeaderStream := s\<rparr>)" by blast
  let ?rd = "rd\<lparr>fr_errDetail := None, fr_r := r, fr_lastFrame := Some (op_frame op), fr_lastHeaderStream := s\<rparr>"
  have "\<exists>rd'. read_frames (length ops) ?rd = (map op_frame ops, None, rd') \<and> remaining (fr_r rd') = rest"
    by (rule Cons.IH) (use Cons.prems r s(2) in simp_all)
  with r(2) show ?case by auto
qed



subsection \<open>What a reader accepts\<close>

lemma parser_header:
  assumes "typeFrameParser t fh p = Inr f"
  shows "frame_Header f = fh" and "t = FrameHeaders \<or> t = FrameContinuation \<Longrightarrow> fh_StreamID fh \<noteq> 0"
  using assms
  by (auto simp: typeFrameParser_def parseDataFrame_def parseHeadersFrame_def parsePriorityFrame_def parseRSTStreamFrame_def
      parseSettingsFrame_def parsePushPromise_def parsePingFrame_def parseGoAwayFrame_def parseWindowUpdateFrame_def
      parseContinuationFrame_def parseUnknownFrame_def Let_def split: if_splits option.splits sum.splits prod.splits)

lemma checkFrameOrder_None:
  assumes "checkFrameOrder f fr = (None, fr')" and "\<not> fr_AllowIllegalReads fr"
  shows "order_next (fr_lastHeaderStream fr) (frame_Header f) = Some (fr_lastHeaderStream fr')"
    and "\<not> fr_AllowIllegalReads fr'"
  using checkFrameOrder_next [OF assms(2), of f] assms by (auto split: option.splits)

lemma read_wire_frame_Inr:
  assumes "read_wire_frame fr = (Inr f, fr')" and "\<not> fr_AllowIllegalReads fr"
  shows "order_next (fr_lastHeaderStream fr) (frame_Header f) = Some (fr_lastHeaderStream fr')"
    and "\<not> fr_AllowIllegalReads fr'"
    and "fh_Type (frame_Header f) = FrameHeaders \<or> fh_Type (frame_Header f) = FrameContinuation \<Longrightarrow> fh_StreamID (frame_Header f) \<noteq> 0"
proof -
  obtain fh payload fr2 where p: "typeFrameParser (fh_Type fh) fh payload = Inr f" "checkFrameOrder f fr2 = (None, fr')"
    "fr_lastHeaderStream fr2 = fr_lastHeaderStream fr" "fr_AllowIllegalReads fr2 = fr_AllowIllegalReads fr"
    using assms(1)
    by (auto simp: read_wire_frame_def connError_def Let_def split: prod.splits sum.splits if_splits option.splits http2_error.splits)
  show "order_next (fr_lastHeaderStream fr) (frame_Header f) = Some (fr_lastHeaderStream fr')" "\<not> fr_AllowIllegalReads fr'"
    using checkFrameOrder_None [OF p(2)] p(3,4) assms(2) by simp_all
  show "fh_StreamID (frame_Header f) \<noteq> 0"
    if "fh_Type (frame_Header f) = FrameHeaders \<or> fh_Type (frame_Header f) = FrameContinuation"
    using parser_header [OF p(1)] that by simp
qed

text \<open>A header block that goes on in the next frame.\<close>

definition unfinished :: "http2_Frame \<Rightarrow> bool" where
  "unfinished f =
     ((fh_Type (frame_Header f) = FrameHeaders \<or> fh_Type (frame_Header f) = FrameContinuation) \<and>
      \<not> Flags_Has (fh_Flags (frame_Header f)) FlagHeadersEndHeaders)"

definition is_continuation :: "http2_Frame \<Rightarrow> bool" where
  "is_continuation f = (fh_Type (frame_Header f) = FrameContinuation)"

fun blocks_contiguous :: "http2_Frame option \<Rightarrow> http2_Frame list \<Rightarrow> bool" where
  "blocks_contiguous prev [] = True"
| "blocks_contiguous prev (f # fs) =
     ((is_continuation f \<longleftrightarrow> (case prev of None \<Rightarrow> False | Some g \<Rightarrow> unfinished g)) \<and>
      (is_continuation f \<longrightarrow> (case prev of None \<Rightarrow> False | Some g \<Rightarrow> fh_StreamID (frame_Header f) = fh_StreamID (frame_Header g))) \<and>
      blocks_contiguous (Some f) fs)"

definition order_state :: "http2_Frame option \<Rightarrow> 32 word" where
  "order_state prev = (case prev of None \<Rightarrow> 0 | Some g \<Rightarrow> if unfinished g then fh_StreamID (frame_Header g) else 0)"

lemma order_next_state:
  assumes "order_next (order_state prev) (frame_Header f) = Some s"
    and "\<forall>g. prev = Some g \<longrightarrow> unfinished g \<longrightarrow> fh_StreamID (frame_Header g) \<noteq> 0"
  shows "s = order_state (Some f)"
    and "is_continuation f \<longleftrightarrow> (case prev of None \<Rightarrow> False | Some g \<Rightarrow> unfinished g)"
    and "is_continuation f \<longrightarrow> (case prev of None \<Rightarrow> False | Some g \<Rightarrow> fh_StreamID (frame_Header f) = fh_StreamID (frame_Header g))"
  using assms by (auto simp: order_next_def order_state_def is_continuation_def unfinished_def split: option.splits if_splits)

lemma read_frames_contiguous:
  assumes "\<not> fr_AllowIllegalReads fr" and "fr_lastHeaderStream fr = order_state prev"
    and "\<forall>g. prev = Some g \<longrightarrow> unfinished g \<longrightarrow> fh_StreamID (frame_Header g) \<noteq> 0"
    and "read_frames k fr = (fs, e, fr')"
  shows "blocks_contiguous prev fs"
  using assms
proof (induction k arbitrary: fr prev fs)
  case 0
  then show ?case by simp
next
  case (Suc k)
  obtain x fr1 where rd: "read_wire_frame fr = (x, fr1)" by fastforce
  show ?case
  proof (cases x)
    case (Inl e1)
    then show ?thesis using Suc.prems(4) rd by simp
  next
    case (Inr f)
    then have rd: "read_wire_frame fr = (Inr f, fr1)" using rd by simp
    obtain fs1 where fs1: "read_frames k fr1 = (fs1, e, fr')" "fs = f # fs1"
      using Suc.prems(4) rd by (auto split: prod.splits)
    note r = read_wire_frame_Inr [OF rd Suc.prems(1)]
    note o = order_next_state [OF r(1) [unfolded Suc.prems(2)] Suc.prems(3)]
    have "blocks_contiguous (Some f) fs1"
      by (rule Suc.IH [OF r(2) o(1) _ fs1(1)]) (use r(3) in \<open>auto simp: unfinished_def\<close>)
    with o(2,3) fs1(2) show ?thesis by simp
  qed
qed

text \<open>Header blocks reach the reader's caller whole. In every sequence of frames a new framer returns,
  a CONTINUATION frame comes exactly after a HEADERS or CONTINUATION frame without END_HEADERS, and
  on the same stream, whatever bytes the peer sends.\<close>

theorem http2_header_blocks_contiguous:
  assumes "read_frames k (NewFramer w r) = (fs, e, fr')"
  shows "blocks_contiguous None fs"
  by (rule read_frames_contiguous [OF _ _ _ assms]) (simp_all add: NewFramer_def SetMaxReadFrameSize_def order_state_def)

text \<open>A connection that breaks between a frame header and its payload is reported as
  \<open>io.EOF\<close>, like one that ends between two frames, and not as \<open>io.ErrUnexpectedEOF\<close>: the error
  of reading the payload is returned as it is.\<close>

theorem http2_truncated_frame_is_EOF:
  "fst (read_wire_frame (NewFramer () \<lparr>bf_buf = [], bf_src = [[0, 0, 5, 0, 0, 0, 0, 0, 1]]\<rparr>)) = Inl (http2_IOError EOF)"
  by (simp add: read_wire_frame_def readFrameHeader_def bufr_ReadFull_def bufr_ReadFull_loop.simps bufr_Read_def bufio_size_def
      frameHeaderLen_def decode_frame_header_def NewFramer_def SetMaxReadFrameSize_def maxFrameSize_def Let_def)

subsection \<open>Duplicate settings\<close>

definition setting_ids :: "byte list \<Rightarrow> 16 word list" where
  "setting_ids p = map (\<lambda>i. st_ID (Setting_at p i)) [0 ..< NumSettings p]"

lemma dup_quadratic_distinct: "dup_quadratic p n \<longleftrightarrow> \<not> distinct (map (\<lambda>i. st_ID (Setting_at p i)) [0 ..< n])"
proof -
  let ?f = "\<lambda>i. st_ID (Setting_at p i)"
  have "dup_quadratic p n \<longleftrightarrow> (\<exists>i j. i < j \<and> j < n \<and> ?f i = ?f j)"
    unfolding dup_quadratic_def list_ex_iff Bex_def set_upt atLeastLessThan_iff Suc_eq_plus1 [symmetric] Suc_le_eq
    by (blast intro: less_trans le0)
  also have "\<dots> \<longleftrightarrow> (\<exists>i < n. \<exists>j < n. i \<noteq> j \<and> ?f i = ?f j)" (is "?l \<longleftrightarrow> ?r")
  proof
    assume ?l
    then obtain i j where "i < j" "j < n" "?f i = ?f j" by blast
    moreover from this have "i < n" "i \<noteq> j" by simp_all
    ultimately show ?r by blast
  next
    assume ?r
    then obtain i j where ij: "i < n" "j < n" "i \<noteq> j" "?f i = ?f j" by blast
    then show ?l by (cases "i < j") (use ij in \<open>auto intro: exI [of _ i] exI [of _ j]\<close>, metis linorder_neqE_nat)
  qed
  also have "\<dots> \<longleftrightarrow> \<not> distinct (map ?f [0 ..< n])" by (auto simp: distinct_conv_nth)
  finally show ?thesis .
qed

lemma dup_seen_distinct:
  "distinct seen \<Longrightarrow> dup_seen p seen is \<longleftrightarrow> \<not> distinct (map (\<lambda>i. st_ID (Setting_at p i)) is @ seen)"
proof (induction "is" arbitrary: seen)
  case Nil
  then show ?case by simp
next
  case (Cons i "is")
  then show ?case by (cases "st_ID (Setting_at p i) \<in> set seen") (auto simp: Let_def)
qed

text \<open>The two algorithms of \<open>HasDuplicates\<close>, the quadratic search for a few settings and the set of
  seen identifiers for many, decide the same thing: whether some identifier occurs twice.\<close>

theorem HasDuplicates_correct: "HasDuplicates p \<longleftrightarrow> \<not> distinct (setting_ids p)"
  using dup_quadratic_distinct [of p "NumSettings p"] dup_seen_distinct [of "[]" p "[0 ..< NumSettings p]"]
  by (simp add: HasDuplicates_def setting_ids_def Let_def)

subsection \<open>Witnesses\<close>

definition example_ops :: "write_op list" where
  "example_ops =
     [OpHeaders \<lparr>hp_StreamID = 1, hp_BlockFragment = [0x82], hp_EndStream = False, hp_EndHeaders = False,
        hp_PadLength = 2, hp_Priority = \<lparr>pp_StreamDep = 3, pp_Exclusive = True, pp_Weight = 7\<rparr>\<rparr>,
      OpContinuation 1 True [0x84],
      OpData 1 True [1, 2, 3] (Some [0])]"

lemmas framer_eval = WriteDataPadded_def startWriteDataPadded_def WriteHeaders_def PriorityParam_IsZero_def WriteContinuation_def
  zero_priority_def write_defs endWrite_def frameHeaderLen_def validStreamID_def validStreamIDOrZero_def encode_priority_def
  bufw_Write_def bufw_Write_loop.simps bufio_size_def Let_def NewFramer_def SetMaxReadFrameSize_def



theorem http2_header_blocks_contiguous_witness:
  "blocks_contiguous None (fst (read_frames 9 (NewFramer () \<lparr>bf_buf = [], bf_src = [[0, 0, 1, 1, 0, 0, 0], [0, 1, 0x82]]\<rparr>)))"
proof -
  obtain fs e fr where "read_frames 9 (NewFramer () \<lparr>bf_buf = [], bf_src = [[0, 0, 1, 1, 0, 0, 0], [0, 1, 0x82]]\<rparr>) = (fs, e, fr)"
    by (cases "read_frames 9 (NewFramer () \<lparr>bf_buf = [], bf_src = [[0, 0, 1, 1, 0, 0, 0], [0, 1, 0x82]]\<rparr>)")
  with http2_header_blocks_contiguous [OF this] show ?thesis by simp
qed

end
