(* ===== verification/Http2_Meta.thy ===== *)
theory Http2_Meta
  imports Http2_Roundtrip
begin

section \<open>Header blocks merged and decoded (h2_bundle.go, readMetaFrame)\<close>

text \<open>
  \<open>ReadFrame\<close> of a framer with a header decoder: a HEADERS frame and its CONTINUATION frames become one
  frame with the decoded fields. The HPACK decoder is not part of the repository: it is a record of
  functions over a decoder state. Its \<open>Write\<close> calls the emit function that the framer installs, which
  is modelled as in the source, and may end with an error.
\<close>

record header_field =
  hf_Name :: string
  hf_Value :: string

definition hf_Size :: "header_field \<Rightarrow> 32 word" where
  "hf_Size hf = of_nat (length (hf_Name hf) + length (hf_Value hf) + 32)"

definition hf_IsPseudo :: "header_field \<Rightarrow> bool" where
  "hf_IsPseudo hf = (hf_Name hf \<noteq> [] \<and> hd (hf_Name hf) = CHR '':'')"

definition validWireHeaderFieldName :: "golib \<Rightarrow> string \<Rightarrow> bool" where
  "validWireHeaderFieldName L v =
     (if v = [] then False
      else list_all (\<lambda>r. lib_isTokenRune L r \<and> \<not> (65 \<le> r \<and> r \<le> 90)) (runes v))"

record http2_MetaHeadersFrame =
  mh_Header :: http2_FrameHeader
  mh_Priority :: http2_PriorityParam
  mh_Fields :: "header_field list"
  mh_Truncated :: bool

fun PseudoValue_loop :: "string \<Rightarrow> header_field list \<Rightarrow> string" where
  "PseudoValue_loop pseudo [] = []"
| "PseudoValue_loop pseudo (hf # hfs) =
     (if \<not> hf_IsPseudo hf then []
      else if tl (hf_Name hf) = pseudo then hf_Value hf
      else PseudoValue_loop pseudo hfs)"

definition PseudoValue :: "http2_MetaHeadersFrame \<Rightarrow> string \<Rightarrow> string" where
  "PseudoValue mh pseudo = PseudoValue_loop pseudo (mh_Fields mh)"

definition RegularFields :: "header_field list \<Rightarrow> header_field list" where
  "RegularFields hfs = dropWhile hf_IsPseudo hfs"

definition PseudoFields :: "header_field list \<Rightarrow> header_field list" where
  "PseudoFields hfs = takeWhile hf_IsPseudo hfs"

definition request_pseudos :: "string list" where
  "request_pseudos = ['':method'', '':path'', '':scheme'', '':authority'']"

text \<open>The loop of \<open>checkPseudos\<close>: the fields before this one, and the two flags.\<close>

fun checkPseudos_loop :: "header_field list \<Rightarrow> bool \<Rightarrow> bool \<Rightarrow> header_field list \<Rightarrow> http2_header_error option" where
  "checkPseudos_loop seen isRequest isResponse [] =
     (if isRequest \<and> isResponse then Some errMixPseudoHeaderTypes else None)"
| "checkPseudos_loop seen isRequest isResponse (hf # pf) =
     (let n = hf_Name hf;
          req = List.member request_pseudos n
      in
        if \<not> req \<and> n \<noteq> '':status'' then Some (pseudoHeaderError n)
        else if list_ex (\<lambda>hf2. n = hf_Name hf2) seen then Some (duplicatePseudoHeaderError n)
        else checkPseudos_loop (seen @ [hf]) (isRequest \<or> req) (isResponse \<or> \<not> req) pf)"

definition checkPseudos :: "header_field list \<Rightarrow> http2_header_error option" where
  "checkPseudos hfs = checkPseudos_loop [] False False (PseudoFields hfs)"

definition maxHeaderListSize :: "'w http2_Framer \<Rightarrow> 32 word" where
  "maxHeaderListSize fr = (if fr_MaxHeaderListSize fr = 0 then push_bit 20 16 else fr_MaxHeaderListSize fr)"

text \<open>On a platform with 64-bit \<open>int\<close>.\<close>

definition maxHeaderStringLen :: "'w http2_Framer \<Rightarrow> nat" where
  "maxHeaderStringLen fr = unat (maxHeaderListSize fr)"

text \<open>The variables that the emit function of \<open>readMetaFrame\<close> closes over, with the decoder's emit flag.\<close>

record meta_state =
  ms_Fields :: "header_field list"
  ms_Truncated :: bool
  ms_remainSize :: "32 word"
  ms_sawRegular :: bool
  ms_invalid :: "http2_header_error option"
  ms_emitEnabled :: bool

definition emit_check :: "golib \<Rightarrow> header_field \<Rightarrow> meta_state \<Rightarrow> meta_state" where
  "emit_check L hf s =
     (let s1 = (if \<not> lib_validHeaderFieldValue L (hf_Value hf)
                then s\<lparr>ms_invalid := Some (headerFieldValueError (hf_Name hf))\<rparr> else s)
      in
        if has_prefix (hf_Name hf) '':'' then
          (if ms_sawRegular s1 then s1\<lparr>ms_invalid := Some errPseudoAfterRegular\<rparr> else s1)
        else
          (let s2 = s1\<lparr>ms_sawRegular := True\<rparr> in
           if \<not> validWireHeaderFieldName L (hf_Name hf)
           then s2\<lparr>ms_invalid := Some (headerFieldNameError (hf_Name hf))\<rparr> else s2))"

definition emit_func :: "golib \<Rightarrow> header_field \<Rightarrow> meta_state \<Rightarrow> meta_state" where
  "emit_func L hf s =
     (let s2 = emit_check L hf s in
      if ms_invalid s2 \<noteq> None then s2\<lparr>ms_emitEnabled := False\<rparr>
      else
        (let size = hf_Size hf in
         if size > ms_remainSize s2
         then s2\<lparr>ms_emitEnabled := False, ms_Truncated := True, ms_remainSize := 0\<rparr>
         else s2\<lparr>ms_remainSize := ms_remainSize s2 - size, ms_Fields := ms_Fields s2 @ [hf]\<rparr>))"

text \<open>
  The decoder: \<open>hd_Write\<close> gets the maximum string length, the emit function and the state it closes over,
  and returns whether it failed. It changes that state only by calling the emit function while the emit
  flag is set.
\<close>

record 'd hpack_decoder =
  hd_Write :: "nat \<Rightarrow> (header_field \<Rightarrow> meta_state \<Rightarrow> meta_state) \<Rightarrow> byte list \<Rightarrow> meta_state \<Rightarrow> 'd \<Rightarrow> bool \<times> meta_state \<times> 'd"
  hd_Close :: "'d \<Rightarrow> bool \<times> 'd"

fun emit_all :: "(header_field \<Rightarrow> meta_state \<Rightarrow> meta_state) \<Rightarrow> header_field list \<Rightarrow> meta_state \<Rightarrow> meta_state" where
  "emit_all emit [] s = s"
| "emit_all emit (hf # hfs) s = (if ms_emitEnabled s then emit_all emit hfs (emit hf s) else s)"

definition emits_only :: "'d hpack_decoder \<Rightarrow> bool" where
  "emits_only D = (\<forall>m emit frag s d. \<exists>hfs. fst (snd (hd_Write D m emit frag s d)) = emit_all emit hfs s)"

text \<open>The result of \<open>ReadFrame\<close>: a frame, perhaps with an error, or an error alone.\<close>

datatype any_frame = WireFrame http2_Frame | MetaFrame http2_MetaHeadersFrame

type_synonym ('w, 'd) read_result = "any_frame option \<times> http2_error option \<times> 'w http2_Framer \<times> 'd"

definition meta_frame :: "http2_FrameHeader \<Rightarrow> http2_PriorityParam \<Rightarrow> meta_state \<Rightarrow> any_frame" where
  "meta_frame fh prio s =
     MetaFrame \<lparr>mh_Header = fh, mh_Priority = prio, mh_Fields = ms_Fields s, mh_Truncated = ms_Truncated s\<rparr>"

lemma read_wire_frame_shrinks:
  assumes "read_wire_frame fr = (Inr f, fr')"
  shows "length (remaining (fr_r fr')) < length (remaining (fr_r fr))"
proof -
  obtain h r1 p r2 n where h: "bufr_ReadFull frameHeaderLen (fr_r fr) = (Inr h, r1)" "bufr_ReadFull n r1 = (Inr p, r2)"
    "fr_r fr' = r2"
    using assms
    by (auto simp: read_wire_frame_def readFrameHeader_def checkFrameOrder_def connError_def Let_def
        split: prod.splits sum.splits if_splits option.splits http2_error.splits)
  have "remaining (fr_r fr) = h @ remaining r1" "9 \<le> length h" "remaining r1 = p @ remaining r2"
    using bufr_ReadFull_Inr [OF h(1)] bufr_ReadFull_Inr [OF h(2)] bufr_ReadFull_length [OF h(1)]
    by (simp_all add: frameHeaderLen_def)
  then show ?thesis using h(3) by (cases h) simp_all
qed

text \<open>The code after the loop.\<close>

definition meta_finish ::
  "'d hpack_decoder \<Rightarrow> http2_FrameHeader \<Rightarrow> http2_PriorityParam \<Rightarrow> meta_state \<Rightarrow> 'w http2_Framer \<Rightarrow> 'd \<Rightarrow> ('w, 'd) read_result" where
  "meta_finish D fh prio s fr d =
     (case hd_Close D d of
        (True, d1) \<Rightarrow> (Some (meta_frame fh prio s), Some (http2_ConnectionError ErrCodeCompression), fr, d1)
      | (False, d1) \<Rightarrow>
          (case ms_invalid s of
             Some e \<Rightarrow>
               (None, Some (http2_StreamError (fh_StreamID fh) ErrCodeProtocol (Some e)), fr\<lparr>fr_errDetail := Some (HeaderError e)\<rparr>, d1)
           | None \<Rightarrow>
               (case checkPseudos (ms_Fields s) of
                  Some e \<Rightarrow>
                    (None, Some (http2_StreamError (fh_StreamID fh) ErrCodeProtocol (Some e)), fr\<lparr>fr_errDetail := Some (HeaderError e)\<rparr>, d1)
                | None \<Rightarrow> (Some (meta_frame fh prio s), None, fr, d1))))"

text \<open>The loop over the fragments: the current fragment and whether it ends the block.\<close>

function meta_loop ::
  "golib \<Rightarrow> 'd hpack_decoder \<Rightarrow> http2_FrameHeader \<Rightarrow> http2_PriorityParam \<Rightarrow> byte list \<Rightarrow> bool \<Rightarrow> meta_state \<Rightarrow> 'w http2_Framer \<Rightarrow> 'd \<Rightarrow> ('w, 'd) read_result go" where
  "meta_loop L D fh prio frag ended s fr d =
     (if length frag > unat (2 * ms_remainSize s)
      then Ret (Some (meta_frame fh prio s), Some (http2_ConnectionError ErrCodeProtocol), fr, d)
      else if ms_invalid s \<noteq> None
      then Ret (Some (meta_frame fh prio s), Some (http2_ConnectionError ErrCodeProtocol), fr, d)
      else
        (case hd_Write D (maxHeaderStringLen fr) (emit_func L) frag s d of
           (True, s1, d1) \<Rightarrow>
             Ret (Some (meta_frame fh prio s1), Some (http2_ConnectionError ErrCodeCompression), fr, d1)
         | (False, s1, d1) \<Rightarrow>
             if ended then Ret (meta_finish D fh prio s1 fr d1)
             else
               (case read_wire_frame fr of
                  (Inl e, fr1) \<Rightarrow> Ret (None, Some e, fr1, d1)
                | (Inr (ContinuationFrame fh2 frag2), fr1) \<Rightarrow>
                    meta_loop L D fh prio frag2 (Flags_Has (fh_Flags fh2) FlagContinuationEndHeaders) s1 fr1 d1
                | (Inr f, fr1) \<Rightarrow> Panic ''interface conversion: not a ContinuationFrame'')))"
  by pat_completeness auto
termination
  by (relation "measure (\<lambda>(L, D, fh, prio, frag, ended, s, fr, d). length (remaining (fr_r fr)))")
    (auto dest!: read_wire_frame_shrinks [OF sym])

declare meta_loop.simps [simp del]

definition meta_init :: "'w http2_Framer \<Rightarrow> meta_state" where
  "meta_init fr =
     \<lparr>ms_Fields = [], ms_Truncated = False, ms_remainSize = maxHeaderListSize fr, ms_sawRegular = False,
      ms_invalid = None, ms_emitEnabled = True\<rparr>"

definition readMetaFrame ::
  "golib \<Rightarrow> 'd hpack_decoder \<Rightarrow> http2_FrameHeader \<Rightarrow> http2_PriorityParam \<Rightarrow> byte list \<Rightarrow> 'w http2_Framer \<Rightarrow> 'd \<Rightarrow> ('w, 'd) read_result go" where
  "readMetaFrame L D fh prio frag fr d =
     (if fr_AllowIllegalReads fr
      then Ret (None, Some (http2_OtherError ''illegal use of AllowIllegalReads with ReadMetaHeaders''), fr, d)
      else meta_loop L D fh prio frag (Flags_Has (fh_Flags fh) FlagHeadersEndHeaders) (meta_init fr) fr d)"

text \<open>\<open>ReadFrame\<close>; the decoder is \<open>None\<close> when \<open>ReadMetaHeaders\<close> is nil.\<close>

definition ReadFrame :: "golib \<Rightarrow> 'd hpack_decoder option \<Rightarrow> 'w http2_Framer \<Rightarrow> 'd \<Rightarrow> ('w, 'd) read_result go" where
  "ReadFrame L Dopt fr d =
     (case read_wire_frame fr of
        (Inl e, fr1) \<Rightarrow> Ret (None, Some e, fr1, d)
      | (Inr f, fr1) \<Rightarrow>
          (case Dopt of
             None \<Rightarrow> Ret (Some (WireFrame f), None, fr1, d)
           | Some D \<Rightarrow>
               if fh_Type (frame_Header f) = FrameHeaders then
                 (case f of
                    HeadersFrame fh prio frag \<Rightarrow> readMetaFrame L D fh prio frag fr1 d
                  | _ \<Rightarrow> Panic ''interface conversion: not a HeadersFrame'')
               else Ret (Some (WireFrame f), None, fr1, d)))"

subsection \<open>What the emit function keeps\<close>

definition field_ok :: "golib \<Rightarrow> header_field \<Rightarrow> bool" where
  "field_ok L hf =
     (lib_validHeaderFieldValue L (hf_Value hf) \<and> (hf_IsPseudo hf \<or> validWireHeaderFieldName L (hf_Name hf)))"

text \<open>Pseudo fields first: no pseudo field after a regular one.\<close>

definition pseudos_first :: "header_field list \<Rightarrow> bool" where
  "pseudos_first hfs = list_all (\<lambda>hf. \<not> hf_IsPseudo hf) (RegularFields hfs)"

definition fields_size :: "header_field list \<Rightarrow> nat" where
  "fields_size hfs = sum_list (map (\<lambda>hf. unat (hf_Size hf)) hfs)"

definition meta_inv :: "golib \<Rightarrow> 32 word \<Rightarrow> meta_state \<Rightarrow> bool" where
  "meta_inv L limit s =
     (list_all (field_ok L) (ms_Fields s) \<and> pseudos_first (ms_Fields s) \<and>
      (list_ex (\<lambda>hf. \<not> hf_IsPseudo hf) (ms_Fields s) \<longrightarrow> ms_sawRegular s) \<and>
      (ms_Truncated s \<or> fields_size (ms_Fields s) + unat (ms_remainSize s) = unat limit) \<and>
      fields_size (ms_Fields s) + unat (ms_remainSize s) \<le> unat limit)"

lemma pseudo_prefix: "has_prefix (hf_Name hf) '':'' \<longleftrightarrow> hf_IsPseudo hf"
  by (cases "hf_Name hf") (auto simp: has_prefix_def hf_IsPseudo_def)

lemma pseudos_first_snoc_regular:
  assumes "pseudos_first hfs" and "\<not> hf_IsPseudo hf"
  shows "pseudos_first (hfs @ [hf])"
proof (cases "\<forall>x \<in> set hfs. hf_IsPseudo x")
  case True
  then show ?thesis using assms(2) by (simp add: pseudos_first_def RegularFields_def)
next
  case False
  then obtain x where "x \<in> set hfs" "\<not> hf_IsPseudo x" by blast
  then show ?thesis using assms by (simp add: pseudos_first_def RegularFields_def)
qed

lemma pseudos_first_snoc_pseudo:
  assumes "\<not> list_ex (\<lambda>hf. \<not> hf_IsPseudo hf) hfs" and "hf_IsPseudo hf"
  shows "pseudos_first (hfs @ [hf])"
proof -
  have "\<forall>x \<in> set hfs. hf_IsPseudo x" using assms(1) by (simp add: list_ex_iff)
  then show ?thesis using assms(2) by (simp add: pseudos_first_def RegularFields_def)
qed

lemma emit_check_keeps:
  "ms_Fields (emit_check L hf s) = ms_Fields s" "ms_remainSize (emit_check L hf s) = ms_remainSize s"
  "ms_Truncated (emit_check L hf s) = ms_Truncated s"
  "ms_sawRegular (emit_check L hf s) = (ms_sawRegular s \<or> \<not> hf_IsPseudo hf)"
  by (auto simp: emit_check_def Let_def pseudo_prefix)

lemma emit_check_ok:
  "ms_invalid (emit_check L hf s) = None \<Longrightarrow> field_ok L hf \<and> (hf_IsPseudo hf \<longrightarrow> \<not> ms_sawRegular s)"
  by (auto simp: emit_check_def Let_def pseudo_prefix field_ok_def split: if_splits)

lemma emit_func_inv:
  assumes "meta_inv L limit s"
  shows "meta_inv L limit (emit_func L hf s)"
proof (cases "ms_invalid (emit_check L hf s) = None \<and> hf_Size hf \<le> ms_remainSize s")
  case False
  then show ?thesis
    using assms by (auto simp: meta_inv_def emit_func_def Let_def emit_check_keeps not_less)
next
  case True
  note ok = emit_check_ok [OF conjunct1 [OF True]]
  have u: "unat (ms_remainSize s - hf_Size hf) + unat (hf_Size hf) = unat (ms_remainSize s)"
    using True by (simp add: unat_sub word_le_nat_alt)
  have "pseudos_first (ms_Fields s @ [hf])"
    using ok assms pseudos_first_snoc_regular pseudos_first_snoc_pseudo unfolding meta_inv_def by blast
  with ok assms u True show ?thesis
    by (auto simp: meta_inv_def fields_size_def emit_func_def emit_check_keeps Let_def not_less)
qed

lemma emit_all_inv: "meta_inv L limit s \<Longrightarrow> meta_inv L limit (emit_all (emit_func L) hfs s)"
  by (induction hfs arbitrary: s) (simp_all add: emit_func_inv)

lemma meta_init_inv: "meta_inv L (maxHeaderListSize fr) (meta_init fr)"
  by (simp add: meta_inv_def meta_init_def pseudos_first_def RegularFields_def fields_size_def)

subsection \<open>Pseudo fields\<close>

definition pseudos_ok :: "header_field list \<Rightarrow> bool" where
  "pseudos_ok hfs =
     (let ns = map hf_Name (PseudoFields hfs) in
      distinct ns \<and> (set ns \<subseteq> set request_pseudos \<or> set ns \<subseteq> {'':status''}))"

lemma checkPseudos_loop_None:
  "checkPseudos_loop seen q r pf = None \<longleftrightarrow>
     (\<forall>hf \<in> set pf. hf_Name hf \<in> set request_pseudos \<or> hf_Name hf = '':status'') \<and>
     distinct (map hf_Name pf) \<and> set (map hf_Name pf) \<inter> set (map hf_Name seen) = {} \<and>
     \<not> ((q \<or> (\<exists>hf \<in> set pf. hf_Name hf \<in> set request_pseudos)) \<and> (r \<or> (\<exists>hf \<in> set pf. hf_Name hf \<notin> set request_pseudos)))"
proof (induction pf arbitrary: seen q r)
  case Nil
  then show ?case by simp
next
  case (Cons hf pf)
  have ns: "'':status'' \<notin> set request_pseudos" by (simp add: request_pseudos_def)
  show ?case
    by (cases "hf_Name hf \<in> set request_pseudos"; cases "hf_Name hf = '':status''"; cases "hf_Name hf \<in> set (map hf_Name seen)")
      (simp_all add: Cons.IH Let_def list_ex_iff image_iff ns, auto simp: ns)
qed

lemma checkPseudos_None: "checkPseudos hfs = None \<longleftrightarrow> pseudos_ok hfs"
proof -
  have s: "'':status'' \<notin> set request_pseudos" by (simp add: request_pseudos_def)
  show ?thesis unfolding checkPseudos_def checkPseudos_loop_None pseudos_ok_def Let_def using s by (auto simp: subset_iff)
qed

subsection \<open>What ReadFrame returns\<close>

definition meta_fields_ok :: "golib \<Rightarrow> 32 word \<Rightarrow> http2_MetaHeadersFrame \<Rightarrow> bool" where
  "meta_fields_ok L limit mh =
     (list_all (field_ok L) (mh_Fields mh) \<and> pseudos_first (mh_Fields mh) \<and> pseudos_ok (mh_Fields mh) \<and>
      fields_size (mh_Fields mh) \<le> unat limit)"

lemma meta_finish_ok:
  assumes "meta_inv L limit s" and "meta_finish D fh prio s fr d = (Some (MetaFrame mh), None, fr', d')"
  shows "meta_fields_ok L limit mh"
proof -
  have "mh_Fields mh = ms_Fields s" "checkPseudos (ms_Fields s) = None"
    using assms(2) by (auto simp: meta_finish_def meta_frame_def split: prod.splits bool.splits option.splits)
  with assms(1) show ?thesis by (auto simp: meta_fields_ok_def meta_inv_def checkPseudos_None)
qed

lemma meta_loop_ok:
  "emits_only D \<Longrightarrow> meta_inv L limit s \<Longrightarrow> meta_loop L D fh prio frag ended s fr d = Ret (Some (MetaFrame mh), None, fr', d') \<Longrightarrow>
    meta_fields_ok L limit mh"
proof (induction L D fh prio frag ended s fr d rule: meta_loop.induct)
  case (1 L D fh prio frag ended s fr d)
  note emits = "1.prems"(1) and inv0 = "1.prems"(2) and ret = "1.prems"(3)
  obtain err s1 d1 where w: "hd_Write D (maxHeaderStringLen fr) (emit_func L) frag s d = (err, s1, d1)"
    by (cases "hd_Write D (maxHeaderStringLen fr) (emit_func L) frag s d")
  obtain hfs where "fst (snd (hd_Write D (maxHeaderStringLen fr) (emit_func L) frag s d)) = emit_all (emit_func L) hfs s"
    using emits unfolding emits_only_def by blast
  then have "s1 = emit_all (emit_func L) hfs s" using w by simp
  with inv0 have inv: "meta_inv L limit s1" by (simp add: emit_all_inv)
  have c: "\<not> unat (2 * ms_remainSize s) < length frag" "\<not> ms_invalid s \<noteq> None" "err = False"
    using ret w by (cases err; simp add: meta_loop.simps [of L D fh prio frag] split: if_splits)+
  have w': "hd_Write D (maxHeaderStringLen fr) (emit_func L) frag s d = (False, s1, d1)" using w c(3) by simp
  show ?case
  proof (cases ended)
    case True
    then show ?thesis
      using ret c w' meta_finish_ok [OF inv] by (simp add: meta_loop.simps [of L D fh prio frag])
  next
    case False
    obtain x fr1 where x: "read_wire_frame fr = (x, fr1)" by fastforce
    have eq: "(case x of Inl e \<Rightarrow> Ret (None, Some e, fr1, d1)
        | Inr (ContinuationFrame fh2 frag2) \<Rightarrow>
            meta_loop L D fh prio frag2 (Flags_Has (fh_Flags fh2) FlagContinuationEndHeaders) s1 fr1 d1
        | Inr f \<Rightarrow> Panic ''interface conversion: not a ContinuationFrame'') = Ret (Some (MetaFrame mh), None, fr', d')"
      using ret c w' False x by (simp add: meta_loop.simps [of L D fh prio frag])
    then obtain fh2 frag2 where f: "x = Inr (ContinuationFrame fh2 frag2)"
      by (cases x) (auto split: http2_Frame.splits)
    show ?thesis
      by (rule "1.IH" [OF c(1,2) w' [symmetric] refl refl False x [symmetric] f refl emits inv]) (use eq f in simp_all)
  qed
qed

lemma parser_shape:
  assumes "typeFrameParser t fh p = Inr f"
  shows "t = FrameContinuation \<Longrightarrow> \<exists>frag. f = ContinuationFrame fh frag"
    and "t = FrameHeaders \<Longrightarrow> \<exists>prio frag. f = HeadersFrame fh prio frag"
  using assms
  by (auto simp: typeFrameParser_def parseHeadersFrame_def parseContinuationFrame_def split: if_splits option.splits sum.splits prod.splits)

lemma read_wire_frame_shape:
  assumes "read_wire_frame fr = (Inr f, fr')"
  shows "fh_Type (frame_Header f) = FrameContinuation \<Longrightarrow> \<exists>fh frag. f = ContinuationFrame fh frag"
    and "fh_Type (frame_Header f) = FrameHeaders \<Longrightarrow> \<exists>fh prio frag. f = HeadersFrame fh prio frag"
proof -
  obtain fh payload where p: "typeFrameParser (fh_Type fh) fh payload = Inr f"
    using assms
    by (auto simp: read_wire_frame_def connError_def Let_def split: prod.splits sum.splits if_splits option.splits http2_error.splits)
  from parser_header(1) [OF p] parser_shape [OF p]
  show "fh_Type (frame_Header f) = FrameContinuation \<Longrightarrow> \<exists>fh frag. f = ContinuationFrame fh frag"
    "fh_Type (frame_Header f) = FrameHeaders \<Longrightarrow> \<exists>fh prio frag. f = HeadersFrame fh prio frag" by auto
qed

text \<open>While a header block is unfinished, the framer is waiting for a frame on its stream.\<close>

lemma meta_loop_no_panic:
  "\<not> fr_AllowIllegalReads fr \<Longrightarrow> ended \<or> fr_lastHeaderStream fr \<noteq> 0 \<Longrightarrow> no_panic (meta_loop L D fh prio frag ended s fr d)"
proof (induction L D fh prio frag ended s fr d rule: meta_loop.induct)
  case (1 L D fh prio frag ended s fr d)
  obtain err s1 d1 where w: "hd_Write D (maxHeaderStringLen fr) (emit_func L) frag s d = (err, s1, d1)"
    by (cases "hd_Write D (maxHeaderStringLen fr) (emit_func L) frag s d")
  obtain x fr1 where x: "read_wire_frame fr = (x, fr1)" by fastforce
  show ?case
  proof (cases "unat (2 * ms_remainSize s) < length frag \<or> ms_invalid s \<noteq> None \<or> err \<or> ended \<or> (\<exists>e. x = Inl e)")
    case True
    then show ?thesis using w x by (cases err) (auto simp: meta_loop.simps [of L D fh prio frag])
  next
    case False
    then obtain f where f: "x = Inr f" by (cases x) auto
    note rd = x [unfolded f]
    from False have c: "\<not> unat (2 * ms_remainSize s) < length frag" "\<not> ms_invalid s \<noteq> None" "err = False" "\<not> ended" by auto
    note o = read_wire_frame_Inr [OF rd "1.prems"(1)]
    have s0: "fr_lastHeaderStream fr \<noteq> 0" using "1.prems"(2) c(4) by simp
    then have t: "fh_Type (frame_Header f) = FrameContinuation"
      using o(1) by (auto simp: order_next_def split: if_splits)
    then obtain fh2 frag2 where f2: "f = ContinuationFrame fh2 frag2" using read_wire_frame_shape(1) [OF rd] by blast
    have nxt: "Flags_Has (fh_Flags fh2) FlagContinuationEndHeaders \<or> fr_lastHeaderStream fr1 \<noteq> 0"
      using o(1,3) t f2 s0 by (auto simp: order_next_def split: if_splits)
    have w': "hd_Write D (maxHeaderStringLen fr) (emit_func L) frag s d = (False, s1, d1)" using w c(3) by simp
    from "1.IH" [OF c(1,2) w' [symmetric] refl refl c(4) rd [symmetric] refl f2 o(2) nxt]
    show ?thesis using c w' rd f2 by (simp add: meta_loop.simps [of L D fh prio frag])
  qed
qed


text \<open>C11: the header fields a framer returns are well formed. With a decoder that changes the header
  state only through the emit function, every merged header frame returned without error has valid
  values and lower-case token names, its pseudo fields come first, are known, unique and all of a
  request or all of a response, and the fields together stay within the maximum header list size.\<close>

theorem ReadFrame_fields_ok:
  assumes "emits_only D" and "ReadFrame L (Some D) fr d = Ret (Some (MetaFrame mh), None, fr', d')"
  shows "meta_fields_ok L (maxHeaderListSize fr) mh"
proof -
  obtain f fr1 where x: "read_wire_frame fr = (Inr f, fr1)"
    using assms(2) by (auto simp: ReadFrame_def split: prod.splits sum.splits)
  then obtain fh prio frag where h: "f = HeadersFrame fh prio frag" "readMetaFrame L D fh prio frag fr1 d = Ret (Some (MetaFrame mh), None, fr', d')"
    using assms(2) by (auto simp: ReadFrame_def split: if_splits http2_Frame.splits)
  have "fr_MaxHeaderListSize fr1 = fr_MaxHeaderListSize fr"
    using x by (auto simp: read_wire_frame_def checkFrameOrder_def connError_def Let_def
        split: prod.splits sum.splits if_splits option.splits http2_error.splits)
  then have "maxHeaderListSize fr1 = maxHeaderListSize fr" by (simp add: maxHeaderListSize_def)
  with meta_loop_ok [OF assms(1) meta_init_inv [of L fr1]] h(2) show ?thesis
    by (auto simp: readMetaFrame_def split: if_splits)
qed

text \<open>With a maximum header list size of \<open>2^31\<close> every header block that is not empty is refused with a
  connection error: the limit on a fragment, twice the bytes that remain, wraps around to 0 in 32 bits.\<close>

theorem header_limit_wraps:
  assumes "fr_MaxHeaderListSize fr = 2 ^ 31" and "\<not> fr_AllowIllegalReads fr" and "frag \<noteq> []"
  shows "readMetaFrame L D fh prio frag fr d =
    Ret (Some (meta_frame fh prio (meta_init fr)), Some (http2_ConnectionError ErrCodeProtocol), fr, d)"
proof -
  have "2 * ms_remainSize (meta_init fr) = (0 :: 32 word)" using assms(1) by (simp add: meta_init_def maxHeaderListSize_def)
  then show ?thesis using assms(2,3) by (simp add: readMetaFrame_def meta_loop.simps [of L D fh prio frag])
qed

subsection \<open>Witnesses\<close>

text \<open>A decoder for examples: every fragment is one field whose name is the fragment's bytes.\<close>

definition example_decoder :: "unit hpack_decoder" where
  "example_decoder =
     \<lparr>hd_Write = \<lambda>m emit frag s d.
        (False, emit_all emit [\<lparr>hf_Name = map (\<lambda>b. byte_of (unat b)) frag, hf_Value = ''x''\<rparr>] s, d),
      hd_Close = \<lambda>d. (False, d)\<rparr>"

lemma example_decoder_emits: "emits_only example_decoder"
  by (auto simp: emits_only_def example_decoder_def intro: exI [of _ "[hf]" for hf])

definition example_framer :: "unit http2_Framer" where
  "example_framer = NewFramer () \<lparr>bf_buf = [], bf_src = [[0, 0, 2, 1, 4, 0, 0, 0, 1, 0x61, 0x62]]\<rparr>"

lemma example_header_read:
  "read_wire_frame example_framer =
     (Inr (HeadersFrame \<lparr>fh_Type = 1, fh_Flags = 4, fh_Length = 2, fh_StreamID = 1\<rparr> zero_priority [0x61, 0x62]),
      example_framer\<lparr>fr_r := \<lparr>bf_buf = [], bf_src = [[]]\<rparr>,
        fr_lastFrame := Some (HeadersFrame \<lparr>fh_Type = 1, fh_Flags = 4, fh_Length = 2, fh_StreamID = 1\<rparr> zero_priority [0x61, 0x62])\<rparr>)"
  by (simp add: example_framer_def read_wire_frame_def readFrameHeader_def bufr_ReadFull_def bufr_ReadFull_loop.simps bufr_Read_def
      bufio_size_def frameHeaderLen_def decode_frame_header_def NewFramer_def SetMaxReadFrameSize_def maxFrameSize_def Let_def
      mask31_def typeFrameParser_def parseHeadersFrame_def parse_headers_priority_def Flags_Has_def checkFrameOrder_def)

lemma example_header_decoded:
  "\<exists>mh fr' d'. ReadFrame example_lib (Some example_decoder) example_framer () = Ret (Some (MetaFrame mh), None, fr', d') \<and>
     mh_Fields mh = [\<lparr>hf_Name = ''ab'', hf_Value = ''x''\<rparr>]"
  unfolding ReadFrame_def example_header_read
  by (simp add: readMetaFrame_def meta_loop.simps example_framer_def NewFramer_def SetMaxReadFrameSize_def
      Flags_Has_def meta_init_def maxHeaderListSize_def example_decoder_def emit_func_def emit_check_def example_lib_def
      has_prefix_def validWireHeaderFieldName_def decode_rune_def ascii_alnum_def hf_Size_def byte_of_def Let_def
      meta_finish_def meta_frame_def checkPseudos_def PseudoFields_def hf_IsPseudo_def char_of_def bit_0)

theorem ReadFrame_fields_ok_witness:
  "\<exists>mh fr' d'. ReadFrame example_lib (Some example_decoder) example_framer () = Ret (Some (MetaFrame mh), None, fr', d') \<and>
     meta_fields_ok example_lib (maxHeaderListSize example_framer) mh"
  using example_header_decoded ReadFrame_fields_ok [OF example_decoder_emits, of example_lib example_framer "()"] by blast

theorem header_limit_wraps_witness:
  "fst (snd (case readMetaFrame example_lib example_decoder \<lparr>fh_Type = 1, fh_Flags = 4, fh_Length = 2, fh_StreamID = 1\<rparr> zero_priority [0x61, 0x62]
      (example_framer\<lparr>fr_MaxHeaderListSize := 2 ^ 31\<rparr>) () of Ret x \<Rightarrow> x)) = Some (http2_ConnectionError ErrCodeProtocol)"
  using header_limit_wraps [of "example_framer\<lparr>fr_MaxHeaderListSize := 2 ^ 31\<rparr>" "[0x61, 0x62]" example_lib example_decoder
      "\<lparr>fh_Type = 1, fh_Flags = 4, fh_Length = 2, fh_StreamID = 1\<rparr>" zero_priority "()"]
  by (simp add: example_framer_def NewFramer_def SetMaxReadFrameSize_def)

end
