(* ===== verification/Http2_Flow.thy ===== *)
theory Http2_Flow
  imports Bytes
begin

section \<open>HTTP/2 flow control (h2_bundle.go, inflow and outflow)\<close>

text \<open>
  Windows are 32-bit two's complement words, read by \<open>sint\<close>, as the source's \<open>int32\<close>. The stream
  windows for sending share the connection's window, which the source reaches by a pointer: here
  the state holds the connection's window and one window per stream.
\<close>

abbreviation (input) maxWindow :: int where
  "maxWindow \<equiv> 2147483647"

subsection \<open>Receiving: inflow\<close>

definition inflowMinRefresh :: int where
  "inflowMinRefresh = 4096"

record http2_inflow =
  if_avail :: "32 word"
  if_unsent :: "32 word"

definition inflow_init :: "32 word \<Rightarrow> http2_inflow \<Rightarrow> http2_inflow" where
  "inflow_init n f = f\<lparr>if_avail := n\<rparr>"

definition inflow_add :: "64 word \<Rightarrow> http2_inflow \<Rightarrow> (32 word \<times> http2_inflow) go" where
  "inflow_add n f =
     (if sint n < 0 then Panic ''negative update''
      else
        (let unsent = scast (if_unsent f) + n in
         if sint (unsent + scast (if_avail f)) > maxWindow
         then Panic ''flow control update exceeds maximum window size''
         else
           (let u = ucast unsent; f1 = f\<lparr>if_unsent := u\<rparr> in
            if sint (if_unsent f1) < inflowMinRefresh \<and> sint (if_unsent f1) < sint (if_avail f1) then Ret (0, f1)
            else Ret (u, f1\<lparr>if_avail := if_avail f1 + if_unsent f1, if_unsent := 0\<rparr>))))"

definition inflow_take :: "32 word \<Rightarrow> http2_inflow \<Rightarrow> bool \<times> http2_inflow" where
  "inflow_take n f = (if n > if_avail f then (False, f) else (True, f\<lparr>if_avail := if_avail f - n\<rparr>))"

definition takeInflows :: "http2_inflow \<Rightarrow> http2_inflow \<Rightarrow> 32 word \<Rightarrow> bool \<times> http2_inflow \<times> http2_inflow" where
  "takeInflows f1 f2 n =
     (if n > if_avail f1 \<or> n > if_avail f2 then (False, f1, f2)
      else (True, f1\<lparr>if_avail := if_avail f1 - n\<rparr>, f2\<lparr>if_avail := if_avail f2 - n\<rparr>))"

subsection \<open>Sending: outflow\<close>

record http2_outflows =
  conn_n :: "32 word"
  stream_n :: "nat \<Rightarrow> 32 word"

datatype flow_ref = ConnFlow | StreamFlow nat

fun flow_n :: "http2_outflows \<Rightarrow> flow_ref \<Rightarrow> 32 word" where
  "flow_n fs ConnFlow = conn_n fs"
| "flow_n fs (StreamFlow s) = stream_n fs s"

fun set_flow_n :: "http2_outflows \<Rightarrow> flow_ref \<Rightarrow> 32 word \<Rightarrow> http2_outflows" where
  "set_flow_n fs ConnFlow v = fs\<lparr>conn_n := v\<rparr>"
| "set_flow_n fs (StreamFlow s) v = fs\<lparr>stream_n := (stream_n fs)(s := v)\<rparr>"

definition outflow_available :: "http2_outflows \<Rightarrow> flow_ref \<Rightarrow> 32 word" where
  "outflow_available fs f =
     (let n = flow_n fs f in
      if f \<noteq> ConnFlow \<and> sint (conn_n fs) < sint n then conn_n fs else n)"

definition outflow_take :: "http2_outflows \<Rightarrow> flow_ref \<Rightarrow> 32 word \<Rightarrow> http2_outflows go" where
  "outflow_take fs f n =
     (if sint n > sint (outflow_available fs f) then Panic ''internal error: took too much''
      else
        (let fs1 = set_flow_n fs f (flow_n fs f - n) in
         Ret (if f \<noteq> ConnFlow then fs1\<lparr>conn_n := conn_n fs1 - n\<rparr> else fs1)))"

definition outflow_add :: "http2_outflows \<Rightarrow> flow_ref \<Rightarrow> 32 word \<Rightarrow> bool \<times> http2_outflows" where
  "outflow_add fs f n =
     (let sum = flow_n fs f + n in
      if (sint sum > sint n) = (sint (flow_n fs f) > 0) then (True, set_flow_n fs f sum) else (False, fs))"

subsection \<open>Signed words\<close>

lemma sint32_bounds: "- (2 ^ 31) \<le> sint (w :: 32 word)" "sint (w :: 32 word) < 2 ^ 31"
  using sint_greater_eq [of w] sint_less [of w] by simp_all

lemma sint64_bounds: "- (2 ^ 63) \<le> sint (w :: 64 word)" "sint (w :: 64 word) < 2 ^ 63"
  using sint_greater_eq [of w] sint_less [of w] by simp_all

lemma sint32_of: "- (2 ^ 31) \<le> z \<Longrightarrow> z < 2 ^ 31 \<Longrightarrow> sint (word_of_int z :: 32 word) = z"
  by (simp add: sint_sbintrunc' signed_take_bit_int_eq_self)

lemma sint64_of: "- (2 ^ 63) \<le> z \<Longrightarrow> z < 2 ^ 63 \<Longrightarrow> sint (word_of_int z :: 64 word) = z"
  by (simp add: sint_sbintrunc' signed_take_bit_int_eq_self)

lemma sint32_add: "- (2 ^ 31) \<le> sint a + sint b \<Longrightarrow> sint a + sint b < 2 ^ 31 \<Longrightarrow> sint (a + b :: 32 word) = sint a + sint b"
  by (simp add: sint_word_ariths signed_take_bit_int_eq_self)

lemma sint32_sub: "- (2 ^ 31) \<le> sint a - sint b \<Longrightarrow> sint a - sint b < 2 ^ 31 \<Longrightarrow> sint (a - b :: 32 word) = sint a - sint b"
  by (simp add: sint_word_ariths signed_take_bit_int_eq_self)

lemma sint64_add: "- (2 ^ 63) \<le> sint a + sint b \<Longrightarrow> sint a + sint b < 2 ^ 63 \<Longrightarrow> sint (a + b :: 64 word) = sint a + sint b"
  by (simp add: sint_word_ariths signed_take_bit_int_eq_self)

lemma sint_scast64: "sint (scast (w :: 32 word) :: 64 word) = sint w"
proof -
  have "sint (word_of_int (sint w) :: 64 word) = sint w" by (rule sint64_of) (use sint32_bounds [of w] in simp_all)
  then show ?thesis by (simp only: scast_eq)
qed

lemma sint_ucast32:
  assumes "- (2 ^ 31) \<le> sint w" and "sint w < 2 ^ 31"
  shows "sint (ucast (w :: 64 word) :: 32 word) = sint w"
proof -
  have "sint (ucast w :: 32 word) = signed_take_bit 31 (signed_take_bit 63 (uint w))"
    by (simp add: sint_uint unsigned_ucast_eq signed_take_bit_take_bit)
  also have "signed_take_bit 63 (uint w) = sint w" by (simp add: sint_uint)
  finally show ?thesis using assms by (simp add: signed_take_bit_int_eq_self)
qed

lemma unat_sint:
  assumes "0 \<le> sint (w :: 32 word)"
  shows "int (unat w) = sint w"
proof -
  have "uint w = sint w"
    using assms by (simp add: uint_sint take_bit_int_eq_self_iff) (use sint32_bounds [of w] in simp)
  then show ?thesis by simp
qed

subsection \<open>Received bytes\<close>

definition inflow_ok :: "http2_inflow \<Rightarrow> bool" where
  "inflow_ok f =
     (0 \<le> sint (if_avail f) \<and> 0 \<le> sint (if_unsent f) \<and> sint (if_avail f) + sint (if_unsent f) \<le> maxWindow)"

lemma inflow_add_value:
  assumes ok: "inflow_ok f" and n: "0 \<le> sint n" "sint n < 2 ^ 62"
  shows "inflow_add n f =
    (let u = sint (if_unsent f) + sint n in
     if u + sint (if_avail f) > maxWindow then Panic ''flow control update exceeds maximum window size''
     else if u < inflowMinRefresh \<and> u < sint (if_avail f) then Ret (0, f\<lparr>if_unsent := word_of_int u\<rparr>)
     else Ret (word_of_int u, f\<lparr>if_avail := if_avail f + word_of_int u, if_unsent := 0\<rparr>))"
proof -
  define u where "u = sint (if_unsent f) + sint n"
  have b: "0 \<le> sint (if_avail f)" "0 \<le> sint (if_unsent f)" "sint (if_avail f) + sint (if_unsent f) \<le> maxWindow"
    using ok by (simp_all add: inflow_ok_def)
  have s1: "sint (scast (if_unsent f) + n) = u"
    using sint64_add [of "scast (if_unsent f)" n] b n by (simp add: sint_scast64 u_def)
  have s2: "sint (scast (if_unsent f) + n + scast (if_avail f)) = u + sint (if_avail f)"
    using sint64_add [of "scast (if_unsent f) + n" "scast (if_avail f)"] b n s1 by (simp add: sint_scast64 u_def)
  show ?thesis
  proof (cases "u + sint (if_avail f) > maxWindow")
    case True
    then show ?thesis using n s2 by (simp add: inflow_add_def Let_def u_def)
  next
    case False
    have s3: "sint (ucast (scast (if_unsent f) + n) :: 32 word) = u"
      using sint_ucast32 [of "scast (if_unsent f) + n"] s1 False b n by (simp add: u_def)
    have s4: "sint (word_of_int u :: 32 word) = u" using sint32_of [of u] False b n by (simp add: u_def)
    from trans [OF s3 s4 [symmetric]] have w: "(ucast (scast (if_unsent f) + n) :: 32 word) = word_of_int u" by (rule signed_word_eqI)
    show ?thesis
      using False n s2 s4 unfolding inflow_add_def Let_def u_def [symmetric] w by simp
  qed
qed

text \<open>Crediting received bytes. On a window that is in order, \<open>add\<close> of \<open>n\<close> bytes panics exactly when
  window, withheld credit and \<open>n\<close> together exceed the maximum window; otherwise the credit is either
  sent to the peer as a whole or withheld as a whole, nothing is lost and no 32-bit value wraps, and
  credit stays withheld only while it is below the refresh limit and below the window the peer still has.\<close>

theorem inflow_add_correct:
  assumes "inflow_ok f" and "0 \<le> sint n" and "sint n < 2 ^ 62"
  shows "if sint (if_avail f) + sint (if_unsent f) + sint n > maxWindow then \<not> no_panic (inflow_add n f)
    else \<exists>k f'. inflow_add n f = Ret (k, f') \<and> inflow_ok f' \<and>
      sint (if_avail f') = sint (if_avail f) + sint k \<and>
      sint (if_unsent f') + sint k = sint (if_unsent f) + sint n \<and>
      (if_unsent f' = 0 \<or> sint (if_unsent f') < inflowMinRefresh \<and> sint (if_unsent f') < sint (if_avail f'))"
proof -
  define u where "u = sint (if_unsent f) + sint n"
  have b: "0 \<le> sint (if_avail f)" "0 \<le> u" using assms by (simp_all add: inflow_ok_def u_def)
  note v = inflow_add_value [OF assms, folded u_def, unfolded Let_def]
  show ?thesis
  proof (cases "u + sint (if_avail f) > maxWindow")
    case True
    then show ?thesis using v by (simp add: u_def)
  next
    case False
    have su: "sint (word_of_int u :: 32 word) = u" using sint32_of [of u] False b by simp
    have sa: "sint (if_avail f + word_of_int u) = sint (if_avail f) + u"
      using sint32_add [of "if_avail f" "word_of_int u"] su False b by simp
    show ?thesis
    proof (cases "u < inflowMinRefresh \<and> u < sint (if_avail f)")
      case True
      then show ?thesis using v False su b by (simp add: u_def inflow_ok_def)
    next
      case big: False
      have "inflow_add n f = Ret (word_of_int u, f\<lparr>if_avail := if_avail f + word_of_int u, if_unsent := 0\<rparr>)"
        using v False big by simp
      then show ?thesis using False sa su b by (simp add: u_def inflow_ok_def)
    qed
  qed
qed

lemma inflow_add_step:
  assumes "inflow_ok f" and n: "0 \<le> sint n" "sint n < 2 ^ 62" and r: "inflow_add n f = Ret (k, f')"
  shows "inflow_ok f'" "sint (if_avail f') = sint (if_avail f) + sint k"
    "sint (if_unsent f') + sint k = sint (if_unsent f) + sint n" "0 \<le> sint k"
proof -
  define u where "u = sint (if_unsent f) + sint n"
  have b: "0 \<le> sint (if_avail f)" "0 \<le> u" using assms by (simp_all add: inflow_ok_def u_def)
  note v = inflow_add_value [OF assms(1) n, folded u_def, unfolded Let_def, unfolded r]
  then have le: "\<not> u + sint (if_avail f) > maxWindow" by (auto split: if_splits)
  have su: "sint (word_of_int u :: 32 word) = u" using sint32_of [of u] le b by simp
  have sa: "sint (if_avail f + word_of_int u) = sint (if_avail f) + u"
    using sint32_add [of "if_avail f" "word_of_int u"] su le b by simp
  show "inflow_ok f'" "sint (if_avail f') = sint (if_avail f) + sint k"
    "sint (if_unsent f') + sint k = sint (if_unsent f) + sint n" "0 \<le> sint k"
    using v le su sa b by (auto simp: inflow_ok_def u_def split: if_splits)
qed

lemma inflow_take_step:
  assumes "inflow_ok f" and "inflow_take n f = (True, f')"
  shows "inflow_ok f'" "sint (if_avail f') = sint (if_avail f) - int (unat n)" "if_unsent f' = if_unsent f"
proof -
  have le: "n \<le> if_avail f" and f': "f' = f\<lparr>if_avail := if_avail f - n\<rparr>"
    using assms(2) by (auto simp: inflow_take_def not_less split: if_splits)
  have a: "int (unat (if_avail f)) = sint (if_avail f)" using assms(1) unat_sint by (simp add: inflow_ok_def)
  have nle: "unat n \<le> unat (if_avail f)" using le by (simp add: word_le_nat_alt)
  moreover have "int (unat (if_avail f)) < 2 ^ 31" using a sint32_bounds(2) [of "if_avail f"] by (simp only:)
  ultimately have "int (unat n) < 2 ^ 31" by linarith
  moreover have "- (2 ^ 31) \<le> int (unat n)" by (rule order_trans [of _ 0]) simp_all
  ultimately have "sint (word_of_int (int (unat n)) :: 32 word) = int (unat n)" by (intro sint32_of)
  then have sn: "sint n = int (unat n)" by simp
  have d: "0 \<le> sint (if_avail f) - sint n" "sint (if_avail f) - sint n \<le> sint (if_avail f)"
    using a nle unfolding sn by linarith+
  have "sint (if_avail f - n) = sint (if_avail f) - sint n"
    by (rule sint32_sub) (use d sint32_bounds(2) [of "if_avail f"] in linarith)+
  then show "inflow_ok f'" "sint (if_avail f') = sint (if_avail f) - int (unat n)" "if_unsent f' = if_unsent f"
    using f' assms(1) d unfolding sn [symmetric] by (simp_all add: inflow_ok_def)
qed

text \<open>The states a window reaches, with the bytes credited, sent to the peer and taken so far.\<close>

inductive inflow_reach :: "32 word \<Rightarrow> http2_inflow \<Rightarrow> int \<Rightarrow> int \<Rightarrow> int \<Rightarrow> bool" for init where
  reach_init: "0 \<le> sint init \<Longrightarrow> inflow_reach init (inflow_init init \<lparr>if_avail = 0, if_unsent = 0\<rparr>) 0 0 0"
| reach_add: "inflow_reach init f credited sent taken \<Longrightarrow> 0 \<le> sint n \<Longrightarrow> sint n < 2 ^ 62 \<Longrightarrow> inflow_add n f = Ret (k, f') \<Longrightarrow>
    inflow_reach init f' (credited + sint n) (sent + sint k) taken"
| reach_take: "inflow_reach init f credited sent taken \<Longrightarrow> inflow_take n f = (True, f') \<Longrightarrow>
    inflow_reach init f' credited sent (taken + int (unat n))"

text \<open>C14: the books of a receive window balance in every reachable state: the window the receiver enforces
  is the initial one plus the updates sent minus the bytes taken and is never negative, so the peer
  has not sent more than it was allowed to, and the credit not yet sent is the credit given minus
  the updates sent.\<close>

theorem inflow_balance:
  assumes "inflow_reach init f credited sent taken"
  shows "inflow_ok f \<and> sint (if_avail f) = sint init + sent - taken \<and> sint (if_unsent f) = credited - sent \<and> 0 \<le> sent"
  using assms
proof (induction rule: inflow_reach.induct)
  case reach_init
  then show ?case using sint32_bounds(2) [of init] by (simp add: inflow_init_def inflow_ok_def)
next
  case (reach_add f credited sent taken n k f')
  then show ?case using inflow_add_step [of f n k f'] by simp
next
  case (reach_take f credited sent taken n f')
  then show ?case using inflow_take_step [of f n f'] by simp
qed

subsection \<open>Sent bytes\<close>

text \<open>A send window never wraps: \<open>add\<close> succeeds exactly when the exact sum fits 32 signed bits, and then
  the window is that sum; otherwise no window changes. A SETTINGS change may make the sum negative.\<close>

theorem outflow_add_correct:
  "if - (2 ^ 31) \<le> sint (flow_n fs f) + sint n \<and> sint (flow_n fs f) + sint n \<le> maxWindow
   then fst (outflow_add fs f n) \<and> sint (flow_n (snd (outflow_add fs f n)) f) = sint (flow_n fs f) + sint n
   else \<not> fst (outflow_add fs f n) \<and> snd (outflow_add fs f n) = fs"
proof -
  define a where "a = sint (flow_n fs f)"
  define b where "b = sint n"
  have r: "- (2 ^ 31) \<le> a" "a < 2 ^ 31" "- (2 ^ 31) \<le> b" "b < 2 ^ 31"
    using sint32_bounds [of "flow_n fs f"] sint32_bounds [of n] by (simp_all add: a_def b_def)
  have fl: "flow_n (set_flow_n fs f v) f = v" for v by (cases f) simp_all
  have w: "flow_n fs f + n = word_of_int (a + b)" by (simp add: a_def b_def)
  consider "- (2 ^ 31) \<le> a + b" "a + b \<le> maxWindow" | "a + b > maxWindow" | "a + b < - (2 ^ 31)" by linarith
  then show ?thesis
  proof cases
    case 1
    then have s: "sint (flow_n fs f + n) = a + b" unfolding w by (intro sint32_of) simp_all
    show ?thesis using 1 s unfolding outflow_add_def Let_def s a_def [symmetric] b_def [symmetric] by (simp add: fl s)
  next
    case 2
    have "flow_n fs f + n = word_of_int (a + b - 2 ^ 32)" unfolding w by (simp add: word_of_int_eq_iff take_bit_eq_mod)
    then have "sint (flow_n fs f + n) = a + b - 2 ^ 32" using sint32_of [of "a + b - 2 ^ 32"] 2 r by simp
    then show ?thesis using 2 r unfolding outflow_add_def Let_def a_def [symmetric] b_def [symmetric] by simp
  next
    case 3
    have "flow_n fs f + n = word_of_int (a + b + 2 ^ 32)" unfolding w by (simp add: word_of_int_eq_iff take_bit_eq_mod)
    then have "sint (flow_n fs f + n) = a + b + 2 ^ 32" using sint32_of [of "a + b + 2 ^ 32"] 3 r by simp
    then show ?thesis using 3 r unfolding outflow_add_def Let_def a_def [symmetric] b_def [symmetric] by simp
  qed
qed

text \<open>Taking from a stream's send window. A non-negative amount is taken exactly when it fits both the
  stream's and the connection's window; it is then subtracted from both, which stay non-negative if
  they were, and no other stream's window changes; otherwise \<open>take\<close> panics.\<close>

lemma outflow_take_correct:
  assumes "0 \<le> sint n"
  shows "if sint n \<le> sint (stream_n fs s) \<and> sint n \<le> sint (conn_n fs)
    then \<exists>fs'. outflow_take fs (StreamFlow s) n = Ret fs' \<and>
      sint (stream_n fs' s) = sint (stream_n fs s) - sint n \<and> 0 \<le> sint (stream_n fs' s) \<and>
      sint (conn_n fs') = sint (conn_n fs) - sint n \<and> 0 \<le> sint (conn_n fs') \<and>
      (\<forall>t. t \<noteq> s \<longrightarrow> stream_n fs' t = stream_n fs t)
    else \<not> no_panic (outflow_take fs (StreamFlow s) n)"
  using assms sint32_sub [of "stream_n fs s" n] sint32_sub [of "conn_n fs" n]
    sint32_bounds [of "stream_n fs s"] sint32_bounds [of "conn_n fs"]
  by (auto simp: outflow_take_def outflow_available_def Let_def)

subsection \<open>Witnesses\<close>

theorem inflow_add_correct_witness:
  "\<exists>k f'. inflow_add 5000 \<lparr>if_avail = 100, if_unsent = 7\<rparr> = Ret (k, f') \<and> sint (if_avail f') = 100 + sint k"
  using inflow_add_correct [of "\<lparr>if_avail = 100, if_unsent = 7\<rparr>" 5000] by (auto simp: inflow_ok_def)

theorem inflow_balance_witness:
  "\<exists>f. inflow_reach 100 f 0 0 30 \<and> sint (if_avail f) = 70"
proof -
  have "inflow_reach 100 (inflow_init 100 \<lparr>if_avail = 0, if_unsent = 0\<rparr>) 0 0 0" by (rule reach_init) simp
  then have r: "inflow_reach 100 \<lparr>if_avail = 70, if_unsent = 0\<rparr> 0 0 (0 + int (unat (30 :: 32 word)))"
    by (rule reach_take) (simp add: inflow_init_def inflow_take_def)
  from inflow_balance [OF this] r show ?thesis by auto
qed

theorem outflow_add_correct_witness:
  "\<not> fst (outflow_add \<lparr>conn_n = 0x7fffffff, stream_n = \<lambda>_. 0\<rparr> ConnFlow 1)"
  using outflow_add_correct [of "\<lparr>conn_n = 0x7fffffff, stream_n = \<lambda>_. 0\<rparr>" ConnFlow 1] by simp

end
