(* ===== verification/Http2_Scheduler.thy ===== *)
theory Http2_Scheduler
  imports Http2_Flow Http2_Frame
begin

section \<open>The HTTP/2 round-robin write scheduler (h2_bundle.go)\<close>

text \<open>
  Requests to write a frame, the queues they wait in, and \<open>http2roundRobinWriteScheduler\<close>. The queues
  of the open streams form a ring of \<open>prev\<close> and \<open>next\<close> pointers: the heap is one function per field
  of a queue, from addresses to values, and nil is \<open>None\<close>.
\<close>

subsection \<open>Requests\<close>

text \<open>The frame writers of \<open>write.go\<close> that the schedulers look into; every other one is opaque.\<close>

datatype writeFramer =
    WriteDataReq "32 word" "byte list" bool
  | WriteStreamError "32 word" http2_ErrCode
  | WriteOther nat

record http2_FrameWriteRequest =
  wr_write :: writeFramer
  wr_stream :: "32 word option"
  wr_done :: "nat option"

definition wr_StreamID :: "http2_FrameWriteRequest \<Rightarrow> 32 word" where
  "wr_StreamID wr =
     (case wr_stream wr of
        None \<Rightarrow> (case wr_write wr of WriteStreamError sid code \<Rightarrow> sid | _ \<Rightarrow> 0)
      | Some sid \<Rightarrow> sid)"

definition wr_isControl :: "http2_FrameWriteRequest \<Rightarrow> bool" where
  "wr_isControl wr = (wr_stream wr = None)"

definition wr_DataSize :: "http2_FrameWriteRequest \<Rightarrow> nat" where
  "wr_DataSize wr = (case wr_write wr of WriteDataReq sid p es \<Rightarrow> length p | _ \<Rightarrow> 0)"

text \<open>The frames \<open>Consume\<close> returns: none, the request, or its first part and the rest.\<close>

datatype consumed = NoFrame | OneFrame http2_FrameWriteRequest | TwoFrames http2_FrameWriteRequest http2_FrameWriteRequest

definition wr_Consume ::
  "32 word \<Rightarrow> http2_FrameWriteRequest \<Rightarrow> 32 word \<Rightarrow> http2_outflows \<Rightarrow> (consumed \<times> http2_outflows) go" where
  "wr_Consume maxFrame wr n fs =
     (case wr_write wr of
        WriteDataReq wsid p es \<Rightarrow>
          if p = [] then Ret (OneFrame wr, fs)
          else
            (case wr_stream wr of
               None \<Rightarrow> Panic ''nil pointer dereference''
             | Some sid \<Rightarrow>
                 let f = StreamFlow (unat sid);
                     allowed0 = outflow_available fs f;
                     allowed1 = (if sint n < sint allowed0 then n else allowed0);
                     allowed = (if sint maxFrame < sint allowed1 then maxFrame else allowed1)
                 in
                   if sint allowed \<le> 0 then Ret (NoFrame, fs)
                   else if int (length p) > sint allowed then
                     go_bind (outflow_take fs f allowed) (\<lambda>fs1.
                       Ret (TwoFrames
                              \<lparr>wr_write = WriteDataReq wsid (take (nat (sint allowed)) p) False, wr_stream = Some sid, wr_done = None\<rparr>
                              \<lparr>wr_write = WriteDataReq wsid (drop (nat (sint allowed)) p) es, wr_stream = Some sid, wr_done = wr_done wr\<rparr>,
                            fs1))
                   else
                     go_bind (outflow_take fs f (of_nat (length p))) (\<lambda>fs1. Ret (OneFrame wr, fs1)))
      | _ \<Rightarrow> Ret (OneFrame wr, fs))"

text \<open>\<open>writeQueue.consume\<close> on the requests of a queue: the frame to write, the queue and the windows.\<close>

fun wq_consume ::
  "32 word \<Rightarrow> 32 word \<Rightarrow> http2_FrameWriteRequest list \<Rightarrow> http2_outflows \<Rightarrow> (http2_FrameWriteRequest option \<times> http2_FrameWriteRequest list \<times> http2_outflows) go" where
  "wq_consume maxFrame n [] fs = Ret (None, [], fs)"
| "wq_consume maxFrame n (wr # q) fs =
     go_bind (wr_Consume maxFrame wr n fs) (\<lambda>(c, fs1).
       case c of
         NoFrame \<Rightarrow> Ret (None, wr # q, fs1)
       | OneFrame w \<Rightarrow> Ret (Some w, q, fs1)
       | TwoFrames w rest \<Rightarrow> Ret (Some w, rest # q, fs1))"

subsection \<open>The scheduler\<close>

record http2_roundRobin =
  rr_control :: "http2_FrameWriteRequest list"
  rr_streams :: "32 word \<Rightarrow> nat option"
  rr_head :: "nat option"
  rr_pool :: "nat list"
  rr_s :: "nat \<Rightarrow> http2_FrameWriteRequest list"
  rr_next :: "nat \<Rightarrow> nat option"
  rr_prev :: "nat \<Rightarrow> nat option"
  rr_fresh :: nat

definition newRoundRobinWriteScheduler :: http2_roundRobin where
  "newRoundRobinWriteScheduler =
     \<lparr>rr_control = [], rr_streams = Map.empty, rr_head = None, rr_pool = [],
      rr_s = \<lambda>_. [], rr_next = \<lambda>_. None, rr_prev = \<lambda>_. None, rr_fresh = 0\<rparr>"

text \<open>\<open>writeQueuePool.get\<close> takes the last queue of the pool, or allocates one; \<open>put\<close> empties a queue.\<close>

definition pool_get :: "http2_roundRobin \<Rightarrow> nat \<times> http2_roundRobin" where
  "pool_get ws =
     (if rr_pool ws = []
      then (rr_fresh ws, ws\<lparr>rr_fresh := Suc (rr_fresh ws), rr_s := (rr_s ws)(rr_fresh ws := []),
              rr_next := (rr_next ws)(rr_fresh ws := None), rr_prev := (rr_prev ws)(rr_fresh ws := None)\<rparr>)
      else (last (rr_pool ws), ws\<lparr>rr_pool := butlast (rr_pool ws)\<rparr>))"

definition pool_put :: "nat \<Rightarrow> http2_roundRobin \<Rightarrow> http2_roundRobin" where
  "pool_put q ws = ws\<lparr>rr_s := (rr_s ws)(q := []), rr_pool := rr_pool ws @ [q]\<rparr>"

definition rr_OpenStream :: "32 word \<Rightarrow> http2_roundRobin \<Rightarrow> http2_roundRobin go" where
  "rr_OpenStream sid ws =
     (if rr_streams ws sid \<noteq> None then Panic ''stream already opened''
      else
        (case pool_get ws of (q, ws1) \<Rightarrow>
           let ws2 = ws1\<lparr>rr_streams := (rr_streams ws1)(sid \<mapsto> q)\<rparr> in
           case rr_head ws2 of
             None \<Rightarrow>
               Ret (ws2\<lparr>rr_head := Some q, rr_next := (rr_next ws2)(q := Some q), rr_prev := (rr_prev ws2)(q := Some q)\<rparr>)
           | Some h \<Rightarrow>
               let ws3 = ws2\<lparr>rr_prev := (rr_prev ws2)(q := rr_prev ws2 h)\<rparr>;
                   ws4 = ws3\<lparr>rr_next := (rr_next ws3)(q := Some h)\<rparr>
               in case rr_prev ws4 q of
                    None \<Rightarrow> Panic ''nil pointer dereference''
                  | Some p \<Rightarrow>
                      let ws5 = ws4\<lparr>rr_next := (rr_next ws4)(p := Some q)\<rparr> in
                      (case rr_next ws5 q of
                         None \<Rightarrow> Panic ''nil pointer dereference''
                       | Some n \<Rightarrow> Ret (ws5\<lparr>rr_prev := (rr_prev ws5)(n := Some q)\<rparr>))))"

definition rr_CloseStream :: "32 word \<Rightarrow> http2_roundRobin \<Rightarrow> http2_roundRobin go" where
  "rr_CloseStream sid ws =
     (case rr_streams ws sid of
        None \<Rightarrow> Ret ws
      | Some q \<Rightarrow>
          go_bind
            (if rr_next ws q = Some q then Ret (ws\<lparr>rr_head := None\<rparr>)
             else
               (case rr_prev ws q of
                  None \<Rightarrow> Panic ''nil pointer dereference''
                | Some p \<Rightarrow>
                    let ws1 = ws\<lparr>rr_next := (rr_next ws)(p := rr_next ws q)\<rparr> in
                    (case rr_next ws1 q of
                       None \<Rightarrow> Panic ''nil pointer dereference''
                     | Some n \<Rightarrow>
                         let ws2 = ws1\<lparr>rr_prev := (rr_prev ws1)(n := rr_prev ws1 q)\<rparr> in
                         Ret (if rr_head ws2 = Some q then ws2\<lparr>rr_head := rr_next ws2 q\<rparr> else ws2))))
            (\<lambda>ws3. Ret (pool_put q (ws3\<lparr>rr_streams := (rr_streams ws3)(sid := None)\<rparr>))))"

definition rr_Push :: "http2_FrameWriteRequest \<Rightarrow> http2_roundRobin \<Rightarrow> http2_roundRobin go" where
  "rr_Push wr ws =
     (if wr_isControl wr then Ret (ws\<lparr>rr_control := rr_control ws @ [wr]\<rparr>)
      else
        (case rr_streams ws (wr_StreamID wr) of
           None \<Rightarrow>
             if wr_DataSize wr > 0 then Panic ''add DATA on non-open stream''
             else Ret (ws\<lparr>rr_control := rr_control ws @ [wr]\<rparr>)
         | Some q \<Rightarrow> Ret (ws\<lparr>rr_s := (rr_s ws)(q := rr_s ws q @ [wr])\<rparr>)))"

text \<open>The loop of \<open>Pop\<close> from the queue \<open>q\<close>. The first argument bounds the number of rounds; \<open>None\<close>
  means that they were not enough.\<close>

type_synonym pop_result = "http2_FrameWriteRequest option \<times> http2_roundRobin \<times> http2_outflows"

definition maxInt32 :: "32 word" where
  "maxInt32 = 0x7fffffff"

fun rr_Pop_loop :: "nat \<Rightarrow> 32 word \<Rightarrow> nat \<Rightarrow> http2_roundRobin \<Rightarrow> http2_outflows \<Rightarrow> pop_result go option" where
  "rr_Pop_loop 0 maxFrame q ws fs = None"
| "rr_Pop_loop (Suc k) maxFrame q ws fs =
     (case wq_consume maxFrame maxInt32 (rr_s ws q) fs of
        Panic e \<Rightarrow> Some (Panic e)
      | Ret (Some wr, s, fs1) \<Rightarrow> Some (Ret (Some wr, ws\<lparr>rr_s := (rr_s ws)(q := s), rr_head := rr_next ws q\<rparr>, fs1))
      | Ret (None, s, fs1) \<Rightarrow>
          (case rr_next ws q of
             None \<Rightarrow> Some (Panic ''nil pointer dereference'')
           | Some q1 \<Rightarrow>
               if Some q1 = rr_head ws then Some (Ret (None, ws, fs1))
               else rr_Pop_loop k maxFrame q1 ws fs1))"

definition rr_Pop :: "nat \<Rightarrow> 32 word \<Rightarrow> http2_roundRobin \<Rightarrow> http2_outflows \<Rightarrow> pop_result go option" where
  "rr_Pop fuel maxFrame ws fs =
     (case rr_control ws of
        wr # rest \<Rightarrow> Some (Ret (Some wr, ws\<lparr>rr_control := rest\<rparr>, fs))
      | [] \<Rightarrow>
          (case rr_head ws of
             None \<Rightarrow> Some (Ret (None, ws, fs))
           | Some q \<Rightarrow> rr_Pop_loop fuel maxFrame q ws fs))"

subsection \<open>Rings of pointers\<close>

fun chain :: "(nat \<Rightarrow> nat option) \<Rightarrow> (nat \<Rightarrow> nat option) \<Rightarrow> nat list \<Rightarrow> bool" where
  "chain nx pv (a # b # l) = (nx a = Some b \<and> pv b = Some a \<and> chain nx pv (b # l))"
| "chain nx pv _ = True"

definition ring_ok :: "(nat \<Rightarrow> nat option) \<Rightarrow> (nat \<Rightarrow> nat option) \<Rightarrow> nat list \<Rightarrow> bool" where
  "ring_ok nx pv as = (as = [] \<or> chain nx pv (as @ [hd as]))"

lemma chain_split:
  "chain nx pv (xs @ y # z # zs) \<longleftrightarrow> chain nx pv (xs @ [y]) \<and> chain nx pv (y # z # zs)"
proof (induction xs)
  case (Cons a xs)
  then show ?case by (cases xs) auto
qed simp

lemma chain_join: "chain nx pv (xs @ [y]) \<Longrightarrow> chain nx pv (y # zs) \<Longrightarrow> chain nx pv (xs @ y # zs)"
  by (cases zs) (simp_all add: chain_split)

lemma chain_left: "chain nx pv (xs @ y # zs) \<Longrightarrow> chain nx pv (xs @ [y])"
  by (cases zs) (simp_all add: chain_split)

lemma chain_right: "chain nx pv (xs @ y # zs) \<Longrightarrow> chain nx pv (y # zs)"
  by (cases zs) (simp_all add: chain_split)

lemma chain_cong:
  "(\<And>a. a \<in> set (butlast l) \<Longrightarrow> nx' a = nx a) \<Longrightarrow> (\<And>a. a \<in> set (tl l) \<Longrightarrow> pv' a = pv a) \<Longrightarrow> chain nx pv l \<Longrightarrow> chain nx' pv' l"
  by (induction nx pv l rule: chain.induct) auto

lemma ring_rotate:
  assumes "ring_ok nx pv (xs @ ys)"
  shows "ring_ok nx pv (ys @ xs)"
proof (cases "xs = [] \<or> ys = []")
  case True
  then show ?thesis using assms by auto
next
  case False
  then obtain x xs' y ys' where e: "xs = x # xs'" "ys = y # ys'" by (cases xs; cases ys) auto
  have c: "chain nx pv ((x # xs') @ y # (ys' @ [x]))" using assms e by (simp add: ring_ok_def)
  have "chain nx pv ((y # ys') @ x # (xs' @ [y]))"
    by (rule chain_join) (use chain_left [OF c] chain_right [OF c] in simp_all)
  then show ?thesis using e by (simp add: ring_ok_def)
qed

lemma ring_ends:
  assumes "ring_ok nx pv (a # as)"
  shows "nx a = Some (hd (as @ [a]))" "pv a = Some (last (a # as))"
proof -
  show "nx a = Some (hd (as @ [a]))" using assms by (cases as) (simp_all add: ring_ok_def)
  obtain us u where e: "a # as = us @ [u]" by (cases "a # as" rule: rev_cases) auto
  have "chain nx pv ((a # as) @ [a])" using assms by (simp add: ring_ok_def)
  then have "chain nx pv (us @ u # [a])" unfolding e by simp
  from chain_right [OF this] show "pv a = Some (last (a # as))" unfolding e by simp
qed

lemma chain_close:
  assumes r: "chain nx pv (zs @ [q])" and d: "distinct zs" and z: "zs \<noteq> []"
    and nx: "\<And>a. a \<in> set zs \<Longrightarrow> a \<noteq> last zs \<Longrightarrow> nx' a = nx a"
    and pv: "\<And>a. a \<in> set zs \<Longrightarrow> a \<noteq> hd zs \<Longrightarrow> pv' a = pv a"
    and l: "chain nx' pv' (last zs # ws)"
  shows "chain nx' pv' (zs @ ws)"
proof -
  obtain us u where e: "zs = us @ [u]" using z by (cases zs rule: rev_cases) auto
  have c: "chain nx pv (us @ [u])" using r e chain_left [of nx pv us u "[q]"] by simp
  have "chain nx' pv' (us @ [u])"
  proof (rule chain_cong [OF _ _ c])
    fix a
    assume "a \<in> set (butlast (us @ [u]))"
    then show "nx' a = nx a" using nx [of a] d e by auto
  next
    fix a
    assume "a \<in> set (tl (us @ [u]))"
    then have "a \<in> set (tl zs)" using e by simp
    moreover have "a \<noteq> hd zs" using calculation d z by (cases zs) auto
    ultimately show "pv' a = pv a" using pv [of a] z by (cases zs) auto
  qed
  from chain_join [OF this, of ws] show ?thesis using l e by simp
qed

lemma ring_insert:
  assumes r: "ring_ok nx pv (h # as)" and d: "distinct (h # as)" and q: "q \<notin> set (h # as)"
  shows "ring_ok (nx(q := Some h, last (h # as) := Some q)) (pv(q := Some (last (h # as)), h := Some q)) (h # as @ [q])"
proof -
  let ?l = "last (h # as)"
  have c: "chain nx pv ((h # as) @ [h])" using r by (simp add: ring_ok_def)
  have l: "?l \<in> set (h # as)" by (rule last_in_set) simp
  have "chain (nx(q := Some h, ?l := Some q)) (pv(q := Some ?l, h := Some q)) ((h # as) @ [q, h])"
    by (rule chain_close [OF c d]) (use q l in auto)
  then show ?thesis by (simp add: ring_ok_def)
qed

lemma ring_remove:
  assumes r: "ring_ok nx pv (q # zs)" and d: "distinct (q # zs)" and z: "zs \<noteq> []"
  shows "ring_ok (nx(last zs := Some (hd zs))) (pv(hd zs := Some (last zs))) zs"
proof -
  obtain z zs' where e: "zs = z # zs'" using z by (cases zs) auto
  have "chain nx pv ([q] @ z # (zs' @ [q]))" using r e by (simp add: ring_ok_def)
  from chain_right [OF this] have c: "chain nx pv (zs @ [q])" using e by simp
  have "chain (nx(last zs := Some (hd zs))) (pv(hd zs := Some (last zs))) (zs @ [hd zs])"
    by (rule chain_close [OF c _ z]) (use d in auto)
  then show ?thesis using z by (simp add: ring_ok_def)
qed

end
