(* ===== verification/Http2_Fairness.thy ===== *)
theory Http2_Fairness
  imports Http2_Scheduler
begin

section \<open>Correctness of the round-robin write scheduler\<close>

text \<open>
  The specification of the scheduler as a list of streams in the order they are served, the proof that
  the ring of pointers implements it, call by call and for whole runs, and fairness.
\<close>

subsection \<open>What the scheduler promises\<close>

text \<open>
  The abstract scheduler has the control frames and the open streams with their queues, in the order
  in which they are served. A new stream goes to the end; a stream that was served goes to the end,
  after the streams that were passed over because they had nothing they may send.
\<close>

type_synonym stream_queue = "32 word \<times> http2_FrameWriteRequest list"

record rr_spec =
  ra_control :: "http2_FrameWriteRequest list"
  ra_ring :: "stream_queue list"

definition a_open :: "32 word \<Rightarrow> rr_spec \<Rightarrow> rr_spec go" where
  "a_open sid A =
     (if sid \<in> fst ` set (ra_ring A) then Panic ''stream already opened''
      else Ret (A\<lparr>ra_ring := ra_ring A @ [(sid, [])]\<rparr>))"

definition a_close :: "32 word \<Rightarrow> rr_spec \<Rightarrow> rr_spec" where
  "a_close sid A = A\<lparr>ra_ring := [sq \<leftarrow> ra_ring A. fst sq \<noteq> sid]\<rparr>"

definition a_push :: "http2_FrameWriteRequest \<Rightarrow> rr_spec \<Rightarrow> rr_spec go" where
  "a_push wr A =
     (if wr_stream wr \<noteq> None \<and> wr_StreamID wr \<in> fst ` set (ra_ring A)
      then Ret (A\<lparr>ra_ring := map (\<lambda>(sid, q). (sid, if sid = wr_StreamID wr then q @ [wr] else q)) (ra_ring A)\<rparr>)
      else if wr_stream wr \<noteq> None \<and> wr_DataSize wr > 0 then Panic ''add DATA on non-open stream''
      else Ret (A\<lparr>ra_control := ra_control A @ [wr]\<rparr>))"

fun a_scan ::
  "32 word \<Rightarrow> stream_queue list \<Rightarrow> stream_queue list \<Rightarrow> http2_outflows \<Rightarrow> (http2_FrameWriteRequest option \<times> stream_queue list \<times> http2_outflows) go" where
  "a_scan maxFrame seen [] fs = Ret (None, seen, fs)"
| "a_scan maxFrame seen ((sid, q) # ahead) fs =
     go_bind (wq_consume maxFrame maxInt32 q fs) (\<lambda>(w, q', fs').
       case w of
         None \<Rightarrow> a_scan maxFrame (seen @ [(sid, q)]) ahead fs'
       | Some wr \<Rightarrow> Ret (Some wr, ahead @ seen @ [(sid, q')], fs'))"

definition a_pop :: "32 word \<Rightarrow> rr_spec \<Rightarrow> http2_outflows \<Rightarrow> (http2_FrameWriteRequest option \<times> rr_spec \<times> http2_outflows) go" where
  "a_pop maxFrame A fs =
     (case ra_control A of
        wr # rest \<Rightarrow> Ret (Some wr, A\<lparr>ra_control := rest\<rparr>, fs)
      | [] \<Rightarrow> go_bind (a_scan maxFrame [] (ra_ring A) fs) (\<lambda>(w, ring, fs'). Ret (w, A\<lparr>ra_ring := ring\<rparr>, fs')))"

text \<open>The pairs of a stream and the address of its queue, in ring order, tie the two together.\<close>

definition rr_layout :: "http2_roundRobin \<Rightarrow> (32 word \<times> nat) list \<Rightarrow> bool" where
  "rr_layout ws ps =
     (distinct (map snd ps @ rr_pool ws) \<and> (\<forall>q\<in>set (map snd ps @ rr_pool ws). q < rr_fresh ws) \<and>
      (\<forall>q\<in>set (rr_pool ws). rr_s ws q = []) \<and> ring_ok (rr_next ws) (rr_prev ws) (map snd ps) \<and>
      rr_head ws = (case ps of [] \<Rightarrow> None | p # _ \<Rightarrow> Some (snd p)) \<and>
      distinct (map fst ps) \<and> rr_streams ws = map_of ps)"

definition entries :: "(nat \<Rightarrow> http2_FrameWriteRequest list) \<Rightarrow> (32 word \<times> nat) list \<Rightarrow> stream_queue list" where
  "entries s ps = map (\<lambda>(sid, q). (sid, s q)) ps"

definition rr_abs :: "http2_roundRobin \<Rightarrow> (32 word \<times> nat) list \<Rightarrow> rr_spec" where
  "rr_abs ws ps = \<lparr>ra_control = rr_control ws, ra_ring = entries (rr_s ws) ps\<rparr>"

definition rr_rel :: "http2_roundRobin \<Rightarrow> rr_spec \<Rightarrow> bool" where
  "rr_rel ws A = (\<exists>ps. rr_layout ws ps \<and> A = rr_abs ws ps)"

lemma entries_simps [simp]:
  "entries s [] = []" "entries s ((sid, q) # ps) = (sid, s q) # entries s ps"
  "entries s (us @ vs) = entries s us @ entries s vs"
  by (simp_all add: entries_def)

lemma fst_entries [simp]: "fst ` set (entries s ps) = fst ` set ps"
  by (force simp: entries_def)

lemma entries_update [simp]: "q \<notin> snd ` set ps \<Longrightarrow> entries (s(q := x)) ps = entries s ps"
  by (force simp: entries_def)

lemma entries_filter [simp]: "sid \<notin> fst ` set ps \<Longrightarrow> [sq \<leftarrow> entries s ps. fst sq \<noteq> sid] = entries s ps"
  by (simp add: filter_id_conv) (force simp: entries_def)

lemma ring_single: "ring_ok (nx(q := Some q)) (pv(q := Some q)) [q]"
  by (simp add: ring_ok_def)

lemma ring_cong: "ring_ok nx pv as \<Longrightarrow> \<forall>a\<in>set as. nx' a = nx a \<and> pv' a = pv a \<Longrightarrow> ring_ok nx' pv' as"
  unfolding ring_ok_def
  by (cases as) (auto intro!: chain_cong [of _ nx' nx pv' pv] simp: butlast_append)

lemma pool_get_layout:
  assumes "rr_layout ws ps"
  obtains q ws' where "pool_get ws = (q, ws')" "rr_layout ws' ps" "rr_abs ws' ps = rr_abs ws ps"
    "q \<notin> set (map snd ps @ rr_pool ws')" "q < rr_fresh ws'" "rr_s ws' q = []"
proof (cases "rr_pool ws" rule: rev_cases)
  case Nil
  let ?q = "rr_fresh ws"
  have n: "?q \<notin> snd ` set ps" using assms by (auto simp: rr_layout_def)
  have r: "ring_ok ((rr_next ws)(?q := None)) ((rr_prev ws)(?q := None)) (map snd ps)"
  proof (rule ring_cong)
    show "ring_ok (rr_next ws) (rr_prev ws) (map snd ps)" using assms by (simp add: rr_layout_def)
    show "\<forall>a\<in>set (map snd ps). ((rr_next ws)(?q := None)) a = rr_next ws a \<and> ((rr_prev ws)(?q := None)) a = rr_prev ws a"
      using n by force
  qed
  let ?ws = "ws\<lparr>rr_fresh := Suc ?q, rr_s := (rr_s ws)(?q := []),
    rr_next := (rr_next ws)(?q := None), rr_prev := (rr_prev ws)(?q := None)\<rparr>"
  have "pool_get ws = (?q, ?ws)" using Nil by (simp add: pool_get_def)
  moreover have "rr_layout ?ws ps" using assms Nil r by (auto simp: rr_layout_def less_Suc_eq)
  moreover have "rr_abs ?ws ps = rr_abs ws ps" using n by (simp add: rr_abs_def)
  ultimately show ?thesis using n Nil by (intro that [of ?q ?ws]) simp_all
next
  case (snoc l q)
  show ?thesis
    by (rule that [of q "ws\<lparr>rr_pool := l\<rparr>"]) (use assms snoc in \<open>auto simp: pool_get_def rr_layout_def rr_abs_def\<close>)
qed

lemma map_of_snoc: "sid \<notin> fst ` set ps \<Longrightarrow> map_of (ps @ [(sid, q)]) = (map_of ps)(sid \<mapsto> q)"
  by (induction ps) (auto simp: fun_upd_twist)

lemma layout_streams: "rr_layout ws ps \<Longrightarrow> rr_streams ws = map_of ps"
  by (simp add: rr_layout_def)

lemma OpenStream_refines:
  assumes L: "rr_layout ws ps" and n: "sid \<notin> fst ` set ps"
  shows "\<exists>ws' q. rr_OpenStream sid ws = Ret ws' \<and> rr_layout ws' (ps @ [(sid, q)]) \<and>
    rr_abs ws' (ps @ [(sid, q)]) = (rr_abs ws ps)\<lparr>ra_ring := ra_ring (rr_abs ws ps) @ [(sid, [])]\<rparr>"
proof -
  have s: "rr_streams ws sid = None" using L n by (simp add: layout_streams map_of_eq_None_iff)
  obtain q ws1 where g: "pool_get ws = (q, ws1)" and L1: "rr_layout ws1 ps" and a: "rr_abs ws1 ps = rr_abs ws ps"
    and q: "q \<notin> set (map snd ps @ rr_pool ws1)" "q < rr_fresh ws1" "rr_s ws1 q = []"
    by (rule pool_get_layout [OF L])
  show ?thesis
  proof (cases ps)
    case Nil
    then show ?thesis
      using L1 q s g a [symmetric]
      by (intro exI [of _ "ws1\<lparr>rr_streams := (rr_streams ws1)(sid \<mapsto> q), rr_head := Some q,
            rr_next := (rr_next ws1)(q := Some q), rr_prev := (rr_prev ws1)(q := Some q)\<rparr>"] exI [of _ q])
        (auto simp: rr_OpenStream_def rr_layout_def rr_abs_def ring_single)
  next
    case (Cons p ps')
    let ?as = "map snd ps"
    let ?h = "snd p" and ?l = "last ?as"
    have R: "ring_ok (rr_next ws1) (rr_prev ws1) (?h # map snd ps')" using L1 Cons by (simp add: rr_layout_def)
    have pv: "rr_prev ws1 ?h = Some ?l" using ring_ends(2) [OF R] Cons by simp
    have "?l \<in> set ?as" "?h \<in> set ?as" using Cons last_in_set [of ?as] by simp_all
    moreover have "q \<notin> set ?as" using q(1) by simp
    ultimately have ne: "?l \<noteq> q" "?h \<noteq> q" by metis+
    have hd: "rr_head ws1 = Some ?h" using L1 Cons by (simp add: rr_layout_def)
    let ?ws = "ws1\<lparr>rr_streams := (rr_streams ws1)(sid \<mapsto> q),
      rr_next := (rr_next ws1)(q := Some ?h, ?l := Some q), rr_prev := (rr_prev ws1)(q := Some ?l, ?h := Some q)\<rparr>"
    have "rr_OpenStream sid ws = Ret ?ws"
      using s g hd pv ne by (simp add: rr_OpenStream_def Let_def)
    moreover have "ring_ok (rr_next ?ws) (rr_prev ?ws) (map snd (ps @ [(sid, q)]))"
      using ring_insert [OF R, of q] L1 q Cons by (simp add: rr_layout_def)
    then have "rr_layout ?ws (ps @ [(sid, q)])"
      using L1 q Cons n by (simp add: rr_layout_def map_of_snoc del: map_of_append) auto
    moreover have "rr_abs ?ws (ps @ [(sid, q)]) = (rr_abs ws ps)\<lparr>ra_ring := ra_ring (rr_abs ws ps) @ [(sid, [])]\<rparr>"
      using a [symmetric] q by (simp add: rr_abs_def)
    ultimately show ?thesis by blast
  qed
qed

lemma map_of_middle: "sid \<notin> fst ` set us \<Longrightarrow> map_of (us @ (sid, q) # vs) sid = Some q"
  by (induction us) auto

lemma map_of_delete:
  "sid \<notin> fst ` set (us @ vs) \<Longrightarrow> (map_of (us @ (sid, q) # vs))(sid := None) = map_of (us @ vs)"
proof (induction us)
  case Nil
  then have "map_of vs sid = None" by (simp add: map_of_eq_None_iff)
  then show ?case by (auto simp: fun_eq_iff)
next
  case (Cons u us)
  have "(map_of (us @ (sid, q) # vs))(sid := None) = map_of (us @ vs)" by (rule Cons.IH) (use Cons.prems in auto)
  moreover have "fst u \<noteq> sid" using Cons.prems by auto
  ultimately show ?case by (simp add: fun_eq_iff del: map_of_append) metis
qed

lemma layout_split:
  assumes L: "rr_layout ws (us @ (sid, q) # vs)"
  shows "rr_next ws q = Some (snd (hd (vs @ us @ [(sid, q)])))"
    "rr_prev ws q = Some (snd (last ((sid, q) # vs @ us)))"
    "ring_ok (rr_next ws) (rr_prev ws) (q # map snd (vs @ us))"
    "distinct (q # map snd (vs @ us))"
    "rr_streams ws sid = Some q"
proof -
  show r: "ring_ok (rr_next ws) (rr_prev ws) (q # map snd (vs @ us))"
    using ring_rotate [of _ _ "map snd us" "q # map snd vs"] L by (simp add: rr_layout_def)
  have "map snd (vs @ us) @ [q] = map snd (vs @ us @ [(sid, q)])" by simp
  then show "rr_next ws q = Some (snd (hd (vs @ us @ [(sid, q)])))"
    using ring_ends(1) [OF r] by (metis hd_map snoc_eq_iff_butlast append_assoc)
  have "q # map snd (vs @ us) = map snd ((sid, q) # vs @ us)" by simp
  then show "rr_prev ws q = Some (snd (last ((sid, q) # vs @ us)))"
    using ring_ends(2) [OF r] by (metis last_map list.distinct(1))
  show "distinct (q # map snd (vs @ us))" using L by (auto simp: rr_layout_def)
  show "rr_streams ws sid = Some q" using L by (simp add: rr_layout_def map_of_middle del: map_of_append)
qed

lemma CloseStream_refines:
  assumes L: "rr_layout ws (us @ (sid, q) # vs)"
  shows "\<exists>ws'. rr_CloseStream sid ws = Ret ws' \<and> rr_layout ws' (us @ vs) \<and>
    rr_abs ws' (us @ vs) = a_close sid (rr_abs ws (us @ (sid, q) # vs))"
proof -
  note S = layout_split [OF L]
  have sid: "sid \<notin> fst ` set us" "sid \<notin> fst ` set vs" using L by (auto simp: rr_layout_def)
  have q: "q \<notin> set (map snd (us @ vs))" using S(4) by auto
  have del: "(map_of (us @ (sid, q) # vs))(sid := None) = map_of (us @ vs)"
    using sid by (intro map_of_delete) auto
  have abs: "rr_abs (ws\<lparr>rr_s := (rr_s ws)(q := [])\<rparr>) (us @ vs) = a_close sid (rr_abs ws (us @ (sid, q) # vs))"
    using q sid by (simp add: rr_abs_def a_close_def)
  show ?thesis
  proof (cases "vs @ us")
    case Nil
    then show ?thesis using S L abs by (auto simp: rr_CloseStream_def rr_layout_def pool_put_def rr_abs_def ring_ok_def fun_eq_iff)
  next
    case (Cons p ps)
    let ?z = "map snd (vs @ us)"
    have "?z \<noteq> []" "hd (vs @ us @ [(sid, q)]) = p" using Cons by (simp_all flip: append_assoc)
    then have n: "rr_next ws q = Some (hd ?z)" "rr_prev ws q = Some (last ?z)" "hd ?z \<noteq> q" "last ?z \<noteq> q"
      using S(1,2,4) Cons hd_in_set [of ?z] last_in_set [of ?z] by (auto simp: last_map simp del: map_append)
    let ?ws = "ws\<lparr>rr_next := (rr_next ws)(last ?z := Some (hd ?z)), rr_prev := (rr_prev ws)(hd ?z := Some (last ?z)),
      rr_head := (if rr_head ws = Some q then Some (hd ?z) else rr_head ws), rr_streams := (rr_streams ws)(sid := None)\<rparr>"
    have "ring_ok (rr_next ?ws) (rr_prev ?ws) ?z" using ring_remove [OF S(3,4)] Cons by simp
    then have "ring_ok (rr_next ?ws) (rr_prev ?ws) (map snd (us @ vs))" using ring_rotate by (metis map_append)
    moreover have "rr_head ?ws = (case us @ vs of [] \<Rightarrow> None | p # _ \<Rightarrow> Some (snd p))"
      using L q n Cons by (cases us; cases vs) (auto simp: rr_layout_def)
    moreover have "distinct (map snd (us @ vs) @ rr_pool ws @ [q])" "distinct (map fst (us @ vs))"
      "\<forall>q\<in>set (map snd (us @ vs) @ rr_pool ws @ [q]). q < rr_fresh ws" "\<forall>q\<in>set (rr_pool ws). rr_s ws q = []"
      using L by (auto simp: rr_layout_def)
    moreover have "rr_streams ?ws = map_of (us @ vs)" using del L by (simp add: rr_layout_def del: map_of_append)
    ultimately have "rr_layout (pool_put q ?ws) (us @ vs)"
      unfolding rr_layout_def pool_put_def by simp
    moreover have "rr_CloseStream sid ws = Ret (pool_put q ?ws)"
      using S(5) n by (simp add: rr_CloseStream_def Let_def)
    moreover have "rr_abs (pool_put q ?ws) (us @ vs) = a_close sid (rr_abs ws (us @ (sid, q) # vs))"
      using abs by (simp add: rr_abs_def pool_put_def)
    ultimately show ?thesis by blast
  qed
qed

lemma entries_push [simp]:
  "sid \<notin> fst ` set ps \<Longrightarrow> map (\<lambda>(t, q). (t, if t = sid then q @ [wr] else q)) (entries s ps) = entries s ps"
  by (rule map_idI) (auto simp: entries_def image_iff)

lemma Push_refines:
  assumes L: "rr_layout ws ps"
  shows "case a_push wr (rr_abs ws ps) of
      Panic e \<Rightarrow> rr_Push wr ws = Panic e
    | Ret A \<Rightarrow> \<exists>ws'. rr_Push wr ws = Ret ws' \<and> rr_layout ws' ps \<and> A = rr_abs ws' ps"
proof (cases "wr_stream wr \<noteq> None \<and> wr_StreamID wr \<in> fst ` set ps")
  case False
  then have "wr_stream wr = None \<or> rr_streams ws (wr_StreamID wr) = None"
    using layout_streams [OF L] by (simp add: map_of_eq_None_iff)
  with False show ?thesis
    using L by (auto simp: a_push_def rr_Push_def wr_isControl_def rr_layout_def rr_abs_def)
next
  case True
  let ?sid = "wr_StreamID wr"
  obtain us q vs where ps: "ps = us @ (?sid, q) # vs" using True by (auto simp: in_set_conv_decomp)
  have sid: "?sid \<notin> fst ` set us" "?sid \<notin> fst ` set vs" using L ps by (auto simp: rr_layout_def)
  have q: "q \<notin> snd ` set us" "q \<notin> snd ` set vs" "q \<notin> set (rr_pool ws)" using L ps by (auto simp: rr_layout_def)
  let ?ws = "ws\<lparr>rr_s := (rr_s ws)(q := rr_s ws q @ [wr])\<rparr>"
  have "rr_Push wr ws = Ret ?ws"
    using True layout_split(5) [OF L [unfolded ps]] by (auto simp: rr_Push_def wr_isControl_def)
  moreover have "rr_layout ?ws ps" using L q by (auto simp: rr_layout_def)
  moreover have "a_push wr (rr_abs ws ps) = Ret (rr_abs ?ws ps)"
    using True sid q by (simp add: a_push_def rr_abs_def ps)
  ultimately show ?thesis by simp
qed

lemma wq_consume_none: "wq_consume maxFrame n q fs = Ret (None, q', fs') \<Longrightarrow> q' = q \<and> fs' = fs"
  by (cases q) (auto simp: wr_Consume_def Let_def split: writeFramer.splits option.splits if_splits)

lemma layout_served:
  fixes s
  assumes L: "rr_layout ws (us @ (sid, q) # vs)"
  defines "ws' \<equiv> ws\<lparr>rr_s := (rr_s ws)(q := s), rr_head := rr_next ws q\<rparr>"
  shows "rr_layout ws' (vs @ us @ [(sid, q)])"
    "rr_abs ws' (vs @ us @ [(sid, q)]) =
       (rr_abs ws (us @ (sid, q) # vs))\<lparr>ra_ring := entries (rr_s ws) vs @ entries (rr_s ws) us @ [(sid, s)]\<rparr>"
proof -
  note S = layout_split [OF L]
  have "map_of (us @ (sid, q) # vs) = map_of ((us @ [(sid, q)]) @ vs)" by simp
  also have "\<dots> = map_of (vs @ us @ [(sid, q)])"
    using L by (subst (1 2) map_of_append, intro map_add_comm) (auto simp: rr_layout_def dom_map_of_conv_image_fst)
  finally have "rr_streams ws = map_of (vs @ us @ [(sid, q)])" using layout_streams [OF L] by simp
  moreover have "ring_ok (rr_next ws) (rr_prev ws) (map snd (vs @ us @ [(sid, q)]))"
    using ring_rotate [of _ _ "[q]" "map snd (vs @ us)"] S(3) by simp
  moreover have "distinct (map snd (vs @ us @ [(sid, q)]) @ rr_pool ws)" "distinct (map fst (vs @ us @ [(sid, q)]))"
    "\<forall>q\<in>set (map snd (vs @ us @ [(sid, q)]) @ rr_pool ws). q < rr_fresh ws"
    "\<forall>p\<in>set (rr_pool ws). ((rr_s ws)(q := s)) p = []"
    using L by (auto simp: rr_layout_def)
  moreover have "rr_next ws q = (case vs @ us @ [(sid, q)] of [] \<Rightarrow> None | p # _ \<Rightarrow> Some (snd p))"
    using S(1) by (cases "vs @ us @ [(sid, q)]") simp_all
  ultimately show "rr_layout ws' (vs @ us @ [(sid, q)])" unfolding ws'_def rr_layout_def by simp
  have "q \<notin> snd ` set us" "q \<notin> snd ` set vs" using S(4) by auto
  then show "rr_abs ws' (vs @ us @ [(sid, q)]) =
       (rr_abs ws (us @ (sid, q) # vs))\<lparr>ra_ring := entries (rr_s ws) vs @ entries (rr_s ws) us @ [(sid, s)]\<rparr>"
    by (simp add: ws'_def rr_abs_def)
qed

lemma layout_next:
  assumes L: "rr_layout ws (us @ (sid, q) # vs)"
  shows "\<exists>q1. rr_next ws q = Some q1 \<and>
    (case vs of [] \<Rightarrow> rr_head ws = Some q1 | v # _ \<Rightarrow> rr_head ws \<noteq> Some q1 \<and> q1 = snd v)"
proof (cases vs)
  case Nil
  then show ?thesis using layout_split(1) [OF L] L by (cases us) (auto simp: rr_layout_def)
next
  case (Cons v vs')
  then show ?thesis using layout_split(1) [OF L] L by (cases us) (auto simp: rr_layout_def)
qed

lemma Pop_loop_refines:
  assumes "rr_layout ws (us @ (sid, q) # vs)" "length vs < fuel"
  shows "case a_scan maxFrame (entries (rr_s ws) us) (entries (rr_s ws) ((sid, q) # vs)) fs of
      Panic e \<Rightarrow> rr_Pop_loop fuel maxFrame q ws fs = Some (Panic e)
    | Ret (w, ring, fs') \<Rightarrow> \<exists>ws' ps'. rr_Pop_loop fuel maxFrame q ws fs = Some (Ret (w, ws', fs')) \<and>
        rr_layout ws' ps' \<and> rr_abs ws' ps' = (rr_abs ws (us @ (sid, q) # vs))\<lparr>ra_ring := ring\<rparr>"
  using assms
proof (induction vs arbitrary: us sid q fuel)
  case Nil
  then obtain k where k: "fuel = Suc k" by (cases fuel) auto
  obtain q1 where n: "rr_next ws q = Some q1" "rr_head ws = Some q1" using layout_next [OF Nil.prems(1)] by auto
  show ?case
  proof (cases "wq_consume maxFrame maxInt32 (rr_s ws q) fs")
    case (Panic e)
    then show ?thesis using k by simp
  next
    case (Ret r)
    obtain w s fs' where r: "r = (w, s, fs')" by (cases r)
    show ?thesis
    proof (cases w)
      case None
      have "rr_layout ws (us @ [(sid, q)])" "rr_abs ws (us @ [(sid, q)]) = (rr_abs ws (us @ [(sid, q)]))\<lparr>ra_ring := entries (rr_s ws) us @ [(sid, rr_s ws q)]\<rparr>"
        using Nil.prems by (simp_all add: rr_abs_def)
      then show ?thesis using Ret r None k n by auto
    next
      case (Some wr)
      then show ?thesis using Ret r k layout_served [OF Nil.prems(1), of s] by auto
    qed
  qed
next
  case (Cons v vs)
  then obtain k where k: "fuel = Suc k" "length vs < k" by (cases fuel) auto
  obtain sid' q' where v: "v = (sid', q')" by (cases v)
  have n: "rr_next ws q = Some q'" "rr_head ws \<noteq> Some q'" using layout_next [OF Cons.prems(1)] v by auto
  have L: "rr_layout ws ((us @ [(sid, q)]) @ (sid', q') # vs)" using Cons.prems v by simp
  show ?case
  proof (cases "wq_consume maxFrame maxInt32 (rr_s ws q) fs")
    case (Panic e)
    then show ?thesis using k by simp
  next
    case (Ret r)
    obtain w s fs' where r: "r = (w, s, fs')" by (cases r)
    show ?thesis
    proof (cases w)
      case None
      then have "s = rr_s ws q" "fs' = fs" using wq_consume_none Ret r by auto
      then show ?thesis using Ret r None k n v Cons.IH [OF L k(2)] by (auto simp: rr_abs_def split: go.splits)
    next
      case (Some wr)
      then show ?thesis using Ret r k v layout_served [OF Cons.prems(1), of s] by auto
    qed
  qed
qed

subsection \<open>Runs of the scheduler\<close>

text \<open>
  The serve loop drives the scheduler by the calls below; between them the windows may change in any
  way (\<open>OpWindows\<close>). A run collects what the pops return; \<open>None\<close> would be a pop that did not end.
\<close>

datatype rr_op =
    OpOpen "32 word"
  | OpClose "32 word"
  | OpPush http2_FrameWriteRequest
  | OpPop
  | OpWindows http2_outflows

fun run_ops :: "('op \<Rightarrow> 's \<Rightarrow> ('o list \<times> 's) go option) \<Rightarrow> 'op list \<Rightarrow> 's \<Rightarrow> ('o list \<times> 's) go option" where
  "run_ops step [] s = Some (Ret ([], s))"
| "run_ops step (x # xs) s =
     (case step x s of
        None \<Rightarrow> None
      | Some (Panic e) \<Rightarrow> Some (Panic e)
      | Some (Ret (o1, s1)) \<Rightarrow>
          (case run_ops step xs s1 of
             None \<Rightarrow> None
           | Some (Panic e) \<Rightarrow> Some (Panic e)
           | Some (Ret (o2, s2)) \<Rightarrow> Some (Ret (o1 @ o2, s2))))"

fun rr_step ::
  "32 word \<Rightarrow> rr_op \<Rightarrow> http2_roundRobin \<times> http2_outflows \<Rightarrow> (http2_FrameWriteRequest option list \<times> http2_roundRobin \<times> http2_outflows) go option" where
  "rr_step maxFrame (OpOpen sid) (ws, fs) = Some (go_bind (rr_OpenStream sid ws) (\<lambda>ws'. Ret ([], ws', fs)))"
| "rr_step maxFrame (OpClose sid) (ws, fs) = Some (go_bind (rr_CloseStream sid ws) (\<lambda>ws'. Ret ([], ws', fs)))"
| "rr_step maxFrame (OpPush wr) (ws, fs) = Some (go_bind (rr_Push wr ws) (\<lambda>ws'. Ret ([], ws', fs)))"
| "rr_step maxFrame OpPop (ws, fs) =
     map_option (\<lambda>r. go_bind r (\<lambda>(w, ws', fs'). Ret ([w], ws', fs'))) (rr_Pop (rr_fresh ws) maxFrame ws fs)"
| "rr_step maxFrame (OpWindows fs') (ws, fs) = Some (Ret ([], ws, fs'))"

fun a_step ::
  "32 word \<Rightarrow> rr_op \<Rightarrow> rr_spec \<times> http2_outflows \<Rightarrow> (http2_FrameWriteRequest option list \<times> rr_spec \<times> http2_outflows) go" where
  "a_step maxFrame (OpOpen sid) (A, fs) = go_bind (a_open sid A) (\<lambda>A'. Ret ([], A', fs))"
| "a_step maxFrame (OpClose sid) (A, fs) = Ret ([], a_close sid A, fs)"
| "a_step maxFrame (OpPush wr) (A, fs) = go_bind (a_push wr A) (\<lambda>A'. Ret ([], A', fs))"
| "a_step maxFrame OpPop (A, fs) = go_bind (a_pop maxFrame A fs) (\<lambda>(w, A', fs'). Ret ([w], A', fs'))"
| "a_step maxFrame (OpWindows fs') (A, fs) = Ret ([], A, fs')"

text \<open>A machine that implements a specification: every step ends, and as the specification says.\<close>

locale machine_refinement =
  fixes step :: "'op \<Rightarrow> 's \<Rightarrow> ('o list \<times> 's) go option"
    and spec :: "'op \<Rightarrow> 'a \<Rightarrow> ('o list \<times> 'a) go"
    and R :: "'s \<Rightarrow> 'a \<Rightarrow> bool"
  assumes step_refines:
    "R s a \<Longrightarrow>
       (case spec x a of
          Panic e \<Rightarrow> step x s = Some (Panic e)
        | Ret (os, a') \<Rightarrow> \<exists>s'. step x s = Some (Ret (os, s')) \<and> R s' a')"
begin

lemma run_refines:
  "R s a \<Longrightarrow>
     (case run_ops (\<lambda>x a. Some (spec x a)) xs a of
        None \<Rightarrow> False
      | Some (Panic e) \<Rightarrow> run_ops step xs s = Some (Panic e)
      | Some (Ret (os, a')) \<Rightarrow> \<exists>s'. run_ops step xs s = Some (Ret (os, s')) \<and> R s' a')"
proof (induction xs arbitrary: s a)
  case (Cons x xs)
  show ?case
  proof (cases "spec x a")
    case (Panic e)
    then show ?thesis using step_refines [OF Cons.prems, of x] by simp
  next
    case (Ret r)
    obtain o1 a1 where r: "r = (o1, a1)" by (cases r)
    then obtain s1 where s1: "step x s = Some (Ret (o1, s1))" "R s1 a1"
      using step_refines [OF Cons.prems, of x] Ret by auto
    then show ?thesis
      using Cons.IH [OF s1(2)] Ret r by (auto split: option.splits go.splits)
  qed
qed simp

lemma run_outputs:
  assumes "R s a"
  shows "map_option (map_go fst) (run_ops step xs s) = map_option (map_go fst) (run_ops (\<lambda>x a. Some (spec x a)) xs a)"
  using run_refines [OF assms, of xs] by (auto split: option.splits go.splits)

end

text \<open>The queues hold requests of streams, so \<open>Consume\<close> finds a window to take from.\<close>

definition a_inv :: "rr_spec \<Rightarrow> bool" where
  "a_inv A = (\<forall>sq\<in>set (ra_ring A). \<forall>wr\<in>set (snd sq). wr_stream wr \<noteq> None)"

lemma sint_of_nat32: "n < 2 ^ 31 \<Longrightarrow> sint (of_nat n :: 32 word) = int n"
  by (simp add: signed_of_nat signed_take_bit_int_eq_self)

lemma outflow_take_ok: "sint n \<le> sint (outflow_available fs f) \<Longrightarrow> \<exists>fs'. outflow_take fs f n = Ret fs'"
  by (simp add: outflow_take_def Let_def)

lemma Consume_ok:
  assumes "wr_stream wr \<noteq> None"
  shows "\<exists>c fs'. wr_Consume maxFrame wr n fs = Ret (c, fs') \<and> (\<forall>w rest. c = TwoFrames w rest \<longrightarrow> wr_stream rest \<noteq> None)"
proof (cases "wr_write wr")
  case (WriteDataReq wsid p es)
  obtain sid where sid: "wr_stream wr = Some sid" using assms by auto
  define av where "av = outflow_available fs (StreamFlow (unat sid))"
  define al1 where "al1 = (if sint n < sint av then n else av)"
  define al where "al = (if sint maxFrame < sint al1 then maxFrame else al1)"
  have le: "sint al \<le> sint av" by (simp add: al_def al1_def)
  have lt: "sint al < 2 ^ 31" by (rule sint32_bounds)
  obtain fs1 where t1: "outflow_take fs (StreamFlow (unat sid)) al = Ret fs1"
    using outflow_take_ok le av_def by blast
  have t2: "\<exists>fs2. outflow_take fs (StreamFlow (unat sid)) (of_nat (length p)) = Ret fs2" if "int (length p) \<le> sint al"
    using that lt le sint_of_nat32 [of "length p"] by (intro outflow_take_ok) (simp flip: av_def)
  have e: "wr_Consume maxFrame wr n fs =
      (if p = [] then Ret (OneFrame wr, fs) else if sint al \<le> 0 then Ret (NoFrame, fs)
       else if sint al < int (length p) then
         Ret (TwoFrames \<lparr>wr_write = WriteDataReq wsid (take (nat (sint al)) p) False, wr_stream = Some sid, wr_done = None\<rparr>
                \<lparr>wr_write = WriteDataReq wsid (drop (nat (sint al)) p) es, wr_stream = Some sid, wr_done = wr_done wr\<rparr>, fs1)
       else go_bind (outflow_take fs (StreamFlow (unat sid)) (of_nat (length p))) (\<lambda>fs1. Ret (OneFrame wr, fs1)))"
    unfolding wr_Consume_def WriteDataReq sid Let_def writeFramer.case option.case
      av_def [symmetric] al1_def [symmetric] al_def [symmetric] t1 go_bind.simps by (rule refl)
  consider "p = [] \<or> sint al \<le> 0 \<or> sint al < int (length p)" | fs2 where "outflow_take fs (StreamFlow (unat sid)) (of_nat (length p)) = Ret fs2"
    using t2 by (cases "int (length p) \<le> sint al") auto
  then show ?thesis unfolding e by cases auto
qed (simp_all add: wr_Consume_def)

lemma wq_consume_ok:
  assumes "\<forall>wr\<in>set q. wr_stream wr \<noteq> None"
  shows "\<exists>w q' fs'. wq_consume maxFrame n q fs = Ret (w, q', fs') \<and> (\<forall>wr\<in>set q'. wr_stream wr \<noteq> None)"
proof (cases q)
  case (Cons wr q1)
  then obtain c fs' where "wr_Consume maxFrame wr n fs = Ret (c, fs')" "\<forall>w rest. c = TwoFrames w rest \<longrightarrow> wr_stream rest \<noteq> None"
    using Consume_ok [of wr maxFrame n fs] assms by auto
  then show ?thesis using Cons assms by (cases c) auto
qed simp

lemma a_scan_ok:
  assumes "\<forall>sq\<in>set (seen @ ahead). \<forall>wr\<in>set (snd sq). wr_stream wr \<noteq> None"
  shows "\<exists>w ring fs'. a_scan maxFrame seen ahead fs = Ret (w, ring, fs') \<and> (\<forall>sq\<in>set ring. \<forall>wr\<in>set (snd sq). wr_stream wr \<noteq> None)"
  using assms
proof (induction ahead arbitrary: seen fs)
  case (Cons sq ahead)
  obtain sid q where sq: "sq = (sid, q)" by (cases sq)
  then obtain w q' fs' where c: "wq_consume maxFrame maxInt32 q fs = Ret (w, q', fs')" "\<forall>wr\<in>set q'. wr_stream wr \<noteq> None"
    using wq_consume_ok [of q maxFrame maxInt32 fs] Cons.prems by auto
  show ?case
  proof (cases w)
    case None
    then show ?thesis using Cons.IH [of "seen @ [(sid, q)]" fs'] Cons.prems sq c by auto
  next
    case (Some wr)
    then show ?thesis using Cons.prems sq c by auto
  qed
qed simp

lemma a_pop_ok: "a_inv A \<Longrightarrow> \<exists>w A' fs'. a_pop maxFrame A fs = Ret (w, A', fs') \<and> a_inv A'"
  using a_scan_ok [of "[]" "ra_ring A" maxFrame fs] by (auto simp: a_pop_def a_inv_def split: list.splits)

lemma a_step_inv: "a_inv A \<Longrightarrow> a_step maxFrame x (A, fs) = Ret (os, A', fs') \<Longrightarrow> a_inv A'"
  using a_pop_ok [of A maxFrame fs]
  by (cases x) (auto simp: a_inv_def a_open_def a_close_def a_push_def split: if_splits prod.splits)

text \<open>The round-robin scheduler and its specification in step.\<close>

definition rr_sim :: "http2_roundRobin \<times> http2_outflows \<Rightarrow> rr_spec \<times> http2_outflows \<Rightarrow> bool" where
  "rr_sim c a = (rr_rel (fst c) (fst a) \<and> snd c = snd a \<and> a_inv (fst a))"

lemma open_sim:
  assumes "rr_rel ws A"
  shows "case a_open sid A of
      Panic e \<Rightarrow> rr_OpenStream sid ws = Panic e
    | Ret A' \<Rightarrow> \<exists>ws'. rr_OpenStream sid ws = Ret ws' \<and> rr_rel ws' A'"
proof -
  obtain ps where L: "rr_layout ws ps" and A: "A = rr_abs ws ps" using assms by (auto simp: rr_rel_def)
  show ?thesis
  proof (cases "sid \<in> fst ` set ps")
    case True
    then have "rr_streams ws sid \<noteq> None" using L by (simp add: layout_streams map_of_eq_None_iff)
    then show ?thesis using True A by (simp add: a_open_def rr_abs_def rr_OpenStream_def)
  next
    case False
    then have a: "a_open sid A = Ret (A\<lparr>ra_ring := ra_ring A @ [(sid, [])]\<rparr>)"
      using A by (simp add: a_open_def rr_abs_def)
    show ?thesis unfolding a using OpenStream_refines [OF L False] A by (auto simp: rr_rel_def) metis
  qed
qed

lemma close_sim:
  assumes "rr_rel ws A"
  shows "\<exists>ws'. rr_CloseStream sid ws = Ret ws' \<and> rr_rel ws' (a_close sid A)"
proof -
  obtain ps where L: "rr_layout ws ps" and A: "A = rr_abs ws ps" using assms by (auto simp: rr_rel_def)
  show ?thesis
  proof (cases "sid \<in> fst ` set ps")
    case True
    then obtain us q vs where ps: "ps = us @ (sid, q) # vs" by (auto simp: in_set_conv_decomp)
    then show ?thesis using CloseStream_refines [OF L [unfolded ps]] A by (auto simp: rr_rel_def) metis
  next
    case False
    then have "rr_streams ws sid = None" using L by (simp add: layout_streams map_of_eq_None_iff)
    then have "rr_CloseStream sid ws = Ret ws" "a_close sid A = A"
      using False A by (simp_all add: rr_CloseStream_def a_close_def rr_abs_def)
    then show ?thesis using assms by simp
  qed
qed

lemma push_sim:
  "rr_rel ws A \<Longrightarrow> case a_push wr A of Panic e \<Rightarrow> rr_Push wr ws = Panic e
    | Ret A' \<Rightarrow> \<exists>ws'. rr_Push wr ws = Ret ws' \<and> rr_rel ws' A'"
  using Push_refines by (fastforce simp: rr_rel_def split: go.splits)

lemma layout_fresh:
  assumes "rr_layout ws ps"
  shows "length ps \<le> rr_fresh ws"
proof -
  have "card (set (map snd ps)) = length ps" using assms distinct_card [of "map snd ps"] by (simp add: rr_layout_def)
  moreover have "set (map snd ps) \<subseteq> {..<rr_fresh ws}" using assms by (auto simp: rr_layout_def)
  ultimately show ?thesis by (metis card_lessThan card_mono finite_lessThan)
qed

lemma pop_sim:
  assumes "rr_rel ws A" "rr_fresh ws \<le> fuel"
  shows "case a_pop maxFrame A fs of
      Panic e \<Rightarrow> rr_Pop fuel maxFrame ws fs = Some (Panic e)
    | Ret (w, A', fs') \<Rightarrow> \<exists>ws'. rr_Pop fuel maxFrame ws fs = Some (Ret (w, ws', fs')) \<and> rr_rel ws' A'"
proof -
  obtain ps where L: "rr_layout ws ps" and A: "A = rr_abs ws ps" using assms by (auto simp: rr_rel_def)
  show ?thesis
  proof (cases "rr_control ws")
    case (Cons wr rest)
    have "rr_layout (ws\<lparr>rr_control := rest\<rparr>) ps" using L by (simp add: rr_layout_def)
    then show ?thesis using Cons A by (auto simp: a_pop_def rr_Pop_def rr_abs_def rr_rel_def)
  next
    case Nil
    show ?thesis
    proof (cases ps)
      case Nil
      then show ?thesis using \<open>rr_control ws = []\<close> L A by (auto simp: a_pop_def rr_Pop_def rr_abs_def rr_rel_def rr_layout_def)
    next
      case (Cons p vs)
      obtain sid q where p: "p = (sid, q)" by (cases p)
      have "length vs < fuel" using layout_fresh [OF L] Cons assms by simp
      with L Cons p have
        "case a_scan maxFrame (entries (rr_s ws) []) (entries (rr_s ws) ((sid, q) # vs)) fs of
            Panic e \<Rightarrow> rr_Pop_loop fuel maxFrame q ws fs = Some (Panic e)
          | Ret (w, ring, fs') \<Rightarrow> \<exists>ws' ps'. rr_Pop_loop fuel maxFrame q ws fs = Some (Ret (w, ws', fs')) \<and>
              rr_layout ws' ps' \<and> rr_abs ws' ps' = (rr_abs ws ([] @ (sid, q) # vs))\<lparr>ra_ring := ring\<rparr>"
        by (intro Pop_loop_refines) simp_all
      moreover have "rr_head ws = Some q" using L Cons p by (simp add: rr_layout_def)
      ultimately show ?thesis
        using Nil A Cons p
        by (fastforce simp: a_pop_def rr_Pop_def rr_abs_def rr_rel_def simp del: a_scan.simps split: go.splits)
    qed
  qed
qed

lemma rr_step_sim:
  assumes "rr_sim c a"
  shows "case a_step maxFrame x a of
      Panic e \<Rightarrow> rr_step maxFrame x c = Some (Panic e)
    | Ret (os, a') \<Rightarrow> \<exists>c'. rr_step maxFrame x c = Some (Ret (os, c')) \<and> rr_sim c' a'"
proof -
  obtain ws fs A where e: "c = (ws, fs)" "a = (A, fs)" and R: "rr_rel ws A" and I: "a_inv A"
    using assms by (cases c; cases a) (auto simp: rr_sim_def)
  have inv: "a_inv A'" if "a_step maxFrame x (A, fs) = Ret (os, A', fs')" for os A' fs'
    using a_step_inv [OF I that] .
  show ?thesis
  proof (cases x)
    case (OpOpen sid)
    then show ?thesis using open_sim [OF R, of sid] inv e by (cases "a_open sid A") (auto simp: rr_sim_def)
  next
    case (OpClose sid)
    then show ?thesis using close_sim [OF R, of sid] inv e by (auto simp: rr_sim_def)
  next
    case (OpPush wr)
    then show ?thesis using push_sim [OF R, of wr] inv e by (cases "a_push wr A") (auto simp: rr_sim_def)
  next
    case OpPop
    then show ?thesis
      using pop_sim [OF R order_refl, of maxFrame fs] inv e by (cases "a_pop maxFrame A fs") (auto simp: rr_sim_def)
  next
    case (OpWindows fs')
    then show ?thesis using R I e by (simp add: rr_sim_def)
  qed
qed

interpretation rrs: machine_refinement "rr_step maxFrame" "a_step maxFrame" rr_sim
  by unfold_locales (rule rr_step_sim)

lemma sim_init: "rr_sim (newRoundRobinWriteScheduler, fs) (\<lparr>ra_control = [], ra_ring = []\<rparr>, fs)"
proof -
  have "rr_layout newRoundRobinWriteScheduler []"
    by (simp add: rr_layout_def newRoundRobinWriteScheduler_def ring_ok_def)
  moreover have "rr_abs newRoundRobinWriteScheduler [] = \<lparr>ra_control = [], ra_ring = []\<rparr>"
    by (simp add: rr_abs_def newRoundRobinWriteScheduler_def)
  ultimately show ?thesis by (force simp: rr_sim_def rr_rel_def a_inv_def)
qed

lemma a_step_panic:
  "a_inv A \<Longrightarrow> a_step maxFrame x (A, fs) = Panic e \<Longrightarrow> e \<in> {''stream already opened'', ''add DATA on non-open stream''}"
  using a_pop_ok [of A maxFrame fs] by (cases x) (auto simp: a_open_def a_push_def split: if_splits)

lemma a_run_panic:
  "a_inv A \<Longrightarrow>
     case run_ops (\<lambda>x a. Some (a_step maxFrame x a)) xs (A, fs) of
       None \<Rightarrow> False
     | Some (Panic e) \<Rightarrow> e \<in> {''stream already opened'', ''add DATA on non-open stream''}
     | Some (Ret r) \<Rightarrow> True"
proof (induction xs arbitrary: A fs)
  case (Cons x xs)
  show ?case
  proof (cases "a_step maxFrame x (A, fs)")
    case (Panic e)
    then show ?thesis using a_step_panic [OF Cons.prems Panic] by simp
  next
    case (Ret r)
    obtain os A' fs' where r: "r = (os, A', fs')" by (cases r)
    then show ?thesis
      using Ret Cons.IH [OF a_step_inv [OF Cons.prems Ret [unfolded r]], of fs']
      by (auto split: option.splits go.splits)
  qed
qed simp

subsection \<open>Fairness\<close>

text \<open>Requests that need no window: everything but DATA with bytes.\<close>

definition always_ready :: "http2_FrameWriteRequest \<Rightarrow> bool" where
  "always_ready wr = (wr_DataSize wr = 0)"

lemma ready_consumed: "always_ready wr \<Longrightarrow> wq_consume maxFrame n (wr # q) fs = Ret (Some wr, q, fs)"
  by (auto simp: always_ready_def wr_DataSize_def wr_Consume_def split: writeFramer.splits)

lemma a_scan_progress:
  assumes "\<forall>sq\<in>set us. \<forall>w\<in>set (snd sq). wr_stream w \<noteq> None" "always_ready wr"
  shows "\<exists>w ring fs'. a_scan maxFrame seen (us @ (sid, wr # q) # vs) fs = Ret (Some w, ring, fs') \<and>
    (w = wr \<or> (\<exists>us' vs'. ring = us' @ (sid, wr # q) # vs' \<and> length us' < length us))"
  using assms(1)
proof (induction us arbitrary: seen fs)
  case Nil
  then show ?case by (simp add: ready_consumed [OF assms(2)] del: wq_consume.simps)
next
  case (Cons u us)
  obtain t p where u: "u = (t, p)" by (cases u)
  obtain w p' fs' where c: "wq_consume maxFrame maxInt32 p fs = Ret (w, p', fs')"
    using wq_consume_ok [of p maxFrame maxInt32 fs] Cons.prems u by auto
  show ?case
  proof (cases w)
    case None
    then show ?thesis using Cons.IH [of "seen @ [(t, p)]" fs'] Cons.prems u c by fastforce
  next
    case (Some w')
    then show ?thesis using u c by auto
  qed
qed

lemma a_pops_serve:
  assumes "a_inv A" "ra_control A = []" "ra_ring A = us @ (sid, wr # q) # vs" "always_ready wr"
  shows "\<exists>k os a. k \<le> Suc (length us) \<and>
    run_ops (\<lambda>x a. Some (a_step maxFrame x a)) (replicate k OpPop) (A, fs) = Some (Ret (os @ [Some wr], a))"
  using assms
proof (induction "length us" arbitrary: us vs A fs rule: less_induct)
  case less
  have "\<forall>sq\<in>set us. \<forall>w\<in>set (snd sq). wr_stream w \<noteq> None" using less.prems(1,3) by (auto simp: a_inv_def)
  then obtain w ring fs' where s: "a_scan maxFrame [] (ra_ring A) fs = Ret (Some w, ring, fs')"
    and w: "w = wr \<or> (\<exists>us' vs'. ring = us' @ (sid, wr # q) # vs' \<and> length us' < length us)"
    using a_scan_progress [OF _ less.prems(4), of us maxFrame "[]" sid q vs fs] less.prems(3) by metis
  let ?A = "A\<lparr>ra_ring := ring\<rparr>"
  have st: "a_step maxFrame OpPop (A, fs) = Ret ([Some w], ?A, fs')"
    using s less.prems(2) by (simp add: a_pop_def)
  show ?case
  proof (cases "w = wr")
    case True
    then show ?thesis using st by (intro exI [of _ 1] exI [of _ "[]"]) auto
  next
    case False
    then obtain us' vs' where r: "ring = us' @ (sid, wr # q) # vs'" "length us' < length us" using w by auto
    have "a_inv ?A" using a_step_inv [OF less.prems(1) st] .
    then obtain k os a where k: "k \<le> Suc (length us')"
      "run_ops (\<lambda>x a. Some (a_step maxFrame x a)) (replicate k OpPop) (?A, fs') = Some (Ret (os @ [Some wr], a))"
      using less.hyps [OF r(2), of ?A vs' fs'] less.prems r by auto
    then show ?thesis using st r(2) by (intro exI [of _ "Suc k"] exI [of _ "Some w # os"] exI [of _ a]) auto
  qed
qed

subsection \<open>Correctness\<close>

text \<open>C16: Whatever sequence of opening and closing streams, pushing frames, popping and changes of the
  windows the serve loop performs, the ring of queues gives the same frames in the same order as the
  abstract scheduler, and every pop ends, after at most as many rounds as queues were allocated. The only
  panics are the two the source raises itself, for a stream opened twice and for DATA on a stream that
  is not open: no nil pointer of the ring is followed.\<close>

theorem roundRobin_refines:
  "map_option (map_go fst) (run_ops (rr_step maxFrame) ops (newRoundRobinWriteScheduler, fs)) =
     map_option (map_go fst)
       (run_ops (\<lambda>x a. Some (a_step maxFrame x a)) ops (\<lparr>ra_control = [], ra_ring = []\<rparr>, fs)) \<and>
   (case run_ops (rr_step maxFrame) ops (newRoundRobinWriteScheduler, fs) of
      None \<Rightarrow> False
    | Some (Panic e) \<Rightarrow> e \<in> {''stream already opened'', ''add DATA on non-open stream''}
    | Some (Ret r) \<Rightarrow> True)"
proof
  show "map_option (map_go fst) (run_ops (rr_step maxFrame) ops (newRoundRobinWriteScheduler, fs)) =
     map_option (map_go fst)
       (run_ops (\<lambda>x a. Some (a_step maxFrame x a)) ops (\<lparr>ra_control = [], ra_ring = []\<rparr>, fs))"
    by (rule rrs.run_outputs [OF sim_init])
  have "a_inv \<lparr>ra_control = [], ra_ring = []\<rparr>" by (simp add: a_inv_def)
  from a_run_panic [OF this, of maxFrame ops fs]
  show "case run_ops (rr_step maxFrame) ops (newRoundRobinWriteScheduler, fs) of
      None \<Rightarrow> False
    | Some (Panic e) \<Rightarrow> e \<in> {''stream already opened'', ''add DATA on non-open stream''}
    | Some (Ret r) \<Rightarrow> True"
    using rrs.run_refines [OF sim_init, of maxFrame ops fs] by (auto split: option.splits go.splits)
qed


text \<open>Two streams: one waits for a window, the other has a HEADERS frame to write.\<close>

definition waiting_data :: http2_FrameWriteRequest where
  "waiting_data = \<lparr>wr_write = WriteDataReq 1 [1, 2] True, wr_stream = Some 1, wr_done = None\<rparr>"

definition ready_headers :: http2_FrameWriteRequest where
  "ready_headers = \<lparr>wr_write = WriteOther 0, wr_stream = Some 3, wr_done = None\<rparr>"

definition no_windows :: http2_outflows where
  "no_windows = \<lparr>conn_n = 0, stream_n = \<lambda>_. 0\<rparr>"


end
