(* ===== verification/Http2_Pipe.thy ===== *)
theory Http2_Pipe
  imports Bufio Bytes
begin

section \<open>HTTP/2 stream buffers and pipes (h2_bundle.go, dataBuffer and pipe)\<close>

text \<open>
  The chunked buffer that holds the DATA of a stream and the pipe that hands it to the reader of the
  body. Chunks come from pools and hold stale bytes: their content is the parameter \<open>pool\<close>. A call
  returns (\<open>Done\<close>), panics (\<open>Crash\<close>), runs for ever (\<open>Loops\<close>, when a round of a loop changes
  nothing) or waits for another goroutine (\<open>Blocks\<close>). Each method holds the pipe's mutex, so a
  sequence of calls is a sequence of steps.
\<close>

datatype 'a exec = Done 'a | Crash string | Loops | Blocks

subsection \<open>The data buffer\<close>

record http2_dataBuffer =
  db_chunks :: "byte list list"
  db_r :: nat
  db_w :: nat
  db_size :: nat
  db_expected :: int

definition chunk_class :: "int \<Rightarrow> nat" where
  "chunk_class sz =
     (if sz \<le> 1024 then 1024
      else if sz \<le> 2048 then 2048
      else if sz \<le> 4096 then 4096
      else if sz \<le> 8192 then 8192
      else 16384)"

definition getDataBufferChunk :: "(nat \<Rightarrow> byte list) \<Rightarrow> int \<Rightarrow> byte list" where
  "getDataBufferChunk pool sz = (let k = chunk_class sz in take k (pool k @ replicate k 0))"

text \<open>Whether \<open>putDataBufferChunk\<close> takes a chunk back; it panics otherwise.\<close>

definition putDataBufferChunk_ok :: "byte list \<Rightarrow> bool" where
  "putDataBufferChunk_ok p = List.member [1024, 2048, 4096, 8192, 16384] (length p)"

definition bytesFromFirstChunk :: "http2_dataBuffer \<Rightarrow> byte list exec" where
  "bytesFromFirstChunk b =
     (case db_chunks b of
        [] \<Rightarrow> Crash ''index out of range''
      | [c] \<Rightarrow>
          if db_r b \<le> db_w b \<and> db_w b \<le> length c then Done (drop (db_r b) (take (db_w b) c))
          else Crash ''slice bounds out of range''
      | c # _ \<Rightarrow>
          if db_r b \<le> length c then Done (drop (db_r b) c) else Crash ''slice bounds out of range'')"

definition db_Len :: "http2_dataBuffer \<Rightarrow> nat" where
  "db_Len b = db_size b"

text \<open>The loop of \<open>Read\<close> with \<open>m\<close> bytes of room left and the bytes copied so far.\<close>

function db_Read_loop :: "nat \<Rightarrow> byte list \<Rightarrow> http2_dataBuffer \<Rightarrow> (byte list \<times> http2_dataBuffer) exec" where
  "db_Read_loop m out b =
     (if \<not> (m > 0 \<and> db_size b > 0) then Done (out, b)
      else
        (case bytesFromFirstChunk b of
           Done readFrom \<Rightarrow>
             (let d = take m readFrom;
                  b1 = b\<lparr>db_r := db_r b + length d, db_size := db_size b - length d\<rparr>
              in
                if db_r b1 = length (hd (db_chunks b1)) then
                  (if putDataBufferChunk_ok (hd (db_chunks b1))
                   then db_Read_loop (m - length d) (out @ d) (b1\<lparr>db_chunks := tl (db_chunks b1), db_r := 0\<rparr>)
                   else Crash ''unexpected buffer len'')
                else if d = [] then Loops
                else db_Read_loop (m - length d) (out @ d) b1)
         | Crash e \<Rightarrow> Crash e
         | Loops \<Rightarrow> Loops
         | Blocks \<Rightarrow> Blocks))"
  by pat_completeness auto
termination
  by (relation "measure (\<lambda>(m, out, b). m + length (db_chunks b))")
    (auto simp: bytesFromFirstChunk_def split: list.splits if_splits)

declare db_Read_loop.simps [simp del]

definition errReadEmpty :: io_error where
  "errReadEmpty = OtherError ''read from empty dataBuffer''"

definition db_Read :: "nat \<Rightarrow> http2_dataBuffer \<Rightarrow> ((io_error + byte list) \<times> http2_dataBuffer) exec" where
  "db_Read m b =
     (if db_size b = 0 then Done (Inl errReadEmpty, b)
      else
        (case db_Read_loop m [] b of
           Done (out, b') \<Rightarrow> Done (Inr out, b')
         | Crash e \<Rightarrow> Crash e
         | Loops \<Rightarrow> Loops
         | Blocks \<Rightarrow> Blocks))"

definition lastChunkOrAlloc :: "(nat \<Rightarrow> byte list) \<Rightarrow> int \<Rightarrow> http2_dataBuffer \<Rightarrow> http2_dataBuffer" where
  "lastChunkOrAlloc pool want b =
     (if db_chunks b \<noteq> [] \<and> db_w b < length (last (db_chunks b)) then b
      else b\<lparr>db_chunks := db_chunks b @ [getDataBufferChunk pool want], db_w := 0\<rparr>)"

lemma length_getDataBufferChunk [simp]: "length (getDataBufferChunk pool want) = chunk_class want"
  by (simp add: getDataBufferChunk_def Let_def)

lemma chunk_class_cases: "chunk_class n \<in> {1024, 2048, 4096, 8192, 16384}" "0 < chunk_class n"
  by (simp_all add: chunk_class_def)

lemma lastChunkOrAlloc_room:
  "db_chunks (lastChunkOrAlloc pool want b) \<noteq> []"
  "db_w (lastChunkOrAlloc pool want b) < length (last (db_chunks (lastChunkOrAlloc pool want b)))"
  using chunk_class_cases(2) [of want] by (simp_all add: lastChunkOrAlloc_def)

text \<open>The loop of \<open>Write\<close>; \<open>copy\<close> overwrites the free part of the last chunk.\<close>

definition copy_at :: "byte list \<Rightarrow> nat \<Rightarrow> byte list \<Rightarrow> byte list" where
  "copy_at c w d = take w c @ d @ drop (w + length d) c"

function db_Write_loop :: "(nat \<Rightarrow> byte list) \<Rightarrow> byte list \<Rightarrow> http2_dataBuffer \<Rightarrow> http2_dataBuffer" where
  "db_Write_loop pool p b =
     (if p = [] then b
      else
        (let want = max (int (length p)) (db_expected b);
             b1 = lastChunkOrAlloc pool want b;
             d = take (length (last (db_chunks b1)) - db_w b1) p
         in db_Write_loop pool (drop (length d) p)
              (b1\<lparr>db_chunks := butlast (db_chunks b1) @ [copy_at (last (db_chunks b1)) (db_w b1) d],
                 db_w := db_w b1 + length d, db_size := db_size b1 + length d,
                 db_expected := db_expected b1 - int (length d)\<rparr>)))"
  by pat_completeness auto
termination
proof (relation "measure (\<lambda>(pool, p, b). length p)", goal_cases)
  case (2 pool p b want b1 d)
  then have "0 < length (last (db_chunks b1)) - db_w b1" using lastChunkOrAlloc_room(2) by simp
  with 2 show ?case by (cases p) auto
qed simp

declare db_Write_loop.simps [simp del]

definition db_Write :: "(nat \<Rightarrow> byte list) \<Rightarrow> byte list \<Rightarrow> http2_dataBuffer \<Rightarrow> (nat \<times> http2_dataBuffer) exec" where
  "db_Write pool p b = Done (length p, db_Write_loop pool p b)"

subsection \<open>The bytes a buffer holds\<close>

definition db_stored :: "http2_dataBuffer \<Rightarrow> byte list" where
  "db_stored b = (if db_chunks b = [] then [] else concat (butlast (db_chunks b)) @ take (db_w b) (last (db_chunks b)))"

definition db_contents :: "http2_dataBuffer \<Rightarrow> byte list" where
  "db_contents b = drop (db_r b) (db_stored b)"

definition db_ok :: "http2_dataBuffer \<Rightarrow> bool" where
  "db_ok b =
     (list_all putDataBufferChunk_ok (db_chunks b) \<and> db_size b = length (db_contents b) \<and>
      db_r b \<le> length (db_stored b) \<and>
      (db_chunks b \<noteq> [] \<longrightarrow> db_r b < length (hd (db_chunks b)) \<and> db_w b \<le> length (last (db_chunks b))))"

lemma putDataBufferChunk_ok_pos: "putDataBufferChunk_ok c \<Longrightarrow> 0 < length c"
  by (auto simp: putDataBufferChunk_ok_def)

lemma db_empty_ok: "db_ok \<lparr>db_chunks = [], db_r = 0, db_w = 0, db_size = 0, db_expected = e\<rparr>"
  by (simp add: db_ok_def db_contents_def db_stored_def)

lemma concat_butlast_last: "xs \<noteq> [] \<Longrightarrow> concat (butlast xs) @ last xs = concat xs"
  by (cases xs rule: rev_cases) simp_all

lemma alloc_ok:
  assumes "db_ok b"
  shows "db_ok (lastChunkOrAlloc pool want b) \<and> db_contents (lastChunkOrAlloc pool want b) = db_contents b"
proof (cases "db_chunks b \<noteq> [] \<and> db_w b < length (last (db_chunks b))")
  case True
  then show ?thesis using assms by (simp add: lastChunkOrAlloc_def)
next
  case False
  let ?b = "lastChunkOrAlloc pool want b"
  have c: "putDataBufferChunk_ok (getDataBufferChunk pool want)"
    using chunk_class_cases(1) [of want] by (auto simp: putDataBufferChunk_ok_def)
  show ?thesis
  proof (cases "db_chunks b = []")
    case True
    then show ?thesis using assms c putDataBufferChunk_ok_pos [OF c]
      by (auto simp: lastChunkOrAlloc_def db_ok_def db_contents_def db_stored_def)
  next
    case ne: False
    then have "db_w b = length (last (db_chunks b))" using False assms by (auto simp: db_ok_def)
    then have "db_stored ?b = db_stored b"
      using ne False by (simp add: lastChunkOrAlloc_def db_stored_def concat_butlast_last)
    then show ?thesis using assms ne False c by (simp add: lastChunkOrAlloc_def db_ok_def db_contents_def hd_append)
  qed
qed

text \<open>One round of the write loop.\<close>

definition db_put :: "http2_dataBuffer \<Rightarrow> byte list \<Rightarrow> http2_dataBuffer" where
  "db_put b d =
     b\<lparr>db_chunks := butlast (db_chunks b) @ [copy_at (last (db_chunks b)) (db_w b) d],
       db_w := db_w b + length d, db_size := db_size b + length d, db_expected := db_expected b - int (length d)\<rparr>"

lemma db_put_ok:
  assumes ok: "db_ok b" and ne: "db_chunks b \<noteq> []" and d: "length d \<le> length (last (db_chunks b)) - db_w b"
  shows "db_ok (db_put b d) \<and> db_contents (db_put b d) = db_contents b @ d"
proof -
  let ?l = "last (db_chunks b)"
  have w: "db_w b \<le> length ?l" and r: "db_r b < length (hd (db_chunks b))" "db_r b \<le> length (db_stored b)"
    using ok ne by (simp_all add: db_ok_def)
  have len: "length (copy_at ?l (db_w b) d) = length ?l" using w d by (simp add: copy_at_def)
  have st: "db_stored (db_put b d) = db_stored b @ d" using w d ne by (simp add: db_put_def db_stored_def copy_at_def)
  then have ct: "db_contents (db_put b d) = db_contents b @ d" using r(2) by (simp add: db_contents_def db_put_def)
  have "list_all putDataBufferChunk_ok (butlast (db_chunks b) @ [?l])" using ok ne by (simp add: db_ok_def)
  then have "list_all putDataBufferChunk_ok (db_chunks (db_put b d))"
    using len by (simp add: db_put_def putDataBufferChunk_ok_def)
  moreover have "length (hd (db_chunks (db_put b d))) = length (hd (db_chunks b))"
    using ne len by (cases "db_chunks b") (auto simp: db_put_def)
  ultimately show ?thesis using ct st ok r w d len ne by (simp add: db_ok_def) (simp add: db_put_def)
qed

lemma db_Write_loop_correct:
  "db_ok b \<Longrightarrow> db_ok (db_Write_loop pool p b) \<and> db_contents (db_Write_loop pool p b) = db_contents b @ p"
proof (induction pool p b rule: db_Write_loop.induct)
  case (1 pool p b)
  show ?case
  proof (cases "p = []")
    case True
    then show ?thesis using "1.prems" by (simp add: db_Write_loop.simps)
  next
    case False
    define want where "want = max (int (length p)) (db_expected b)"
    define b1 where "b1 = lastChunkOrAlloc pool want b"
    define d where "d = take (length (last (db_chunks b1)) - db_w b1) p"
    have eq: "db_Write_loop pool p b = db_Write_loop pool (drop (length d) p) (db_put b1 d)"
      using False unfolding db_Write_loop.simps [of pool p b] Let_def want_def [symmetric] b1_def [symmetric] d_def [symmetric] db_put_def
      by simp
    have a: "db_ok b1" "db_contents b1 = db_contents b" using alloc_ok [OF "1.prems"] by (simp_all add: b1_def)
    have pu: "db_ok (db_put b1 d) \<and> db_contents (db_put b1 d) = db_contents b1 @ d"
      by (rule db_put_ok [OF a(1)]) (simp_all add: b1_def lastChunkOrAlloc_room d_def)
    have pd: "d @ drop (length d) p = p" by (simp add: d_def min_def)
    have "db_ok (db_Write_loop pool (drop (length d) p) (db_put b1 d)) \<and>
        db_contents (db_Write_loop pool (drop (length d) p) (db_put b1 d)) = db_contents (db_put b1 d) @ drop (length d) p"
      using "1.IH" [OF False want_def b1_def d_def] pu unfolding db_put_def by blast
    then show ?thesis unfolding eq using pu a(2) pd by simp
  qed
qed

lemma first_chunk:
  assumes "db_ok b" and "0 < db_size b"
  obtains c cs rf where "db_chunks b = c # cs" "bytesFromFirstChunk b = Done rf" "rf \<noteq> []"
    "db_contents b = rf @ (if cs = [] then [] else concat (butlast cs) @ take (db_w b) (last cs))"
    "db_r b + length rf = (if cs = [] then db_w b else length c)" "db_w b \<le> length (last (c # cs))"
proof -
  have "db_contents b \<noteq> []" using assms by (auto simp: db_ok_def)
  then obtain c cs where c: "db_chunks b = c # cs" by (cases "db_chunks b") (simp_all add: db_contents_def db_stored_def)
  have b: "db_r b < length c" "db_w b \<le> length (last (c # cs))" "db_r b \<le> length (db_stored b)" using assms(1) c by (simp_all add: db_ok_def)
  show ?thesis
  proof (cases cs)
    case Nil
    then have "db_r b \<le> db_w b" "db_w b \<le> length c" using b c by (simp_all add: db_stored_def min_def split: if_splits)
    then show ?thesis using that [OF c, of "drop (db_r b) (take (db_w b) c)"] Nil c b \<open>db_contents b \<noteq> []\<close>
      by (simp add: bytesFromFirstChunk_def db_contents_def db_stored_def)
  next
    case (Cons c2 cs2)
    then show ?thesis using that [OF c, of "drop (db_r b) c"] c b
      by (simp add: bytesFromFirstChunk_def db_contents_def db_stored_def)
  qed
qed

lemma take_take_step: "C = rf @ rest \<Longrightarrow> d = take m rf \<Longrightarrow> d @ take (m - length d) (drop (length d) C) = take m C"
  "C = rf @ rest \<Longrightarrow> d = take m rf \<Longrightarrow> drop (m - length d) (drop (length d) C) = drop m C"
  by (cases "m \<le> length rf"; simp add: min_def)+

text \<open>Dropping \<open>d\<close> from the front, with or without the first chunk.\<close>

lemma db_advance_ok:
  assumes ok: "db_ok b" and c: "db_chunks b = c # cs" and w: "db_w b \<le> length (last (c # cs))"
    and ct: "db_contents b = d @ (if cs = [] then [] else concat (butlast cs) @ take (db_w b) (last cs))"
  shows "db_ok (b\<lparr>db_r := 0, db_size := db_size b - length d, db_chunks := cs\<rparr>) \<and>
    db_contents (b\<lparr>db_r := 0, db_size := db_size b - length d, db_chunks := cs\<rparr>) = drop (length d) (db_contents b)"
proof -
  have "db_contents (b\<lparr>db_r := 0, db_size := db_size b - length d, db_chunks := cs\<rparr>) = drop (length d) (db_contents b)"
    using ct by (simp add: db_contents_def db_stored_def)
  moreover have "cs \<noteq> [] \<Longrightarrow> 0 < length (hd cs)"
    using ok c putDataBufferChunk_ok_pos by (cases cs) (auto simp: db_ok_def)
  ultimately show ?thesis using ok c w by (auto simp: db_ok_def)
qed

lemma db_skip_ok:
  assumes ok: "db_ok b" and c: "db_chunks b = c # cs" and l: "db_r b + k < length c" and k: "k \<le> length (db_contents b)"
  shows "db_ok (b\<lparr>db_r := db_r b + k, db_size := db_size b - k\<rparr>) \<and>
    db_contents (b\<lparr>db_r := db_r b + k, db_size := db_size b - k\<rparr>) = drop k (db_contents b)"
proof -
  let ?b = "b\<lparr>db_r := db_r b + k, db_size := db_size b - k\<rparr>"
  have st: "db_stored ?b = db_stored b" by (simp add: db_stored_def)
  then have ct: "db_contents ?b = drop k (db_contents b)" by (simp add: db_contents_def add.commute)
  have "db_r b \<le> length (db_stored b)" using ok by (simp add: db_ok_def)
  moreover have "k \<le> length (db_stored b) - db_r b" using k by (simp add: db_contents_def)
  ultimately have "db_r b + k \<le> length (db_stored b)" by linarith
  then show ?thesis using ok c l ct st by (simp add: db_ok_def)
qed

lemma db_Read_loop_correct:
  "db_ok b \<Longrightarrow> \<exists>b'. db_Read_loop m out b = Done (out @ take m (db_contents b), b') \<and> db_ok b' \<and>
     db_contents b' = drop m (db_contents b)"
proof (induction m out b rule: db_Read_loop.induct)
  case (1 m out b)
  show ?case
  proof (cases "0 < m \<and> 0 < db_size b")
    case False
    then have "m = 0 \<or> db_contents b = []" using "1.prems" by (auto simp: db_ok_def)
    then show ?thesis using False "1.prems" by (auto simp: db_Read_loop.simps [of m out b])
  next
    case go: True
    obtain c cs rf where f: "db_chunks b = c # cs" "bytesFromFirstChunk b = Done rf" "rf \<noteq> []"
      "db_contents b = rf @ (if cs = [] then [] else concat (butlast cs) @ take (db_w b) (last cs))"
      "db_r b + length rf = (if cs = [] then db_w b else length c)" "db_w b \<le> length (last (c # cs))"
      by (rule first_chunk [OF "1.prems" conjunct2 [OF go]])
    define d where "d = take m rf"
    define b1 where "b1 = b\<lparr>db_r := db_r b + length d, db_size := db_size b - length d\<rparr>"
    have dne: "d \<noteq> []" and dl: "length d \<le> length rf" using go f(3) by (simp_all add: d_def)
    have rl: "db_r b + length rf \<le> length c" using f(5,6) by (cases cs) simp_all
    have hd1: "hd (db_chunks b1) = c" using f(1) by (simp add: b1_def)
    have putok: "putDataBufferChunk_ok c" using "1.prems" f(1) by (simp add: db_ok_def)
    note eq = db_Read_loop.simps [of m out b, unfolded f(2) exec.case Let_def, folded d_def, folded b1_def, unfolded hd1]
    note step = take_take_step [OF f(4) d_def]
    show ?thesis
    proof (cases "db_r b1 = length c")
      case adv: True
      then have "length d = length rf" using dl rl by (simp add: b1_def)
      then have "d = rf" by (simp add: d_def min_def split: if_splits)
      define b2 where "b2 = b1\<lparr>db_chunks := tl (db_chunks b1), db_r := 0\<rparr>"
      have "b2 = b\<lparr>db_r := 0, db_size := db_size b - length d, db_chunks := cs\<rparr>" using f(1) by (simp add: b2_def b1_def)
      with db_advance_ok [OF "1.prems" f(1,6) f(4) [folded \<open>d = rf\<close>]]
      have b2: "db_ok b2" "db_contents b2 = drop (length d) (db_contents b)" by simp_all
      have "db_Read_loop m out b = db_Read_loop (m - length d) (out @ d) b2"
        using eq go adv putok by (simp add: b2_def)
      moreover have "\<exists>b'. db_Read_loop (m - length d) (out @ d) b2 = Done ((out @ d) @ take (m - length d) (db_contents b2), b') \<and>
          db_ok b' \<and> db_contents b' = drop (m - length d) (db_contents b2)"
        unfolding b2_def
        by (rule "1.IH"(1) [OF _ f(2) d_def b1_def _ _ b2(1) [unfolded b2_def]]) (use go adv hd1 putok in simp_all)
      ultimately show ?thesis using step b2(2) by simp
    next
      case skip: False
      then have lt: "db_r b + length d < length c" using dl rl by (simp add: b1_def)
      have "length d \<le> length (db_contents b)" using dl f(4) by simp
      from db_skip_ok [OF "1.prems" f(1) lt this]
      have b1: "db_ok b1" "db_contents b1 = drop (length d) (db_contents b)" by (simp_all add: b1_def)
      have "db_Read_loop m out b = db_Read_loop (m - length d) (out @ d) b1" using eq go skip dne by simp
      moreover have "\<exists>b'. db_Read_loop (m - length d) (out @ d) b1 = Done ((out @ d) @ take (m - length d) (db_contents b1), b') \<and>
          db_ok b' \<and> db_contents b' = drop (m - length d) (db_contents b1)"
        by (rule "1.IH"(2) [OF _ f(2) d_def b1_def _ dne b1(1)]) (use go skip hd1 in simp_all)
      ultimately show ?thesis using step b1(2) by simp
    qed
  qed
qed

lemma db_Write_correct:
  "db_ok b \<Longrightarrow> \<exists>b'. db_Write pool d b = Done (length d, b') \<and> db_ok b' \<and> db_contents b' = db_contents b @ d"
  using db_Write_loop_correct by (auto simp: db_Write_def)

lemma db_Read_correct:
  assumes "db_ok b" and "db_contents b \<noteq> []"
  shows "\<exists>b'. db_Read m b = Done (Inr (take m (db_contents b)), b') \<and> db_ok b' \<and> db_contents b' = drop m (db_contents b)"
proof -
  have "db_size b \<noteq> 0" using assms by (auto simp: db_ok_def)
  with db_Read_loop_correct [OF assms(1), of m "[]"] show ?thesis by (auto simp: db_Read_def)
qed

subsection \<open>The pipe\<close>

text \<open>The interface \<open>pipeBuffer\<close> that a pipe uses: a queue of bytes behind \<open>Len\<close>, \<open>Write\<close> and \<open>Read\<close>.\<close>

record 'b pipe_buffer_ops =
  pb_Len :: "'b \<Rightarrow> nat"
  pb_Write :: "byte list \<Rightarrow> 'b \<Rightarrow> (nat \<times> 'b) exec"
  pb_Read :: "nat \<Rightarrow> 'b \<Rightarrow> ((io_error + byte list) \<times> 'b) exec"

text \<open>\<open>p_readFn\<close> is the code to run before the closing error, named by a number; \<open>p_ran\<close> lists what ran.
  \<open>p_donec\<close> says of the done channel whether it exists and is closed.\<close>

record 'b http2_pipe =
  p_b :: "'b option"
  p_unread :: nat
  p_err :: "io_error option"
  p_breakErr :: "io_error option"
  p_donec :: "bool option"
  p_readFn :: "nat option"
  p_ran :: "nat list"

definition new_pipe :: "'b http2_pipe" where
  "new_pipe = \<lparr>p_b = None, p_unread = 0, p_err = None, p_breakErr = None, p_donec = None, p_readFn = None, p_ran = []\<rparr>"

definition pipe_setBuffer :: "'b \<Rightarrow> 'b http2_pipe \<Rightarrow> 'b http2_pipe" where
  "pipe_setBuffer b p = (if p_err p \<noteq> None \<or> p_breakErr p \<noteq> None then p else p\<lparr>p_b := Some b\<rparr>)"

definition pipe_Len :: "'b pipe_buffer_ops \<Rightarrow> 'b http2_pipe \<Rightarrow> nat" where
  "pipe_Len ops p = (case p_b p of None \<Rightarrow> p_unread p | Some b \<Rightarrow> pb_Len ops b)"

definition pipe_Read :: "'b pipe_buffer_ops \<Rightarrow> nat \<Rightarrow> 'b http2_pipe \<Rightarrow> ((io_error + byte list) \<times> 'b http2_pipe) exec" where
  "pipe_Read ops m p =
     (case p_breakErr p of
        Some e \<Rightarrow> Done (Inl e, p)
      | None \<Rightarrow>
          (let closed = (case p_err p of
               Some e \<Rightarrow>
                 Done (Inl e, (case p_readFn p of None \<Rightarrow> p | Some fn \<Rightarrow> p\<lparr>p_ran := p_ran p @ [fn], p_readFn := None\<rparr>)\<lparr>p_b := None\<rparr>)
             | None \<Rightarrow> Blocks)
           in case p_b p of
                Some b \<Rightarrow>
                  if pb_Len ops b > 0 then
                    (case pb_Read ops m b of
                       Done (res, b') \<Rightarrow> Done (res, p\<lparr>p_b := Some b'\<rparr>)
                     | Crash e \<Rightarrow> Crash e
                     | Loops \<Rightarrow> Loops
                     | Blocks \<Rightarrow> Blocks)
                  else closed
              | None \<Rightarrow> closed))"

definition errClosedPipeWrite :: io_error where
  "errClosedPipeWrite = OtherError ''write on closed buffer''"

definition pipe_Write :: "'b pipe_buffer_ops \<Rightarrow> byte list \<Rightarrow> 'b http2_pipe \<Rightarrow> ((io_error + nat) \<times> 'b http2_pipe) exec" where
  "pipe_Write ops d p =
     (if p_err p \<noteq> None \<or> p_breakErr p \<noteq> None then Done (Inl errClosedPipeWrite, p)
      else
        (case p_b p of
           None \<Rightarrow> Crash ''nil pointer dereference''
         | Some b \<Rightarrow>
             (case pb_Write ops d b of
                Done (n, b') \<Rightarrow> Done (Inr n, p\<lparr>p_b := Some b'\<rparr>)
              | Crash e \<Rightarrow> Crash e
              | Loops \<Rightarrow> Loops
              | Blocks \<Rightarrow> Blocks)))"

definition closeDoneLocked :: "'b http2_pipe \<Rightarrow> 'b http2_pipe" where
  "closeDoneLocked p = (case p_donec p of None \<Rightarrow> p | Some _ \<Rightarrow> p\<lparr>p_donec := Some True\<rparr>)"

text \<open>\<open>brk\<close>: the destination is \<open>breakErr\<close>, else \<open>err\<close>. The error is \<open>None\<close> for nil.\<close>

definition closeWithError :: "'b pipe_buffer_ops \<Rightarrow> bool \<Rightarrow> io_error option \<Rightarrow> nat option \<Rightarrow> 'b http2_pipe \<Rightarrow> 'b http2_pipe exec" where
  "closeWithError ops brk err fn p =
     (case err of
        None \<Rightarrow> Crash ''err must be non-nil''
      | Some e \<Rightarrow>
          if (if brk then p_breakErr p else p_err p) \<noteq> None then Done p
          else
            (let p1 = p\<lparr>p_readFn := fn\<rparr>;
                 p2 = (if brk then p1\<lparr>p_unread := p_unread p1 + (case p_b p1 of None \<Rightarrow> 0 | Some b \<Rightarrow> pb_Len ops b), p_b := None\<rparr> else p1);
                 p3 = (if brk then p2\<lparr>p_breakErr := Some e\<rparr> else p2\<lparr>p_err := Some e\<rparr>)
             in Done (closeDoneLocked p3)))"

definition CloseWithError :: "'b pipe_buffer_ops \<Rightarrow> io_error option \<Rightarrow> 'b http2_pipe \<Rightarrow> 'b http2_pipe exec" where
  "CloseWithError ops err p = closeWithError ops False err None p"

definition BreakWithError :: "'b pipe_buffer_ops \<Rightarrow> io_error option \<Rightarrow> 'b http2_pipe \<Rightarrow> 'b http2_pipe exec" where
  "BreakWithError ops err p = closeWithError ops True err None p"

definition closeWithErrorAndCode :: "'b pipe_buffer_ops \<Rightarrow> io_error option \<Rightarrow> nat \<Rightarrow> 'b http2_pipe \<Rightarrow> 'b http2_pipe exec" where
  "closeWithErrorAndCode ops err fn p = closeWithError ops False err (Some fn) p"

definition pipe_Err :: "'b http2_pipe \<Rightarrow> io_error option" where
  "pipe_Err p = (if p_breakErr p \<noteq> None then p_breakErr p else p_err p)"

definition pipe_Done :: "'b http2_pipe \<Rightarrow> bool \<times> 'b http2_pipe" where
  "pipe_Done p =
     (let p1 = (if p_donec p = None
                then (let p2 = p\<lparr>p_donec := Some False\<rparr> in
                      if p_err p \<noteq> None \<or> p_breakErr p \<noteq> None then closeDoneLocked p2 else p2)
                else p)
      in (p_donec p1 = Some True, p1))"

subsection \<open>Runs of a pipe\<close>

text \<open>
  A run of calls by the goroutines that share the pipe, with the bytes written and the bytes read so
  far. A \<open>Read\<close> that has to wait leaves the pipe as it is.
\<close>

datatype pipe_call =
    PWrite "byte list"
  | PRead nat
  | PClose io_error "nat option"
  | PBreak io_error
  | PDone

type_synonym 'b pipe_run = "'b http2_pipe \<times> byte list \<times> byte list"

fun pipe_step :: "'b pipe_buffer_ops \<Rightarrow> pipe_call \<Rightarrow> 'b pipe_run \<Rightarrow> 'b pipe_run exec" where
  "pipe_step ops (PWrite d) (p, w, r) =
     (case pipe_Write ops d p of
        Done (Inr n, p') \<Rightarrow> Done (p', w @ take n d, r)
      | Done (Inl e, p') \<Rightarrow> Done (p', w, r)
      | Crash e \<Rightarrow> Crash e | Loops \<Rightarrow> Loops | Blocks \<Rightarrow> Done (p, w, r))"
| "pipe_step ops (PRead m) (p, w, r) =
     (case pipe_Read ops m p of
        Done (Inr d, p') \<Rightarrow> Done (p', w, r @ d)
      | Done (Inl e, p') \<Rightarrow> Done (p', w, r)
      | Crash e \<Rightarrow> Crash e | Loops \<Rightarrow> Loops | Blocks \<Rightarrow> Done (p, w, r))"
| "pipe_step ops (PClose e fn) (p, w, r) =
     (case closeWithError ops False (Some e) fn p of
        Done p' \<Rightarrow> Done (p', w, r) | Crash e \<Rightarrow> Crash e | Loops \<Rightarrow> Loops | Blocks \<Rightarrow> Blocks)"
| "pipe_step ops (PBreak e) (p, w, r) =
     (case BreakWithError ops (Some e) p of
        Done p' \<Rightarrow> Done (p', w, r) | Crash e \<Rightarrow> Crash e | Loops \<Rightarrow> Loops | Blocks \<Rightarrow> Blocks)"
| "pipe_step ops PDone (p, w, r) = Done (snd (pipe_Done p), w, r)"

fun pipe_run :: "'b pipe_buffer_ops \<Rightarrow> pipe_call list \<Rightarrow> 'b pipe_run \<Rightarrow> 'b pipe_run exec" where
  "pipe_run ops [] s = Done s"
| "pipe_run ops (c # cs) s =
     (case pipe_step ops c s of
        Done s' \<Rightarrow> pipe_run ops cs s' | Crash e \<Rightarrow> Crash e | Loops \<Rightarrow> Loops | Blocks \<Rightarrow> Blocks)"

locale pipe_buffer =
  fixes ops :: "'b pipe_buffer_ops" and buf_ok :: "'b \<Rightarrow> bool" and contents :: "'b \<Rightarrow> byte list"
  assumes len_contents: "buf_ok b \<Longrightarrow> pb_Len ops b = length (contents b)"
    and write_contents: "buf_ok b \<Longrightarrow> \<exists>b'. pb_Write ops d b = Done (length d, b') \<and> buf_ok b' \<and> contents b' = contents b @ d"
    and read_contents: "buf_ok b \<Longrightarrow> contents b \<noteq> [] \<Longrightarrow>
      \<exists>b'. pb_Read ops m b = Done (Inr (take m (contents b)), b') \<and> buf_ok b' \<and> contents b' = drop m (contents b)"
begin

text \<open>The bytes written are the bytes read and the bytes that wait in the buffer, unless the pipe is broken,
  and then the bytes that were thrown away.\<close>

definition pipe_inv :: "'b pipe_run \<Rightarrow> bool" where
  "pipe_inv s =
     (case s of (p, w, r) \<Rightarrow>
        (case p_b p of
           Some b \<Rightarrow> buf_ok b \<and> w = r @ contents b \<and> p_breakErr p = None \<and> p_unread p = 0
         | None \<Rightarrow>
             if p_breakErr p = None then p_err p \<noteq> None \<and> w = r \<and> p_unread p = 0
             else \<exists>lost. w = r @ lost \<and> p_unread p = length lost))"

lemma pipe_Read_data:
  assumes "pipe_inv (p, w, r)" and "p_breakErr p = None" and "r \<noteq> w"
  shows "\<exists>p'. pipe_Read ops m p = Done (Inr (take m (drop (length r) w)), p') \<and> pipe_inv (p', w, r @ take m (drop (length r) w))"
proof -
  obtain b where b: "p_b p = Some b" "buf_ok b" "w = r @ contents b" "p_unread p = 0"
    using assms by (auto simp: pipe_inv_def split: option.splits)
  then have ne: "contents b \<noteq> []" using assms(3) by auto
  obtain b' where b': "pb_Read ops m b = Done (Inr (take m (contents b)), b')" "buf_ok b'" "contents b' = drop m (contents b)"
    using read_contents [OF b(2) ne] by blast
  show ?thesis
    using b b' ne assms(2) len_contents [OF b(2)] by (simp add: pipe_Read_def Let_def pipe_inv_def)
qed

lemma pipe_Read_end:
  assumes "pipe_inv (p, w, r)" and "p_breakErr p = None" and "r = w"
  shows "p_err p = None \<Longrightarrow> pipe_Read ops m p = Blocks"
    and "p_err p = Some e \<Longrightarrow> \<exists>p'. pipe_Read ops m p = Done (Inl e, p') \<and> pipe_inv (p', w, r)"
proof -
  have b: "p_b p = None \<or> (\<exists>b. p_b p = Some b \<and> pb_Len ops b = 0)" "p_unread p = 0"
    using assms len_contents by (auto simp: pipe_inv_def split: option.splits)
  show "pipe_Read ops m p = Blocks" if "p_err p = None"
    using b that assms(2) by (auto simp: pipe_Read_def Let_def)
  show "\<exists>p'. pipe_Read ops m p = Done (Inl e, p') \<and> pipe_inv (p', w, r)" if "p_err p = Some e"
    using b that assms(2,3) by (auto simp: pipe_Read_def Let_def pipe_inv_def split: option.split)
qed

lemma pipe_Read_broken: "p_breakErr p = Some e \<Longrightarrow> pipe_Read ops m p = Done (Inl e, p)"
  by (simp add: pipe_Read_def)

lemma pipe_Write_inv:
  assumes "pipe_inv (p, w, r)"
  shows "\<exists>s. pipe_step ops (PWrite d) (p, w, r) = Done s \<and> pipe_inv s"
proof (cases "p_err p \<noteq> None \<or> p_breakErr p \<noteq> None")
  case True
  then show ?thesis using assms by (auto simp: pipe_Write_def)
next
  case False
  then obtain b where b: "p_b p = Some b" "buf_ok b" "w = r @ contents b" "p_unread p = 0"
    using assms by (auto simp: pipe_inv_def split: option.splits)
  obtain b' where "pb_Write ops d b = Done (length d, b')" "buf_ok b'" "contents b' = contents b @ d"
    using write_contents [OF b(2)] by blast
  then show ?thesis using b False by (auto simp: pipe_Write_def pipe_inv_def)
qed

lemma closeDone_inv: "pipe_inv (closeDoneLocked p, w, r) = pipe_inv (p, w, r)"
  by (cases "p_donec p"; cases "p_b p"; cases "p_breakErr p") (simp_all add: closeDoneLocked_def pipe_inv_def)

lemma closeWithError_inv:
  assumes "pipe_inv (p, w, r)"
  shows "\<exists>p'. closeWithError ops brk (Some e) fn p = Done p' \<and> pipe_inv (p', w, r)"
proof (cases "(if brk then p_breakErr p else p_err p) \<noteq> None")
  case True
  then show ?thesis using assms by (simp add: closeWithError_def)
next
  case False
  then show ?thesis
    using assms len_contents
    by (cases "p_b p"; cases brk) (simp_all add: closeWithError_def Let_def closeDone_inv, auto simp: pipe_inv_def)
qed

lemma pipe_Done_inv: "pipe_inv (p, w, r) \<Longrightarrow> pipe_inv (snd (pipe_Done p), w, r)"
  by (simp add: pipe_Done_def Let_def closeDone_inv) (simp add: pipe_inv_def split: option.splits)

lemma pipe_step_inv:
  assumes "pipe_inv s"
  shows "\<exists>s'. pipe_step ops c s = Done s' \<and> pipe_inv s'"
proof -
  obtain p w r where s: "s = (p, w, r)" by (cases s)
  note inv = assms [unfolded s]
  show ?thesis
  proof (cases c)
    case (PRead m)
    consider e where "p_breakErr p = Some e" | "p_breakErr p = None" "r \<noteq> w" | "p_breakErr p = None" "r = w" by (cases "p_breakErr p") auto
    then show ?thesis
    proof cases
      case 1
      then show ?thesis using inv PRead s pipe_Read_broken by simp
    next
      case 2
      then show ?thesis using pipe_Read_data [OF inv 2, of m] PRead s by auto
    next
      case 3
      show ?thesis
      proof (cases "p_err p")
        case None
        then show ?thesis using pipe_Read_end(1) [OF inv 3] inv PRead s by simp
      next
        case (Some e)
        then show ?thesis using pipe_Read_end(2) [OF inv 3 Some, of m] PRead s by auto
      qed
    qed
  next
    case (PWrite d)
    then show ?thesis using pipe_Write_inv [OF inv] s by simp
  next
    case (PClose e fn)
    then show ?thesis using closeWithError_inv [OF inv, of False e fn] s by auto
  next
    case (PBreak e)
    then show ?thesis using closeWithError_inv [OF inv, of True e None] s by (auto simp: BreakWithError_def)
  next
    case PDone
    then show ?thesis using pipe_Done_inv [OF inv] s by simp
  qed
qed

lemma pipe_run_inv: "pipe_inv s \<Longrightarrow> \<exists>s'. pipe_run ops cs s = Done s' \<and> pipe_inv s'"
proof (induction cs arbitrary: s)
  case (Cons c cs)
  then show ?case using pipe_step_inv [OF Cons.prems, of c] by auto
qed simp

lemma pipe_Len_inv: "pipe_inv (p, w, r) \<Longrightarrow> \<exists>rest. w = r @ rest \<and> pipe_Len ops p = length rest"
  using len_contents by (auto simp: pipe_inv_def pipe_Len_def split: option.splits if_splits)

lemma pipe_Read_outcome:
  assumes "pipe_inv (p, w, r)"
  shows "case p_breakErr p of
      Some e \<Rightarrow> pipe_Read ops m p = Done (Inl e, p)
    | None \<Rightarrow>
        if r \<noteq> w then \<exists>p'. pipe_Read ops m p = Done (Inr (take m (drop (length r) w)), p')
        else (case p_err p of
            None \<Rightarrow> pipe_Read ops m p = Blocks
          | Some e \<Rightarrow> \<exists>p'. pipe_Read ops m p = Done (Inl e, p'))"
proof (cases "p_breakErr p")
  case (Some e)
  then show ?thesis using pipe_Read_broken by simp
next
  case None
  then show ?thesis
    using pipe_Read_data [OF assms None, of m] pipe_Read_end(1) [OF assms None, of m] pipe_Read_end(2) [OF assms None, of _ m]
    by (auto split: option.split)
qed

end

text \<open>The pipe of a stream: its buffer is a \<open>dataBuffer\<close>.\<close>

definition db_ops :: "(nat \<Rightarrow> byte list) \<Rightarrow> http2_dataBuffer pipe_buffer_ops" where
  "db_ops pool = \<lparr>pb_Len = db_Len, pb_Write = db_Write pool, pb_Read = db_Read\<rparr>"

interpretation dbp: pipe_buffer "db_ops pool" db_ok db_contents for pool
proof (unfold_locales, goal_cases)
  case (1 b)
  then show ?case by (simp add: db_ops_def db_Len_def db_ok_def)
next
  case (2 b d)
  then show ?case using db_Write_correct by (simp add: db_ops_def)
next
  case (3 b m)
  then show ?case using db_Read_correct by (simp add: db_ops_def)
qed

definition stream_pipe :: "int \<Rightarrow> http2_dataBuffer http2_pipe" where
  "stream_pipe expected =
     pipe_setBuffer \<lparr>db_chunks = [], db_r = 0, db_w = 0, db_size = 0, db_expected = expected\<rparr> new_pipe"


end
