(* ===== verification/Header.thy ===== *)
theory Header
  imports Bufio Strconv "HOL-Library.Multiset"
begin

section \<open>Header fields (header.go, internal/ascii)\<close>

text \<open>
  The \<open>Header\<close> map, its accessors, the wire format that \<open>Write\<close> and \<open>WriteSubset\<close> produce and the token
  search \<open>hasToken\<close>, with the ASCII helpers of \<open>internal/ascii\<close>. A Go map is an association list with
  distinct keys whose order is the order in which an iteration would meet the keys, so that what is shown
  for every list is shown for every iteration order. \<open>httpguts.ValidHeaderFieldName\<close> is a field of
  the parameter record; the trace callbacks of \<open>writeSubset\<close> are left out.
\<close>

unbundle bit_operations_syntax

subsection \<open>ASCII\<close>

definition lower :: "char \<Rightarrow> char" where
  "lower b = (if CHR ''A'' \<le> b \<and> b \<le> CHR ''Z'' then byte_of (byte_val b + (97 - 65)) else b)"

fun EqualFold :: "string \<Rightarrow> string \<Rightarrow> bool" where
  "EqualFold [] [] = True"
| "EqualFold (a # s) (b # t) = (lower a = lower b \<and> EqualFold s t)"
| "EqualFold _ _ = False"

definition ascii_IsPrint :: "string \<Rightarrow> bool" where
  "ascii_IsPrint s = list_all (\<lambda>c. \<not> (c < CHR '' '' \<or> c > CHR ''~'')) s"

definition ascii_Is :: "string \<Rightarrow> bool" where
  "ascii_Is s = list_all (\<lambda>c. \<not> 127 < byte_val c) s"

definition ascii_ToLower :: "string \<Rightarrow> string \<times> bool" where
  "ascii_ToLower s = (if \<not> ascii_IsPrint s then ([], False) else (map lower s, True))"

text \<open>\<open>textproto.TrimString\<close>.\<close>

definition ascii_space :: "char \<Rightarrow> bool" where
  "ascii_space b = (b = CHR '' '' \<or> b = CHR 0x09 \<or> b = CHR 0x0A \<or> b = CHR 0x0D)"

definition trim_string :: "string \<Rightarrow> string" where
  "trim_string s = rev (dropWhile ascii_space (rev (dropWhile ascii_space s)))"

subsection \<open>Canonical keys\<close>

text \<open>\<open>textproto.CanonicalMIMEHeaderKey\<close>: a key of token bytes gets capitals at the start and after each
  hyphen; any other key is returned as it is.\<close>

definition header_key_byte :: "char \<Rightarrow> bool" where
  "header_key_byte c = (ascii_alnum (byte_val c) \<or> c \<in> set ''!#$%&*+-.^_|~'' \<or> byte_val c = 39 \<or> byte_val c = 96)"

definition upper :: "char \<Rightarrow> char" where
  "upper b = (if CHR ''a'' \<le> b \<and> b \<le> CHR ''z'' then byte_of (byte_val b - 32) else b)"

fun canonical_loop :: "bool \<Rightarrow> string \<Rightarrow> string" where
  "canonical_loop up [] = []"
| "canonical_loop up (c # s) =
     (let c1 = (if up then upper c else lower c) in c1 # canonical_loop (c1 = CHR ''-'') s)"

definition CanonicalHeaderKey :: "string \<Rightarrow> string" where
  "CanonicalHeaderKey s = (if list_all header_key_byte s then canonical_loop True s else s)"

subsection \<open>The map\<close>

type_synonym Header = "(string \<times> string list) list"

definition header_values :: "Header \<Rightarrow> string \<Rightarrow> string list" where
  "header_values h k = (case map_of h k of None \<Rightarrow> [] | Some vv \<Rightarrow> vv)"

definition Header_Add :: "string \<Rightarrow> string \<Rightarrow> Header \<Rightarrow> Header" where
  "Header_Add key v h = AList.update (CanonicalHeaderKey key) (header_values h (CanonicalHeaderKey key) @ [v]) h"

definition Header_Set :: "string \<Rightarrow> string \<Rightarrow> Header \<Rightarrow> Header" where
  "Header_Set key v h = AList.update (CanonicalHeaderKey key) [v] h"

definition header_get :: "Header \<Rightarrow> string \<Rightarrow> string" where
  "header_get h key = (case header_values h key of [] \<Rightarrow> [] | v # _ \<Rightarrow> v)"

definition Header_Get :: "Header \<Rightarrow> string \<Rightarrow> string" where
  "Header_Get h key = header_get h (CanonicalHeaderKey key)"

definition Header_Values :: "Header \<Rightarrow> string \<Rightarrow> string list" where
  "Header_Values h key = header_values h (CanonicalHeaderKey key)"

definition header_has :: "Header \<Rightarrow> string \<Rightarrow> bool" where
  "header_has h key = (map_of h key \<noteq> None)"

definition Header_Del :: "string \<Rightarrow> Header \<Rightarrow> Header" where
  "Header_Del key h = AList.delete (CanonicalHeaderKey key) h"

subsection \<open>Writing\<close>

definition headerNewlineToSpace :: "string \<Rightarrow> string" where
  "headerNewlineToSpace v = map (\<lambda>c. if c = CHR 0x0A \<or> c = CHR 0x0D then CHR '' '' else c) v"

definition sortedKeyValues :: "(string \<Rightarrow> bool) \<Rightarrow> Header \<Rightarrow> Header" where
  "sortedKeyValues exclude h = sort_key fst [kv \<leftarrow> h. \<not> exclude (fst kv)]"

fun write_strings :: "(char, 'w) write_fun \<Rightarrow> string list \<Rightarrow> 'w \<Rightarrow> io_error option \<times> 'w" where
  "write_strings wr [] w = (None, w)"
| "write_strings wr (s # ss) w =
     (case wr s w of (n, Some e, w1) \<Rightarrow> (Some e, w1) | (n, None, w1) \<Rightarrow> write_strings wr ss w1)"

fun write_values :: "(char, 'w) write_fun \<Rightarrow> string \<Rightarrow> string list \<Rightarrow> 'w \<Rightarrow> io_error option \<times> 'w" where
  "write_values wr key [] w = (None, w)"
| "write_values wr key (v # vs) w =
     (case write_strings wr [key, '': '', trim_string (headerNewlineToSpace v), [CHR 0x0D, CHR 0x0A]] w of
        (Some e, w1) \<Rightarrow> (Some e, w1)
      | (None, w1) \<Rightarrow> write_values wr key vs w1)"

fun write_kvs :: "golib \<Rightarrow> (char, 'w) write_fun \<Rightarrow> Header \<Rightarrow> 'w \<Rightarrow> io_error option \<times> 'w" where
  "write_kvs L wr [] w = (None, w)"
| "write_kvs L wr ((key, vs) # kvs) w =
     (if \<not> lib_validHeaderFieldName L key then write_kvs L wr kvs w
      else
        (case write_values wr key vs w of
           (Some e, w1) \<Rightarrow> (Some e, w1)
         | (None, w1) \<Rightarrow> write_kvs L wr kvs w1))"

definition writeSubset :: "golib \<Rightarrow> (char, 'w) write_fun \<Rightarrow> (string \<Rightarrow> bool) \<Rightarrow> Header \<Rightarrow> 'w \<Rightarrow> io_error option \<times> 'w" where
  "writeSubset L wr exclude h w = write_kvs L wr (sortedKeyValues exclude h) w"

definition Header_Write :: "golib \<Rightarrow> (char, 'w) write_fun \<Rightarrow> Header \<Rightarrow> 'w \<Rightarrow> io_error option \<times> 'w" where
  "Header_Write L wr h w = writeSubset L wr (\<lambda>_. False) h w"

subsection \<open>Tokens\<close>

definition isTokenBoundary :: "char \<Rightarrow> bool" where
  "isTokenBoundary b = (b = CHR '' '' \<or> b = CHR '','' \<or> b = CHR 0x09)"

text \<open>The body of the loop of \<open>hasToken\<close> at the start position \<open>sp\<close>: true when it returns.\<close>

definition token_at :: "string \<Rightarrow> string \<Rightarrow> nat \<Rightarrow> bool" where
  "token_at v token sp =
     (let b = v ! sp in
      if b \<noteq> hd token \<and> byte_of (byte_val b OR 0x20) \<noteq> hd token then False
      else if 0 < sp \<and> \<not> isTokenBoundary (v ! (sp - 1)) then False
      else
        (let endPos = sp + length token in
         if endPos \<noteq> length v \<and> \<not> isTokenBoundary (v ! endPos) then False
         else EqualFold (take (length token) (drop sp v)) token))"

definition hasToken :: "string \<Rightarrow> string \<Rightarrow> bool" where
  "hasToken v token =
     (if length token > length v \<or> token = [] then False
      else if v = token then True
      else list_ex (token_at v token) [0 ..< Suc (length v - length token)])"

subsection \<open>Keys without regard to case\<close>

lemma EqualFold_iff: "EqualFold s t \<longleftrightarrow> map lower s = map lower t"
  by (induction s t rule: EqualFold.induct) auto

lemma byte_val_of: "n < 256 \<Longrightarrow> byte_val (byte_of n) = n"
  by (simp add: byte_of_def)

lemma byte_val_eq: "byte_val c = byte_val d \<longleftrightarrow> c = d"
  by (metis char_of_char)

lemma byte_val_less: "byte_val c < 256"
  using of_char_mod_256 [of c] by (metis mod_less_divisor zero_less_numeral)

lemma lower_val: "byte_val (lower c) = (if 65 \<le> byte_val c \<and> byte_val c \<le> 90 then byte_val c + 32 else byte_val c)"
  by (simp add: lower_def less_eq_char_def byte_val_of)

lemma upper_val: "byte_val (upper c) = (if 97 \<le> byte_val c \<and> byte_val c \<le> 122 then byte_val c - 32 else byte_val c)"
proof -
  have "byte_val c - 32 < 256" using byte_val_less [of c] by linarith
  from byte_val_of [OF this] show ?thesis by (simp add: upper_def less_eq_char_def)
qed

lemma fold_case [simp]:
  "lower (lower c) = lower c" "upper (upper c) = upper c" "lower (upper c) = lower c" "upper (lower c) = upper c"
  unfolding byte_val_eq [symmetric] lower_val upper_val by (simp_all split: if_splits) arith+

lemma hyphen_case [simp]: "lower c = CHR ''-'' \<longleftrightarrow> c = CHR ''-''" "upper c = CHR ''-'' \<longleftrightarrow> c = CHR ''-''"
  unfolding byte_val_eq [symmetric] by (auto simp: lower_val upper_val)

lemma key_byte_lower [simp]: "header_key_byte (lower c) = header_key_byte c"
proof (cases "lower c = c")
  case False
  then have "ascii_alnum (byte_val c)" "ascii_alnum (byte_val (lower c))"
    by (auto simp: lower_def less_eq_char_def ascii_alnum_def byte_val_of split: if_splits)
  then show ?thesis by (simp add: header_key_byte_def)
qed simp

lemma key_byte_upper [simp]: "header_key_byte (upper c) = header_key_byte c"
  by (metis fold_case(3) key_byte_lower)

lemma canonical_loop_lower: "canonical_loop up (map lower s) = canonical_loop up s"
  by (induction s arbitrary: up) (simp_all add: Let_def)

lemma canonical_loop_idem: "canonical_loop up (canonical_loop up s) = canonical_loop up s"
  by (induction s arbitrary: up) (simp_all add: Let_def)

lemma canonical_loop_bytes: "list_all header_key_byte (canonical_loop up s) = list_all header_key_byte s"
  by (induction s arbitrary: up) (simp_all add: Let_def)

lemma CanonicalHeaderKey_idem: "CanonicalHeaderKey (CanonicalHeaderKey s) = CanonicalHeaderKey s"
  by (simp add: CanonicalHeaderKey_def canonical_loop_bytes canonical_loop_idem)

lemma CanonicalHeaderKey_fold:
  assumes "EqualFold s t" "list_all header_key_byte s"
  shows "CanonicalHeaderKey s = CanonicalHeaderKey t"
proof -
  have m: "map lower s = map lower t" using assms(1) by (simp add: EqualFold_iff)
  have "list_all header_key_byte s = list_all header_key_byte t"
    using arg_cong [OF m, of "list_all header_key_byte"] by (simp add: list.pred_map comp_def)
  then show ?thesis
    using assms(2) arg_cong [OF m, of "canonical_loop True"] by (simp add: CanonicalHeaderKey_def canonical_loop_lower)
qed

subsection \<open>The token search\<close>

lemma or_space:
  assumes "65 \<le> n" "n \<le> 90"
  shows "n OR 0x20 = n + (32 :: nat)"
proof -
  have "list_all (\<lambda>n. n OR 0x20 = n + (32 :: nat)) [65 ..< 91]" by code_simp
  moreover have "n \<in> set [65 ..< 91]" using assms by (simp only: set_upt atLeastLessThan_iff) simp
  ultimately show ?thesis unfolding list_all_iff by blast
qed

lemma first_byte:
  assumes "lower b = t"
  shows "b = t \<or> byte_of (byte_val b OR 0x20) = t"
proof (cases "65 \<le> byte_val b \<and> byte_val b \<le> 90")
  case True
  then have "byte_of (byte_val b OR 0x20) = lower b"
    by (simp add: or_space lower_def less_eq_char_def)
  then show ?thesis using assms by simp
next
  case False
  then show ?thesis using assms by (auto simp: lower_def less_eq_char_def)
qed

definition token_occurs :: "string \<Rightarrow> string \<Rightarrow> bool" where
  "token_occurs v token =
     (\<exists>a m b. v = a @ m @ b \<and> EqualFold m token \<and> (a = [] \<or> isTokenBoundary (last a)) \<and> (b = [] \<or> isTokenBoundary (hd b)))"

lemma token_at_iff:
  assumes t: "token \<noteq> []" "map lower token = token" and sp: "sp + length token \<le> length v"
  shows "token_at v token sp \<longleftrightarrow>
    EqualFold (take (length token) (drop sp v)) token \<and> (sp = 0 \<or> isTokenBoundary (v ! (sp - 1))) \<and>
    (sp + length token = length v \<or> isTokenBoundary (v ! (sp + length token)))"
proof -
  have "v ! sp = hd token \<or> byte_of (byte_val (v ! sp) OR 0x20) = hd token"
    if "EqualFold (take (length token) (drop sp v)) token"
  proof (rule first_byte)
    have "map lower (take (length token) (drop sp v)) = token" using that t by (simp add: EqualFold_iff)
    then have "hd token = lower (hd (take (length token) (drop sp v)))" using t(1) by (metis list.map_disc_iff list.map_sel(1))
    then show "lower (v ! sp) = hd token" using t(1) sp by (cases token) (simp_all add: hd_drop_conv_nth take_Suc_conv_app_nth hd_append)
  qed
  then show ?thesis by (auto simp: token_at_def Let_def)
qed

lemma token_at_occurs:
  assumes "token \<noteq> []" "map lower token = token"
  shows "(\<exists>sp. sp + length token \<le> length v \<and> token_at v token sp) \<longleftrightarrow> token_occurs v token"
proof
  assume "\<exists>sp. sp + length token \<le> length v \<and> token_at v token sp"
  then obtain sp where sp: "sp + length token \<le> length v" and at: "token_at v token sp" by blast
  let ?a = "take sp v" and ?m = "take (length token) (drop sp v)" and ?b = "drop (sp + length token) v"
  have "v = ?a @ ?m @ ?b" by (metis append_take_drop_id drop_drop add.commute)
  moreover have "0 < sp \<Longrightarrow> last ?a = v ! (sp - 1)" using sp assms(1) by (cases v) (auto simp: last_conv_nth)
  then have "?a = [] \<or> isTokenBoundary (last ?a)"
    using at [unfolded token_at_iff [OF assms sp]] by (cases "sp = 0") auto
  moreover have "?b = [] \<or> isTokenBoundary (hd ?b)"
    using at [unfolded token_at_iff [OF assms sp]] by (cases "sp + length token < length v") (auto simp: hd_drop_conv_nth)
  ultimately show "token_occurs v token"
    unfolding token_occurs_def using at [unfolded token_at_iff [OF assms sp]] by blast
next
  assume "token_occurs v token"
  then obtain a m b where v: "v = a @ m @ b" and m: "EqualFold m token"
    and e: "a = [] \<or> isTokenBoundary (last a)" "b = [] \<or> isTokenBoundary (hd b)" unfolding token_occurs_def by blast
  have l: "length m = length token" using m by (metis EqualFold_iff length_map)
  have sp: "length a + length token \<le> length v" using v l by simp
  have "a \<noteq> [] \<Longrightarrow> v ! (length a - 1) = last a" using v by (simp add: nth_append last_conv_nth)
  moreover have "b \<noteq> [] \<Longrightarrow> v ! (length a + length token) = hd b" using v l by (simp add: nth_append hd_conv_nth)
  moreover have "take (length token) (drop (length a) v) = m" using v l by simp
  ultimately have "token_at v token (length a)"
    unfolding token_at_iff [OF assms sp] using v m l e by (cases "a = []"; cases "b = []") simp_all
  with sp show "\<exists>sp. sp + length token \<le> length v \<and> token_at v token sp" by blast
qed

text \<open>\<open>hasToken\<close> with its skips and early exits decides what its comment says: for a non-empty token in
  lower case, the token occurs in the value, in any case, between the ends of the value or spaces,
  tabs and commas.\<close>

theorem hasToken_correct:
  assumes "token \<noteq> []" "map lower token = token"
  shows "hasToken v token \<longleftrightarrow> token_occurs v token"
proof -
  have whole: "token_occurs token token" unfolding token_occurs_def
    by (rule exI [of _ "[]"], rule exI [of _ token], rule exI [of _ "[]"]) (simp add: EqualFold_iff)
  have "\<not> length v < length token" if "token_occurs v token"
    using that unfolding token_occurs_def by (auto simp: EqualFold_iff dest: map_eq_imp_length_eq)
  moreover have "list_ex (token_at v token) [0 ..< Suc (length v - length token)] \<longleftrightarrow> token_occurs v token"
    if "\<not> length v < length token"
  proof -
    have "sp \<in> set [0 ..< Suc (length v - length token)] \<longleftrightarrow> sp + length token \<le> length v" for sp
      using that by (simp only: set_upt atLeastLessThan_iff) linarith
    then show ?thesis unfolding token_at_occurs [OF assms, of v, symmetric] list_ex_iff by blast
  qed
  ultimately show ?thesis using whole assms(1) by (auto simp only: hasToken_def split: if_splits)
qed

theorem hasToken_correct_witness:
  "hasToken ''gzip, Chunked'' ''chunked'' \<and> token_occurs ''gzip, Chunked'' ''chunked''"
proof -
  have "hasToken ''gzip, Chunked'' ''chunked''" by code_simp
  moreover have "map lower ''chunked'' = ''chunked''" by code_simp
  ultimately show ?thesis using hasToken_correct [of "''chunked''" "''gzip, Chunked''"] by simp
qed

subsection \<open>What a header looks like on the wire\<close>

text \<open>
  The fields \<open>WriteSubset\<close> sends, in the order of the sorted keys: fields with invalid names are dropped,
  line breaks in values become spaces, and the space around a value is removed.
\<close>

definition clean_value :: "string \<Rightarrow> string" where
  "clean_value v = trim_string (headerNewlineToSpace v)"

definition header_fields :: "golib \<Rightarrow> (string \<Rightarrow> bool) \<Rightarrow> Header \<Rightarrow> (string \<times> string) list" where
  "header_fields L exclude h =
     concat (map (\<lambda>(k, vv). if lib_validHeaderFieldName L k then map (\<lambda>v. (k, clean_value v)) vv else []) (sortedKeyValues exclude h))"

definition field_text :: "string \<times> string \<Rightarrow> string" where
  "field_text f = fst f @ '': '' @ snd f @ [CHR 0x0D, CHR 0x0A]"

definition header_text :: "golib \<Rightarrow> (string \<Rightarrow> bool) \<Rightarrow> Header \<Rightarrow> string" where
  "header_text L exclude h = concat (map field_text (header_fields L exclude h))"

text \<open>A reader of such a text: it cuts at every line feed, each line at its first colon, and trims the value.\<close>

definition field_lines :: "string \<Rightarrow> (string \<times> string) list" where
  "field_lines t = map (\<lambda>line. case cut_byte line (CHR '':'') of (k, v, _) \<Rightarrow> (k, trim_string v)) (butlast (split_byte (CHR 0x0A) t))"

lemma write_strings_append:
  "write_strings wr (xs @ ys) w =
     (case write_strings wr xs w of (Some e, w1) \<Rightarrow> (Some e, w1) | (None, w1) \<Rightarrow> write_strings wr ys w1)"
  by (induction xs arbitrary: w) (auto split: prod.splits option.splits)

definition field_strings :: "string \<times> string \<Rightarrow> string list" where
  "field_strings f = [fst f, '': '', snd f, [CHR 0x0D, CHR 0x0A]]"

lemma write_values_strings:
  "write_values wr key vs w = write_strings wr (concat (map (\<lambda>v. field_strings (key, clean_value v)) vs)) w"
proof (induction vs arbitrary: w)
  case (Cons v vs)
  then show ?case
    by (simp only: write_values.simps list.map concat.simps write_strings_append)
       (simp add: field_strings_def clean_value_def)
qed simp

lemma write_kvs_strings:
  "write_kvs L wr kvs w = write_strings wr (concat (map field_strings
     (concat (map (\<lambda>(k, vv). if lib_validHeaderFieldName L k then map (\<lambda>v. (k, clean_value v)) vv else []) kvs)))) w"
  by (induction L wr kvs w rule: write_kvs.induct)
     (auto simp: write_strings_append write_values_strings map_concat comp_def split: option.splits prod.splits)

text \<open>Sinks for text: what the writers of headers rely on.\<close>

locale text_sink = byte_sink wr written for wr :: "(char, 'w) write_fun" and written :: "'w \<Rightarrow> string"
begin

lemma write_strings_written:
  "write_strings wr ss w = (err, w') \<Longrightarrow>
     \<exists>p q. written w' = written w @ p \<and> concat ss = p @ q \<and> (err = None \<longrightarrow> q = [])"
proof -
  assume a: "write_strings wr ss w = (err, w')"
  have "write_strings wr ss w = write_all ss w" for w
    by (induction ss arbitrary: w) (auto split: prod.splits option.splits)
  then show ?thesis using a write_all_written by metis
qed

lemma writeSubset_written:
  assumes "writeSubset L wr exclude h w = (err, w')"
  shows "\<exists>p q. written w' = written w @ p \<and> header_text L exclude h = p @ q \<and> (err = None \<longrightarrow> q = [])"
proof -
  have "concat (concat (map field_strings fs)) = concat (map field_text fs)" for fs
    by (induction fs) (simp_all add: field_strings_def field_text_def)
  then show ?thesis
    using write_strings_written [OF assms [unfolded writeSubset_def write_kvs_strings]]
    by (simp add: header_text_def header_fields_def)
qed

end

lemma dropWhile_rev_idem: "t = [] \<or> \<not> P (hd t) \<Longrightarrow> dropWhile P (rev (dropWhile P (rev t))) = rev (dropWhile P (rev t))"
  by (cases t) (auto simp: dropWhile_append)

lemma trim_idem [simp]: "trim_string (trim_string s) = trim_string s"
proof -
  let ?t = "dropWhile ascii_space s"
  have "?t = [] \<or> \<not> ascii_space (hd ?t)" using hd_dropWhile by blast
  then show ?thesis using dropWhile_rev_idem [of ?t ascii_space] by (simp add: trim_string_def)
qed

lemma trim_pad:
  assumes "list_all ascii_space a" "list_all ascii_space b"
  shows "trim_string (a @ s @ b) = trim_string s"
proof -
  have 1: "dropWhile ascii_space (a @ s @ b) = dropWhile ascii_space (s @ b)"
    using assms(1) by (intro dropWhile_append2) (simp add: list_all_iff)
  have 2: "dropWhile ascii_space (rev b @ x) = dropWhile ascii_space x" for x
    using assms(2) by (intro dropWhile_append2) (simp add: list_all_iff)
  have 3: "dropWhile ascii_space b = []" using assms(2) by (simp add: list_all_iff)
  have "dropWhile ascii_space (s @ b) = (if dropWhile ascii_space s = [] then [] else dropWhile ascii_space s @ b)"
    using 3 dropWhile_eq_Nil_conv [of ascii_space s] by (simp add: dropWhile_append)
  then show ?thesis unfolding trim_string_def 1 using 2 by (simp del: dropWhile_eq_Nil_conv)
qed

lemma set_trim: "set (trim_string s) \<subseteq> set s"
  unfolding trim_string_def by (metis set_dropWhileD set_rev subset_iff)

lemma trim_plain: "list_all (\<lambda>c. \<not> ascii_space c) s \<Longrightarrow> trim_string s = s"
proof -
  assume a: "list_all (\<lambda>c. \<not> ascii_space c) s"
  have "dropWhile ascii_space s = s" using a by (cases s) auto
  moreover have "dropWhile ascii_space (rev s) = rev s"
    using a by (cases s rule: rev_cases) auto
  ultimately show ?thesis by (simp add: trim_string_def)
qed

lemma digits_plain: "list_all (\<lambda>c. \<not> ascii_space c) (fmt_nat n)"
  using fmt_nat_plain [of _ n] by (force simp: list_all_iff ascii_space_def less_eq_char_def)

lemma clean_value_no_newline: "CHR 0x0A \<notin> set (clean_value v)" "CHR 0x0D \<notin> set (clean_value v)"
proof -
  have "set (clean_value v) \<subseteq> set (headerNewlineToSpace v)" unfolding clean_value_def by (rule set_trim)
  then show "CHR 0x0A \<notin> set (clean_value v)" "CHR 0x0D \<notin> set (clean_value v)"
    by (auto simp: headerNewlineToSpace_def split: if_splits)
qed

lemma field_lines_text:
  assumes "\<And>k v. (k, v) \<in> set fs \<Longrightarrow> CHR '':'' \<notin> set k \<and> CHR 0x0A \<notin> set k \<and> (\<exists>u. v = clean_value u)"
  shows "field_lines (concat (map field_text fs)) = fs"
  using assms
proof (induction fs)
  case Nil
  then show ?case by (simp add: field_lines_def)
next
  case (Cons f fs)
  obtain k v where f: "f = (k, v)" by (cases f)
  from Cons.prems [of k v] f obtain u where k: "CHR '':'' \<notin> set k" "CHR 0x0A \<notin> set k" and u: "v = clean_value u" by auto
  let ?line = "k @ CHR '':'' # ([CHR '' ''] @ v @ [CHR 0x0D])"
  let ?rest = "concat (map field_text fs)"
  have "CHR 0x0A \<notin> set ?line" using k clean_value_no_newline u by auto
  from split_byte_append_sep [OF this, of ?rest]
  have s: "split_byte (CHR 0x0A) (concat (map field_text (f # fs))) = ?line # split_byte (CHR 0x0A) ?rest"
    using f by (simp add: field_text_def)
  have "trim_string ([CHR '' ''] @ v @ [CHR 0x0D]) = v"
    using trim_pad [of "[CHR '' '']" "[CHR 0x0D]" v] u by (simp add: ascii_space_def clean_value_def)
  then have "(case cut_byte ?line (CHR '':'') of (k, v, _) \<Rightarrow> (k, trim_string v)) = f"
    using cut_byte_found [OF k(1)] f by simp
  moreover have "field_lines ?rest = fs" by (rule Cons.IH) (use Cons.prems in auto)
  ultimately show ?case unfolding field_lines_def s by simp
qed

text \<open>The order in which a map is iterated does not matter: keys are distinct and sorted.\<close>

lemma sortedKeyValues_order:
  assumes "mset h = mset h'" "distinct (map fst h)"
  shows "sortedKeyValues exclude h = sortedKeyValues exclude h'"
proof -
  have d: "distinct (map fst [kv \<leftarrow> h. \<not> exclude (fst kv)])" using assms(2) by (simp add: distinct_map_filter)
  have "mset [kv \<leftarrow> h. \<not> exclude (fst kv)] = mset [kv \<leftarrow> h'. \<not> exclude (fst kv)]" using assms(1) by (simp add: mset_filter)
  then show ?thesis
    unfolding sortedKeyValues_def using d by (intro sort_key_inj_key_eq) (simp_all add: distinct_map)
qed

interpretation htx: text_sink bufw_Write bufw_written
  by unfold_locales


definition forging_header :: Header where
  "forging_header = [(''X'', [''a'' @ [CHR 0x0D, CHR 0x0A] @ ''Set-Cookie: b'']), (''Bad Name'', [''c'']), (''A'', [''1'', '' 2''])]"


end
