(* ===== verification/Sniff.thy ===== *)
theory Sniff
  imports Header
begin

section \<open>Content sniffing (sniff.go)\<close>

text \<open>
  \<open>DetectContentType\<close> with its table of signatures. A value of the interface \<open>sniffSig\<close> is a datatype with
  one constructor for each Go type that implements it, \<open>sig_match\<close> is their method \<open>match\<close>, and the
  empty string means, as in the source, that the signature does not match.
\<close>

unbundle bit_operations_syntax

definition sniffLen :: nat where
  "sniffLen = 512"

definition isWS :: "char \<Rightarrow> bool" where
  "isWS b = (b = CHR 0x09 \<or> b = CHR 0x0A \<or> b = CHR 0x0C \<or> b = CHR 0x0D \<or> b = CHR '' '')"

definition isTT :: "char \<Rightarrow> bool" where
  "isTT b = (b = CHR '' '' \<or> b = CHR ''>'')"

datatype sniffSig =
    htmlSig string
  | maskedSig (sig_mask: string) (sig_pat: string) (sig_skipWS: bool) (sig_ct: string)
  | exactSig string string
  | mp4Sig
  | textSig

definition sniffSignatures :: "sniffSig list" where
  "sniffSignatures =
    [htmlSig ''<!DOCTYPE HTML'',
     htmlSig ''<HTML'',
     htmlSig ''<HEAD'',
     htmlSig ''<SCRIPT'',
     htmlSig ''<IFRAME'',
     htmlSig ''<H1'',
     htmlSig ''<DIV'',
     htmlSig ''<FONT'',
     htmlSig ''<TABLE'',
     htmlSig ''<A'',
     htmlSig ''<STYLE'',
     htmlSig ''<TITLE'',
     htmlSig ''<B'',
     htmlSig ''<BODY'',
     htmlSig ''<BR'',
     htmlSig ''<P'',
     htmlSig ''<!--'',
     maskedSig [CHR 0xFF, CHR 0xFF, CHR 0xFF, CHR 0xFF, CHR 0xFF] ''<?xml'' True ''text/xml; charset=utf-8'',
     exactSig ''%PDF-'' ''application/pdf'',
     exactSig ''%!PS-Adobe-'' ''application/postscript'',
     maskedSig [CHR 0xFF, CHR 0xFF, CHR 0x00, CHR 0x00] [CHR 0xFE, CHR 0xFF, CHR 0x00, CHR 0x00] False ''text/plain; charset=utf-16be'',
     maskedSig [CHR 0xFF, CHR 0xFF, CHR 0x00, CHR 0x00] [CHR 0xFF, CHR 0xFE, CHR 0x00, CHR 0x00] False ''text/plain; charset=utf-16le'',
     maskedSig [CHR 0xFF, CHR 0xFF, CHR 0xFF, CHR 0x00] [CHR 0xEF, CHR 0xBB, CHR 0xBF, CHR 0x00] False ''text/plain; charset=utf-8'',
     exactSig [CHR 0x00, CHR 0x00, CHR 0x01, CHR 0x00] ''image/x-icon'',
     exactSig [CHR 0x00, CHR 0x00, CHR 0x02, CHR 0x00] ''image/x-icon'',
     exactSig ''BM'' ''image/bmp'',
     exactSig ''GIF87a'' ''image/gif'',
     exactSig ''GIF89a'' ''image/gif'',
     maskedSig [CHR 0xFF, CHR 0xFF, CHR 0xFF, CHR 0xFF, CHR 0x00, CHR 0x00, CHR 0x00, CHR 0x00, CHR 0xFF, CHR 0xFF, CHR 0xFF, CHR 0xFF, CHR 0xFF, CHR 0xFF] (''RIFF'' @ [CHR 0x00, CHR 0x00, CHR 0x00, CHR 0x00] @ ''WEBPVP'') False ''image/webp'',
     exactSig ([CHR 0x89] @ ''PNG'' @ [CHR 0x0D, CHR 0x0A, CHR 0x1A, CHR 0x0A]) ''image/png'',
     exactSig [CHR 0xFF, CHR 0xD8, CHR 0xFF] ''image/jpeg'',
     maskedSig [CHR 0xFF, CHR 0xFF, CHR 0xFF, CHR 0xFF, CHR 0x00, CHR 0x00, CHR 0x00, CHR 0x00, CHR 0xFF, CHR 0xFF, CHR 0xFF, CHR 0xFF] (''FORM'' @ [CHR 0x00, CHR 0x00, CHR 0x00, CHR 0x00] @ ''AIFF'') False ''audio/aiff'',
     maskedSig [CHR 0xFF, CHR 0xFF, CHR 0xFF] ''ID3'' False ''audio/mpeg'',
     maskedSig [CHR 0xFF, CHR 0xFF, CHR 0xFF, CHR 0xFF, CHR 0xFF] (''OggS'' @ [CHR 0x00]) False ''application/ogg'',
     maskedSig [CHR 0xFF, CHR 0xFF, CHR 0xFF, CHR 0xFF, CHR 0xFF, CHR 0xFF, CHR 0xFF, CHR 0xFF] (''MThd'' @ [CHR 0x00, CHR 0x00, CHR 0x00, CHR 0x06]) False ''audio/midi'',
     maskedSig [CHR 0xFF, CHR 0xFF, CHR 0xFF, CHR 0xFF, CHR 0x00, CHR 0x00, CHR 0x00, CHR 0x00, CHR 0xFF, CHR 0xFF, CHR 0xFF, CHR 0xFF] (''RIFF'' @ [CHR 0x00, CHR 0x00, CHR 0x00, CHR 0x00] @ ''AVI '') False ''video/avi'',
     maskedSig [CHR 0xFF, CHR 0xFF, CHR 0xFF, CHR 0xFF, CHR 0x00, CHR 0x00, CHR 0x00, CHR 0x00, CHR 0xFF, CHR 0xFF, CHR 0xFF, CHR 0xFF] (''RIFF'' @ [CHR 0x00, CHR 0x00, CHR 0x00, CHR 0x00] @ ''WAVE'') False ''audio/wave'',
     mp4Sig,
     exactSig ([CHR 0x1A] @ ''E'' @ [CHR 0xDF, CHR 0xA3]) ''video/webm'',
     maskedSig (replicate 34 (CHR 0x00) @ [CHR 0xFF, CHR 0xFF]) (replicate 34 (CHR 0x00) @ ''LP'') False ''application/vnd.ms-fontobject'',
     exactSig [CHR 0x00, CHR 0x01, CHR 0x00, CHR 0x00] ''font/ttf'',
     exactSig ''OTTO'' ''font/otf'',
     exactSig ''ttcf'' ''font/collection'',
     exactSig ''wOFF'' ''font/woff'',
     exactSig ''wOF2'' ''font/woff2'',
     exactSig [CHR 0x1F, CHR 0x8B, CHR 0x08] ''application/x-gzip'',
     exactSig (''PK'' @ [CHR 0x03, CHR 0x04]) ''application/zip'',
     exactSig (''Rar!'' @ [CHR 0x1A, CHR 0x07, CHR 0x00]) ''application/x-rar-compressed'',
     exactSig (''Rar!'' @ [CHR 0x1A, CHR 0x07, CHR 0x01, CHR 0x00]) ''application/x-rar-compressed'',
     exactSig ([CHR 0x00] @ ''asm'') ''application/wasm'',
     textSig]"

text \<open>The loops over a pattern; the callers have checked that the data is long enough.\<close>

fun masked_eq :: "string \<Rightarrow> string \<Rightarrow> string \<Rightarrow> bool" where
  "masked_eq (pb # pat) (mb # mb_rest) (db # data) = (byte_of (byte_val db AND byte_val mb) = pb \<and> masked_eq pat mb_rest data)"
| "masked_eq _ _ _ = True"

fun html_eq :: "string \<Rightarrow> string \<Rightarrow> bool" where
  "html_eq (b # h) (d # data) =
     (let db = (if CHR ''A'' \<le> b \<and> b \<le> CHR ''Z'' then byte_of (byte_val d AND 0xDF) else d)
      in b = db \<and> html_eq h data)"
| "html_eq _ _ = True"

text \<open>\<open>binary.BigEndian.Uint32\<close> of the first four bytes.\<close>

definition be_uint32 :: "string \<Rightarrow> nat" where
  "be_uint32 d = ((byte_val (d ! 0) * 256 + byte_val (d ! 1)) * 256 + byte_val (d ! 2)) * 256 + byte_val (d ! 3)"

function mp4_loop :: "string \<Rightarrow> nat \<Rightarrow> nat \<Rightarrow> string" where
  "mp4_loop data boxSize st =
     (if st < boxSize then
        (if st = 12 then mp4_loop data boxSize (st + 4)
         else if take 3 (drop st data) = ''mp4'' then ''video/mp4''
         else mp4_loop data boxSize (st + 4))
      else [])"
  by pat_completeness auto
termination by (relation "measure (\<lambda>(data, boxSize, st). boxSize - st)") auto

declare mp4_loop.simps [simp del]

definition binary_byte :: "char \<Rightarrow> bool" where
  "binary_byte b = (byte_val b \<le> 0x08 \<or> byte_val b = 0x0B \<or> (0x0E \<le> byte_val b \<and> byte_val b \<le> 0x1A) \<or>
     (0x1C \<le> byte_val b \<and> byte_val b \<le> 0x1F))"

fun sig_match :: "sniffSig \<Rightarrow> string \<Rightarrow> nat \<Rightarrow> string" where
  "sig_match (exactSig sg ct) data firstNonWS = (if has_prefix data sg then ct else [])"
| "sig_match (maskedSig msk pat skipWS ct) data firstNonWS =
     (let data = (if skipWS then drop firstNonWS data else data) in
      if length pat \<noteq> length msk then []
      else if length data < length pat then []
      else if masked_eq pat msk data then ct else [])"
| "sig_match (htmlSig h) data firstNonWS =
     (let data = drop firstNonWS data in
      if length data < length h + 1 then []
      else if \<not> html_eq h data then []
      else if \<not> isTT (data ! length h) then []
      else ''text/html; charset=utf-8'')"
| "sig_match mp4Sig data firstNonWS =
     (if length data < 12 then []
      else
        (let boxSize = be_uint32 (take 4 data) in
         if length data < boxSize \<or> boxSize mod 4 \<noteq> 0 then []
         else if take 4 (drop 4 data) \<noteq> ''ftyp'' then []
         else mp4_loop data boxSize 8))"
| "sig_match textSig data firstNonWS =
     (if list_ex binary_byte (drop firstNonWS data) then [] else ''text/plain; charset=utf-8'')"

fun first_match :: "sniffSig list \<Rightarrow> string \<Rightarrow> nat \<Rightarrow> string" where
  "first_match [] data firstNonWS = ''application/octet-stream''"
| "first_match (sg # sigs) data firstNonWS =
     (let ct = sig_match sg data firstNonWS in if ct \<noteq> [] then ct else first_match sigs data firstNonWS)"

definition DetectContentType :: "string \<Rightarrow> string" where
  "DetectContentType data =
     (let data = (if length data > sniffLen then take sniffLen data else data);
          firstNonWS = length (takeWhile isWS data)
      in first_match sniffSignatures data firstNonWS)"

subsection \<open>What the table decides\<close>

definition sig_type :: "sniffSig \<Rightarrow> string" where
  "sig_type sg =
     (case sg of htmlSig _ \<Rightarrow> ''text/html; charset=utf-8'' | maskedSig _ _ _ ct \<Rightarrow> ct | exactSig _ ct \<Rightarrow> ct
      | mp4Sig \<Rightarrow> ''video/mp4'' | textSig \<Rightarrow> ''text/plain; charset=utf-8'')"

lemma mp4_loop_type: "mp4_loop data boxSize st = [] \<or> mp4_loop data boxSize st = ''video/mp4''"
  by (induction data boxSize st rule: mp4_loop.induct) (subst (1 2) mp4_loop.simps, auto)

lemma sig_match_type: "sig_match sg data n \<noteq> [] \<Longrightarrow> sig_match sg data n = sig_type sg"
  using mp4_loop_type by (cases sg) (auto simp: sig_type_def Let_def split: if_splits)

lemma first_match_cases:
  obtains (none) "\<forall>sg \<in> set sigs. sig_match sg data n = []" "first_match sigs data n = ''application/octet-stream''"
  | (hit) sg where "sg \<in> set sigs" "sig_match sg data n \<noteq> []" "first_match sigs data n = sig_type sg"
proof -
  have "(\<forall>sg \<in> set sigs. sig_match sg data n = []) \<and> first_match sigs data n = ''application/octet-stream'' \<or>
    (\<exists>sg \<in> set sigs. sig_match sg data n \<noteq> [] \<and> first_match sigs data n = sig_type sg)"
  proof (induction sigs)
    case (Cons sg sigs)
    then show ?case using sig_match_type [of sg data n] by (cases "sig_match sg data n = []") (auto simp: Let_def)
  qed simp
  then show thesis using none hit by blast
qed

lemma first_match_append:
  "first_match (s1 @ s2) data n =
     (if list_ex (\<lambda>sg. sig_match sg data n \<noteq> []) s1 then first_match s1 data n else first_match s2 data n)"
  by (induction s1) (auto simp: Let_def)

definition html_tags :: "string list" where
  "html_tags = [''<!DOCTYPE HTML'', ''<HTML'', ''<HEAD'', ''<SCRIPT'', ''<IFRAME'', ''<H1'', ''<DIV'', ''<FONT'', ''<TABLE'', ''<A'',
     ''<STYLE'', ''<TITLE'', ''<B'', ''<BODY'', ''<BR'', ''<P'', ''<!--'']"

lemma sniffSignatures_html: "sniffSignatures = map htmlSig html_tags @ drop 17 sniffSignatures"
  by code_simp

lemma sniffSignatures_types:
  "list_all (\<lambda>sg. sig_type sg \<noteq> ''application/octet-stream'') sniffSignatures"
  "list_all (\<lambda>sg. sig_type sg \<noteq> ''text/html; charset=utf-8'') (drop 17 sniffSignatures)"
  "list_all (\<lambda>sg. sig_type sg = ''text/plain; charset=utf-8'' \<longrightarrow> sg = textSig \<or>
     sg = maskedSig [CHR 0xFF, CHR 0xFF, CHR 0xFF, CHR 0x00] [CHR 0xEF, CHR 0xBB, CHR 0xBF, CHR 0x00] False ''text/plain; charset=utf-8'')
     sniffSignatures"
  "textSig \<in> set sniffSignatures"
  by code_simp+

lemma html_tags_shape: "list_all (\<lambda>t. t \<noteq> [] \<and> hd t = CHR ''<'' \<and> list_all (\<lambda>c. \<not> (CHR ''a'' \<le> c \<and> c \<le> CHR ''z'')) t) html_tags"
  by code_simp

lemma nat_and_or: "n AND (a OR b) = (n AND a) OR (n AND b :: nat)"
  by (rule bit_eqI) (auto simp: bit_and_iff bit_or_iff)

lemma nat_and_and: "(n AND a) AND (n AND b) = n AND (a AND b :: nat)"
  by (rule bit_eqI) (auto simp: bit_and_iff)

lemma nat_and_exp: "n AND 2 ^ k = (if bit n k then 2 ^ k else (0 :: nat))"
  by (rule bit_eqI) (auto simp: bit_and_iff bit_exp_iff)

lemma nat_and_le: "n AND m \<le> (n :: nat)"
proof -
  have "int (n AND m) \<le> int n" unfolding of_nat_and_eq by (rule AND_upper1) simp
  then show ?thesis by simp
qed

lemma and_DF:
  assumes n: "n < (256 :: nat)" and b: "65 \<le> b" "b \<le> 90"
  shows "n AND 0xDF = b \<longleftrightarrow> n = b \<or> n = b + 32"
proof -
  have "n = take_bit 8 n" using n by (simp add: take_bit_nat_eq_self)
  also have "\<dots> = n AND (0xDF OR 0x20)" by (simp add: take_bit_eq_mask mask_eq_exp_minus_1)
  also have "\<dots> = (n AND 0xDF) OR (n AND 0x20)" by (rule nat_and_or)
  also have "\<dots> = (n AND 0xDF) + (n AND 0x20)"
  proof (rule disjunctive_add_eq_or [symmetric])
    have "(n AND 0xDF) AND (n AND 0x20) = n AND (0xDF AND 0x20)" by (rule nat_and_and)
    then show "(n AND 0xDF) AND (n AND 0x20) = 0" by simp
  qed
  finally have split: "n = (n AND 0xDF) + (n AND 0x20)" .
  have "n AND 0x20 = 0 \<or> n AND 0x20 = 32" using nat_and_exp [of n 5] by (simp split: if_splits)
  moreover have "list_all (\<lambda>b. b AND 0xDF = (b :: nat) \<and> (b + 32) AND 0xDF = b) [65 ..< 91]" by (simp add: upt_rec_numeral)
  moreover have "b \<in> set [65 ..< 91]" using b by (simp only: set_upt atLeastLessThan_iff) simp
  ultimately have "n AND 0x20 = 0 \<or> n AND 0x20 = 32" "b AND 0xDF = b" "(b + 32) AND 0xDF = b" unfolding list_all_iff by blast+
  then show ?thesis using split by auto
qed

lemma html_byte:
  assumes "\<not> (CHR ''a'' \<le> b \<and> b \<le> CHR ''z'')"
  shows "b = (if CHR ''A'' \<le> b \<and> b \<le> CHR ''Z'' then byte_of (byte_val d AND 0xDF) else d) \<longleftrightarrow> lower d = lower b"
proof (cases "CHR ''A'' \<le> b \<and> b \<le> CHR ''Z''")
  case True
  then have r: "65 \<le> byte_val b" "byte_val b \<le> 90" by (simp_all add: less_eq_char_def)
  have "byte_val d AND 0xDF < 256" by (rule le_less_trans [OF nat_and_le byte_val_less])
  then have "b = byte_of (byte_val d AND 0xDF) \<longleftrightarrow> byte_val d AND 0xDF = byte_val b"
    by (metis byte_val_of byte_val_eq)
  also have "\<dots> \<longleftrightarrow> byte_val d = byte_val b \<or> byte_val d = byte_val b + 32"
    by (rule and_DF [OF byte_val_less r])
  also have "\<dots> \<longleftrightarrow> lower d = lower b" using r unfolding byte_val_eq [symmetric] lower_val by auto
  finally show ?thesis using True by simp
next
  case False
  then show ?thesis using assms unfolding byte_val_eq [symmetric] lower_val by (auto simp: less_eq_char_def)
qed

lemma html_eq_fold:
  assumes "list_all (\<lambda>c. \<not> (CHR ''a'' \<le> c \<and> c \<le> CHR ''z'')) h" "length h \<le> length data"
  shows "html_eq h data \<longleftrightarrow> EqualFold (take (length h) data) h"
  using assms
proof (induction h data rule: html_eq.induct)
  case (1 b h d data)
  then show ?case using html_byte [of b d] by (simp add: Let_def EqualFold_iff)
qed (auto simp: EqualFold_iff)

subsection \<open>The decision\<close>

definition sniffed :: "string \<Rightarrow> string" where
  "sniffed data = take sniffLen data"

lemma DetectContentType_eq:
  "DetectContentType data = first_match sniffSignatures (sniffed data) (length (takeWhile isWS (sniffed data)))"
  by (simp add: DetectContentType_def sniffed_def Let_def)

lemma drop_white: "drop (length (takeWhile isWS d)) d = dropWhile isWS d"
  by (simp add: dropWhile_eq_drop)

lemma white_not_binary: "isWS c \<Longrightarrow> \<not> binary_byte c"
  by (auto simp: isWS_def binary_byte_def)

lemma binary_after_white: "list_ex binary_byte (dropWhile isWS d) \<longleftrightarrow> list_ex binary_byte d"
  by (induction d) (auto simp: white_not_binary)

definition html_start :: "string \<Rightarrow> bool" where
  "html_start d \<longleftrightarrow> (\<exists>ws m t rest. \<exists>tag \<in> set html_tags. d = ws @ m @ t # rest \<and> list_all isWS ws \<and> EqualFold m tag \<and> isTT t)"

lemma html_sig_iff:
  assumes "tag \<in> set html_tags"
  shows "sig_match (htmlSig tag) d (length (takeWhile isWS d)) \<noteq> [] \<longleftrightarrow>
    (\<exists>ws m t rest. d = ws @ m @ t # rest \<and> list_all isWS ws \<and> EqualFold m tag \<and> isTT t)"
proof -
  let ?d = "dropWhile isWS d"
  have tag: "tag \<noteq> []" "hd tag = CHR ''<''" "list_all (\<lambda>c. \<not> (CHR ''a'' \<le> c \<and> c \<le> CHR ''z'')) tag"
    using html_tags_shape assms unfolding list_all_iff by auto
  have "sig_match (htmlSig tag) d (length (takeWhile isWS d)) \<noteq> [] \<longleftrightarrow>
      length tag < length ?d \<and> EqualFold (take (length tag) ?d) tag \<and> isTT (?d ! length tag)"
    by (auto simp: drop_white Let_def html_eq_fold [OF tag(3)])
  also have "\<dots> \<longleftrightarrow> (\<exists>m t rest. ?d = m @ t # rest \<and> EqualFold m tag \<and> isTT t)" (is "?L = ?R")
  proof
    assume ?L
    moreover from this have "?d = take (length tag) ?d @ ?d ! length tag # drop (Suc (length tag)) ?d" by (simp add: id_take_nth_drop)
    ultimately show ?R by blast
  next
    assume ?R
    then obtain m t rest where "?d = m @ t # rest" "EqualFold m tag" "isTT t" by blast
    moreover from this have "length tag = length m" by (metis EqualFold_iff length_map)
    ultimately show ?L by simp
  qed
  also have "\<dots> \<longleftrightarrow> (\<exists>ws m t rest. d = ws @ m @ t # rest \<and> list_all isWS ws \<and> EqualFold m tag \<and> isTT t)" (is "?L = ?R")
  proof
    assume ?L
    then show ?R by (metis takeWhile_dropWhile_id list_all_iff set_takeWhileD)
  next
    assume ?R
    then obtain ws m t rest where d: "d = ws @ m @ t # rest" and ws: "list_all isWS ws" and m: "EqualFold m tag" "isTT t" by blast
    obtain c m' where m': "m = c # m'" "lower c = CHR ''<''"
      using m(1) tag(1,2) by (cases m; cases tag) (auto simp: lower_def)
    then have "\<not> isWS c" by (auto simp: isWS_def lower_def)
    then have "?d = m @ t # rest" using d ws m' by (simp add: dropWhile_append list_all_iff)
    then show ?L using m by blast
  qed
  finally show ?thesis .
qed

lemma html_decided: "DetectContentType data = ''text/html; charset=utf-8'' \<longleftrightarrow> html_start (sniffed data)"
proof -
  let ?d = "sniffed data"
  let ?n = "length (takeWhile isWS ?d)"
  have hit: "list_ex (\<lambda>sg. sig_match sg ?d ?n \<noteq> []) (map htmlSig html_tags) \<longleftrightarrow> html_start ?d"
    using html_sig_iff [of _ ?d] unfolding html_start_def list_ex_iff by simp blast
  have first: "first_match (map htmlSig html_tags) ?d ?n = ''text/html; charset=utf-8''" if "html_start ?d"
    by (rule first_match_cases [of "map htmlSig html_tags" ?d ?n])
      (use that in \<open>auto simp: hit [symmetric] list_ex_iff sig_type_def simp del: sig_match.simps\<close>)
  have rest: "first_match (drop 17 sniffSignatures) ?d ?n \<noteq> ''text/html; charset=utf-8''"
    by (rule first_match_cases [of "drop 17 sniffSignatures" ?d ?n])
      (use sniffSignatures_types(2) in \<open>auto simp: list_all_iff\<close>)
  have "DetectContentType data =
      (if html_start ?d then first_match (map htmlSig html_tags) ?d ?n else first_match (drop 17 sniffSignatures) ?d ?n)"
    using arg_cong [OF sniffSignatures_html, of "\<lambda>sigs. first_match sigs ?d ?n"]
    by (simp only: DetectContentType_eq first_match_append hit)
  then show ?thesis using first rest by simp
qed

lemma binary_decided:
  assumes "DetectContentType data = ''application/octet-stream''"
  shows "list_ex binary_byte (sniffed data)"
proof (rule first_match_cases [of sniffSignatures "sniffed data" "length (takeWhile isWS (sniffed data))"])
  assume "\<forall>sg \<in> set sniffSignatures. sig_match sg (sniffed data) (length (takeWhile isWS (sniffed data))) = []"
  then have "sig_match textSig (sniffed data) (length (takeWhile isWS (sniffed data))) = []" using sniffSignatures_types(4) by blast
  then show ?thesis by (simp add: drop_white binary_after_white split: if_splits)
qed (use assms sniffSignatures_types(1) in \<open>auto simp: DetectContentType_eq list_all_iff\<close>)

lemma masked_bom:
  assumes "sig_match (maskedSig [CHR 0xFF, CHR 0xFF, CHR 0xFF, CHR 0x00] [CHR 0xEF, CHR 0xBB, CHR 0xBF, CHR 0x00] False ct) d n \<noteq> []"
  shows "has_prefix d [CHR 0xEF, CHR 0xBB, CHR 0xBF]"
proof -
  have m: "byte_of (byte_val c AND 255) = c" for c
  proof -
    have "byte_val c AND 255 = take_bit 8 (byte_val c)" by (simp add: take_bit_eq_mask mask_eq_exp_minus_1)
    then show ?thesis using byte_val_less [of c] by (simp add: take_bit_nat_eq_self byte_of_def)
  qed
  obtain c0 c1 c2 rest where d: "d = c0 # c1 # c2 # rest"
    using assms by (auto simp: Let_def numeral_eq_Suc Suc_le_length_iff not_less split: if_splits)
  then show ?thesis using assms by (cases rest) (auto simp: Let_def has_prefix_def m split: if_splits)
qed

lemma text_decided:
  assumes "DetectContentType data = ''text/plain; charset=utf-8''"
  shows "\<not> list_ex binary_byte (sniffed data) \<or> has_prefix (sniffed data) [CHR 0xEF, CHR 0xBB, CHR 0xBF]"
proof (rule first_match_cases [of sniffSignatures "sniffed data" "length (takeWhile isWS (sniffed data))"])
  fix sg
  assume sg: "sg \<in> set sniffSignatures" "sig_match sg (sniffed data) (length (takeWhile isWS (sniffed data))) \<noteq> []"
    and "first_match sniffSignatures (sniffed data) (length (takeWhile isWS (sniffed data))) = sig_type sg"
  then have "sig_type sg = ''text/plain; charset=utf-8''" using assms by (simp add: DetectContentType_eq)
  then consider "sg = textSig"
    | "sg = maskedSig [CHR 0xFF, CHR 0xFF, CHR 0xFF, CHR 0x00] [CHR 0xEF, CHR 0xBB, CHR 0xBF, CHR 0x00] False ''text/plain; charset=utf-8''"
    using sniffSignatures_types(3) sg(1) unfolding list_all_iff by blast
  then show ?thesis
  proof cases
    case 1
    then show ?thesis using sg(2) by (auto simp: drop_white binary_after_white split: if_splits)
  next
    case 2
    then show ?thesis using masked_bom sg(2) by blast
  qed
qed (use assms in \<open>simp add: DetectContentType_eq\<close>)

text \<open>\<open>DetectContentType\<close> looks at the first 512 bytes only. It answers \<open>text/html\<close> exactly when these are, after
  white space, one of the tags of its table in any case followed by a space or a closing bracket; it
  answers \<open>application/octet-stream\<close> only for data with a binary byte, and plain UTF-8 text only for data
  without one or with a byte order mark.\<close>

theorem DetectContentType_correct:
  "(DetectContentType data = ''text/html; charset=utf-8'' \<longleftrightarrow> html_start (sniffed data)) \<and>
   (DetectContentType data = ''application/octet-stream'' \<longrightarrow> list_ex binary_byte (sniffed data)) \<and>
   (DetectContentType data = ''text/plain; charset=utf-8'' \<longrightarrow>
      \<not> list_ex binary_byte (sniffed data) \<or> has_prefix (sniffed data) [CHR 0xEF, CHR 0xBB, CHR 0xBF]) \<and>
   DetectContentType data \<in> set (''application/octet-stream'' # map sig_type sniffSignatures)"
proof -
  have "DetectContentType data \<in> set (''application/octet-stream'' # map sig_type sniffSignatures)"
    by (rule first_match_cases [of sniffSignatures "sniffed data" "length (takeWhile isWS (sniffed data))"])
      (auto simp: DetectContentType_eq)
  then show ?thesis using html_decided binary_decided text_decided by blast
qed

theorem DetectContentType_correct_witness:
  "DetectContentType [CHR 0x00] = ''application/octet-stream'' \<and> list_ex binary_byte (sniffed [CHR 0x00]) \<and>
   DetectContentType '' <Html>'' = ''text/html; charset=utf-8'' \<and> html_start (sniffed '' <Html>'')"
proof -
  have b: "DetectContentType [CHR 0x00] = ''application/octet-stream''" by code_simp
  have h: "DetectContentType '' <Html>'' = ''text/html; charset=utf-8''" by code_simp
  show ?thesis using b h DetectContentType_correct [of "[CHR 0x00]"] DetectContentType_correct [of "'' <Html>''"] by (simp only: simp_thms)
qed

end
