(* ===== verification/File_Range.thy ===== *)
theory File_Range
  imports Header
begin

section \<open>Byte ranges (fs.go)\<close>

text \<open>
  \<open>parseRange\<close> and the type \<open>httpRange\<close> of \<open>fs.go\<close>. An \<open>int64\<close> is an integer, and \<open>int64\<close> reduces the one sum
  that can leave the type. A parsed element of the header is a \<open>byte_range\<close>, of which the abstract
  meaning is a set of positions; the lemmas relate the code to it.
\<close>

definition int64 :: "int \<Rightarrow> int" where
  "int64 z = (z + 2 ^ 63) mod 2 ^ 64 - 2 ^ 63"

lemma int64_id: "- (2 ^ 63) \<le> z \<Longrightarrow> z < 2 ^ 63 \<Longrightarrow> int64 z = z"
  by (simp add: int64_def)

record httpRange =
  ra_start :: int
  ra_length :: int

definition contentRange :: "httpRange \<Rightarrow> int \<Rightarrow> string" where
  "contentRange r sz =
     ''bytes '' @ fmt_int (ra_start r) @ ''-'' @ fmt_int (int64 (ra_start r + ra_length r - 1)) @ ''/'' @ fmt_int sz"

text \<open>\<open>errNoOverlap\<close> is told from the other errors by the caller.\<close>

datatype range_error = ErrInvalidRange | ErrNoOverlap

fun range_error_text :: "range_error \<Rightarrow> string" where
  "range_error_text ErrInvalidRange = ''invalid range''"
| "range_error_text ErrNoOverlap = ''invalid range: failed to overlap''"

text \<open>The body of the loop for one element that is not empty: an error, \<open>None\<close> where the source continues
  after setting \<open>noOverlap\<close>, or the range.\<close>

definition parse_one_range :: "string \<Rightarrow> int \<Rightarrow> range_error + httpRange option" where
  "parse_one_range ra sz =
     (case cut_byte ra (CHR ''-'') of (start0, end0, ok) \<Rightarrow>
        if \<not> ok then Inl ErrInvalidRange
        else
          (let start = trim_string start0; fin = trim_string end0 in
           if start = [] then
             (if fin = [] \<or> hd fin = CHR ''-'' then Inl ErrInvalidRange
              else
                (case parse_int 64 fin of
                   Inl e \<Rightarrow> Inl ErrInvalidRange
                 | Inr i \<Rightarrow>
                     if i < 0 then Inl ErrInvalidRange
                     else
                       (let i = (if i > sz then sz else i); st = sz - i
                        in Inr (Some \<lparr>ra_start = st, ra_length = sz - st\<rparr>))))
           else
             (case parse_int 64 start of
                Inl e \<Rightarrow> Inl ErrInvalidRange
              | Inr i \<Rightarrow>
                  if i < 0 then Inl ErrInvalidRange
                  else if i \<ge> sz then Inr None
                  else if fin = [] then Inr (Some \<lparr>ra_start = i, ra_length = sz - i\<rparr>)
                  else
                    (case parse_int 64 fin of
                       Inl e \<Rightarrow> Inl ErrInvalidRange
                     | Inr j \<Rightarrow>
                         if i > j then Inl ErrInvalidRange
                         else
                           (let j = (if j \<ge> sz then sz - 1 else j)
                            in Inr (Some \<lparr>ra_start = i, ra_length = j - i + 1\<rparr>))))))"

fun parse_ranges_loop :: "string list \<Rightarrow> int \<Rightarrow> httpRange list \<Rightarrow> bool \<Rightarrow> range_error + httpRange list" where
  "parse_ranges_loop [] sz ranges noOverlap =
     (if noOverlap \<and> length ranges = 0 then Inl ErrNoOverlap else Inr ranges)"
| "parse_ranges_loop (ra0 # ras) sz ranges noOverlap =
     (let ra = trim_string ra0 in
      if ra = [] then parse_ranges_loop ras sz ranges noOverlap
      else
        (case parse_one_range ra sz of
           Inl e \<Rightarrow> Inl e
         | Inr None \<Rightarrow> parse_ranges_loop ras sz ranges True
         | Inr (Some r) \<Rightarrow> parse_ranges_loop ras sz (ranges @ [r]) noOverlap))"

definition parseRange :: "string \<Rightarrow> int \<Rightarrow> range_error + httpRange list" where
  "parseRange s sz =
     (if s = [] then Inr []
      else if \<not> has_prefix s ''bytes='' then Inl ErrInvalidRange
      else parse_ranges_loop (split_byte (CHR '','') (drop (length ''bytes='') s)) sz [] False)"

definition sumRangesSize :: "httpRange list \<Rightarrow> int" where
  "sumRangesSize ranges = foldl (\<lambda>acc ra. int64 (acc + ra_length ra)) 0 ranges"

subsection \<open>Ranges lie inside the content\<close>

definition range_ok :: "int \<Rightarrow> httpRange \<Rightarrow> bool" where
  "range_ok sz r \<longleftrightarrow> 0 \<le> ra_start r \<and> 0 \<le> ra_length r \<and> ra_start r + ra_length r \<le> sz"

lemma parse_one_range_ok:
  "0 \<le> sz \<Longrightarrow> parse_one_range ra sz = Inr (Some r) \<Longrightarrow> range_ok sz r"
  by (auto simp: parse_one_range_def Let_def range_ok_def split: prod.splits if_splits sum.splits)

lemma parse_ranges_loop_ok:
  assumes "0 \<le> sz" "list_all (range_ok sz) ranges" "parse_ranges_loop ras sz ranges b = Inr rs"
  shows "list_all (range_ok sz) rs"
  using assms
proof (induction ras sz ranges b rule: parse_ranges_loop.induct)
  case (2 ra0 ras sz ranges noOverlap)
  then show ?case
    by (auto simp: Let_def parse_one_range_ok split: if_splits sum.splits option.splits)
qed (auto split: if_splits)

lemma parseRange_ok: "0 \<le> sz \<Longrightarrow> parseRange s sz = Inr rs \<Longrightarrow> list_all (range_ok sz) rs"
  using parse_ranges_loop_ok [of sz "[]"] by (auto simp: parseRange_def split: if_splits)

lemma sumRangesSize_eq:
  assumes "list_all (\<lambda>r. 0 \<le> ra_length r) rs" "sum_list (map ra_length rs) < 2 ^ 63"
  shows "sumRangesSize rs = sum_list (map ra_length rs)"
proof -
  have "foldl (\<lambda>acc ra. int64 (acc + ra_length ra)) a rs = a + sum_list (map ra_length rs)"
    if "0 \<le> a" "a + sum_list (map ra_length rs) < 2 ^ 63" for a
    using that assms(1)
  proof (induction rs arbitrary: a)
    case (Cons r rs)
    have "0 \<le> sum_list (map ra_length rs)" using Cons.prems(3) by (intro sum_list_nonneg) (auto simp: list_all_iff)
    then have "int64 (a + ra_length r) = a + ra_length r" using Cons.prems by (intro int64_id) simp_all
    then show ?case using Cons.IH [of "a + ra_length r"] Cons.prems by simp
  qed simp
  from this [of 0] assms(2) show ?thesis by (simp add: sumRangesSize_def)
qed

subsection \<open>The meaning of a range header\<close>

datatype byte_range = FromTo nat nat | From nat | Suffix nat

fun range_text :: "byte_range \<Rightarrow> string" where
  "range_text (FromTo a b) = fmt_nat a @ CHR ''-'' # fmt_nat b"
| "range_text (From a) = fmt_nat a @ ''-''"
| "range_text (Suffix n) = CHR ''-'' # fmt_nat n"

fun wf_range :: "byte_range \<Rightarrow> bool" where
  "wf_range (FromTo a b) = (a \<le> b \<and> b < 2 ^ 63)"
| "wf_range (From a) = (a < 2 ^ 63)"
| "wf_range (Suffix n) = (n < 2 ^ 63)"

text \<open>The positions of the content of \<open>sz\<close> bytes that RFC 7233 gives an element.\<close>

fun covers :: "int \<Rightarrow> byte_range \<Rightarrow> int set" where
  "covers sz (FromTo a b) = {p. 0 \<le> p \<and> p < sz \<and> int a \<le> p \<and> p \<le> int b}"
| "covers sz (From a) = {p. 0 \<le> p \<and> p < sz \<and> int a \<le> p}"
| "covers sz (Suffix n) = {p. 0 \<le> p \<and> p < sz \<and> sz - int n \<le> p}"

definition positions :: "httpRange \<Rightarrow> int set" where
  "positions r = {ra_start r ..< ra_start r + ra_length r}"

fun is_suffix :: "byte_range \<Rightarrow> bool" where
  "is_suffix (Suffix _) = True"
| "is_suffix _ = False"

lemma digits_no_hyphen: "CHR ''-'' \<notin> set (fmt_nat n)"
  by (rule fmt_nat_avoids) (simp add: dec_byte_def less_eq_char_def)

lemma digits_no_comma: "CHR '','' \<notin> set (fmt_nat n)"
  by (rule fmt_nat_avoids) (simp add: dec_byte_def less_eq_char_def)

lemma parse_int_digits: "n < 2 ^ 63 \<Longrightarrow> parse_int 64 (fmt_nat n) = Inr (int n)"
  using parse_int_fmt [of "int n"] by (simp add: fmt_int_def)

lemmas range_digits = cut_byte_found [OF digits_no_hyphen] trim_plain [OF digits_plain] parse_int_digits hd_fmt_nat

lemma cut_hyphen_first: "cut_byte (CHR ''-'' # s) (CHR ''-'') = ([], s, True)"
  using cut_byte_found [of "CHR ''-''" "[]" s] by simp

lemma trim_Nil [simp]: "trim_string [] = []"
  by (simp add: trim_string_def)

lemma parse_one_range_text:
  assumes "wf_range b" "0 \<le> sz"
  shows "if is_suffix b \<or> covers sz b \<noteq> {}
    then \<exists>r. parse_one_range (range_text b) sz = Inr (Some r) \<and> positions r = covers sz b
    else parse_one_range (range_text b) sz = Inr None"
proof (cases b)
  case (FromTo x y)
  have "int x < sz \<Longrightarrow> int x \<in> covers sz b" using FromTo assms by simp
  then have "covers sz b \<noteq> {} \<longleftrightarrow> int x < sz" using FromTo by auto
  then show ?thesis using FromTo assms
    by (simp add: parse_one_range_def range_digits Let_def positions_def) auto
next
  case (From x)
  have "int x < sz \<Longrightarrow> int x \<in> covers sz b" using From assms by simp
  then have "covers sz b \<noteq> {} \<longleftrightarrow> int x < sz" using From by auto
  then show ?thesis using From assms
    by (simp add: parse_one_range_def range_digits Let_def positions_def) auto
next
  case (Suffix n)
  then show ?thesis using assms
    by (simp add: parse_one_range_def cut_hyphen_first range_digits Let_def positions_def) auto
qed

lemma mem_dropWhile: "c \<in> set s \<Longrightarrow> \<not> P c \<Longrightarrow> c \<in> set (dropWhile P s)"
  by (induction s) auto

lemma mem_trim: "c \<in> set s \<Longrightarrow> \<not> ascii_space c \<Longrightarrow> c \<in> set (trim_string s)"
  unfolding trim_string_def by (simp add: mem_dropWhile)

lemma range_text_plain: "range_text b \<noteq> []" "CHR '','' \<notin> set (range_text b)"
  by (cases b; simp add: digits_no_comma)+

definition served :: "int \<Rightarrow> byte_range \<Rightarrow> bool" where
  "served sz b \<longleftrightarrow> is_suffix b \<or> covers sz b \<noteq> {}"

lemma parse_ranges_loop_text:
  assumes "list_all2 (\<lambda>e b. trim_string e = range_text b) es bs" "list_all wf_range bs" "0 \<le> sz"
  shows "\<exists>rs. list_all2 (\<lambda>b r. positions r = covers sz b) (filter (served sz) bs) rs \<and>
    parse_ranges_loop es sz acc noOverlap =
      (if (noOverlap \<or> list_ex (\<lambda>b. \<not> served sz b) bs) \<and> acc @ rs = [] then Inl ErrNoOverlap else Inr (acc @ rs))"
  using assms
proof (induction es bs arbitrary: acc noOverlap rule: list_all2_induct)
  case (Cons e es b bs)
  have e: "trim_string e = range_text b" "range_text b \<noteq> []" using Cons range_text_plain(1) by auto
  have wf: "wf_range b" "list_all wf_range bs" using Cons.prems by simp_all
  note IH = Cons.IH [OF wf(2) assms(3)]
  show ?case
  proof (cases "served sz b")
    case True
    then obtain r where r: "parse_one_range (range_text b) sz = Inr (Some r)" "positions r = covers sz b"
      using parse_one_range_text [OF wf(1) assms(3)] by (auto simp: served_def split: if_splits)
    obtain rs where rs: "list_all2 (\<lambda>b r. positions r = covers sz b) (filter (served sz) bs) rs"
      "parse_ranges_loop es sz (acc @ [r]) noOverlap = Inr ((acc @ [r]) @ rs)" using IH [of "acc @ [r]" noOverlap] by auto
    then show ?thesis using True r e by (intro exI [of _ "r # rs"]) (simp add: Let_def)
  next
    case False
    then have "parse_one_range (range_text b) sz = Inr None"
      using parse_one_range_text [OF wf(1) assms(3)] by (simp add: served_def split: if_splits)
    then show ?thesis using False e IH [of acc True] by (simp add: Let_def)
  qed
qed simp

text \<open>C26: A range header that lists byte ranges as RFC 7233 writes them, with any white space around the elements, is
  parsed to exactly the ranges of positions it names, cut off at the end of the content and in the
  order of the header; elements that lie behind the end are dropped, and if that leaves nothing the
  result is the error for ranges without overlap.\<close>

theorem parseRange_meaning:
  assumes "list_all2 (\<lambda>e b. trim_string e = range_text b) es bs" "list_all wf_range bs" "bs \<noteq> []" "0 \<le> sz"
  shows "\<exists>rs. list_all2 (\<lambda>b r. positions r = covers sz b \<and> range_ok sz r) (filter (served sz) bs) rs \<and>
    parseRange (''bytes='' @ join_byte (CHR '','') es) sz = (if rs = [] then Inl ErrNoOverlap else Inr rs)"
proof -
  have comma: "CHR '','' \<notin> set e" if mem: "e \<in> set es" for e
  proof -
    obtain i where i: "e = es ! i" "i < length es" using mem by (auto simp: in_set_conv_nth)
    have "trim_string e = range_text (bs ! i)" using list_all2_nthD [OF assms(1) i(2)] i(1) by simp
    then have "CHR '','' \<notin> set (trim_string e)" by (simp only: range_text_plain(2) not_False_eq_True)
    moreover have "\<not> ascii_space (CHR '','')" by (simp add: ascii_space_def)
    ultimately show ?thesis using mem_trim by blast
  qed
  have "es \<noteq> []" using assms(1,3) by auto
  then have "split_byte (CHR '','') (join_byte (CHR '','') es) = es" using comma by (rule split_join_byte)
  then have eq: "parseRange (''bytes='' @ join_byte (CHR '','') es) sz = parse_ranges_loop es sz [] False"
    by (simp add: parseRange_def has_prefix_def)
  obtain rs where rs: "list_all2 (\<lambda>b r. positions r = covers sz b) (filter (served sz) bs) rs"
    "parse_ranges_loop es sz [] False = (if list_ex (\<lambda>b. \<not> served sz b) bs \<and> rs = [] then Inl ErrNoOverlap else Inr rs)"
    using parse_ranges_loop_text [OF assms(1,2,4), of "[]" False] by auto
  have none: "list_ex (\<lambda>b. \<not> served sz b) bs" if "rs = []"
    using that rs(1) assms(3) by (cases bs) (auto split: if_splits)
  have "list_all (range_ok sz) rs"
    using parse_ranges_loop_ok [OF assms(4), of "[]" es False rs] rs(2) by (cases "rs = []") simp_all
  then have "list_all2 (\<lambda>b r. positions r = covers sz b \<and> range_ok sz r) (filter (served sz) bs) rs"
    using rs(1) by (auto simp: list_all2_conv_all_nth list_all_length)
  then show ?thesis unfolding eq using rs(2) none by (intro exI [of _ rs]) simp
qed

theorem parseRange_meaning_witness:
  "\<exists>rs. list_all2 (\<lambda>b r. positions r = covers 10 b \<and> range_ok 10 r) (filter (served 10) [FromTo 2 4, From 20, Suffix 3]) rs \<and>
    parseRange (''bytes='' @ join_byte (CHR '','') [''2-4'', '' 20-'', ''-3 '']) 10 = (if rs = [] then Inl ErrNoOverlap else Inr rs)"
  by (rule parseRange_meaning)
    (simp_all add: trim_string_def ascii_space_def fmt_nat.simps dec_char_def)

end
