(* ===== verification/Response_Writer.thy ===== *)
theory Response_Writer
  imports Sniff File_Range
begin

section \<open>Response writers (server.go, httptest/recorder.go, filetransport.go, status.go)\<close>

text \<open>
  The interface \<open>ResponseWriter\<close> as a record of its operations, with the laws its handlers rely on as a
  locale, and its two implementations that do not need a connection: \<open>ResponseRecorder\<close> of
  \<open>httptest\<close> and \<open>populateResponse\<close> of \<open>filetransport.go\<close>, which are the interpretations. \<open>Header\<close> returns a map that the
  handler then changes; here the handler stores the changed map with \<open>rw_SetHeader\<close>. The helpers
  \<open>Error\<close> and \<open>NotFound\<close> of \<open>server.go\<close> and \<open>StatusText\<close> are here as well.
\<close>

definition status_texts :: "(int \<times> string) list" where
  "status_texts =
    [(100, ''Continue''), (101, ''Switching Protocols''), (102, ''Processing''), (103, ''Early Hints''),
     (200, ''OK''), (201, ''Created''), (202, ''Accepted''), (203, ''Non-Authoritative Information''),
     (204, ''No Content''), (205, ''Reset Content''), (206, ''Partial Content''), (207, ''Multi-Status''),
     (208, ''Already Reported''), (226, ''IM Used''), (300, ''Multiple Choices''), (301, ''Moved Permanently''),
     (302, ''Found''), (303, ''See Other''), (304, ''Not Modified''), (305, ''Use Proxy''),
     (307, ''Temporary Redirect''), (308, ''Permanent Redirect''), (400, ''Bad Request''),
     (401, ''Unauthorized''), (402, ''Payment Required''), (403, ''Forbidden''), (404, ''Not Found''),
     (405, ''Method Not Allowed''), (406, ''Not Acceptable''), (407, ''Proxy Authentication Required''),
     (408, ''Request Timeout''), (409, ''Conflict''), (410, ''Gone''), (411, ''Length Required''),
     (412, ''Precondition Failed''), (413, ''Request Entity Too Large''), (414, ''Request URI Too Long''),
     (415, ''Unsupported Media Type''), (416, ''Requested Range Not Satisfiable''),
     (417, ''Expectation Failed''), (418, (''I'' @ [CHR 39] @ ''m a teapot'')), (421, ''Misdirected Request''),
     (422, ''Unprocessable Entity''), (423, ''Locked''), (424, ''Failed Dependency''), (425, ''Too Early''),
     (426, ''Upgrade Required''), (428, ''Precondition Required''), (429, ''Too Many Requests''),
     (431, ''Request Header Fields Too Large''), (451, ''Unavailable For Legal Reasons''),
     (500, ''Internal Server Error''), (501, ''Not Implemented''), (502, ''Bad Gateway''),
     (503, ''Service Unavailable''), (504, ''Gateway Timeout''), (505, ''HTTP Version Not Supported''),
     (506, ''Variant Also Negotiates''), (507, ''Insufficient Storage''), (508, ''Loop Detected''),
     (510, ''Not Extended''), (511, ''Network Authentication Required'')]"

definition StatusText :: "int \<Rightarrow> string" where
  "StatusText code =
     (case map_of status_texts code of None \<Rightarrow> [] | Some t \<Rightarrow> t)"

subsection \<open>The interface\<close>

record 'w ResponseWriter =
  rw_Header :: "'w \<Rightarrow> Header"
  rw_SetHeader :: "Header \<Rightarrow> 'w \<Rightarrow> 'w"
  rw_WriteHeader :: "int \<Rightarrow> 'w \<Rightarrow> 'w go"
  rw_Write :: "(char, 'w) write_fun"

definition rw_change :: "'w ResponseWriter \<Rightarrow> (Header \<Rightarrow> Header) \<Rightarrow> 'w \<Rightarrow> 'w" where
  "rw_change W f w = rw_SetHeader W (f (rw_Header W w)) w"

text \<open>\<open>fmt.Fprintln\<close> and \<open>fmt.Fprintf\<close> whose results are not used.\<close>

definition rw_Print :: "'w ResponseWriter \<Rightarrow> string \<Rightarrow> 'w \<Rightarrow> 'w" where
  "rw_Print W s w = snd (snd (rw_Write W s w))"

definition http_Error :: "'w ResponseWriter \<Rightarrow> string \<Rightarrow> int \<Rightarrow> 'w \<Rightarrow> 'w go" where
  "http_Error W msg code w =
     (let w1 = rw_change W (Header_Set ''Content-Type'' ''text/plain; charset=utf-8'') w;
          w2 = rw_change W (Header_Set ''X-Content-Type-Options'' ''nosniff'') w1
      in go_bind (rw_WriteHeader W code w2) (\<lambda>w3. Ret (rw_Print W (msg @ [CHR 0x0A]) w3)))"

definition NotFound :: "'w ResponseWriter \<Rightarrow> 'w \<Rightarrow> 'w go" where
  "NotFound W w = http_Error W ''404 page not found'' 404 w"

subsection \<open>The recorder\<close>

record http_Response =
  res_StatusCode :: int
  res_Status :: string
  res_Header :: Header
  res_Body :: string
  res_ContentLength :: int
  res_Trailer :: "Header option"

record ResponseRecorder =
  rec_Code :: int
  rec_HeaderMap :: Header
  rec_Body :: "string option"
  rec_Flushed :: bool
  rec_result :: "http_Response option"
  rec_snapHeader :: "Header option"
  rec_wroteHeader :: bool

definition NewRecorder :: ResponseRecorder where
  "NewRecorder = \<lparr>rec_Code = 200, rec_HeaderMap = [], rec_Body = Some [], rec_Flushed = False, rec_result = None,
     rec_snapHeader = None, rec_wroteHeader = False\<rparr>"

definition checkWriteHeaderCode :: "int \<Rightarrow> unit go" where
  "checkWriteHeaderCode code =
     (if code < 100 \<or> code > 999 then Panic (''invalid WriteHeader code '' @ fmt_int code) else Ret ())"

definition rec_WriteHeader :: "int \<Rightarrow> ResponseRecorder \<Rightarrow> ResponseRecorder go" where
  "rec_WriteHeader code w =
     (if rec_wroteHeader w then Ret w
      else go_bind (checkWriteHeaderCode code)
        (\<lambda>_. Ret (w\<lparr>rec_Code := code, rec_wroteHeader := True, rec_snapHeader := Some (rec_HeaderMap w)\<rparr>)))"

text \<open>\<open>writeHeader\<close>, with the one of its two arguments that is not nil; \<open>WriteHeader(200)\<close> cannot panic.\<close>

definition rec_writeHeader :: "string \<Rightarrow> ResponseRecorder \<Rightarrow> ResponseRecorder" where
  "rec_writeHeader b w =
     (if rec_wroteHeader w then w
      else
        (let m = rec_HeaderMap w;
             m1 = (if \<not> header_has m ''Content-Type'' \<and> Header_Get m ''Transfer-Encoding'' = []
                   then Header_Set ''Content-Type'' (DetectContentType b) m else m)
         in w\<lparr>rec_HeaderMap := m1, rec_Code := 200, rec_wroteHeader := True, rec_snapHeader := Some m1\<rparr>))"

definition rec_Write :: "(char, ResponseRecorder) write_fun" where
  "rec_Write buf w =
     (let w1 = rec_writeHeader buf w
      in (length buf, None, w1\<lparr>rec_Body := (case rec_Body w1 of None \<Rightarrow> None | Some b \<Rightarrow> Some (b @ buf))\<rparr>))"

definition rec_WriteString :: "(char, ResponseRecorder) write_fun" where
  "rec_WriteString str w =
     (let w1 = rec_writeHeader (if length str > 512 then take 512 str else str) w
      in (length str, None, w1\<lparr>rec_Body := (case rec_Body w1 of None \<Rightarrow> None | Some b \<Rightarrow> Some (b @ str))\<rparr>))"

definition rec_Flush :: "ResponseRecorder \<Rightarrow> ResponseRecorder go" where
  "rec_Flush w = go_bind (if rec_wroteHeader w then Ret w else rec_WriteHeader 200 w) (\<lambda>w1. Ret (w1\<lparr>rec_Flushed := True\<rparr>))"

definition rec_parseContentLength :: "string \<Rightarrow> int" where
  "rec_parseContentLength cl0 =
     (let cl = trim_string cl0 in
      if cl = [] then - 1 else (case parse_uint 63 cl of Inl e \<Rightarrow> - 1 | Inr n \<Rightarrow> int n))"

text \<open>\<open>%03d\<close>.\<close>

definition fmt_03 :: "int \<Rightarrow> string" where
  "fmt_03 z =
     (let d = fmt_nat (nat \<bar>z\<bar>) in
      if z < 0 then CHR ''-'' # replicate (2 - length d) (CHR ''0'') @ d else replicate (3 - length d) (CHR ''0'') @ d)"

text \<open>The trailers that the header announces; \<open>valid\<close> stands for \<open>httpguts.ValidTrailerHeader\<close>.\<close>

fun announced_trailers :: "(string \<Rightarrow> bool) \<Rightarrow> Header \<Rightarrow> string list \<Rightarrow> Header \<Rightarrow> Header" where
  "announced_trailers valid h [] acc = acc"
| "announced_trailers valid h (k0 # ks) acc =
     (let k = CanonicalHeaderKey (trim_string k0) in
      if \<not> valid k then announced_trailers valid h ks acc
      else
        (case map_of h k of
           None \<Rightarrow> announced_trailers valid h ks acc
         | Some vv \<Rightarrow> announced_trailers valid h ks (AList.update k vv acc)))"

fun prefixed_trailers :: "Header \<Rightarrow> Header option \<Rightarrow> Header option" where
  "prefixed_trailers [] t = t"
| "prefixed_trailers ((k, vv) # h) t =
     (if \<not> has_prefix k ''Trailer:'' then prefixed_trailers h t
      else
        (let t0 = (case t of None \<Rightarrow> [] | Some x \<Rightarrow> x)
         in prefixed_trailers h (Some (fold (\<lambda>v. Header_Add (drop (length ''Trailer:'') k) v) vv t0))))"

definition rec_Result :: "(string \<Rightarrow> bool) \<Rightarrow> ResponseRecorder \<Rightarrow> http_Response \<times> ResponseRecorder" where
  "rec_Result valid w =
     (case rec_result w of
        Some r \<Rightarrow> (r, w)
      | None \<Rightarrow>
          (let snap = (case rec_snapHeader w of None \<Rightarrow> rec_HeaderMap w | Some h \<Rightarrow> h);
               code = (if rec_Code w = 0 then 200 else rec_Code w);
               announced = (case map_of snap ''Trailer'' of
                              None \<Rightarrow> None
                            | Some vs \<Rightarrow> Some (announced_trailers valid (rec_HeaderMap w)
                                           (concat (map (split_byte (CHR '','')) vs)) []));
               res = \<lparr>res_StatusCode = code, res_Status = fmt_03 code @ '' '' @ StatusText code, res_Header = snap,
                      res_Body = (case rec_Body w of None \<Rightarrow> [] | Some b \<Rightarrow> b),
                      res_ContentLength = rec_parseContentLength (Header_Get snap ''Content-Length''),
                      res_Trailer = prefixed_trailers (rec_HeaderMap w) announced\<rparr>
           in (res, w\<lparr>rec_snapHeader := Some snap, rec_result := Some res\<rparr>)))"

definition recorder :: "ResponseRecorder ResponseWriter" where
  "recorder = \<lparr>rw_Header = rec_HeaderMap, rw_SetHeader = (\<lambda>h w. w\<lparr>rec_HeaderMap := h\<rparr>),
     rw_WriteHeader = rec_WriteHeader, rw_Write = rec_Write\<rparr>"

subsection \<open>The writer of the file transport\<close>

text \<open>
  The pipe is the bytes that the client has taken from it so far and, if it will close the body early, how
  many more it takes. \<open>pr_delivered\<close> is what is sent on the channel \<open>ch\<close>: the one response, whose
  header map is shared with the writer.
\<close>

record populateResponse =
  pr_StatusCode :: int
  pr_Status :: string
  pr_Header :: Header
  pr_ContentLength :: int
  pr_delivered :: nat
  pr_wroteHeader :: bool
  pr_hasContent :: bool
  pr_sentResponse :: bool
  pr_pipe :: string
  pr_room :: "nat option"
  pr_closed :: bool

definition newPopulateResponseWriter :: "nat option \<Rightarrow> populateResponse" where
  "newPopulateResponseWriter room =
     \<lparr>pr_StatusCode = 0, pr_Status = [], pr_Header = [], pr_ContentLength = 0, pr_delivered = 0, pr_wroteHeader = False,
      pr_hasContent = False, pr_sentResponse = False, pr_pipe = [], pr_room = room, pr_closed = False\<rparr>"

definition pr_sendResponse :: "populateResponse \<Rightarrow> populateResponse" where
  "pr_sendResponse w =
     (if pr_sentResponse w then w
      else w\<lparr>pr_sentResponse := True, pr_ContentLength := (if pr_hasContent w then - 1 else pr_ContentLength w),
             pr_delivered := pr_delivered w + 1\<rparr>)"

definition pr_WriteHeader :: "int \<Rightarrow> populateResponse \<Rightarrow> populateResponse" where
  "pr_WriteHeader code w =
     (if pr_wroteHeader w then w
      else w\<lparr>pr_wroteHeader := True, pr_StatusCode := code, pr_Status := fmt_int code @ '' '' @ StatusText code\<rparr>)"

definition pipe_write :: "(char, populateResponse) write_fun" where
  "pipe_write p w =
     (case pr_room w of
        None \<Rightarrow> (length p, None, w\<lparr>pr_pipe := pr_pipe w @ p\<rparr>)
      | Some k \<Rightarrow>
          if length p \<le> k then (length p, None, w\<lparr>pr_pipe := pr_pipe w @ p, pr_room := Some (k - length p)\<rparr>)
          else (k, Some (OtherError ''io: read/write on closed pipe''), w\<lparr>pr_pipe := pr_pipe w @ take k p, pr_room := Some 0\<rparr>))"

definition pr_Write :: "(char, populateResponse) write_fun" where
  "pr_Write p w =
     (let w1 = (if pr_wroteHeader w then w else pr_WriteHeader 200 w);
          w2 = w1\<lparr>pr_hasContent := True\<rparr>;
          w3 = (if pr_sentResponse w2 then w2 else pr_sendResponse w2)
      in pipe_write p w3)"

definition pr_finish :: "populateResponse \<Rightarrow> populateResponse" where
  "pr_finish w =
     (let w1 = (if pr_wroteHeader w then w else pr_WriteHeader 500 w);
          w2 = (if pr_sentResponse w1 then w1 else pr_sendResponse w1)
      in w2\<lparr>pr_closed := True\<rparr>)"

definition populate :: "populateResponse ResponseWriter" where
  "populate = \<lparr>rw_Header = pr_Header, rw_SetHeader = (\<lambda>h w. w\<lparr>pr_Header := h\<rparr>),
     rw_WriteHeader = (\<lambda>code w. Ret (pr_WriteHeader code w)), rw_Write = pr_Write\<rparr>"

subsection \<open>What handlers rely on\<close>

definition error_header :: "Header \<Rightarrow> Header" where
  "error_header h = Header_Set ''X-Content-Type-Options'' ''nosniff'' (Header_Set ''Content-Type'' ''text/plain; charset=utf-8'' h)"

text \<open>
  A writer is \<open>fresh\<close> until the header is written and \<open>live\<close> after that, as long as its client takes the body.
  \<open>status\<close>, \<open>sent\<close> and \<open>body\<close> are what the client gets.
\<close>

locale response_writer =
  fixes W :: "'w ResponseWriter" and fresh live :: "'w \<Rightarrow> bool"
    and status :: "'w \<Rightarrow> int" and sent :: "'w \<Rightarrow> Header" and body :: "'w \<Rightarrow> string"
  assumes set_fresh: "fresh w \<Longrightarrow> fresh (rw_SetHeader W h w)"
    and set_header: "rw_Header W (rw_SetHeader W h w) = h"
    and fresh_body: "fresh w \<Longrightarrow> body w = []"
    and write_header: "fresh w \<Longrightarrow> 200 \<le> c \<Longrightarrow> c \<le> 999 \<Longrightarrow>
      \<exists>w'. rw_WriteHeader W c w = Ret w' \<and> live w' \<and> status w' = c \<and> sent w' = rw_Header W w \<and> body w' = []"
    and write_live: "live w \<Longrightarrow>
      \<exists>w'. rw_Write W d w = (length d, None, w') \<and> live w' \<and> status w' = status w \<and> sent w' = sent w \<and> body w' = body w @ d"
    and write_fresh: "fresh w \<Longrightarrow> header_has (rw_Header W w) ''Content-Type'' \<Longrightarrow>
      \<exists>w'. rw_Write W d w = (length d, None, w') \<and> live w' \<and> status w' = 200 \<and> sent w' = rw_Header W w \<and> body w' = d"
begin

text \<open>What a handler answered: a status, a header and a body.\<close>

definition replied :: "'w go \<Rightarrow> int \<Rightarrow> Header \<Rightarrow> string \<Rightarrow> bool" where
  "replied r c h b \<longleftrightarrow> (\<exists>w. r = Ret w \<and> live w \<and> status w = c \<and> sent w = h \<and> body w = b)"

lemma change_fresh: "fresh w \<Longrightarrow> fresh (rw_change W f w)"
  by (simp add: rw_change_def set_fresh)

lemma change_header: "rw_Header W (rw_change W f w) = f (rw_Header W w)"
  by (simp add: rw_change_def set_header)

lemmas change = change_fresh change_header

lemma WriteHeader_replied:
  "fresh w \<Longrightarrow> 200 \<le> c \<Longrightarrow> c \<le> 999 \<Longrightarrow> replied (rw_WriteHeader W c w) c (rw_Header W w) []"
  unfolding replied_def by (rule write_header)

lemma Print_replied:
  assumes "replied r c h b"
  shows "replied (go_bind r (\<lambda>w. Ret (rw_Print W s w))) c h (b @ s)"
proof -
  obtain w where w: "r = Ret w" "live w" "status w = c" "sent w = h" "body w = b" using assms unfolding replied_def by blast
  from write_live [OF w(2), of s] w show ?thesis unfolding replied_def by (auto simp: rw_Print_def)
qed

lemma Print_fresh:
  assumes "fresh w" "header_has (rw_Header W w) ''Content-Type''"
  shows "replied (Ret (rw_Print W s w)) 200 (rw_Header W w) s"
  using write_fresh [OF assms, of s] unfolding replied_def by (auto simp: rw_Print_def)

lemma Error_replied:
  assumes "fresh w" "200 \<le> c" "c \<le> 999"
  shows "replied (http_Error W msg c w) c (error_header (rw_Header W w)) (msg @ [CHR 0x0A])"
proof -
  let ?w = "rw_change W (Header_Set ''X-Content-Type-Options'' ''nosniff'')
    (rw_change W (Header_Set ''Content-Type'' ''text/plain; charset=utf-8'') w)"
  have "replied (rw_WriteHeader W c ?w) c (error_header (rw_Header W w)) []"
    using WriteHeader_replied [of ?w c] assms by (simp add: change error_header_def)
  from Print_replied [OF this, of "msg @ [CHR 0x0A]"] show ?thesis by (simp add: http_Error_def)
qed

end

definition rec_fresh :: "ResponseRecorder \<Rightarrow> bool" where
  "rec_fresh w \<longleftrightarrow> \<not> rec_wroteHeader w \<and> rec_Body w = Some []"

definition rec_live :: "ResponseRecorder \<Rightarrow> bool" where
  "rec_live w \<longleftrightarrow> rec_wroteHeader w \<and> rec_Body w \<noteq> None"

interpretation rec: response_writer recorder rec_fresh rec_live rec_Code "\<lambda>w. the (rec_snapHeader w)" "\<lambda>w. the (rec_Body w)"
  by unfold_locales
    (auto simp: recorder_def rec_fresh_def rec_live_def rec_WriteHeader_def checkWriteHeaderCode_def rec_Write_def rec_writeHeader_def Let_def)

definition pr_fresh :: "populateResponse \<Rightarrow> bool" where
  "pr_fresh w \<longleftrightarrow> \<not> pr_wroteHeader w \<and> pr_pipe w = [] \<and> pr_room w = None"

definition pr_live :: "populateResponse \<Rightarrow> bool" where
  "pr_live w \<longleftrightarrow> pr_wroteHeader w \<and> pr_room w = None"

interpretation pop: response_writer populate pr_fresh pr_live pr_StatusCode pr_Header pr_pipe
  by unfold_locales
    (auto simp: populate_def pr_fresh_def pr_live_def pr_WriteHeader_def pr_Write_def pr_sendResponse_def pipe_write_def Let_def)

lemma populate_one_response:
  "pr_delivered w = of_bool (pr_sentResponse w) \<Longrightarrow> pr_delivered (pr_finish w) = 1"
  by (auto simp: pr_finish_def pr_sendResponse_def pr_WriteHeader_def Let_def)

end
