(* ===== verification/Preconditions.thy ===== *)
theory Preconditions
  imports Response_Writer
begin

section \<open>Conditional requests (fs.go)\<close>

text \<open>
  The entity tags and dates of a request against those of the content: \<open>scanETag\<close>, the five checks and
  \<open>checkPreconditions\<close>. A time is the number of nanoseconds since 1970; \<open>time.Parse\<close>, \<open>Time.Format\<close> and
  \<open>mime.TypeByExtension\<close>, whose answers depend on tables of the system, are fields of the parameter record \<open>fslib\<close>.
\<close>

type_synonym gotime = int

record fslib =
  fs_timeParse :: "string \<Rightarrow> string \<Rightarrow> gotime option"
  fs_timeFormat :: "gotime \<Rightarrow> string"
  fs_TypeByExtension :: "string \<Rightarrow> string"

record file_request =
  fr_Method :: string
  fr_Header :: Header
  fr_Path :: string
  fr_RawQuery :: string

definition TimeFormat :: string where
  "TimeFormat = ''Mon, 02 Jan 2006 15:04:05 GMT''"

definition timeFormats :: "string list" where
  "timeFormats = [TimeFormat, ''Monday, 02-Jan-06 15:04:05 MST'', ''Mon Jan _2 15:04:05 2006'']"

fun ParseTime_loop :: "fslib \<Rightarrow> string list \<Rightarrow> string \<Rightarrow> gotime option" where
  "ParseTime_loop L [] t = None"
| "ParseTime_loop L (layout # ls) t =
     (case fs_timeParse L layout t of Some x \<Rightarrow> Some x | None \<Rightarrow> ParseTime_loop L ls t)"

definition ParseTime :: "fslib \<Rightarrow> string \<Rightarrow> gotime option" where
  "ParseTime L t = ParseTime_loop L timeFormats t"

text \<open>\<open>Time.IsZero\<close>: the first instant of the year 1; \<open>Truncate(time.Second)\<close> and \<open>Unix\<close>.\<close>

definition zero_time :: gotime where
  "zero_time = - 62135596800000000000"

definition truncate_second :: "gotime \<Rightarrow> gotime" where
  "truncate_second t = t - t mod 1000000000"

definition unix_seconds :: "gotime \<Rightarrow> int" where
  "unix_seconds t = t div 1000000000"

definition isZeroTime :: "gotime \<Rightarrow> bool" where
  "isZeroTime t = (t = zero_time \<or> t = 0)"

definition setLastModified :: "fslib \<Rightarrow> 'w ResponseWriter \<Rightarrow> gotime \<Rightarrow> 'w \<Rightarrow> 'w" where
  "setLastModified L W modtime w =
     (if \<not> isZeroTime modtime then rw_change W (Header_Set ''Last-Modified'' (fs_timeFormat L modtime)) w else w)"

definition writeNotModified :: "'w ResponseWriter \<Rightarrow> 'w \<Rightarrow> 'w go" where
  "writeNotModified W w =
     (let h = AList.delete ''Content-Encoding'' (AList.delete ''Content-Length'' (AList.delete ''Content-Type'' (rw_Header W w)));
          h1 = (if Header_Get h ''Etag'' \<noteq> [] then AList.delete ''Last-Modified'' h else h)
      in rw_WriteHeader W 304 (rw_SetHeader W h1 w))"

subsection \<open>Entity tags\<close>

definition etag_char :: "char \<Rightarrow> bool" where
  "etag_char c = (byte_val c = 0x21 \<or> (byte_val c \<ge> 0x23 \<and> byte_val c \<le> 0x7E) \<or> byte_val c \<ge> 0x80)"

abbreviation dquote :: char where
  "dquote \<equiv> CHR 0x22"

text \<open>The index of the closing quote, if only characters of an entity tag come before it.\<close>

fun etag_end :: "string \<Rightarrow> nat option" where
  "etag_end [] = None"
| "etag_end (c # s) =
     (if etag_char c then (case etag_end s of None \<Rightarrow> None | Some n \<Rightarrow> Some (Suc n))
      else if c = dquote then Some 0 else None)"

definition scanETag :: "string \<Rightarrow> string \<times> string" where
  "scanETag s0 =
     (let s = trim_string s0; start = (if has_prefix s ''W/'' then 2 else 0) in
      if length (drop start s) < 2 \<or> s ! start \<noteq> dquote then ([], [])
      else
        (case etag_end (drop (start + 1) s) of
           None \<Rightarrow> ([], [])
         | Some k \<Rightarrow> (let i = start + 1 + k in (take (i + 1) s, drop (i + 1) s))))"

definition etagStrongMatch :: "string \<Rightarrow> string \<Rightarrow> bool" where
  "etagStrongMatch a b = (a = b \<and> a \<noteq> [] \<and> hd a = dquote)"

definition trim_prefix :: "string \<Rightarrow> string \<Rightarrow> string" where
  "trim_prefix s p = (if has_prefix s p then drop (length p) s else s)"

definition etagWeakMatch :: "string \<Rightarrow> string \<Rightarrow> bool" where
  "etagWeakMatch a b = (trim_prefix a ''W/'' = trim_prefix b ''W/'')"

lemma trim_length: "length (trim_string s) \<le> length s"
  unfolding trim_string_def by (metis length_dropWhile_le length_rev order_trans)

lemma scanETag_remain:
  assumes "scanETag s = (etag, remain)" "etag \<noteq> []"
  shows "length remain < length (trim_string s)"
  using assms by (auto simp: scanETag_def Let_def split: if_splits option.splits)

text \<open>The loop of \<open>checkIfMatch\<close> and of \<open>checkIfNoneMatch\<close>: whether it leaves at a star or at a tag that matches.\<close>

function etag_search :: "(string \<Rightarrow> bool) \<Rightarrow> string \<Rightarrow> bool" where
  "etag_search matches im0 =
     (let im = trim_string im0 in
      if im = [] then False
      else if hd im = CHR '','' then etag_search matches (tl im)
      else if hd im = CHR ''*'' then True
      else
        (let (etag, remain) = scanETag im in
         if etag = [] then False
         else if matches etag then True
         else etag_search matches remain))"
  by pat_completeness auto
termination
proof (relation "measure (\<lambda>(m, s). length s)", goal_cases)
  case (2 m s im)
  then show ?case using trim_length [of s] by (cases "trim_string s") auto
next
  case (3 m s im p etag remain)
  then have "scanETag im = (etag, remain)" "etag \<noteq> []" by simp_all
  from scanETag_remain [OF this] 3(1) show ?case using trim_length [of s] by simp
qed simp

declare etag_search.simps [simp del]

subsection \<open>The checks\<close>

datatype condResult = condNone | condTrue | condFalse

definition checkIfMatch :: "Header \<Rightarrow> file_request \<Rightarrow> condResult" where
  "checkIfMatch wh r =
     (let im = Header_Get (fr_Header r) ''If-Match'' in
      if im = [] then condNone
      else if etag_search (\<lambda>etag. etagStrongMatch etag (header_get wh ''Etag'')) im then condTrue
      else condFalse)"

definition checkIfUnmodifiedSince :: "fslib \<Rightarrow> file_request \<Rightarrow> gotime \<Rightarrow> condResult" where
  "checkIfUnmodifiedSince L r modtime =
     (let ius = Header_Get (fr_Header r) ''If-Unmodified-Since'' in
      if ius = [] \<or> isZeroTime modtime then condNone
      else
        (case ParseTime L ius of
           None \<Rightarrow> condNone
         | Some t \<Rightarrow> if truncate_second modtime \<le> t then condTrue else condFalse))"

definition checkIfNoneMatch :: "Header \<Rightarrow> file_request \<Rightarrow> condResult" where
  "checkIfNoneMatch wh r =
     (let inm = header_get (fr_Header r) ''If-None-Match'' in
      if inm = [] then condNone
      else if etag_search (\<lambda>etag. etagWeakMatch etag (header_get wh ''Etag'')) inm then condFalse
      else condTrue)"

definition checkIfModifiedSince :: "fslib \<Rightarrow> file_request \<Rightarrow> gotime \<Rightarrow> condResult" where
  "checkIfModifiedSince L r modtime =
     (if fr_Method r \<noteq> ''GET'' \<and> fr_Method r \<noteq> ''HEAD'' then condNone
      else
        (let ims = Header_Get (fr_Header r) ''If-Modified-Since'' in
         if ims = [] \<or> isZeroTime modtime then condNone
         else
           (case ParseTime L ims of
              None \<Rightarrow> condNone
            | Some t \<Rightarrow> if truncate_second modtime \<le> t then condFalse else condTrue)))"

definition checkIfRange :: "fslib \<Rightarrow> Header \<Rightarrow> file_request \<Rightarrow> gotime \<Rightarrow> condResult" where
  "checkIfRange L wh r modtime =
     (if fr_Method r \<noteq> ''GET'' \<and> fr_Method r \<noteq> ''HEAD'' then condNone
      else
        (let ir = header_get (fr_Header r) ''If-Range'' in
         if ir = [] then condNone
         else
           (let (etag, _) = scanETag ir in
            if etag \<noteq> [] then (if etagStrongMatch etag (Header_Get wh ''Etag'') then condTrue else condFalse)
            else if modtime = zero_time then condFalse
            else
              (case ParseTime L ir of
                 None \<Rightarrow> condFalse
               | Some t \<Rightarrow> if unix_seconds t = unix_seconds modtime then condTrue else condFalse))))"

text \<open>The result: whether the reply was sent, the range header to honour, and the writer.\<close>

definition checkPreconditions :: "fslib \<Rightarrow> 'w ResponseWriter \<Rightarrow> file_request \<Rightarrow> gotime \<Rightarrow> 'w \<Rightarrow> (bool \<times> string \<times> 'w) go" where
  "checkPreconditions L W r modtime w =
     (let ch0 = checkIfMatch (rw_Header W w) r;
          ch = (if ch0 = condNone then checkIfUnmodifiedSince L r modtime else ch0);
          stop = (\<lambda>x. go_bind x (\<lambda>w1. Ret (True, [], w1)));
          go_on = (let rangeHeader = header_get (fr_Header r) ''Range''
                   in if rangeHeader \<noteq> [] \<and> checkIfRange L (rw_Header W w) r modtime = condFalse
                      then Ret (False, [], w) else Ret (False, rangeHeader, w))
      in if ch = condFalse then stop (rw_WriteHeader W 412 w)
         else
           (case checkIfNoneMatch (rw_Header W w) r of
              condFalse \<Rightarrow>
                if fr_Method r = ''GET'' \<or> fr_Method r = ''HEAD'' then stop (writeNotModified W w)
                else stop (rw_WriteHeader W 412 w)
            | condNone \<Rightarrow>
                if checkIfModifiedSince L r modtime = condFalse then stop (writeNotModified W w) else go_on
            | condTrue \<Rightarrow> go_on))"

subsection \<open>The search in a list of entity tags\<close>

definition rtrim :: "string \<Rightarrow> string" where
  "rtrim s = rev (dropWhile ascii_space (rev s))"

lemma rtrim_split: "\<exists>p. s = rtrim s @ p \<and> list_all ascii_space p"
proof (intro exI conjI)
  have "s = rev (rev s)" by simp
  also have "rev s = takeWhile ascii_space (rev s) @ dropWhile ascii_space (rev s)" by simp
  also have "rev \<dots> = rtrim s @ rev (takeWhile ascii_space (rev s))" by (simp only: rev_append rtrim_def)
  finally show "s = rtrim s @ rev (takeWhile ascii_space (rev s))" .
  show "list_all ascii_space (rev (takeWhile ascii_space (rev s)))" by (auto simp: list_all_iff dest: set_takeWhileD)
qed

lemma trim_rtrim [simp]: "trim_string (rtrim s) = trim_string s"
proof -
  obtain p where "s = [] @ rtrim s @ p" "list_all ascii_space p" using rtrim_split [of s] by auto
  then show ?thesis using trim_pad [of "[]" p "rtrim s"] by simp
qed

text \<open>Text that starts with a visible character \<open>c\<close>: only its end is trimmed.\<close>

lemma trim_visible:
  assumes "\<not> ascii_space c"
  shows "trim_string (c # s) = c # rtrim s"
proof -
  have "dropWhile ascii_space (rev s @ [c]) = dropWhile ascii_space (rev s) @ [c]"
    using assms by (induction "rev s" arbitrary: s) (auto simp: dropWhile_append)
  then show ?thesis using assms by (simp add: trim_string_def rtrim_def)
qed

lemma rtrim_visible:
  assumes "\<not> ascii_space c"
  shows "rtrim (e @ c # s) = e @ c # rtrim s"
proof -
  have "dropWhile ascii_space (rev s @ c # rev e) = dropWhile ascii_space (rev s) @ c # rev e"
    using assms by (simp add: dropWhile_append)
  then show ?thesis by (simp add: rtrim_def)
qed

lemma rtrim_idem [simp]: "rtrim (rtrim s) = rtrim s"
  by (simp add: rtrim_def)

definition valid_etag :: "string \<Rightarrow> bool" where
  "valid_etag e \<longleftrightarrow> (\<exists>p cs. (p = [] \<or> p = ''W/'') \<and> list_all etag_char cs \<and> e = p @ dquote # cs @ [dquote])"

lemma etag_end_valid: "list_all etag_char cs \<Longrightarrow> etag_end (cs @ dquote # t) = Some (length cs)"
  by (induction cs) (auto simp: etag_char_def)

lemma scanETag_valid:
  assumes "valid_etag e"
  shows "scanETag (e @ t) = (e, rtrim t)"
proof -
  obtain p cs where e: "p = [] \<or> p = ''W/''" "list_all etag_char cs" "e = p @ dquote # cs @ [dquote]"
    using assms unfolding valid_etag_def by blast
  have q: "\<not> ascii_space dquote" "\<not> ascii_space (CHR ''W'')" by (simp_all add: ascii_space_def)
  have "trim_string (e @ t) = e @ rtrim t"
    using e(1,3) rtrim_visible [OF q(1), of _ t] trim_visible [OF q(1)] trim_visible [OF q(2)]
      rtrim_visible [OF q(1), of "CHR ''/'' # dquote # cs" t] by auto
  then show ?thesis using e etag_end_valid [OF e(2), of "rtrim t"]
    by (auto simp: scanETag_def has_prefix_def nth_append nth_Cons' Let_def numeral_3_eq_3)
qed

lemma search_trim: "trim_string s = trim_string t \<Longrightarrow> etag_search m s = etag_search m t"
  by (subst (1 2) etag_search.simps) simp

lemma search_rtrim [simp]: "etag_search m (rtrim s) = etag_search m s"
  by (rule search_trim) simp

lemma search_pad: "list_all ascii_space a \<Longrightarrow> etag_search m (a @ s) = etag_search m s"
  using trim_pad [of a "[]" s] by (intro search_trim) simp

lemma search_Nil [simp]: "\<not> etag_search m []"
  by (subst etag_search.simps) simp

lemma search_comma [simp]: "etag_search m (CHR '','' # s) = etag_search m s"
proof -
  have "trim_string (CHR '','' # s) = CHR '','' # rtrim s" by (rule trim_visible) (simp add: ascii_space_def)
  then show ?thesis by (subst etag_search.simps) (simp add: Let_def)
qed

lemma search_star: "etag_search m (CHR ''*'' # s)"
proof -
  have "trim_string (CHR ''*'' # s) = CHR ''*'' # rtrim s" by (rule trim_visible) (simp add: ascii_space_def)
  then show ?thesis by (subst etag_search.simps) (simp add: Let_def)
qed

lemma search_etag:
  assumes "valid_etag e"
  shows "etag_search m (e @ t) \<longleftrightarrow> m e \<or> etag_search m t"
proof -
  obtain c e' where e: "e = c # e'" "c = dquote \<or> c = CHR ''W''" "e \<noteq> []" using assms unfolding valid_etag_def by auto
  then have "trim_string (e @ t) = c # rtrim (e' @ t)" by (auto simp: ascii_space_def intro!: trim_visible)
  moreover have "scanETag (trim_string (e @ t)) = scanETag (e @ t)" by (simp add: scanETag_def)
  ultimately show ?thesis using e scanETag_valid [OF assms, of t] by (subst etag_search.simps) (auto simp: Let_def)
qed

lemma search_list:
  assumes "list_all2 (\<lambda>s e. valid_etag e \<and> (\<exists>a b. s = a @ e @ b \<and> list_all ascii_space a \<and> list_all ascii_space b)) ss es"
  shows "etag_search m (join_byte (CHR '','') ss) \<longleftrightarrow> list_ex m es"
  using assms
proof (induction ss es rule: list_all2_induct)
  case (Cons s ss e es)
  then obtain a b where s: "s = a @ e @ b" "valid_etag e" "list_all ascii_space a" "list_all ascii_space b" by blast
  have "join_byte (CHR '','') (s # ss) = a @ e @ b @ (if ss = [] then [] else CHR '','' # join_byte (CHR '','') ss)"
    using s(1) by (cases ss) simp_all
  then show ?case using Cons.IH s search_pad [of b m "[]"] by (cases "ss = []") (simp_all add: search_pad search_etag)
qed simp

text \<open>The two tests on entity tags walk a header correctly. For a header that lists valid tags, separated by commas and
  any white space (the tags may contain commas), \<open>checkIfMatch\<close> is true exactly when one of them is
  the strong tag of the content, and \<open>checkIfNoneMatch\<close> is false exactly when one of them equals it up to the
  mark for weak tags.\<close>

theorem etag_checks_correct:
  assumes "list_all2 (\<lambda>s e. valid_etag e \<and> (\<exists>a b. s = a @ e @ b \<and> list_all ascii_space a \<and> list_all ascii_space b)) ss es"
    "ss \<noteq> []"
  shows "(Header_Get (fr_Header r) ''If-Match'' = join_byte (CHR '','') ss \<longrightarrow>
      checkIfMatch wh r = (if \<exists>e \<in> set es. e = header_get wh ''Etag'' \<and> hd e = dquote then condTrue else condFalse)) \<and>
    (header_get (fr_Header r) ''If-None-Match'' = join_byte (CHR '','') ss \<longrightarrow>
      checkIfNoneMatch wh r =
        (if \<exists>e \<in> set es. trim_prefix e ''W/'' = trim_prefix (header_get wh ''Etag'') ''W/'' then condFalse else condTrue))"
proof -
  obtain s ss' e es' where c: "ss = s # ss'" "es = e # es'" using assms by (cases ss; cases es) auto
  have ne: "e' \<noteq> []" if mem: "e' \<in> set es" for e'
  proof -
    obtain i where "i < length es" "e' = es ! i" using mem by (metis in_set_conv_nth)
    then have "valid_etag e'" using list_all2_nthD2 [OF assms(1), of i] by auto
    then show ?thesis by (auto simp: valid_etag_def)
  qed
  have "s \<noteq> []" using assms(1) ne [of e] c by auto
  then have join: "join_byte (CHR '','') ss \<noteq> []" using c by (cases ss') auto
  have strong: "list_ex (\<lambda>e. etagStrongMatch e t) es \<longleftrightarrow> (\<exists>e \<in> set es. e = t \<and> hd e = dquote)" for t
    using ne unfolding list_ex_iff etagStrongMatch_def by blast
  have weak: "list_ex (\<lambda>e. etagWeakMatch e t) es \<longleftrightarrow> (\<exists>e \<in> set es. trim_prefix e ''W/'' = trim_prefix t ''W/'')" for t
    unfolding list_ex_iff etagWeakMatch_def by blast
  show ?thesis unfolding checkIfMatch_def checkIfNoneMatch_def
    using join search_list [OF assms(1)] strong weak by simp
qed

definition example_tags :: file_request where
  "example_tags = \<lparr>fr_Method = ''GET'',
     fr_Header = [(''If-None-Match'', [[dquote, CHR ''a'', dquote] @ '', '' @ ''W/'' @ [dquote, CHR ''b'', CHR '','', dquote]])],
     fr_Path = ''/'', fr_RawQuery = []\<rparr>"

theorem etag_checks_correct_witness:
  "checkIfNoneMatch [(''Etag'', [[dquote, CHR ''b'', CHR '','', dquote]])] example_tags = condFalse"
proof -
  let ?a = "[dquote, CHR ''a'', dquote]" and ?b = "''W/'' @ [dquote, CHR ''b'', CHR '','', dquote]"
  have "valid_etag ?a" unfolding valid_etag_def by (rule exI [of _ "[]"], rule exI [of _ "''a''"]) (simp add: etag_char_def)
  moreover have "valid_etag ?b" unfolding valid_etag_def by (rule exI [of _ "''W/''"], rule exI [of _ "''b,''"]) (simp add: etag_char_def)
  moreover have "\<exists>a b. ?a = a @ ?a @ b \<and> list_all ascii_space a \<and> list_all ascii_space b" by (rule exI [of _ "[]"]) simp
  moreover have "\<exists>a b. '' '' @ ?b = a @ ?b @ b \<and> list_all ascii_space a \<and> list_all ascii_space b"
    by (rule exI [of _ "'' ''"], rule exI [of _ "[]"]) (simp add: ascii_space_def)
  ultimately have "list_all2 (\<lambda>s e. valid_etag e \<and> (\<exists>a b. s = a @ e @ b \<and> list_all ascii_space a \<and> list_all ascii_space b))
      [?a, '' '' @ ?b] [?a, ?b]" by simp
  from etag_checks_correct [OF this, of example_tags "[(''Etag'', [[dquote, CHR ''b'', CHR '','', dquote]])]"]
  show ?thesis by (simp add: example_tags_def header_get_def header_values_def trim_prefix_def has_prefix_def)
qed

subsection \<open>The decision of RFC 7232\<close>

datatype verdict = Precondition_Failed | Not_Modified | Proceed string

definition verdict_of :: "fslib \<Rightarrow> Header \<Rightarrow> file_request \<Rightarrow> gotime \<Rightarrow> verdict" where
  "verdict_of L wh r modtime =
     (let getlike = (fr_Method r = ''GET'' \<or> fr_Method r = ''HEAD'');
          unmet = (checkIfMatch wh r = condFalse \<or> checkIfMatch wh r = condNone \<and> checkIfUnmodifiedSince L r modtime = condFalse);
          same = (checkIfNoneMatch wh r = condFalse \<or> checkIfNoneMatch wh r = condNone \<and> checkIfModifiedSince L r modtime = condFalse)
      in if unmet then Precondition_Failed
         else if same then (if getlike then Not_Modified else Precondition_Failed)
         else Proceed (if checkIfRange L wh r modtime = condFalse then [] else header_get (fr_Header r) ''Range''))"

definition not_modified_header :: "Header \<Rightarrow> Header" where
  "not_modified_header h =
     (let h1 = AList.delete ''Content-Encoding'' (AList.delete ''Content-Length'' (AList.delete ''Content-Type'' h))
      in if Header_Get h1 ''Etag'' \<noteq> [] then AList.delete ''Last-Modified'' h1 else h1)"

lemma modified_since_getlike:
  "checkIfModifiedSince L r modtime = condFalse \<Longrightarrow> fr_Method r = ''GET'' \<or> fr_Method r = ''HEAD''"
  by (auto simp: checkIfModifiedSince_def split: if_splits)

lemma checkPreconditions_verdict:
  "checkPreconditions L W r modtime w =
     (case verdict_of L (rw_Header W w) r modtime of
        Precondition_Failed \<Rightarrow> go_bind (rw_WriteHeader W 412 w) (\<lambda>w1. Ret (True, [], w1))
      | Not_Modified \<Rightarrow> go_bind (writeNotModified W w) (\<lambda>w1. Ret (True, [], w1))
      | Proceed rg \<Rightarrow> Ret (False, rg, w))"
  using modified_since_getlike [of L r modtime]
  by (cases "checkIfMatch (rw_Header W w) r"; cases "checkIfNoneMatch (rw_Header W w) r")
    (auto simp: checkPreconditions_def verdict_of_def Let_def)

context response_writer
begin

lemma writeNotModified_replied:
  assumes "fresh w"
  shows "replied (writeNotModified W w) 304 (not_modified_header (rw_Header W w)) []"
proof -
  have "writeNotModified W w = rw_WriteHeader W 304 (rw_change W not_modified_header w)"
    by (simp add: writeNotModified_def rw_change_def not_modified_header_def Let_def)
  then show ?thesis using WriteHeader_replied [of "rw_change W not_modified_header w" 304] assms by (simp add: change)
qed

end

end
