(* ===== verification/Serve_Content.thy ===== *)
theory Serve_Content
  imports Preconditions
begin

section \<open>Serving content (fs.go, serveContent)\<close>

text \<open>
  \<open>serveContent\<close> and \<open>ServeContent\<close> over any response writer. The content is an \<open>io.ReadSeeker\<close>: the bytes that reads
  deliver, the position, and the errors its \<open>Seek\<close> returns. \<open>mime/multipart\<close> draws its boundaries at random,
  so the boundary used to compute the length and the one used to send the parts are arguments. The
  goroutine that feeds the pipe of a reply with several parts is the only user of the content, so the
  pipe is the sequence of bytes it writes before it ends.
\<close>

record content =
  ct_data :: string
  ct_pos :: nat
  ct_seek :: "int \<Rightarrow> string option"
  ct_seekEnd :: "string option"

definition content_Seek :: "int \<Rightarrow> content \<Rightarrow> string option \<times> content" where
  "content_Seek off c = (case ct_seek c off of Some e \<Rightarrow> (Some e, c) | None \<Rightarrow> (None, c\<lparr>ct_pos := nat off\<rparr>))"

text \<open>Reading until \<open>n\<close> bytes are there or the content ends, as \<open>io.ReadFull\<close> and \<open>io.CopyN\<close> do.\<close>

definition content_take :: "nat \<Rightarrow> content \<Rightarrow> string \<times> content" where
  "content_take n c = (let d = take n (drop (ct_pos c) (ct_data c)) in (d, c\<lparr>ct_pos := ct_pos c + length d\<rparr>))"

text \<open>\<open>filepath.Ext\<close>.\<close>

definition filepath_Ext :: "string \<Rightarrow> string" where
  "filepath_Ext name =
     (let r = takeWhile (\<lambda>c. c \<noteq> CHR ''/'') (rev name)
      in if CHR ''.'' \<in> set r then CHR ''.'' # rev (takeWhile (\<lambda>c. c \<noteq> CHR ''.'') r) else [])"

subsection \<open>Replies with several parts\<close>

abbreviation newline :: string where
  "newline \<equiv> [CHR 0x0D, CHR 0x0A]"

definition mimeHeader :: "httpRange \<Rightarrow> string \<Rightarrow> int \<Rightarrow> Header" where
  "mimeHeader r contentType sz = [(''Content-Range'', [contentRange r sz]), (''Content-Type'', [contentType])]"

text \<open>What \<open>multipart.Writer\<close> writes for \<open>CreatePart\<close> and \<open>Close\<close>.\<close>

definition part_start :: "string \<Rightarrow> bool \<Rightarrow> Header \<Rightarrow> string" where
  "part_start boundary isFirst h =
     (if isFirst then [] else newline) @ ''--'' @ boundary @ newline @
     concat (map (\<lambda>(k, vs). concat (map (\<lambda>v. k @ '': '' @ v @ newline) vs)) (sort_key fst h)) @ newline"

definition parts_end :: "string \<Rightarrow> string" where
  "parts_end boundary = newline @ ''--'' @ boundary @ ''--'' @ newline"

definition countingWriter_Write :: "string \<Rightarrow> int \<Rightarrow> int" where
  "countingWriter_Write p w = int64 (w + int (length p))"

fun rangesMIMESize_loop :: "string \<Rightarrow> httpRange list \<Rightarrow> string \<Rightarrow> int \<Rightarrow> bool \<Rightarrow> int \<Rightarrow> int \<Rightarrow> int" where
  "rangesMIMESize_loop boundary [] contentType contentSize isFirst w encSize =
     int64 (encSize + countingWriter_Write (parts_end boundary) w)"
| "rangesMIMESize_loop boundary (ra # ranges) contentType contentSize isFirst w encSize =
     rangesMIMESize_loop boundary ranges contentType contentSize False
       (countingWriter_Write (part_start boundary isFirst (mimeHeader ra contentType contentSize)) w)
       (int64 (encSize + ra_length ra))"

definition rangesMIMESize :: "string \<Rightarrow> httpRange list \<Rightarrow> string \<Rightarrow> int \<Rightarrow> int" where
  "rangesMIMESize boundary ranges contentType contentSize =
     rangesMIMESize_loop boundary ranges contentType contentSize True 0 0"

text \<open>The bytes the goroutine writes to the pipe.\<close>

fun send_parts :: "string \<Rightarrow> httpRange list \<Rightarrow> string \<Rightarrow> int \<Rightarrow> bool \<Rightarrow> content \<Rightarrow> string" where
  "send_parts boundary [] ctype sz isFirst c = parts_end boundary"
| "send_parts boundary (ra # ranges) ctype sz isFirst c =
     part_start boundary isFirst (mimeHeader ra ctype sz) @
     (case content_Seek (ra_start ra) c of
        (Some e, c1) \<Rightarrow> []
      | (None, c1) \<Rightarrow>
          (case content_take (nat (ra_length ra)) c1 of (d, c2) \<Rightarrow>
             d @ (if length d < nat (ra_length ra) then [] else send_parts boundary ranges ctype sz False c2)))"

subsection \<open>The reply\<close>

text \<open>\<open>io.CopyN(w, sendContent, sendSize)\<close> of the bytes the source has.\<close>

function copy_out :: "'w ResponseWriter \<Rightarrow> string \<Rightarrow> 'w \<Rightarrow> 'w" where
  "copy_out W data w =
     (if data = [] then w
      else
        (let b = take 32768 data in
         case rw_Write W b w of (n, err, w1) \<Rightarrow>
           if err \<noteq> None \<or> n \<noteq> length b then w1 else copy_out W (drop 32768 data) w1))"
  by pat_completeness auto
termination by (relation "measure (\<lambda>(W, data, w). length data)") auto

declare copy_out.simps [simp del]

definition content_type :: "fslib \<Rightarrow> 'w ResponseWriter \<Rightarrow> string \<Rightarrow> content \<Rightarrow> 'w \<Rightarrow> 'w go + (string \<times> content \<times> 'w)" where
  "content_type L W name c w =
     (case map_of (rw_Header W w) ''Content-Type'' of
        Some ctypes \<Rightarrow> Inr (case ctypes of [] \<Rightarrow> [] | t # _ \<Rightarrow> t, c, w)
      | None \<Rightarrow>
          (let ctype = fs_TypeByExtension L (filepath_Ext name) in
           if ctype \<noteq> [] then Inr (ctype, c, rw_change W (Header_Set ''Content-Type'' ctype) w)
           else
             (case content_take sniffLen c of (buf, c1) \<Rightarrow>
                (case content_Seek 0 c1 of
                   (Some e, c2) \<Rightarrow> Inl (http_Error W (''seeker can'' @ [CHR 39] @ ''t seek'') 500 w)
                 | (None, c2) \<Rightarrow>
                     (let ctype = DetectContentType buf
                      in Inr (ctype, c2, rw_change W (Header_Set ''Content-Type'' ctype) w))))))"

text \<open>The end of the function, from the header \<open>Accept-Ranges\<close> on.\<close>

definition send_reply :: "'w ResponseWriter \<Rightarrow> file_request \<Rightarrow> bool \<Rightarrow> int \<Rightarrow> int \<Rightarrow> string \<Rightarrow> 'w \<Rightarrow> 'w go" where
  "send_reply W r ranged code sendSize source w =
     (let w1 = rw_change W (Header_Set ''Accept-Ranges'' ''bytes'') w;
          w2 = (if ranged \<or> Header_Get (rw_Header W w1) ''Content-Encoding'' = []
                then rw_change W (Header_Set ''Content-Length'' (fmt_int sendSize)) w1 else w1)
      in go_bind (rw_WriteHeader W code w2)
           (\<lambda>w3. Ret (if fr_Method r \<noteq> ''HEAD'' then copy_out W (take (nat sendSize) source) w3 else w3)))"

definition send_ranges ::
  "string \<Rightarrow> string \<Rightarrow> 'w ResponseWriter \<Rightarrow> file_request \<Rightarrow> httpRange list \<Rightarrow> string \<Rightarrow> int \<Rightarrow> content \<Rightarrow> 'w \<Rightarrow> 'w go" where
  "send_ranges bsize bsend W r ranges0 ctype sz c w =
     (let ranges = (if sumRangesSize ranges0 > sz then [] else ranges0) in
      if length ranges = 1 then
        (let ra = ranges ! 0 in
         case content_Seek (ra_start ra) c of
           (Some e, c1) \<Rightarrow> http_Error W e 416 w
         | (None, c1) \<Rightarrow>
             send_reply W r True 206 (ra_length ra) (drop (ct_pos c1) (ct_data c1))
               (rw_change W (Header_Set ''Content-Range'' (contentRange ra sz)) w))
      else if length ranges > 1 then
        send_reply W r True 206 (rangesMIMESize bsize ranges ctype sz) (send_parts bsend ranges ctype sz True c)
          (rw_change W (Header_Set ''Content-Type'' (''multipart/byteranges; boundary='' @ bsend)) w)
      else send_reply W r False 200 sz (drop (ct_pos c) (ct_data c)) w)"

definition serveContent ::
  "fslib \<Rightarrow> string \<Rightarrow> string \<Rightarrow> 'w ResponseWriter \<Rightarrow> file_request \<Rightarrow> string \<Rightarrow> gotime \<Rightarrow>
   (content \<Rightarrow> (string + int) \<times> content) \<Rightarrow> content \<Rightarrow> 'w \<Rightarrow> 'w go" where
  "serveContent L bsize bsend W r name modtime sizeFunc c w =
     go_bind (checkPreconditions L W r modtime (setLastModified L W modtime w)) (\<lambda>(done, rangeReq, w1).
       if done then Ret w1
       else
         (case content_type L W name c w1 of
            Inl reply \<Rightarrow> reply
          | Inr (ctype, c1, w2) \<Rightarrow>
              (case sizeFunc c1 of
                 (Inl e, c2) \<Rightarrow> http_Error W e 500 w2
               | (Inr sz, c2) \<Rightarrow>
                   if sz < 0 then http_Error W ''negative content size computed'' 500 w2
                   else
                     (case parseRange rangeReq sz of
                        Inr ranges \<Rightarrow> send_ranges bsize bsend W r ranges ctype sz c2 w2
                      | Inl ErrNoOverlap \<Rightarrow>
                          if sz = 0 then send_ranges bsize bsend W r [] ctype sz c2 w2
                          else
                            http_Error W (range_error_text ErrNoOverlap) 416
                              (rw_change W (Header_Set ''Content-Range'' (''bytes */'' @ fmt_int sz)) w2)
                      | Inl e \<Rightarrow> http_Error W (range_error_text e) 416 w2))))"

definition content_size :: "content \<Rightarrow> (string + int) \<times> content" where
  "content_size c =
     (case ct_seekEnd c of
        Some e \<Rightarrow> (Inl (''seeker can'' @ [CHR 39] @ ''t seek''), c)
      | None \<Rightarrow>
          (case content_Seek 0 (c\<lparr>ct_pos := length (ct_data c)\<rparr>) of
             (Some e, c1) \<Rightarrow> (Inl (''seeker can'' @ [CHR 39] @ ''t seek''), c1)
           | (None, c1) \<Rightarrow> (Inr (int (length (ct_data c))), c1)))"

definition ServeContent ::
  "fslib \<Rightarrow> string \<Rightarrow> string \<Rightarrow> 'w ResponseWriter \<Rightarrow> file_request \<Rightarrow> string \<Rightarrow> gotime \<Rightarrow> content \<Rightarrow> 'w \<Rightarrow> 'w go" where
  "ServeContent L bsize bsend W r name modtime c w = serveContent L bsize bsend W r name modtime content_size c w"

subsection \<open>Header fields that are set\<close>

lemma CanonicalHeaderKey_fields:
  "CanonicalHeaderKey ''Content-Length'' = ''Content-Length''" "CanonicalHeaderKey ''Content-Range'' = ''Content-Range''"
  "CanonicalHeaderKey ''Content-Type'' = ''Content-Type''" "CanonicalHeaderKey ''Accept-Ranges'' = ''Accept-Ranges''"
  "CanonicalHeaderKey ''Content-Encoding'' = ''Content-Encoding''" "CanonicalHeaderKey ''Last-Modified'' = ''Last-Modified''"
  "CanonicalHeaderKey ''Etag'' = ''Etag''" "CanonicalHeaderKey ''Location'' = ''Location''"
  by code_simp+

lemma map_of_Header_Set: "map_of (Header_Set k v h) k' = (if k' = CanonicalHeaderKey k then Some [v] else map_of h k')"
  by (simp add: Header_Set_def update_conv')

lemma header_get_Set: "header_get (Header_Set k v h) k' = (if k' = CanonicalHeaderKey k then v else header_get h k')"
  by (simp add: header_get_def header_values_def map_of_Header_Set)

lemma Header_Get_Set:
  "Header_Get (Header_Set k v h) k' = (if CanonicalHeaderKey k' = CanonicalHeaderKey k then v else Header_Get h k')"
  by (simp add: Header_Get_def header_get_Set)

lemmas field_simps = map_of_Header_Set header_get_Set Header_Get_Set CanonicalHeaderKey_fields

subsection \<open>The parts\<close>

definition range_bytes :: "string \<Rightarrow> httpRange \<Rightarrow> string" where
  "range_bytes data r = take (nat (ra_length r)) (drop (nat (ra_start r)) data)"

fun parts_body :: "string \<Rightarrow> string \<Rightarrow> string \<Rightarrow> bool \<Rightarrow> httpRange list \<Rightarrow> string" where
  "parts_body boundary data ctype isFirst [] = parts_end boundary"
| "parts_body boundary data ctype isFirst (ra # ranges) =
     part_start boundary isFirst (mimeHeader ra ctype (int (length data))) @ range_bytes data ra @
     parts_body boundary data ctype False ranges"

lemma range_bytes_length: "range_ok (int (length data)) r \<Longrightarrow> int (length (range_bytes data r)) = ra_length r"
  by (auto simp: range_bytes_def range_ok_def min_def)

definition seekable :: "content \<Rightarrow> bool" where
  "seekable c \<longleftrightarrow> (\<forall>off. 0 \<le> off \<longrightarrow> off \<le> int (length (ct_data c)) \<longrightarrow> ct_seek c off = None)"

lemma send_parts_eq:
  assumes "seekable c" "list_all (range_ok (int (length (ct_data c)))) ranges"
  shows "send_parts boundary ranges ctype (int (length (ct_data c))) isFirst c = parts_body boundary (ct_data c) ctype isFirst ranges"
  using assms
proof (induction ranges arbitrary: c isFirst)
  case (Cons ra ranges)
  let ?c = "c\<lparr>ct_pos := nat (ra_start ra)\<rparr>"
  have ok: "range_ok (int (length (ct_data c))) ra" using Cons.prems by simp
  have seek: "content_Seek (ra_start ra) c = (None, ?c)"
    using Cons.prems(1) ok by (simp add: content_Seek_def seekable_def range_ok_def)
  have len: "\<not> length (range_bytes (ct_data c) ra) < nat (ra_length ra)" using range_bytes_length [OF ok] by linarith
  let ?c2 = "c\<lparr>ct_pos := nat (ra_start ra) + length (range_bytes (ct_data c) ra)\<rparr>"
  have tk: "content_take (nat (ra_length ra)) ?c = (range_bytes (ct_data c) ra, ?c2)"
    by (simp add: content_take_def range_bytes_def Let_def)
  have "seekable ?c2" using Cons.prems(1) by (simp add: seekable_def)
  from Cons.IH [OF this, of False] show ?case using Cons.prems(2) seek tk len by simp
qed simp

lemma part_start_length: "length b = length b' \<Longrightarrow> length (part_start b f h) = length (part_start b' f h)"
  by (simp add: part_start_def)

lemma parts_body_length: "length b = length b' \<Longrightarrow> length (parts_body b data ctype f rs) = length (parts_body b' data ctype f rs)"
  by (induction rs arbitrary: f) (simp_all add: parts_end_def part_start_length [of b b'])

lemma sum_lengths_nonneg: "list_all (range_ok sz) rs \<Longrightarrow> 0 \<le> sum_list (map ra_length rs)"
  by (intro sum_list_nonneg) (auto simp: list_all_iff range_ok_def)

lemma parts_body_bound: "list_all (range_ok (int (length data))) rs \<Longrightarrow> sum_list (map ra_length rs) \<le> int (length (parts_body b data ctype f rs))"
proof (induction rs arbitrary: f)
  case (Cons r rs)
  have "sum_list (map ra_length rs) \<le> int (length (parts_body b data ctype False rs))" using Cons by simp
  moreover have "int (length (range_bytes data r)) = ra_length r" using Cons.prems range_bytes_length by simp
  ultimately show ?case unfolding parts_body.simps length_append list.map sum_list.Cons by linarith
qed simp

lemma rangesMIMESize_loop_eq:
  assumes "list_all (range_ok (int (length data))) rs" "0 \<le> w" "0 \<le> enc"
    "w + enc + int (length (parts_body b data ctype f rs)) < 2 ^ 63"
  shows "rangesMIMESize_loop b rs ctype (int (length data)) f w enc = w + enc + int (length (parts_body b data ctype f rs))"
  using assms
proof (induction rs arbitrary: f w enc)
  case Nil
  then show ?case by (simp add: countingWriter_Write_def int64_id)
next
  case (Cons r rs)
  let ?p = "part_start b f (mimeHeader r ctype (int (length data)))"
  have r: "range_ok (int (length data)) r" "0 \<le> ra_length r" using Cons.prems by (simp_all add: range_ok_def)
  have sl: "int (length (range_bytes data r)) = ra_length r" by (rule range_bytes_length [OF r(1)])
  have total: "w + enc + (int (length ?p) + ra_length r + int (length (parts_body b data ctype False rs))) < 2 ^ 63"
    using Cons.prems(4) sl by simp
  have 1: "countingWriter_Write ?p w = w + int (length ?p)" "int64 (enc + ra_length r) = enc + ra_length r"
    unfolding countingWriter_Write_def using Cons.prems(2,3) r(2) total by (auto intro!: int64_id)
  show ?case using Cons.IH [of "w + int (length ?p)" "enc + ra_length r" False] Cons.prems(1,2,3) r(2) total sl 1 by simp
qed

lemma rangesMIMESize_eq:
  assumes "list_all (range_ok (int (length data))) rs" "int (length (parts_body b data ctype True rs)) < 2 ^ 63" "length b = length b'"
  shows "rangesMIMESize b' rs ctype (int (length data)) = int (length (parts_body b data ctype True rs))"
  using rangesMIMESize_loop_eq [OF assms(1), of 0 0 b' ctype True] assms(2) parts_body_length [OF assms(3), of data ctype True rs]
  by (simp add: rangesMIMESize_def)

subsection \<open>What is sent\<close>

text \<open>Status and body of the reply to a request whose preconditions hold, by the range header.\<close>

definition range_reply :: "string \<Rightarrow> string \<Rightarrow> string \<Rightarrow> string \<Rightarrow> int \<times> string" where
  "range_reply boundary ctype rg data =
     (case parseRange rg (int (length data)) of
        Inr rs \<Rightarrow>
          if rs = [] \<or> sum_list (map ra_length rs) > int (length data) then (200, data)
          else if length rs = 1 then (206, range_bytes data (rs ! 0))
          else (206, parts_body boundary data ctype True rs)
      | Inl e \<Rightarrow>
          if e = ErrNoOverlap \<and> data = [] then (200, data) else (416, range_error_text e @ [CHR 0x0A]))"

definition last_modified_header :: "fslib \<Rightarrow> gotime \<Rightarrow> Header \<Rightarrow> Header" where
  "last_modified_header L modtime h =
     (if isZeroTime modtime then h else Header_Set ''Last-Modified'' (fs_timeFormat L modtime) h)"

definition served_type :: "fslib \<Rightarrow> string \<Rightarrow> Header \<Rightarrow> string \<Rightarrow> string" where
  "served_type L name h data =
     (case map_of h ''Content-Type'' of
        Some ts \<Rightarrow> (case ts of [] \<Rightarrow> [] | t # _ \<Rightarrow> t)
      | None \<Rightarrow> if fs_TypeByExtension L (filepath_Ext name) \<noteq> [] then fs_TypeByExtension L (filepath_Ext name) else DetectContentType (take sniffLen data))"

definition typed_header :: "fslib \<Rightarrow> string \<Rightarrow> Header \<Rightarrow> string \<Rightarrow> Header" where
  "typed_header L name h data =
     (if header_has h ''Content-Type'' then h else Header_Set ''Content-Type'' (served_type L name h data) h)"

text \<open>A content at its start that can be read and positioned without errors.\<close>

definition good_content :: "content \<Rightarrow> bool" where
  "good_content c \<longleftrightarrow> seekable c \<and> ct_pos c = 0 \<and> int (length (ct_data c)) < 2 ^ 63"

lemma content_type_eq:
  assumes "good_content c"
  shows "content_type L W name c w =
    Inr (served_type L name (rw_Header W w) (ct_data c), c,
      if header_has (rw_Header W w) ''Content-Type'' then w
      else rw_change W (Header_Set ''Content-Type'' (served_type L name (rw_Header W w) (ct_data c))) w)"
proof -
  have "ct_seek c 0 = None" "ct_pos c = 0" using assms by (simp_all add: good_content_def seekable_def)
  moreover have "c\<lparr>ct_pos := 0\<rparr> = c" using calculation(2) by (cases c) simp
  ultimately show ?thesis
    by (auto simp: content_type_def served_type_def header_has_def content_take_def content_Seek_def Let_def split: option.splits)
qed

definition reply_header :: "bool \<Rightarrow> int \<Rightarrow> Header \<Rightarrow> Header" where
  "reply_header ranged n h =
     (let h1 = Header_Set ''Accept-Ranges'' ''bytes'' h
      in if ranged \<or> Header_Get h1 ''Content-Encoding'' = [] then Header_Set ''Content-Length'' (fmt_int n) h1 else h1)"

context response_writer
begin

lemma copy_out_live:
  assumes "live w"
  shows "live (copy_out W data w) \<and> status (copy_out W data w) = status w \<and> sent (copy_out W data w) = sent w \<and>
    body (copy_out W data w) = body w @ data"
  using assms
proof (induction "length data" arbitrary: data w rule: less_induct)
  case less
  show ?case
  proof (cases "data = []")
    case True
    then show ?thesis using less.prems by (subst (1 2 3 4) copy_out.simps) simp
  next
    case False
    let ?b = "take 32768 data"
    obtain w' where w': "rw_Write W ?b w = (length ?b, None, w')" "live w'" "status w' = status w" "sent w' = sent w" "body w' = body w @ ?b"
      using write_live [OF less.prems, of ?b] by blast
    have "copy_out W data w = copy_out W (drop 32768 data) w'" using False w'(1) by (subst copy_out.simps) (simp add: Let_def)
    moreover have "?b @ drop 32768 data = data" by simp
    ultimately show ?thesis using less.hyps [of "drop 32768 data" w'] w' False by simp
  qed
qed

lemma send_reply_replied:
  assumes "fresh w" "200 \<le> code" "code \<le> 999"
  shows "replied (send_reply W r ranged code n source w) code (reply_header ranged n (rw_Header W w))
    (if fr_Method r \<noteq> ''HEAD'' then take (nat n) source else [])"
proof -
  let ?w1 = "rw_change W (Header_Set ''Accept-Ranges'' ''bytes'') w"
  define w2 where "w2 = (if ranged \<or> Header_Get (rw_Header W ?w1) ''Content-Encoding'' = []
                then rw_change W (Header_Set ''Content-Length'' (fmt_int n)) ?w1 else ?w1)"
  have f: "fresh w2" "rw_Header W w2 = reply_header ranged n (rw_Header W w)"
    using assms(1) by (auto simp: w2_def change reply_header_def Let_def)
  obtain w3 where w3: "rw_WriteHeader W code w2 = Ret w3" "live w3" "status w3 = code" "sent w3 = rw_Header W w2" "body w3 = []"
    using write_header [OF f(1) assms(2,3)] by blast
  have "send_reply W r ranged code n source w = Ret (if fr_Method r \<noteq> ''HEAD'' then copy_out W (take (nat n) source) w3 else w3)"
    using w3(1) by (simp add: send_reply_def w2_def [symmetric] Let_def)
  then show ?thesis unfolding replied_def using w3 f(2) copy_out_live [OF w3(2), of "take (nat n) source"] by auto
qed

end

lemma sum_check:
  assumes "list_all (range_ok sz) rs" "1 < length rs \<longrightarrow> sum_list (map ra_length rs) < 2 ^ 63" "sz < 2 ^ 63"
  shows "sumRangesSize rs = sum_list (map ra_length rs)"
proof (rule sumRangesSize_eq)
  show "list_all (\<lambda>r. 0 \<le> ra_length r) rs" using assms(1) by (auto simp: list_all_iff range_ok_def)
  consider "rs = []" | r where "rs = [r]" | "1 < length rs" by (cases rs rule: remdups_adj.cases) auto
  then show "sum_list (map ra_length rs) < 2 ^ 63" using assms by cases (auto simp: range_ok_def)
qed

text \<open>What is claimed of a reply to \<open>r\<close>: its status and body are \<open>R\<close>, and the announced length is that of the body.\<close>

definition reply_ok :: "file_request \<Rightarrow> Header \<Rightarrow> int \<times> string \<Rightarrow> string \<Rightarrow> Header \<Rightarrow> string \<Rightarrow> bool" where
  "reply_ok r h0 R rg h b \<longleftrightarrow>
     b = (if fr_Method r = ''HEAD'' \<and> fst R \<noteq> 416 then [] else snd R) \<and>
     (fst R = 206 \<or> fst R = 200 \<and> Header_Get h0 ''Content-Encoding'' = [] \<longrightarrow>
        header_get h ''Content-Length'' = fmt_nat (length (snd R)))"

lemma fmt_int_of_nat [simp]: "fmt_int (int n) = fmt_nat n"
  by (simp add: fmt_int_def)

lemma reply_header_length:
  "ranged \<or> Header_Get h ''Content-Encoding'' = [] \<Longrightarrow> header_get (reply_header ranged n h) ''Content-Length'' = fmt_int n"
  by (simp add: reply_header_def Let_def field_simps)

lemma reply_header_other:
  "k \<noteq> ''Content-Length'' \<Longrightarrow> k \<noteq> ''Accept-Ranges'' \<Longrightarrow> header_get (reply_header ranged n h) k = header_get h k"
  by (simp add: reply_header_def Let_def field_simps)

lemma typed_header_get:
  "CanonicalHeaderKey k \<noteq> ''Content-Type'' \<Longrightarrow> Header_Get (typed_header L name h data) k = Header_Get h k"
  by (simp add: typed_header_def field_simps)

context response_writer
begin

lemma setLastModified_fresh:
  assumes "fresh w"
  shows "fresh (setLastModified L W modtime w)"
    "rw_Header W (setLastModified L W modtime w) = last_modified_header L modtime (rw_Header W w)"
  using assms by (simp_all add: setLastModified_def last_modified_header_def change)

lemma send_ranges_replied:
  assumes w: "fresh w" and c: "good_content c" and b: "length bsize = length bsend"
    and rs: "parseRange rg (int (length (ct_data c))) = Inr rs \<or> rs = [] \<and> ct_data c = [] \<and> parseRange rg (int (length (ct_data c))) = Inl ErrNoOverlap"
    and fits: "1 < length rs \<longrightarrow> int (length (parts_body bsend (ct_data c) ctype True rs)) < 2 ^ 63"
  shows "\<exists>h b. replied (send_ranges bsize bsend W r rs ctype (int (length (ct_data c))) c w) (fst (range_reply bsend ctype rg (ct_data c))) h b \<and>
    reply_ok r (rw_Header W w) (range_reply bsend ctype rg (ct_data c)) rg h b \<and>
    (\<forall>ra. rs = [ra] \<longrightarrow> header_get h ''Content-Range'' = contentRange ra (int (length (ct_data c))))"
proof -
  let ?d = "ct_data c" and ?sz = "int (length (ct_data c))"
  have sk: "seekable c" "ct_pos c = 0" "?sz < 2 ^ 63" using c by (auto simp: good_content_def)
  have ok: "list_all (range_ok ?sz) rs" using rs parseRange_ok [of ?sz rg rs] by auto
  have sum: "sumRangesSize rs = sum_list (map ra_length rs)"
    using sum_check [OF ok _ sk(3)] fits parts_body_bound [OF ok, of bsend ctype True] by linarith
  consider (whole) "rs = [] \<or> sum_list (map ra_length rs) > ?sz" | (one) ra where "rs = [ra]" "ra_length ra \<le> ?sz"
    | (many) "1 < length rs" "sum_list (map ra_length rs) \<le> ?sz"
    by (cases rs rule: remdups_adj.cases; cases "sum_list (map ra_length rs) > ?sz") auto
  then show ?thesis
  proof cases
    case whole
    have "send_ranges bsize bsend W r rs ctype ?sz c w = send_reply W r False 200 ?sz ?d w"
      using whole sk(2) sum by (auto simp: send_ranges_def Let_def)
    moreover have "range_reply bsend ctype rg ?d = (200, ?d)" using rs whole by (auto simp: range_reply_def)
    moreover have "rs \<noteq> [ra]" for ra using whole ok by (auto simp: range_ok_def)
    ultimately show ?thesis
      using send_reply_replied [OF w, of 200 r False ?sz ?d] by (auto simp: reply_ok_def reply_header_length)
  next
    case (one ra)
    let ?w = "rw_change W (Header_Set ''Content-Range'' (contentRange ra ?sz)) w"
    have r: "range_ok ?sz ra" using ok one by simp
    have "ct_seek c (ra_start ra) = None" using sk(1) r by (auto simp: seekable_def range_ok_def)
    then have "send_ranges bsize bsend W r rs ctype ?sz c w = send_reply W r True 206 (ra_length ra) (drop (nat (ra_start ra)) ?d) ?w"
      using one sum by (simp add: send_ranges_def content_Seek_def Let_def)
    moreover have "range_reply bsend ctype rg ?d = (206, range_bytes ?d ra)" using rs one by (auto simp: range_reply_def)
    moreover have "fmt_int (ra_length ra) = fmt_nat (length (range_bytes ?d ra))"
      using range_bytes_length [OF r] by (metis fmt_int_of_nat)
    ultimately show ?thesis
      using send_reply_replied [of ?w 206 r True "ra_length ra" "drop (nat (ra_start ra)) ?d"] w one
      by (auto simp: reply_ok_def reply_header_length reply_header_other change range_bytes_def [symmetric] field_simps)
  next
    case many
    let ?w = "rw_change W (Header_Set ''Content-Type'' (''multipart/byteranges; boundary='' @ bsend)) w"
    let ?p = "parts_body bsend ?d ctype True rs"
    have n: "rangesMIMESize bsize rs ctype ?sz = int (length ?p)"
      using many fits ok b by (intro rangesMIMESize_eq) auto
    have "send_ranges bsize bsend W r rs ctype ?sz c w = send_reply W r True 206 (int (length ?p)) ?p ?w"
      using many by (simp add: send_ranges_def sum n send_parts_eq [OF sk(1) ok] Let_def)
    moreover have "range_reply bsend ctype rg ?d = (206, ?p)" using rs many by (auto simp: range_reply_def)
    ultimately show ?thesis
      using send_reply_replied [of ?w 206 r True "int (length ?p)" ?p] w many
      by (auto simp: reply_ok_def reply_header_length change)
  qed
qed

end

context response_writer
begin

lemma serveContent_replied:
  assumes w: "fresh w" and c: "good_content c" and sz: "sizeFunc c = (Inr (int (length (ct_data c))), c)"
    and b: "length bsize = length bsend"
    and v: "verdict_of L (last_modified_header L modtime (rw_Header W w)) r modtime = Proceed rg"
    and ctype: "ctype = served_type L name (rw_Header W w) (ct_data c)"
    and fits: "\<And>rs. parseRange rg (int (length (ct_data c))) = Inr rs \<Longrightarrow> 1 < length rs \<Longrightarrow> int (length (parts_body bsend (ct_data c) ctype True rs)) < 2 ^ 63"
  shows "\<exists>h b. replied (serveContent L bsize bsend W r name modtime sizeFunc c w) (fst (range_reply bsend ctype rg (ct_data c))) h b \<and>
    reply_ok r (rw_Header W w) (range_reply bsend ctype rg (ct_data c)) rg h b \<and>
    (\<forall>ra. parseRange rg (int (length (ct_data c))) = Inr [ra] \<longrightarrow> header_get h ''Content-Range'' = contentRange ra (int (length (ct_data c))))"
proof -
  let ?d = "ct_data c" and ?sz = "int (length (ct_data c))"
  define w1 where "w1 = setLastModified L W modtime w"
  define w2 where "w2 = (if header_has (rw_Header W w1) ''Content-Type'' then w1 else rw_change W (Header_Set ''Content-Type'' ctype) w1)"
  have w1: "fresh w1" "rw_Header W w1 = last_modified_header L modtime (rw_Header W w)"
    using setLastModified_fresh [OF w] by (simp_all add: w1_def)
  have t: "served_type L name (rw_Header W w1) ?d = ctype"
    by (simp add: w1(2) ctype served_type_def last_modified_header_def field_simps)
  have w2: "fresh w2" "Header_Get (rw_Header W w2) ''Content-Encoding'' = Header_Get (rw_Header W w) ''Content-Encoding''"
    using w1 by (simp_all add: w2_def change last_modified_header_def field_simps)
  have pre: "checkPreconditions L W r modtime w1 = Ret (False, rg, w1)" using v by (simp add: checkPreconditions_verdict w1(2))
  have type: "content_type L W name c w1 = Inr (ctype, c, w2)"
    using content_type_eq [OF c, of L W name w1] by (simp add: t w2_def)
  have ok: "reply_ok r (rw_Header W w2) R rg h b = reply_ok r (rw_Header W w) R rg h b" for R h b
    by (simp add: reply_ok_def w2(2))
  have run: "serveContent L bsize bsend W r name modtime sizeFunc c w =
      (case parseRange rg ?sz of
         Inr ranges \<Rightarrow> send_ranges bsize bsend W r ranges ctype ?sz c w2
       | Inl ErrNoOverlap \<Rightarrow>
           if ?sz = 0 then send_ranges bsize bsend W r [] ctype ?sz c w2
           else http_Error W (range_error_text ErrNoOverlap) 416 (rw_change W (Header_Set ''Content-Range'' (''bytes */'' @ fmt_int ?sz)) w2)
       | Inl e \<Rightarrow> http_Error W (range_error_text e) 416 w2)"
    by (simp add: serveContent_def w1_def [symmetric] pre type sz)
  show ?thesis
  proof (cases "parseRange rg ?sz")
    case (Inr rs)
    then show ?thesis using send_ranges_replied [OF w2(1) c b, of rg rs ctype r] fits [OF Inr] unfolding run ok by auto
  next
    case (Inl e)
    show ?thesis
    proof (cases "e = ErrNoOverlap \<and> ?d = []")
      case True
      then show ?thesis using send_ranges_replied [OF w2(1) c b, of rg "[]" ctype r] Inl unfolding run ok by auto
    next
      case False
      then have R: "range_reply bsend ctype rg ?d = (416, range_error_text e @ [CHR 0x0A])" using Inl by (auto simp: range_reply_def)
      obtain w' where "serveContent L bsize bsend W r name modtime sizeFunc c w = http_Error W (range_error_text e) 416 w'" "fresh w'"
        using w2(1) change_fresh [OF w2(1)] Inl False unfolding run by (cases e) auto
      then obtain h where "replied (serveContent L bsize bsend W r name modtime sizeFunc c w) 416 h (range_error_text e @ [CHR 0x0A])"
        using Error_replied [of w' 416 "range_error_text e"] by auto
      then show ?thesis using Inl R by (auto simp: reply_ok_def)
    qed
  qed
qed

end

definition file_content :: "string \<Rightarrow> content" where
  "file_content data = \<lparr>ct_data = data, ct_pos = 0, ct_seek = (\<lambda>off. if off < 0 then Some ''negative position'' else None), ct_seekEnd = None\<rparr>"

lemma file_content_good: "int (length data) < 2 ^ 63 \<Longrightarrow> good_content (file_content data)"
  by (simp add: good_content_def seekable_def file_content_def)

lemma file_content_size: "content_size (file_content data) = (Inr (int (length data)), file_content data)"
  by (simp add: content_size_def file_content_def content_Seek_def)

lemma ServeContent_recorder:
  assumes "int (length data) < 2 ^ 63" "length bsize = length bsend"
    "verdict_of L (last_modified_header L modtime H) r modtime = Proceed rg" "ctype = served_type L name H data"
    "\<And>rs. parseRange rg (int (length data)) = Inr rs \<Longrightarrow> 1 < length rs \<Longrightarrow> int (length (parts_body bsend data ctype True rs)) < 2 ^ 63"
  shows "\<exists>w. ServeContent L bsize bsend recorder r name modtime (file_content data) (NewRecorder\<lparr>rec_HeaderMap := H\<rparr>) = Ret w \<and>
    rec_live w \<and> rec_Code w = fst (range_reply bsend ctype rg data) \<and>
    reply_ok r H (range_reply bsend ctype rg data) rg (the (rec_snapHeader w)) (the (rec_Body w)) \<and>
    (\<forall>ra. parseRange rg (int (length data)) = Inr [ra] \<longrightarrow> header_get (the (rec_snapHeader w)) ''Content-Range'' = contentRange ra (int (length data)))"
proof -
  let ?w = "NewRecorder\<lparr>rec_HeaderMap := H\<rparr>"
  have w: "rec_fresh ?w" "rw_Header recorder ?w = H" by (simp_all add: rec_fresh_def NewRecorder_def recorder_def)
  have c: "ct_data (file_content data) = data" by (simp add: file_content_def)
  from rec.serveContent_replied [OF w(1) file_content_good [OF assms(1)], of content_size bsize bsend L modtime r rg ctype name]
  show ?thesis using assms file_content_size [of data] w(2) c unfolding rec.replied_def ServeContent_def by fastforce
qed

text \<open>C23: A reply of \<open>ServeContent\<close> is exact. For a request whose preconditions hold, the handler neither fails nor panics;
  it sends the whole content with status 200, or with status 206 the bytes of the one range asked for
  and its \<open>Content-Range\<close>, or all the ranges in the multipart format, or status 416; a \<open>HEAD\<close> request gets no
  body; and the announced \<open>Content-Length\<close>, computed with another random boundary than the one sent, is the
  length of that body.\<close>

theorem ServeContent_exact:
  assumes "int (length data) < 2 ^ 63" "length bsize = length bsend"
    "verdict_of L (last_modified_header L modtime H) r modtime = Proceed rg" "ctype = served_type L name H data"
    "\<forall>rs. parseRange rg (int (length data)) = Inr rs \<and> 1 < length rs \<longrightarrow> int (length (parts_body bsend data ctype True rs)) < 2 ^ 63"
  shows "\<exists>w code body. ServeContent L bsize bsend recorder r name modtime (file_content data) (NewRecorder\<lparr>rec_HeaderMap := H\<rparr>) = Ret w \<and>
    (code, body) = range_reply bsend ctype rg data \<and>
    rec_Code w = code \<and>
    rec_Body w = Some (if fr_Method r = ''HEAD'' \<and> code \<noteq> 416 then [] else body) \<and>
    (code = 206 \<or> code = 200 \<and> Header_Get H ''Content-Encoding'' = [] \<longrightarrow>
       header_get (the (rec_snapHeader w)) ''Content-Length'' = fmt_nat (length body)) \<and>
    (\<forall>ra. parseRange rg (int (length data)) = Inr [ra] \<longrightarrow>
       code = 206 \<and> body = range_bytes data ra \<and> range_ok (int (length data)) ra \<and>
       header_get (the (rec_snapHeader w)) ''Content-Range'' = contentRange ra (int (length data)))"
proof -
  obtain code body where R: "(code, body) = range_reply bsend ctype rg data" by (metis surj_pair)
  obtain w where w: "ServeContent L bsize bsend recorder r name modtime (file_content data) (NewRecorder\<lparr>rec_HeaderMap := H\<rparr>) = Ret w"
    "rec_live w" "rec_Code w = code" "reply_ok r H (code, body) rg (the (rec_snapHeader w)) (the (rec_Body w))"
    "\<forall>ra. parseRange rg (int (length data)) = Inr [ra] \<longrightarrow> header_get (the (rec_snapHeader w)) ''Content-Range'' = contentRange ra (int (length data))"
    using ServeContent_recorder [OF assms(1-4)] assms(5) unfolding R [symmetric] fst_conv by blast
  have "code = 206 \<and> body = range_bytes data ra \<and> range_ok (int (length data)) ra" if "parseRange rg (int (length data)) = Inr [ra]" for ra
    using that R parseRange_ok [OF _ that] by (auto simp: range_reply_def range_ok_def)
  moreover have "rec_Body w = Some (if fr_Method r = ''HEAD'' \<and> code \<noteq> 416 then [] else body)"
    using w(2,4) by (auto simp: rec_live_def reply_ok_def)
  moreover have "code = 206 \<or> code = 200 \<and> Header_Get H ''Content-Encoding'' = [] \<longrightarrow>
       header_get (the (rec_snapHeader w)) ''Content-Length'' = fmt_nat (length body)"
    using w(4) by (simp add: reply_ok_def)
  ultimately show ?thesis using w(1,3,5) R by blast
qed

subsection \<open>Resuming a download\<close>

lemma parseRange_Nil [simp]: "parseRange [] sz = Inr []"
  by (simp add: parseRange_def)

lemma parseRange_from:
  assumes "int k < sz" "sz < 2 ^ 63"
  shows "parseRange (''bytes='' @ fmt_nat k @ ''-'') sz = Inr [\<lparr>ra_start = int k, ra_length = sz - int k\<rparr>]"
proof -
  have "int k < int (2 ^ 63)" using assms by simp
  then have k: "k < 2 ^ 63" by (simp only: of_nat_less_iff)
  have "split_byte (CHR '','') (fmt_nat k @ ''-'') = [fmt_nat k @ ''-'']"
    by (rule split_byte_no_sep_id) (simp add: digits_no_comma)
  moreover have "trim_string (fmt_nat k @ ''-'') = fmt_nat k @ ''-''"
    by (rule trim_plain) (use digits_plain [of k] in \<open>simp add: ascii_space_def\<close>)
  ultimately show ?thesis using assms k
    by (simp add: parseRange_def has_prefix_def parse_one_range_def range_digits Let_def)
qed

definition resume_request :: "nat \<Rightarrow> string \<Rightarrow> file_request" where
  "resume_request k tag = \<lparr>fr_Method = ''GET'',
     fr_Header = [(''Range'', [''bytes='' @ fmt_nat k @ ''-'']), (''If-Range'', [tag])], fr_Path = ''/'', fr_RawQuery = []\<rparr>"

lemma CanonicalHeaderKey_conditions:
  "CanonicalHeaderKey ''If-Match'' = ''If-Match''" "CanonicalHeaderKey ''If-Unmodified-Since'' = ''If-Unmodified-Since''"
  "CanonicalHeaderKey ''If-Modified-Since'' = ''If-Modified-Since''"
  by code_simp+

lemmas request_fields = resume_request_def header_get_def header_values_def Header_Get_def CanonicalHeaderKey_conditions

lemma resume_verdict:
  assumes "valid_etag tag"
  shows "verdict_of L h (resume_request k tag) modtime =
    Proceed (if etagStrongMatch tag (Header_Get h ''Etag'') then ''bytes='' @ fmt_nat k @ ''-'' else [])"
proof -
  have "scanETag tag = (tag, [])" using scanETag_valid [OF assms, of "[]"] by (simp add: rtrim_def)
  moreover have "tag \<noteq> []" using assms by (auto simp: valid_etag_def)
  ultimately have "checkIfRange L h (resume_request k tag) modtime =
      (if etagStrongMatch tag (Header_Get h ''Etag'') then condTrue else condFalse)"
    by (simp add: checkIfRange_def resume_request_def header_get_def header_values_def)
  moreover have "checkIfMatch h (resume_request k tag) = condNone" "checkIfUnmodifiedSince L (resume_request k tag) modtime = condNone"
    "checkIfNoneMatch h (resume_request k tag) = condNone" "checkIfModifiedSince L (resume_request k tag) modtime = condNone"
    by (simp_all add: checkIfMatch_def checkIfUnmodifiedSince_def checkIfNoneMatch_def checkIfModifiedSince_def request_fields)
  ultimately show ?thesis by (simp add: verdict_of_def request_fields)
qed

text \<open>C24: A download that was cut off can be resumed. A client that holds the first \<open>k\<close> bytes and the entity tag of the content
  asks for the rest with \<open>Range\<close> and \<open>If-Range\<close>: when the tag still is the strong tag of the content it gets
  exactly the missing bytes with status 206, and when the tag has changed it gets the whole new content
  with status 200. In both cases it ends up with the content.\<close>

theorem resumed_download:
  assumes "k < length data" "int (length data) < 2 ^ 63" "valid_etag tag" "length bsize = length bsend"
  shows "\<exists>w. ServeContent L bsize bsend recorder (resume_request k tag) name modtime (file_content data) (NewRecorder\<lparr>rec_HeaderMap := H\<rparr>) = Ret w \<and>
    rec_Code w = (if tag = Header_Get H ''Etag'' \<and> hd tag = dquote then 206 else 200) \<and>
    (if rec_Code w = 206 then take k data @ the (rec_Body w) else the (rec_Body w)) = data"
proof -
  let ?h = "last_modified_header L modtime H"
  have tag: "Header_Get ?h ''Etag'' = Header_Get H ''Etag''" by (simp add: last_modified_header_def field_simps)
  have m: "etagStrongMatch tag (Header_Get H ''Etag'') \<longleftrightarrow> tag = Header_Get H ''Etag'' \<and> hd tag = dquote"
    using assms(3) by (auto simp: etagStrongMatch_def valid_etag_def)
  define rg where "rg = (if etagStrongMatch tag (Header_Get H ''Etag'') then ''bytes='' @ fmt_nat k @ ''-'' else [])"
  have v: "verdict_of L ?h (resume_request k tag) modtime = Proceed rg"
    using resume_verdict [OF assms(3), of L ?h k modtime] by (simp add: tag rg_def)
  have p: "parseRange rg (int (length data)) =
      Inr (if etagStrongMatch tag (Header_Get H ''Etag'') then [\<lparr>ra_start = int k, ra_length = int (length data) - int k\<rparr>] else [])"
    using parseRange_from [of k "int (length data)"] assms(1,2) by (simp add: rg_def)
  define ctype where "ctype = served_type L name H data"
  have R: "range_reply bsend ctype rg data =
      (if etagStrongMatch tag (Header_Get H ''Etag'') then (206, drop k data) else (200, data))"
    using assms(1) p by (simp add: range_reply_def range_bytes_def)
  have get: "fr_Method (resume_request k tag) = ''GET''" by (simp add: resume_request_def)
  obtain w where "ServeContent L bsize bsend recorder (resume_request k tag) name modtime (file_content data) (NewRecorder\<lparr>rec_HeaderMap := H\<rparr>) = Ret w"
    "rec_Code w = fst (range_reply bsend ctype rg data)"
    "reply_ok (resume_request k tag) H (range_reply bsend ctype rg data) rg (the (rec_snapHeader w)) (the (rec_Body w))"
    using ServeContent_recorder [OF assms(2,4) v ctype_def] p by (auto split: if_splits)
  then show ?thesis unfolding R m [symmetric] reply_ok_def get by (cases "etagStrongMatch tag (Header_Get H ''Etag'')") simp_all
qed

definition example_fslib :: fslib where
  "example_fslib = \<lparr>fs_timeParse = (\<lambda>layout t. None), fs_timeFormat = (\<lambda>t. ''now''), fs_TypeByExtension = (\<lambda>e. ''text/plain'')\<rparr>"

theorem resumed_download_witness:
  "\<exists>w. ServeContent example_fslib ''b'' ''c'' recorder (resume_request 2 [dquote, CHR ''e'', dquote]) ''f.txt'' 0 (file_content ''abcdef'')
      (NewRecorder\<lparr>rec_HeaderMap := [(''Etag'', [[dquote, CHR ''e'', dquote]])]\<rparr>) = Ret w \<and>
    rec_Code w = 206 \<and> ''ab'' @ the (rec_Body w) = ''abcdef''"
proof -
  have "valid_etag [dquote, CHR ''e'', dquote]"
    unfolding valid_etag_def by (rule exI [of _ "[]"], rule exI [of _ "''e''"]) (simp add: etag_char_def)
  from resumed_download [of 2 "''abcdef''" "[dquote, CHR ''e'', dquote]" "''b''" "''c''" example_fslib "''f.txt''" 0 "[(''Etag'', [[dquote, CHR ''e'', dquote]])]", OF _ _ this]
  show ?thesis by (auto simp: Header_Get_def CanonicalHeaderKey_fields header_get_def header_values_def)
qed

theorem ServeContent_exact_witness:
  "\<exists>w. ServeContent example_fslib ''b'' ''c'' recorder (resume_request 2 [dquote, CHR ''e'', dquote]) ''f.txt'' 0 (file_content ''abcdef'')
      (NewRecorder\<lparr>rec_HeaderMap := [(''Etag'', [[dquote, CHR ''e'', dquote]])]\<rparr>) = Ret w \<and>
    rec_Code w = 206 \<and> rec_Body w = Some ''cdef'' \<and> header_get (the (rec_snapHeader w)) ''Content-Length'' = fmt_nat 4"
proof -
  let ?H = "[(''Etag'', [[dquote, CHR ''e'', dquote]])]" and ?r = "resume_request 2 [dquote, CHR ''e'', dquote]"
  let ?rg = "''bytes='' @ fmt_nat 2 @ ''-''"
  have "valid_etag [dquote, CHR ''e'', dquote]"
    unfolding valid_etag_def by (rule exI [of _ "[]"], rule exI [of _ "''e''"]) (simp add: etag_char_def)
  then have v: "verdict_of example_fslib (last_modified_header example_fslib 0 ?H) ?r 0 = Proceed ?rg"
    by (simp add: resume_verdict last_modified_header_def isZeroTime_def etagStrongMatch_def Header_Get_def CanonicalHeaderKey_fields
        header_get_def header_values_def)
  have p: "parseRange ?rg (int (length ''abcdef'')) = Inr [\<lparr>ra_start = 2, ra_length = 4\<rparr>]"
    using parseRange_from [of 2 6] by simp
  have data_small: "int (length ''abcdef'') < 2 ^ 63" and same_length: "length ''b'' = length ''c''" by simp_all
  let ?ctype = "served_type example_fslib ''f.txt'' ?H ''abcdef''"
  have "\<forall>rs. parseRange ?rg (int (length ''abcdef'')) = Inr rs \<and> 1 < length rs \<longrightarrow> int (length (parts_body ''c'' ''abcdef'' ?ctype True rs)) < 2 ^ 63"
    unfolding p by simp
  note exact = ServeContent_exact [of "''abcdef''" "''b''" "''c''", OF data_small same_length v refl this, unfolded p]
  show ?thesis using exact
  proof (elim exE conjE, goal_cases)
    case (1 w code body)
    from 1(6) have c: "code = 206" "body = range_bytes ''abcdef'' \<lparr>ra_start = 2, ra_length = 4\<rparr>" by simp_all
    have "rec_Body w = Some ''cdef''" using 1(4) c by (simp add: range_bytes_def resume_request_def)
    moreover have "header_get (the (rec_snapHeader w)) ''Content-Length'' = fmt_nat 4" using 1(5) c by (simp add: range_bytes_def eval_nat_numeral)
    ultimately show ?case using 1(1,3) c(1) by (intro exI [of _ w]) (simp only: simp_thms)
  qed
qed

text \<open>
  A suffix of length zero names no byte, so no range is satisfiable and RFC 7233 asks for status 416. The code answers
  status 206 with an empty body and a \<open>Content-Range\<close> whose last position is smaller than its first.
\<close>

lemma zero_suffix_is_served:
  assumes "0 < length data" "int (length data) < 2 ^ 63"
  shows "covers (int (length data)) (Suffix 0) = {}"
    and "range_reply bsend ctype ''bytes=-0'' data = (206, [])"
    and "parseRange ''bytes=-0'' (int (length data)) = Inr [\<lparr>ra_start = int (length data), ra_length = 0\<rparr>]"
    and "contentRange \<lparr>ra_start = int (length data), ra_length = 0\<rparr> (int (length data)) =
      ''bytes '' @ fmt_nat (length data) @ ''-'' @ fmt_nat (length data - 1) @ ''/'' @ fmt_nat (length data)"
proof -
  show "covers (int (length data)) (Suffix 0) = {}" by auto
  have z: "''0'' = fmt_nat 0" by (simp add: fmt_nat.simps dec_char_def)
  have t: "trim_string ''-0'' = ''-0''" by (simp add: trim_string_def ascii_space_def)
  show p: "parseRange ''bytes=-0'' (int (length data)) = Inr [\<lparr>ra_start = int (length data), ra_length = 0\<rparr>]"
    by (simp add: parseRange_def has_prefix_def t parse_one_range_def cut_hyphen_first Let_def) (simp add: z range_digits)
  show "range_reply bsend ctype ''bytes=-0'' data = (206, [])" by (simp add: range_reply_def p range_bytes_def)
  have "fmt_int (int (length data) - 1) = fmt_nat (length data - 1)"
    using assms(1) by (cases data) simp_all
  then show "contentRange \<lparr>ra_start = int (length data), ra_length = 0\<rparr> (int (length data)) =
      ''bytes '' @ fmt_nat (length data) @ ''-'' @ fmt_nat (length data - 1) @ ''/'' @ fmt_nat (length data)"
    using assms by (simp add: contentRange_def int64_id)
qed

end
