(* ===== verification/File_Server.thy ===== *)
theory File_Server
  imports Serve_Content Mux_Request
begin

section \<open>The file server (fs.go, filetransport.go, internal/safefilepath)\<close>

text \<open>
  \<open>serveFile\<close> with its callers \<open>FileServer\<close>, \<open>ServeFile\<close> and \<open>ServeFileFS\<close>, the file systems \<open>Dir\<close> and \<open>FS\<close>, and the file
  transport. A \<open>FileSystem\<close> is its \<open>Open\<close>; a file is what its \<open>Stat\<close>, its content and its directory listing
  give. The operating system (\<open>os.Open\<close>, \<open>os.Stat\<close>) and an \<open>fs.FS\<close> are arguments. The model is that of
  a Unix system: the separator is the slash. \<open>Close\<close> and logging have no effect here.
\<close>

datatype fs_error = ErrNotExist | ErrPermission | OtherFsError string

record file_info =
  fi_Name :: string
  fi_Size :: int
  fi_ModTime :: gotime
  fi_IsDir :: bool

record http_file =
  file_stat :: "fs_error + file_info"
  file_content_of :: content
  file_entries :: "fs_error + (string \<times> bool) list"

type_synonym file_system = "string \<Rightarrow> fs_error + http_file"

definition toHTTPError :: "fs_error \<Rightarrow> string \<times> int" where
  "toHTTPError err =
     (case err of ErrNotExist \<Rightarrow> (''404 page not found'', 404) | ErrPermission \<Rightarrow> (''403 Forbidden'', 403)
      | OtherFsError _ \<Rightarrow> (''500 Internal Server Error'', 500))"

subsection \<open>Names\<close>

definition isSlashRune :: "char \<Rightarrow> bool" where
  "isSlashRune r = (r = CHR ''/'' \<or> byte_val r = 92)"

text \<open>\<open>strings.FieldsFunc\<close>: the maximal runs of characters that are not separators.\<close>

function fields_func :: "(char \<Rightarrow> bool) \<Rightarrow> string \<Rightarrow> string list" where
  "fields_func sep s =
     (let t = dropWhile sep s in
      if t = [] then [] else takeWhile (\<lambda>c. \<not> sep c) t # fields_func sep (dropWhile (\<lambda>c. \<not> sep c) t))"
  by pat_completeness auto
termination
proof (relation "measure (\<lambda>(sep, s). length s)", goal_cases)
  case (2 sep s t)
  then obtain c u where t: "t = c # u" "\<not> sep c" by (metis hd_dropWhile list.collapse list.sel(1))
  have "length (dropWhile (\<lambda>c. \<not> sep c) t) \<le> length u" using t by (simp add: length_dropWhile_le)
  moreover have "length t \<le> length s" using 2 by (simp add: length_dropWhile_le)
  ultimately show ?case using t by simp
qed simp

declare fields_func.simps [simp del]

fun contains_sub :: "string \<Rightarrow> string \<Rightarrow> bool" where
  "contains_sub [] p = (p = [])"
| "contains_sub (c # s) p = (has_prefix (c # s) p \<or> contains_sub s p)"

definition containsDotDot :: "string \<Rightarrow> bool" where
  "containsDotDot v = (if \<not> contains_sub v ''..'' then False else list_ex (\<lambda>ent. ent = ''..'') (fields_func isSlashRune v))"

text \<open>\<open>path.Base\<close>, \<open>strings.TrimSuffix\<close>, \<open>filepath.Split\<close> and \<open>filepath.Join\<close> of two names.\<close>

definition path_Base :: "string \<Rightarrow> string" where
  "path_Base p =
     (if p = [] then ''.''
      else
        (let q = rev (dropWhile (\<lambda>c. c = CHR ''/'') (rev p));
             b = rev (takeWhile (\<lambda>c. c \<noteq> CHR ''/'') (rev q))
         in if b = [] then ''/'' else b))"

definition trim_suffix :: "string \<Rightarrow> string \<Rightarrow> string" where
  "trim_suffix s p = fst (cut_suffix s p)"

definition filepath_Split :: "string \<Rightarrow> string \<times> string" where
  "filepath_Split name =
     (let file = rev (takeWhile (\<lambda>c. c \<noteq> CHR ''/'') (rev name)) in (take (length name - length file) name, file))"

definition filepath_Join :: "string \<Rightarrow> string \<Rightarrow> string" where
  "filepath_Join a b =
     (if a = [] then (if b = [] then [] else path_Clean b)
      else if b = [] then path_Clean a else path_Clean (a @ ''/'' @ b))"

subsection \<open>Directory listings\<close>

definition htmlReplacer :: "char \<Rightarrow> string" where
  "htmlReplacer c =
     (if c = CHR ''&'' then ''&amp;'' else if c = CHR ''<'' then ''&lt;'' else if c = CHR ''>'' then ''&gt;''
      else if c = CHR 0x22 then ''&#34;'' else if byte_val c = 39 then ''&#39;'' else [c])"

definition htmlEscape :: "string \<Rightarrow> string" where
  "htmlEscape s = concat (map htmlReplacer s)"

text \<open>\<open>URL.String\<close> of a URL that is only a path.\<close>

definition url_path_String :: "string \<Rightarrow> string" where
  "url_path_String name =
     (let p = EscapedPath \<lparr>url_Host = [], url_Path = name, url_RawPath = [], url_RawQuery = []\<rparr>
      in if CHR '':'' \<in> set (fst (cut_byte p (CHR ''/''))) then ''./'' @ p else p)"

definition dir_line :: "string \<times> bool \<Rightarrow> string" where
  "dir_line e =
     (let name = fst e @ (if snd e then ''/'' else [])
      in ''<a href='' @ [CHR 0x22] @ url_path_String name @ [CHR 0x22] @ ''>'' @ htmlEscape name @ ''</a>'' @ [CHR 0x0A])"

definition dirList :: "'w ResponseWriter \<Rightarrow> http_file \<Rightarrow> 'w \<Rightarrow> 'w go" where
  "dirList W f w =
     (case file_entries f of
        Inl e \<Rightarrow> http_Error W ''Error reading directory'' 500 w
      | Inr dirs \<Rightarrow>
          (let w1 = rw_change W (Header_Set ''Content-Type'' ''text/html; charset=utf-8'') w;
               w2 = rw_Print W (''<pre>'' @ [CHR 0x0A]) w1;
               w3 = fold (\<lambda>e. rw_Print W (dir_line e)) (sort_key fst dirs) w2
           in Ret (rw_Print W (''</pre>'' @ [CHR 0x0A]) w3)))"

subsection \<open>Serving a file\<close>

definition localRedirect :: "'w ResponseWriter \<Rightarrow> file_request \<Rightarrow> string \<Rightarrow> 'w \<Rightarrow> 'w go" where
  "localRedirect W r newPath w =
     (let loc = (if fr_RawQuery r \<noteq> [] then newPath @ ''?'' @ fr_RawQuery r else newPath)
      in rw_WriteHeader W 301 (rw_change W (Header_Set ''Location'' loc) w))"

text \<open>The arguments every function below passes on: the library and the two boundaries.\<close>

record fs_env =
  env_lib :: fslib
  env_bsize :: string
  env_bsend :: string

text \<open>The end of \<open>serveFile\<close>, once file and information are chosen.\<close>

definition serve_opened :: "fs_env \<Rightarrow> 'w ResponseWriter \<Rightarrow> file_request \<Rightarrow> http_file \<Rightarrow> file_info \<Rightarrow> 'w \<Rightarrow> 'w go" where
  "serve_opened E W r f d w =
     (if fi_IsDir d then
        (if checkIfModifiedSince (env_lib E) r (fi_ModTime d) = condFalse then writeNotModified W w
         else dirList W f (setLastModified (env_lib E) W (fi_ModTime d) w))
      else
        serveContent (env_lib E) (env_bsize E) (env_bsend E) W r (fi_Name d) (fi_ModTime d)
          (\<lambda>c. (Inr (fi_Size d), c)) (file_content_of f) w)"

text \<open>\<open>index.html\<close> of a directory, if it can be opened and examined.\<close>

definition index_file :: "file_system \<Rightarrow> string \<Rightarrow> http_file \<Rightarrow> file_info \<Rightarrow> http_file \<times> file_info" where
  "index_file fs name f d =
     (case fs (trim_suffix name ''/'' @ ''/index.html'') of
        Inl e \<Rightarrow> (f, d)
      | Inr ff \<Rightarrow> (case file_stat ff of Inl e \<Rightarrow> (f, d) | Inr dd \<Rightarrow> (ff, dd)))"

definition serveFile :: "fs_env \<Rightarrow> 'w ResponseWriter \<Rightarrow> file_request \<Rightarrow> file_system \<Rightarrow> string \<Rightarrow> bool \<Rightarrow> 'w \<Rightarrow> 'w go" where
  "serveFile E W r fs name redirect w =
     (if has_suffix (fr_Path r) ''/index.html'' then localRedirect W r ''./'' w
      else
        (case fs name of
           Inl e \<Rightarrow> (case toHTTPError e of (msg, code) \<Rightarrow> http_Error W msg code w)
         | Inr f \<Rightarrow>
             (case file_stat f of
                Inl e \<Rightarrow> (case toHTTPError e of (msg, code) \<Rightarrow> http_Error W msg code w)
              | Inr d \<Rightarrow>
                  go_bind (if redirect then go_bind (go_last (fr_Path r)) (\<lambda>c. Ret (Some c)) else Ret None) (\<lambda>lst.
                    if lst \<noteq> None \<and> fi_IsDir d \<and> lst \<noteq> Some (CHR ''/'')
                    then localRedirect W r (path_Base (fr_Path r) @ ''/'') w
                    else if lst \<noteq> None \<and> \<not> fi_IsDir d \<and> lst = Some (CHR ''/'')
                    then localRedirect W r (''../'' @ path_Base (fr_Path r)) w
                    else if fi_IsDir d \<and> (fr_Path r = [] \<or> last (fr_Path r) \<noteq> CHR ''/'')
                    then localRedirect W r (path_Base (fr_Path r) @ ''/'') w
                    else
                      (case (if fi_IsDir d then index_file fs name f d else (f, d)) of (f1, d1) \<Rightarrow>
                         serve_opened E W r f1 d1 w)))))"

definition fileHandler_ServeHTTP :: "fs_env \<Rightarrow> 'w ResponseWriter \<Rightarrow> file_system \<Rightarrow> file_request \<Rightarrow> 'w \<Rightarrow> 'w go" where
  "fileHandler_ServeHTTP E W root r w =
     (let upath = (if \<not> has_prefix (fr_Path r) ''/'' then CHR ''/'' # fr_Path r else fr_Path r)
      in serveFile E W (r\<lparr>fr_Path := upath\<rparr>) root (path_Clean upath) True w)"

subsection \<open>File systems\<close>

fun map_open_loop :: "(string \<Rightarrow> fs_error + file_info) \<Rightarrow> fs_error \<Rightarrow> string list \<Rightarrow> string list \<Rightarrow> fs_error" where
  "map_open_loop stat err before [] = err"
| "map_open_loop stat err before (part # parts) =
     (if part = [] then map_open_loop stat err (before @ [part]) parts
      else
        (case stat (join_byte (CHR ''/'') (before @ [part])) of
           Inl e \<Rightarrow> err
         | Inr fi \<Rightarrow> if \<not> fi_IsDir fi then ErrNotExist else map_open_loop stat err (before @ [part]) parts))"

definition mapOpenError :: "fs_error \<Rightarrow> string \<Rightarrow> (string \<Rightarrow> fs_error + file_info) \<Rightarrow> fs_error" where
  "mapOpenError err name stat =
     (if err = ErrNotExist \<or> err = ErrPermission then err
      else map_open_loop stat err [] (split_byte (CHR ''/'') name))"

definition fromFS :: "string \<Rightarrow> string option" where
  "fromFS path = (if CHR 0x00 \<in> set path then None else Some path)"

definition Dir_Open :: "file_system \<Rightarrow> (string \<Rightarrow> fs_error + file_info) \<Rightarrow> string \<Rightarrow> file_system" where
  "Dir_Open os_Open os_Stat d name =
     (case fromFS (path_Clean (CHR ''/'' # name)) of
        None \<Rightarrow> Inl (OtherFsError ''http: invalid or unsafe file path'')
      | Some path \<Rightarrow>
          (let dir = (if d = [] then ''.'' else d); fullName = filepath_Join dir path in
           case os_Open fullName of
             Inl err \<Rightarrow> Inl (mapOpenError err fullName os_Stat)
           | Inr f \<Rightarrow> Inr f))"

definition ioFS_Open :: "file_system \<Rightarrow> (string \<Rightarrow> fs_error + file_info) \<Rightarrow> file_system" where
  "ioFS_Open fsys_Open fsys_Stat name0 =
     (let name = (if name0 = ''/'' then ''.'' else trim_prefix name0 ''/'') in
      case fsys_Open name of
        Inl err \<Rightarrow> Inl (mapOpenError err name fsys_Stat)
      | Inr f \<Rightarrow> Inr f)"

definition ServeFile ::
  "fs_env \<Rightarrow> file_system \<Rightarrow> (string \<Rightarrow> fs_error + file_info) \<Rightarrow> 'w ResponseWriter \<Rightarrow> file_request \<Rightarrow> string \<Rightarrow> 'w \<Rightarrow> 'w go" where
  "ServeFile E os_Open os_Stat W r name w =
     (if containsDotDot (fr_Path r) then http_Error W ''invalid URL path'' 400 w
      else (case filepath_Split name of (dir, file) \<Rightarrow> serveFile E W r (Dir_Open os_Open os_Stat dir) file False w))"

definition ServeFileFS ::
  "fs_env \<Rightarrow> file_system \<Rightarrow> (string \<Rightarrow> fs_error + file_info) \<Rightarrow> 'w ResponseWriter \<Rightarrow> file_request \<Rightarrow> string \<Rightarrow> 'w \<Rightarrow> 'w go" where
  "ServeFileFS E fsys_Open fsys_Stat W r name w =
     (if containsDotDot (fr_Path r) then http_Error W ''invalid URL path'' 400 w
      else serveFile E W r (ioFS_Open fsys_Open fsys_Stat) name False w)"

text \<open>\<open>fileTransport.RoundTrip\<close>: the handler and \<open>finish\<close> run in a goroutine; the response is what its writer holds in the end.\<close>

definition fileTransport_RoundTrip :: "fs_env \<Rightarrow> file_system \<Rightarrow> file_request \<Rightarrow> nat option \<Rightarrow> populateResponse go" where
  "fileTransport_RoundTrip E root req room =
     go_bind (fileHandler_ServeHTTP E populate root req (newPopulateResponseWriter room)) (\<lambda>rw. Ret (pr_finish rw))"

subsection \<open>Only names below the root are opened\<close>

lemma split_byte_append: "split_byte c (a @ c # b) = split_byte c a @ split_byte c b"
  by (induction a) (auto simp: neq_Nil_conv)

lemma clean_elems_append: "clean_elems rt stk (xs @ ys) = clean_elems rt (clean_elems rt stk xs) ys"
  by (induction xs arbitrary: stk) auto

lemma clean_elems_join:
  assumes "list_all good_elem es"
  shows "clean_elems True stk (split_byte (CHR ''/'') (join_byte (CHR ''/'') es)) = rev es @ stk"
proof (cases "es = []")
  case False
  then have "split_byte (CHR ''/'') (join_byte (CHR ''/'') es) = es" using good_no_slash [OF assms] by (rule split_join_byte)
  then show ?thesis using clean_elems_id [OF assms] by simp
qed simp

lemma Clean_slash_path_of:
  assumes "list_all good_elem es"
  shows "path_Clean (CHR ''/'' # path_of es False) = path_of es False"
  unfolding path_Clean_rooted path_of_def [of es] using clean_elems_join [OF assms, of "[]"] by (simp add: path_of_def)

lemma Join_path_of:
  assumes "list_all good_elem ds" "list_all good_elem es"
  shows "filepath_Join (path_of ds False) (path_of es False) = path_of (ds @ es) False"
proof -
  have "filepath_Join (path_of ds False) (path_of es False) =
      path_Clean (CHR ''/'' # (join_byte (CHR ''/'') ds @ CHR ''/'' # [] @ CHR ''/'' # join_byte (CHR ''/'') es))"
    by (simp add: filepath_Join_def path_of_def)
  then show ?thesis
    unfolding path_Clean_rooted split_byte_append clean_elems_append clean_elems_join [OF assms(1)]
    using clean_elems_join [OF assms(2), of "rev ds"] by simp
qed

lemma index_name:
  assumes "list_all good_elem es"
  shows "trim_suffix (path_of es False) ''/'' @ ''/index.html'' = path_of (es @ [''index.html'']) False"
proof (cases "es = []")
  case True
  then show ?thesis by (simp add: trim_suffix_def cut_suffix_def has_suffix_def path_of_def)
next
  case False
  have "last (path_of es False) \<noteq> CHR ''/''" using last_path_of [OF assms False, of False] by simp
  then have "\<not> has_suffix (path_of es False) ''/''" by (auto simp: has_suffix_def suffix_def)
  moreover have "join_byte (CHR ''/'') (es @ [x]) = join_byte (CHR ''/'') es @ CHR ''/'' # x" for x
    using False by (induction es rule: induct_list012) auto
  ultimately show ?thesis by (simp add: trim_suffix_def cut_suffix_def path_of_def)
qed

lemma serveFile_cong:
  assumes "fs1 name = fs2 name" "fs1 (trim_suffix name ''/'' @ ''/index.html'') = fs2 (trim_suffix name ''/'' @ ''/index.html'')"
  shows "serveFile E W r fs1 name b w = serveFile E W r fs2 name b w"
proof -
  have "index_file fs1 name f d = index_file fs2 name f d" for f d using assms(2) by (simp only: index_file_def)
  then show ?thesis by (simp only: serveFile_def assms(1))
qed

lemma Dir_Open_below:
  assumes "list_all good_elem ds" "list_all good_elem es"
    "os1 (path_of (ds @ es) False) = os2 (path_of (ds @ es) False)"
  shows "Dir_Open os1 st (path_of ds False) (path_of es False) = Dir_Open os2 st (path_of ds False) (path_of es False)"
proof -
  have "path_of ds False \<noteq> []" by (simp add: path_of_def)
  then show ?thesis using assms(3)
    by (simp add: Dir_Open_def Clean_slash_path_of [OF assms(2)] fromFS_def Join_path_of [OF assms(1,2)] Let_def)
qed

text \<open>C25: A file server for a directory is confined to it. Whatever path a request names, with dots, double slashes or a
  missing slash, the reply depends only on what the operating system returns for names that are the
  root directory followed by elements other than the empty one, dot and dot-dot.\<close>

theorem FileServer_confined:
  assumes "list_all good_elem ds"
    "\<forall>es. list_all good_elem es \<longrightarrow> os1 (path_of (ds @ es) False) = os2 (path_of (ds @ es) False)"
  shows "fileHandler_ServeHTTP E W (Dir_Open os1 st (path_of ds False)) r w =
    fileHandler_ServeHTTP E W (Dir_Open os2 st (path_of ds False)) r w"
proof -
  define upath where "upath = (if \<not> has_prefix (fr_Path r) ''/'' then CHR ''/'' # fr_Path r else fr_Path r)"
  have "\<exists>s. upath = CHR ''/'' # s" by (cases "fr_Path r") (auto simp: upath_def has_prefix_def)
  then obtain es where es: "list_all good_elem es" "path_Clean upath = path_of es False"
    using path_Clean_rooted rooted_elems_good by blast
  have ix: "list_all good_elem (es @ [''index.html''])" using es(1) by (simp add: good_elem_def)
  note below = Dir_Open_below [OF assms(1), of _ os1 os2 st]
  show ?thesis unfolding fileHandler_ServeHTTP_def upath_def [symmetric] Let_def es(2)
  proof (rule serveFile_cong)
    show "Dir_Open os1 st (path_of ds False) (path_of es False) = Dir_Open os2 st (path_of ds False) (path_of es False)"
      using below [OF es(1)] assms(2) es(1) by blast
    show "Dir_Open os1 st (path_of ds False) (trim_suffix (path_of es False) ''/'' @ ''/index.html'') =
        Dir_Open os2 st (path_of ds False) (trim_suffix (path_of es False) ''/'' @ ''/index.html'')"
      unfolding index_name [OF es(1)] using below [OF ix] assms(2) ix by blast
  qed
qed

definition secret_os :: file_system where
  "secret_os name =
     (if name = ''/etc/passwd''
      then Inr \<lparr>file_stat = Inr \<lparr>fi_Name = ''passwd'', fi_Size = 6, fi_ModTime = 0, fi_IsDir = False\<rparr>,
                file_content_of = file_content ''secret'', file_entries = Inr []\<rparr>
      else Inl ErrNotExist)"

definition example_env :: fs_env where
  "example_env = \<lparr>env_lib = example_fslib, env_bsize = ''b'', env_bsend = ''c''\<rparr>"

definition example_get :: "string \<Rightarrow> file_request" where
  "example_get p = \<lparr>fr_Method = ''GET'', fr_Header = [], fr_Path = p, fr_RawQuery = []\<rparr>"

theorem FileServer_confined_witness:
  "fileHandler_ServeHTTP example_env recorder (Dir_Open secret_os (\<lambda>n. Inl ErrNotExist) (path_of [''srv''] False))
     (example_get ''/x/../../etc/passwd'') NewRecorder =
   fileHandler_ServeHTTP example_env recorder (Dir_Open (\<lambda>n. Inl ErrNotExist) (\<lambda>n. Inl ErrNotExist) (path_of [''srv''] False))
     (example_get ''/x/../../etc/passwd'') NewRecorder"
proof (rule FileServer_confined)
  show "list_all good_elem [''srv'']" by (simp add: good_elem_def)
  have "path_of ([''srv''] @ es) False \<noteq> ''/etc/passwd''" for es by (cases es) (simp_all add: path_of_def)
  then show "\<forall>es. list_all good_elem es \<longrightarrow> secret_os (path_of ([''srv''] @ es) False) = Inl ErrNotExist"
    unfolding secret_os_def by (simp only: if_False simp_thms)
qed

subsection \<open>Listings\<close>

context response_writer
begin

lemma fold_Print_replied:
  assumes "replied (Ret w) c h b"
  shows "replied (Ret (fold (\<lambda>e. rw_Print W (g e)) es w)) c h (b @ concat (map g es))"
  using assms
proof (induction es arbitrary: w b)
  case (Cons e es)
  then have "replied (Ret (rw_Print W (g e) w)) c h (b @ g e)" using Print_replied [of "Ret w" c h b "g e"] by simp
  from Cons.IH [OF this] show ?case by simp
qed simp

lemma dirList_replied:
  assumes "fresh w" "file_entries f = Inr dirs"
  shows "replied (dirList W f w) 200 (Header_Set ''Content-Type'' ''text/html; charset=utf-8'' (rw_Header W w))
    (''<pre>'' @ [CHR 0x0A] @ concat (map dir_line (sort_key fst dirs)) @ ''</pre>'' @ [CHR 0x0A])"
proof -
  let ?w1 = "rw_change W (Header_Set ''Content-Type'' ''text/html; charset=utf-8'') w"
  let ?h = "Header_Set ''Content-Type'' ''text/html; charset=utf-8'' (rw_Header W w)"
  have "replied (Ret (rw_Print W (''<pre>'' @ [CHR 0x0A]) ?w1)) 200 ?h (''<pre>'' @ [CHR 0x0A])"
    using Print_fresh [of ?w1 "''<pre>'' @ [CHR 0x0A]"] assms(1) by (simp add: change header_has_def field_simps)
  from Print_replied [OF fold_Print_replied [OF this, of dir_line "sort_key fst dirs"], of "''</pre>'' @ [CHR 0x0A]"]
  show ?thesis using assms(2) by (simp add: dirList_def Let_def)
qed

end

definition markup :: "char \<Rightarrow> bool" where
  "markup c \<longleftrightarrow> c = CHR ''<'' \<or> c = CHR ''>'' \<or> c = CHR 0x22"

lemma htmlEscape_no_markup: "filter markup (htmlEscape s) = []"
  by (induction s) (simp_all add: htmlEscape_def htmlReplacer_def markup_def)

lemma upper_hex_no_markup: "n < 16 \<Longrightarrow> \<not> markup (upper_hex n)"
proof -
  assume "n < 16"
  then have "upper_hex n \<in> set ''0123456789ABCDEF''" unfolding upper_hex_def by (intro nth_mem) simp
  then show ?thesis by (auto simp: markup_def)
qed

lemma path_escape_no_markup: "filter markup (path_escape s) = []"
proof -
  have "\<not> markup c" if mem: "c \<in> set (path_escape s)" for c
  proof -
    obtain d where d: "c = d \<and> \<not> path_should_escape d \<or> c = CHR ''%'' \<or> c = upper_hex (byte_val d div 16) \<or> c = upper_hex (byte_val d mod 16)"
      using mem by (auto simp: path_escape_def split: if_splits)
    have "byte_val d < 16 * 16" using byte_val_less [of d] by simp
    then have "byte_val d div 16 < 16" "byte_val d mod 16 < 16" by (simp_all only: less_mult_imp_div_less mod_less_divisor zero_less_numeral)
    then show ?thesis using d upper_hex_no_markup
      by (auto simp: markup_def path_should_escape_def is_alnum_def less_eq_char_def)
  qed
  then show ?thesis by (simp add: filter_empty_conv)
qed

lemma url_path_String_no_markup: "filter markup (url_path_String name) = []"
  using path_escape_no_markup [of name] by (simp add: url_path_String_def EscapedPath_def Let_def markup_def)

lemma dir_line_markup: "filter markup (dir_line e) = filter markup (''<a href='' @ [CHR 0x22, CHR 0x22] @ ''></a>'')"
  by (simp add: dir_line_def Let_def url_path_String_no_markup htmlEscape_no_markup markup_def)

text \<open>A directory listing is safe. It has one line for every entry, in the order of the names, and whatever the names of
  the files are, the angle brackets and quotes of the page are those of its own markup.\<close>

theorem dirList_safe:
  assumes "file_entries f = Inr dirs"
  shows "\<exists>w body. dirList recorder f NewRecorder = Ret w \<and> rec_Code w = 200 \<and> rec_Body w = Some body \<and>
    body = ''<pre>'' @ [CHR 0x0A] @ concat (map dir_line (sort_key fst dirs)) @ ''</pre>'' @ [CHR 0x0A] \<and>
    filter markup body =
      filter markup (''<pre>'' @ concat (replicate (length dirs) (''<a href='' @ [CHR 0x22, CHR 0x22] @ ''></a>'')) @ ''</pre>'')"
proof -
  let ?t = "''<a href='' @ [CHR 0x22, CHR 0x22] @ ''></a>''"
  have lines: "filter markup (concat (map dir_line es)) = filter markup (concat (replicate (length es) ?t))" for es
    by (induction es) (simp_all add: dir_line_markup del: append.simps)
  have "rec_fresh NewRecorder" by (simp add: rec_fresh_def NewRecorder_def)
  from rec.dirList_replied [OF this assms] obtain w where w: "dirList recorder f NewRecorder = Ret w" "rec_live w" "rec_Code w = 200"
    "the (rec_Body w) = ''<pre>'' @ [CHR 0x0A] @ concat (map dir_line (sort_key fst dirs)) @ ''</pre>'' @ [CHR 0x0A]"
    unfolding rec.replied_def by blast
  have "filter markup (the (rec_Body w)) = filter markup (''<pre>'' @ concat (replicate (length dirs) ?t) @ ''</pre>'')"
    unfolding w(4) filter_append lines by (simp add: markup_def)
  moreover have "rec_Body w = Some (the (rec_Body w))" using w(2) by (simp add: rec_live_def)
  ultimately show ?thesis using w(1,3,4) by (intro exI [of _ w] exI [of _ "the (rec_Body w)"]) blast
qed

definition hostile_dir :: http_file where
  "hostile_dir = \<lparr>file_stat = Inl ErrNotExist, file_content_of = file_content [], file_entries = Inr [(''a<b>'', False), (''A'', True)]\<rparr>"

theorem dirList_safe_witness:
  "\<exists>w body. dirList recorder hostile_dir NewRecorder = Ret w \<and> rec_Body w = Some body \<and>
    filter markup body =
      filter markup (''<pre>'' @ concat (replicate 2 (''<a href='' @ [CHR 0x22, CHR 0x22] @ ''></a>'')) @ ''</pre>'')"
proof -
  have "file_entries hostile_dir = Inr [(''a<b>'', False), (''A'', True)]" by (simp add: hostile_dir_def)
  note safe = dirList_safe [OF this]
  have two: "length [(''a<b>'', False), (''A'', True)] = 2" by simp
  show ?thesis using safe unfolding two
  proof (elim exE conjE, goal_cases)
    case (1 w body)
    show ?case by (intro exI [of _ w] exI [of _ body] conjI 1(1) 1(3) 1(5))
  qed
qed

end
