(* ===== verification/Transfer_Read.thy ===== *)
theory Transfer_Read
  imports Chunked Strconv Header
begin

section \<open>Framing of received bodies (transfer.go)\<close>

text \<open>
  \<open>readTransfer\<close> and what it calls: the decision how the body of a received message is delimited, by
  \<open>Transfer-Encoding\<close>, by \<open>Content-Length\<close> or by the end of the connection. A message is a \<open>Request\<close>
  or a \<open>Response\<close>; its header map is shared with the \<open>transferReader\<close>, so deletions are visible in
  the message. \<open>httpguts.HeaderValuesContainsToken\<close> is a field of the parameter record, and \<open>lax\<close> is
  the setting \<open>httplaxcontentlength\<close>. Lengths are integers; that they fit \<open>int64\<close> is part of what is shown.
\<close>

datatype transfer_error =
    UnsupportedTE string "string list"
  | MultipleContentLength "string list"
  | BadStringError string string

record transferReader =
  tr_Header :: Header
  tr_StatusCode :: int
  tr_RequestMethod :: string
  tr_ProtoMajor :: int
  tr_ProtoMinor :: int
  tr_ContentLength :: int
  tr_Chunked :: bool
  tr_Close :: bool
  tr_Trailer :: "Header option"

definition protoAtLeast :: "transferReader \<Rightarrow> int \<Rightarrow> int \<Rightarrow> bool" where
  "protoAtLeast t m n = (tr_ProtoMajor t > m \<or> (tr_ProtoMajor t = m \<and> tr_ProtoMinor t \<ge> n))"

definition bodyAllowedForStatus :: "int \<Rightarrow> bool" where
  "bodyAllowedForStatus status =
     (if 100 \<le> status \<and> status \<le> 199 then False
      else if status = 204 then False
      else if status = 304 then False
      else True)"

definition suppressedHeaders :: "int \<Rightarrow> string list" where
  "suppressedHeaders status =
     (if status = 304 then [''Content-Type'', ''Content-Length'', ''Transfer-Encoding'']
      else if \<not> bodyAllowedForStatus status then [''Content-Length'', ''Transfer-Encoding'']
      else [])"

definition noResponseBodyExpected :: "string \<Rightarrow> bool" where
  "noResponseBodyExpected requestMethod = (requestMethod = ''HEAD'')"

text \<open>\<open>foreachHeaderElement\<close>: the elements on which it calls its function, in order.\<close>

definition foreachHeaderElement :: "string \<Rightarrow> string list" where
  "foreachHeaderElement v0 =
     (let v = trim_string v0 in
      if v = [] then []
      else if CHR '','' \<notin> set v then [v]
      else [f \<leftarrow> map trim_string (split_byte (CHR '','') v). f \<noteq> []])"

definition parseTransferEncoding :: "transferReader \<Rightarrow> transfer_error option \<times> transferReader" where
  "parseTransferEncoding t =
     (case map_of (tr_Header t) ''Transfer-Encoding'' of
        None \<Rightarrow> (None, t)
      | Some raw \<Rightarrow>
          let t1 = t\<lparr>tr_Header := AList.delete ''Transfer-Encoding'' (tr_Header t)\<rparr> in
          if \<not> protoAtLeast t1 1 1 then (None, t1)
          else if length raw \<noteq> 1 then (Some (UnsupportedTE ''too many transfer encodings'' raw), t1)
          else if \<not> EqualFold (raw ! 0) ''chunked'' then (Some (UnsupportedTE ''unsupported transfer encoding'' raw), t1)
          else (None, t1\<lparr>tr_Header := AList.delete ''Content-Length'' (tr_Header t1), tr_Chunked := True\<rparr>))"

definition parseContentLength :: "bool \<Rightarrow> string list \<Rightarrow> transfer_error + int" where
  "parseContentLength lax clHeaders =
     (case clHeaders of
        [] \<Rightarrow> Inr (- 1)
      | c # _ \<Rightarrow>
          let cl = trim_string c in
          if cl = [] then (if lax then Inr (- 1) else Inl (BadStringError ''invalid empty Content-Length'' cl))
          else
            (case parse_uint 63 cl of
               Inl e \<Rightarrow> Inl (BadStringError ''bad Content-Length'' cl)
             | Inr n \<Rightarrow> Inr (int n)))"

text \<open>\<open>fixLength\<close> also returns the header, from which it removes duplicates.\<close>

definition fixLength :: "bool \<Rightarrow> bool \<Rightarrow> int \<Rightarrow> string \<Rightarrow> Header \<Rightarrow> bool \<Rightarrow> (transfer_error + int) \<times> Header" where
  "fixLength lax isResponse status requestMethod header chunked =
     (let isRequest = (\<not> isResponse);
          contentLens = header_values header ''Content-Length'';
          first = trim_string (hd contentLens)
      in
        if length contentLens > 1 \<and> \<not> list_all (\<lambda>ct. first = trim_string ct) (tl contentLens)
        then (Inl (MultipleContentLength contentLens), header)
        else
          let header1 = (if length contentLens > 1
                         then Header_Add ''Content-Length'' first (Header_Del ''Content-Length'' header) else header);
              lens = header_values header1 ''Content-Length''
          in
            if isResponse \<and> noResponseBodyExpected requestMethod then (Inr 0, header1)
            else if status div 100 = 1 then (Inr 0, header1)
            else if status = 204 \<or> status = 304 then (Inr 0, header1)
            else if chunked then (Inr (- 1), header1)
            else if lens \<noteq> [] then
              (case parseContentLength lax lens of
                 Inl e \<Rightarrow> (Inl e, header1)
               | Inr n \<Rightarrow> (Inr n, header1))
            else
              let header2 = Header_Del ''Content-Length'' header1 in
              if isRequest then (Inr 0, header2) else (Inr (- 1), header2))"

definition shouldClose :: "golib \<Rightarrow> int \<Rightarrow> int \<Rightarrow> Header \<Rightarrow> bool \<Rightarrow> bool \<times> Header" where
  "shouldClose L major minor header removeCloseHeader =
     (if major < 1 then (True, header)
      else
        let conv = header_values header ''Connection'';
            hasClose = lib_HeaderValuesContainsToken L conv ''close''
        in
          if major = 1 \<and> minor = 0
          then (hasClose \<or> \<not> lib_HeaderValuesContainsToken L conv ''keep-alive'', header)
          else (hasClose, if hasClose \<and> removeCloseHeader then Header_Del ''Connection'' header else header))"

text \<open>The closure of \<open>fixTrailer\<close> over the trailer and the first error.\<close>

definition trailer_key :: "string \<Rightarrow> transfer_error option \<times> Header \<Rightarrow> transfer_error option \<times> Header" where
  "trailer_key k0 st =
     (case st of (err, trailer) \<Rightarrow>
        let key = CanonicalHeaderKey k0 in
        if key \<in> {''Transfer-Encoding'', ''Trailer'', ''Content-Length''} \<and> err = None
        then (Some (BadStringError ''bad trailer key'' key), trailer)
        else (err, AList.update key [] trailer))"

definition fixTrailer :: "Header \<Rightarrow> bool \<Rightarrow> (transfer_error + Header option) \<times> Header" where
  "fixTrailer header chunked =
     (case map_of header ''Trailer'' of
        None \<Rightarrow> (Inr None, header)
      | Some vv \<Rightarrow>
          if \<not> chunked then (Inr None, header)
          else
            let header1 = Header_Del ''Trailer'' header in
            (case fold trailer_key (concat (map foreachHeaderElement vv)) (None, []) of
               (Some e, trailer) \<Rightarrow> (Inl e, header1)
             | (None, trailer) \<Rightarrow> (Inr (if trailer = [] then None else Some trailer), header1)))"

subsection \<open>Messages and their bodies\<close>

text \<open>
  The source of a body, which holds the reader of the connection it takes its bytes from, and the
  \<open>body\<close> around it. \<open>bd_hdr\<close> says whether a trailer is to be read, and \<open>bd_trailer\<close> is the trailer of
  the message the body points to.
\<close>

datatype body_src =
    SrcChunked chunkedReader
  | SrcLimited "char bufr" int
  | SrcConn "char bufr"

record body =
  bd_src :: body_src
  bd_hdr :: bool
  bd_closing :: bool
  bd_doEarlyClose :: bool
  bd_sawEOF :: bool
  bd_closed :: bool
  bd_earlyClose :: bool
  bd_trailer :: "Header option"

definition new_body :: "body_src \<Rightarrow> bool \<Rightarrow> bool \<Rightarrow> Header option \<Rightarrow> body" where
  "new_body src hdr closing trailer =
     \<lparr>bd_src = src, bd_hdr = hdr, bd_closing = closing, bd_doEarlyClose = False, bd_sawEOF = False,
      bd_closed = False, bd_earlyClose = False, bd_trailer = trailer\<rparr>"

text \<open>A request or response. The method of a response is that of its request, if it has one; \<open>None\<close> as
  the body is \<open>NoBody\<close>.\<close>

record http_message =
  msg_isResponse :: bool
  msg_Header :: Header
  msg_StatusCode :: int
  msg_Method :: "string option"
  msg_ProtoMajor :: int
  msg_ProtoMinor :: int
  msg_Close :: bool
  msg_ContentLength :: int
  msg_TransferEncoding :: "string list"
  msg_Trailer :: "Header option"
  msg_Body :: "body option"

definition unify_input :: "golib \<Rightarrow> http_message \<Rightarrow> transferReader" where
  "unify_input L msg =
     (let meth = (case msg_Method msg of None \<Rightarrow> ''GET'' | Some m \<Rightarrow> m);
          (closes, header) =
            (if msg_isResponse msg then shouldClose L (msg_ProtoMajor msg) (msg_ProtoMinor msg) (msg_Header msg) True
             else (msg_Close msg, msg_Header msg));
          t = \<lparr>tr_Header = header, tr_StatusCode = (if msg_isResponse msg then msg_StatusCode msg else 200),
               tr_RequestMethod = meth, tr_ProtoMajor = msg_ProtoMajor msg, tr_ProtoMinor = msg_ProtoMinor msg,
               tr_ContentLength = 0, tr_Chunked = False, tr_Close = closes, tr_Trailer = None\<rparr>
      in if tr_ProtoMajor t = 0 \<and> tr_ProtoMinor t = 0 then t\<lparr>tr_ProtoMajor := 1, tr_ProtoMinor := 1\<rparr> else t)"

definition choose_body :: "bool \<Rightarrow> transferReader \<Rightarrow> int \<Rightarrow> char bufr \<Rightarrow> body option" where
  "choose_body isResponse t realLength r =
     (if tr_Chunked t then
        (if isResponse \<and> (noResponseBodyExpected (tr_RequestMethod t) \<or> \<not> bodyAllowedForStatus (tr_StatusCode t))
         then None
         else Some (new_body (SrcChunked (NewChunkedReader r)) True (tr_Close t) (tr_Trailer t)))
      else if realLength = 0 then None
      else if realLength > 0 then Some (new_body (SrcLimited r realLength) False (tr_Close t) None)
      else if tr_Close t then Some (new_body (SrcConn r) False (tr_Close t) None)
      else None)"

text \<open>\<open>readTransfer\<close> returns the message it changed; on an error the caller drops the message.\<close>

definition readTransfer :: "golib \<Rightarrow> bool \<Rightarrow> http_message \<Rightarrow> char bufr \<Rightarrow> transfer_error + http_message" where
  "readTransfer L lax msg r =
     (case parseTransferEncoding (unify_input L msg) of
        (Some e, t) \<Rightarrow> Inl e
      | (None, t) \<Rightarrow>
          (case fixLength lax (msg_isResponse msg) (tr_StatusCode t) (tr_RequestMethod t) (tr_Header t) (tr_Chunked t) of
             (Inl e, header) \<Rightarrow> Inl e
           | (Inr realLength, header) \<Rightarrow>
               (case (if msg_isResponse msg \<and> tr_RequestMethod t = ''HEAD''
                      then parseContentLength lax (header_values header ''Content-Length'') else Inr realLength) of
                  Inl e \<Rightarrow> Inl e
                | Inr contentLength \<Rightarrow>
                    (case fixTrailer header (tr_Chunked t) of
                       (Inl e, header1) \<Rightarrow> Inl e
                     | (Inr trailer, header1) \<Rightarrow>
                         let t1 = t\<lparr>tr_Header := header1, tr_ContentLength := contentLength, tr_Trailer := trailer\<rparr>;
                             t2 = (if msg_isResponse msg \<and> realLength = - 1 \<and> \<not> tr_Chunked t1 \<and> bodyAllowedForStatus (tr_StatusCode t1)
                                   then t1\<lparr>tr_Close := True\<rparr> else t1)
                         in Inr (msg\<lparr>msg_Header := tr_Header t2, msg_Body := choose_body (msg_isResponse msg) t2 realLength r,
                                    msg_ContentLength := tr_ContentLength t2,
                                    msg_TransferEncoding := (if tr_Chunked t2 then [''chunked''] else msg_TransferEncoding msg),
                                    msg_Close := tr_Close t2, msg_Trailer := tr_Trailer t2\<rparr>)))))"

subsection \<open>How a request is delimited\<close>

text \<open>
  RFC 7230, section 3.3.3, for requests, as a decision on the header alone: a single
  \<open>Transfer-Encoding: chunked\<close> from HTTP/1.1 on, otherwise \<open>Content-Length\<close> values that agree on one
  decimal number below 2 to the 63, otherwise no body; anything else is ambiguous.
\<close>

datatype framing = ChunkedFraming | LengthFraming nat

definition http11 :: "http_message \<Rightarrow> bool" where
  "http11 msg = ((msg_ProtoMajor msg = 0 \<and> msg_ProtoMinor msg = 0) \<or> msg_ProtoMajor msg > 1 \<or>
     (msg_ProtoMajor msg = 1 \<and> msg_ProtoMinor msg \<ge> 1))"

definition request_framing :: "http_message \<Rightarrow> framing option" where
  "request_framing msg =
     (if http11 msg \<and> header_has (msg_Header msg) ''Transfer-Encoding'' then
        (case header_values (msg_Header msg) ''Transfer-Encoding'' of
           [v] \<Rightarrow> if EqualFold v ''chunked'' then Some ChunkedFraming else None
         | _ \<Rightarrow> None)
      else
        (case map trim_string (header_values (msg_Header msg) ''Content-Length'') of
           [] \<Rightarrow> Some (LengthFraming 0)
         | c # cs \<Rightarrow>
             if list_all (\<lambda>d. d = c) cs \<and> c \<noteq> [] \<and> all_digits c \<and> dec_num 0 c < 2 ^ 63
             then Some (LengthFraming (dec_num 0 c)) else None))"

lemma header_values_delete [simp]: "header_values (AList.delete k h) k' = (if k = k' then [] else header_values h k')"
  by (simp add: header_values_def AList.delete_conv')

lemma header_values_update [simp]: "header_values (AList.update k v h) k' = (if k = k' then v else header_values h k')"
  by (simp add: header_values_def AList.update_conv')

lemma header_has_delete [simp]: "header_has (AList.delete k h) k' \<longleftrightarrow> k \<noteq> k' \<and> header_has h k'"
  by (simp add: header_has_def AList.delete_conv')

lemma header_has_update [simp]: "header_has (AList.update k v h) k' \<longleftrightarrow> k = k' \<or> header_has h k'"
  by (simp add: header_has_def AList.update_conv')

lemma not_has_values: "\<not> header_has h k \<Longrightarrow> header_values h k = []"
  by (simp add: header_has_def header_values_def)

lemma framing_keys [simp]:
  "CanonicalHeaderKey ''Content-Length'' = ''Content-Length''" "CanonicalHeaderKey ''Trailer'' = ''Trailer''"
  by code_simp+

lemma header_ops_values [simp]:
  "header_values (Header_Del ''Content-Length'' h) ''Content-Length'' = []"
  "header_values (Header_Add ''Content-Length'' v h) ''Content-Length'' = header_values h ''Content-Length'' @ [v]"
  by (simp_all add: Header_Del_def Header_Add_def)

lemma header_ops_has [simp]:
  "header_has (Header_Del ''Content-Length'' h) ''Transfer-Encoding'' = header_has h ''Transfer-Encoding''"
  "header_has (Header_Add ''Content-Length'' v h) ''Transfer-Encoding'' = header_has h ''Transfer-Encoding''"
  "header_has (Header_Del ''Content-Length'' h) ''Content-Length'' = False"
  "header_has (Header_Del ''Trailer'' h) ''Transfer-Encoding'' = header_has h ''Transfer-Encoding''"
  "header_has (Header_Del ''Trailer'' h) ''Content-Length'' = header_has h ''Content-Length''"
  "header_values (Header_Del ''Trailer'' h) ''Content-Length'' = header_values h ''Content-Length''"
  by (simp_all add: Header_Del_def Header_Add_def)

text \<open>\<open>fixLength\<close> of a request without chunking, on each form of the \<open>Content-Length\<close> values.\<close>

lemma parseContentLength_trim [simp]: "parseContentLength lax [trim_string c] = parseContentLength lax [c]"
  by (simp add: parseContentLength_def)

lemma fixLength_plain:
  assumes "fixLength lax False 200 meth h False = (res, h')"
  shows "header_has h' ''Transfer-Encoding'' = header_has h ''Transfer-Encoding''"
    and "res = (case header_values h ''Content-Length'' of
        [] \<Rightarrow> Inr 0
      | c # cs \<Rightarrow> if list_all (\<lambda>d. trim_string d = trim_string c) cs then parseContentLength lax [c]
                  else Inl (MultipleContentLength (c # cs)))"
    and "res = Inr n \<Longrightarrow> length (header_values h' ''Content-Length'') \<le> 1"
proof -
  let ?goal = "header_has h' ''Transfer-Encoding'' = header_has h ''Transfer-Encoding'' \<and>
    res = (case header_values h ''Content-Length'' of
        [] \<Rightarrow> Inr 0
      | c # cs \<Rightarrow> if list_all (\<lambda>d. trim_string d = trim_string c) cs then parseContentLength lax [c]
                  else Inl (MultipleContentLength (c # cs))) \<and>
    (res = Inr n \<longrightarrow> length (header_values h' ''Content-Length'') \<le> 1)"
  have st: "(200 :: int) div 100 = 2" by simp
  have ?goal
  proof (cases "header_values h ''Content-Length''")
    case Nil
    then show ?thesis using assms by (auto simp: fixLength_def st)
  next
    case (Cons c cs)
    have eq: "list_all (\<lambda>ct. trim_string c = trim_string ct) cs = list_all (\<lambda>d. trim_string d = trim_string c) cs"
      by (rule list.pred_cong) auto
    show ?thesis
    proof (cases cs)
      case Nil
      then show ?thesis using assms Cons by (auto simp: fixLength_def st split: sum.splits)
    next
      case more: (Cons d ds)
      let ?h = "Header_Add ''Content-Length'' (trim_string c) (Header_Del ''Content-Length'' h)"
      have "fixLength lax False 200 meth h False =
          (if list_all (\<lambda>d. trim_string d = trim_string c) cs then (parseContentLength lax [c], ?h)
           else (Inl (MultipleContentLength (c # cs)), h))"
        unfolding fixLength_def Let_def Cons list.sel eq
        by (cases "parseContentLength lax [c]") (simp_all add: st more)
      then show ?thesis using assms Cons by (auto split: if_splits)
    qed
  qed
  then show "header_has h' ''Transfer-Encoding'' = header_has h ''Transfer-Encoding''"
    "res = (case header_values h ''Content-Length'' of
        [] \<Rightarrow> Inr 0
      | c # cs \<Rightarrow> if list_all (\<lambda>d. trim_string d = trim_string c) cs then parseContentLength lax [c]
                  else Inl (MultipleContentLength (c # cs)))"
    "res = Inr n \<Longrightarrow> length (header_values h' ''Content-Length'') \<le> 1" by blast+
qed

lemma parseContentLength_strict:
  "parseContentLength False [c] =
     (if trim_string c = [] then Inl (BadStringError ''invalid empty Content-Length'' [])
      else if all_digits (trim_string c) \<and> dec_num 0 (trim_string c) < 2 ^ 63 then Inr (int (dec_num 0 (trim_string c)))
      else Inl (BadStringError ''bad Content-Length'' (trim_string c)))"
  by (auto simp: parseContentLength_def parse_uint_def Let_def not_less)

lemma fixLength_chunked:
  "header_values h ''Content-Length'' = [] \<Longrightarrow> fixLength lax False 200 meth h True = (Inr (- 1), h)"
proof -
  have st: "(200 :: int) div 100 = 2" by simp
  show "header_values h ''Content-Length'' = [] \<Longrightarrow> fixLength lax False 200 meth h True = (Inr (- 1), h)"
    by (simp add: fixLength_def st)
qed

lemma fixTrailer_plain: "fixTrailer h False = (Inr None, h)"
  by (simp add: fixTrailer_def split: option.splits)

lemma trailer_error:
  "fold trailer_key ks (err, tr) = (Some e, tr') \<Longrightarrow> err = None \<or> (\<exists>k. err = Some (BadStringError ''bad trailer key'' k)) \<Longrightarrow>
     \<exists>k. e = BadStringError ''bad trailer key'' k"
  by (induction ks arbitrary: err tr) (auto simp: trailer_key_def Let_def split: if_splits)

lemma fixTrailer_chunked:
  assumes "fixTrailer h True = (res, h')"
  shows "header_has h' ''Transfer-Encoding'' = header_has h ''Transfer-Encoding''"
    and "header_has h' ''Content-Length'' = header_has h ''Content-Length''"
    and "res = Inl e \<Longrightarrow> header_has h ''Trailer'' \<and> (\<exists>k. e = BadStringError ''bad trailer key'' k)"
  using assms trailer_error by (auto simp: fixTrailer_def header_has_def [of h "''Trailer''"] Let_def split: option.splits prod.splits)

lemma request_TE:
  assumes "\<not> msg_isResponse msg"
  shows "parseTransferEncoding (unify_input L msg) =
    (let t = unify_input L msg; h = msg_Header msg in
     if \<not> header_has h ''Transfer-Encoding'' then (None, t)
     else let t1 = t\<lparr>tr_Header := AList.delete ''Transfer-Encoding'' h\<rparr> in
       if \<not> http11 msg then (None, t1)
       else case header_values h ''Transfer-Encoding'' of
          [v] \<Rightarrow> if EqualFold v ''chunked''
                 then (None, t1\<lparr>tr_Header := AList.delete ''Content-Length'' (AList.delete ''Transfer-Encoding'' h), tr_Chunked := True\<rparr>)
                 else (Some (UnsupportedTE ''unsupported transfer encoding'' [v]), t1)
        | vs \<Rightarrow> (Some (UnsupportedTE ''too many transfer encodings'' vs), t1))"
proof -
  have h: "tr_Header (unify_input L msg) = msg_Header msg" using assms by (simp add: unify_input_def Let_def)
  have p: "protoAtLeast (unify_input L msg\<lparr>tr_Header := x\<rparr>) 1 1 = http11 msg" for x
    using assms by (auto simp: protoAtLeast_def http11_def unify_input_def Let_def)
  show ?thesis
    unfolding parseTransferEncoding_def h p Let_def
    by (auto simp: header_has_def header_values_def p h split: option.splits list.splits)
qed

lemma request_input:
  assumes "\<not> msg_isResponse msg"
  shows "tr_Header (unify_input L msg) = msg_Header msg" "tr_StatusCode (unify_input L msg) = 200"
    "tr_Chunked (unify_input L msg) = False" "tr_Close (unify_input L msg) = msg_Close msg"
  using assms by (simp_all add: unify_input_def Let_def)

definition framed :: "framing \<Rightarrow> http_message \<Rightarrow> char bufr \<Rightarrow> http_message \<Rightarrow> bool" where
  "framed f msg r msg' =
     (\<not> header_has (msg_Header msg') ''Transfer-Encoding'' \<and> msg_Close msg' = msg_Close msg \<and>
      (case f of
         ChunkedFraming \<Rightarrow>
           \<not> header_has (msg_Header msg') ''Content-Length'' \<and> msg_ContentLength msg' = - 1 \<and>
           msg_TransferEncoding msg' = [''chunked''] \<and>
           msg_Body msg' = Some (new_body (SrcChunked (NewChunkedReader r)) True (msg_Close msg) (msg_Trailer msg'))
       | LengthFraming n \<Rightarrow>
           n < 2 ^ 63 \<and> length (header_values (msg_Header msg') ''Content-Length'') \<le> 1 \<and>
           msg_ContentLength msg' = int n \<and> msg_TransferEncoding msg' = msg_TransferEncoding msg \<and>
           msg_Body msg' = (if n = 0 then None else Some (new_body (SrcLimited r (int n)) False (msg_Close msg) None))))"

lemma framing_ok:
  assumes "\<not> msg_isResponse msg"
  shows "case request_framing msg of
      None \<Rightarrow> \<exists>e. readTransfer L False msg r = Inl e
    | Some f \<Rightarrow> (\<exists>msg'. readTransfer L False msg r = Inr msg' \<and> framed f msg r msg') \<or>
        (f = ChunkedFraming \<and> header_has (msg_Header msg) ''Trailer'' \<and> (\<exists>k. readTransfer L False msg r = Inl (BadStringError ''bad trailer key'' k)))"
proof (cases "http11 msg \<and> header_has (msg_Header msg) ''Transfer-Encoding''")
  case True
  note TE = request_TE [OF assms, of L] request_input [OF assms, of L]
  show ?thesis
  proof (cases "request_framing msg")
    case None
    then have "\<exists>e t. parseTransferEncoding (unify_input L msg) = (Some e, t)"
      using True by (auto simp: request_framing_def TE Let_def split: list.splits if_splits)
    then show ?thesis using None by (auto simp: readTransfer_def)
  next
    case (Some f)
    then obtain v where v: "header_values (msg_Header msg) ''Transfer-Encoding'' = [v]" "EqualFold v ''chunked''" "f = ChunkedFraming"
      using True by (auto simp: request_framing_def split: list.splits if_splits)
    let ?h = "AList.delete ''Content-Length'' (AList.delete ''Transfer-Encoding'' (msg_Header msg))"
    let ?t = "unify_input L msg\<lparr>tr_Header := ?h, tr_Chunked := True\<rparr>"
    have p: "parseTransferEncoding (unify_input L msg) = (None, ?t)" using True v by (simp add: TE)
    have l: "fixLength False False 200 m ?h True = (Inr (- 1), ?h)" for m by (rule fixLength_chunked) simp
    obtain res h' where tr: "fixTrailer ?h True = (res, h')" by fastforce
    show ?thesis
    proof (cases res)
      case (Inl e)
      then have "readTransfer L False msg r = Inl e" using assms by (simp add: readTransfer_def p TE l tr)
      then show ?thesis using fixTrailer_chunked(3) [OF tr Inl] Some v by auto
    next
      case (Inr trailer)
      have "\<exists>msg'. readTransfer L False msg r = Inr msg' \<and> framed f msg r msg'"
        using assms v fixTrailer_chunked(1,2) [OF tr]
        by (simp add: readTransfer_def p TE l tr Inr framed_def choose_body_def)
      then show ?thesis using Some by simp
    qed
  qed
next
  case False
  note TE = request_TE [OF assms, of L] request_input [OF assms, of L]
  define h where "h = (if header_has (msg_Header msg) ''Transfer-Encoding''
    then AList.delete ''Transfer-Encoding'' (msg_Header msg) else msg_Header msg)"
  have hv: "header_values h ''Content-Length'' = header_values (msg_Header msg) ''Content-Length''"
    "\<not> header_has h ''Transfer-Encoding''" by (simp_all add: h_def)
  let ?t = "unify_input L msg\<lparr>tr_Header := h\<rparr>"
  have p: "parseTransferEncoding (unify_input L msg) = (None, ?t)" using False by (auto simp: TE h_def Let_def)
  obtain res h' where l: "fixLength False False 200 (tr_RequestMethod (unify_input L msg)) h False = (res, h')" by fastforce
  note fl = fixLength_plain [OF l]
  show ?thesis
  proof (cases res)
    case (Inl e)
    then have "readTransfer L False msg r = Inl e" using assms by (simp add: readTransfer_def p TE l)
    moreover have "request_framing msg = None"
      using fl(2) Inl False by (auto simp: request_framing_def hv parseContentLength_strict list.pred_map comp_def split: list.splits if_splits)
    ultimately show ?thesis by simp
  next
    case (Inr n)
    have f: "request_framing msg = Some (LengthFraming (nat n)) \<and> 0 \<le> n \<and> n < 2 ^ 63"
      using fl(2) Inr False by (auto simp: request_framing_def hv parseContentLength_strict list.pred_map comp_def split: list.splits if_splits)
    have "\<exists>msg'. readTransfer L False msg r = Inr msg' \<and> framed (LengthFraming (nat n)) msg r msg'"
      using assms f fl(1) fl(3) [OF Inr] hv
      by (auto simp: readTransfer_def p TE l Inr fixTrailer_plain framed_def choose_body_def nat_less_iff)
    then show ?thesis using f by simp
  qed
qed

lemma framing_succeeds:
  assumes "\<not> msg_isResponse msg" "request_framing msg = Some f" "\<not> header_has (msg_Header msg) ''Trailer''"
  shows "\<exists>msg'. readTransfer L False msg r = Inr msg' \<and> framed f msg r msg'"
  using framing_ok [OF assms(1), of L r] assms(2,3) by auto

lemma framing_accepted:
  assumes "\<not> msg_isResponse msg" "request_framing msg = Some f" "readTransfer L False msg r = Inr msg'"
  shows "framed f msg r msg'"
  using framing_ok [OF assms(1), of L r] assms(2,3) by auto

text \<open>C20: how a request body is delimited is decided by RFC 7230 alone, so no two parts of a header can be
  read in different ways (request smuggling). For every request and every connection,
  \<open>readTransfer\<close> fails when the header is ambiguous: several or unknown transfer codings,
  \<open>Content-Length\<close> values that differ, are empty, are not decimal, or are 2 to the 63 or more. Otherwise the
  request is read as chunked with every \<open>Content-Length\<close> removed, or with the one length given, or as
  empty, and no \<open>Transfer-Encoding\<close> field stays in the header; only a forbidden name in a \<open>Trailer\<close> field can still be an error.\<close>

theorem readTransfer_request_framing:
  assumes "\<not> msg_isResponse msg"
  shows "case request_framing msg of
      None \<Rightarrow> \<exists>e. readTransfer L False msg r = Inl e
    | Some f \<Rightarrow> (\<exists>msg'. readTransfer L False msg r = Inr msg' \<and> framed f msg r msg') \<or>
        (f = ChunkedFraming \<and> header_has (msg_Header msg) ''Trailer'' \<and> (\<exists>k. readTransfer L False msg r = Inl (BadStringError ''bad trailer key'' k)))"
  by (rule framing_ok [OF assms])

definition repeated_length_request :: http_message where
  "repeated_length_request =
     \<lparr>msg_isResponse = False, msg_Header = [(''Content-Length'', [''5'', '' 5''])], msg_StatusCode = 0, msg_Method = Some ''POST'',
      msg_ProtoMajor = 1, msg_ProtoMinor = 1, msg_Close = False, msg_ContentLength = 0, msg_TransferEncoding = [],
      msg_Trailer = None, msg_Body = None\<rparr>"

lemma repeated_length_framing: "request_framing repeated_length_request = Some (LengthFraming 5)"
  by (simp add: request_framing_def repeated_length_request_def http11_def header_has_def header_values_def
      trim_string_def ascii_space_def all_digits_def dec_num_def dec_byte_def less_eq_char_def)

theorem readTransfer_request_framing_witness:
  "request_framing repeated_length_request = Some (LengthFraming 5) \<and>
   (\<exists>msg'. readTransfer example_lib False repeated_length_request \<lparr>bf_buf = ''hello'', bf_src = []\<rparr> = Inr msg' \<and>
      msg_ContentLength msg' = 5)"
proof -
  note f = repeated_length_framing
  have "\<not> msg_isResponse repeated_length_request" by (simp add: repeated_length_request_def)
  from readTransfer_request_framing [OF this, of example_lib "\<lparr>bf_buf = ''hello'', bf_src = []\<rparr>"] f
  show ?thesis by (auto simp: framed_def)
qed

end
