(* ===== verification/Body.thy ===== *)
theory Body
  imports Transfer_Read
begin

section \<open>Reading and closing bodies (transfer.go, body)\<close>

text \<open>
  \<open>body.Read\<close>, the trailer after a chunked body, and \<open>body.Close\<close>, which reads what the handler left so that
  the connection can carry the next message. Each method is one step under the mutex.
  \<open>textproto.Reader.ReadMIMEHeader\<close> is the argument \<open>readMIME\<close>: the header it reads and the connection it
  leaves. \<open>onHitEOF\<close> is a callback of the server and left out.
\<close>

type_synonym mime_reader = "char bufr \<Rightarrow> (io_error + Header) \<times> char bufr"

fun src_conn :: "body_src \<Rightarrow> char bufr" where
  "src_conn (SrcChunked cr) = cr_r cr"
| "src_conn (SrcLimited r n) = r"
| "src_conn (SrcConn r) = r"

fun set_conn :: "char bufr \<Rightarrow> body_src \<Rightarrow> body_src" where
  "set_conn r (SrcChunked cr) = SrcChunked (cr\<lparr>cr_r := r\<rparr>)"
| "set_conn r (SrcLimited _ n) = SrcLimited r n"
| "set_conn r (SrcConn _) = SrcConn r"

text \<open>\<open>b.src.Read(p)\<close> with a slice of \<open>m\<close> bytes: \<open>io.LimitedReader\<close> stops after \<open>N\<close> bytes.\<close>

fun src_Read :: "nat \<Rightarrow> body_src \<Rightarrow> string \<times> io_error option \<times> body_src" where
  "src_Read m (SrcChunked cr) = (case cr_Read m cr of (out, err, cr') \<Rightarrow> (out, err, SrcChunked cr'))"
| "src_Read m (SrcLimited r n) =
     (if n \<le> 0 then ([], Some EOF, SrcLimited r n)
      else
        (case bufr_Read (if int m > n then nat n else m) r of
           (Inl e, r') \<Rightarrow> ([], Some e, SrcLimited r' n)
         | (Inr d, r') \<Rightarrow> (d, None, SrcLimited r' (n - int (length d)))))"
| "src_Read m (SrcConn r) =
     (case bufr_Read m r of
        (Inl e, r') \<Rightarrow> ([], Some e, SrcConn r')
      | (Inr d, r') \<Rightarrow> (d, None, SrcConn r'))"

fun limited_left :: "body_src \<Rightarrow> int option" where
  "limited_left (SrcLimited r n) = Some n"
| "limited_left _ = None"

subsection \<open>The trailer\<close>

function seeUpcomingDoubleCRLF_loop :: "nat \<Rightarrow> char bufr \<Rightarrow> bool \<times> char bufr" where
  "seeUpcomingDoubleCRLF_loop peekSize r =
     (case bufr_Peek peekSize r of (buf, err, r1) \<Rightarrow>
        if has_suffix buf (crlf @ crlf) then (True, r1)
        else if err \<noteq> None then (False, r1)
        else seeUpcomingDoubleCRLF_loop (Suc peekSize) r1)"
  by pat_completeness auto
termination
proof (relation "measure (\<lambda>(n, r). Suc bufio_size - n)", goal_cases)
  case 2
  then show ?case by (auto simp: bufr_Peek_def Let_def split: if_splits)
qed simp

declare seeUpcomingDoubleCRLF_loop.simps [simp del]

definition seeUpcomingDoubleCRLF :: "char bufr \<Rightarrow> bool \<times> char bufr" where
  "seeUpcomingDoubleCRLF r = seeUpcomingDoubleCRLF_loop 4 r"

definition errTrailerEOF :: io_error where
  "errTrailerEOF = OtherError ''http: unexpected EOF reading trailer''"

definition mergeSetHeader :: "Header option \<Rightarrow> Header \<Rightarrow> Header" where
  "mergeSetHeader dst src = (case dst of None \<Rightarrow> src | Some h \<Rightarrow> fold (\<lambda>(k, vv). AList.update k vv) src h)"

definition readTrailer :: "mime_reader \<Rightarrow> body \<Rightarrow> io_error option \<times> body" where
  "readTrailer readMIME b =
     (let conn = src_conn (bd_src b);
          set = (\<lambda>r. b\<lparr>bd_src := set_conn r (bd_src b)\<rparr>)
      in
        case bufr_Peek 2 conn of (buf, err, r1) \<Rightarrow>
          if buf = crlf then (None, set (bufr_Discard 2 r1))
          else if length buf < 2 then (Some errTrailerEOF, set r1)
          else
            (case err of
               Some e \<Rightarrow> (Some e, set r1)
             | None \<Rightarrow>
                 (case seeUpcomingDoubleCRLF r1 of (seen, r2) \<Rightarrow>
                    if \<not> seen then (Some (OtherError ''http: suspiciously long trailer after chunked body''), set r2)
                    else
                      (case readMIME r2 of
                         (Inl e, r3) \<Rightarrow> (Some (if e = EOF then errTrailerEOF else e), set r3)
                       | (Inr hdr, r3) \<Rightarrow> (None, (set r3)\<lparr>bd_trailer := Some (mergeSetHeader (bd_trailer b) hdr)\<rparr>)))))"

subsection \<open>Read\<close>

definition errBodyReadAfterClose :: io_error where
  "errBodyReadAfterClose = OtherError ''http: invalid Read on closed Body''"

definition at_EOF :: "mime_reader \<Rightarrow> body \<Rightarrow> io_error option \<times> body" where
  "at_EOF readMIME b =
     (let b1 = b\<lparr>bd_sawEOF := True\<rparr> in
      if bd_hdr b1 then
        (case readTrailer readMIME b1 of
           (Some e, b2) \<Rightarrow> (Some e, b2\<lparr>bd_sawEOF := False, bd_closed := True, bd_hdr := False\<rparr>)
         | (None, b2) \<Rightarrow> (Some EOF, b2\<lparr>bd_hdr := False\<rparr>))
      else
        (case limited_left (bd_src b1) of
           Some n \<Rightarrow> (Some (if n > 0 then ErrUnexpectedEOF else EOF), b1)
         | None \<Rightarrow> (Some EOF, b1)))"

definition readLocked :: "mime_reader \<Rightarrow> nat \<Rightarrow> body \<Rightarrow> string \<times> io_error option \<times> body" where
  "readLocked readMIME m b =
     (if bd_sawEOF b then ([], Some EOF, b)
      else
        (case src_Read m (bd_src b) of (out, err, src) \<Rightarrow>
           let b1 = b\<lparr>bd_src := src\<rparr>;
               (err1, b2) = (if err = Some EOF then at_EOF readMIME b1 else (err, b1))
           in
             if err1 = None \<and> out \<noteq> [] \<and> limited_left (bd_src b2) = Some 0
             then (out, Some EOF, b2\<lparr>bd_sawEOF := True\<rparr>)
             else (out, err1, b2)))"

definition body_Read :: "mime_reader \<Rightarrow> nat \<Rightarrow> body \<Rightarrow> string \<times> io_error option \<times> body" where
  "body_Read readMIME m b = (if bd_closed b then ([], Some errBodyReadAfterClose, b) else readLocked readMIME m b)"

subsection \<open>Reading makes progress\<close>

lemma at_EOF_err: "fst (at_EOF readMIME b) \<noteq> None"
  by (auto simp: at_EOF_def Let_def split: prod.splits option.splits)

lemma src_Read_progress:
  assumes "src_Read m src = (out, None, src')" "0 < m"
  shows "out \<noteq> [] \<and> length (remaining (src_conn src')) + length out \<le> length (remaining (src_conn src))"
proof (cases src)
  case (SrcChunked cr)
  then obtain cr' where cr': "Read_loop m [] cr = (out, cr')" "cr_err cr' = None" "src' = SrcChunked cr'"
    using assms by (auto simp: cr_Read_def split: prod.splits)
  from Read_loop_progress [OF this(1,2)] SrcChunked cr' assms show ?thesis by simp
next
  case (SrcLimited r n)
  then obtain r' where r': "bufr_Read (if int m > n then nat n else m) r = (Inr out, r')" "0 < n" "src' = SrcLimited r' (n - int (length out))"
    using assms by (auto split: prod.splits sum.splits if_splits)
  from bufr_Read_Inr [OF r'(1)] SrcLimited r' assms show ?thesis by (auto split: if_splits)
next
  case (SrcConn r)
  then obtain r' where r': "bufr_Read m r = (Inr out, r')" "src' = SrcConn r'"
    using assms by (auto split: prod.splits sum.splits)
  from bufr_Read_Inr [OF r'(1)] SrcConn r' assms show ?thesis by simp
qed

lemma readLocked_None:
  assumes "readLocked readMIME m b = (out, None, b')"
  shows "\<exists>src. src_Read m (bd_src b) = (out, None, src) \<and> b' = b\<lparr>bd_src := src\<rparr> \<and> \<not> bd_sawEOF b"
proof -
  obtain o1 e1 src where s: "src_Read m (bd_src b) = (o1, e1, src)" by (cases "src_Read m (bd_src b)")
  obtain e2 b2 where a: "at_EOF readMIME (b\<lparr>bd_src := src\<rparr>) = (e2, b2)" by fastforce
  have "e2 \<noteq> None" using at_EOF_err [of readMIME "b\<lparr>bd_src := src\<rparr>"] a by simp
  then show ?thesis using assms s a by (auto simp: readLocked_def Let_def split: if_splits)
qed

lemma body_Read_progress:
  assumes "body_Read readMIME m b = (out, None, b')" "0 < m"
  shows "length (remaining (src_conn (bd_src b'))) < length (remaining (src_conn (bd_src b)))"
proof -
  have "readLocked readMIME m b = (out, None, b')" using assms by (simp add: body_Read_def split: if_splits)
  from readLocked_None [OF this] obtain src where s: "src_Read m (bd_src b) = (out, None, src)" "b' = b\<lparr>bd_src := src\<rparr>" by blast
  from src_Read_progress [OF s(1) assms(2)] s(2) show ?thesis by (cases out) auto
qed

subsection \<open>Close\<close>

text \<open>\<open>io.Copy\<close> and \<open>io.CopyN\<close> to \<open>io.Discard\<close> read into a buffer of 8192 bytes until an error or the limit.\<close>

definition discard_size :: nat where
  "discard_size = 8192"

function discard_copy :: "mime_reader \<Rightarrow> nat \<Rightarrow> body \<Rightarrow> nat \<times> io_error option \<times> body" where
  "discard_copy readMIME acc b =
     (case body_Read readMIME discard_size b of
        (out, Some e, b') \<Rightarrow> (acc + length out, if e = EOF then None else Some e, b')
      | (out, None, b') \<Rightarrow> discard_copy readMIME (acc + length out) b')"
  by pat_completeness auto
termination
  by (relation "measure (\<lambda>(_, _, b). length (remaining (src_conn (bd_src b))))")
     (auto simp: discard_size_def dest: body_Read_progress [OF sym])

declare discard_copy.simps [simp del]

function discard_n :: "mime_reader \<Rightarrow> nat \<Rightarrow> nat \<Rightarrow> body \<Rightarrow> nat \<times> io_error option \<times> body" where
  "discard_n readMIME left acc b =
     (if left = 0 then (acc, None, b)
      else
        (case body_Read readMIME (min discard_size left) b of
           (out, Some e, b') \<Rightarrow> (acc + length out, if e = EOF then None else Some e, b')
         | (out, None, b') \<Rightarrow> discard_n readMIME (left - length out) (acc + length out) b'))"
  by pat_completeness auto
termination
  by (relation "measure (\<lambda>(_, _, _, b). length (remaining (src_conn (bd_src b))))")
     (auto simp: discard_size_def dest: body_Read_progress [OF sym])

declare discard_n.simps [simp del]

definition copyN_discard :: "mime_reader \<Rightarrow> nat \<Rightarrow> body \<Rightarrow> nat \<times> io_error option \<times> body" where
  "copyN_discard readMIME n b =
     (case discard_n readMIME n 0 b of (written, err, b') \<Rightarrow>
        if written = n then (n, None, b')
        else if written < n \<and> err = None then (written, Some EOF, b')
        else (written, err, b'))"

definition maxPostHandlerReadBytes :: nat where
  "maxPostHandlerReadBytes = 256 * 1024"

definition body_Close :: "mime_reader \<Rightarrow> body \<Rightarrow> io_error option \<times> body" where
  "body_Close readMIME b =
     (if bd_closed b then (None, b)
      else
        let (err, b1) =
          (if bd_sawEOF b then (None, b)
           else if \<not> bd_hdr b \<and> bd_closing b then (None, b)
           else if bd_doEarlyClose b then
             (if (case limited_left (bd_src b) of None \<Rightarrow> False | Some n \<Rightarrow> n > int maxPostHandlerReadBytes)
              then (None, b\<lparr>bd_earlyClose := True\<rparr>)
              else
                (case copyN_discard readMIME maxPostHandlerReadBytes b of (n, err, b1) \<Rightarrow>
                   (if err = Some EOF then None else err,
                    if n = maxPostHandlerReadBytes then b1\<lparr>bd_earlyClose := True\<rparr> else b1)))
           else (case discard_copy readMIME 0 b of (n, err, b1) \<Rightarrow> (err, b1)))
        in (err, b1\<lparr>bd_closed := True\<rparr>))"

definition didEarlyClose :: "body \<Rightarrow> bool" where
  "didEarlyClose b = bd_earlyClose b"

definition bodyRemains :: "body \<Rightarrow> bool" where
  "bodyRemains b = (\<not> bd_sawEOF b)"

definition unreadDataSizeLocked :: "body \<Rightarrow> int" where
  "unreadDataSizeLocked b = (case limited_left (bd_src b) of Some n \<Rightarrow> n | None \<Rightarrow> - 1)"

subsection \<open>What a body promises\<close>

text \<open>
  \<open>body_at b data rest\<close>: the body is about to deliver \<open>data\<close> and then \<open>io.EOF\<close>, after which the
  connection continues with \<open>rest\<close>. A chunked body without trailer is followed by an empty line.
\<close>

definition body_at :: "body \<Rightarrow> string \<Rightarrow> string \<Rightarrow> bool" where
  "body_at b data rest =
     (\<not> bd_sawEOF b \<and> \<not> bd_closed b \<and> \<not> bd_earlyClose b \<and>
      (case bd_src b of
         SrcChunked cr \<Rightarrow> bd_hdr b \<and> stream_state cr data (crlf @ rest)
       | SrcLimited r n \<Rightarrow> \<not> bd_hdr b \<and> n = int (length data) \<and> remaining r = data @ rest
       | SrcConn r \<Rightarrow> \<not> bd_hdr b \<and> remaining r = data \<and> rest = []))"

definition body_done :: "body \<Rightarrow> string \<Rightarrow> bool" where
  "body_done b rest = (bd_sawEOF b \<and> \<not> bd_closed b \<and> \<not> bd_earlyClose b \<and> remaining (src_conn (bd_src b)) = rest)"

definition delivers_body :: "nat \<Rightarrow> string \<Rightarrow> string \<Rightarrow> string \<times> io_error option \<times> body \<Rightarrow> bool" where
  "delivers_body m data rest res =
     (case res of (out, err, b') \<Rightarrow>
        \<exists>data'. data = out @ data' \<and> length out \<le> m \<and>
          (if err = None then body_at b' data' rest \<and> (0 < m \<longrightarrow> out \<noteq> [])
           else err = Some EOF \<and> data' = [] \<and> body_done b' rest))"

lemma readTrailer_empty:
  assumes "remaining (src_conn (bd_src b)) = crlf @ rest"
  shows "\<exists>r. readTrailer readMIME b = (None, b\<lparr>bd_src := set_conn r (bd_src b)\<rparr>) \<and> remaining r = rest"
proof -
  obtain d e r1 where p: "bufr_Peek 2 (src_conn (bd_src b)) = (d, e, r1)" by (cases "bufr_Peek 2 (src_conn (bd_src b))")
  have "(2 :: nat) \<le> bufio_size" by (simp add: bufio_size_def)
  note q = bufr_Peek_prefix [OF p this]
  have d: "d = crlf" using q(2) assms by (simp add: crlf_def)
  then obtain z where "bf_buf r1 = crlf @ z" using q(3) by (auto simp: prefix_def)
  then have "remaining (bufr_Discard 2 r1) = rest"
    using q(1) assms by (simp add: bufr_Discard_def remaining_def crlf_def)
  then show ?thesis using p d by (auto simp: readTrailer_def Let_def)
qed

lemma set_conn_conn [simp]: "src_conn (set_conn r src) = r"
  by (cases src) simp_all

lemma chunked_delivers:
  assumes at: "body_at b data rest" and src: "bd_src b = SrcChunked cr"
  shows "delivers_body m data rest (readLocked readMIME m b)"
proof -
  obtain out err cr' where rd: "cr_Read m cr = (out, err, cr')" by (cases "cr_Read m cr")
  have st: "stream_state cr data (crlf @ rest)" "\<not> bd_sawEOF b" "bd_hdr b" "\<not> bd_closed b" "\<not> bd_earlyClose b"
    using at src by (simp_all add: body_at_def)
  obtain data' where d: "data = out @ data'" "length out \<le> m" "err = cr_err cr'"
    and c: "if cr_err cr' = None then stream_state cr' data' (crlf @ rest) \<and> (0 < m \<longrightarrow> out \<noteq> [])
      else cr_err cr' = Some EOF \<and> data' = [] \<and> remaining (cr_r cr') = crlf @ rest"
    using cr_Read_delivers [OF st(1) rd] unfolding delivers_def by (cases "cr_err cr'") fastforce+
  let ?b = "b\<lparr>bd_src := SrcChunked cr'\<rparr>"
  show ?thesis
  proof (cases err)
    case None
    then have "readLocked readMIME m b = (out, None, ?b)" using st(2) src rd by (simp add: readLocked_def)
    moreover have "body_at ?b data' rest" using c d None st by (simp add: body_at_def)
    ultimately show ?thesis using c d None by (auto simp: delivers_body_def)
  next
    case (Some e)
    then have e: "err = Some EOF" "data' = []" "remaining (cr_r cr') = crlf @ rest" using c d by auto
    obtain r where r: "readTrailer readMIME (?b\<lparr>bd_sawEOF := True\<rparr>) =
        (None, (?b\<lparr>bd_sawEOF := True\<rparr>)\<lparr>bd_src := set_conn r (SrcChunked cr')\<rparr>)" "remaining r = rest"
      using readTrailer_empty [of "?b\<lparr>bd_sawEOF := True\<rparr>" rest readMIME] e(3) by auto
    have "readLocked readMIME m b =
        (out, Some EOF, ?b\<lparr>bd_sawEOF := True, bd_src := set_conn r (SrcChunked cr'), bd_hdr := False\<rparr>)"
      using st src rd e(1) r(1) by (simp add: readLocked_def at_EOF_def)
    then show ?thesis using d(1,2) e(2) st(4,5) r(2) by (simp add: delivers_body_def body_done_def)
  qed
qed

lemma limited_delivers:
  assumes at: "body_at b data rest" and src: "bd_src b = SrcLimited r n"
  shows "delivers_body m data rest (readLocked readMIME m b)"
proof -
  have st: "n = int (length data)" "remaining r = data @ rest" "\<not> bd_sawEOF b" "\<not> bd_hdr b" "\<not> bd_closed b" "\<not> bd_earlyClose b"
    using at src by (simp_all add: body_at_def)
  show ?thesis
  proof (cases "n \<le> 0")
    case True
    then show ?thesis
      using st src by (simp add: readLocked_def at_EOF_def delivers_body_def body_done_def)
  next
    case False
    let ?k = "if int m > n then nat n else m"
    obtain res r' where rd: "bufr_Read ?k r = (res, r')" by fastforce
    have ne: "remaining r \<noteq> []" using False st by auto
    obtain d where d: "res = Inr d"
      using rd ne bufr_Read_Inl [of ?k r _ r'] by (cases res) auto
    note rd' = bufr_Read_Inr [OF rd [unfolded d]]
    have len: "length d \<le> length data" "length d \<le> m" using rd'(3) st(1) by (auto split: if_splits)
    obtain data' where e: "data = d @ data'" "remaining r' = data' @ rest"
      using rd'(1) st(2) len(1) by (auto simp: append_eq_append_conv2)
    let ?b = "b\<lparr>bd_src := SrcLimited r' (n - int (length d))\<rparr>"
    have n': "n - int (length d) = int (length data')" using e st(1) by simp
    have rl: "readLocked readMIME m b = (if d \<noteq> [] \<and> data' = [] then (d, Some EOF, ?b\<lparr>bd_sawEOF := True\<rparr>) else (d, None, ?b))"
      using st(3) src rd d False n' by (auto simp: readLocked_def)
    have pos: "0 < m \<longrightarrow> d \<noteq> []" using rd'(2) False by auto
    show ?thesis
    proof (cases "d \<noteq> [] \<and> data' = []")
      case True
      then show ?thesis using rl e st len by (simp add: delivers_body_def body_done_def)
    next
      case False
      have "body_at ?b data' rest" using st e n' by (simp add: body_at_def)
      then show ?thesis using rl e len pos False by (auto simp: delivers_body_def)
    qed
  qed
qed

lemma conn_delivers:
  assumes at: "body_at b data rest" and src: "bd_src b = SrcConn r"
  shows "delivers_body m data rest (readLocked readMIME m b)"
proof -
  have st: "remaining r = data" "rest = []" "\<not> bd_sawEOF b" "\<not> bd_hdr b" "\<not> bd_closed b" "\<not> bd_earlyClose b"
    using at src by (simp_all add: body_at_def)
  obtain res r' where rd: "bufr_Read m r = (res, r')" by fastforce
  show ?thesis
  proof (cases res)
    case (Inl e)
    then show ?thesis
      using bufr_Read_Inl [OF rd [unfolded Inl]] st src rd
      by (simp add: readLocked_def at_EOF_def delivers_body_def body_done_def)
  next
    case (Inr d)
    note rd' = bufr_Read_Inr [OF rd [unfolded Inr]]
    have "readLocked readMIME m b = (d, None, b\<lparr>bd_src := SrcConn r'\<rparr>)" using st(3) src rd Inr by (simp add: readLocked_def)
    then show ?thesis using rd' st by (auto simp: delivers_body_def body_at_def)
  qed
qed

lemma body_Read_delivers:
  assumes "body_at b data rest"
  shows "delivers_body m data rest (body_Read readMIME m b)"
proof -
  have "\<not> bd_closed b" using assms by (simp add: body_at_def)
  then show ?thesis
    using chunked_delivers [OF assms] limited_delivers [OF assms] conn_delivers [OF assms]
    by (cases "bd_src b") (simp_all add: body_Read_def)
qed

subsection \<open>Reading to the end\<close>

fun body_ReadAll :: "mime_reader \<Rightarrow> nat list \<Rightarrow> body \<Rightarrow> string \<times> io_error option \<times> body" where
  "body_ReadAll readMIME [] b = ([], None, b)"
| "body_ReadAll readMIME (m # ms) b =
     (case body_Read readMIME m b of
        (out, Some e, b') \<Rightarrow> (out, Some e, b')
      | (out, None, b') \<Rightarrow> (case body_ReadAll readMIME ms b' of (out2, e, b2) \<Rightarrow> (out @ out2, e, b2)))"

lemma body_ReadAll_delivers:
  "body_at b data rest \<Longrightarrow> length data < length (filter (\<lambda>m. 0 < m) ms) \<Longrightarrow>
     \<exists>b'. body_ReadAll readMIME ms b = (data, Some EOF, b') \<and> body_done b' rest"
proof (induction ms arbitrary: b data)
  case Nil
  then show ?case by simp
next
  case (Cons m ms)
  obtain out err b' where rd: "body_Read readMIME m b = (out, err, b')" by (cases "body_Read readMIME m b")
  from body_Read_delivers [OF Cons.prems(1), of m readMIME] rd
  obtain data' where d: "data = out @ data'"
    and c: "if err = None then body_at b' data' rest \<and> (0 < m \<longrightarrow> out \<noteq> []) else err = Some EOF \<and> data' = [] \<and> body_done b' rest"
    unfolding delivers_body_def by auto
  show ?case
  proof (cases err)
    case None
    have "length data' < length (filter (\<lambda>m. 0 < m) ms)"
      using Cons.prems(2) c None d by (cases "0 < m"; cases out) auto
    then obtain b2 where "body_ReadAll readMIME ms b' = (data', Some EOF, b2)" "body_done b2 rest"
      using Cons.IH [of b' data'] c None by auto
    then show ?thesis using None d rd by simp
  next
    case (Some e)
    then show ?thesis using c d rd by auto
  qed
qed

text \<open>A connection that ends before the declared length.\<close>

definition body_short :: "body \<Rightarrow> string \<Rightarrow> bool" where
  "body_short b data =
     (\<not> bd_sawEOF b \<and> \<not> bd_closed b \<and> \<not> bd_hdr b \<and>
      (\<exists>r n. bd_src b = SrcLimited r n \<and> remaining r = data \<and> int (length data) < n))"

lemma body_Read_short:
  assumes "body_short b data" "body_Read readMIME m b = (out, err, b')"
  shows "\<exists>data'. data = out @ data' \<and>
    (if err = None then body_short b' data' \<and> (0 < m \<longrightarrow> out \<noteq> []) else err = Some ErrUnexpectedEOF \<and> data' = [])"
proof -
  obtain r n where s: "bd_src b = SrcLimited r n" "remaining r = data" "int (length data) < n"
    and f: "\<not> bd_sawEOF b" "\<not> bd_closed b" "\<not> bd_hdr b" using assms(1) by (auto simp: body_short_def)
  let ?k = "if int m > n then nat n else m"
  obtain res r' where rd: "bufr_Read ?k r = (res, r')" by fastforce
  have n: "\<not> n \<le> 0" using s(3) by simp
  show ?thesis
  proof (cases res)
    case (Inl e)
    then have "e = EOF" "data = []" using bufr_Read_Inl [OF rd [unfolded Inl]] s(2) by auto
    then show ?thesis
      using assms(2) f s n rd Inl by (auto simp: body_Read_def readLocked_def at_EOF_def)
  next
    case (Inr d)
    note rd' = bufr_Read_Inr [OF rd [unfolded Inr]]
    have "n - int (length d) \<noteq> 0" using rd'(1) s by auto
    then have r: "out = d" "err = None" "b' = b\<lparr>bd_src := SrcLimited r' (n - int (length d))\<rparr>"
      using assms(2) f s n rd Inr by (auto simp: body_Read_def readLocked_def)
    have "0 < m \<longrightarrow> d \<noteq> []" using rd'(2) n by auto
    then show ?thesis using r rd'(1) s f by (auto simp: body_short_def)
  qed
qed

lemma body_ReadAll_short:
  "body_short b data \<Longrightarrow> length data < length (filter (\<lambda>m. 0 < m) ms) \<Longrightarrow>
     \<exists>b'. body_ReadAll readMIME ms b = (data, Some ErrUnexpectedEOF, b')"
proof (induction ms arbitrary: b data)
  case Nil
  then show ?case by simp
next
  case (Cons m ms)
  obtain out err b' where rd: "body_Read readMIME m b = (out, err, b')" by (cases "body_Read readMIME m b")
  from body_Read_short [OF Cons.prems(1) rd] obtain data' where d: "data = out @ data'"
    and c: "if err = None then body_short b' data' \<and> (0 < m \<longrightarrow> out \<noteq> []) else err = Some ErrUnexpectedEOF \<and> data' = []" by blast
  show ?case
  proof (cases err)
    case None
    have "length data' < length (filter (\<lambda>m. 0 < m) ms)"
      using Cons.prems(2) c None d by (cases "0 < m"; cases out) auto
    then obtain b2 where "body_ReadAll readMIME ms b' = (data', Some ErrUnexpectedEOF, b2)"
      using Cons.IH [of b' data'] c None by auto
    then show ?thesis using None d rd by simp
  next
    case (Some e)
    then show ?thesis using c d rd by auto
  qed
qed

text \<open>What a connection carries after the header of a request, by its framing: the body as the peer sent
  it and what follows it.\<close>

fun carries :: "framing \<Rightarrow> string \<Rightarrow> string \<Rightarrow> string \<Rightarrow> bool" where
  "carries (LengthFraming n) wire data rest = (wire = data @ rest \<and> length data = n)"
| "carries ChunkedFraming wire data rest = (\<exists>ds. chunks_ok ds \<and> data = concat ds \<and> wire = chunks_wire ds (crlf @ rest))"

lemma framed_body_at:
  assumes "framed f msg r msg'" "carries f (remaining r) data rest" "msg_Body msg' = Some b"
  shows "body_at b data rest"
proof (cases f)
  case ChunkedFraming
  then obtain ds where ds: "chunks_ok ds" "data = concat ds" "remaining r = chunks_wire ds (crlf @ rest)" using assms(2) by auto
  have "b = new_body (SrcChunked (NewChunkedReader r)) True (msg_Close msg) (msg_Trailer msg')"
    using assms(1,3) ChunkedFraming by (simp add: framed_def)
  then show ?thesis using new_reader_stream [OF ds(1,3)] ds(2) by (simp add: body_at_def new_body_def)
next
  case (LengthFraming n)
  then have "b = new_body (SrcLimited r (int n)) False (msg_Close msg) None"
    using assms(1,3) by (auto simp: framed_def split: if_splits)
  then show ?thesis using assms(2) LengthFraming by (simp add: body_at_def new_body_def)
qed

lemma framed_exact:
  assumes "framed f msg r msg'" "carries f (remaining r) data rest"
  shows "case msg_Body msg' of
      None \<Rightarrow> data = [] \<and> remaining r = rest
    | Some b \<Rightarrow>
        length data < length (filter (\<lambda>m. 0 < m) ms) \<longrightarrow>
        (\<exists>b'. body_ReadAll readMIME ms b = (data, Some EOF, b') \<and> remaining (src_conn (bd_src b')) = rest)"
proof (cases "msg_Body msg'")
  case None
  then show ?thesis using assms by (cases f) (auto simp: framed_def split: if_splits)
next
  case (Some b)
  from body_ReadAll_delivers [OF framed_body_at [OF assms Some], of ms readMIME] Some show ?thesis
    by (auto simp: body_done_def)
qed


subsection \<open>Closing\<close>

lemma discard_size_pos: "0 < discard_size"
  by (simp add: discard_size_def)

lemma discard_copy_at:
  "body_at b data rest \<Longrightarrow> \<exists>b'. discard_copy readMIME acc b = (acc + length data, None, b') \<and> body_done b' rest"
proof (induction readMIME acc b arbitrary: data rule: discard_copy.induct)
  case (1 readMIME acc b)
  obtain out err b' where rd: "body_Read readMIME discard_size b = (out, err, b')" by (cases "body_Read readMIME discard_size b")
  from body_Read_delivers [OF "1.prems", of discard_size readMIME] rd obtain data' where d: "data = out @ data'"
    and c: "if err = None then body_at b' data' rest \<and> out \<noteq> [] else err = Some EOF \<and> data' = [] \<and> body_done b' rest"
    unfolding delivers_body_def using discard_size_pos by auto
  show ?case
  proof (cases err)
    case None
    then obtain b2 where "discard_copy readMIME (acc + length out) b' = (acc + length out + length data', None, b2)" "body_done b2 rest"
      using "1.IH" [OF rd [symmetric] refl None, of data'] c by auto
    then show ?thesis using rd None d by (simp add: discard_copy.simps [of readMIME acc b])
  next
    case (Some e)
    then show ?thesis using rd c d by (simp add: discard_copy.simps [of readMIME acc b])
  qed
qed

lemma discard_n_at:
  "body_at b data rest \<Longrightarrow> \<exists>n b'. discard_n readMIME left acc b = (n, None, b') \<and>
     (body_done b' rest \<and> n = acc + length data \<and> length data \<le> left \<or>
      (\<exists>data'. body_at b' data' rest) \<and> n = acc + left \<and> left \<le> length data)"
proof (induction readMIME left acc b arbitrary: data rule: discard_n.induct)
  case (1 readMIME left acc b)
  show ?case
  proof (cases "left = 0")
    case True
    then have "discard_n readMIME left acc b = (acc, None, b)" unfolding discard_n.simps [of readMIME left acc b] by simp
    then show ?thesis using "1.prems" True by auto
  next
    case False
    let ?k = "min discard_size left"
    have k: "0 < ?k" using False discard_size_pos by simp
    obtain out err b' where rd: "body_Read readMIME ?k b = (out, err, b')" by (cases "body_Read readMIME ?k b")
    from body_Read_delivers [OF "1.prems", of ?k readMIME] rd obtain data' where d: "data = out @ data'" "length out \<le> ?k"
      and c: "if err = None then body_at b' data' rest \<and> out \<noteq> [] else err = Some EOF \<and> data' = [] \<and> body_done b' rest"
      unfolding delivers_body_def using k by auto
    show ?thesis
    proof (cases err)
      case None
      have "body_at b' data' rest" using c None by simp
      from "1.IH" [OF False rd [symmetric] refl None this] show ?thesis
        using rd None d False by (auto simp: discard_n.simps [of readMIME left acc b])
    next
      case (Some e)
      then show ?thesis using rd c d False by (auto simp: discard_n.simps [of readMIME left acc b])
    qed
  qed
qed

lemma body_Close_at:
  assumes at: "body_at b data rest" and close: "body_Close readMIME b = (err, b')"
  shows "err = None \<and> bd_closed b' \<and>
    (didEarlyClose b' \<longrightarrow> bd_doEarlyClose b \<and> maxPostHandlerReadBytes \<le> length data) \<and>
    (didEarlyClose b' \<or> \<not> bd_hdr b \<and> bd_closing b \<or> \<not> bodyRemains b' \<and> remaining (src_conn (bd_src b')) = rest)"
proof -
  have f: "\<not> bd_closed b" "\<not> bd_sawEOF b" "\<not> bd_earlyClose b" using at by (simp_all add: body_at_def)
  let ?big = "case limited_left (bd_src b) of None \<Rightarrow> False | Some n \<Rightarrow> n > int maxPostHandlerReadBytes"
  consider (closing) "\<not> bd_hdr b \<and> bd_closing b"
    | (large) "\<not> (\<not> bd_hdr b \<and> bd_closing b)" "bd_doEarlyClose b" ?big
    | (early) "\<not> (\<not> bd_hdr b \<and> bd_closing b)" "bd_doEarlyClose b" "\<not> ?big"
    | (all) "\<not> (\<not> bd_hdr b \<and> bd_closing b)" "\<not> bd_doEarlyClose b"
    by blast
  then show ?thesis
  proof cases
    case closing
    then show ?thesis using close f by (auto simp: body_Close_def didEarlyClose_def)
  next
    case large
    then have "maxPostHandlerReadBytes < length data" using at by (cases "bd_src b") (auto simp: body_at_def)
    then show ?thesis using close f large by (auto simp: body_Close_def didEarlyClose_def)
  next
    case early
    obtain n b1 where d: "discard_n readMIME maxPostHandlerReadBytes 0 b = (n, None, b1)"
      and c: "body_done b1 rest \<and> n = length data \<and> length data \<le> maxPostHandlerReadBytes \<or>
        (\<exists>data'. body_at b1 data' rest) \<and> n = maxPostHandlerReadBytes \<and> maxPostHandlerReadBytes \<le> length data"
      using discard_n_at [OF at, of readMIME maxPostHandlerReadBytes 0] by auto
    have "body_Close readMIME b =
        (None, (if n = maxPostHandlerReadBytes then b1\<lparr>bd_earlyClose := True\<rparr> else b1)\<lparr>bd_closed := True\<rparr>)"
      using early f d c unfolding body_Close_def Let_def copyN_discard_def
      by (auto split: if_splits)
    then show ?thesis using close c early(2) by (auto simp: didEarlyClose_def bodyRemains_def body_done_def split: if_splits)
  next
    case all
    obtain b1 where d: "discard_copy readMIME 0 b = (length data, None, b1)" "body_done b1 rest"
      using discard_copy_at [OF at, of readMIME 0] by auto
    then have "body_Close readMIME b = (None, b1\<lparr>bd_closed := True\<rparr>)" using all f by (auto simp: body_Close_def)
    then show ?thesis using close d(2) by (auto simp: didEarlyClose_def bodyRemains_def body_done_def)
  qed
qed

text \<open>A connection is reused only at a message boundary. Closing a body that is still to deliver \<open>data\<close>
  before \<open>rest\<close> reports no error and closes it. Unless the connection is closed after the message
  anyway, either the rest of the body was read, so that the connection continues exactly with \<open>rest\<close>, or \<open>didEarlyClose\<close>
  reports that it may not be reused; that happens only when at least \<open>maxPostHandlerReadBytes\<close> were left,
  and never for a body that reads to the end.\<close>

theorem body_Close_boundary:
  assumes at: "body_at b data rest" and close: "body_Close readMIME b = (err, b')"
  shows "err = None \<and> bd_closed b' \<and>
    (didEarlyClose b' \<longrightarrow> bd_doEarlyClose b \<and> maxPostHandlerReadBytes \<le> length data) \<and>
    (didEarlyClose b' \<or> \<not> bd_hdr b \<and> bd_closing b \<or> \<not> bodyRemains b' \<and> remaining (src_conn (bd_src b')) = rest)"
  by (rule body_Close_at [OF at close])

subsection \<open>Examples\<close>

definition no_trailer :: mime_reader where
  "no_trailer r = (Inl EOF, r)"

definition hello_conn :: "char bufr" where
  "hello_conn = \<lparr>bf_buf = ''he'', bf_src = [''llo'', ''GET'']\<rparr>"

lemma hello_body:
  "body_at (new_body (SrcLimited hello_conn 5) False False None) ''hello'' ''GET''"
  by (simp add: body_at_def new_body_def hello_conn_def remaining_def)


theorem body_Close_boundary_witness:
  "\<exists>b'. body_Close no_trailer (new_body (SrcLimited hello_conn 5) False False None) = (None, b') \<and>
     remaining (src_conn (bd_src b')) = ''GET''"
proof -
  let ?b = "new_body (SrcLimited hello_conn 5) False False None"
  obtain err b' where c: "body_Close no_trailer ?b = (err, b')" by fastforce
  from body_Close_boundary [OF hello_body c] c show ?thesis by (auto simp: new_body_def)
qed

end
