(* ===== verification/Server_Response.thy ===== *)
theory Server_Response
  imports Body Response_Writer
begin

section \<open>The server's responses (server.go, response and chunkWriter)\<close>

text \<open>
  The \<open>ResponseWriter\<close> that handlers get from the server: the handler's writes go through a buffer of 2048 bytes
  to \<open>chunkWriter\<close>, which decides on the first write, when the header is sent, how the body is framed, and
  then through the connection's buffer to the wire. The records have the fields of the structs; a request
  body of \<open>None\<close> is \<open>NoBody\<close>. Arguments of the model, in the record \<open>server_env\<close>, are the \<open>httpguts\<close>
  predicates, \<open>textproto.Reader.ReadMIMEHeader\<close>, the formatted time and whether keep-alives are enabled.
  \<open>Hijack\<close>, \<open>CloseNotify\<close>, \<open>ReadFrom\<close> and the deadlines are left out. \<open>written\<close> is an unbounded
  integer here; the code's \<open>int64\<close> would need \<open>2 ^ 63\<close> bytes to wrap.
\<close>

record server_env =
  sv_lib :: golib
  sv_validTrailer :: "string \<Rightarrow> bool"
  sv_readMIME :: mime_reader
  sv_date :: string
  sv_keepAlives :: bool

text \<open>What \<open>w.req.Body\<close> is: the body or \<open>NoBody\<close> the request came with, an \<open>expectContinueReader\<close> around it with
  its flags \<open>closed\<close> and \<open>sawEOF\<close>, or a reader that the handler put in its place.\<close>

datatype req_Body = OwnBody | ExpectContinue bool bool | OtherBody

record server_req =
  rq_Method :: string
  rq_ProtoMajor :: int
  rq_ProtoMinor :: int
  rq_ContentLength :: int
  rq_Body :: req_Body

record server_conn =
  c_bufw :: "char bufw"
  c_closed :: bool
  c_hijacked :: bool

record chunkWriter =
  cw_header :: "Header option"
  cw_wroteHeader :: bool
  cw_chunking :: bool

record response =
  rs_conn :: server_conn
  rs_req :: server_req
  rs_reqBody :: "body option"
  rs_wroteHeader :: bool
  rs_wroteContinue :: bool
  rs_wants10KeepAlive :: bool
  rs_wantsClose :: bool
  rs_canWriteContinue :: bool
  rs_w :: string
  rs_w_err :: "io_error option"
  rs_cw :: chunkWriter
  rs_handlerHeader :: Header
  rs_calledHeader :: bool
  rs_written :: int
  rs_contentLength :: int
  rs_status :: int
  rs_closeAfterReply :: bool
  rs_fullDuplex :: bool
  rs_requestBodyLimitHit :: bool
  rs_trailers :: "string list"
  rs_handlerDone :: bool

definition bufferBeforeChunkingSize :: nat where
  "bufferBeforeChunkingSize = 2048"

definition ProtoAtLeast :: "server_req \<Rightarrow> int \<Rightarrow> int \<Rightarrow> bool" where
  "ProtoAtLeast r major minor = (rq_ProtoMajor r > major \<or> (rq_ProtoMajor r = major \<and> rq_ProtoMinor r \<ge> minor))"

definition wantsHttp10KeepAlive :: "server_req \<Rightarrow> Header \<Rightarrow> bool" where
  "wantsHttp10KeepAlive r h =
     (if rq_ProtoMajor r \<noteq> 1 \<or> rq_ProtoMinor r \<noteq> 0 then False else hasToken (header_get h ''Connection'') ''keep-alive'')"

definition wantsClose :: "bool \<Rightarrow> Header \<Rightarrow> bool" where
  "wantsClose closing h = (if closing then True else hasToken (header_get h ''Connection'') ''close'')"

definition expectsContinue :: "Header \<Rightarrow> bool" where
  "expectsContinue h = hasToken (header_get h ''Expect'') ''100-continue''"

text \<open>The response that \<open>readRequest\<close> builds for a request with header \<open>h\<close> and field \<open>Close\<close>.\<close>

definition new_response :: "server_conn \<Rightarrow> server_req \<Rightarrow> Header \<Rightarrow> bool \<Rightarrow> body option \<Rightarrow> bool \<Rightarrow> response" where
  "new_response c req h closing reqBody isH2Upgrade =
     \<lparr>rs_conn = c, rs_req = req, rs_reqBody = reqBody, rs_wroteHeader = False, rs_wroteContinue = False,
      rs_wants10KeepAlive = wantsHttp10KeepAlive req h, rs_wantsClose = wantsClose closing h,
      rs_canWriteContinue = False, rs_w = [], rs_w_err = None,
      rs_cw = \<lparr>cw_header = None, cw_wroteHeader = False, cw_chunking = False\<rparr>,
      rs_handlerHeader = [], rs_calledHeader = False, rs_written = 0, rs_contentLength = - 1, rs_status = 0,
      rs_closeAfterReply = isH2Upgrade, rs_fullDuplex = False, rs_requestBodyLimitHit = False, rs_trailers = [],
      rs_handlerDone = False\<rparr>"

text \<open>The part of \<open>serve\<close> that wraps the body of a request with \<open>Expect: 100-continue\<close>.\<close>

definition expect_continue :: "Header \<Rightarrow> response \<Rightarrow> response" where
  "expect_continue h w =
     (if expectsContinue h \<and> ProtoAtLeast (rs_req w) 1 1 \<and> rq_ContentLength (rs_req w) \<noteq> 0
      then w\<lparr>rs_req := (rs_req w)\<lparr>rq_Body := ExpectContinue False False\<rparr>, rs_canWriteContinue := True\<rparr>
      else w)"

subsection \<open>The connection's buffer\<close>

text \<open>One write to \<open>conn.bufw\<close> and a sequence of writes whose results are not looked at.\<close>

definition conn_Write :: "(char, response) write_fun" where
  "conn_Write d w =
     (case bufw_Write d (c_bufw (rs_conn w)) of (n, err, b) \<Rightarrow> (n, err, w\<lparr>rs_conn := (rs_conn w)\<lparr>c_bufw := b\<rparr>\<rparr>))"

definition conn_Flush :: "response \<Rightarrow> io_error option \<times> response" where
  "conn_Flush w =
     (case bufw_Flush (c_bufw (rs_conn w)) of (err, b) \<Rightarrow> (err, w\<lparr>rs_conn := (rs_conn w)\<lparr>c_bufw := b\<rparr>\<rparr>))"

definition conn_Puts :: "string list \<Rightarrow> response \<Rightarrow> response" where
  "conn_Puts ds w = fold (\<lambda>d w. snd (snd (conn_Write d w))) ds w"

definition rwc_Close :: "response \<Rightarrow> response" where
  "rwc_Close w = w\<lparr>rs_conn := (rs_conn w)\<lparr>c_closed := True\<rparr>\<rparr>"

text \<open>\<open>writeStatusLine\<close>: the pieces it writes. \<open>AppendInt\<close> and \<open>%d\<close> of a code that \<open>WriteHeader\<close> accepted are its
  decimal digits.\<close>

definition status_line :: "bool \<Rightarrow> int \<Rightarrow> string list" where
  "status_line is11 code =
     (if is11 then ''HTTP/1.1 '' else ''HTTP/1.0 '') #
     (if StatusText code \<noteq> [] then [fmt_int code, '' '', StatusText code, crlf]
      else [fmt_03 code @ '' status code '' @ fmt_int code @ crlf])"

definition writeStatusLine :: "bool \<Rightarrow> int \<Rightarrow> response \<Rightarrow> response" where
  "writeStatusLine is11 code w = conn_Puts (status_line is11 code) w"

subsection \<open>The header\<close>

definition response_Header :: "response \<Rightarrow> Header \<times> response" where
  "response_Header w =
     (let w1 = (if cw_header (rs_cw w) = None \<and> rs_wroteHeader w \<and> \<not> cw_wroteHeader (rs_cw w)
                then w\<lparr>rs_cw := (rs_cw w)\<lparr>cw_header := Some (rs_handlerHeader w)\<rparr>\<rparr> else w)
      in (rs_handlerHeader w1, w1\<lparr>rs_calledHeader := True\<rparr>))"

definition excludedHeadersNoBody :: "string \<Rightarrow> bool" where
  "excludedHeadersNoBody k = (k = ''Content-Length'' \<or> k = ''Transfer-Encoding'')"

definition response_WriteHeader :: "server_env \<Rightarrow> int \<Rightarrow> response \<Rightarrow> response go" where
  "response_WriteHeader E code w =
     (if c_hijacked (rs_conn w) then Ret w
      else if rs_wroteHeader w then Ret w
      else go_bind (checkWriteHeaderCode code) (\<lambda>_.
        if 100 \<le> code \<and> code \<le> 199 \<and> code \<noteq> 101 then
          (let w1 = (if code = 100 \<and> rs_canWriteContinue w then w\<lparr>rs_canWriteContinue := False\<rparr> else w);
               w2 = writeStatusLine (ProtoAtLeast (rs_req w1) 1 1) code w1;
               w3 = snd (writeSubset (sv_lib E) conn_Write excludedHeadersNoBody (rs_handlerHeader w2) w2);
               w4 = snd (snd (conn_Write crlf w3))
           in Ret (snd (conn_Flush w4)))
        else
          (let w1 = w\<lparr>rs_wroteHeader := True, rs_status := code\<rparr>;
               w2 = (if rs_calledHeader w1 \<and> cw_header (rs_cw w1) = None
                     then w1\<lparr>rs_cw := (rs_cw w1)\<lparr>cw_header := Some (rs_handlerHeader w1)\<rparr>\<rparr> else w1);
               cl = header_get (rs_handlerHeader w2) ''Content-Length''
           in Ret (if cl = [] then w2
                   else
                     (case parse_int 64 cl of
                        Inr v \<Rightarrow> if v \<ge> 0 then w2\<lparr>rs_contentLength := v\<rparr>
                                 else w2\<lparr>rs_handlerHeader := Header_Del ''Content-Length'' (rs_handlerHeader w2)\<rparr>
                      | Inl e \<Rightarrow> w2\<lparr>rs_handlerHeader := Header_Del ''Content-Length'' (rs_handlerHeader w2)\<rparr>)))))"

definition declareTrailer :: "server_env \<Rightarrow> string \<Rightarrow> response \<Rightarrow> response" where
  "declareTrailer E k0 w =
     (let k = CanonicalHeaderKey k0 in
      if \<not> sv_validTrailer E k then w else w\<lparr>rs_trailers := rs_trailers w @ [k]\<rparr>)"

definition requestTooLarge :: "response \<Rightarrow> response" where
  "requestTooLarge w =
     (let w1 = w\<lparr>rs_closeAfterReply := True, rs_requestBodyLimitHit := True\<rparr> in
      if \<not> rs_wroteHeader w1
      then (case response_Header w1 of (h, w2) \<Rightarrow> w2\<lparr>rs_handlerHeader := Header_Set ''Connection'' ''close'' h\<rparr>)
      else w1)"

definition isProtocolSwitchResponse :: "golib \<Rightarrow> int \<Rightarrow> Header \<Rightarrow> bool" where
  "isProtocolSwitchResponse L code h =
     (code = 101 \<and> Header_Get h ''Upgrade'' \<noteq> [] \<and> lib_HeaderValuesContainsToken L (header_values h ''Connection'') ''Upgrade'')"

text \<open>\<open>extraHeader\<close> and the lines its \<open>Write\<close> adds.\<close>

record extraHeader =
  eh_contentType :: string
  eh_connection :: string
  eh_transferEncoding :: string
  eh_date :: "string option"
  eh_contentLength :: "string option"

definition extra_fields :: "extraHeader \<Rightarrow> (string \<times> string) list" where
  "extra_fields h =
     (case eh_date h of None \<Rightarrow> [] | Some d \<Rightarrow> [(''Date'', d)]) @
     (case eh_contentLength h of None \<Rightarrow> [] | Some d \<Rightarrow> [(''Content-Length'', d)]) @
     [kv \<leftarrow> [(''Content-Type'', eh_contentType h), (''Connection'', eh_connection h),
             (''Transfer-Encoding'', eh_transferEncoding h)]. snd kv \<noteq> []]"

definition extraHeader_Write :: "extraHeader \<Rightarrow> response \<Rightarrow> response" where
  "extraHeader_Write h w = conn_Puts (concat (map field_strings (extra_fields h))) w"

subsection \<open>Finalizing the header\<close>

text \<open>
  The variables of \<open>chunkWriter.writeHeader\<close>: \<open>header\<close> is the snapshot \<open>cw.header\<close> if there is one (\<open>owned\<close>) and
  else the handler's map, \<open>excludeHeader\<close> the keys not to write and \<open>setHeader\<close> the lines to add.
\<close>

record header_vars =
  hv_owned :: bool
  hv_header :: Header
  hv_exclude :: "string list"
  hv_set :: extraHeader

definition delHeader :: "string \<Rightarrow> header_vars \<Rightarrow> header_vars" where
  "delHeader key v =
     (if hv_owned v then v\<lparr>hv_header := Header_Del key (hv_header v)\<rparr>
      else if \<not> header_has (hv_header v) key then v
      else v\<lparr>hv_exclude := key # hv_exclude v\<rparr>)"

definition set_extra :: "(extraHeader \<Rightarrow> extraHeader) \<Rightarrow> header_vars \<Rightarrow> header_vars" where
  "set_extra f v = v\<lparr>hv_set := f (hv_set v)\<rparr>"

definition header_start :: "response \<Rightarrow> header_vars" where
  "header_start w =
     \<lparr>hv_owned = (cw_header (rs_cw w) \<noteq> None),
      hv_header = (case cw_header (rs_cw w) of Some h \<Rightarrow> h | None \<Rightarrow> rs_handlerHeader w),
      hv_exclude = [],
      hv_set = \<lparr>eh_contentType = [], eh_connection = [], eh_transferEncoding = [], eh_date = None, eh_contentLength = None\<rparr>\<rparr>"

text \<open>The fake keys with \<open>TrailerPrefix\<close>, and the trailers the header announces.\<close>

definition TrailerPrefix :: string where
  "TrailerPrefix = ''Trailer:''"

definition header_trailers :: "server_env \<Rightarrow> header_vars \<times> response \<Rightarrow> bool \<times> header_vars \<times> response" where
  "header_trailers E vw =
     (case vw of (v, w) \<Rightarrow>
        let cwh = (case cw_header (rs_cw w) of None \<Rightarrow> [] | Some h \<Rightarrow> h);
            fake = [k \<leftarrow> map fst cwh. has_prefix k TrailerPrefix];
            vals = header_values cwh ''Trailer''
        in (fake \<noteq> [] \<or> vals \<noteq> [], v\<lparr>hv_exclude := rev fake @ hv_exclude v\<rparr>,
            fold (declareTrailer E) (concat (map foreachHeaderElement vals)) w))"

definition auto_length :: "bool \<Rightarrow> bool \<Rightarrow> nat \<Rightarrow> header_vars \<times> response \<Rightarrow> header_vars \<times> response" where
  "auto_length trailers hasTE len vw =
     (case vw of (v, w) \<Rightarrow>
        if rs_handlerDone w \<and> \<not> trailers \<and> \<not> hasTE \<and> bodyAllowedForStatus (rs_status w) \<and>
           \<not> header_has (hv_header v) ''Content-Length'' \<and> (rq_Method (rs_req w) \<noteq> ''HEAD'' \<or> len > 0)
        then (set_extra (\<lambda>s. s\<lparr>eh_contentLength := Some (fmt_int (int len))\<rparr>) v, w\<lparr>rs_contentLength := int len\<rparr>)
        else (v, w))"

definition keep_alive10 :: "bool \<Rightarrow> Header \<Rightarrow> response \<Rightarrow> response" where
  "keep_alive10 keepAlivesEnabled header w =
     (if rs_wants10KeepAlive w \<and> keepAlivesEnabled \<and> header_get header ''Content-Length'' \<noteq> [] \<and>
         header_get header ''Connection'' = ''keep-alive''
      then w\<lparr>rs_closeAfterReply := False\<rparr> else w)"

definition keep_alive_reply :: "header_vars \<times> response \<Rightarrow> header_vars \<times> response" where
  "keep_alive_reply vw =
     (case vw of (v, w) \<Rightarrow>
        if rs_wants10KeepAlive w \<and> (rq_Method (rs_req w) = ''HEAD'' \<or> rs_contentLength w \<noteq> - 1 \<or> \<not> bodyAllowedForStatus (rs_status w))
        then (if \<not> header_has (hv_header v) ''Connection'' then set_extra (\<lambda>s. s\<lparr>eh_connection := ''keep-alive''\<rparr>) v else v, w)
        else if \<not> ProtoAtLeast (rs_req w) 1 1 \<or> rs_wantsClose w then (v, w\<lparr>rs_closeAfterReply := True\<rparr>)
        else (v, w))"

definition close_asked :: "bool \<Rightarrow> Header \<Rightarrow> response \<Rightarrow> response" where
  "close_asked keepAlivesEnabled header w =
     (if header_get header ''Connection'' = ''close'' \<or> \<not> keepAlivesEnabled then w\<lparr>rs_closeAfterReply := True\<rparr> else w)"

definition close_unread_expect :: "response \<Rightarrow> response" where
  "close_unread_expect w =
     (case rq_Body (rs_req w) of
        ExpectContinue closed sawEOF \<Rightarrow> if \<not> sawEOF then w\<lparr>rs_closeAfterReply := True\<rparr> else w
      | _ \<Rightarrow> w)"

definition keep_alive :: "bool \<Rightarrow> header_vars \<times> response \<Rightarrow> header_vars \<times> response" where
  "keep_alive keepAlivesEnabled vw =
     (case vw of (v, w) \<Rightarrow>
        case keep_alive_reply (v, keep_alive10 keepAlivesEnabled (hv_header v) w) of (v2, w2) \<Rightarrow>
          (v2, close_unread_expect (close_asked keepAlivesEnabled (hv_header v) w2)))"

text \<open>Reading what the handler left of the request body: whether to discard, and whether it is too big.\<close>

definition drain_choice :: "response \<Rightarrow> bool \<times> bool \<times> response" where
  "drain_choice w =
     (case rq_Body (rs_req w) of
        ExpectContinue closed sawEOF \<Rightarrow> (rs_wroteContinue w, False, w)
      | OwnBody \<Rightarrow>
          (case rs_reqBody w of
             Some b \<Rightarrow>
               if bd_closed b then (False, False, if \<not> bd_sawEOF b then w\<lparr>rs_closeAfterReply := True\<rparr> else w)
               else if unreadDataSizeLocked b \<ge> int maxPostHandlerReadBytes then (False, True, w)
               else (True, False, w)
           | None \<Rightarrow> (True, False, w))
      | OtherBody \<Rightarrow> (True, False, w))"

definition drain_discard :: "server_env \<Rightarrow> response \<Rightarrow> bool \<times> response" where
  "drain_discard E w =
     (case rs_reqBody w of
        None \<Rightarrow> (False, w)
      | Some b \<Rightarrow>
          (case copyN_discard (sv_readMIME E) (maxPostHandlerReadBytes + 1) b of (n, err, b1) \<Rightarrow>
             let w1 = w\<lparr>rs_reqBody := Some b1\<rparr> in
             if err = None then (True, w1)
             else if err = Some errBodyReadAfterClose then (False, w1)
             else if err = Some EOF then
               (case body_Close (sv_readMIME E) b1 of (err2, b2) \<Rightarrow>
                  let w2 = w1\<lparr>rs_reqBody := Some b2\<rparr> in
                  (False, if err2 \<noteq> None then w2\<lparr>rs_closeAfterReply := True\<rparr> else w2))
             else (False, w1\<lparr>rs_closeAfterReply := True\<rparr>)))"

definition drain_body :: "server_env \<Rightarrow> header_vars \<times> response \<Rightarrow> header_vars \<times> response" where
  "drain_body E vw =
     (case vw of (v, w) \<Rightarrow>
        if rq_ContentLength (rs_req w) \<noteq> 0 \<and> \<not> rs_closeAfterReply w \<and> \<not> rs_fullDuplex w then
          (case drain_choice w of (disc, big, w1) \<Rightarrow>
             case (if disc then drain_discard E w1 else (big, w1)) of (tooBig, w2) \<Rightarrow>
               if tooBig
               then (set_extra (\<lambda>s. s\<lparr>eh_connection := ''close''\<rparr>) (delHeader ''Connection'' v), requestTooLarge w2)
               else (v, w2))
        else (v, w))"

definition header_type :: "bool \<Rightarrow> string \<Rightarrow> int \<Rightarrow> header_vars \<Rightarrow> header_vars" where
  "header_type hasTE p code v =
     (if bodyAllowedForStatus code then
        (if Header_Get (hv_header v) ''Content-Encoding'' = [] \<and> \<not> header_has (hv_header v) ''Content-Type'' \<and> \<not> hasTE \<and> p \<noteq> []
         then set_extra (\<lambda>s. s\<lparr>eh_contentType := DetectContentType p\<rparr>) v else v)
      else fold delHeader (suppressedHeaders code) v)"

definition header_date :: "server_env \<Rightarrow> header_vars \<Rightarrow> header_vars" where
  "header_date E v =
     (if \<not> header_has (hv_header v) ''Date'' then set_extra (\<lambda>s. s\<lparr>eh_date := Some (sv_date E)\<rparr>) v else v)"

text \<open>How the body is framed; \<open>te\<close> and \<open>hasCL0\<close> as they were found above.\<close>

definition body_framing :: "string \<Rightarrow> bool \<Rightarrow> header_vars \<times> response \<Rightarrow> header_vars \<times> response" where
  "body_framing te hasCL vw =
     (case vw of (v, w) \<Rightarrow>
        if rq_Method (rs_req w) = ''HEAD'' \<or> \<not> bodyAllowedForStatus (rs_status w) \<or> rs_status w = 204
        then (delHeader ''Transfer-Encoding'' v, w)
        else if hasCL then (delHeader ''Transfer-Encoding'' v, w)
        else if ProtoAtLeast (rs_req w) 1 1 then
          (if te \<noteq> [] \<and> te = ''identity''
           then (delHeader ''Transfer-Encoding'' v, w\<lparr>rs_cw := (rs_cw w)\<lparr>cw_chunking := False\<rparr>, rs_closeAfterReply := True\<rparr>)
           else
             (let v1 = set_extra (\<lambda>s. s\<lparr>eh_transferEncoding := ''chunked''\<rparr>) v in
              (if te \<noteq> [] \<and> te = ''chunked'' then delHeader ''Transfer-Encoding'' v1 else v1,
               w\<lparr>rs_cw := (rs_cw w)\<lparr>cw_chunking := True\<rparr>\<rparr>)))
        else (delHeader ''Transfer-Encoding'' v, w\<lparr>rs_closeAfterReply := True\<rparr>))"

definition header_framing :: "string \<Rightarrow> bool \<Rightarrow> header_vars \<times> response \<Rightarrow> header_vars \<times> response" where
  "header_framing te hasCL vw =
     (case vw of (v, w) \<Rightarrow>
        let both = (hasCL \<and> te \<noteq> [] \<and> te \<noteq> ''identity'') in
        case body_framing te (hasCL \<and> \<not> both) (if both then delHeader ''Content-Length'' v else v, w) of
          (v2, w2) \<Rightarrow> (if cw_chunking (rs_cw w2) then delHeader ''Content-Length'' v2 else v2, w2))"

definition header_connection :: "server_env \<Rightarrow> header_vars \<times> response \<Rightarrow> header_vars" where
  "header_connection E vw =
     (case vw of (v, w) \<Rightarrow>
        let own = (if hv_owned v then hv_header v else []) in
        if rs_closeAfterReply w \<and> (\<not> sv_keepAlives E \<or> \<not> hasToken (header_get own ''Connection'') ''close'') \<and>
           \<not> isProtocolSwitchResponse (sv_lib E) (rs_status w) (hv_header v)
        then (let v1 = delHeader ''Connection'' v in
              if ProtoAtLeast (rs_req w) 1 1 then set_extra (\<lambda>s. s\<lparr>eh_connection := ''close''\<rparr>) v1 else v1)
        else v)"

definition header_emit :: "server_env \<Rightarrow> header_vars \<times> response \<Rightarrow> response" where
  "header_emit E vw =
     (case vw of (v, w) \<Rightarrow>
        let own = (if hv_owned v then hv_header v else []);
            w1 = (if hv_owned v then w\<lparr>rs_cw := (rs_cw w)\<lparr>cw_header := Some own\<rparr>\<rparr> else w);
            w2 = writeStatusLine (ProtoAtLeast (rs_req w1) 1 1) (rs_status w1) w1;
            w3 = snd (writeSubset (sv_lib E) conn_Write (\<lambda>k. k \<in> set (hv_exclude v)) own w2);
            w4 = extraHeader_Write (hv_set v) w3
        in snd (snd (conn_Write crlf w4)))"

definition chunkWriter_writeHeader :: "server_env \<Rightarrow> string \<Rightarrow> response \<Rightarrow> response" where
  "chunkWriter_writeHeader E p w0 =
     (if cw_wroteHeader (rs_cw w0) then w0
      else
        (let w = w0\<lparr>rs_cw := (rs_cw w0)\<lparr>cw_wroteHeader := True\<rparr>\<rparr>;
             (trailers, vw1) = header_trailers E (header_start w, w);
             te = header_get (hv_header (fst vw1)) ''Transfer-Encoding'';
             vw2 = auto_length trailers (te \<noteq> []) (length p) vw1;
             vw3 = keep_alive (sv_keepAlives E) vw2;
             hasCL = (rs_contentLength (snd vw3) \<noteq> - 1);
             (v4, w4) = drain_body E vw3;
             v5 = header_type (te \<noteq> []) p (rs_status w4) v4;
             v6 = header_date E v5;
             (v7, w7) = header_framing te hasCL (v6, w4)
         in
           if \<not> ProtoAtLeast (rs_req w7) 1 0
           then (if hv_owned v7 then w7\<lparr>rs_cw := (rs_cw w7)\<lparr>cw_header := Some (hv_header v7)\<rparr>\<rparr> else w7)
           else header_emit E (header_connection E (v7, w7), w7)))"

subsection \<open>The chunk writer\<close>

definition finalTrailers :: "response \<Rightarrow> Header option" where
  "finalTrailers w =
     (let fake = [(drop (length TrailerPrefix) k, vv). (k, vv) \<leftarrow> rs_handlerHeader w, has_prefix k TrailerPrefix];
          t1 = (if fake = [] then None else Some (fold (\<lambda>(k, vv). AList.update k vv) fake []))
      in fold (\<lambda>k t. Some (fold (\<lambda>v. Header_Add k v) (header_values (rs_handlerHeader w) k) (case t of None \<Rightarrow> [] | Some h \<Rightarrow> h)))
           (rs_trailers w) t1)"

definition chunkWriter_Write :: "server_env \<Rightarrow> (char, response) write_fun" where
  "chunkWriter_Write E p w0 =
     (let w = (if \<not> cw_wroteHeader (rs_cw w0) then chunkWriter_writeHeader E p w0 else w0) in
      if rq_Method (rs_req w) = ''HEAD'' then (length p, None, w)
      else if cw_chunking (rs_cw w) then
        (case conn_Write (fmt_hex (length p) @ crlf) w of
           (_, Some e, w1) \<Rightarrow> (0, Some e, rwc_Close w1)
         | (_, None, w1) \<Rightarrow>
             (case conn_Write p w1 of
                (n, Some e, w2) \<Rightarrow> (n, Some e, rwc_Close w2)
              | (n, None, w2) \<Rightarrow>
                  (case conn_Write crlf w2 of
                     (_, Some e, w3) \<Rightarrow> (n, Some e, rwc_Close w3)
                   | (_, None, w3) \<Rightarrow> (n, None, w3))))
      else
        (case conn_Write p w of
           (n, Some e, w1) \<Rightarrow> (n, Some e, rwc_Close w1)
         | (n, None, w1) \<Rightarrow> (n, None, w1)))"

definition chunkWriter_flush :: "server_env \<Rightarrow> response \<Rightarrow> io_error option \<times> response" where
  "chunkWriter_flush E w =
     conn_Flush (if \<not> cw_wroteHeader (rs_cw w) then chunkWriter_writeHeader E [] w else w)"

definition chunkWriter_close :: "server_env \<Rightarrow> response \<Rightarrow> response" where
  "chunkWriter_close E w0 =
     (let w = (if \<not> cw_wroteHeader (rs_cw w0) then chunkWriter_writeHeader E [] w0 else w0) in
      if cw_chunking (rs_cw w) then
        (let w1 = conn_Puts [''0'' @ crlf] w;
             w2 = (case finalTrailers w1 of None \<Rightarrow> w1 | Some t \<Rightarrow> snd (Header_Write (sv_lib E) conn_Write t w1))
         in conn_Puts [crlf] w2)
      else w)"

text \<open>The chunk writer does not touch the buffer in front of it.\<close>

lemma conn_rs_w [simp]: "rs_w (snd (snd (conn_Write d w))) = rs_w w" "rs_w (snd (conn_Flush w)) = rs_w w"
  "rs_w (rwc_Close w) = rs_w w"
  by (simp_all add: conn_Write_def conn_Flush_def rwc_Close_def split: prod.splits)

lemma conn_Write_rs_w: "conn_Write d w = (n, err, w') \<Longrightarrow> rs_w w' = rs_w w"
  using conn_rs_w(1) [of d w] by simp

lemma conn_Puts_rs_w [simp]: "rs_w (conn_Puts ds w) = rs_w w"
  by (induction ds arbitrary: w) (simp_all add: conn_Puts_def)

lemma write_strings_rs_w: "rs_w (snd (write_strings conn_Write ss w)) = rs_w w"
proof (induction ss arbitrary: w)
  case (Cons s ss)
  show ?case using Cons [of "snd (snd (conn_Write s w))"] conn_rs_w(1) [of s w]
    by (auto split: prod.splits option.splits simp del: conn_rs_w)
qed simp

lemma writeSubset_rs_w [simp]: "rs_w (snd (writeSubset L conn_Write ex h w)) = rs_w w"
  by (simp add: writeSubset_def write_kvs_strings write_strings_rs_w)

lemma declareTrailer_rs_w [simp]: "rs_w (fold (declareTrailer E) ks w) = rs_w w"
  by (induction ks arbitrary: w) (simp_all add: declareTrailer_def Let_def)

lemma header_steps_rs_w [simp]:
  "rs_w (snd (snd (header_trailers E vw))) = rs_w (snd vw)"
  "rs_w (snd (auto_length tr te n vw)) = rs_w (snd vw)"
  "rs_w (snd (keep_alive ka vw)) = rs_w (snd vw)"
  "rs_w (snd (header_framing t cl vw)) = rs_w (snd vw)"
  "rs_w (header_emit E vw) = rs_w (snd vw)"
  by (simp_all add: header_trailers_def auto_length_def keep_alive_def keep_alive10_def keep_alive_reply_def close_asked_def
      close_unread_expect_def body_framing_def header_framing_def header_emit_def extraHeader_Write_def
      writeStatusLine_def Let_def split: prod.splits if_splits req_Body.splits)

lemma requestTooLarge_rs_w [simp]: "rs_w (requestTooLarge w) = rs_w w"
  by (simp add: requestTooLarge_def response_Header_def Let_def)

lemma drain_rs_w [simp]:
  "rs_w (snd (snd (drain_choice w))) = rs_w w" "rs_w (snd (drain_discard E w)) = rs_w w"
  by (auto simp: drain_choice_def drain_discard_def Let_def split: req_Body.splits option.splits prod.splits)

lemma drain_body_rs_w [simp]: "rs_w (snd (drain_body E vw)) = rs_w (snd vw)"
proof (cases vw)
  case (Pair v w)
  obtain a b w1 where c: "drain_choice w = (a, b, w1)" by (cases "drain_choice w")
  obtain x w2 where d: "drain_discard E w1 = (x, w2)" by fastforce
  show ?thesis using drain_rs_w(1) [of w] drain_rs_w(2) [of E w1] c d Pair by (simp add: drain_body_def)
qed

lemma writeHeader_rs_w [simp]: "rs_w (chunkWriter_writeHeader E p w) = rs_w w"
proof -
  define w0 where "w0 = w\<lparr>rs_cw := (rs_cw w)\<lparr>cw_wroteHeader := True\<rparr>\<rparr>"
  obtain tr vw1 where h: "header_trailers E (header_start w0, w0) = (tr, vw1)" by (cases "header_trailers E (header_start w0, w0)")
  define te where "te = header_get (hv_header (fst vw1)) ''Transfer-Encoding''"
  define vw3 where "vw3 = keep_alive (sv_keepAlives E) (auto_length tr (te \<noteq> []) (length p) vw1)"
  obtain v4 w4 where d: "drain_body E vw3 = (v4, w4)" by (cases "drain_body E vw3")
  define v6 where "v6 = header_date E (header_type (te \<noteq> []) p (rs_status w4) v4)"
  obtain v7 w7 where f: "header_framing te (rs_contentLength (snd vw3) \<noteq> - 1) (v6, w4) = (v7, w7)" by (meson surj_pair)
  have "rs_w w0 = rs_w w" by (simp add: w0_def)
  moreover have "rs_w (snd vw1) = rs_w w0" using header_steps_rs_w(1) [of E "(header_start w0, w0)"] h by simp
  moreover have "rs_w w4 = rs_w (snd vw3)" using drain_body_rs_w [of E vw3] d by (simp del: drain_body_rs_w)
  moreover have "rs_w (snd vw3) = rs_w (snd vw1)" by (simp add: vw3_def)
  moreover have "rs_w w7 = rs_w w4" using header_steps_rs_w(4) [of te _ "(v6, w4)"] f by (metis snd_conv)
  ultimately show ?thesis
    using h f d unfolding w0_def [symmetric]
    by (simp add: chunkWriter_writeHeader_def Let_def w0_def [symmetric] te_def [symmetric] vw3_def [symmetric] v6_def [symmetric])
qed

lemma chunkWriter_Write_rs_w: "chunkWriter_Write E p w = (n, err, w') \<Longrightarrow> rs_w w' = rs_w w"
  by (auto simp: chunkWriter_Write_def Let_def dest!: conn_Write_rs_w split: if_splits prod.splits option.splits)

lemma conn_Write_None: "conn_Write d w = (n, None, w') \<Longrightarrow> n = length d"
  using bw.wr_full by (fastforce simp: conn_Write_def split: prod.splits)

lemma chunkWriter_Write_None: "chunkWriter_Write E p w = (n, None, w') \<Longrightarrow> n = length p"
  by (auto simp: chunkWriter_Write_def Let_def dest: conn_Write_None split: if_splits prod.splits option.splits)

subsection \<open>The buffer before the chunk writer\<close>

text \<open>\<open>bufio.Writer\<close> over \<open>chunkWriter\<close>. A \<open>Write\<close> larger than the empty buffer goes straight to the chunk writer; a
  \<open>WriteString\<close>, which the chunk writer does not have, always goes through the buffer.\<close>

definition w_Flush :: "server_env \<Rightarrow> response \<Rightarrow> io_error option \<times> response" where
  "w_Flush E w =
     (if rs_w_err w \<noteq> None then (rs_w_err w, w)
      else if rs_w w = [] then (None, w)
      else
        (case chunkWriter_Write E (rs_w w) w of
           (n, err, w1) \<Rightarrow>
             (let err1 = (if n < length (rs_w w) \<and> err = None then Some ErrShortWrite else err) in
              if err1 \<noteq> None then (err1, w1\<lparr>rs_w := drop n (rs_w w), rs_w_err := err1\<rparr>)
              else (None, w1\<lparr>rs_w := []\<rparr>))))"

lemma w_Flush_empty: "w_Flush E w = (None, w') \<Longrightarrow> rs_w w' = []"
  by (auto simp: w_Flush_def Let_def split: if_splits prod.splits)

function w_Write_loop :: "server_env \<Rightarrow> bool \<Rightarrow> nat \<Rightarrow> string \<Rightarrow> response \<Rightarrow> nat \<times> string \<times> response" where
  "w_Write_loop E isString nn p w =
     (if length p \<le> bufferBeforeChunkingSize - length (rs_w w) \<or> rs_w_err w \<noteq> None then (nn, p, w)
      else if rs_w w = [] \<and> \<not> isString then
        (case chunkWriter_Write E p w of
           (n, err, w1) \<Rightarrow>
             if err \<noteq> None then (nn + n, drop n p, w1\<lparr>rs_w_err := err\<rparr>)
             else w_Write_loop E isString (nn + n) (drop n p) w1)
      else
        (let n = bufferBeforeChunkingSize - length (rs_w w) in
         case w_Flush E (w\<lparr>rs_w := rs_w w @ take n p\<rparr>) of
           (err, w1) \<Rightarrow>
             if err \<noteq> None then (nn + n, drop n p, w1) else w_Write_loop E isString (nn + n) (drop n p) w1))"
  by pat_completeness auto
termination
proof (relation "measure (\<lambda>(E, s, nn, p, w). length p + length (rs_w w))", goal_cases)
  case 1
  then show ?case by simp
next
  case (2 E isString nn p w n y err w1)
  then have "chunkWriter_Write E p w = (n, None, w1)" by simp
  from chunkWriter_Write_None [OF this] chunkWriter_Write_rs_w [OF this] 2 show ?case by (auto simp: not_le intro: le_less_trans)
next
  case (3 E isString nn p w n err w1)
  then have "w_Flush E (w\<lparr>rs_w := rs_w w @ take n p\<rparr>) = (None, w1)" by simp
  from w_Flush_empty [OF this] have "rs_w w1 = []" .
  moreover have "0 < n + length (rs_w w)" using 3 by (auto simp: bufferBeforeChunkingSize_def)
  moreover have "n < length p" using 3 by simp
  ultimately show ?case by (simp only: in_measure prod.case length_drop list.size)
qed

declare w_Write_loop.simps [simp del]

definition w_Write :: "server_env \<Rightarrow> bool \<Rightarrow> (char, response) write_fun" where
  "w_Write E isString p w =
     (case w_Write_loop E isString 0 p w of
        (nn, p1, w1) \<Rightarrow>
          if rs_w_err w1 \<noteq> None then (nn, rs_w_err w1, w1)
          else (nn + length p1, None, w1\<lparr>rs_w := rs_w w1 @ p1\<rparr>))"

subsection \<open>Write, Flush and the end of the handler\<close>

definition ErrHijacked :: io_error where
  "ErrHijacked = OtherError ''http: connection has been hijacked''"

definition ErrBodyNotAllowed :: io_error where
  "ErrBodyNotAllowed = OtherError ''http: request method or response status code does not allow body''"

definition ErrContentLength :: io_error where
  "ErrContentLength = OtherError ''http: wrote more than the declared Content-Length''"

definition bodyAllowed :: "response \<Rightarrow> bool go" where
  "bodyAllowed w = (if \<not> rs_wroteHeader w then Panic [] else Ret (bodyAllowedForStatus (rs_status w)))"

definition response_write :: "server_env \<Rightarrow> bool \<Rightarrow> string \<Rightarrow> response \<Rightarrow> (nat \<times> io_error option \<times> response) go" where
  "response_write E isString dat w =
     (if c_hijacked (rs_conn w) then Ret (0, Some ErrHijacked, w)
      else
        (let w1 = (if rs_canWriteContinue w then w\<lparr>rs_canWriteContinue := False\<rparr> else w) in
         go_bind (if \<not> rs_wroteHeader w1 then response_WriteHeader E 200 w1 else Ret w1) (\<lambda>w2.
           if dat = [] then Ret (0, None, w2)
           else go_bind (bodyAllowed w2) (\<lambda>allowed.
             if \<not> allowed then Ret (0, Some ErrBodyNotAllowed, w2)
             else
               (let w3 = w2\<lparr>rs_written := rs_written w2 + int (length dat)\<rparr> in
                if rs_contentLength w3 \<noteq> - 1 \<and> rs_written w3 > rs_contentLength w3
                then Ret (0, Some ErrContentLength, w3)
                else Ret (w_Write E isString dat w3))))))"

definition FlushError :: "server_env \<Rightarrow> response \<Rightarrow> (io_error option \<times> response) go" where
  "FlushError E w =
     go_bind (if \<not> rs_wroteHeader w then response_WriteHeader E 200 w else Ret w) (\<lambda>w1.
       case w_Flush E w1 of (err, w2) \<Rightarrow>
         (case chunkWriter_flush E w2 of (e2, w3) \<Rightarrow> Ret (if err = None then e2 else err, w3)))"

definition reqBody_Close :: "server_env \<Rightarrow> response \<Rightarrow> io_error option \<times> response" where
  "reqBody_Close E w =
     (case rs_reqBody w of
        None \<Rightarrow> (None, w)
      | Some b \<Rightarrow> (case body_Close (sv_readMIME E) b of (err, b1) \<Rightarrow> (err, w\<lparr>rs_reqBody := Some b1\<rparr>)))"

definition finishRequest :: "server_env \<Rightarrow> response \<Rightarrow> response go" where
  "finishRequest E w =
     (let w1 = w\<lparr>rs_handlerDone := True\<rparr> in
      go_bind (if \<not> rs_wroteHeader w1 then response_WriteHeader E 200 w1 else Ret w1) (\<lambda>w2.
        let w3 = snd (w_Flush E w2);
            w4 = chunkWriter_close E w3;
            w5 = snd (conn_Flush w4)
        in Ret (snd (reqBody_Close E w5))))"

definition closedRequestBodyEarly :: "response \<Rightarrow> bool" where
  "closedRequestBodyEarly w =
     (case (rq_Body (rs_req w), rs_reqBody w) of (OwnBody, Some b) \<Rightarrow> didEarlyClose b | _ \<Rightarrow> False)"

text \<open>\<open>conn.werr\<close> is the error of the connection's buffer: \<open>checkConnErrorWriter\<close> notes it when the write
  that the buffer made fails.\<close>

definition shouldReuseConnection :: "response \<Rightarrow> bool go" where
  "shouldReuseConnection w =
     (if rs_closeAfterReply w then Ret False
      else go_bind (if rq_Method (rs_req w) \<noteq> ''HEAD'' \<and> rs_contentLength w \<noteq> - 1 then bodyAllowed w else Ret False) (\<lambda>allowed.
        if allowed \<and> rs_contentLength w \<noteq> rs_written w then Ret False
        else if bw_err (c_bufw (rs_conn w)) \<noteq> None then Ret False
        else if closedRequestBodyEarly w then Ret False
        else Ret True))"

subsection \<open>The request body\<close>

definition ecr_Read :: "server_env \<Rightarrow> nat \<Rightarrow> response \<Rightarrow> string \<times> io_error option \<times> response" where
  "ecr_Read E m w =
     (case rq_Body (rs_req w) of
        ExpectContinue closed sawEOF \<Rightarrow>
          if closed then ([], Some errBodyReadAfterClose, w)
          else
            (let w1 = (if \<not> rs_wroteContinue w \<and> rs_canWriteContinue w \<and> \<not> c_hijacked (rs_conn w)
                       then (snd (conn_Flush (conn_Puts [''HTTP/1.1 100 Continue'' @ crlf @ crlf]
                              (w\<lparr>rs_wroteContinue := True\<rparr>))))\<lparr>rs_canWriteContinue := False\<rparr>
                       else w)
             in case rs_reqBody w1 of
                  None \<Rightarrow> ([], Some EOF, w1\<lparr>rs_req := (rs_req w1)\<lparr>rq_Body := ExpectContinue closed True\<rparr>\<rparr>)
                | Some b \<Rightarrow>
                    (case body_Read (sv_readMIME E) m b of (out, err, b1) \<Rightarrow>
                       let w2 = w1\<lparr>rs_reqBody := Some b1\<rparr> in
                       (out, err, if err = Some EOF then w2\<lparr>rs_req := (rs_req w2)\<lparr>rq_Body := ExpectContinue closed True\<rparr>\<rparr> else w2)))
      | _ \<Rightarrow> ([], None, w))"

definition req_Body_Read :: "server_env \<Rightarrow> nat \<Rightarrow> response \<Rightarrow> string \<times> io_error option \<times> response" where
  "req_Body_Read E m w =
     (case rq_Body (rs_req w) of
        ExpectContinue _ _ \<Rightarrow> ecr_Read E m w
      | _ \<Rightarrow>
          (case rs_reqBody w of
             None \<Rightarrow> ([], Some EOF, w)
           | Some b \<Rightarrow> (case body_Read (sv_readMIME E) m b of (out, err, b1) \<Rightarrow> (out, err, w\<lparr>rs_reqBody := Some b1\<rparr>))))"

definition req_Body_Close :: "server_env \<Rightarrow> response \<Rightarrow> io_error option \<times> response" where
  "req_Body_Close E w =
     (case rq_Body (rs_req w) of
        ExpectContinue closed sawEOF \<Rightarrow> reqBody_Close E (w\<lparr>rs_req := (rs_req w)\<lparr>rq_Body := ExpectContinue True sawEOF\<rparr>\<rparr>)
      | _ \<Rightarrow> reqBody_Close E w)"

end
