(* ===== verification/Transfer_Write.thy ===== *)
theory Transfer_Write
  imports Body
begin

section \<open>Sending bodies (transfer.go, transferWriter)\<close>

text \<open>
  \<open>transferWriter\<close>: what is announced about the body of an outgoing request or response, and how the body
  is written. A body is the sequence of pieces that a copy loop gets from it, then \<open>io.EOF\<close> or another
  error, and the error its \<open>Close\<close> returns; \<open>unwrapBody\<close> only finds the reader inside a wrapper and so is
  the identity here. Whether the one-byte read of \<open>probeRequestBody\<close> beats its timer is the argument \<open>timely\<close>;
  the trace callbacks are left out.
\<close>

record out_body =
  ob_blocks :: "string list"
  ob_err :: io_error
  ob_inMemory :: bool
  ob_isNoBody :: bool
  ob_closeErr :: "io_error option"

text \<open>\<open>Read\<close> into one byte: the byte, if there is one, and what is left.\<close>

fun read_byte :: "string list \<Rightarrow> io_error \<Rightarrow> string \<times> io_error option \<times> string list" where
  "read_byte [] e = ([], Some e, [])"
| "read_byte ([] # bs) e = ([], None, bs)"
| "read_byte ((c # b) # bs) e = ([c], None, if b = [] then bs else b # bs)"

record transferWriter =
  tw_Method :: string
  tw_Body :: "out_body option"
  tw_BodyCloser :: "out_body option"
  tw_ResponseToHEAD :: bool
  tw_ContentLength :: int
  tw_Close :: bool
  tw_TransferEncoding :: "string list"
  tw_Header :: Header
  tw_Trailer :: "Header option"
  tw_IsResponse :: bool
  tw_FlushHeaders :: bool

record out_message =
  om_isResponse :: bool
  om_Method :: string
  om_Body :: "out_body option"
  om_ContentLength :: int
  om_Close :: bool
  om_TransferEncoding :: "string list"
  om_Header :: Header
  om_Trailer :: "Header option"
  om_http11 :: bool

definition chunked :: "string list \<Rightarrow> bool" where
  "chunked te = (te \<noteq> [] \<and> hd te = ''chunked'')"

definition isIdentity :: "string list \<Rightarrow> bool" where
  "isIdentity te = (length te = 1 \<and> hd te = ''identity'')"

definition valueOrDefault :: "string \<Rightarrow> string \<Rightarrow> string" where
  "valueOrDefault v def = (if v \<noteq> [] then v else def)"

definition outgoingLength :: "out_message \<Rightarrow> int" where
  "outgoingLength r =
     (case om_Body r of
        None \<Rightarrow> 0
      | Some b \<Rightarrow> if ob_isNoBody b then 0 else if om_ContentLength r \<noteq> 0 then om_ContentLength r else - 1)"

definition requestMethodUsuallyLacksBody :: "string \<Rightarrow> bool" where
  "requestMethodUsuallyLacksBody meth = (meth \<in> {''GET'', ''HEAD'', ''DELETE'', ''OPTIONS'', ''PROPFIND'', ''SEARCH''})"

text \<open>\<open>probeRequestBody\<close>. \<open>io.MultiReader\<close> of the byte read and the rest is a body with that byte first.\<close>

definition probeRequestBody :: "bool \<Rightarrow> transferWriter \<Rightarrow> transferWriter" where
  "probeRequestBody timely t =
     (case tw_Body t of
        None \<Rightarrow> t
      | Some body \<Rightarrow>
          (case read_byte (ob_blocks body) (ob_err body) of (d, err, rest) \<Rightarrow>
             let again = body\<lparr>ob_blocks := (if d = [] then rest else d # rest), ob_inMemory := False, ob_isNoBody := False\<rparr> in
             if timely then
               (if d = [] \<and> err = Some EOF then t\<lparr>tw_Body := None, tw_ContentLength := 0\<rparr>
                else if d \<noteq> [] then t\<lparr>tw_Body := Some again\<rparr>
                else if err \<noteq> None then t\<lparr>tw_Body := Some again\<rparr>
                else t\<lparr>tw_Body := Some (body\<lparr>ob_blocks := rest\<rparr>)\<rparr>)
             else t\<lparr>tw_Body := Some again, tw_FlushHeaders := True\<rparr>))"

definition shouldSendChunkedRequestBody :: "bool \<Rightarrow> transferWriter \<Rightarrow> bool \<times> transferWriter" where
  "shouldSendChunkedRequestBody timely t =
     (if tw_ContentLength t \<ge> 0 \<or> tw_Body t = None then (False, t)
      else if tw_Method t = ''CONNECT'' then (False, t)
      else if requestMethodUsuallyLacksBody (tw_Method t)
      then (let t1 = probeRequestBody timely t in (tw_Body t1 \<noteq> None, t1))
      else (True, t))"

definition sanitize :: "bool \<Rightarrow> transferWriter \<Rightarrow> transferWriter" where
  "sanitize atLeastHTTP11 t =
     (let t1 =
        (if tw_ResponseToHEAD t then
           (let t1 = t\<lparr>tw_Body := None\<rparr> in
            if chunked (tw_TransferEncoding t1) then t1\<lparr>tw_ContentLength := - 1\<rparr> else t1)
         else
           (let t1 = (if \<not> atLeastHTTP11 \<or> tw_Body t = None then t\<lparr>tw_TransferEncoding := []\<rparr> else t) in
            if chunked (tw_TransferEncoding t1) then t1\<lparr>tw_ContentLength := - 1\<rparr>
            else if tw_Body t1 = None then t1\<lparr>tw_ContentLength := 0\<rparr> else t1))
      in if \<not> chunked (tw_TransferEncoding t1) then t1\<lparr>tw_Trailer := None\<rparr> else t1)"

definition newTransferWriter :: "bool \<Rightarrow> out_message \<Rightarrow> io_error + transferWriter" where
  "newTransferWriter timely r =
     (let t0 = \<lparr>tw_Method = om_Method r, tw_Body = om_Body r, tw_BodyCloser = om_Body r, tw_ResponseToHEAD = False,
                tw_ContentLength = om_ContentLength r, tw_Close = om_Close r, tw_TransferEncoding = om_TransferEncoding r,
                tw_Header = om_Header r, tw_Trailer = om_Trailer r, tw_IsResponse = om_isResponse r, tw_FlushHeaders = False\<rparr>
      in
        if om_isResponse r
        then Inr (sanitize (om_http11 r) (t0\<lparr>tw_ResponseToHEAD := noResponseBodyExpected (tw_Method t0)\<rparr>))
        else if om_ContentLength r \<noteq> 0 \<and> om_Body r = None
        then Inl (OtherError ''http: Request.ContentLength with nil Body'')
        else
          let t1 = t0\<lparr>tw_Method := valueOrDefault (om_Method r) ''GET'', tw_ContentLength := outgoingLength r\<rparr>;
              t2 = (if tw_ContentLength t1 < 0 \<and> tw_TransferEncoding t1 = []
                    then (case shouldSendChunkedRequestBody timely t1 of (send, t2) \<Rightarrow>
                            if send then t2\<lparr>tw_TransferEncoding := [''chunked'']\<rparr> else t2)
                    else t1);
              t3 = (if tw_ContentLength t2 \<noteq> 0 \<and> \<not> (case tw_Body t2 of None \<Rightarrow> False | Some b \<Rightarrow> ob_inMemory b)
                    then t2\<lparr>tw_FlushHeaders := True\<rparr> else t2)
          in Inr (sanitize True t3))"

subsection \<open>The announcement\<close>

definition shouldSendContentLength :: "transferWriter \<Rightarrow> bool" where
  "shouldSendContentLength t =
     (if chunked (tw_TransferEncoding t) then False
      else if tw_ContentLength t > 0 then True
      else if tw_ContentLength t < 0 then False
      else if tw_Method t = ''POST'' \<or> tw_Method t = ''PUT'' \<or> tw_Method t = ''PATCH'' then True
      else if tw_ContentLength t = 0 \<and> isIdentity (tw_TransferEncoding t) then
        (if tw_Method t = ''GET'' \<or> tw_Method t = ''HEAD'' then False else True)
      else False)"

text \<open>The keys of the trailer, in the order the map is iterated: the first forbidden one is the error.\<close>

fun trailer_keys :: "string list \<Rightarrow> io_error + string list" where
  "trailer_keys [] = Inr []"
| "trailer_keys (k0 # ks) =
     (let k = CanonicalHeaderKey k0 in
      if k \<in> {''Transfer-Encoding'', ''Trailer'', ''Content-Length''} then Inl (OtherError ''invalid Trailer key'')
      else case trailer_keys ks of Inl e \<Rightarrow> Inl e | Inr r \<Rightarrow> Inr (k # r))"

definition write_trailer_field :: "(char, 'w) write_fun \<Rightarrow> Header option \<Rightarrow> 'w \<Rightarrow> io_error option \<times> 'w" where
  "write_trailer_field wr trailer w =
     (case trailer of
        None \<Rightarrow> (None, w)
      | Some h \<Rightarrow>
          (case trailer_keys (map fst h) of
             Inl e \<Rightarrow> (Some e, w)
           | Inr keys \<Rightarrow>
               if keys = [] then (None, w)
               else write_strings wr [''Trailer: '' @ join_byte (CHR '','') (sort keys) @ crlf] w))"

definition tw_writeHeader :: "(char, 'w) write_fun \<Rightarrow> transferWriter \<Rightarrow> 'w \<Rightarrow> io_error option \<times> 'w" where
  "tw_writeHeader wr t w =
     (let close_line = (if tw_Close t \<and> \<not> hasToken (header_get (tw_Header t) ''Connection'') ''close''
                        then [''Connection: close'' @ crlf] else []);
          body_lines = (if shouldSendContentLength t then [''Content-Length: '', fmt_int (tw_ContentLength t) @ crlf]
                        else if chunked (tw_TransferEncoding t) then [''Transfer-Encoding: chunked'' @ crlf] else [])
      in
        case write_strings wr close_line w of
          (Some e, w1) \<Rightarrow> (Some e, w1)
        | (None, w1) \<Rightarrow>
            (case write_strings wr body_lines w1 of
               (Some e, w2) \<Rightarrow> (Some e, w2)
             | (None, w2) \<Rightarrow> write_trailer_field wr (tw_Trailer t) w2))"

subsection \<open>The body\<close>

text \<open>\<open>io.CopyBuffer\<close> of the pieces of a body, and of the first \<open>k\<close> bytes of them (\<open>io.LimitReader\<close>), which also
  returns the pieces it did not read.\<close>

fun copy_blocks :: "(char, 'w) write_fun \<Rightarrow> string list \<Rightarrow> io_error \<Rightarrow> 'w \<Rightarrow> nat \<times> io_error option \<times> 'w" where
  "copy_blocks wr [] e w = (0, if e = EOF then None else Some e, w)"
| "copy_blocks wr (b # bs) e w =
     (if b = [] then copy_blocks wr bs e w
      else
        (case wr b w of (n, err, w1) \<Rightarrow>
           if err \<noteq> None then (n, err, w1)
           else if n \<noteq> length b then (n, Some ErrShortWrite, w1)
           else (case copy_blocks wr bs e w1 of (n2, err2, w2) \<Rightarrow> (n + n2, err2, w2))))"

fun copy_limited :: "(char, 'w) write_fun \<Rightarrow> nat \<Rightarrow> string list \<Rightarrow> io_error \<Rightarrow> 'w \<Rightarrow> nat \<times> io_error option \<times> string list \<times> 'w" where
  "copy_limited wr k [] e w = (0, if k = 0 \<or> e = EOF then None else Some e, [], w)"
| "copy_limited wr k (b # bs) e w =
     (if k = 0 then (0, None, b # bs, w)
      else if b = [] then copy_limited wr k bs e w
      else
        (let d = take k b; left = (if length b \<le> k then bs else drop k b # bs) in
         case wr d w of (n, err, w1) \<Rightarrow>
           if err \<noteq> None then (n, err, left, w1)
           else if n \<noteq> length d then (n, Some ErrShortWrite, left, w1)
           else if length b \<le> k
           then (case copy_limited wr (k - length d) bs e w1 of (n2, err2, r, w2) \<Rightarrow> (n + n2, err2, r, w2))
           else (n, None, left, w1)))"

definition discard :: "(char, unit) write_fun" where
  "discard d w = (length d, None, w)"

text \<open>\<open>bufioFlushWriter\<close> around a buffered writer.\<close>

definition flush_write :: "(char, char bufw) write_fun" where
  "flush_write p w =
     (case bufw_Write p w of (n, err, w1) \<Rightarrow>
        if n > 0 then (case bufw_Flush w1 of (ferr, w2) \<Rightarrow> (n, if ferr \<noteq> None \<and> err = None then ferr else err, w2))
        else (n, err, w1))"

definition copy_body :: "transferWriter \<Rightarrow> out_body \<Rightarrow> char bufw \<Rightarrow> nat \<times> io_error option \<times> char bufw" where
  "copy_body t body w =
     (if chunked (tw_TransferEncoding t) then
        (let fl = (if tw_IsResponse t then None else Some bufw_Flush) in
         case copy_blocks (cw_Write bufw_Write fl) (ob_blocks body) (ob_err body) w of (n, err, w1) \<Rightarrow>
           if err = None then (case cw_Close bufw_Write w1 of (err1, w2) \<Rightarrow> (0, err1, w2)) else (0, err, w1))
      else if tw_ContentLength t = - 1 then
        copy_blocks (if tw_Method t = ''CONNECT'' then flush_write else bufw_Write) (ob_blocks body) (ob_err body) w
      else
        (case copy_limited bufw_Write (nat (tw_ContentLength t)) (ob_blocks body) (ob_err body) w of (n, err, rest, w1) \<Rightarrow>
           if err \<noteq> None then (n, err, w1)
           else (case copy_blocks discard rest (ob_err body) () of (nextra, err1, _) \<Rightarrow> (n + nextra, err1, w1))))"

definition writeBody :: "golib \<Rightarrow> transferWriter \<Rightarrow> char bufw \<Rightarrow> io_error option \<times> char bufw" where
  "writeBody L t w =
     (case (case tw_Body t of None \<Rightarrow> (0, None, w) | Some body \<Rightarrow> copy_body t body w) of (ncopy, err, w1) \<Rightarrow>
        if err \<noteq> None then (err, w1)
        else
          (case (case tw_BodyCloser t of None \<Rightarrow> None | Some c \<Rightarrow> ob_closeErr c) of
             Some e \<Rightarrow> (Some e, w1)
           | None \<Rightarrow>
               if \<not> tw_ResponseToHEAD t \<and> tw_ContentLength t \<noteq> - 1 \<and> tw_ContentLength t \<noteq> int ncopy
               then (Some (OtherError ''http: ContentLength with Body length''), w1)
               else if chunked (tw_TransferEncoding t) then
                 (case (case tw_Trailer t of None \<Rightarrow> (None, w1) | Some h \<Rightarrow> Header_Write L bufw_Write h w1) of
                    (Some e, w2) \<Rightarrow> (Some e, w2)
                  | (None, w2) \<Rightarrow> write_strings bufw_Write [crlf] w2)
               else (None, w1)))"

subsection \<open>What is written\<close>

definition body_content :: "out_body option \<Rightarrow> string" where
  "body_content b = (case b of None \<Rightarrow> [] | Some body \<Rightarrow> concat (ob_blocks body))"

lemma write_strings_ok:
  assumes "write_strings bufw_Write ss w = (None, w')"
  shows "bufw_written w' = bufw_written w @ concat ss"
  using htx.write_strings_written [OF assms] by auto

context text_sink
begin

lemma copy_blocks_ok:
  "copy_blocks wr bs e w = (n, None, w') \<Longrightarrow> written w' = written w @ concat bs \<and> n = length (concat bs)"
proof (induction bs arbitrary: w n)
  case (Cons b bs)
  show ?case
  proof (cases "b = []")
    case True
    then show ?thesis using Cons by simp
  next
    case False
    then obtain w1 n2 where w1: "wr b w = (length b, None, w1)" "copy_blocks wr bs e w1 = (n2, None, w')" "n = length b + n2"
      using Cons.prems by (auto split: prod.splits if_splits)
    from Cons.IH [OF w1(2)] wr_ok [OF w1(1)] w1(3) show ?thesis by simp
  qed
qed (auto split: if_splits)

lemma copy_limited_ok:
  "copy_limited wr k bs e w = (n, None, rest, w') \<Longrightarrow>
     written w' = written w @ take k (concat bs) \<and> n = length (take k (concat bs)) \<and> concat rest = drop k (concat bs)"
proof (induction bs arbitrary: w n k)
  case (Cons b bs)
  consider "k = 0" | "k \<noteq> 0" "b = []" | "k \<noteq> 0" "b \<noteq> []" "length b \<le> k" | "k \<noteq> 0" "b \<noteq> []" "\<not> length b \<le> k" by blast
  then show ?case
  proof cases
    case 1
    then show ?thesis using Cons.prems by auto
  next
    case 2
    then show ?thesis using Cons by simp
  next
    case 3
    then obtain w1 n2 where w1: "wr b w = (length b, None, w1)" "copy_limited wr (k - length b) bs e w1 = (n2, None, rest, w')" "n = length b + n2"
      using Cons.prems by (auto simp: Let_def split: prod.splits if_splits)
    from Cons.IH [OF w1(2)] wr_ok [OF w1(1)] w1(3) 3 show ?thesis by simp
  next
    case 4
    then have w1: "wr (take k b) w = (n, None, w')" "n = k" "rest = drop k b # bs"
      using Cons.prems by (auto simp: Let_def split: prod.splits if_splits)
    from wr_ok [OF w1(1)] w1 4 show ?thesis by simp
  qed
qed (auto split: if_splits)

end

context chunk_wire_sink
begin

lemma copy_chunks_ok:
  "copy_blocks (cw_Write wr fl) bs e w = (n, None, w') \<Longrightarrow> cw_Close wr w' = (None, w2) \<Longrightarrow>
     written w2 @ rest = written w @ chunks_wire (filter (\<lambda>d. d \<noteq> []) bs) rest"
proof (induction bs arbitrary: w n)
  case Nil
  then obtain k where "wr (''0'' @ crlf) w = (k, None, w2)" by (auto simp: cw_Close_def split: prod.splits if_splits)
  from wr_ok [OF this] show ?case by (simp add: chunks_wire_def)
next
  case (Cons b bs)
  show ?case
  proof (cases "b = []")
    case True
    then show ?thesis using Cons by simp
  next
    case False
    then obtain n1 w1 n2 where w1: "cw_Write wr fl b w = (n1, None, w1)" "copy_blocks (cw_Write wr fl) bs e w1 = (n2, None, w')"
      using Cons.prems(1) by (auto split: prod.splits if_splits)
    from Cons.IH [OF w1(2) Cons.prems(2)] cw_Write_ok(2) [OF w1(1)] False show ?thesis by (simp add: chunks_wire_def)
  qed
qed

end

interpretation bcn: chunk_wire_sink bufw_Write bufw_written None
  by unfold_locales simp

lemma copy_discard: "copy_blocks discard bs e () = (n, None, u) \<Longrightarrow> n = length (concat bs)"
  by (induction bs arbitrary: n) (auto simp: discard_def split: prod.splits if_splits)

definition announced :: "transferWriter \<Rightarrow> framing" where
  "announced t = (if chunked (tw_TransferEncoding t) then ChunkedFraming else LengthFraming (nat (tw_ContentLength t)))"

lemma writeBody_carries:
  assumes ok: "writeBody L t w = (None, w')" and head: "\<not> tw_ResponseToHEAD t"
    and frame: "chunked (tw_TransferEncoding t) \<or> tw_ContentLength t \<noteq> - 1"
    and nil: "chunked (tw_TransferEncoding t) \<Longrightarrow> tw_Body t \<noteq> None" and trailer: "tw_Trailer t = None"
    and small: "\<And>b d. tw_Body t = Some b \<Longrightarrow> d \<in> set (ob_blocks b) \<Longrightarrow> length d < 2 ^ 61"
  shows "\<exists>wire. bufw_written w' = bufw_written w @ wire \<and> (\<forall>rest. carries (announced t) (wire @ rest) (body_content (tw_Body t)) rest) \<and>
    (chunked (tw_TransferEncoding t) \<or> tw_ContentLength t = int (length (body_content (tw_Body t))))"
proof (cases "chunked (tw_TransferEncoding t)")
  case True
  then obtain b where b: "tw_Body t = Some b" using nil by auto
  let ?fl = "if tw_IsResponse t then None else Some bufw_Flush"
  obtain n w1 w2 where c: "copy_blocks (cw_Write bufw_Write ?fl) (ob_blocks b) (ob_err b) w = (n, None, w1)"
    "cw_Close bufw_Write w1 = (None, w2)" "write_strings bufw_Write [crlf] w2 = (None, w')"
    using ok True b trailer by (auto simp: writeBody_def copy_body_def Let_def simp del: write_strings.simps split: prod.splits if_splits option.splits)
  let ?ds = "filter (\<lambda>d. d \<noteq> []) (ob_blocks b)"
  have w2: "bufw_written w2 @ rest = bufw_written w @ chunks_wire ?ds rest" for rest
    using c bcn.copy_chunks_ok bcw.copy_chunks_ok by (cases "tw_IsResponse t") simp_all
  have w': "bufw_written w' = bufw_written w2 @ crlf" using write_strings_ok [OF c(3)] by simp
  obtain wire where wire: "bufw_written w2 = bufw_written w @ wire" "\<And>rest. wire @ rest = chunks_wire ?ds rest"
    using w2 [of "[]"] w2 by (metis append_Nil2 append_assoc same_append_eq)
  have "concat (filter (\<lambda>d. d \<noteq> []) ds) = concat ds" for ds :: "string list" by (induction ds) auto
  then have "concat ?ds = concat (ob_blocks b)" by simp
  moreover have "chunks_ok ?ds" using small [OF b] by (auto simp: chunks_ok_def)
  ultimately have "carries ChunkedFraming ((wire @ crlf) @ rest) (body_content (tw_Body t)) rest" for rest
    using wire(2) [of "crlf @ rest"] b by (auto simp: body_content_def intro!: exI [of _ ?ds])
  then show ?thesis using w' wire(1) True by (auto simp: announced_def)
next
  case False
  then have cl: "tw_ContentLength t \<noteq> - 1" using frame by simp
  show ?thesis
  proof (cases "tw_Body t")
    case None
    then have "w' = w \<and> tw_ContentLength t = 0" using ok False head cl by (auto simp: writeBody_def split: if_splits option.splits)
    then show ?thesis using None False by (auto simp: announced_def body_content_def)
  next
    case (Some b)
    obtain n err rest w1 where c1: "copy_limited bufw_Write (nat (tw_ContentLength t)) (ob_blocks b) (ob_err b) w = (n, err, rest, w1)"
      by (cases "copy_limited bufw_Write (nat (tw_ContentLength t)) (ob_blocks b) (ob_err b) w")
    obtain nextra e1 u where c2: "copy_blocks discard rest (ob_err b) () = (nextra, e1, u)" by (cases "copy_blocks discard rest (ob_err b) ()")
    have c: "err = None" "e1 = None" "w1 = w'" "tw_ContentLength t = int (n + nextra)"
      using ok False head cl Some c1 c2 by (auto simp: writeBody_def copy_body_def split: if_splits option.splits)
    note cl = htx.copy_limited_ok [OF c1 [unfolded c(1,3)]]
    have "nextra = length (concat rest)" using copy_discard [OF c2 [unfolded c(2)]] .
    then have "n + nextra = length (concat (ob_blocks b))" using cl by (metis append_take_drop_id length_append)
    then have "tw_ContentLength t = int (length (concat (ob_blocks b)))" using c(4) by simp
    then show ?thesis using cl Some False by (auto simp: announced_def body_content_def)
  qed
qed

subsection \<open>What is announced\<close>

definition sent_fields :: "transferWriter \<Rightarrow> (string \<times> string) list" where
  "sent_fields t =
     (if tw_Close t \<and> \<not> hasToken (header_get (tw_Header t) ''Connection'') ''close'' then [(''Connection'', ''close'')] else []) @
     (if shouldSendContentLength t then [(''Content-Length'', fmt_int (tw_ContentLength t))]
      else if chunked (tw_TransferEncoding t) then [(''Transfer-Encoding'', ''chunked'')] else [])"

lemma clean_value_plain: "list_all (\<lambda>c. \<not> ascii_space c) s \<Longrightarrow> clean_value s = s"
proof -
  assume a: "list_all (\<lambda>c. \<not> ascii_space c) s"
  then have "headerNewlineToSpace s = s"
    unfolding headerNewlineToSpace_def by (intro map_idI) (auto simp: list_all_iff ascii_space_def)
  then show ?thesis using trim_plain [OF a] by (simp add: clean_value_def)
qed

lemma writeHeader_fields:
  assumes "tw_writeHeader bufw_Write t w = (None, w')" "tw_Trailer t = None"
  shows "bufw_written w' = bufw_written w @ concat (map field_text (sent_fields t))"
proof -
  let ?close = "if tw_Close t \<and> \<not> hasToken (header_get (tw_Header t) ''Connection'') ''close'' then [''Connection: close'' @ crlf] else []"
  let ?lines = "if shouldSendContentLength t then [''Content-Length: '', fmt_int (tw_ContentLength t) @ crlf]
    else if chunked (tw_TransferEncoding t) then [''Transfer-Encoding: chunked'' @ crlf] else []"
  obtain w1 where w1: "write_strings bufw_Write ?close w = (None, w1)" "write_strings bufw_Write ?lines w1 = (None, w')"
    using assms unfolding tw_writeHeader_def Let_def write_trailer_field_def
    by (auto simp del: write_strings.simps split: prod.splits option.splits)
  have "concat ?close @ concat ?lines = concat (map field_text (sent_fields t))"
    by (simp add: sent_fields_def field_text_def crlf_def)
  then show ?thesis using write_strings_ok [OF w1(1)] write_strings_ok [OF w1(2)] by (metis append_assoc)
qed

lemma sent_fields_lines:
  assumes "0 \<le> tw_ContentLength t \<or> \<not> shouldSendContentLength t"
  shows "field_lines (concat (map field_text (sent_fields t))) = sent_fields t"
proof (rule field_lines_text)
  fix k v
  assume kv: "(k, v) \<in> set (sent_fields t)"
  have plain: "clean_value ''close'' = ''close''" "clean_value ''chunked'' = ''chunked''" by code_simp+
  have num: "0 \<le> tw_ContentLength t \<Longrightarrow> clean_value (fmt_int (tw_ContentLength t)) = fmt_int (tw_ContentLength t)"
    by (rule clean_value_plain) (simp add: fmt_int_def digits_plain)
  have "clean_value v = v" using kv plain num assms by (auto simp: sent_fields_def split: if_splits)
  then have "\<exists>u. v = clean_value u" by metis
  then show "CHR '':'' \<notin> set k \<and> CHR 0x0A \<notin> set k \<and> (\<exists>u. v = clean_value u)"
    using kv by (auto simp: sent_fields_def split: if_splits)
qed

text \<open>A receiver that finds the fields of the text in the header of its message.\<close>

definition received :: "(string \<times> string) list \<Rightarrow> http_message \<Rightarrow> bool" where
  "received fs msg =
     (\<not> msg_isResponse msg \<and> http11 msg \<and> \<not> header_has (msg_Header msg) ''Trailer'' \<and>
      (\<forall>k \<in> {''Content-Length'', ''Transfer-Encoding''}.
         header_values (msg_Header msg) k = map snd (filter (\<lambda>f. fst f = k) fs) \<and>
         (header_has (msg_Header msg) k \<longleftrightarrow> k \<in> fst ` set fs)))"

lemma received_framing:
  assumes "received (sent_fields t) msg" "tw_ContentLength t < 2 ^ 63"
    and "chunked (tw_TransferEncoding t) \<or> 0 \<le> tw_ContentLength t"
  shows "request_framing msg = Some (announced t)"
proof -
  have r: "http11 msg" "header_values (msg_Header msg) ''Content-Length'' = map snd (filter (\<lambda>f. fst f = ''Content-Length'') (sent_fields t))"
    "header_values (msg_Header msg) ''Transfer-Encoding'' = map snd (filter (\<lambda>f. fst f = ''Transfer-Encoding'') (sent_fields t))"
    "header_has (msg_Header msg) ''Transfer-Encoding'' \<longleftrightarrow> ''Transfer-Encoding'' \<in> fst ` set (sent_fields t)"
    using assms(1) by (simp_all add: received_def)
  show ?thesis
  proof (cases "chunked (tw_TransferEncoding t)")
    case True
    then have "\<not> shouldSendContentLength t" by (simp add: shouldSendContentLength_def)
    moreover have "EqualFold ''chunked'' ''chunked''" by (simp add: EqualFold_iff)
    ultimately show ?thesis using True r by (simp add: request_framing_def sent_fields_def announced_def)
  next
    case False
    then have "''Transfer-Encoding'' \<notin> fst ` set (sent_fields t)" by (auto simp: sent_fields_def split: if_splits)
    then have te: "\<not> header_has (msg_Header msg) ''Transfer-Encoding''" using r(4) by simp
    define n where "n = nat (tw_ContentLength t)"
    have n: "tw_ContentLength t = int n" "n < 2 ^ 63" using assms(2,3) False by (simp_all add: n_def nat_less_iff)
    show ?thesis
    proof (cases "shouldSendContentLength t")
      case True
      then show ?thesis
        using r(2) te False n by (simp add: request_framing_def sent_fields_def announced_def fmt_int_def
            trim_plain [OF digits_plain] fmt_nat_digits fmt_nat_value)
    next
      case False
      then have "tw_ContentLength t = 0" using n \<open>\<not> chunked (tw_TransferEncoding t)\<close>
        by (auto simp: shouldSendContentLength_def split: if_splits)
      then show ?thesis
        using r(2) te False \<open>\<not> chunked (tw_TransferEncoding t)\<close> by (simp add: request_framing_def sent_fields_def announced_def)
    qed
  qed
qed

subsection \<open>From the sender's body to the receiver's\<close>

lemma read_byte_content:
  "read_byte bs e = (d, err, rest) \<Longrightarrow> concat bs = d @ concat rest \<and> (err \<noteq> None \<longrightarrow> bs = [] \<and> d = [] \<and> rest = [])"
  by (induction bs e rule: read_byte.induct) auto

lemma probe_content: "body_content (tw_Body (probeRequestBody timely t)) = body_content (tw_Body t)"
proof (cases "tw_Body t")
  case (Some body)
  obtain d err rest where r: "read_byte (ob_blocks body) (ob_err body) = (d, err, rest)"
    by (cases "read_byte (ob_blocks body) (ob_err body)")
  from read_byte_content [OF r] Some r show ?thesis
    by (auto simp: probeRequestBody_def body_content_def Let_def)
qed (simp add: probeRequestBody_def)

lemma probe_HEAD: "tw_ResponseToHEAD (probeRequestBody timely t) = tw_ResponseToHEAD t"
  by (auto simp: probeRequestBody_def Let_def split: option.splits prod.splits)

lemma sanitize_request:
  assumes "\<not> tw_ResponseToHEAD t"
  shows "tw_Body (sanitize True t) = tw_Body t" "\<not> tw_ResponseToHEAD (sanitize True t)"
    "chunked (tw_TransferEncoding (sanitize True t)) \<Longrightarrow> tw_Body (sanitize True t) \<noteq> None"
    "chunked (tw_TransferEncoding (sanitize True t)) \<Longrightarrow> tw_ContentLength (sanitize True t) = - 1"
proof -
  have "\<not> chunked []" by (simp add: chunked_def)
  then have "sanitize True t =
      (if tw_Body t = None then t\<lparr>tw_TransferEncoding := [], tw_ContentLength := 0, tw_Trailer := None\<rparr>
       else if chunked (tw_TransferEncoding t) then t\<lparr>tw_ContentLength := - 1\<rparr> else t\<lparr>tw_Trailer := None\<rparr>)"
    using assms by (simp add: sanitize_def Let_def)
  then show "tw_Body (sanitize True t) = tw_Body t" "\<not> tw_ResponseToHEAD (sanitize True t)"
    "chunked (tw_TransferEncoding (sanitize True t)) \<Longrightarrow> tw_Body (sanitize True t) \<noteq> None"
    "chunked (tw_TransferEncoding (sanitize True t)) \<Longrightarrow> tw_ContentLength (sanitize True t) = - 1"
    using assms \<open>\<not> chunked []\<close> by (auto split: if_splits)
qed

lemma newTransferWriter_request:
  assumes "newTransferWriter timely r = Inr t" "\<not> om_isResponse r"
  shows "body_content (tw_Body t) = body_content (om_Body r)" "\<not> tw_ResponseToHEAD t"
    "chunked (tw_TransferEncoding t) \<Longrightarrow> tw_Body t \<noteq> None"
    "chunked (tw_TransferEncoding t) \<Longrightarrow> tw_ContentLength t = - 1"
proof -
  define t1 where "t1 = \<lparr>tw_Method = valueOrDefault (om_Method r) ''GET'', tw_Body = om_Body r, tw_BodyCloser = om_Body r,
    tw_ResponseToHEAD = False, tw_ContentLength = outgoingLength r, tw_Close = om_Close r,
    tw_TransferEncoding = om_TransferEncoding r, tw_Header = om_Header r, tw_Trailer = om_Trailer r,
    tw_IsResponse = om_isResponse r, tw_FlushHeaders = False\<rparr>"
  obtain send t2 where p: "shouldSendChunkedRequestBody timely t1 = (send, t2)" by fastforce
  define t2' where "t2' = (if tw_ContentLength t1 < 0 \<and> tw_TransferEncoding t1 = []
    then if send then t2\<lparr>tw_TransferEncoding := [''chunked'']\<rparr> else t2 else t1)"
  define t3 where "t3 = (if tw_ContentLength t2' \<noteq> 0 \<and> \<not> (case tw_Body t2' of None \<Rightarrow> False | Some b \<Rightarrow> ob_inMemory b)
    then t2'\<lparr>tw_FlushHeaders := True\<rparr> else t2')"
  have e: "t = sanitize True t3"
    using assms p unfolding newTransferWriter_def t3_def t2'_def t1_def Let_def by (auto split: if_splits)
  have "t2 = t1 \<or> t2 = probeRequestBody timely t1"
    using p by (auto simp: shouldSendChunkedRequestBody_def Let_def split: if_splits)
  then have "body_content (tw_Body t2) = body_content (tw_Body t1) \<and> tw_ResponseToHEAD t2 = tw_ResponseToHEAD t1"
    using probe_content probe_HEAD by metis
  then have "body_content (tw_Body t2') = body_content (om_Body r) \<and> \<not> tw_ResponseToHEAD t2'"
    by (simp add: t2'_def t1_def)
  then have t3: "t = sanitize True t3" "\<not> tw_ResponseToHEAD t3" "body_content (tw_Body t3) = body_content (om_Body r)"
    using e by (simp_all add: t3_def)
  then show "body_content (tw_Body t) = body_content (om_Body r)" "\<not> tw_ResponseToHEAD t"
    "chunked (tw_TransferEncoding t) \<Longrightarrow> tw_Body t \<noteq> None"
    "chunked (tw_TransferEncoding t) \<Longrightarrow> tw_ContentLength t = - 1"
    using sanitize_request [OF t3(2)] by simp_all
qed

text \<open>C22: what a client sends as the body of a request is what the server's handler reads. Take any
  outgoing request that gets a framing (one that is not a tunnel or in an unknown coding of unknown length)
  and has no trailer, and suppose its header and its body were written without error. A receiver whose
  header has the framing fields of the text that was written accepts the message, and reading its body from the bytes
  written, however they are split, returns the body the client was given, byte by byte, whether it was
  probed, sent in chunks or with a length, and leaves what follows on the connection.\<close>

theorem request_body_roundtrip:
  assumes t: "newTransferWriter timely r = Inr t" "\<not> om_isResponse r"
    and frame: "chunked (tw_TransferEncoding t) \<or> tw_ContentLength t \<noteq> - 1" and trailer: "tw_Trailer t = None"
    and len: "length (body_content (om_Body r)) < 2 ^ 61"
    and hdr: "tw_writeHeader bufw_Write t w0 = (None, w1)" "bufw_written w1 = bufw_written w0 @ htext"
    and body: "writeBody L t w2 = (None, w3)" "bufw_written w3 = bufw_written w2 @ wire"
    and recv: "received (field_lines htext) msg" and conn: "remaining c = wire @ rest"
    and ms: "length (body_content (om_Body r)) < length (filter (\<lambda>m. 0 < m) ms)"
  shows "\<exists>msg'. readTransfer L False msg c = Inr msg' \<and>
    (case msg_Body msg' of
       None \<Rightarrow> body_content (om_Body r) = [] \<and> wire = []
     | Some b \<Rightarrow> \<exists>b'. body_ReadAll readMIME ms b = (body_content (om_Body r), Some EOF, b') \<and>
         remaining (src_conn (bd_src b')) = rest)"
proof -
  note nt = newTransferWriter_request [OF t]
  have "length d < 2 ^ 61" if "tw_Body t = Some b" "d \<in> set (ob_blocks b)" for b d
  proof -
    have "length d \<le> length (concat (ob_blocks b))" using split_list [OF that(2)] by auto
    then show ?thesis using len nt(1) that(1) by (simp add: body_content_def)
  qed
  from writeBody_carries [OF body(1) nt(2) frame nt(3) trailer this] body(2) nt(1)
  have car: "carries (announced t) (wire @ rest) (body_content (om_Body r)) rest"
    and cl: "chunked (tw_TransferEncoding t) \<or> tw_ContentLength t = int (length (body_content (om_Body r)))" by auto
  have ht: "htext = concat (map field_text (sent_fields t))" using writeHeader_fields [OF hdr(1) trailer] hdr(2) by simp
  have "0 \<le> tw_ContentLength t \<or> \<not> shouldSendContentLength t" using cl by (auto simp: shouldSendContentLength_def)
  from sent_fields_lines [OF this] have recv': "received (sent_fields t) msg" using recv ht by simp
  have "tw_ContentLength t < 2 ^ 63 \<or> chunked (tw_TransferEncoding t)" using cl len by auto
  then have "request_framing msg = Some (announced t)"
    using received_framing [OF recv'] nt(4) cl by auto
  then obtain msg' where m: "readTransfer L False msg c = Inr msg'" "framed (announced t) msg c msg'"
    using framing_succeeds [of msg "announced t" L c] recv' by (auto simp: received_def)
  show ?thesis using framed_exact [OF m(2) car [folded conn], of ms readMIME] m(1) ms conn by (auto split: option.splits)
qed

subsection \<open>Examples\<close>

definition hi_request :: out_message where
  "hi_request =
     \<lparr>om_isResponse = False, om_Method = ''POST'',
      om_Body = Some \<lparr>ob_blocks = [''hi''], ob_err = EOF, ob_inMemory = True, ob_isNoBody = False, ob_closeErr = None\<rparr>,
      om_ContentLength = 0, om_Close = False, om_TransferEncoding = [], om_Header = [], om_Trailer = None, om_http11 = True\<rparr>"

definition hi_received :: http_message where
  "hi_received =
     \<lparr>msg_isResponse = False, msg_Header = [(''Transfer-Encoding'', [''chunked''])], msg_StatusCode = 0, msg_Method = Some ''POST'',
      msg_ProtoMajor = 1, msg_ProtoMinor = 1, msg_Close = False, msg_ContentLength = 0, msg_TransferEncoding = [],
      msg_Trailer = None, msg_Body = None\<rparr>"

definition empty_wire :: "char bufw" where
  "empty_wire = \<lparr>bw_buf = [], bw_err = None, bw_conn = [], bw_room = None\<rparr>"

definition hi_writer :: transferWriter where
  "hi_writer =
     \<lparr>tw_Method = ''POST'', tw_Body = om_Body hi_request, tw_BodyCloser = om_Body hi_request, tw_ResponseToHEAD = False,
      tw_ContentLength = - 1, tw_Close = False, tw_TransferEncoding = [''chunked''], tw_Header = [], tw_Trailer = None,
      tw_IsResponse = False, tw_FlushHeaders = False\<rparr>"

theorem request_body_roundtrip_witness:
  "\<exists>w3 msg' b'. newTransferWriter True hi_request = Inr hi_writer \<and> writeBody example_lib hi_writer empty_wire = (None, w3) \<and>
     readTransfer example_lib False hi_received \<lparr>bf_buf = [], bf_src = [bufw_written w3, ''next'']\<rparr> = Inr msg' \<and>
     (case msg_Body msg' of
        None \<Rightarrow> False
      | Some b \<Rightarrow> body_ReadAll no_trailer [1, 1, 1, 1] b = (''hi'', Some EOF, b') \<and> remaining (src_conn (bd_src b')) = ''next'')"
proof -
  have t: "newTransferWriter True hi_request = Inr hi_writer"
    by code_simp
  have nr: "\<not> om_isResponse hi_request" by (simp add: hi_request_def)
  have ch: "chunked (tw_TransferEncoding hi_writer)" "tw_Trailer hi_writer = None" by (simp_all add: hi_writer_def chunked_def)
  have cont: "body_content (om_Body hi_request) = ''hi''" by (simp add: hi_request_def body_content_def)
  let ?text = "''Transfer-Encoding: chunked'' @ crlf"
  define w1 w3 where "w1 = snd (tw_writeHeader bufw_Write hi_writer empty_wire)" and "w3 = snd (writeBody example_lib hi_writer empty_wire)"
  have "fst (tw_writeHeader bufw_Write hi_writer empty_wire) = None"
    "bufw_written (snd (tw_writeHeader bufw_Write hi_writer empty_wire)) = bufw_written empty_wire @ ?text" by code_simp+
  then have w1: "tw_writeHeader bufw_Write hi_writer empty_wire = (None, w1)" "bufw_written w1 = bufw_written empty_wire @ ?text"
    by (simp_all add: w1_def prod_eq_iff)
  have "fst (writeBody example_lib hi_writer empty_wire) = None" "bufw_written (snd (writeBody example_lib hi_writer empty_wire)) \<noteq> []"
    by code_simp+
  then have w3: "writeBody example_lib hi_writer empty_wire = (None, w3)" "bufw_written w3 = bufw_written empty_wire @ bufw_written w3"
    "bufw_written w3 \<noteq> []" by (simp_all add: w3_def prod_eq_iff bufw_written_def empty_wire_def)
  have nc: "\<not> shouldSendContentLength hi_writer" using ch(1) by (simp add: shouldSendContentLength_def)
  have "sent_fields hi_writer = [(''Transfer-Encoding'', ''chunked'')]"
    using nc ch(1) by (simp add: sent_fields_def) (simp add: hi_writer_def)
  with sent_fields_lines [of hi_writer] nc have fl: "field_lines ?text = [(''Transfer-Encoding'', ''chunked'')]"
    by (simp add: field_text_def crlf_def)
  have recv: "received (field_lines ?text) hi_received"
    unfolding fl by (simp add: received_def hi_received_def http11_def header_has_def header_values_def)
  have conn: "remaining \<lparr>bf_buf = [], bf_src = [bufw_written w3, ''next'']\<rparr> = bufw_written w3 @ ''next''" by (simp add: remaining_def)
  from request_body_roundtrip [OF t nr _ ch(2) _ w1 w3(1,2) recv conn, of "[1, 1, 1, 1]" no_trailer] ch(1) cont w3 t
  show ?thesis by (auto split: option.splits)
qed

text \<open>The reply to a HEAD request in the chunked coding is followed by a stray empty line: \<open>writeBody\<close> sends
  no body for it, but still the empty line that would end a trailer.\<close>

theorem head_response_stray_crlf:
  "\<exists>t w'. newTransferWriter timely
       \<lparr>om_isResponse = True, om_Method = ''HEAD'', om_Body = None, om_ContentLength = - 1, om_Close = False,
        om_TransferEncoding = [''chunked''], om_Header = [], om_Trailer = None, om_http11 = True\<rparr> = Inr t \<and>
     tw_Body t = None \<and> writeBody L t empty_wire = (None, w') \<and> bufw_written w' = crlf"
  by (simp add: newTransferWriter_def sanitize_def noResponseBodyExpected_def chunked_def writeBody_def bufw_Write_def
      bufw_Write_loop.simps empty_wire_def bufio_size_def crlf_def bufw_written_def)

end
