(* ===== verification/Response_Framing.thy ===== *)
theory Response_Framing
  imports Server_Response Transfer_Write
begin

section \<open>What the server's responses look like on the wire\<close>

text \<open>
  A handler is a sequence of operations on its \<open>ResponseWriter\<close> and request. Whatever the sequence, the connection then carries
  interim responses, one header, and a payload that a client which goes by that header reads as the bytes the
  handler wrote; and the connection is reused only when that client knows where the payload ends.
\<close>

datatype handler_op =
    HHeader "Header \<Rightarrow> Header"
  | HWriteHeader int
  | HWrite string
  | HWriteString string
  | HFlush
  | HReadBody nat
  | HCloseBody
  | HReplaceBody
  | HTooLarge
  | HFullDuplex

text \<open>One operation. The string collects the bytes whose write reported no error. \<open>HHeader f\<close> is a call of
  \<open>Header\<close> and a change \<open>f\<close> of the map it returned.\<close>

fun run_op :: "server_env \<Rightarrow> handler_op \<Rightarrow> string \<times> response \<Rightarrow> (string \<times> response) go" where
  "run_op E (HHeader f) (acc, w) = (case response_Header w of (h, w1) \<Rightarrow> Ret (acc, w1\<lparr>rs_handlerHeader := f h\<rparr>))"
| "run_op E (HWriteHeader code) (acc, w) = go_bind (response_WriteHeader E code w) (\<lambda>w1. Ret (acc, w1))"
| "run_op E (HWrite d) (acc, w) =
     go_bind (response_write E False d w) (\<lambda>(n, err, w1). Ret (if err = None then acc @ d else acc, w1))"
| "run_op E (HWriteString d) (acc, w) =
     go_bind (response_write E True d w) (\<lambda>(n, err, w1). Ret (if err = None then acc @ d else acc, w1))"
| "run_op E HFlush (acc, w) = go_bind (FlushError E w) (\<lambda>(err, w1). Ret (acc, w1))"
| "run_op E (HReadBody m) (acc, w) = Ret (acc, snd (snd (req_Body_Read E m w)))"
| "run_op E HCloseBody (acc, w) = Ret (acc, snd (req_Body_Close E w))"
| "run_op E HReplaceBody (acc, w) = Ret (acc, w\<lparr>rs_req := (rs_req w)\<lparr>rq_Body := OtherBody\<rparr>\<rparr>)"
| "run_op E HTooLarge (acc, w) = Ret (acc, requestTooLarge w)"
| "run_op E HFullDuplex (acc, w) = Ret (acc, w\<lparr>rs_fullDuplex := True\<rparr>)"

fun run_handler :: "server_env \<Rightarrow> handler_op list \<Rightarrow> string \<times> response \<Rightarrow> (string \<times> response) go" where
  "run_handler E [] aw = Ret aw"
| "run_handler E (x # xs) aw = go_bind (run_op E x aw) (run_handler E xs)"

text \<open>How a client finds the end of the payload (RFC 7230, section 3.3.3), from the method of its request, the status and
  the fields of the header.\<close>

datatype payload_framing = NoPayload | ChunkedPayload | LengthPayload nat | ClosePayload | BadFraming

definition field_vals :: "(string \<times> string) list \<Rightarrow> string \<Rightarrow> string list" where
  "field_vals fs key = [snd f. f \<leftarrow> fs, CanonicalHeaderKey (fst f) = key]"

definition client_framing :: "string \<Rightarrow> int \<Rightarrow> (string \<times> string) list \<Rightarrow> payload_framing" where
  "client_framing meth code fs =
     (let te = field_vals fs ''Transfer-Encoding''; cl = field_vals fs ''Content-Length'' in
      if meth = ''HEAD'' \<or> \<not> bodyAllowedForStatus code then NoPayload
      else if te \<noteq> [] then (if last te = ''chunked'' \<and> cl = [] then ChunkedPayload else BadFraming)
      else if cl = [] then ClosePayload
      else if length cl = 1 \<and> all_digits (hd cl) \<and> hd cl \<noteq> [] then LengthPayload (dec_num 0 (hd cl))
      else BadFraming)"

definition head_text :: "bool \<Rightarrow> int \<Rightarrow> (string \<times> string) list \<Rightarrow> string" where
  "head_text is11 code fs = concat (status_line is11 code) @ concat (map field_text fs) @ crlf"

text \<open>The headers for which this is promised: the map has canonical keys, and at most one \<open>Content-Length\<close>, which is a
  decimal number.\<close>

definition tame :: "Header \<Rightarrow> bool" where
  "tame h = (distinct (map fst h) \<and> list_all (\<lambda>k. CanonicalHeaderKey k = k) (map fst h) \<and>
     (header_values h ''Content-Length'' = [] \<or> (\<exists>n < 2 ^ 63. header_values h ''Content-Length'' = [fmt_nat n])))"

fun op_ok :: "handler_op \<Rightarrow> bool" where
  "op_ok (HHeader f) = (\<forall>h. tame h \<longrightarrow> tame (f h))"
| "op_ok (HWriteHeader code) = (100 \<le> code \<and> code \<le> 999)"
| "op_ok _ = True"

subsection \<open>Writing to a connection that does not fail\<close>

definition good_bufw :: "char bufw \<Rightarrow> bool" where
  "good_bufw b = (bw_err b = None \<and> bw_room b = None)"

lemma conn_write_good:
  assumes "bw_room b = None"
  shows "conn_write p b = (length p, None, b\<lparr>bw_conn := bw_conn b @ p\<rparr>)"
  using assms by (simp add: conn_write_def)

lemma bufw_Flush_good:
  assumes "good_bufw b"
  shows "\<exists>b'. bufw_Flush b = (None, b') \<and> good_bufw b' \<and> bufw_written b' = bufw_written b \<and> bw_conn b' = bufw_written b"
  using assms by (auto simp: bufw_Flush_def good_bufw_def conn_write_good bufw_written_def)

lemma bufw_Write_loop_good:
  "good_bufw b \<Longrightarrow> good_bufw (snd (snd (bufw_Write_loop nn p b)))"
proof (induction nn p b rule: bufw_Write_loop.induct)
  case (1 nn p b)
  show ?case
  proof (cases "length p \<le> bufio_size - length (bw_buf b) \<or> bw_err b \<noteq> None")
    case True
    then show ?thesis using "1.prems" by (simp add: bufw_Write_loop.simps [of nn p b])
  next
    case go: False
    have room: "bw_room b = None" using "1.prems" by (simp add: good_bufw_def)
    show ?thesis
    proof (cases "bw_buf b = []")
      case True
      show ?thesis
        using "1.IH"(1) [OF go True conn_write_good [OF room, symmetric] refl] "1.prems" go True
        by (simp add: bufw_Write_loop.simps [of nn p b] conn_write_good [OF room] good_bufw_def)
    next
      case False
      define n where "n = bufio_size - length (bw_buf b)"
      have "good_bufw (b\<lparr>bw_buf := bw_buf b @ take n p\<rparr>)" using "1.prems" by (simp add: good_bufw_def)
      then obtain b1 where b1: "bufw_Flush (b\<lparr>bw_buf := bw_buf b @ take n p\<rparr>) = (None, b1)" "good_bufw b1"
        using bufw_Flush_good by blast
      show ?thesis
        using "1.IH"(2) [OF go False n_def b1(1) [symmetric] _ b1(2)] go False b1(1)
        by (simp add: bufw_Write_loop.simps [of nn p b] n_def [symmetric] Let_def)
    qed
  qed
qed

lemma bufw_Write_good:
  assumes "good_bufw b"
  shows "\<exists>b'. bufw_Write d b = (length d, None, b') \<and> good_bufw b' \<and> bufw_written b' = bufw_written b @ d"
proof -
  obtain nn p1 b1 where l: "bufw_Write_loop 0 d b = (nn, p1, b1)" by (cases "bufw_Write_loop 0 d b")
  have g: "good_bufw b1" using bufw_Write_loop_good [OF assms, of 0 d] l by simp
  obtain n err b' where w: "bufw_Write d b = (n, err, b')" by (cases "bufw_Write d b")
  have e: "err = None" "good_bufw b'" using w l g by (auto simp: bufw_Write_def good_bufw_def)
  then show ?thesis using w bw.wr_full [of d b n b'] bw.wr_ok [of d b n b'] by simp
qed

text \<open>\<open>sends s w w'\<close>: the bytes \<open>s\<close> went to the connection and nothing else changed.\<close>

definition wire :: "response \<Rightarrow> string" where
  "wire w = bufw_written (c_bufw (rs_conn w))"

definition conn_ok :: "response \<Rightarrow> bool" where
  "conn_ok w = (good_bufw (c_bufw (rs_conn w)) \<and> \<not> c_hijacked (rs_conn w))"

definition sends :: "string \<Rightarrow> response \<Rightarrow> response \<Rightarrow> bool" where
  "sends s w w' = (\<exists>b. w' = w\<lparr>rs_conn := (rs_conn w)\<lparr>c_bufw := b\<rparr>\<rparr> \<and> good_bufw b \<and> bufw_written b = wire w @ s)"

lemma sendsD:
  assumes "sends s w w'"
  shows "wire w' = wire w @ s" "conn_ok w \<Longrightarrow> conn_ok w'" "rs_req w' = rs_req w" "rs_cw w' = rs_cw w" "rs_status w' = rs_status w"
    "rs_handlerHeader w' = rs_handlerHeader w"
  using assms by (auto simp: sends_def wire_def conn_ok_def)

lemma sends_trans: "sends s w w1 \<Longrightarrow> sends t w1 w2 \<Longrightarrow> sends (s @ t) w w2"
  by (auto simp: sends_def wire_def)

lemma sends_Nil: "conn_ok w \<Longrightarrow> sends [] w w"
  by (auto simp: sends_def wire_def conn_ok_def intro!: exI [of _ "c_bufw (rs_conn w)"])

lemma conn_Write_sends:
  assumes "conn_ok w"
  obtains w' where "conn_Write d w = (length d, None, w')" "sends d w w'"
proof -
  obtain b where "bufw_Write d (c_bufw (rs_conn w)) = (length d, None, b)" "good_bufw b" "bufw_written b = wire w @ d"
    using bufw_Write_good [of "c_bufw (rs_conn w)" d] assms by (auto simp: conn_ok_def wire_def)
  then show thesis using that by (auto simp: conn_Write_def sends_def)
qed

lemma conn_Flush_sends:
  assumes "conn_ok w"
  obtains w' where "conn_Flush w = (None, w')" "sends [] w w'" "bw_conn (c_bufw (rs_conn w')) = wire w"
proof -
  obtain b where "bufw_Flush (c_bufw (rs_conn w)) = (None, b)" "good_bufw b" "bufw_written b = wire w" "bw_conn b = wire w"
    using bufw_Flush_good [of "c_bufw (rs_conn w)"] assms by (auto simp: conn_ok_def wire_def)
  then show thesis using that by (auto simp: conn_Flush_def sends_def)
qed

lemma conn_Puts_sends: "conn_ok w \<Longrightarrow> sends (concat ds) w (conn_Puts ds w)"
proof (induction ds arbitrary: w)
  case Nil
  then show ?case by (simp add: conn_Puts_def sends_Nil)
next
  case (Cons d ds)
  from conn_Write_sends [OF Cons.prems, of d] obtain w1 where w1: "conn_Write d w = (length d, None, w1)" "sends d w w1" .
  from Cons.IH [OF sendsD(2) [OF w1(2) Cons.prems]] sends_trans [OF w1(2)] w1(1) show ?case
    by (simp add: conn_Puts_def)
qed

lemma write_strings_sends: "conn_ok w \<Longrightarrow> \<exists>w'. write_strings conn_Write ss w = (None, w') \<and> sends (concat ss) w w'"
proof (induction ss arbitrary: w)
  case Nil
  then show ?case by (simp add: sends_Nil)
next
  case (Cons d ds)
  from conn_Write_sends [OF Cons.prems, of d] obtain w1 where w1: "conn_Write d w = (length d, None, w1)" "sends d w w1" .
  from Cons.IH [OF sendsD(2) [OF w1(2) Cons.prems]] sends_trans [OF w1(2)] w1(1) show ?case by force
qed

lemma concat_field_strings: "concat (concat (map field_strings fs)) = concat (map field_text fs)"
  by (induction fs) (simp_all add: field_strings_def field_text_def)

lemma writeSubset_sends:
  assumes "conn_ok w"
  shows "sends (header_text L ex h) w (snd (writeSubset L conn_Write ex h w))"
proof -
  have "writeSubset L conn_Write ex h w = write_strings conn_Write (concat (map field_strings (header_fields L ex h))) w"
    by (simp add: writeSubset_def write_kvs_strings header_fields_def)
  then obtain w' where "writeSubset L conn_Write ex h w = (None, w')" "sends (header_text L ex h) w w'"
    using write_strings_sends [OF assms, of "concat (map field_strings (header_fields L ex h))"]
    by (auto simp: concat_field_strings header_text_def)
  then show ?thesis by simp
qed

subsection \<open>The variables of \<open>writeHeader\<close>\<close>

lemma header_keys [simp]:
  "CanonicalHeaderKey ''Transfer-Encoding'' = ''Transfer-Encoding''" "CanonicalHeaderKey ''Connection'' = ''Connection''"
  "CanonicalHeaderKey ''Content-Type'' = ''Content-Type''" "CanonicalHeaderKey ''Date'' = ''Date''"
  by code_simp+

definition good_vars :: "header_vars \<Rightarrow> bool" where
  "good_vars v = ((hv_owned v \<or> hv_header v = []) \<and> distinct (map fst (hv_header v)) \<and>
     list_all (\<lambda>k. CanonicalHeaderKey k = k) (map fst (hv_header v)) \<and>
     ''Content-Length'' \<notin> set (hv_exclude v) \<and> ''Transfer-Encoding'' \<notin> set (hv_exclude v))"

text \<open>\<open>same_framing v v'\<close>: nothing that frames the payload differs.\<close>

definition same_framing :: "header_vars \<Rightarrow> header_vars \<Rightarrow> bool" where
  "same_framing v v' = ((good_vars v \<longrightarrow> good_vars v') \<and> hv_owned v' = hv_owned v \<and>
     (\<forall>k \<in> {''Content-Length'', ''Transfer-Encoding''}. header_values (hv_header v') k = header_values (hv_header v) k) \<and>
     eh_contentLength (hv_set v') = eh_contentLength (hv_set v) \<and>
     eh_transferEncoding (hv_set v') = eh_transferEncoding (hv_set v))"

lemma same_framing_refl [simp]: "same_framing v v"
  by (simp add: same_framing_def)

lemma same_framing_trans [trans]: "same_framing v1 v2 \<Longrightarrow> same_framing v2 v3 \<Longrightarrow> same_framing v1 v3"
  by (simp add: same_framing_def)

lemma delete_keys: "list_all P (map fst h) \<Longrightarrow> list_all P (map fst (AList.delete k h))"
  "distinct (map fst h) \<Longrightarrow> distinct (map fst (AList.delete k h))"
  by (auto simp: AList.delete_eq list_all_iff intro: distinct_map_filter)

lemma delHeader_eq:
  assumes "good_vars v"
  shows "delHeader key v = v\<lparr>hv_header := AList.delete (CanonicalHeaderKey key) (hv_header v)\<rparr>"
  using assms by (cases v) (auto simp: good_vars_def delHeader_def Header_Del_def header_has_def)

lemma delHeader_good:
  assumes "good_vars v"
  shows "good_vars (delHeader key v)"
  unfolding delHeader_eq [OF assms]
  using assms delete_keys(1) [of "\<lambda>k. CanonicalHeaderKey k = k" "hv_header v" "CanonicalHeaderKey key"]
    delete_keys(2) [of "hv_header v" "CanonicalHeaderKey key"]
  unfolding good_vars_def by fastforce

lemma delHeader_values:
  assumes "good_vars v"
  shows "header_values (hv_header (delHeader key v)) k = (if CanonicalHeaderKey key = k then [] else header_values (hv_header v) k)"
  by (simp add: delHeader_eq [OF assms])

lemma delHeader_fields [simp]: "hv_set (delHeader key v) = hv_set v" "hv_owned (delHeader key v) = hv_owned v"
  by (simp_all add: delHeader_def)

lemma delHeader_same:
  assumes "good_vars v" "CanonicalHeaderKey key \<noteq> ''Content-Length''" "CanonicalHeaderKey key \<noteq> ''Transfer-Encoding''"
  shows "same_framing v (delHeader key v)"
  using assms by (simp add: same_framing_def delHeader_good delHeader_values)

lemma set_extra_fields [simp]: "hv_header (set_extra f v) = hv_header v" "hv_set (set_extra f v) = f (hv_set v)"
  "hv_owned (set_extra f v) = hv_owned v" "hv_exclude (set_extra f v) = hv_exclude v" "good_vars (set_extra f v) = good_vars v"
  by (simp_all add: set_extra_def good_vars_def)

lemma set_extra_same:
  "eh_contentLength (f (hv_set v)) = eh_contentLength (hv_set v) \<Longrightarrow>
   eh_transferEncoding (f (hv_set v)) = eh_transferEncoding (hv_set v) \<Longrightarrow> same_framing v (set_extra f v)"
  by (simp add: same_framing_def)

text \<open>\<open>keeps w w'\<close>: what the steps of \<open>writeHeader\<close> leave alone.\<close>

definition keeps :: "response \<Rightarrow> response \<Rightarrow> bool" where
  "keeps w w' = (rs_conn w' = rs_conn w \<and> rs_req w' = rs_req w \<and> rs_wroteHeader w' = rs_wroteHeader w \<and>
     rs_canWriteContinue w' = rs_canWriteContinue w \<and> rs_wroteContinue w' = rs_wroteContinue w \<and>
     rs_w w' = rs_w w \<and> rs_w_err w' = rs_w_err w \<and>
     rs_handlerHeader w' = rs_handlerHeader w \<and> rs_calledHeader w' = rs_calledHeader w \<and> rs_written w' = rs_written w \<and>
     rs_status w' = rs_status w \<and> rs_handlerDone w' = rs_handlerDone w)"

lemma keeps_refl [simp]: "keeps w w"
  by (simp add: keeps_def)

lemma keeps_trans [trans]: "keeps w1 w2 \<Longrightarrow> keeps w2 w3 \<Longrightarrow> keeps w1 w3"
  by (simp add: keeps_def)

definition calm :: "response \<Rightarrow> response \<Rightarrow> bool" where
  "calm w w' = (keeps w w' \<and> rs_cw w' = rs_cw w \<and> rs_contentLength w' = rs_contentLength w)"

lemma calm_refl [simp]: "calm w w"
  by (simp add: calm_def)

lemma calm_trans [trans]: "calm w1 w2 \<Longrightarrow> calm w2 w3 \<Longrightarrow> calm w1 w3"
  by (auto simp: calm_def intro: keeps_trans)

lemma declareTrailer_calm: "calm w (fold (declareTrailer E) ks w)"
proof (induction ks arbitrary: w)
  case (Cons k ks)
  have "calm w (declareTrailer E k w)" by (simp add: declareTrailer_def calm_def keeps_def Let_def)
  then show ?case using Cons [of "declareTrailer E k w"] by (auto intro: calm_trans)
qed simp

lemma header_trailers_calm:
  assumes "header_trailers E (v, w) = (tr, v', w')"
  shows "calm w w'" and "same_framing v v'" and "hv_header v' = hv_header v" and "hv_set v' = hv_set v"
proof -
  define cwh where "cwh = (case cw_header (rs_cw w) of None \<Rightarrow> [] | Some h \<Rightarrow> h)"
  have r: "v' = v\<lparr>hv_exclude := rev [k \<leftarrow> map fst cwh. has_prefix k TrailerPrefix] @ hv_exclude v\<rparr>"
    "w' = fold (declareTrailer E) (concat (map foreachHeaderElement (header_values cwh ''Trailer''))) w"
    using assms by (simp_all add: header_trailers_def Let_def cwh_def)
  show "calm w w'" unfolding r(2) by (rule declareTrailer_calm)
  show "hv_header v' = hv_header v" "hv_set v' = hv_set v" by (simp_all add: r(1))
  show "same_framing v v'"
    by (simp add: r(1) same_framing_def good_vars_def TrailerPrefix_def has_prefix_def)
qed

lemma keep_alive_calm:
  assumes "keep_alive ka (v, w) = (v', w')"
  shows "calm w w'" and "same_framing v v'"
proof -
  define w1 where "w1 = keep_alive10 ka (hv_header v) w"
  obtain v2 w2 where r: "keep_alive_reply (v, w1) = (v2, w2)" by (cases "keep_alive_reply (v, w1)")
  have "calm w w1" by (simp add: w1_def keep_alive10_def calm_def keeps_def)
  also have "calm w1 w2" using r by (auto simp: keep_alive_reply_def calm_def keeps_def split: if_splits)
  also have "calm w2 (close_asked ka (hv_header v) w2)" by (simp add: close_asked_def calm_def keeps_def)
  also have "calm (close_asked ka (hv_header v) w2) (close_unread_expect (close_asked ka (hv_header v) w2))"
    by (simp add: close_unread_expect_def calm_def keeps_def split: req_Body.splits)
  finally show "calm w w'" using assms r by (simp add: keep_alive_def w1_def)
  show "same_framing v v'"
    using assms r by (auto simp: keep_alive_def w1_def [symmetric] keep_alive_reply_def split: if_splits intro: set_extra_same)
qed

lemma drain_choice_calm: "drain_choice w = (a, b, w') \<Longrightarrow> calm w w'"
  by (auto simp: drain_choice_def calm_def keeps_def split: req_Body.splits option.splits if_splits)

lemma drain_discard_calm: "drain_discard E w = (b, w') \<Longrightarrow> calm w w'"
  by (auto simp: drain_discard_def calm_def keeps_def Let_def split: option.splits if_splits prod.splits)

lemma drain_body_calm:
  assumes d: "drain_body E (v, w) = (v', w')" and "rs_wroteHeader w" "good_vars v"
  shows "calm w w'" "same_framing v v'"
proof -
  obtain disc big w1 where c: "drain_choice w = (disc, big, w1)" by (cases "drain_choice w")
  obtain tb w2 where e: "drain_discard E w1 = (tb, w2)" by (cases "drain_discard E w1")
  have k: "calm w w1" "calm w1 w2" using drain_choice_calm [OF c] drain_discard_calm [OF e] .
  then have wr: "rs_wroteHeader w1" "rs_wroteHeader w2" using assms(2) by (simp_all add: calm_def keeps_def)
  have t: "calm x (requestTooLarge x)" if "rs_wroteHeader x" for x
    using that by (simp add: requestTooLarge_def calm_def keeps_def)
  have "same_framing v (set_extra (\<lambda>s. s\<lparr>eh_connection := ''close''\<rparr>) (delHeader ''Connection'' v))"
    by (rule same_framing_trans [OF delHeader_same [OF assms(3)] set_extra_same]) simp_all
  moreover have "calm w w2" using k by (rule calm_trans)
  ultimately show "calm w w'" "same_framing v v'"
    using d c e k t [OF wr(1)] t [OF wr(2)] by (auto simp: drain_body_def split: if_splits intro: calm_trans)
qed

lemma header_date_same: "same_framing v (header_date E v)"
  by (simp add: header_date_def set_extra_same)

lemma header_type_same:
  "bodyAllowedForStatus code \<Longrightarrow> same_framing v (header_type te p code v)"
  by (simp add: header_type_def set_extra_same)

lemma header_type_good:
  assumes "good_vars v"
  shows "good_vars (header_type te p code v)" "hv_owned (header_type te p code v) = hv_owned v"
proof -
  have "good_vars (fold delHeader ks v) \<and> hv_owned (fold delHeader ks v) = hv_owned v" for ks
    using assms by (induction ks arbitrary: v) (simp_all add: delHeader_good)
  then show "good_vars (header_type te p code v)" "hv_owned (header_type te p code v) = hv_owned v"
    using assms by (simp_all add: header_type_def)
qed

lemma header_connection_same: "good_vars v \<Longrightarrow> same_framing v (header_connection E (v, w))"
  by (auto simp: header_connection_def Let_def intro!: delHeader_same same_framing_trans [OF delHeader_same set_extra_same])

subsection \<open>The fields that are sent\<close>

lemma field_vals_simps [simp]:
  "field_vals [] key = []"
  "field_vals (f # fs) key = (if CanonicalHeaderKey (fst f) = key then [snd f] else []) @ field_vals fs key"
  "field_vals (fs @ gs) key = field_vals fs key @ field_vals gs key"
  by (simp_all add: field_vals_def)

lemma filter_key:
  "distinct (map fst h) \<Longrightarrow> [kv \<leftarrow> h. fst kv = key] = (case map_of h key of None \<Rightarrow> [] | Some vv \<Rightarrow> [(key, vv)])"
proof (induction h)
  case (Cons kv h)
  then have "[x \<leftarrow> h. fst x = fst kv] = []" by (auto simp: filter_empty_conv image_iff)
  with Cons show ?case by (cases kv) auto
qed simp

lemma header_fields_vals:
  assumes "distinct (map fst h)" and canon: "list_all (\<lambda>k. CanonicalHeaderKey k = k) (map fst h)"
    and "lib_validHeaderFieldName L key" and "\<not> ex key"
  shows "field_vals (header_fields L ex h) key = map clean_value (header_values h key)"
proof -
  let ?g = "\<lambda>(k, vv). if lib_validHeaderFieldName L k then map (\<lambda>v. (k, clean_value v)) vv else []"
  have vals: "field_vals (concat (map ?g kvs)) key = concat (map (\<lambda>kv. map clean_value (snd kv)) [kv \<leftarrow> kvs. fst kv = key])"
    if "\<forall>kv \<in> set kvs. CanonicalHeaderKey (fst kv) = fst kv" for kvs
  proof -
    have one: "field_vals (map (\<lambda>v. (k, clean_value v)) vv) key = (if CanonicalHeaderKey k = key then map clean_value vv else [])" for k vv
      by (induction vv) auto
    show ?thesis using that
    proof (induction kvs)
      case (Cons kv kvs)
      then show ?case using assms(3) by (cases kv) (auto simp: one)
    qed simp
  qed
  have "\<forall>kv \<in> set (sortedKeyValues ex h). CanonicalHeaderKey (fst kv) = fst kv"
    using canon by (auto simp: sortedKeyValues_def list_all_iff)
  from vals [OF this] have "field_vals (header_fields L ex h) key =
      concat (map (\<lambda>kv. map clean_value (snd kv)) [kv \<leftarrow> sortedKeyValues ex h. fst kv = key])"
    by (simp add: header_fields_def)
  also have "[kv \<leftarrow> sortedKeyValues ex h. fst kv = key] = [kv \<leftarrow> [kv \<leftarrow> h. \<not> ex (fst kv)]. fst kv = key]"
    unfolding sortedKeyValues_def by (rule sort_key_stable)
  also have "\<dots> = [kv \<leftarrow> h. fst kv = key]" using assms(4) by (auto intro: filter_cong)
  finally show ?thesis
    by (simp add: filter_key [OF assms(1)] header_values_def split: option.splits)
qed

lemma extra_fields_vals:
  "field_vals (extra_fields s) ''Content-Length'' = (case eh_contentLength s of None \<Rightarrow> [] | Some d \<Rightarrow> [d])"
  "field_vals (extra_fields s) ''Transfer-Encoding'' = (if eh_transferEncoding s = [] then [] else [eh_transferEncoding s])"
  by (simp_all add: extra_fields_def split: option.splits)

definition sent_reply_fields :: "golib \<Rightarrow> header_vars \<Rightarrow> (string \<times> string) list" where
  "sent_reply_fields L v = header_fields L (\<lambda>k. k \<in> set (hv_exclude v)) (hv_header v) @ extra_fields (hv_set v)"

lemma sent_vals:
  assumes "good_vars v" "lib_validHeaderFieldName L ''Content-Length''" "lib_validHeaderFieldName L ''Transfer-Encoding''"
  shows "field_vals (sent_reply_fields L v) ''Content-Length'' =
      map clean_value (header_values (hv_header v) ''Content-Length'') @ (case eh_contentLength (hv_set v) of None \<Rightarrow> [] | Some d \<Rightarrow> [d])"
    and "field_vals (sent_reply_fields L v) ''Transfer-Encoding'' =
      map clean_value (header_values (hv_header v) ''Transfer-Encoding'') @
      (if eh_transferEncoding (hv_set v) = [] then [] else [eh_transferEncoding (hv_set v)])"
  using assms by (simp_all add: sent_reply_fields_def extra_fields_vals header_fields_vals good_vars_def)

lemma header_emit_sends:
  assumes "conn_ok w" "good_vars v"
  shows "sends (head_text (ProtoAtLeast (rs_req w) 1 1) (rs_status w) (sent_reply_fields (sv_lib E) v))
    (if hv_owned v then w\<lparr>rs_cw := (rs_cw w)\<lparr>cw_header := Some (hv_header v)\<rparr>\<rparr> else w) (header_emit E (v, w))"
proof -
  define own where "own = hv_header v"
  have o: "(if hv_owned v then hv_header v else []) = own" using assms(2) by (auto simp: own_def good_vars_def)
  define w1 where "w1 = (if hv_owned v then w\<lparr>rs_cw := (rs_cw w)\<lparr>cw_header := Some own\<rparr>\<rparr> else w)"
  have ok1: "conn_ok w1" using assms(1) by (simp add: w1_def conn_ok_def)
  have r1: "rs_req w1 = rs_req w" "rs_status w1 = rs_status w" by (simp_all add: w1_def)
  define w2 where "w2 = writeStatusLine (ProtoAtLeast (rs_req w) 1 1) (rs_status w) w1"
  define w3 where "w3 = snd (writeSubset (sv_lib E) conn_Write (\<lambda>k. k \<in> set (hv_exclude v)) own w2)"
  define w4 where "w4 = extraHeader_Write (hv_set v) w3"
  obtain w5 where w5: "conn_Write crlf w4 = (length crlf, None, w5)" if "conn_ok w4"
    using conn_Write_sends by metis
  have s2: "sends (concat (status_line (ProtoAtLeast (rs_req w) 1 1) (rs_status w))) w1 w2"
    unfolding w2_def writeStatusLine_def by (rule conn_Puts_sends [OF ok1])
  have ok2: "conn_ok w2" by (rule sendsD(2) [OF s2 ok1])
  have s3: "sends (header_text (sv_lib E) (\<lambda>k. k \<in> set (hv_exclude v)) own) w2 w3"
    unfolding w3_def by (rule writeSubset_sends [OF ok2])
  have ok3: "conn_ok w3" by (rule sendsD(2) [OF s3 ok2])
  have s4: "sends (concat (map field_text (extra_fields (hv_set v)))) w3 w4"
    unfolding w4_def extraHeader_Write_def using conn_Puts_sends [OF ok3] concat_field_strings by metis
  have ok4: "conn_ok w4" by (rule sendsD(2) [OF s4 ok3])
  have s5: "sends crlf w4 (snd (snd (conn_Write crlf w4)))"
    by (rule conn_Write_sends [OF ok4, of crlf]) simp
  have e: "header_emit E (v, w) = snd (snd (conn_Write crlf w4))"
    by (simp only: header_emit_def prod.case Let_def o w1_def [symmetric] r1 w2_def [symmetric] w3_def [symmetric] w4_def [symmetric])
  show ?thesis
    using sends_trans [OF s2 sends_trans [OF s3 sends_trans [OF s4 s5]]]
    unfolding e own_def [symmetric] w1_def [symmetric] sent_reply_fields_def head_text_def header_text_def by simp
qed

subsection \<open>The header decides the framing\<close>

definition has_payload :: "response \<Rightarrow> bool" where
  "has_payload w = (rq_Method (rs_req w) \<noteq> ''HEAD'' \<and> bodyAllowedForStatus (rs_status w))"

definition framed_by :: "string \<Rightarrow> bool \<Rightarrow> header_vars \<Rightarrow> header_vars \<times> response \<Rightarrow> bool" where
  "framed_by te hasCL v vw =
     (case vw of (v', w') \<Rightarrow>
        let cl = header_values (hv_header v') ''Content-Length''; tes = header_values (hv_header v') ''Transfer-Encoding'' in
        if \<not> has_payload w' then \<not> cw_chunking (rs_cw w')
        else if cw_chunking (rs_cw w') then
          cl = [] \<and> eh_transferEncoding (hv_set v') = ''chunked'' \<and> (hasCL \<longrightarrow> te \<noteq> [])
        else tes = [] \<and> eh_transferEncoding (hv_set v') = [] \<and>
          (if hasCL \<and> (te = [] \<or> te = ''identity'') then cl = header_values (hv_header v) ''Content-Length''
           else rs_closeAfterReply w' \<and> cl = (if hasCL then [] else header_values (hv_header v) ''Content-Length'') \<and> (hasCL \<longrightarrow> te \<noteq> [])))"

lemma no_content_body: "bodyAllowedForStatus code \<Longrightarrow> code \<noteq> 204"
  by (auto simp: bodyAllowedForStatus_def)

lemma body_framing_cases:
  assumes "body_framing te hasCL (v, w) = (v', w')" "good_vars v" "\<not> cw_chunking (rs_cw w)" "eh_transferEncoding (hv_set v) = []"
  shows "keeps w w'" and "rs_contentLength w' = rs_contentLength w" and "cw_wroteHeader (rs_cw w') = cw_wroteHeader (rs_cw w)"
    and "good_vars v'" and "eh_contentLength (hv_set v') = eh_contentLength (hv_set v)" and "hv_owned v' = hv_owned v"
    and "header_values (hv_header v') ''Content-Length'' = header_values (hv_header v) ''Content-Length''"
    and "if \<not> has_payload w' then \<not> cw_chunking (rs_cw w')
      else if cw_chunking (rs_cw w') then eh_transferEncoding (hv_set v') = ''chunked'' \<and> \<not> hasCL
      else header_values (hv_header v') ''Transfer-Encoding'' = [] \<and> eh_transferEncoding (hv_set v') = [] \<and>
        (hasCL \<or> rs_closeAfterReply w')"
proof -
  note d = delHeader_good [OF assms(2)] delHeader_values [OF assms(2)]
  have x: "good_vars (set_extra (\<lambda>s. s\<lparr>eh_transferEncoding := ''chunked''\<rparr>) v)" using assms(2) by simp
  note e = delHeader_good [OF x] delHeader_values [OF x]
  consider "\<not> has_payload w \<or> hasCL" "v' = delHeader ''Transfer-Encoding'' v" "w' = w"
    | "\<not> hasCL" "v' = delHeader ''Transfer-Encoding'' v" "w' = w\<lparr>rs_cw := (rs_cw w)\<lparr>cw_chunking := False\<rparr>, rs_closeAfterReply := True\<rparr>"
    | "\<not> hasCL" "has_payload w" "v' = set_extra (\<lambda>s. s\<lparr>eh_transferEncoding := ''chunked''\<rparr>) v \<or>
        v' = delHeader ''Transfer-Encoding'' (set_extra (\<lambda>s. s\<lparr>eh_transferEncoding := ''chunked''\<rparr>) v)"
        "w' = w\<lparr>rs_cw := (rs_cw w)\<lparr>cw_chunking := True\<rparr>\<rparr>"
    | "\<not> hasCL" "v' = delHeader ''Transfer-Encoding'' v" "w' = w\<lparr>rs_closeAfterReply := True\<rparr>"
  proof -
    have n: "(rq_Method (rs_req w) = ''HEAD'' \<or> \<not> bodyAllowedForStatus (rs_status w) \<or> rs_status w = 204) = (\<not> has_payload w)"
      using no_content_body [of "rs_status w"] by (auto simp: has_payload_def)
    note r = assms(1) [unfolded body_framing_def n prod.case Let_def, symmetric]
    show thesis
    proof (cases "\<not> has_payload w \<or> hasCL")
      case True
      with that(1) r show ?thesis by (simp split: if_splits)
    next
      case False
      show ?thesis
      proof (cases "ProtoAtLeast (rs_req w) 1 1")
        case http11: True
        show ?thesis
        proof (cases "te \<noteq> [] \<and> te = ''identity''")
          case True
          with that(2) r False http11 show ?thesis by simp
        next
          case not_identity: False
          show ?thesis using that(3) r False
            by (cases "te \<noteq> [] \<and> te = ''chunked''") (simp_all add: http11 not_identity del: de_Morgan_conj)
        qed
      next
        case old: False
        with that(4) r False show ?thesis by simp
      qed
    qed
  qed
  then have "keeps w w' \<and> rs_contentLength w' = rs_contentLength w \<and> cw_wroteHeader (rs_cw w') = cw_wroteHeader (rs_cw w) \<and>
      good_vars v' \<and> eh_contentLength (hv_set v') = eh_contentLength (hv_set v) \<and> hv_owned v' = hv_owned v \<and>
      header_values (hv_header v') ''Content-Length'' = header_values (hv_header v) ''Content-Length'' \<and>
      (if \<not> has_payload w' then \<not> cw_chunking (rs_cw w')
       else if cw_chunking (rs_cw w') then eh_transferEncoding (hv_set v') = ''chunked'' \<and> \<not> hasCL
       else header_values (hv_header v') ''Transfer-Encoding'' = [] \<and> eh_transferEncoding (hv_set v') = [] \<and>
         (hasCL \<or> rs_closeAfterReply w'))"
  proof cases
    case 1
    then show ?thesis using assms(2-4) d by simp
  next
    case 2
    then show ?thesis using assms(2-4) d by (simp add: keeps_def)
  next
    case 3
    then have "good_vars v'" "header_values (hv_header v') ''Content-Length'' = header_values (hv_header v) ''Content-Length''"
      "hv_set v' = (hv_set v)\<lparr>eh_transferEncoding := ''chunked''\<rparr>" "hv_owned v' = hv_owned v"
      using assms(2) e by auto
    with 3 show ?thesis by (simp add: keeps_def has_payload_def)
  next
    case 4
    then show ?thesis using assms(2-4) d by (simp add: keeps_def)
  qed
  then show "keeps w w'" "rs_contentLength w' = rs_contentLength w" "cw_wroteHeader (rs_cw w') = cw_wroteHeader (rs_cw w)"
    "good_vars v'" "eh_contentLength (hv_set v') = eh_contentLength (hv_set v)" "hv_owned v' = hv_owned v"
    "header_values (hv_header v') ''Content-Length'' = header_values (hv_header v) ''Content-Length''"
    "if \<not> has_payload w' then \<not> cw_chunking (rs_cw w')
      else if cw_chunking (rs_cw w') then eh_transferEncoding (hv_set v') = ''chunked'' \<and> \<not> hasCL
      else header_values (hv_header v') ''Transfer-Encoding'' = [] \<and> eh_transferEncoding (hv_set v') = [] \<and>
        (hasCL \<or> rs_closeAfterReply w')" by blast+
qed

lemma header_framing_cases:
  assumes "header_framing te hasCL (v, w) = (v', w')" "good_vars v" "\<not> cw_chunking (rs_cw w)" "eh_transferEncoding (hv_set v) = []"
  shows "keeps w w'" and "rs_contentLength w' = rs_contentLength w" and "cw_wroteHeader (rs_cw w') = cw_wroteHeader (rs_cw w)"
    and "good_vars v'" and "eh_contentLength (hv_set v') = eh_contentLength (hv_set v)"
    and "framed_by te hasCL v (v', w')" and "hv_owned v' = hv_owned v"
proof -
  define both where "both = (hasCL \<and> te \<noteq> [] \<and> te \<noteq> ''identity'')"
  define v1 where "v1 = (if both then delHeader ''Content-Length'' v else v)"
  have v1: "good_vars v1" "hv_set v1 = hv_set v" "hv_owned v1 = hv_owned v"
    "header_values (hv_header v1) ''Content-Length'' = (if both then [] else header_values (hv_header v) ''Content-Length'')"
    using assms(2) by (simp_all add: v1_def delHeader_good delHeader_values)
  obtain v2 w2 where b: "body_framing te (hasCL \<and> \<not> both) (v1, w) = (v2, w2)" by (cases "body_framing te (hasCL \<and> \<not> both) (v1, w)")
  have t1: "eh_transferEncoding (hv_set v1) = []" using assms(4) v1(2) by simp
  note f = body_framing_cases [OF b v1(1) assms(3) t1]
  have r: "v' = (if cw_chunking (rs_cw w2) then delHeader ''Content-Length'' v2 else v2)" "w' = w2"
    using assms(1) [unfolded header_framing_def prod.case Let_def, folded both_def, folded v1_def] b by auto
  show "keeps w w'" "rs_contentLength w' = rs_contentLength w" "cw_wroteHeader (rs_cw w') = cw_wroteHeader (rs_cw w)"
    "good_vars v'" "eh_contentLength (hv_set v') = eh_contentLength (hv_set v)" "hv_owned v' = hv_owned v"
    using f(1-6) v1 delHeader_good [OF f(4)] by (simp_all add: r)
  show "framed_by te hasCL v (v', w')"
    using f(7,8) v1 delHeader_values [OF f(4)] by (auto simp: framed_by_def r Let_def both_def split: if_splits)
qed

lemma auto_length_cases:
  assumes "auto_length tr te len (v, w) = (v', w')"
  obtains "v' = v" "w' = w"
  | "v' = set_extra (\<lambda>s. s\<lparr>eh_contentLength := Some (fmt_int (int len))\<rparr>) v" "w' = w\<lparr>rs_contentLength := int len\<rparr>"
    "rs_handlerDone w" "\<not> te" "\<not> header_has (hv_header v) ''Content-Length''"
proof -
  let ?c = "rs_handlerDone w \<and> \<not> tr \<and> \<not> te \<and> bodyAllowedForStatus (rs_status w) \<and>
    \<not> header_has (hv_header v) ''Content-Length'' \<and> (rq_Method (rs_req w) \<noteq> ''HEAD'' \<or> len > 0)"
  show thesis
  proof (cases ?c)
    case True
    then show ?thesis using assms that(2) unfolding auto_length_def prod.case if_P [OF True] by simp
  next
    case False
    then show ?thesis using assms that(1) unfolding auto_length_def prod.case if_not_P [OF False] by simp
  qed
qed

text \<open>The header a client will see is that of the snapshot, or the empty one if the handler never asked for it.\<close>

definition snapshot :: "response \<Rightarrow> Header" where
  "snapshot w = (case cw_header (rs_cw w) of Some h \<Rightarrow> h | None \<Rightarrow> rs_handlerHeader w)"

definition declared :: "Header \<Rightarrow> int" where
  "declared h = (case header_values h ''Content-Length'' of [] \<Rightarrow> - 1 | v # vs \<Rightarrow> int (dec_num 0 v))"

lemma tame_length:
  assumes "tame h"
  shows "declared h = - 1 \<and> header_values h ''Content-Length'' = [] \<or>
    (\<exists>n < 2 ^ 63. declared h = int n \<and> header_values h ''Content-Length'' = [fmt_nat n])"
  using assms by (auto simp: tame_def declared_def fmt_nat_value)

definition head_pending :: "response \<Rightarrow> bool" where
  "head_pending w = (rs_wroteHeader w \<and> \<not> cw_wroteHeader (rs_cw w) \<and> \<not> cw_chunking (rs_cw w) \<and>
     (cw_header (rs_cw w) = None \<longrightarrow> rs_handlerHeader w = []) \<and> tame (snapshot w) \<and> rs_contentLength w = declared (snapshot w))"

definition head_sent :: "(string \<times> string) list \<Rightarrow> response \<Rightarrow> bool" where
  "head_sent fs w = (cw_wroteHeader (rs_cw w) \<and>
     (case client_framing (rq_Method (rs_req w)) (rs_status w) fs of
        NoPayload \<Rightarrow> \<not> has_payload w \<and> \<not> cw_chunking (rs_cw w)
      | ChunkedPayload \<Rightarrow> has_payload w \<and> cw_chunking (rs_cw w)
      | LengthPayload n \<Rightarrow> has_payload w \<and> \<not> cw_chunking (rs_cw w) \<and> rs_contentLength w = int n
      | ClosePayload \<Rightarrow> has_payload w \<and> \<not> cw_chunking (rs_cw w) \<and> rs_closeAfterReply w
      | BadFraming \<Rightarrow> False))"

definition sv_names :: "server_env \<Rightarrow> bool" where
  "sv_names E = (lib_validHeaderFieldName (sv_lib E) ''Content-Length'' \<and> lib_validHeaderFieldName (sv_lib E) ''Transfer-Encoding'')"

lemma writeHeader_vars:
  assumes names: "sv_names E" and p: "head_pending w"
  obtains v7 w7 where "chunkWriter_writeHeader E p w =
      (if \<not> ProtoAtLeast (rs_req w) 1 0
       then (if hv_owned v7 then w7\<lparr>rs_cw := (rs_cw w7)\<lparr>cw_header := Some (hv_header v7)\<rparr>\<rparr> else w7)
       else header_emit E (header_connection E (v7, w7), w7))"
    and "keeps w w7" and "cw_wroteHeader (rs_cw w7)" and "good_vars v7"
    and "rs_contentLength w7 = rs_contentLength w \<or> rs_handlerDone w \<and> rs_contentLength w = - 1 \<and> rs_contentLength w7 = int (length p)"
    and "if \<not> has_payload w7 then \<not> cw_chunking (rs_cw w7)
      else if cw_chunking (rs_cw w7) then
        header_values (hv_header v7) ''Content-Length'' = [] \<and> eh_contentLength (hv_set v7) = None \<and>
        eh_transferEncoding (hv_set v7) = ''chunked''
      else header_values (hv_header v7) ''Transfer-Encoding'' = [] \<and> eh_transferEncoding (hv_set v7) = [] \<and>
        ((\<exists>n. rs_contentLength w7 = int n \<and>
            (header_values (hv_header v7) ''Content-Length'' = [fmt_nat n] \<and> eh_contentLength (hv_set v7) = None \<or>
             header_values (hv_header v7) ''Content-Length'' = [] \<and> eh_contentLength (hv_set v7) = Some (fmt_nat n))) \<or>
         rs_closeAfterReply w7 \<and> header_values (hv_header v7) ''Content-Length'' = [] \<and> eh_contentLength (hv_set v7) = None)"
proof -
  define w0 where "w0 = w\<lparr>rs_cw := (rs_cw w)\<lparr>cw_wroteHeader := True\<rparr>\<rparr>"
  have w0: "keeps w w0" "rs_contentLength w0 = rs_contentLength w" "rs_wroteHeader w0" "rs_handlerDone w0 = rs_handlerDone w"
    "cw_wroteHeader (rs_cw w0)" "\<not> cw_chunking (rs_cw w0)"
    using p by (simp_all add: w0_def keeps_def head_pending_def)
  define v0 where "v0 = header_start w0"
  have v0: "good_vars v0" "hv_header v0 = snapshot w" "eh_contentLength (hv_set v0) = None" "eh_transferEncoding (hv_set v0) = []"
    using p by (auto simp: v0_def w0_def header_start_def snapshot_def good_vars_def head_pending_def tame_def split: option.splits)
  obtain tr v1 w1 where s1: "header_trailers E (v0, w0) = (tr, v1, w1)" by (cases "header_trailers E (v0, w0)")
  define te where "te = header_get (hv_header v1) ''Transfer-Encoding''"
  obtain v2 w2 where s2: "auto_length tr (te \<noteq> []) (length p) (v1, w1) = (v2, w2)"
    by (cases "auto_length tr (te \<noteq> []) (length p) (v1, w1)")
  obtain v3 w3 where s3: "keep_alive (sv_keepAlives E) (v2, w2) = (v3, w3)" by (cases "keep_alive (sv_keepAlives E) (v2, w2)")
  define hasCL where "hasCL = (rs_contentLength w3 \<noteq> - 1)"
  obtain v4 w4 where s4: "drain_body E (v3, w3) = (v4, w4)" by (cases "drain_body E (v3, w3)")
  define v6 where "v6 = header_date E (header_type (te \<noteq> []) p (rs_status w4) v4)"
  obtain v7 w7 where s7: "header_framing te hasCL (v6, w4) = (v7, w7)" by (cases "header_framing te hasCL (v6, w4)")
  note t1 = header_trailers_calm [OF s1]
  have c1: "keeps w w1" "rs_contentLength w1 = rs_contentLength w" "rs_cw w1 = rs_cw w0"
    using t1(1) w0 by (auto simp: calm_def intro: keeps_trans)
  have g1: "good_vars v1" using t1(2) v0(1) by (simp add: same_framing_def)
  have c2: "keeps w w2" "rs_cw w2 = rs_cw w0"
    "good_vars v2" "hv_header v2 = snapshot w" "eh_transferEncoding (hv_set v2) = []"
    "rs_contentLength w2 = rs_contentLength w \<and> eh_contentLength (hv_set v2) = None \<or>
     rs_handlerDone w \<and> rs_contentLength w = - 1 \<and> rs_contentLength w2 = int (length p) \<and>
       eh_contentLength (hv_set v2) = Some (fmt_nat (length p)) \<and> te = [] \<and> header_values (snapshot w) ''Content-Length'' = []"
  proof -
    have "rs_contentLength w = - 1" if "header_values (snapshot w) ''Content-Length'' = []"
      using p that by (simp add: head_pending_def declared_def)
    then have "keeps w w2 \<and> rs_cw w2 = rs_cw w0 \<and> good_vars v2 \<and> hv_header v2 = snapshot w \<and> eh_transferEncoding (hv_set v2) = [] \<and>
      (rs_contentLength w2 = rs_contentLength w \<and> eh_contentLength (hv_set v2) = None \<or>
       rs_handlerDone w \<and> rs_contentLength w = - 1 \<and> rs_contentLength w2 = int (length p) \<and>
         eh_contentLength (hv_set v2) = Some (fmt_nat (length p)) \<and> te = [] \<and> header_values (snapshot w) ''Content-Length'' = [])"
      by (cases rule: auto_length_cases [OF s2])
         (use c1 g1 t1(3,4) v0 not_has_values in \<open>auto simp: keeps_def fmt_int_def\<close>)
    then show "keeps w w2" "rs_cw w2 = rs_cw w0" "good_vars v2" "hv_header v2 = snapshot w" "eh_transferEncoding (hv_set v2) = []"
      "rs_contentLength w2 = rs_contentLength w \<and> eh_contentLength (hv_set v2) = None \<or>
       rs_handlerDone w \<and> rs_contentLength w = - 1 \<and> rs_contentLength w2 = int (length p) \<and>
         eh_contentLength (hv_set v2) = Some (fmt_nat (length p)) \<and> te = [] \<and> header_values (snapshot w) ''Content-Length'' = []"
      by blast+
  qed
  have c3: "calm w2 w3" "good_vars v3" "same_framing v2 v3"
    using keep_alive_calm [OF s3] c2(3) by (simp_all add: same_framing_def)
  have "rs_wroteHeader w3" using c3(1) c2(1) p by (simp add: calm_def keeps_def head_pending_def)
  note c4 = drain_body_calm [OF s4 this c3(2)]
  have g4: "good_vars v4" "same_framing v2 v4" using c3 c4(2) by (auto simp: same_framing_def)
  have calm24: "calm w2 w4" using c3(1) c4(1) by (rule calm_trans)
  have g6: "good_vars v6" "hv_owned v6 = hv_owned v4"
    using header_type_good [OF g4(1)] header_date_same
    by (auto simp: v6_def same_framing_def)
  have same6: "same_framing v2 v6" if "has_payload w4"
    using same_framing_trans [OF g4(2) same_framing_trans [OF header_type_same header_date_same]] that
    by (simp add: v6_def has_payload_def)
  have set6: "eh_transferEncoding (hv_set v6) = []"
  proof -
    have f: "hv_set (fold delHeader ks v) = hv_set v" for ks v by (induction ks arbitrary: v) simp_all
    have "eh_transferEncoding (hv_set v4) = []" using g4(2) c2(5) by (simp add: same_framing_def)
    then show ?thesis by (simp add: v6_def header_date_def header_type_def f)
  qed
  have nochunk: "\<not> cw_chunking (rs_cw w4)" "cw_wroteHeader (rs_cw w4)" using calm24 c2(2) w0 by (simp_all add: calm_def)
  note f7 = header_framing_cases [OF s7 g6(1) nochunk(1) set6]
  have keeps7: "keeps w w7" using c2(1) calm24 f7(1) by (auto simp: calm_def intro: keeps_trans)
  have len7: "rs_contentLength w7 = rs_contentLength w2" using calm24 f7(2) by (simp add: calm_def)
  have hasCL: "hasCL = (rs_contentLength w2 \<noteq> - 1)" using c3(1) by (simp add: hasCL_def calm_def)
  have "chunkWriter_writeHeader E p w =
      (if \<not> ProtoAtLeast (rs_req w) 1 0
       then (if hv_owned v7 then w7\<lparr>rs_cw := (rs_cw w7)\<lparr>cw_header := Some (hv_header v7)\<rparr>\<rparr> else w7)
       else header_emit E (header_connection E (v7, w7), w7))"
  proof -
    have "rs_req w7 = rs_req w" using keeps7 by (simp add: keeps_def)
    moreover have "\<not> cw_wroteHeader (rs_cw w)" using p by (simp add: head_pending_def)
    ultimately show ?thesis
      by (simp add: chunkWriter_writeHeader_def Let_def w0_def [symmetric] v0_def [symmetric] s1 te_def [symmetric] s2 s3
          hasCL_def [symmetric] s4 v6_def [symmetric] s7)
  qed
  moreover have "if \<not> has_payload w7 then \<not> cw_chunking (rs_cw w7)
      else if cw_chunking (rs_cw w7) then
        header_values (hv_header v7) ''Content-Length'' = [] \<and> eh_contentLength (hv_set v7) = None \<and>
        eh_transferEncoding (hv_set v7) = ''chunked''
      else header_values (hv_header v7) ''Transfer-Encoding'' = [] \<and> eh_transferEncoding (hv_set v7) = [] \<and>
        ((\<exists>n. rs_contentLength w7 = int n \<and>
            (header_values (hv_header v7) ''Content-Length'' = [fmt_nat n] \<and> eh_contentLength (hv_set v7) = None \<or>
             header_values (hv_header v7) ''Content-Length'' = [] \<and> eh_contentLength (hv_set v7) = Some (fmt_nat n))) \<or>
         rs_closeAfterReply w7 \<and> header_values (hv_header v7) ''Content-Length'' = [] \<and> eh_contentLength (hv_set v7) = None)"
  proof (cases "has_payload w7")
    case False
    then show ?thesis using f7(6) by (simp add: framed_by_def)
  next
    case True
    then have "has_payload w4" using f7(1) by (simp add: keeps_def has_payload_def)
    note s6 = same6 [OF this]
    have v6: "header_values (hv_header v6) ''Content-Length'' = header_values (snapshot w) ''Content-Length''"
      "eh_contentLength (hv_set v7) = eh_contentLength (hv_set v2)"
      using s6 c2(4) f7(5) by (simp_all add: same_framing_def)
    have "tame (snapshot w)" "rs_contentLength w = declared (snapshot w)" using p by (simp_all add: head_pending_def)
    note tl = tame_length [OF this(1)] this(2)
    from c2(6) show ?thesis
    proof (elim disjE conjE)
      assume a: "rs_contentLength w2 = rs_contentLength w" "eh_contentLength (hv_set v2) = None"
      from tl(1) show ?thesis
      proof (elim disjE exE conjE)
        assume "declared (snapshot w) = - 1" "header_values (snapshot w) ''Content-Length'' = []"
        then show ?thesis using a tl(2) True f7(6) v6 hasCL by (simp add: framed_by_def Let_def split: if_splits)
      next
        fix n assume "declared (snapshot w) = int n" "header_values (snapshot w) ''Content-Length'' = [fmt_nat n]"
        then show ?thesis using a tl(2) True f7(6) v6 hasCL len7 by (auto simp: framed_by_def Let_def split: if_splits)
      qed
    next
      assume "rs_contentLength w2 = int (length p)" "eh_contentLength (hv_set v2) = Some (fmt_nat (length p))" "te = []"
        "header_values (snapshot w) ''Content-Length'' = []"
      then show ?thesis using True f7(6) v6 hasCL len7 by (auto simp: framed_by_def Let_def split: if_splits)
    qed
  qed
  moreover have "rs_contentLength w7 = rs_contentLength w \<or> rs_handlerDone w \<and> rs_contentLength w = - 1 \<and> rs_contentLength w7 = int (length p)"
    using c2(6) len7 by auto
  moreover have "cw_wroteHeader (rs_cw w7)" using f7(3) nochunk(2) by simp
  ultimately show thesis using that [of v7 w7] keeps7 f7(4) by blast
qed


text \<open>\<open>stable w w'\<close>: what sending the header or a piece of the body leaves alone.\<close>

definition stable :: "response \<Rightarrow> response \<Rightarrow> bool" where
  "stable w w' = (rs_req w' = rs_req w \<and> rs_wroteHeader w' = rs_wroteHeader w \<and> rs_canWriteContinue w' = rs_canWriteContinue w \<and>
     rs_wroteContinue w' = rs_wroteContinue w \<and>
     rs_w_err w' = rs_w_err w \<and> rs_handlerHeader w' = rs_handlerHeader w \<and> rs_calledHeader w' = rs_calledHeader w \<and>
     rs_written w' = rs_written w \<and> rs_status w' = rs_status w \<and> rs_handlerDone w' = rs_handlerDone w)"

lemma stable_refl [simp]: "stable w w"
  by (simp add: stable_def)

lemma stable_trans [trans]: "stable w1 w2 \<Longrightarrow> stable w2 w3 \<Longrightarrow> stable w1 w3"
  by (simp add: stable_def)

lemma sends_stable: "sends s w w' \<Longrightarrow> stable w w' \<and> rs_w w' = rs_w w \<and> rs_contentLength w' = rs_contentLength w \<and>
    rs_closeAfterReply w' = rs_closeAfterReply w \<and> rs_cw w' = rs_cw w \<and> rs_reqBody w' = rs_reqBody w \<and> rs_trailers w' = rs_trailers w"
  by (auto simp: sends_def stable_def)

definition length_step :: "nat \<Rightarrow> response \<Rightarrow> response \<Rightarrow> bool" where
  "length_step n w w' = (rs_contentLength w' = rs_contentLength w \<or>
     rs_handlerDone w \<and> \<not> cw_wroteHeader (rs_cw w) \<and> rs_contentLength w = - 1 \<and> rs_contentLength w' = int n)"

text \<open>Interim responses, and the pieces of a payload.\<close>

definition interim_text :: "golib \<Rightarrow> bool \<Rightarrow> int \<times> Header \<Rightarrow> string" where
  "interim_text L is11 i = concat (status_line is11 (fst i)) @ header_text L excludedHeadersNoBody (snd i) @ crlf"

definition interims :: "golib \<Rightarrow> bool \<Rightarrow> string \<Rightarrow> bool" where
  "interims L is11 s = (\<exists>is. s = concat (map (interim_text L is11) is) \<and> (\<forall>i \<in> set is. 100 \<le> fst i \<and> fst i \<le> 199 \<and> fst i \<noteq> 101))"

lemma interims_Nil [simp]: "interims L is11 []"
  unfolding interims_def by (rule exI [of _ "[]"]) simp

lemma interims_snoc: "interims L is11 s \<Longrightarrow> 100 \<le> code \<Longrightarrow> code \<le> 199 \<Longrightarrow> code \<noteq> 101 \<Longrightarrow>
    interims L is11 (s @ interim_text L is11 (code, h))"
  unfolding interims_def by (elim exE conjE, rule_tac x = "is @ [(code, h)]" in exI) auto

definition piece :: "response \<Rightarrow> string \<Rightarrow> string" where
  "piece w d = (if rq_Method (rs_req w) = ''HEAD'' then [] else if cw_chunking (rs_cw w) then chunk_wire d else d)"

text \<open>\<open>outgoing E base dn w\<close>: after the bytes \<open>base\<close> of earlier replies the connection carries interim responses and, if
  the header is sent, the header and the pieces of \<open>dn\<close>, the part of the body that the chunk writer was given.\<close>

definition outgoing :: "server_env \<Rightarrow> string \<Rightarrow> string \<Rightarrow> response \<Rightarrow> bool" where
  "outgoing E base dn w = (conn_ok w \<and> ProtoAtLeast (rs_req w) 1 0 \<and> rs_w_err w = None \<and> rs_wroteHeader w \<and>
     (if \<not> cw_wroteHeader (rs_cw w)
      then head_pending w \<and> dn = [] \<and> (\<exists>pre. interims (sv_lib E) (ProtoAtLeast (rs_req w) 1 1) pre \<and> wire w = base @ pre)
      else \<exists>pre fs ds. interims (sv_lib E) (ProtoAtLeast (rs_req w) 1 1) pre \<and> head_sent fs w \<and> dn = concat ds \<and> [] \<notin> set ds \<and>
        wire w = base @ pre @ head_text (ProtoAtLeast (rs_req w) 1 1) (rs_status w) fs @ concat (map (piece w) ds)))"

lemma buffer_irrelevant [simp]: "head_sent fs (w\<lparr>rs_w := x\<rparr>) = head_sent fs w" "piece (w\<lparr>rs_w := x\<rparr>) = piece w"
  by (cases "client_framing (rq_Method (rs_req w)) (rs_status w) fs"; simp add: head_sent_def has_payload_def)
     (simp add: piece_def fun_eq_iff)

lemma snapshot_buffer [simp]: "snapshot (w\<lparr>rs_w := x\<rparr>) = snapshot w"
  by (simp add: snapshot_def split: option.splits)

lemma outgoing_buffer [simp]: "outgoing E base dn (w\<lparr>rs_w := x\<rparr>) = outgoing E base dn w"
  by (simp add: outgoing_def conn_ok_def head_pending_def wire_def)


lemma writeHeader_sends:
  assumes names: "sv_names E" and p: "head_pending w" and ok: "conn_ok w" and v10: "ProtoAtLeast (rs_req w) 1 0"
  obtains fs where "wire (chunkWriter_writeHeader E p w) = wire w @ head_text (ProtoAtLeast (rs_req w) 1 1) (rs_status w) fs"
    and "conn_ok (chunkWriter_writeHeader E p w)" and "stable w (chunkWriter_writeHeader E p w)"
    and "head_sent fs (chunkWriter_writeHeader E p w)" and "length_step (length p) w (chunkWriter_writeHeader E p w)"
proof -
  obtain v7 w7 where r: "chunkWriter_writeHeader E p w = (if \<not> ProtoAtLeast (rs_req w) 1 0
       then (if hv_owned v7 then w7\<lparr>rs_cw := (rs_cw w7)\<lparr>cw_header := Some (hv_header v7)\<rparr>\<rparr> else w7)
       else header_emit E (header_connection E (v7, w7), w7))"
    and k: "keeps w w7" "cw_wroteHeader (rs_cw w7)" "good_vars v7"
      "rs_contentLength w7 = rs_contentLength w \<or> rs_handlerDone w \<and> rs_contentLength w = - 1 \<and> rs_contentLength w7 = int (length p)"
    and f: "if \<not> has_payload w7 then \<not> cw_chunking (rs_cw w7)
      else if cw_chunking (rs_cw w7) then
        header_values (hv_header v7) ''Content-Length'' = [] \<and> eh_contentLength (hv_set v7) = None \<and>
        eh_transferEncoding (hv_set v7) = ''chunked''
      else header_values (hv_header v7) ''Transfer-Encoding'' = [] \<and> eh_transferEncoding (hv_set v7) = [] \<and>
        ((\<exists>n. rs_contentLength w7 = int n \<and>
            (header_values (hv_header v7) ''Content-Length'' = [fmt_nat n] \<and> eh_contentLength (hv_set v7) = None \<or>
             header_values (hv_header v7) ''Content-Length'' = [] \<and> eh_contentLength (hv_set v7) = Some (fmt_nat n))) \<or>
         rs_closeAfterReply w7 \<and> header_values (hv_header v7) ''Content-Length'' = [] \<and> eh_contentLength (hv_set v7) = None)"
    by (rule writeHeader_vars [OF names p])
  define v8 where "v8 = header_connection E (v7, w7)"
  have s8: "same_framing v7 v8" unfolding v8_def by (rule header_connection_same [OF k(3)])
  then have g8: "good_vars v8" using k(3) by (simp add: same_framing_def)
  define fs where "fs = sent_reply_fields (sv_lib E) v8"
  define w' where "w' = header_emit E (v8, w7)"
  have w': "chunkWriter_writeHeader E p w = w'" using r v10 by (simp add: w'_def v8_def)
  define w8 where "w8 = (if hv_owned v8 then w7\<lparr>rs_cw := (rs_cw w7)\<lparr>cw_header := Some (hv_header v8)\<rparr>\<rparr> else w7)"
  have ok7: "conn_ok w7" using ok k(1) by (simp add: conn_ok_def keeps_def)
  have s: "sends (head_text (ProtoAtLeast (rs_req w7) 1 1) (rs_status w7) fs) w8 w'"
    using header_emit_sends [OF ok7 g8, of E] unfolding fs_def w8_def w'_def .
  have w8: "wire w8 = wire w" "conn_ok w8" "stable w w8" "cw_wroteHeader (rs_cw w8)" "cw_chunking (rs_cw w8) = cw_chunking (rs_cw w7)"
    "rs_contentLength w8 = rs_contentLength w7" "rs_closeAfterReply w8 = rs_closeAfterReply w7"
    using k(1,2) ok7 by (simp_all add: w8_def keeps_def wire_def stable_def conn_ok_def)
  have same: "rs_req w7 = rs_req w" "rs_status w7 = rs_status w" using k(1) by (simp_all add: keeps_def)
  note st = sends_stable [OF s]
  have w'_st: "stable w w'" using w8(3) st stable_trans by blast
  have cl: "clean_value (fmt_nat n) = fmt_nat n" for n by (rule clean_value_plain [OF digits_plain])
  note vals = sent_vals [OF g8 names [unfolded sv_names_def, THEN conjunct1] names [unfolded sv_names_def, THEN conjunct2], folded fs_def]
  have vals7: "header_values (hv_header v8) ''Content-Length'' = header_values (hv_header v7) ''Content-Length''"
    "header_values (hv_header v8) ''Transfer-Encoding'' = header_values (hv_header v7) ''Transfer-Encoding''"
    "eh_contentLength (hv_set v8) = eh_contentLength (hv_set v7)" "eh_transferEncoding (hv_set v8) = eh_transferEncoding (hv_set v7)"
    using s8 by (simp_all add: same_framing_def)
  have pay: "has_payload w' = has_payload w7" "has_payload w7 \<longleftrightarrow> rq_Method (rs_req w') \<noteq> ''HEAD'' \<and> bodyAllowedForStatus (rs_status w')"
    using w'_st same by (simp_all add: has_payload_def stable_def)
  have w'7: "cw_chunking (rs_cw w') = cw_chunking (rs_cw w7)" "rs_contentLength w' = rs_contentLength w7"
    "rs_closeAfterReply w' = rs_closeAfterReply w7" "cw_wroteHeader (rs_cw w')"
    using st w8(4-7) by simp_all
  have "head_sent fs w'"
  proof (cases "has_payload w7")
    case False
    then have "client_framing (rq_Method (rs_req w')) (rs_status w') fs = NoPayload"
      using pay by (simp add: client_framing_def Let_def)
    then show ?thesis using f False pay(1) w'7 by (simp add: head_sent_def)
  next
    case True
    then have np: "rq_Method (rs_req w') \<noteq> ''HEAD''" "bodyAllowedForStatus (rs_status w')" using pay by simp_all
    show ?thesis
    proof (cases "cw_chunking (rs_cw w7)")
      case chunking: True
      then have "client_framing (rq_Method (rs_req w')) (rs_status w') fs = ChunkedPayload"
        using f True np by (simp add: client_framing_def Let_def vals vals7)
      then show ?thesis using True chunking pay(1) w'7 by (simp add: head_sent_def)
    next
      case False
      then consider n where "rs_contentLength w7 = int n" "field_vals fs ''Content-Length'' = [fmt_nat n]" "field_vals fs ''Transfer-Encoding'' = []"
        | "rs_closeAfterReply w7" "field_vals fs ''Content-Length'' = []" "field_vals fs ''Transfer-Encoding'' = []"
        using f True by (auto simp: vals vals7 cl)
      then show ?thesis
      proof cases
        case 1
        then have "client_framing (rq_Method (rs_req w')) (rs_status w') fs = LengthPayload n"
          using np by (simp add: client_framing_def Let_def fmt_nat_digits fmt_nat_value)
        then show ?thesis using True False 1 pay(1) w'7 by (simp add: head_sent_def)
      next
        case 2
        then have "client_framing (rq_Method (rs_req w')) (rs_status w') fs = ClosePayload"
          using np by (simp add: client_framing_def Let_def)
        then show ?thesis using True False 2 pay(1) w'7 by (simp add: head_sent_def)
      qed
    qed
  qed
  moreover have "wire w' = wire w @ head_text (ProtoAtLeast (rs_req w) 1 1) (rs_status w) fs"
    using sendsD(1) [OF s] w8(1) same by simp
  moreover have "conn_ok w'" by (rule sendsD(2) [OF s w8(2)])
  moreover have "length_step (length p) w w'"
    using k(4) w'7(2) p by (auto simp: length_step_def head_pending_def)
  ultimately show thesis using that [of fs] w'_st by (simp add: w')
qed


end
