(* ===== verification/Response_Exact.thy ===== *)
theory Response_Exact
  imports Response_Framing
begin

section \<open>Replies on a working connection\<close>

text \<open>
  The buffers in front of the connection, the handler's operations and the end of the request, step by step over
  the predicate \<open>outgoing\<close> of Response_Framing, and the theorem that every reply is framed exactly.
\<close>

subsection \<open>Pieces of the body\<close>

lemma sends_conn_Write: "conn_ok w \<Longrightarrow> \<exists>w'. conn_Write d w = (length d, None, w') \<and> sends d w w'"
  using conn_Write_sends by metis

lemma chunkWriter_Write_sends:
  assumes "conn_ok w" "cw_wroteHeader (rs_cw w)"
  shows "\<exists>w'. chunkWriter_Write E d w = (length d, None, w') \<and> sends (piece w d) w w'"
proof -
  consider "rq_Method (rs_req w) = ''HEAD''" | "rq_Method (rs_req w) \<noteq> ''HEAD''" "\<not> cw_chunking (rs_cw w)"
    | "rq_Method (rs_req w) \<noteq> ''HEAD''" "cw_chunking (rs_cw w)" by blast
  then show ?thesis
  proof cases
    case 1
    then show ?thesis using assms sends_Nil by (simp add: chunkWriter_Write_def piece_def)
  next
    case 2
    obtain w' where "conn_Write d w = (length d, None, w')" "sends d w w'" using sends_conn_Write [OF assms(1)] by blast
    with 2 assms(2) show ?thesis by (simp add: chunkWriter_Write_def piece_def)
  next
    case 3
    obtain w1 where w1: "conn_Write (fmt_hex (length d) @ crlf) w = (length (fmt_hex (length d) @ crlf), None, w1)"
      "sends (fmt_hex (length d) @ crlf) w w1" using sends_conn_Write [OF assms(1)] by blast
    obtain w2 where w2: "conn_Write d w1 = (length d, None, w2)" "sends d w1 w2"
      using sends_conn_Write [OF sendsD(2) [OF w1(2) assms(1)]] by blast
    have "conn_ok w2" using sendsD(2) [OF w2(2)] sendsD(2) [OF w1(2) assms(1)] .
    then obtain w3 where w3: "conn_Write crlf w2 = (length crlf, None, w3)" "sends crlf w2 w3"
      using sends_conn_Write by blast
    have "sends (piece w d) w w3"
      using sends_trans [OF w1(2) sends_trans [OF w2(2) w3(2)]] 3 by (simp add: piece_def chunk_wire_def)
    with 3 assms(2) w1 w2 w3 show ?thesis by (simp add: chunkWriter_Write_def)
  qed
qed

lemma piece_stable: "stable w w' \<Longrightarrow> cw_chunking (rs_cw w') = cw_chunking (rs_cw w) \<Longrightarrow> piece w' = piece w"
  by (simp add: piece_def stable_def fun_eq_iff)

lemma head_sent_stable:
  assumes "head_sent fs w" "stable w w'" "rs_cw w' = rs_cw w" "rs_contentLength w' = rs_contentLength w"
    "rs_closeAfterReply w \<longrightarrow> rs_closeAfterReply w'"
  shows "head_sent fs w'"
  using assms by (cases "client_framing (rq_Method (rs_req w)) (rs_status w) fs")
    (simp_all add: head_sent_def stable_def has_payload_def)

lemma head_sent_cong:
  "rs_cw w' = rs_cw w \<Longrightarrow> rs_req w' = rs_req w \<Longrightarrow> rs_status w' = rs_status w \<Longrightarrow> rs_contentLength w' = rs_contentLength w \<Longrightarrow>
   rs_closeAfterReply w' = rs_closeAfterReply w \<Longrightarrow> head_sent fs w' = head_sent fs w"
  by (cases "client_framing (rq_Method (rs_req w)) (rs_status w) fs") (simp_all add: head_sent_def has_payload_def)

text \<open>Sending adds to what the connection carries.\<close>

lemma outgoing_sends:
  assumes o: "outgoing E base dn w" and h: "cw_wroteHeader (rs_cw w)" and s: "sends (piece w d) w w'" and d: "d \<noteq> []"
  shows "outgoing E base (dn @ d) w'"
proof -
  note st = sends_stable [OF s]
  obtain pre fs ds where p: "interims (sv_lib E) (ProtoAtLeast (rs_req w) 1 1) pre" "head_sent fs w" "dn = concat ds" "[] \<notin> set ds"
    "wire w = base @ pre @ head_text (ProtoAtLeast (rs_req w) 1 1) (rs_status w) fs @ concat (map (piece w) ds)"
    using o h by (auto simp: outgoing_def)
  have same: "rs_req w' = rs_req w" "rs_status w' = rs_status w" using st by (simp_all add: stable_def)
  have pc: "piece w' = piece w" using st by (intro piece_stable) simp_all
  have hs: "head_sent fs w'" using head_sent_stable [OF p(2)] st by simp
  have "wire w' = base @ pre @ head_text (ProtoAtLeast (rs_req w) 1 1) (rs_status w) fs @ concat (map (piece w) (ds @ [d]))"
    using sendsD(1) [OF s] p(5) by simp
  moreover have "dn @ d = concat (ds @ [d])" "[] \<notin> set (ds @ [d])" using p(3,4) d by simp_all
  ultimately have "\<exists>pre fs ds. interims (sv_lib E) (ProtoAtLeast (rs_req w') 1 1) pre \<and> head_sent fs w' \<and> dn @ d = concat ds \<and> [] \<notin> set ds \<and>
        wire w' = base @ pre @ head_text (ProtoAtLeast (rs_req w') 1 1) (rs_status w') fs @ concat (map (piece w') ds)"
    unfolding same pc using p(1) hs by blast
  then show ?thesis
    using o h st sendsD(2) [OF s] by (simp add: outgoing_def stable_def)
qed

definition buffered :: "server_env \<Rightarrow> string \<Rightarrow> string \<Rightarrow> response \<Rightarrow> bool" where
  "buffered E base acc w = (\<exists>dn. outgoing E base dn w \<and> acc = dn @ rs_w w)"

lemma outgoing_buffered: "outgoing E base acc w \<Longrightarrow> rs_w w = [] \<Longrightarrow> buffered E base acc w"
  by (simp add: buffered_def)

lemma buffered_append: "buffered E base acc w \<Longrightarrow> buffered E base (acc @ d) (w\<lparr>rs_w := rs_w w @ d\<rparr>)"
  by (auto simp: buffered_def)

definition same_length :: "response \<Rightarrow> response \<Rightarrow> bool" where
  "same_length w w' = (stable w w' \<and> rs_contentLength w' = rs_contentLength w)"

lemma same_length_trans [trans]: "same_length w1 w2 \<Longrightarrow> same_length w2 w3 \<Longrightarrow> same_length w1 w3"
  by (auto simp: same_length_def intro: stable_trans)


lemma outgoing_header:
  assumes names: "sv_names E" and o: "outgoing E base dn w" and h: "\<not> cw_wroteHeader (rs_cw w)"
  shows "outgoing E base dn (chunkWriter_writeHeader E p w)" and "stable w (chunkWriter_writeHeader E p w)"
    and "length_step (length p) w (chunkWriter_writeHeader E p w)" and "cw_wroteHeader (rs_cw (chunkWriter_writeHeader E p w))"
proof -
  let ?w = "chunkWriter_writeHeader E p w"
  from o h obtain pre where p: "head_pending w" "conn_ok w" "ProtoAtLeast (rs_req w) 1 0" "dn = []"
    "interims (sv_lib E) (ProtoAtLeast (rs_req w) 1 1) pre" "wire w = base @ pre"
    by (auto simp: outgoing_def)
  obtain fs where f: "wire ?w = wire w @ head_text (ProtoAtLeast (rs_req w) 1 1) (rs_status w) fs" "conn_ok ?w" "stable w ?w"
    "head_sent fs ?w" "length_step (length p) w ?w"
    by (rule writeHeader_sends [OF names p(1-3)])
  then show "stable w ?w" "length_step (length p) w ?w" "cw_wroteHeader (rs_cw ?w)" by (simp_all add: head_sent_def)
  have same: "rs_req ?w = rs_req w" "rs_status ?w = rs_status w" using f(3) by (simp_all add: stable_def)
  have "interims (sv_lib E) (ProtoAtLeast (rs_req ?w) 1 1) pre \<and> head_sent fs ?w \<and> dn = concat [] \<and> [] \<notin> set [] \<and>
     wire ?w = base @ pre @ head_text (ProtoAtLeast (rs_req ?w) 1 1) (rs_status ?w) fs @ concat (map (piece ?w) [])"
    using p f(1,4) by (simp add: same)
  then have "\<exists>pre fs ds. interims (sv_lib E) (ProtoAtLeast (rs_req ?w) 1 1) pre \<and> head_sent fs ?w \<and> dn = concat ds \<and> [] \<notin> set ds \<and>
     wire ?w = base @ pre @ head_text (ProtoAtLeast (rs_req ?w) 1 1) (rs_status ?w) fs @ concat (map (piece ?w) ds)" by blast
  then show "outgoing E base dn ?w"
    using o f(2,3,4) by (simp add: outgoing_def stable_def head_sent_def)
qed

text \<open>One write of a non-empty piece to the chunk writer.\<close>

lemma outgoing_Write:
  assumes names: "sv_names E" and o: "outgoing E base dn w" and d: "d \<noteq> []"
  shows "\<exists>w'. chunkWriter_Write E d w = (length d, None, w') \<and> outgoing E base (dn @ d) w' \<and> stable w w' \<and> rs_w w' = rs_w w \<and>
    length_step (length d) w w' \<and> cw_wroteHeader (rs_cw w')"
proof (cases "cw_wroteHeader (rs_cw w)")
  case True
  have "conn_ok w" using o by (simp add: outgoing_def)
  from chunkWriter_Write_sends [OF this True] obtain w' where w': "chunkWriter_Write E d w = (length d, None, w')" "sends (piece w d) w w'"
    by blast
  from outgoing_sends [OF o True w'(2) d] sends_stable [OF w'(2)] w'(1) True show ?thesis by (simp add: length_step_def)
next
  case False
  let ?w = "chunkWriter_writeHeader E d w"
  note h = outgoing_header [OF names o False, of d]
  have "conn_ok ?w" using h(1) by (simp add: outgoing_def)
  from chunkWriter_Write_sends [OF this h(4)] obtain w' where w': "chunkWriter_Write E d ?w = (length d, None, w')" "sends (piece ?w d) ?w w'"
    by blast
  have "chunkWriter_Write E d w = chunkWriter_Write E d ?w" using False h(4) by (simp add: chunkWriter_Write_def)
  moreover have "length_step (length d) w w'" using h(3) sends_stable [OF w'(2)] by (simp add: length_step_def)
  moreover have "stable w w'" using h(2) sends_stable [OF w'(2)] stable_trans by blast
  moreover have "cw_wroteHeader (rs_cw w')" using h(4) sends_stable [OF w'(2)] by simp
  ultimately show ?thesis
    using outgoing_sends [OF h(1) h(4) w'(2) d] sends_stable [OF w'(2)] w'(1) by simp
qed

subsection \<open>The buffer in front of the chunk writer\<close>

lemma w_Flush_ok:
  assumes names: "sv_names E" and "buffered E base acc w"
  shows "\<exists>w'. w_Flush E w = (None, w') \<and> outgoing E base acc w' \<and> stable w w' \<and> rs_w w' = [] \<and>
    length_step (length (rs_w w)) w w' \<and> (rs_w w \<noteq> [] \<longrightarrow> cw_wroteHeader (rs_cw w')) \<and> (rs_w w = [] \<longrightarrow> w' = w)"
proof -
  obtain dn where o: "outgoing E base dn w" "acc = dn @ rs_w w" using assms by (auto simp: buffered_def)
  have e: "rs_w_err w = None" using o(1) by (simp add: outgoing_def)
  show ?thesis
  proof (cases "rs_w w = []")
    case True
    then show ?thesis using o e by (simp add: w_Flush_def length_step_def)
  next
    case False
    from outgoing_Write [OF names o(1) False] obtain w1 where w1: "chunkWriter_Write E (rs_w w) w = (length (rs_w w), None, w1)"
      "outgoing E base acc w1" "stable w w1" "length_step (length (rs_w w)) w w1" "cw_wroteHeader (rs_cw w1)"
      using o(2) by auto
    have "w_Flush E w = (None, w1\<lparr>rs_w := []\<rparr>)" using e False w1(1) by (simp add: w_Flush_def)
    with w1 False show ?thesis by (simp add: stable_def length_step_def)
  qed
qed

lemma length_step_running: "length_step n w w' \<Longrightarrow> stable w w' \<Longrightarrow> \<not> rs_handlerDone w \<Longrightarrow> same_length w w'"
  by (auto simp: length_step_def same_length_def)

lemma w_Write_loop_ok:
  assumes names: "sv_names E"
  shows
  "buffered E base acc w \<Longrightarrow> \<not> rs_handlerDone w \<Longrightarrow>
     \<exists>q p' w'. w_Write_loop E s nn p w = (nn + length q, p', w') \<and> p = q @ p' \<and> buffered E base (acc @ q) w' \<and> same_length w w'"
proof (induction "length p + length (rs_w w)" arbitrary: nn p w acc rule: less_induct)
  case less
  note b = less.prems(1) and running = less.prems(2)
  obtain dn where o: "outgoing E base dn w" "acc = dn @ rs_w w" using b by (auto simp: buffered_def)
  have e: "rs_w_err w = None" using o(1) by (simp add: outgoing_def)
  show ?case
  proof (cases "length p \<le> bufferBeforeChunkingSize - length (rs_w w)")
    case True
    then have "w_Write_loop E s nn p w = (nn + length [], p, w)" by (simp add: w_Write_loop.simps [of E s nn p w])
    then show ?thesis using b by (intro exI [of _ "[]"] exI [of _ p] exI [of _ w]) (simp add: same_length_def)
  next
    case big: False
    have go: "\<not> (length p \<le> bufferBeforeChunkingSize - length (rs_w w) \<or> rs_w_err w \<noteq> None)" using big e by simp
    have pne: "p \<noteq> []" using big by auto
    show ?thesis
    proof (cases "rs_w w = [] \<and> \<not> s")
      case True
      from outgoing_Write [OF names o(1) pne] obtain w1 where w1: "chunkWriter_Write E p w = (length p, None, w1)" "outgoing E base (dn @ p) w1"
        "stable w w1" "rs_w w1 = rs_w w" "length_step (length p) w w1" by blast
      have nb: "buffered E base (acc @ p) w1" using w1(2,4) o(2) True by (simp add: buffered_def)
      have loop: "w_Write_loop E s nn p w = w_Write_loop E s (nn + length p) [] w1"
        by (subst w_Write_loop.simps) (use go True w1(1) in simp)
      have "\<not> rs_handlerDone w1" using running w1(3) by (simp add: stable_def)
      then obtain q p' w' where "w_Write_loop E s (nn + length p) [] w1 = (nn + length p + length q, p', w')" "[] = q @ p'"
        "buffered E base ((acc @ p) @ q) w'" "same_length w1 w'"
        using less.hyps [of "[]" w1 "acc @ p" "nn + length p"] nb w1(4) pne by auto
      moreover have "same_length w w1" by (rule length_step_running [OF w1(5,3) running])
      ultimately show ?thesis
        using loop by (intro exI [of _ p] exI [of _ "[]"] exI [of _ w']) (auto intro: same_length_trans)
    next
      case False
      define n where "n = bufferBeforeChunkingSize - length (rs_w w)"
      have n: "n < length p" "0 < n + length (rs_w w)" using big by (auto simp: n_def bufferBeforeChunkingSize_def)
      let ?w = "w\<lparr>rs_w := rs_w w @ take n p\<rparr>"
      from w_Flush_ok [OF names buffered_append [OF b, of "take n p"]] obtain w1 where w1: "w_Flush E ?w = (None, w1)"
        "outgoing E base (acc @ take n p) w1" "stable ?w w1" "rs_w w1 = []" "length_step (length (rs_w ?w)) ?w w1" by blast
      have loop: "w_Write_loop E s nn p w = w_Write_loop E s (nn + n) (drop n p) w1"
        using w1(1) unfolding w_Write_loop.simps [of E s nn p w] if_not_P [OF go] if_not_P [OF False]
        by (simp add: n_def [symmetric] Let_def)
      have "length (drop n p) + length (rs_w w1) = length p - n" using w1(4) by simp
      then have shorter: "length (drop n p) + length (rs_w w1) < length p + length (rs_w w)" using n by linarith
      have "\<not> rs_handlerDone w1" using running w1(3) by (simp add: stable_def)
      then obtain q p' w' where r: "w_Write_loop E s (nn + n) (drop n p) w1 = (nn + n + length q, p', w')" "drop n p = q @ p'"
        "buffered E base ((acc @ take n p) @ q) w'" "same_length w1 w'"
        using less.hyps [OF shorter outgoing_buffered [OF w1(2,4)], of "nn + n"] by blast
      have "same_length ?w w1" by (rule length_step_running [OF w1(5,3)]) (simp add: running)
      then have "same_length w w'" using same_length_trans [OF _ r(4), of ?w] by (simp add: same_length_def stable_def)
      moreover have "p = (take n p @ q) @ p'" using append_take_drop_id [of n p] r(2) by simp
      moreover have "length (take n p @ q) = n + length q" using n by simp
      ultimately show ?thesis
        using loop r by (intro exI [of _ "take n p @ q"] exI [of _ p'] exI [of _ w']) simp
    qed
  qed
qed

lemma w_Write_ok:
  assumes names: "sv_names E" and "buffered E base acc w" "\<not> rs_handlerDone w"
  shows "\<exists>w'. w_Write E s p w = (length p, None, w') \<and> buffered E base (acc @ p) w' \<and> same_length w w'"
proof -
  obtain q p' w1 where r: "w_Write_loop E s 0 p w = (length q, p', w1)" "p = q @ p'" "buffered E base (acc @ q) w1" "same_length w w1"
    using w_Write_loop_ok [OF assms, of s 0 p] by auto
  have "rs_w_err w1 = None" using r(3) by (auto simp: buffered_def outgoing_def)
  then have "w_Write E s p w = (length p, None, w1\<lparr>rs_w := rs_w w1 @ p'\<rparr>)" using r by (simp add: w_Write_def)
  moreover have "buffered E base (acc @ p) (w1\<lparr>rs_w := rs_w w1 @ p'\<rparr>)" using buffered_append [OF r(3), of p'] r(2) by simp
  moreover have "same_length w (w1\<lparr>rs_w := rs_w w1 @ p'\<rparr>)" using r(4) by (simp add: same_length_def stable_def)
  ultimately show ?thesis by blast
qed


subsection \<open>The handler's operations\<close>

text \<open>\<open>core w w'\<close>: the two states differ at most in the request body and in a request to close the connection.\<close>

definition core :: "response \<Rightarrow> response \<Rightarrow> bool" where
  "core w w' = (rs_conn w' = rs_conn w \<and> rq_Method (rs_req w') = rq_Method (rs_req w) \<and>
     rq_ProtoMajor (rs_req w') = rq_ProtoMajor (rs_req w) \<and> rq_ProtoMinor (rs_req w') = rq_ProtoMinor (rs_req w) \<and>
     rs_wroteHeader w' = rs_wroteHeader w \<and> rs_canWriteContinue w' = rs_canWriteContinue w \<and> rs_w w' = rs_w w \<and>
     rs_w_err w' = rs_w_err w \<and> rs_cw w' = rs_cw w \<and> rs_handlerHeader w' = rs_handlerHeader w \<and>
     rs_calledHeader w' = rs_calledHeader w \<and> rs_written w' = rs_written w \<and> rs_contentLength w' = rs_contentLength w \<and>
     rs_status w' = rs_status w \<and> rs_handlerDone w' = rs_handlerDone w \<and> (rs_closeAfterReply w \<longrightarrow> rs_closeAfterReply w'))"

lemma core_Proto: "core w w' \<Longrightarrow> ProtoAtLeast (rs_req w') a b = ProtoAtLeast (rs_req w) a b"
  by (simp add: core_def ProtoAtLeast_def)

lemma core_head:
  assumes "core w w'"
  shows "piece w' = piece w" and "head_sent fs w \<Longrightarrow> head_sent fs w'" and "head_pending w \<Longrightarrow> head_pending w'"
    and "wire w' = wire w" and "conn_ok w' = conn_ok w" and "snapshot w' = snapshot w"
proof -
  show sn: "snapshot w' = snapshot w" using assms by (simp add: core_def snapshot_def split: option.splits)
  show "piece w' = piece w" "wire w' = wire w" "conn_ok w' = conn_ok w"
    using assms by (simp_all add: core_def piece_def wire_def conn_ok_def fun_eq_iff)
  show "head_pending w \<Longrightarrow> head_pending w'" using assms sn by (simp add: core_def head_pending_def)
  show "head_sent fs w'" if "head_sent fs w"
    using assms that by (cases "client_framing (rq_Method (rs_req w)) (rs_status w) fs")
      (simp_all add: core_def head_sent_def has_payload_def)
qed

lemma core_outgoing:
  assumes c: "core w w'" and o: "outgoing E base dn w"
  shows "outgoing E base dn w'"
proof -
  note h = core_head [OF c]
  have e: "rs_w_err w' = rs_w_err w" "rs_wroteHeader w' = rs_wroteHeader w" "rs_cw w' = rs_cw w" "rs_status w' = rs_status w"
    using c by (simp_all add: core_def)
  show ?thesis using o h(2,3) unfolding outgoing_def e h(1,4,5) core_Proto [OF c] by (metis (no_types, lifting))
qed

definition counted :: "string \<Rightarrow> response \<Rightarrow> bool" where
  "counted acc w = ((\<not> bodyAllowedForStatus (rs_status w) \<longrightarrow> acc = []) \<and> int (length acc) \<le> rs_written w \<and>
     (if rs_contentLength w = - 1 then rs_written w = int (length acc)
      else int (length acc) \<le> rs_contentLength w \<and> (rs_written w \<le> rs_contentLength w \<longrightarrow> rs_written w = int (length acc))))"

definition handling :: "server_env \<Rightarrow> string \<Rightarrow> string \<Rightarrow> response \<Rightarrow> bool" where
  "handling E base acc w = (conn_ok w \<and> ProtoAtLeast (rs_req w) 1 0 \<and> rs_w_err w = None \<and> \<not> rs_canWriteContinue w \<and>
     \<not> rs_handlerDone w \<and> tame (rs_handlerHeader w) \<and> (\<not> rs_calledHeader w \<longrightarrow> rs_handlerHeader w = []) \<and>
     (if rs_wroteHeader w then buffered E base acc w \<and> counted acc w
      else rs_w w = [] \<and> acc = [] \<and> rs_written w = 0 \<and> rs_contentLength w = - 1 \<and>
        rs_cw w = \<lparr>cw_header = None, cw_wroteHeader = False, cw_chunking = False\<rparr> \<and>
        (\<exists>pre. interims (sv_lib E) (ProtoAtLeast (rs_req w) 1 1) pre \<and> wire w = base @ pre)))"

lemma core_handling:
  assumes c: "core w w'" and h: "handling E base acc w"
  shows "handling E base acc w'"
proof -
  have e: "rs_w_err w' = rs_w_err w" "rs_wroteHeader w' = rs_wroteHeader w" "rs_cw w' = rs_cw w" "rs_status w' = rs_status w"
    "rs_canWriteContinue w' = rs_canWriteContinue w" "rs_handlerDone w' = rs_handlerDone w" "rs_handlerHeader w' = rs_handlerHeader w"
    "rs_calledHeader w' = rs_calledHeader w" "rs_w w' = rs_w w" "rs_written w' = rs_written w" "rs_contentLength w' = rs_contentLength w"
    using c by (simp_all add: core_def)
  have "buffered E base acc w \<Longrightarrow> buffered E base acc w'"
    using core_outgoing [OF c] e(9) by (auto simp: buffered_def)
  then show ?thesis
    using h unfolding handling_def e core_head(4,5) [OF c] core_Proto [OF c] counted_def by (simp split: if_splits)
qed

lemma tame_Nil [simp]: "tame []"
  by (simp add: tame_def header_values_def)

lemma tame_Set:
  assumes "tame h" "CanonicalHeaderKey k \<noteq> ''Content-Length''"
  shows "tame (Header_Set k v h)"
proof -
  have "distinct (map fst (Header_Set k v h))" using assms(1) by (simp add: tame_def Header_Set_def distinct_update)
  moreover have "list_all (\<lambda>k. CanonicalHeaderKey k = k) (map fst (Header_Set k v h))"
  proof -
    have "set (map fst (Header_Set k v h)) = {CanonicalHeaderKey k} \<union> set (map fst h)"
      using dom_update [of "CanonicalHeaderKey k" "[v]" h] by (simp add: Header_Set_def)
    then show ?thesis using assms(1) unfolding tame_def list_all_iff by (simp add: CanonicalHeaderKey_idem)
  qed
  ultimately show ?thesis using assms by (simp add: tame_def Header_Set_def)
qed

lemma handling_Header:
  assumes h: "handling E base acc w" and f: "tame (f (rs_handlerHeader w))" and r: "response_Header w = (h0, w1)"
  shows "handling E base acc (w1\<lparr>rs_handlerHeader := f h0\<rparr>)"
proof -
  let ?w = "w1\<lparr>rs_handlerHeader := f h0\<rparr>"
  have e: "h0 = rs_handlerHeader w" "rs_conn ?w = rs_conn w" "rs_req ?w = rs_req w" "rs_w_err ?w = rs_w_err w"
    "rs_wroteHeader ?w = rs_wroteHeader w" "rs_canWriteContinue ?w = rs_canWriteContinue w" "rs_handlerDone ?w = rs_handlerDone w"
    "rs_calledHeader ?w" "rs_w ?w = rs_w w" "rs_status ?w = rs_status w" "rs_written ?w = rs_written w"
    "rs_contentLength ?w = rs_contentLength w" "rs_closeAfterReply ?w = rs_closeAfterReply w"
    "rs_cw ?w = (if cw_header (rs_cw w) = None \<and> rs_wroteHeader w \<and> \<not> cw_wroteHeader (rs_cw w)
       then (rs_cw w)\<lparr>cw_header := Some (rs_handlerHeader w)\<rparr> else rs_cw w)"
  proof -
    define C where "C = (cw_header (rs_cw w) = None \<and> rs_wroteHeader w \<and> \<not> cw_wroteHeader (rs_cw w))"
    have "w1 = (if C then w\<lparr>rs_cw := (rs_cw w)\<lparr>cw_header := Some (rs_handlerHeader w)\<rparr>\<rparr> else w)\<lparr>rs_calledHeader := True\<rparr>"
      "h0 = rs_handlerHeader (if C then w\<lparr>rs_cw := (rs_cw w)\<lparr>cw_header := Some (rs_handlerHeader w)\<rparr>\<rparr> else w)"
      using r unfolding response_Header_def Let_def C_def [symmetric] by simp_all
    then show "h0 = rs_handlerHeader w" "rs_conn ?w = rs_conn w" "rs_req ?w = rs_req w" "rs_w_err ?w = rs_w_err w"
      "rs_wroteHeader ?w = rs_wroteHeader w" "rs_canWriteContinue ?w = rs_canWriteContinue w" "rs_handlerDone ?w = rs_handlerDone w"
      "rs_calledHeader ?w" "rs_w ?w = rs_w w" "rs_status ?w = rs_status w" "rs_written ?w = rs_written w"
      "rs_contentLength ?w = rs_contentLength w" "rs_closeAfterReply ?w = rs_closeAfterReply w"
      "rs_cw ?w = (if cw_header (rs_cw w) = None \<and> rs_wroteHeader w \<and> \<not> cw_wroteHeader (rs_cw w)
         then (rs_cw w)\<lparr>cw_header := Some (rs_handlerHeader w)\<rparr> else rs_cw w)"
      unfolding C_def [symmetric] by simp_all
  qed
  have wire: "wire ?w = wire w" "conn_ok ?w = conn_ok w" using e(2) by (simp_all only: wire_def conn_ok_def)
  have "outgoing E base dn ?w" if o: "outgoing E base dn w" and wr: "rs_wroteHeader w" for dn
  proof (cases "cw_wroteHeader (rs_cw w)")
    case True
    then have cw: "rs_cw ?w = rs_cw w" using e(14) by simp
    have "piece ?w = piece w" using e(3) cw by (simp add: piece_def fun_eq_iff)
    moreover have "head_sent fs ?w = head_sent fs w" for fs
      using e cw by (intro head_sent_cong) simp_all
    ultimately show ?thesis using o True wire e cw by (simp add: outgoing_def)
  next
    case False
    then have p: "head_pending w" using o by (simp add: outgoing_def)
    have "head_pending ?w"
      using p e(5,12,14) False wr by (cases "cw_header (rs_cw w)") (simp_all add: head_pending_def snapshot_def)
    then show ?thesis using o False wire e by (simp add: outgoing_def)
  qed
  then have "buffered E base acc ?w" if "buffered E base acc w" "rs_wroteHeader w" using that e(9) by (auto simp: buffered_def)
  moreover have "counted acc ?w = counted acc w" using e by (simp add: counted_def)
  moreover have "rs_cw ?w = rs_cw w" if "\<not> rs_wroteHeader w" using that e(14) by simp
  ultimately show ?thesis using h f e wire by (simp add: handling_def split: if_splits)
qed

lemma interim_sends:
  assumes "conn_ok w"
  shows "sends (interim_text L (ProtoAtLeast (rs_req w) 1 1) (code, h)) w
    (snd (conn_Flush (snd (snd (conn_Write crlf (snd (writeSubset L conn_Write excludedHeadersNoBody h
       (writeStatusLine (ProtoAtLeast (rs_req w) 1 1) code w))))))))"
proof -
  define w2 where "w2 = writeStatusLine (ProtoAtLeast (rs_req w) 1 1) code w"
  define w3 where "w3 = snd (writeSubset L conn_Write excludedHeadersNoBody h w2)"
  have s2: "sends (concat (status_line (ProtoAtLeast (rs_req w) 1 1) code)) w w2"
    unfolding w2_def writeStatusLine_def by (rule conn_Puts_sends [OF assms])
  have ok2: "conn_ok w2" by (rule sendsD(2) [OF s2 assms])
  have s3: "sends (header_text L excludedHeadersNoBody h) w2 w3" unfolding w3_def by (rule writeSubset_sends [OF ok2])
  have ok3: "conn_ok w3" by (rule sendsD(2) [OF s3 ok2])
  obtain w4 where w4: "conn_Write crlf w3 = (length crlf, None, w4)" "sends crlf w3 w4" using sends_conn_Write [OF ok3] by blast
  obtain w5 where w5: "conn_Flush w4 = (None, w5)" "sends [] w4 w5"
    using conn_Flush_sends [OF sendsD(2) [OF w4(2) ok3]] by metis
  have "sends (interim_text L (ProtoAtLeast (rs_req w) 1 1) (code, h)) w w5"
    using sends_trans [OF s2 sends_trans [OF s3 sends_trans [OF w4(2) w5(2)]]] by (simp add: interim_text_def)
  then show ?thesis by (simp add: w2_def [symmetric] w3_def [symmetric] w4(1) w5(1))
qed

lemma handling_WriteHeader:
  assumes h: "handling E base acc w" and code: "100 \<le> code" "code \<le> 999"
  shows "\<exists>w'. response_WriteHeader E code w = Ret w' \<and> handling E base acc w' \<and>
    (code \<le> 199 \<and> code \<noteq> 101 \<or> rs_wroteHeader w')"
proof (cases "rs_wroteHeader w")
  case True
  then show ?thesis using h by (simp add: response_WriteHeader_def)
next
  case new: False
  have ok: "conn_ok w" "\<not> c_hijacked (rs_conn w)" "\<not> rs_canWriteContinue w" using h by (simp_all add: handling_def conn_ok_def)
  have chk: "checkWriteHeaderCode code = Ret ()" using code by (simp add: checkWriteHeaderCode_def)
  show ?thesis
  proof (cases "code \<le> 199 \<and> code \<noteq> 101")
    case True
    let ?i = "interim_text (sv_lib E) (ProtoAtLeast (rs_req w) 1 1) (code, rs_handlerHeader w)"
    obtain w' where r: "response_WriteHeader E code w = Ret w'" and s: "sends ?i w w'"
    proof -
      have same: "rs_handlerHeader (writeStatusLine b code w) = rs_handlerHeader w" for b
        using sendsD(6) [OF conn_Puts_sends [OF ok(1), of "status_line b code"]] by (simp add: writeStatusLine_def)
      show thesis
        by (rule that [OF _ interim_sends [OF ok(1)]])
           (use True new ok chk code in \<open>simp add: response_WriteHeader_def Let_def same\<close>)
    qed
    note st = sends_stable [OF s]
    obtain pre where pre: "interims (sv_lib E) (ProtoAtLeast (rs_req w) 1 1) pre" "wire w = base @ pre"
      using h new by (auto simp: handling_def)
    have "interims (sv_lib E) (ProtoAtLeast (rs_req w) 1 1) (pre @ ?i)" "wire w' = base @ pre @ ?i"
      using interims_snoc [OF pre(1)] code True sendsD(1) [OF s] pre(2) by simp_all
    then have "handling E base acc w'"
      using h new st sendsD(2) [OF s ok(1)] by (auto simp: handling_def stable_def)
    then show ?thesis using r True by simp
  next
    case False
    define hh where "hh = rs_handlerHeader w"
    have t: "tame hh" using h by (simp add: handling_def hh_def)
    define cw where "cw = (if rs_calledHeader w then \<lparr>cw_header = Some hh, cw_wroteHeader = False, cw_chunking = False\<rparr> else rs_cw w)"
    define w' where "w' = w\<lparr>rs_wroteHeader := True, rs_status := code, rs_cw := cw, rs_contentLength := declared hh\<rparr>"
    have fresh: "rs_cw w = \<lparr>cw_header = None, cw_wroteHeader = False, cw_chunking = False\<rparr>" "rs_contentLength w = - 1"
      using h new by (simp_all add: handling_def)
    have "response_WriteHeader E code w = Ret w'"
    proof -
      have c: "\<not> (100 \<le> code \<and> code \<le> 199 \<and> code \<noteq> 101)" using False by simp
      note r = response_WriteHeader_def [of E code w, unfolded if_not_P [OF ok(2)] if_not_P [OF new] chk go_bind.simps if_not_P [OF c]]
      from tame_length [OF t] show ?thesis
      proof (elim disjE exE conjE)
        assume a: "declared hh = - 1" "header_values hh ''Content-Length'' = []"
        then show ?thesis unfolding r using fresh
          by (cases w) (simp add: w'_def cw_def Let_def header_get_def hh_def)
      next
        fix n assume a: "n < 2 ^ 63" "declared hh = int n" "header_values hh ''Content-Length'' = [fmt_nat n]"
        have "parse_int 64 (fmt_nat n) = Inr (int n)" using parse_int_fmt [of "int n"] a(1) by (simp add: fmt_int_def)
        then show ?thesis unfolding r using fresh a
          by (cases w) (simp add: w'_def cw_def Let_def header_get_def hh_def)
      qed
    qed
    moreover have "handling E base acc w'"
    proof -
      have "snapshot w' = hh" using fresh by (auto simp: snapshot_def w'_def cw_def hh_def)
      then have "head_pending w'"
        using t fresh h by (simp add: head_pending_def w'_def cw_def handling_def)
      moreover have "\<not> cw_wroteHeader (rs_cw w')" using fresh by (simp add: w'_def cw_def)
      moreover have "conn_ok w' = conn_ok w" "wire w' = wire w" "rs_req w' = rs_req w" "rs_w_err w' = rs_w_err w" "rs_wroteHeader w'"
        by (simp_all add: w'_def conn_ok_def wire_def)
      ultimately have "outgoing E base [] w'"
        using h new by (simp add: outgoing_def handling_def)
      then have "buffered E base acc w'" using h new by (simp add: buffered_def handling_def w'_def)
      moreover have "counted acc w'"
        using h new tame_length [OF t] by (auto simp: counted_def handling_def w'_def)
      ultimately show ?thesis using h new by (simp add: handling_def w'_def conn_ok_def)
    qed
    ultimately show ?thesis by (simp add: w'_def)
  qed
qed

lemma outgoing_written [simp]: "outgoing E base dn (w\<lparr>rs_written := x\<rparr>) = outgoing E base dn w"
proof -
  have "piece (w\<lparr>rs_written := x\<rparr>) = piece w" by (simp add: piece_def fun_eq_iff)
  moreover have "head_sent fs (w\<lparr>rs_written := x\<rparr>) = head_sent fs w" for fs by (rule head_sent_cong) simp_all
  moreover have "snapshot (w\<lparr>rs_written := x\<rparr>) = snapshot w" by (simp add: snapshot_def split: option.splits)
  ultimately show ?thesis by (simp add: outgoing_def conn_ok_def head_pending_def wire_def)
qed

lemma ensure_header:
  assumes "handling E base acc w"
  shows "\<exists>w'. (if \<not> rs_wroteHeader w then response_WriteHeader E 200 w else Ret w) = Ret w' \<and> handling E base acc w' \<and> rs_wroteHeader w'"
  using assms handling_WriteHeader [OF assms, of 200] by auto


lemma handling_write:
  assumes names: "sv_names E" and h: "handling E base acc w"
  shows "\<exists>n err w'. response_write E s d w = Ret (n, err, w') \<and> handling E base (if err = None then acc @ d else acc) w'"
proof -
  have hj: "\<not> c_hijacked (rs_conn w)" "\<not> rs_canWriteContinue w" using h by (simp_all add: handling_def conn_ok_def)
  obtain w2 where w2: "(if \<not> rs_wroteHeader w then response_WriteHeader E 200 w else Ret w) = Ret w2" "handling E base acc w2" "rs_wroteHeader w2"
    using ensure_header [OF h] by blast
  have r: "response_write E s d w = (if d = [] then Ret (0, None, w2)
      else if \<not> bodyAllowedForStatus (rs_status w2) then Ret (0, Some ErrBodyNotAllowed, w2)
      else (let w3 = w2\<lparr>rs_written := rs_written w2 + int (length d)\<rparr> in
        if rs_contentLength w3 \<noteq> - 1 \<and> rs_written w3 > rs_contentLength w3 then Ret (0, Some ErrContentLength, w3)
        else Ret (w_Write E s d w3)))"
    unfolding response_write_def if_not_P [OF hj(1)] if_not_P [OF hj(2)] Let_def w2(1) using w2(3) by (simp add: bodyAllowed_def)
  have b: "buffered E base acc w2" "counted acc w2" "\<not> rs_handlerDone w2" using w2 by (simp_all add: handling_def)
  show ?thesis
  proof (cases "d = [] \<or> \<not> bodyAllowedForStatus (rs_status w2)")
    case True
    then show ?thesis using w2(2) unfolding r by auto
  next
    case False
    define w3 where "w3 = w2\<lparr>rs_written := rs_written w2 + int (length d)\<rparr>"
    have b3: "buffered E base acc w3" using b(1) by (simp add: buffered_def w3_def)
    show ?thesis
    proof (cases "rs_contentLength w3 \<noteq> - 1 \<and> rs_written w3 > rs_contentLength w3")
      case True
      then have "counted acc w3" using b(2) by (auto simp: counted_def w3_def)
      then have "handling E base acc w3" using w2(2,3) b3 by (simp add: handling_def w3_def conn_ok_def)
      then show ?thesis using True False unfolding r Let_def w3_def [symmetric] by simp
    next
      case fits: False
      have "\<not> rs_handlerDone w3" using b(3) by (simp add: w3_def)
      from w_Write_ok [OF names b3 this, of s d] obtain w' where w': "w_Write E s d w3 = (length d, None, w')" "buffered E base (acc @ d) w'" "same_length w3 w'"
        by blast
      have e: "rs_status w' = rs_status w2" "rs_written w' = rs_written w2 + int (length d)" "rs_contentLength w' = rs_contentLength w2"
        "rs_req w' = rs_req w2" "rs_canWriteContinue w' = rs_canWriteContinue w2" "rs_handlerDone w' = rs_handlerDone w2"
        "rs_handlerHeader w' = rs_handlerHeader w2" "rs_calledHeader w' = rs_calledHeader w2" "rs_wroteHeader w'"
        using w'(3) w2(3) by (simp_all add: same_length_def stable_def w3_def)
      have "counted (acc @ d) w'"
        using b(2) fits False unfolding counted_def e by (simp add: w3_def split: if_splits)
      moreover have "conn_ok w'" "rs_w_err w' = None" using w'(2) by (auto simp: buffered_def outgoing_def)
      ultimately have "handling E base (acc @ d) w'" using w2(2) w'(2) by (simp add: handling_def e)
      then show ?thesis using False w'(1) unfolding r Let_def w3_def [symmetric] if_not_P [OF fits] by simp
    qed
  qed
qed

lemma flush_ok:
  assumes names: "sv_names E" and o: "outgoing E base acc w" and e: "rs_w w = []"
  shows "\<exists>w'. chunkWriter_flush E w = (None, w') \<and> outgoing E base acc w' \<and> stable w w' \<and> rs_w w' = [] \<and> length_step 0 w w' \<and>
    cw_wroteHeader (rs_cw w') \<and> bw_conn (c_bufw (rs_conn w')) = wire w'"
proof -
  define w1 where "w1 = (if \<not> cw_wroteHeader (rs_cw w) then chunkWriter_writeHeader E [] w else w)"
  have w1: "outgoing E base acc w1" "stable w w1" "length_step 0 w w1" "cw_wroteHeader (rs_cw w1)" "rs_w w1 = []"
    using outgoing_header [OF names o, of "[]"] o e by (simp_all add: w1_def length_step_def)
  have "conn_ok w1" using w1(1) by (simp add: outgoing_def)
  from conn_Flush_sends [OF this] obtain w' where w': "conn_Flush w1 = (None, w')" "sends [] w1 w'" "bw_conn (c_bufw (rs_conn w')) = wire w1" .
  note st = sends_stable [OF w'(2)]
  obtain pre fs ds where p: "interims (sv_lib E) (ProtoAtLeast (rs_req w1) 1 1) pre" "head_sent fs w1" "acc = concat ds" "[] \<notin> set ds"
    "wire w1 = base @ pre @ head_text (ProtoAtLeast (rs_req w1) 1 1) (rs_status w1) fs @ concat (map (piece w1) ds)"
    using w1(1,4) by (auto simp: outgoing_def)
  have same: "rs_req w' = rs_req w1" "rs_status w' = rs_status w1" "rs_cw w' = rs_cw w1" using st by (simp_all add: stable_def)
  have "piece w' = piece w1" using same by (simp add: piece_def fun_eq_iff)
  moreover have "head_sent fs w'" using p(2) head_sent_cong [of w' w1 fs] st same by simp
  ultimately have "outgoing E base acc w'"
    using w1(1,4) p same st sendsD(2) [OF w'(2)] sendsD(1) [OF w'(2)] unfolding outgoing_def
    by (simp add: stable_def) blast
  moreover have "length_step 0 w w'" using w1(3) st by (simp add: length_step_def)
  moreover have "stable w w'" using w1(2) st stable_trans by blast
  ultimately show ?thesis
    using w' w1(4,5) same(3) st sendsD(1) [OF w'(2)] by (simp add: chunkWriter_flush_def w1_def [symmetric])
qed

lemma handling_Flush:
  assumes names: "sv_names E" and h: "handling E base acc w"
  shows "\<exists>err w'. FlushError E w = Ret (err, w') \<and> handling E base acc w'"
proof -
  obtain w1 where w1: "(if \<not> rs_wroteHeader w then response_WriteHeader E 200 w else Ret w) = Ret w1" "handling E base acc w1" "rs_wroteHeader w1"
    using ensure_header [OF h] by blast
  have b: "buffered E base acc w1" "counted acc w1" "\<not> rs_handlerDone w1" using w1 by (simp_all add: handling_def)
  from w_Flush_ok [OF names b(1)] obtain w2 where w2: "w_Flush E w1 = (None, w2)" "outgoing E base acc w2" "stable w1 w2" "rs_w w2 = []"
    "length_step (length (rs_w w1)) w1 w2" by blast
  from flush_ok [OF names w2(2,4)] obtain w3 where w3: "chunkWriter_flush E w2 = (None, w3)" "outgoing E base acc w3" "stable w2 w3" "rs_w w3 = []"
    "length_step 0 w2 w3" by blast
  have "\<not> rs_handlerDone w2" using b(3) w2(3) by (simp add: stable_def)
  then have "same_length w1 w3"
    using length_step_running [OF w2(5,3) b(3)] length_step_running [OF w3(5,3)] same_length_trans by blast
  then have e: "rs_status w3 = rs_status w1" "rs_written w3 = rs_written w1" "rs_contentLength w3 = rs_contentLength w1"
    "rs_req w3 = rs_req w1" "rs_canWriteContinue w3 = rs_canWriteContinue w1" "rs_handlerDone w3 = rs_handlerDone w1"
    "rs_handlerHeader w3 = rs_handlerHeader w1" "rs_calledHeader w3 = rs_calledHeader w1" "rs_wroteHeader w3"
    using w1(3) by (simp_all add: same_length_def stable_def)
  have "buffered E base acc w3" using outgoing_buffered [OF w3(2,4)] .
  moreover have "conn_ok w3" "rs_w_err w3 = None" using w3(2) by (simp_all add: outgoing_def)
  moreover have "counted acc w3" using b(2) by (simp add: counted_def e)
  ultimately have "handling E base acc w3" using w1(2) by (simp add: handling_def e)
  then show ?thesis using w1(1) w2(1) w3(1) by (simp add: FlushError_def)
qed


lemma core_refl [simp]: "core w w"
  by (simp add: core_def)

lemma core_body:
  "core w (w\<lparr>rs_reqBody := b\<rparr>)" "core w (w\<lparr>rs_req := (rs_req w)\<lparr>rq_Body := x\<rparr>\<rparr>)"
  "core w (w\<lparr>rs_reqBody := b, rs_req := (rs_req w)\<lparr>rq_Body := x\<rparr>\<rparr>)" "core w (w\<lparr>rs_fullDuplex := True\<rparr>)"
  by (simp_all add: core_def)

lemma core_Read:
  assumes "\<not> rs_canWriteContinue w"
  shows "core w (snd (snd (req_Body_Read E m w)))"
  using assms core_body
  by (auto simp: req_Body_Read_def ecr_Read_def Let_def split: req_Body.splits option.splits prod.splits)

lemma core_Close: "core w (snd (reqBody_Close E w))" "core w (snd (req_Body_Close E w))"
  using core_body
  by (auto simp: req_Body_Close_def reqBody_Close_def core_def split: req_Body.splits option.splits prod.splits)

lemma handling_TooLarge:
  assumes h: "handling E base acc w"
  shows "handling E base acc (requestTooLarge w)"
proof -
  define w1 where "w1 = w\<lparr>rs_closeAfterReply := True, rs_requestBodyLimitHit := True\<rparr>"
  have "core w w1" by (simp add: core_def w1_def)
  then have h1: "handling E base acc w1" using core_handling h by blast
  obtain h0 w2 where r: "response_Header w1 = (h0, w2)" by (cases "response_Header w1")
  have "tame (Header_Set ''Connection'' ''close'' (rs_handlerHeader w1))"
    using h1 by (intro tame_Set) (simp_all add: handling_def)
  from handling_Header [where f = "Header_Set ''Connection'' ''close''", OF h1 this r] h1 show ?thesis by (simp add: requestTooLarge_def w1_def [symmetric] r)
qed


lemma handling_op:
  assumes names: "sv_names E" and h: "handling E base acc w" and x: "op_ok x"
  shows "\<exists>acc' w'. run_op E x (acc, w) = Ret (acc', w') \<and> handling E base acc' w'"
proof (cases x)
  case (HHeader f)
  obtain h0 w1 where r: "response_Header w = (h0, w1)" by (cases "response_Header w")
  have "tame (f (rs_handlerHeader w))" using x HHeader h by (simp add: handling_def)
  from handling_Header [where f = f, OF h this r] HHeader r show ?thesis by simp
next
  case (HWriteHeader code)
  then show ?thesis using handling_WriteHeader [OF h, of code] x by fastforce
next
  case (HWrite d)
  then show ?thesis using handling_write [OF names h, of False d] by fastforce
next
  case (HWriteString d)
  then show ?thesis using handling_write [OF names h, of True d] by fastforce
next
  case HFlush
  then show ?thesis using handling_Flush [OF names h] by fastforce
next
  case (HReadBody m)
  have "\<not> rs_canWriteContinue w" using h by (simp add: handling_def)
  from core_handling [OF core_Read [OF this] h] HReadBody show ?thesis by simp
next
  case HCloseBody
  then show ?thesis using core_handling [OF core_Close(2) h] by simp
next
  case HReplaceBody
  then show ?thesis using core_handling [OF core_body(2) h] by simp
next
  case HTooLarge
  then show ?thesis using handling_TooLarge [OF h] by simp
next
  case HFullDuplex
  then show ?thesis using core_handling [OF core_body(4) h] by simp
qed

lemma handling_run:
  assumes names: "sv_names E"
  shows
  "handling E base acc w \<Longrightarrow> \<forall>x \<in> set ops. op_ok x \<Longrightarrow>
     \<exists>acc' w'. run_handler E ops (acc, w) = Ret (acc', w') \<and> handling E base acc' w'"
proof (induction ops arbitrary: acc w)
  case (Cons x ops)
  then have "op_ok x" by simp
  from handling_op [OF names Cons.prems(1) this] obtain acc1 w1 where r: "run_op E x (acc, w) = Ret (acc1, w1)" "handling E base acc1 w1"
    by blast
  from Cons.IH [OF r(2)] Cons.prems(2) r(1) show ?case by simp
qed simp


subsection \<open>The end of the request\<close>

definition trailer_text :: "server_env \<Rightarrow> response \<Rightarrow> string" where
  "trailer_text E w = (case finalTrailers w of None \<Rightarrow> [] | Some t \<Rightarrow> header_text (sv_lib E) (\<lambda>_. False) t)"

definition reply_end :: "server_env \<Rightarrow> response \<Rightarrow> string" where
  "reply_end E w = (if cw_chunking (rs_cw w) then ''0'' @ crlf @ trailer_text E w @ crlf else [])"

lemma outgoing_done [simp]: "outgoing E base dn (w\<lparr>rs_handlerDone := b\<rparr>) = outgoing E base dn w"
proof -
  have "piece (w\<lparr>rs_handlerDone := b\<rparr>) = piece w" by (simp add: piece_def fun_eq_iff)
  moreover have "head_sent fs (w\<lparr>rs_handlerDone := b\<rparr>) = head_sent fs w" for fs by (rule head_sent_cong) simp_all
  moreover have "snapshot (w\<lparr>rs_handlerDone := b\<rparr>) = snapshot w" by (simp add: snapshot_def split: option.splits)
  ultimately show ?thesis by (simp add: outgoing_def conn_ok_def head_pending_def wire_def)
qed

lemma WriteHeader_final:
  assumes "\<not> rs_wroteHeader w" "response_WriteHeader E 200 w = Ret w'"
  shows "rs_req w' = rs_req w" and "response_WriteHeader E 200 (w\<lparr>rs_handlerDone := True\<rparr>) = Ret (w'\<lparr>rs_handlerDone := True\<rparr>)"
  using assms
  by (auto simp: response_WriteHeader_def checkWriteHeaderCode_def Let_def split: if_splits sum.splits)

lemma sends_trailers: "sends s w w' \<Longrightarrow> finalTrailers w' = finalTrailers w"
  using sends_stable [of s w w'] by (simp add: finalTrailers_def stable_def)


lemma close_ok:
  assumes names: "sv_names E" and o: "outgoing E base acc w"
  shows "\<exists>w1. outgoing E base acc w1 \<and> cw_wroteHeader (rs_cw w1) \<and> stable w w1 \<and> length_step 0 w w1 \<and> (cw_wroteHeader (rs_cw w) \<longrightarrow> w1 = w) \<and>
    sends (reply_end E w1) w1 (chunkWriter_close E w)"
proof -
  define w1 where "w1 = (if \<not> cw_wroteHeader (rs_cw w) then chunkWriter_writeHeader E [] w else w)"
  have w1: "outgoing E base acc w1" "stable w w1" "length_step 0 w w1" "cw_wroteHeader (rs_cw w1)"
    using outgoing_header [OF names o, of "[]"] o by (simp_all add: w1_def length_step_def)
  have ok: "conn_ok w1" using w1(1) by (simp add: outgoing_def)
  have "sends (reply_end E w1) w1 (chunkWriter_close E w)"
  proof (cases "cw_chunking (rs_cw w1)")
    case False
    then show ?thesis using sends_Nil [OF ok] by (simp add: chunkWriter_close_def w1_def [symmetric] reply_end_def)
  next
    case True
    define w2 where "w2 = conn_Puts [''0'' @ crlf] w1"
    define w3 where "w3 = (case finalTrailers w2 of None \<Rightarrow> w2 | Some t \<Rightarrow> snd (Header_Write (sv_lib E) conn_Write t w2))"
    have s2: "sends (''0'' @ crlf) w1 w2" using conn_Puts_sends [OF ok, of "[''0'' @ crlf]"] by (simp add: w2_def)
    have ok2: "conn_ok w2" by (rule sendsD(2) [OF s2 ok])
    have s3: "sends (trailer_text E w1) w2 w3"
      using sends_Nil [OF ok2] writeSubset_sends [OF ok2] sends_trailers [OF s2]
      by (simp add: w3_def trailer_text_def Header_Write_def split: option.splits)
    have ok3: "conn_ok w3" by (rule sendsD(2) [OF s3 ok2])
    have s4: "sends crlf w3 (conn_Puts [crlf] w3)" using conn_Puts_sends [OF ok3, of "[crlf]"] by simp
    have "chunkWriter_close E w = conn_Puts [crlf] w3"
      using True unfolding chunkWriter_close_def w1_def [symmetric] Let_def w2_def [symmetric] w3_def [symmetric] by simp
    then show ?thesis using sends_trans [OF s2 sends_trans [OF s3 s4]] True by (simp add: reply_end_def)
  qed
  then show ?thesis using w1 by (auto simp: w1_def)
qed

lemma finish_ok:
  assumes names: "sv_names E" and h: "handling E base acc w"
  obtains w' pre fs ds where "finishRequest E w = Ret w'"
    and "bw_conn (c_bufw (rs_conn w')) = base @ pre @ head_text (ProtoAtLeast (rs_req w) 1 1) (rs_status w') fs @
       concat (map (piece w') ds) @ reply_end E w'"
    and "interims (sv_lib E) (ProtoAtLeast (rs_req w) 1 1) pre" and "head_sent fs w'" and "acc = concat ds" and "[] \<notin> set ds"
    and "counted acc w'" and "rs_req w' = rs_req w" and "rs_wroteHeader w'"
proof -
  obtain w2 where w2: "(if \<not> rs_wroteHeader w then response_WriteHeader E 200 w else Ret w) = Ret w2" "handling E base acc w2" "rs_wroteHeader w2"
    using ensure_header [OF h] by blast
  have req2: "rs_req w2 = rs_req w" using w2(1) WriteHeader_final [of w E] by (auto split: if_splits)
  define wd where "wd = w2\<lparr>rs_handlerDone := True\<rparr>"
  have wd: "buffered E base acc wd" "counted acc wd" using w2(2,3) by (simp_all add: handling_def buffered_def wd_def counted_def)
  from w_Flush_ok [OF names wd(1)] obtain w3 where w3: "w_Flush E wd = (None, w3)" "outgoing E base acc w3" "stable wd w3" "rs_w w3 = []"
    "length_step (length (rs_w wd)) wd w3" "rs_w wd \<noteq> [] \<longrightarrow> cw_wroteHeader (rs_cw w3)" "rs_w wd = [] \<longrightarrow> w3 = wd" by blast
  from close_ok [OF names w3(2)] obtain w4 where w4: "outgoing E base acc w4" "cw_wroteHeader (rs_cw w4)" "stable w3 w4" "length_step 0 w3 w4"
    "cw_wroteHeader (rs_cw w3) \<longrightarrow> w4 = w3" "sends (reply_end E w4) w4 (chunkWriter_close E w3)" by blast
  define w5 where "w5 = chunkWriter_close E w3"
  have s5: "sends (reply_end E w4) w4 w5" using w4(6) by (simp add: w5_def)
  have ok4: "conn_ok w4" using w4(1) by (simp add: outgoing_def)
  from conn_Flush_sends [OF sendsD(2) [OF s5 ok4]] obtain w6 where w6: "conn_Flush w5 = (None, w6)" "sends [] w5 w6"
    "bw_conn (c_bufw (rs_conn w6)) = wire w5" .
  define w' where "w' = snd (reqBody_Close E w6)"
  have s6: "sends (reply_end E w4) w4 w6" using sends_trans [OF s5 w6(2)] by simp
  note st6 = sends_stable [OF s6]
  have c: "core w6 w'" unfolding w'_def by (rule core_Close(1))
  have req': "rs_req w' = rs_req w6" "rs_trailers w' = rs_trailers w6"
    by (simp_all add: w'_def reqBody_Close_def split: option.splits prod.splits)
  have fin: "finishRequest E w = Ret w'"
  proof -
    have "(if \<not> rs_wroteHeader (w\<lparr>rs_handlerDone := True\<rparr>) then response_WriteHeader E 200 (w\<lparr>rs_handlerDone := True\<rparr>)
        else Ret (w\<lparr>rs_handlerDone := True\<rparr>)) = Ret wd"
      using w2(1) WriteHeader_final [of w E] h by (auto simp: wd_def handling_def conn_ok_def split: if_splits)
    then show ?thesis
      by (simp add: finishRequest_def Let_def w3(1) w5_def [symmetric] w6(1) w'_def)
  qed
  obtain pre fs ds where p: "interims (sv_lib E) (ProtoAtLeast (rs_req w4) 1 1) pre" "head_sent fs w4" "acc = concat ds" "[] \<notin> set ds"
    "wire w4 = base @ pre @ head_text (ProtoAtLeast (rs_req w4) 1 1) (rs_status w4) fs @ concat (map (piece w4) ds)"
    using w4(1,2) by (auto simp: outgoing_def)
  have req4: "rs_req w4 = rs_req w" using w4(3) w3(3) req2 by (simp add: stable_def wd_def)
  have same: "rs_req w' = rs_req w4" "rs_status w' = rs_status w4" "rs_cw w' = rs_cw w4" "rs_contentLength w' = rs_contentLength w4"
    "rs_written w' = rs_written w4" "rs_handlerHeader w' = rs_handlerHeader w4" "rs_trailers w' = rs_trailers w4" "rs_wroteHeader w' = rs_wroteHeader w4"
    using c st6 req' by (simp_all add: core_def stable_def)
  have pc: "piece w' = piece w4" using same by (simp add: piece_def fun_eq_iff)
  have re: "reply_end E w' = reply_end E w4" using same by (simp add: reply_end_def trailer_text_def finalTrailers_def)
  have cl': "rs_closeAfterReply w4 \<longrightarrow> rs_closeAfterReply w'" using c st6 by (simp add: core_def)
  have hs: "head_sent fs w'"
    using core_head(2) [OF c] p(2) head_sent_cong [of w6 w4 fs] st6 by (simp add: stable_def)
  have conn: "bw_conn (c_bufw (rs_conn w')) = wire w5" using c w6(3) by (simp add: core_def)
  have cnt: "counted acc w'"
  proof -
    have st: "rs_status w' = rs_status wd" "rs_written w' = rs_written wd" "rs_handlerDone wd"
      using same w4(3) w3(3) by (simp_all add: stable_def wd_def)
    have "rs_contentLength w' = rs_contentLength wd \<or> rs_contentLength wd = - 1 \<and> rs_contentLength w' = int (length acc)"
    proof (cases "cw_wroteHeader (rs_cw wd)")
      case True
      then have "cw_wroteHeader (rs_cw w3)" using w3(6,7) by auto
      then show ?thesis using w3(5) w4(5) True same(4) by (auto simp: length_step_def)
    next
      case False
      then have acc: "acc = rs_w wd" using wd(1) by (auto simp: buffered_def outgoing_def)
      show ?thesis
      proof (cases "rs_w wd = []")
        case True
        then show ?thesis using w3(7) w4(4) same(4) acc by (auto simp: length_step_def)
      next
        case False
        then show ?thesis using w3(5,6) w4(5) same(4) acc by (auto simp: length_step_def)
      qed
    qed
    then show ?thesis
    proof (elim disjE conjE)
      assume e: "rs_contentLength w' = rs_contentLength wd"
      show ?thesis using wd(2) unfolding counted_def st e .
    next
      assume a: "rs_contentLength wd = - 1" "rs_contentLength w' = int (length acc)"
      then have "rs_written wd = int (length acc)" "\<not> bodyAllowedForStatus (rs_status wd) \<longrightarrow> acc = []"
        using wd(2) by (simp_all add: counted_def)
      with a(2) show ?thesis by (simp add: counted_def st)
    qed
  qed
  have "bw_conn (c_bufw (rs_conn w')) = base @ pre @ head_text (ProtoAtLeast (rs_req w) 1 1) (rs_status w') fs @ concat (map (piece w') ds) @ reply_end E w'"
    using conn sendsD(1) [OF s5] p(5) by (simp add: same(2) req4 pc re)
  moreover have "rs_wroteHeader w'" using w4(1) same(8) by (simp add: outgoing_def)
  ultimately show thesis using that [of w' pre fs ds] fin p(1,3,4) hs cnt req4 same(1) by simp
qed


lemma chunks_pieces:
  "cw_chunking (rs_cw w) \<Longrightarrow> rq_Method (rs_req w) \<noteq> ''HEAD'' \<Longrightarrow> concat (map (piece w) ds) @ reply_end E w = chunks_wire ds (trailer_text E w @ crlf)"
  by (simp add: piece_def [abs_def] reply_end_def chunks_wire_def cong: map_cong)

lemma plain_pieces:
  "\<not> cw_chunking (rs_cw w) \<Longrightarrow> rq_Method (rs_req w) \<noteq> ''HEAD'' \<Longrightarrow> concat (map (piece w) ds) @ reply_end E w = concat ds"
  by (simp add: piece_def [abs_def] reply_end_def cong: map_cong)

lemma fresh_handling:
  assumes "good_bufw (c_bufw c)" "\<not> c_hijacked c" "rq_ProtoMajor req = 1" "0 \<le> rq_ProtoMinor req"
  shows "handling E (bufw_written (c_bufw c)) [] (new_response c req h closing b up)"
proof -
  have "\<exists>pre. interims (sv_lib E) (ProtoAtLeast req 1 1) pre \<and> bufw_written (c_bufw c) = bufw_written (c_bufw c) @ pre"
    by (rule exI [of _ "[]"]) simp
  then show ?thesis using assms by (simp add: handling_def new_response_def conn_ok_def wire_def ProtoAtLeast_def)
qed

lemma reuse_exact:
  assumes "counted acc w" "has_payload w" "rs_contentLength w = int n" "shouldReuseConnection w = Ret True"
  shows "length acc = n"
proof -
  have "rs_written w = rs_contentLength w"
    using assms(2-4) by (auto simp: shouldReuseConnection_def bodyAllowed_def has_payload_def split: if_splits)
  then show ?thesis using assms(1,3) by (simp add: counted_def)
qed


subsection \<open>Concrete replies\<close>

definition example_env :: server_env where
  "example_env = \<lparr>sv_lib = example_lib, sv_validTrailer = \<lambda>k. k = ''Expires'', sv_readMIME = \<lambda>r. (Inr [], r),
     sv_date = ''Thu, 01 Jan 1970 00:00:00 GMT'', sv_keepAlives = True\<rparr>"

definition example_conn :: server_conn where
  "example_conn = \<lparr>c_bufw = \<lparr>bw_buf = [], bw_err = None, bw_conn = [], bw_room = None\<rparr>, c_closed = False, c_hijacked = False\<rparr>"

definition get_req :: server_req where
  "get_req = \<lparr>rq_Method = ''GET'', rq_ProtoMajor = 1, rq_ProtoMinor = 1, rq_ContentLength = 0, rq_Body = OwnBody\<rparr>"

definition hints_ops :: "handler_op list" where
  "hints_ops = [HHeader (Header_Set ''Link'' ''/a''), HWriteHeader 103, HHeader (Header_Set ''Content-Type'' ''text/plain''),
     HWriteString ''hi'', HFlush, HWrite ''you'', HHeader (Header_Set ''Expires'' ''0'')]"


lemma ecr_Read_continue:
  assumes "conn_ok w" "rq_Body (rs_req w) = ExpectContinue False saw" "\<not> rs_wroteContinue w" "rs_canWriteContinue w"
  shows "wire (snd (snd (ecr_Read E m w))) = wire w @ ''HTTP/1.1 100 Continue'' @ crlf @ crlf"
proof -
  define t where "t = ''HTTP/1.1 100 Continue'' @ crlf @ crlf"
  define w0 where "w0 = w\<lparr>rs_wroteContinue := True\<rparr>"
  have ok: "conn_ok w0" "wire w0 = wire w" "\<not> c_hijacked (rs_conn w)" using assms(1) by (simp_all add: w0_def conn_ok_def wire_def)
  have s1: "sends t w0 (conn_Puts [t] w0)" using conn_Puts_sends [OF ok(1), of "[t]"] by simp
  from conn_Flush_sends [OF sendsD(2) [OF s1 ok(1)]] obtain w1 where w1: "conn_Flush (conn_Puts [t] w0) = (None, w1)" "sends [] (conn_Puts [t] w0) w1"
    by metis
  have "wire w1 = wire w @ t" using sendsD(1) [OF sends_trans [OF s1 w1(2)]] ok(2) by simp
  then have wire: "rs_conn x = rs_conn w1 \<Longrightarrow> wire x = wire w @ t" for x by (simp add: wire_def)
  have "rs_conn (snd (snd (ecr_Read E m w))) = rs_conn w1"
    using assms(2-4) ok(3) w1(1) unfolding ecr_Read_def t_def [symmetric] w0_def [symmetric]
    by (auto simp: Let_def split: option.splits prod.splits)
  from wire [OF this] show ?thesis by (simp add: t_def)
qed

text \<open>Once a reply has begun, nothing of another message may come between its header and its body. The code
  breaks this for requests with \<open>Expect: 100-continue\<close>: only \<open>Write\<close> tells the body reader not to ask for the body any more, \<open>WriteHeader\<close>
  and \<open>Flush\<close> do not. A handler that sends its header with \<open>WriteHeader(200)\<close> and \<open>Flush\<close> and then reads the request body
  puts the line \<open>HTTP/1.1 100 Continue\<close> and an empty line behind that header, where the client takes them for the
  beginning of the body; this happens for every such request.\<close>

theorem continue_inside_reply:
  assumes "lib_validHeaderFieldName (sv_lib E) ''Content-Length''" and "lib_validHeaderFieldName (sv_lib E) ''Transfer-Encoding''"
    and "good_bufw (c_bufw c)" and "\<not> c_hijacked c" and "rq_ProtoMajor req = 1" and "1 \<le> rq_ProtoMinor req"
    and "expectsContinue h" and "rq_ContentLength req \<noteq> 0"
  shows "\<exists>w fs. run_handler E [HWriteHeader 200, HFlush, HReadBody m] ([], expect_continue h (new_response c req h closing b up)) = Ret ([], w) \<and>
    wire w = bufw_written (c_bufw c) @ head_text True 200 fs @ ''HTTP/1.1 100 Continue'' @ crlf @ crlf"
proof -
  have names: "sv_names E" using assms(1,2) by (simp add: sv_names_def)
  define w0 where "w0 = expect_continue h (new_response c req h closing b up)"
  have v: "ProtoAtLeast req 1 1" using assms(5,6) by (simp add: ProtoAtLeast_def)
  define w1 where "w1 = w0\<lparr>rs_wroteHeader := True, rs_status := 200\<rparr>"
  have w0: "w0 = (new_response c req h closing b up)\<lparr>rs_req := req\<lparr>rq_Body := ExpectContinue False False\<rparr>, rs_canWriteContinue := True\<rparr>"
    using assms(7,8) v by (simp add: w0_def expect_continue_def new_response_def)
  have r1: "response_WriteHeader E 200 w0 = Ret w1"
    using assms(4) by (simp add: response_WriteHeader_def w0 w1_def new_response_def checkWriteHeaderCode_def Let_def header_get_def header_values_def)
  have p1: "head_pending w1" "conn_ok w1" "wire w1 = bufw_written (c_bufw c)" "ProtoAtLeast (rs_req w1) 1 0" "ProtoAtLeast (rs_req w1) 1 1"
    using assms(3-6) by (simp_all add: head_pending_def w1_def w0 new_response_def snapshot_def declared_def header_values_def conn_ok_def wire_def ProtoAtLeast_def)
  have e1: "rs_w w1 = []" "rs_w_err w1 = None" "rs_wroteHeader w1" "rs_canWriteContinue w1" "\<not> rs_wroteContinue w1"
    "rq_Body (rs_req w1) = ExpectContinue False False" "rs_status w1 = 200" "\<not> cw_wroteHeader (rs_cw w1)"
    by (simp_all add: w1_def w0 new_response_def)
  define w2 where "w2 = chunkWriter_writeHeader E [] w1"
  obtain fs where fs: "wire w2 = wire w1 @ head_text True 200 fs" "conn_ok w2" "stable w1 w2"
    using writeHeader_sends [OF names p1(1,2,4), of "[]"] p1(5) e1(7) unfolding w2_def by metis
  from conn_Flush_sends [OF fs(2)] obtain w3 where w3: "conn_Flush w2 = (None, w3)" "sends [] w2 w3" by metis
  have r2: "FlushError E w1 = Ret (None, w3)"
    using e1 w3(1) by (simp add: FlushError_def w_Flush_def chunkWriter_flush_def w2_def)
  have st3: "stable w1 w3" using fs(3) sends_stable [OF w3(2)] stable_trans by blast
  have "wire (snd (snd (ecr_Read E m w3))) = wire w3 @ ''HTTP/1.1 100 Continue'' @ crlf @ crlf"
    using st3 e1 sendsD(2) [OF w3(2) fs(2)] by (intro ecr_Read_continue) (simp_all add: stable_def)
  moreover have "req_Body_Read E m w3 = ecr_Read E m w3" using st3 e1(6) by (simp add: req_Body_Read_def stable_def)
  moreover have "wire w3 = bufw_written (c_bufw c) @ head_text True 200 fs" using sendsD(1) [OF w3(2)] fs(1) p1(3) by simp
  ultimately show ?thesis
    using r1 r2 by (intro exI [of _ "snd (snd (ecr_Read E m w3))"] exI [of _ fs]) (simp add: w0_def [symmetric])
qed

text \<open>An invalid \<open>Content-Length\<close> is meant to be dropped, but \<open>WriteHeader\<close> deletes it from the handler's map after the
  snapshot is taken, and it is the snapshot that is sent.\<close>

lemma invalid_length_is_sent:
  assumes "\<not> c_hijacked (rs_conn w)" "\<not> rs_wroteHeader w" "rs_calledHeader w" "cw_header (rs_cw w) = None"
    and "header_get (rs_handlerHeader w) ''Content-Length'' = v" "v \<noteq> []" "parse_int 64 v = Inl e"
  shows "\<exists>w'. response_WriteHeader E 200 w = Ret w' \<and> header_get (rs_handlerHeader w') ''Content-Length'' = [] \<and>
    header_get (snapshot w') ''Content-Length'' = v"
  using assms by (simp add: response_WriteHeader_def checkWriteHeaderCode_def Let_def snapshot_def header_get_def)

definition expect_req :: server_req where
  "expect_req = get_req\<lparr>rq_Method := ''PUT'', rq_ContentLength := 5\<rparr>"

theorem continue_inside_reply_witness:
  "\<exists>w fs. run_handler example_env [HWriteHeader 200, HFlush, HReadBody 5]
      ([], expect_continue [(''Expect'', [''100-continue''])]
         (new_response example_conn expect_req [(''Expect'', [''100-continue''])] False None False)) = Ret ([], w) \<and>
    wire w = head_text True 200 fs @ ''HTTP/1.1 100 Continue'' @ crlf @ crlf"
proof -
  have n: "lib_validHeaderFieldName (sv_lib example_env) ''Content-Length''" "lib_validHeaderFieldName (sv_lib example_env) ''Transfer-Encoding''"
    by (simp_all add: example_env_def example_lib_def) (code_simp+)
  have c: "good_bufw (c_bufw example_conn)" "\<not> c_hijacked example_conn" "bufw_written (c_bufw example_conn) = []"
    by (simp_all add: example_conn_def good_bufw_def bufw_written_def)
  have q: "rq_ProtoMajor expect_req = 1" "1 \<le> rq_ProtoMinor expect_req" "rq_ContentLength expect_req \<noteq> 0"
    by (simp_all add: expect_req_def get_req_def)
  have x: "expectsContinue [(''Expect'', [''100-continue''])]" by code_simp
  show ?thesis
    using continue_inside_reply [OF n c(1,2) q(1,2) x q(3), of 5 False None False] unfolding c(3) append_Nil .
qed

end
