(* ===== verification/Response_Reuse.thy ===== *)
theory Response_Reuse
  imports Response_Exact
begin

section \<open>Reusing a connection (server.go)\<close>

text \<open>
  What a reply does to the body of its request: whatever the handler reads or closes, and whatever
  \<open>writeHeader\<close> and \<open>finishRequest\<close> discard, a connection that is used again is positioned at the next request.
\<close>

subsection \<open>The states of a request body\<close>

definition settled :: "string \<Rightarrow> body \<Rightarrow> bool" where
  "settled rest b = (remaining (src_conn (bd_src b)) = rest \<and> \<not> bd_earlyClose b \<and> (bd_sawEOF b \<or> bd_closed b))"

definition body_state :: "string \<Rightarrow> body \<Rightarrow> bool" where
  "body_state rest b = (\<not> bd_closing b \<and> ((\<exists>dat. body_at b dat rest) \<or> settled rest b \<or> bd_closed b \<and> bd_earlyClose b))"

lemma body_done_settled: "body_done b rest \<Longrightarrow> settled rest b"
  by (simp add: body_done_def settled_def)

lemma readTrailer_closing: "bd_closing (snd (readTrailer readMIME b)) = bd_closing b"
  by (auto simp: readTrailer_def Let_def split: prod.splits option.splits sum.splits)

lemma at_EOF_closing: "bd_closing (snd (at_EOF readMIME b)) = bd_closing b"
  using readTrailer_closing [of readMIME "b\<lparr>bd_sawEOF := True\<rparr>"]
  by (auto simp: at_EOF_def Let_def split: prod.splits option.splits)

lemma body_Read_closing: "bd_closing (snd (snd (body_Read readMIME m b))) = bd_closing b"
proof -
  obtain out err src where s: "src_Read m (bd_src b) = (out, err, src)" by (cases "src_Read m (bd_src b)")
  obtain e b2 where a: "at_EOF readMIME (b\<lparr>bd_src := src\<rparr>) = (e, b2)" by (cases "at_EOF readMIME (b\<lparr>bd_src := src\<rparr>)")
  have "bd_closing b2 = bd_closing b" using at_EOF_closing [of readMIME "b\<lparr>bd_src := src\<rparr>"] a by simp
  then show ?thesis using s a by (auto simp: body_Read_def readLocked_def Let_def split: if_splits)
qed

lemma body_Read_state:
  assumes b: "body_state rest b" and r: "body_Read readMIME m b = (out, err, b')"
  shows "body_state rest b'" and "err = Some EOF \<Longrightarrow> settled rest b'" and "settled rest b \<Longrightarrow> settled rest b'"
    and "settled rest b \<Longrightarrow> bd_closed b \<and> err = Some errBodyReadAfterClose \<or> \<not> bd_closed b \<and> out = [] \<and> err = Some EOF"
    and "bd_closed b \<Longrightarrow> out = [] \<and> err = Some errBodyReadAfterClose \<and> b' = b"
proof -
  have ne: "errBodyReadAfterClose \<noteq> EOF" by (simp add: errBodyReadAfterClose_def)
  have cl: "bd_closing b' = bd_closing b" using body_Read_closing [of readMIME m b] r by simp
  show c: "bd_closed b \<Longrightarrow> out = [] \<and> err = Some errBodyReadAfterClose \<and> b' = b"
    using r by (simp add: body_Read_def)
  have s: "b' = b \<and> (bd_closed b \<and> err = Some errBodyReadAfterClose \<or> \<not> bd_closed b \<and> out = [] \<and> err = Some EOF)" if "settled rest b"
    using that r by (auto simp: settled_def body_Read_def readLocked_def split: if_splits)
  then show "settled rest b \<Longrightarrow> settled rest b'"
    "settled rest b \<Longrightarrow> bd_closed b \<and> err = Some errBodyReadAfterClose \<or> \<not> bd_closed b \<and> out = [] \<and> err = Some EOF" by blast+
  have a: "(\<exists>dat'. body_at b' dat' rest) \<and> err = None \<or> settled rest b'" if "body_at b dat rest" for dat
    using body_Read_delivers [OF that, of m readMIME] r body_done_settled
    by (auto simp: delivers_body_def split: if_splits)
  show "body_state rest b'" using b a s c cl unfolding body_state_def by metis
  show "err = Some EOF \<Longrightarrow> settled rest b'" using b a s c ne unfolding body_state_def by auto
qed

lemma body_Read_length:
  assumes "body_state rest b" "body_Read readMIME m b = (out, err, b')"
  shows "length out \<le> m"
proof -
  have "length out \<le> m" if "body_at b dat rest" for dat
    using body_Read_delivers [OF that, of m readMIME] assms(2) by (auto simp: delivers_body_def)
  then show ?thesis using assms(1) body_Read_state(4,5) [OF assms] unfolding body_state_def by auto
qed

text \<open>\<open>io.CopyN\<close> to \<open>io.Discard\<close>.\<close>

lemma discard_n_state:
  "body_state rest b \<Longrightarrow> discard_n readMIME left acc b = (n, err, b') \<Longrightarrow>
     body_state rest b' \<and> (settled rest b \<longrightarrow> settled rest b') \<and> (err = None \<and> n < acc + left \<longrightarrow> settled rest b') \<and> n \<le> acc + left \<and>
     err \<noteq> Some EOF"
proof (induction readMIME left acc b rule: discard_n.induct)
  case (1 readMIME left acc b)
  show ?case
  proof (cases "left = 0")
    case True
    then have "discard_n readMIME left acc b = (acc, None, b)" unfolding discard_n.simps [of readMIME left acc b] by simp
    then show ?thesis using "1.prems" True by auto
  next
    case False
    let ?k = "min discard_size left"
    obtain out e b1 where r: "body_Read readMIME ?k b = (out, e, b1)" by (cases "body_Read readMIME ?k b")
    note st = body_Read_state [OF "1.prems"(1) r]
    have len: "length out \<le> left" using body_Read_length [OF "1.prems"(1) r] by simp
    show ?thesis
    proof (cases e)
      case None
      then have "discard_n readMIME (left - length out) (acc + length out) b1 = (n, err, b')"
        using "1.prems"(2) False r by (simp add: discard_n.simps [of readMIME left acc b])
      from "1.IH" [OF False r [symmetric] refl None st(1) this] st(3) len show ?thesis by auto
    next
      case (Some x)
      then have "n = acc + length out" "err = (if x = EOF then None else Some x)" "b' = b1"
        using "1.prems"(2) False r by (simp_all add: discard_n.simps [of readMIME left acc b])
      then show ?thesis using st Some len by auto
    qed
  qed
qed

lemma copyN_state:
  assumes b: "body_state rest b" and r: "copyN_discard readMIME n b = (k, err, b')" and n: "0 < n"
  shows "body_state rest b'" and "settled rest b \<Longrightarrow> settled rest b'" and "err = Some EOF \<Longrightarrow> settled rest b'"
    and "bd_closed b \<Longrightarrow> err = Some errBodyReadAfterClose \<and> b' = b"
proof -
  obtain m e b1 where d: "discard_n readMIME n 0 b = (m, e, b1)" by (cases "discard_n readMIME n 0 b")
  note st = discard_n_state [OF b d]
  have b': "b' = b1" using r d by (auto simp: copyN_discard_def split: if_splits)
  show "body_state rest b'" "settled rest b \<Longrightarrow> settled rest b'" using st b' by simp_all
  show "settled rest b'" if "err = Some EOF"
    using st r d b' that by (auto simp: copyN_discard_def split: if_splits)
  show "err = Some errBodyReadAfterClose \<and> b' = b" if "bd_closed b"
    using that r n by (simp add: copyN_discard_def discard_n.simps [of readMIME n 0 b] body_Read_def errBodyReadAfterClose_def)
qed

lemma discard_copy_closing: "bd_closing (snd (snd (discard_copy readMIME acc b))) = bd_closing b"
proof (induction readMIME acc b rule: discard_copy.induct)
  case (1 readMIME acc b)
  obtain out e b1 where r: "body_Read readMIME discard_size b = (out, e, b1)" by (cases "body_Read readMIME discard_size b")
  have "bd_closing b1 = bd_closing b" using body_Read_closing [of readMIME discard_size b] r by simp
  then show ?case using "1.IH" [OF r [symmetric] refl] r by (cases e) (simp_all add: discard_copy.simps [of readMIME acc b])
qed

lemma body_Close_state:
  assumes b: "body_state rest b" and r: "body_Close readMIME b = (err, b')"
  shows "body_state rest b'" and "bd_closed b'" and "settled rest b \<Longrightarrow> settled rest b'"
proof -
  have s: "settled rest b' \<and> bd_closed b'" if "settled rest b"
    using that r by (auto simp: settled_def body_Close_def Let_def split: if_splits)
  have e: "b' = b" if "bd_closed b" using that r by (simp add: body_Close_def)
  have a: "bd_closed b' \<and> (settled rest b' \<or> bd_earlyClose b')" if "body_at b dat rest" for dat
  proof -
    have "\<not> bd_closing b" using b by (simp add: body_state_def)
    with body_Close_at [OF that r] show ?thesis
      by (auto simp: settled_def didEarlyClose_def bodyRemains_def)
  qed
  show c: "bd_closed b'" "settled rest b \<Longrightarrow> settled rest b'" using b a s e by (auto simp: body_state_def)
  have "bd_closing b' = bd_closing b"
  proof -
    have n: "bd_closing b1 = bd_closing b" if "copyN_discard readMIME maxPostHandlerReadBytes b = (k, x, b1)" for k x b1
      using copyN_state(1) [OF b that] b by (simp add: body_state_def maxPostHandlerReadBytes_def)
    have m: "bd_closing b1 = bd_closing b" if "discard_copy readMIME 0 b = (k, x, b1)" for k x b1
      using discard_copy_closing [of readMIME 0 b] that by simp
    show ?thesis using r by (auto simp: body_Close_def Let_def dest: n m split: if_splits prod.splits)
  qed
  then show "body_state rest b'" using b a s e c(1) by (auto simp: body_state_def)
qed

subsection \<open>Replies and the request body\<close>

text \<open>\<open>quiet w w'\<close>: the request, its body, the wish to close and whether the header is sent are unchanged.\<close>

definition quiet :: "response \<Rightarrow> response \<Rightarrow> bool" where
  "quiet w w' = (rs_reqBody w' = rs_reqBody w \<and> rs_req w' = rs_req w \<and> rs_closeAfterReply w' = rs_closeAfterReply w \<and>
     cw_wroteHeader (rs_cw w') = cw_wroteHeader (rs_cw w))"

lemma quiet_refl [simp]: "quiet w w"
  by (simp add: quiet_def)

lemma quiet_trans [trans]: "quiet w1 w2 \<Longrightarrow> quiet w2 w3 \<Longrightarrow> quiet w1 w3"
  by (simp add: quiet_def)

lemma quiet_conn [simp]: "quiet w (snd (snd (conn_Write d w)))" "quiet w (snd (conn_Flush w))" "quiet w (rwc_Close w)"
  by (simp_all add: quiet_def conn_Write_def conn_Flush_def rwc_Close_def split: prod.splits)

lemma quiet_Write: "conn_Write d w = (n, err, w') \<Longrightarrow> quiet w w'"
  using quiet_conn(1) [of w d] by simp

lemma quiet_Puts [simp]: "quiet w (conn_Puts ds w)"
proof (induction ds arbitrary: w)
  case (Cons d ds)
  then show ?case using quiet_trans [OF quiet_conn(1) [of w d] Cons] by (simp add: conn_Puts_def)
qed (simp add: conn_Puts_def)

lemma quiet_strings: "write_strings conn_Write ss w = (err, w') \<Longrightarrow> quiet w w'"
proof (induction ss arbitrary: w)
  case (Cons s ss)
  obtain n e w1 where r: "conn_Write s w = (n, e, w1)" by (cases "conn_Write s w")
  from quiet_Write [OF r] Cons r show ?case by (cases e) (auto intro: quiet_trans)
qed simp

lemma quiet_writeSubset [simp]: "quiet w (snd (writeSubset L conn_Write ex h w))"
  using quiet_strings by (cases "writeSubset L conn_Write ex h w") (auto simp: writeSubset_def write_kvs_strings)

text \<open>\<open>holds rest w\<close>: the invariant; \<open>decided w\<close>: once the header is sent, an expecting client's unread body closes the connection.\<close>

definition holds :: "string \<Rightarrow> response \<Rightarrow> bool" where
  "holds rest w = (case rs_reqBody w of
     None \<Rightarrow> False
   | Some b \<Rightarrow> body_state rest b \<and>
       (case rq_Body (rs_req w) of OwnBody \<Rightarrow> True | ExpectContinue c saw \<Rightarrow> saw \<longrightarrow> settled rest b | OtherBody \<Rightarrow> False))"

definition decided :: "string \<Rightarrow> response \<Rightarrow> bool" where
  "decided rest w = (case (rq_Body (rs_req w), rs_reqBody w) of
     (ExpectContinue c saw, Some b) \<Rightarrow> rs_closeAfterReply w \<or> settled rest b
   | _ \<Rightarrow> True)"

definition body_inv :: "string \<Rightarrow> response \<Rightarrow> bool" where
  "body_inv rest w = (holds rest w \<and> (cw_wroteHeader (rs_cw w) \<longrightarrow> decided rest w))"

lemma holds_cong: "rs_reqBody w' = rs_reqBody w \<Longrightarrow> rs_req w' = rs_req w \<Longrightarrow> holds rest w' = holds rest w"
  unfolding holds_def by (simp only:)

lemma quiet_inv:
  assumes "quiet w w'"
  shows "holds rest w' = holds rest w" and "decided rest w' = decided rest w" and "body_inv rest w' = body_inv rest w"
proof -
  show h: "holds rest w' = holds rest w" using assms by (intro holds_cong) (simp_all add: quiet_def)
  show d: "decided rest w' = decided rest w"
  proof -
    have e: "rs_reqBody w' = rs_reqBody w" "rs_req w' = rs_req w" "rs_closeAfterReply w' = rs_closeAfterReply w"
      using assms by (simp_all add: quiet_def)
    show ?thesis unfolding decided_def e ..
  qed
  show "body_inv rest w' = body_inv rest w" using assms h d by (simp add: body_inv_def quiet_def)
qed

text \<open>A step that changes nothing but the wish to close: \<open>asks w w'\<close>.\<close>

definition asks :: "response \<Rightarrow> response \<Rightarrow> bool" where
  "asks w w' = (rs_reqBody w' = rs_reqBody w \<and> rs_req w' = rs_req w \<and> cw_wroteHeader (rs_cw w') = cw_wroteHeader (rs_cw w))"

definition asks_more :: "response \<Rightarrow> response \<Rightarrow> bool" where
  "asks_more w w' = (asks w w' \<and> (rs_closeAfterReply w \<longrightarrow> rs_closeAfterReply w'))"

lemma asks_inv: "asks w w' \<Longrightarrow> holds rest w' = holds rest w"
  by (rule holds_cong) (simp_all add: asks_def)

lemma asks_more_inv:
  assumes "asks_more w w'"
  shows "decided rest w \<Longrightarrow> decided rest w'" and "body_inv rest w \<Longrightarrow> body_inv rest w'"
proof -
  show d: "decided rest w \<Longrightarrow> decided rest w'"
    using assms by (auto simp: decided_def asks_more_def asks_def split: req_Body.splits option.splits)
  then show "body_inv rest w \<Longrightarrow> body_inv rest w'"
    using assms asks_inv [of w w' rest] by (simp add: body_inv_def asks_more_def asks_def)
qed

lemma header_steps_asks:
  "asks w (snd (snd (header_trailers E (v, w))))" "asks w (snd (auto_length tr ht n (v, w)))" "asks w (snd (keep_alive_reply (v, w)))"
  "asks w (keep_alive10 ka h w)" "asks w (close_asked ka h w)" "asks w (close_unread_expect w)" "asks_more w (snd (body_framing te hasCL (v, w)))"
  "asks_more w (requestTooLarge w)"
proof -
  have d: "asks w (fold (declareTrailer E) ks w)" for ks
    by (induction ks arbitrary: w) (auto simp: asks_def declareTrailer_def Let_def)
  show "asks w (snd (snd (header_trailers E (v, w))))" using d by (simp add: header_trailers_def Let_def)
  show "asks w (snd (auto_length tr ht n (v, w)))" by (simp add: auto_length_def asks_def)
  show "asks w (snd (keep_alive_reply (v, w)))" by (simp add: keep_alive_reply_def asks_def)
  show "asks w (keep_alive10 ka h w)" by (simp add: keep_alive10_def asks_def)
  show "asks w (close_asked ka h w)" by (simp add: close_asked_def asks_def)
  show "asks w (close_unread_expect w)" by (simp add: close_unread_expect_def asks_def split: req_Body.splits)
  show "asks_more w (snd (body_framing te hasCL (v, w)))" by (simp add: body_framing_def asks_more_def asks_def Let_def)
  show "asks_more w (requestTooLarge w)" by (auto simp: requestTooLarge_def response_Header_def asks_more_def asks_def Let_def)
qed

lemma keep_alive_holds:
  assumes k: "keep_alive ka (v, w) = (v', w')" and h: "holds rest w"
  shows "holds rest w'" and "decided rest w'" and "cw_wroteHeader (rs_cw w') = cw_wroteHeader (rs_cw w)"
proof -
  define w1 where "w1 = keep_alive10 ka (hv_header v) w"
  obtain v2 w2 where r: "keep_alive_reply (v, w1) = (v2, w2)" by (cases "keep_alive_reply (v, w1)")
  define w3 where "w3 = close_asked ka (hv_header v) w2"
  have w': "w' = close_unread_expect w3" using k r by (simp add: keep_alive_def w1_def w3_def)
  have a: "asks w w1" "asks w1 w2" "asks w2 w3" "asks w3 w'"
    using header_steps_asks(4) [of w ka "hv_header v"] header_steps_asks(3) [of w1 v] header_steps_asks(5) [of w2 ka "hv_header v"]
      header_steps_asks(6) [of w3] r
    by (simp_all add: w1_def w3_def w')
  then show "cw_wroteHeader (rs_cw w') = cw_wroteHeader (rs_cw w)" by (simp add: asks_def)
  have "holds rest w3" using h asks_inv [OF a(1), of rest] asks_inv [OF a(2), of rest] asks_inv [OF a(3), of rest] by simp
  then show "holds rest w'" using asks_inv [OF a(4), of rest] by simp
  from \<open>holds rest w3\<close> show "decided rest w'"
    by (auto simp: w' decided_def holds_def close_unread_expect_def split: req_Body.splits option.splits)
qed

lemma drain_holds:
  assumes d: "drain_body E (v, w) = (v', w')" and h: "holds rest w" "decided rest w"
  shows "holds rest w'" and "decided rest w'" and "cw_wroteHeader (rs_cw w') = cw_wroteHeader (rs_cw w)"
proof -
  obtain disc big w1 where c: "drain_choice w = (disc, big, w1)" by (cases "drain_choice w")
  have a1: "asks_more w w1"
    using c by (auto simp: drain_choice_def asks_more_def asks_def split: req_Body.splits option.splits if_splits)
  obtain tb w2 where e: "drain_discard E w1 = (tb, w2)" by (cases "drain_discard E w1")
  have "asks w w1" using a1 by (simp add: asks_more_def)
  then have h1: "holds rest w1" "decided rest w1" using h asks_inv [of w w1 rest] asks_more_inv(1) [OF a1] by simp_all
  obtain b where b: "rs_reqBody w1 = Some b" "body_state rest b" using h1(1) by (auto simp: holds_def split: option.splits)
  obtain k err b1 where r: "copyN_discard (sv_readMIME E) (maxPostHandlerReadBytes + 1) b = (k, err, b1)"
    by (cases "copyN_discard (sv_readMIME E) (maxPostHandlerReadBytes + 1) b")
  note s = copyN_state [OF b(2) r]
  obtain err2 b2 where r2: "body_Close (sv_readMIME E) b1 = (err2, b2)" by (cases "body_Close (sv_readMIME E) b1")
  note s2 = body_Close_state [OF s(1) r2]
  have bodies: "\<exists>b'. rs_reqBody w2 = Some b' \<and> body_state rest b' \<and> (settled rest b \<longrightarrow> settled rest b') \<and> rs_req w2 = rs_req w1 \<and>
      cw_wroteHeader (rs_cw w2) = cw_wroteHeader (rs_cw w1) \<and> (rs_closeAfterReply w1 \<longrightarrow> rs_closeAfterReply w2)"
    using e b r r2 s s2 by (auto simp: drain_discard_def Let_def split: if_splits)
  then have h2: "holds rest w2" "decided rest w2"
    using h1 b by (auto simp: holds_def decided_def split: req_Body.splits)
  have cw: "cw_wroteHeader (rs_cw w1) = cw_wroteHeader (rs_cw w)" "cw_wroteHeader (rs_cw w2) = cw_wroteHeader (rs_cw w)"
    using bodies a1 by (auto simp: asks_more_def asks_def)
  have big: "holds rest (requestTooLarge x)" "decided rest (requestTooLarge x)" "cw_wroteHeader (rs_cw (requestTooLarge x)) = cw_wroteHeader (rs_cw x)"
    if "holds rest x" "decided rest x" for x
  proof -
    have a: "asks_more x (requestTooLarge x)" by (rule header_steps_asks(8))
    then have "asks x (requestTooLarge x)" by (simp add: asks_more_def)
    then show "holds rest (requestTooLarge x)" "cw_wroteHeader (rs_cw (requestTooLarge x)) = cw_wroteHeader (rs_cw x)"
      using that asks_inv [of x "requestTooLarge x" rest] by (simp_all add: asks_def)
    show "decided rest (requestTooLarge x)" by (rule asks_more_inv(1) [OF a that(2)])
  qed
  show "holds rest w'" "decided rest w'" "cw_wroteHeader (rs_cw w') = cw_wroteHeader (rs_cw w)"
    using d c e h h1 h2 cw big [OF h1] big [OF h2(1,2)]
    by (auto simp: drain_body_def split: if_splits)
qed

lemma header_framing_asks:
  assumes "header_framing te hasCL (v, w) = (v', w')"
  shows "asks_more w w'"
proof -
  define both where "both = (hasCL \<and> te \<noteq> [] \<and> te \<noteq> ''identity'')"
  define v1 where "v1 = (if both then delHeader ''Content-Length'' v else v)"
  obtain v2 w2 where b: "body_framing te (hasCL \<and> \<not> both) (v1, w) = (v2, w2)" by (cases "body_framing te (hasCL \<and> \<not> both) (v1, w)")
  have "w' = w2" using assms [unfolded header_framing_def prod.case Let_def, folded both_def, folded v1_def] b by auto
  then show ?thesis using header_steps_asks(7) [of w te "hasCL \<and> \<not> both" v1] b by simp
qed

lemma header_emit_quiet: "quiet w (header_emit E (v, w))"
proof -
  define own where "own = (if hv_owned v then hv_header v else [])"
  define w1 where "w1 = (if hv_owned v then w\<lparr>rs_cw := (rs_cw w)\<lparr>cw_header := Some own\<rparr>\<rparr> else w)"
  have "quiet w w1" by (simp add: w1_def quiet_def)
  also have "quiet w1 (writeStatusLine (ProtoAtLeast (rs_req w1) 1 1) (rs_status w1) w1)" by (simp add: writeStatusLine_def)
  finally show ?thesis
    unfolding header_emit_def prod.case Let_def own_def [symmetric] w1_def [symmetric] extraHeader_Write_def
    by (meson quiet_trans quiet_writeSubset quiet_Puts quiet_conn)
qed

lemma writeHeader_inv:
  assumes inv: "holds rest w" and new: "\<not> cw_wroteHeader (rs_cw w)"
  shows "body_inv rest (chunkWriter_writeHeader E p w)" and "cw_wroteHeader (rs_cw (chunkWriter_writeHeader E p w))"
proof -
  define w0 where "w0 = w\<lparr>rs_cw := (rs_cw w)\<lparr>cw_wroteHeader := True\<rparr>\<rparr>"
  have h0: "holds rest w0" "cw_wroteHeader (rs_cw w0)" using inv holds_cong [of w0 w rest] by (simp_all add: w0_def)
  define v0 where "v0 = header_start w0"
  obtain tr v1 w1 where s1: "header_trailers E (v0, w0) = (tr, v1, w1)" by (cases "header_trailers E (v0, w0)")
  define te where "te = header_get (hv_header v1) ''Transfer-Encoding''"
  obtain v2 w2 where s2: "auto_length tr (te \<noteq> []) (length p) (v1, w1) = (v2, w2)"
    by (cases "auto_length tr (te \<noteq> []) (length p) (v1, w1)")
  obtain v3 w3 where s3: "keep_alive (sv_keepAlives E) (v2, w2) = (v3, w3)" by (cases "keep_alive (sv_keepAlives E) (v2, w2)")
  define hasCL where "hasCL = (rs_contentLength w3 \<noteq> - 1)"
  obtain v4 w4 where s4: "drain_body E (v3, w3) = (v4, w4)" by (cases "drain_body E (v3, w3)")
  define v6 where "v6 = header_date E (header_type (te \<noteq> []) p (rs_status w4) v4)"
  obtain v7 w7 where s7: "header_framing te hasCL (v6, w4) = (v7, w7)" by (cases "header_framing te hasCL (v6, w4)")
  have a: "asks w0 w1" "asks w1 w2"
    using header_steps_asks(1) [of w0 E v0] header_steps_asks(2) [of w1 tr "te \<noteq> []" "length p" v1] s1 s2 by simp_all
  then have h2: "holds rest w2" "cw_wroteHeader (rs_cw w2)"
    using h0 asks_inv [OF a(1), of rest] asks_inv [OF a(2), of rest] by (simp_all add: asks_def)
  note h3 = keep_alive_holds [OF s3 h2(1)]
  note h4 = drain_holds [OF s4 h3(1,2)]
  have a7: "asks_more w4 w7" by (rule header_framing_asks [OF s7])
  have h7: "body_inv rest w7" "cw_wroteHeader (rs_cw w7)"
    using asks_more_inv(2) [OF a7, of rest] a7 h4 h3(3) h2(2) by (simp_all add: body_inv_def asks_more_def asks_def)
  have r: "chunkWriter_writeHeader E p w =
      (if \<not> ProtoAtLeast (rs_req w7) 1 0
       then (if hv_owned v7 then w7\<lparr>rs_cw := (rs_cw w7)\<lparr>cw_header := Some (hv_header v7)\<rparr>\<rparr> else w7)
       else header_emit E (header_connection E (v7, w7), w7))"
    using new
    by (simp add: chunkWriter_writeHeader_def Let_def w0_def [symmetric] v0_def [symmetric] s1 te_def [symmetric] s2 s3
          hasCL_def [symmetric] s4 v6_def [symmetric] s7)
  have q: "quiet w7 (chunkWriter_writeHeader E p w)"
    unfolding r using header_emit_quiet [of w7 E "header_connection E (v7, w7)"] by (simp add: quiet_def)
  show "body_inv rest (chunkWriter_writeHeader E p w)" unfolding quiet_inv(3) [OF q] by (rule h7(1))
  show "cw_wroteHeader (rs_cw (chunkWriter_writeHeader E p w))" using q h7(2) by (simp only: quiet_def)
qed

lemma ensure_sent_inv:
  assumes "body_inv rest w"
  shows "body_inv rest (if \<not> cw_wroteHeader (rs_cw w) then chunkWriter_writeHeader E p w else w)"
    and "cw_wroteHeader (rs_cw (if \<not> cw_wroteHeader (rs_cw w) then chunkWriter_writeHeader E p w else w))"
  using assms writeHeader_inv [of rest w E p] by (auto simp: body_inv_def)

lemma chunkWriter_Write_inv:
  assumes "body_inv rest w" "chunkWriter_Write E p w = (n, err, w')"
  shows "body_inv rest w'"
proof -
  define w1 where "w1 = (if \<not> cw_wroteHeader (rs_cw w) then chunkWriter_writeHeader E p w else w)"
  have i: "body_inv rest w1" unfolding w1_def by (rule ensure_sent_inv(1) [OF assms(1)])
  have "quiet w1 w'"
    using assms(2) unfolding chunkWriter_Write_def w1_def [symmetric] Let_def
    by (auto dest!: quiet_Write intro: quiet_trans quiet_trans [OF _ quiet_conn(3)] split: if_splits prod.splits option.splits)
  with quiet_inv(3) [OF this, of rest] i show ?thesis by simp
qed

lemma buffer_inv: "body_inv rest (w\<lparr>rs_w := x\<rparr>) = body_inv rest w" "body_inv rest (w\<lparr>rs_w := x, rs_w_err := e\<rparr>) = body_inv rest w"
  "body_inv rest (w\<lparr>rs_w_err := e\<rparr>) = body_inv rest w" "body_inv rest (w\<lparr>rs_written := n\<rparr>) = body_inv rest w"
  "body_inv rest (w\<lparr>rs_canWriteContinue := c\<rparr>) = body_inv rest w" "body_inv rest (w\<lparr>rs_handlerDone := c\<rparr>) = body_inv rest w"
  "body_inv rest (w\<lparr>rs_handlerHeader := h\<rparr>) = body_inv rest w" "body_inv rest (w\<lparr>rs_fullDuplex := c\<rparr>) = body_inv rest w"
  by (rule quiet_inv(3), simp add: quiet_def)+

lemma w_Flush_inv: "body_inv rest w \<Longrightarrow> w_Flush E w = (err, w') \<Longrightarrow> body_inv rest w'"
  by (auto simp: w_Flush_def Let_def buffer_inv dest: chunkWriter_Write_inv split: if_splits prod.splits)

lemma w_Write_loop_inv: "body_inv rest w \<Longrightarrow> w_Write_loop E s nn p w = (nn', p', w') \<Longrightarrow> body_inv rest w'"
proof (induction E s nn p w rule: w_Write_loop.induct)
  case (1 E s nn p w)
  show ?case
  proof (cases "length p \<le> bufferBeforeChunkingSize - length (rs_w w) \<or> rs_w_err w \<noteq> None")
    case True
    then show ?thesis using "1.prems" unfolding w_Write_loop.simps [of E s nn p w] if_P [OF True] by simp
  next
    case go: False
    show ?thesis
    proof (cases "rs_w w = [] \<and> \<not> s")
      case True
      obtain n err w1 where c: "chunkWriter_Write E p w = (n, err, w1)" by (cases "chunkWriter_Write E p w")
      have i: "body_inv rest w1" by (rule chunkWriter_Write_inv [OF "1.prems"(1) c])
      show ?thesis
      proof (cases "err = None")
        case none: True
        then have "w_Write_loop E s (nn + n) (drop n p) w1 = (nn', p', w')"
          using "1.prems"(2) c unfolding w_Write_loop.simps [of E s nn p w] if_not_P [OF go] if_P [OF True] by simp
        from "1.IH"(1) [OF go True c [symmetric] refl _ i this] none show ?thesis by simp
      next
        case False
        then show ?thesis
          using "1.prems"(2) c i unfolding w_Write_loop.simps [of E s nn p w] if_not_P [OF go] if_P [OF True]
          by (auto simp: buffer_inv)
      qed
    next
      case False
      define n where "n = bufferBeforeChunkingSize - length (rs_w w)"
      obtain err w1 where c: "w_Flush E (w\<lparr>rs_w := rs_w w @ take n p\<rparr>) = (err, w1)" by (cases "w_Flush E (w\<lparr>rs_w := rs_w w @ take n p\<rparr>)")
      have i: "body_inv rest w1" using w_Flush_inv [OF _ c] "1.prems"(1) by (simp add: buffer_inv)
      show ?thesis
      proof (cases "err = None")
        case none: True
        then have "w_Write_loop E s (nn + n) (drop n p) w1 = (nn', p', w')"
          using "1.prems"(2) c unfolding w_Write_loop.simps [of E s nn p w] if_not_P [OF go] if_not_P [OF False] by (simp add: n_def Let_def)
        from "1.IH"(2) [OF go False n_def c [symmetric] _ i this] none show ?thesis by simp
      next
        case False2: False
        then show ?thesis
          using "1.prems"(2) c i unfolding w_Write_loop.simps [of E s nn p w] if_not_P [OF go] if_not_P [OF False]
          by (simp add: n_def Let_def)
      qed
    qed
  qed
qed

lemma w_Write_inv: "body_inv rest w \<Longrightarrow> w_Write E s p w = (n, err, w') \<Longrightarrow> body_inv rest w'"
  by (auto simp: w_Write_def buffer_inv dest: w_Write_loop_inv split: prod.splits if_splits)

subsection \<open>The handler's operations and the end of the request\<close>

lemma WriteHeader_quiet: "response_WriteHeader E code w = Ret w' \<Longrightarrow> quiet w w'"
proof -
  have i: "quiet w (snd (conn_Flush (snd (snd (conn_Write crlf (snd (writeSubset L conn_Write ex h (writeStatusLine b code w))))))))" for L ex h b w
    using quiet_Puts [of w "status_line b code"] unfolding writeStatusLine_def
    by (meson quiet_trans quiet_writeSubset quiet_conn)
  have c: "quiet w (w\<lparr>rs_canWriteContinue := x\<rparr>)" for x by (simp add: quiet_def)
  assume r: "response_WriteHeader E code w = Ret w'"
  show ?thesis
  proof (cases "c_hijacked (rs_conn w) \<or> rs_wroteHeader w")
    case True
    then have "response_WriteHeader E code w = Ret w"
      by (cases "c_hijacked (rs_conn w)") (simp_all add: response_WriteHeader_def)
    then show ?thesis using r by simp
  next
    case False
    then have f: "\<not> c_hijacked (rs_conn w)" "\<not> rs_wroteHeader w" by simp_all
    have "checkWriteHeaderCode code = Ret ()"
      using r [unfolded response_WriteHeader_def if_not_P [OF f(1)] if_not_P [OF f(2)]] by (cases "checkWriteHeaderCode code") simp_all
    note r2 = r [unfolded response_WriteHeader_def if_not_P [OF f(1)] if_not_P [OF f(2)] this go_bind.simps Let_def]
    show ?thesis
    proof (cases "100 \<le> code \<and> code \<le> 199 \<and> code \<noteq> 101")
      case True
      show ?thesis using r2 [unfolded if_P [OF True]] i [of w] quiet_trans [OF c [of False] i] by (auto split: if_splits)
    next
      case False
      show ?thesis using r2 [unfolded if_not_P [OF False]] by (auto simp: quiet_def split: if_splits sum.splits)
    qed
  qed
qed

lemma ensure_inv:
  assumes "body_inv rest w" "(if \<not> rs_wroteHeader w then response_WriteHeader E 200 w else Ret w) = Ret w'"
  shows "body_inv rest w'"
  using assms WriteHeader_quiet [of E 200 w w'] quiet_inv(3) [of w w' rest] by (auto split: if_splits)

lemma write_inv:
  assumes i: "body_inv rest w" and r: "response_write E s d w = Ret (n, err, w')"
  shows "body_inv rest w'"
proof (cases "c_hijacked (rs_conn w)")
  case True
  then show ?thesis using assms by (simp add: response_write_def)
next
  case False
  define w1 where "w1 = (if rs_canWriteContinue w then w\<lparr>rs_canWriteContinue := False\<rparr> else w)"
  have i1: "body_inv rest w1" using i by (simp add: w1_def buffer_inv)
  from r obtain w2 where w2: "(if \<not> rs_wroteHeader w1 then response_WriteHeader E 200 w1 else Ret w1) = Ret w2"
    and k: "(if d = [] then Ret (0, None, w2)
      else go_bind (bodyAllowed w2) (\<lambda>allowed. if \<not> allowed then Ret (0, Some ErrBodyNotAllowed, w2)
        else (let w3 = w2\<lparr>rs_written := rs_written w2 + int (length d)\<rparr> in
          if rs_contentLength w3 \<noteq> - 1 \<and> rs_written w3 > rs_contentLength w3 then Ret (0, Some ErrContentLength, w3)
          else Ret (w_Write E s d w3)))) = Ret (n, err, w')"
    unfolding response_write_def if_not_P [OF False] Let_def w1_def [symmetric] go_bind_Ret by auto
  have i2: "body_inv rest w2" by (rule ensure_inv [OF i1 w2])
  show ?thesis using k i2 w_Write_inv [of rest "w2\<lparr>rs_written := rs_written w2 + int (length d)\<rparr>" E s d n err w']
    by (auto simp: Let_def buffer_inv bodyAllowed_def split: if_splits)
qed

lemma Flush_inv:
  assumes i: "body_inv rest w" and r: "FlushError E w = Ret (err, w')"
  shows "body_inv rest w'"
proof -
  from r obtain w1 where w1: "(if \<not> rs_wroteHeader w then response_WriteHeader E 200 w else Ret w) = Ret w1"
    and k0: "(case w_Flush E w1 of (e1, w2) \<Rightarrow> (case chunkWriter_flush E w2 of (e2, w3) \<Rightarrow> Ret (if e1 = None then e2 else e1, w3))) = Ret (err, w')"
    unfolding FlushError_def go_bind_Ret by blast
  have k: "w' = snd (chunkWriter_flush E (snd (w_Flush E w1)))" using k0 by (simp add: split_beta)
  have i1: "body_inv rest w1" by (rule ensure_inv [OF i w1])
  have i2: "body_inv rest (snd (w_Flush E w1))" using w_Flush_inv [OF i1] by (cases "w_Flush E w1") simp
  define w3 where "w3 = (if \<not> cw_wroteHeader (rs_cw (snd (w_Flush E w1))) then chunkWriter_writeHeader E [] (snd (w_Flush E w1)) else snd (w_Flush E w1))"
  have "body_inv rest w3" unfolding w3_def by (rule ensure_sent_inv(1) [OF i2])
  moreover have "quiet w3 w'" unfolding k chunkWriter_flush_def w3_def [symmetric] by simp
  ultimately show ?thesis using quiet_inv(3) [of w3 w' rest] by simp
qed

lemma new_body_inv:
  assumes i: "body_inv rest w" and b: "rs_reqBody w = Some b" and s: "body_state rest b'" "settled rest b \<longrightarrow> settled rest b'"
  shows "body_inv rest (w\<lparr>rs_reqBody := Some b'\<rparr>)"
    and "rq_Body (rs_req w) = ExpectContinue c saw \<Longrightarrow> saw' \<longrightarrow> settled rest b' \<Longrightarrow>
      body_inv rest (w\<lparr>rs_reqBody := Some b', rs_req := (rs_req w)\<lparr>rq_Body := ExpectContinue c' saw'\<rparr>\<rparr>)"
  using assms by (auto simp: body_inv_def holds_def decided_def split: req_Body.splits)

lemma Read_inv:
  assumes i: "body_inv rest w"
  shows "body_inv rest (snd (snd (req_Body_Read E m w)))"
proof -
  obtain b where b: "rs_reqBody w = Some b" "body_state rest b" using i by (auto simp: body_inv_def holds_def split: option.splits)
  obtain out err b' where r: "body_Read (sv_readMIME E) m b = (out, err, b')" by (cases "body_Read (sv_readMIME E) m b")
  note s = body_Read_state [OF b(2) r]
  show ?thesis
  proof (cases "rq_Body (rs_req w)")
    case OwnBody
    then show ?thesis using new_body_inv(1) [OF i b(1) s(1)] s(3) b r by (simp add: req_Body_Read_def)
  next
    case OtherBody
    then show ?thesis using new_body_inv(1) [OF i b(1) s(1)] s(3) b r by (simp add: req_Body_Read_def)
  next
    case (ExpectContinue c saw)
    define w1 where "w1 = (if \<not> rs_wroteContinue w \<and> rs_canWriteContinue w \<and> \<not> c_hijacked (rs_conn w)
       then (snd (conn_Flush (conn_Puts [''HTTP/1.1 100 Continue'' @ crlf @ crlf] (w\<lparr>rs_wroteContinue := True\<rparr>))))\<lparr>rs_canWriteContinue := False\<rparr>
       else w)"
    have q: "quiet w w1"
    proof -
      have c: "quiet w (w\<lparr>rs_wroteContinue := True\<rparr>)" "quiet x (x\<lparr>rs_canWriteContinue := False\<rparr>)" for x by (simp_all add: quiet_def)
      have "quiet w ((snd (conn_Flush (conn_Puts ds (w\<lparr>rs_wroteContinue := True\<rparr>))))\<lparr>rs_canWriteContinue := False\<rparr>)" for ds
        by (rule quiet_trans [OF quiet_trans [OF quiet_trans [OF c(1) quiet_Puts] quiet_conn(2)] c(2)])
      then show ?thesis by (simp add: w1_def)
    qed
    have i1: "body_inv rest w1" "rs_reqBody w1 = Some b" "rq_Body (rs_req w1) = ExpectContinue c saw" "rs_req w1 = rs_req w"
      using quiet_inv(3) [OF q, of rest] i b(1) ExpectContinue q by (simp_all add: quiet_def)
    show ?thesis
    proof (cases c)
      case True
      then show ?thesis using i ExpectContinue by (simp add: req_Body_Read_def ecr_Read_def)
    next
      case False
      have "snd (snd (req_Body_Read E m w)) = (let w2 = w1\<lparr>rs_reqBody := Some b'\<rparr> in
          if err = Some EOF then w2\<lparr>rs_req := (rs_req w2)\<lparr>rq_Body := ExpectContinue c True\<rparr>\<rparr> else w2)"
        using False ExpectContinue i1(2) r unfolding req_Body_Read_def ecr_Read_def w1_def [symmetric] by (simp add: Let_def)
      then show ?thesis
        using new_body_inv [OF i1(1,2) s(1)] s(2,3) i1(3) by (simp add: Let_def)
    qed
  qed
qed

lemma reqBody_Close_inv:
  assumes i: "body_inv rest w"
  shows "body_inv rest (snd (reqBody_Close E w))" and "\<exists>b. rs_reqBody (snd (reqBody_Close E w)) = Some b \<and> bd_closed b"
proof -
  obtain b where b: "rs_reqBody w = Some b" "body_state rest b" using i by (auto simp: body_inv_def holds_def split: option.splits)
  obtain err b' where r: "body_Close (sv_readMIME E) b = (err, b')" by (cases "body_Close (sv_readMIME E) b")
  note s = body_Close_state [OF b(2) r]
  show "body_inv rest (snd (reqBody_Close E w))" "\<exists>b. rs_reqBody (snd (reqBody_Close E w)) = Some b \<and> bd_closed b"
    using new_body_inv(1) [OF i b(1) s(1)] s(2,3) b r by (simp_all add: reqBody_Close_def)
qed

lemma req_Body_Close_inv:
  assumes i: "body_inv rest w"
  shows "body_inv rest (snd (req_Body_Close E w))"
proof (cases "rq_Body (rs_req w)")
  case (ExpectContinue c saw)
  have "body_inv rest (w\<lparr>rs_req := (rs_req w)\<lparr>rq_Body := ExpectContinue True saw\<rparr>\<rparr>)"
    using i ExpectContinue by (auto simp: body_inv_def holds_def decided_def split: option.splits)
  then show ?thesis using reqBody_Close_inv(1) ExpectContinue by (simp add: req_Body_Close_def)
qed (use reqBody_Close_inv(1) [OF i] in \<open>simp_all add: req_Body_Close_def\<close>)

lemma op_inv:
  assumes i: "body_inv rest w" and x: "x \<noteq> HReplaceBody" and r: "run_op E x (acc, w) = Ret (acc', w')"
  shows "body_inv rest w'"
proof (cases x)
  case (HHeader f)
  have "quiet w (snd (response_Header w))" by (simp add: response_Header_def Let_def quiet_def)
  from quiet_inv(3) [OF this, of rest] show ?thesis using i r HHeader by (auto simp: buffer_inv split: prod.splits)
next
  case (HWriteHeader code)
  then have "response_WriteHeader E code w = Ret w'" using r by auto
  from quiet_inv(3) [OF WriteHeader_quiet [OF this], of rest] show ?thesis using i by simp
next
  case (HWrite d)
  then show ?thesis using r write_inv [OF i] by auto
next
  case (HWriteString d)
  then show ?thesis using r write_inv [OF i] by auto
next
  case HFlush
  then show ?thesis using r Flush_inv [OF i] by auto
next
  case (HReadBody m)
  then show ?thesis using r Read_inv [OF i] by auto
next
  case HCloseBody
  then show ?thesis using r req_Body_Close_inv [OF i] by auto
next
  case HTooLarge
  then show ?thesis using r asks_more_inv(2) [OF header_steps_asks(8) i] by auto
next
  case HFullDuplex
  then show ?thesis using r i by (auto simp: buffer_inv)
qed (use x in simp)

lemma run_inv: "body_inv rest w \<Longrightarrow> HReplaceBody \<notin> set ops \<Longrightarrow> run_handler E ops (acc, w) = Ret (acc', w') \<Longrightarrow> body_inv rest w'"
proof (induction ops arbitrary: acc w)
  case (Cons x ops)
  then obtain acc1 w1 where "run_op E x (acc, w) = Ret (acc1, w1)" "run_handler E ops (acc1, w1) = Ret (acc', w')" by auto
  moreover have "x \<noteq> HReplaceBody" "HReplaceBody \<notin> set ops" using Cons.prems(2) by auto
  ultimately show ?case using Cons.IH op_inv [OF Cons.prems(1)] by blast
qed simp

lemma finish_inv:
  assumes i: "body_inv rest w" and r: "finishRequest E w = Ret w'"
  shows "body_inv rest w'" and "cw_wroteHeader (rs_cw w')" and "\<exists>b. rs_reqBody w' = Some b \<and> bd_closed b"
proof -
  from r obtain w2 where w2: "(if \<not> rs_wroteHeader (w\<lparr>rs_handlerDone := True\<rparr>) then response_WriteHeader E 200 (w\<lparr>rs_handlerDone := True\<rparr>)
      else Ret (w\<lparr>rs_handlerDone := True\<rparr>)) = Ret w2"
    and k: "w' = snd (reqBody_Close E (snd (conn_Flush (chunkWriter_close E (snd (w_Flush E w2))))))"
    unfolding finishRequest_def Let_def go_bind_Ret by auto
  have "body_inv rest (w\<lparr>rs_handlerDone := True\<rparr>)" using i by (simp add: buffer_inv)
  then have i2: "body_inv rest w2" using w2 by (rule ensure_inv)
  define w3 where "w3 = snd (w_Flush E w2)"
  have i3: "body_inv rest w3" unfolding w3_def using w_Flush_inv [OF i2] by (cases "w_Flush E w2") simp
  define w4 where "w4 = (if \<not> cw_wroteHeader (rs_cw w3) then chunkWriter_writeHeader E [] w3 else w3)"
  have i4: "body_inv rest w4" "cw_wroteHeader (rs_cw w4)" unfolding w4_def by (rule ensure_sent_inv [OF i3])+
  have "quiet w4 (chunkWriter_close E w3)"
    unfolding chunkWriter_close_def w4_def [symmetric] Let_def Header_Write_def
    using quiet_trans [OF quiet_Puts quiet_Puts] quiet_trans [OF quiet_Puts quiet_trans [OF quiet_writeSubset quiet_Puts]]
    by (simp split: option.splits)
  then have q: "quiet w4 (snd (conn_Flush (chunkWriter_close E w3)))" using quiet_conn(2) quiet_trans by blast
  then have i5: "body_inv rest (snd (conn_Flush (chunkWriter_close E w3)))" "cw_wroteHeader (rs_cw (snd (conn_Flush (chunkWriter_close E w3))))"
    using quiet_inv(3) [OF q, of rest] i4 q by (simp_all add: quiet_def)
  show "body_inv rest w'" "\<exists>b. rs_reqBody w' = Some b \<and> bd_closed b" using reqBody_Close_inv [OF i5(1)] by (simp_all add: k w3_def)
  show "cw_wroteHeader (rs_cw w')" using i5(2) by (auto simp: k w3_def reqBody_Close_def split: option.splits prod.splits)
qed

lemma reuse_position:
  assumes i: "body_inv rest w" and c: "cw_wroteHeader (rs_cw w)" "rs_reqBody w = Some b" "bd_closed b" and r: "shouldReuseConnection w = Ret True"
  shows "remaining (src_conn (bd_src b)) = rest"
proof -
  have close: "\<not> rs_closeAfterReply w" "\<not> closedRequestBodyEarly w"
    using r by (auto simp: shouldReuseConnection_def split: if_splits)
  have st: "body_state rest b" using i c(2) by (simp add: body_inv_def holds_def)
  have "settled rest b"
  proof (cases "rq_Body (rs_req w)")
    case OwnBody
    then have "\<not> bd_earlyClose b" using close(2) c(2) by (simp add: closedRequestBodyEarly_def didEarlyClose_def)
    then show ?thesis using st c(3) by (auto simp: body_state_def body_at_def)
  next
    case (ExpectContinue x saw)
    then show ?thesis using i c(1,2) close(1) by (simp add: body_inv_def decided_def)
  next
    case OtherBody
    then show ?thesis using i c(2) by (simp add: body_inv_def holds_def)
  qed
  then show ?thesis by (simp add: settled_def)
qed


subsection \<open>A body that was replaced\<close>

lemma closed_copyN:
  assumes "bd_closed b" "0 < n"
  shows "copyN_discard readMIME n b = (0, Some errBodyReadAfterClose, b)"
  using assms by (simp add: copyN_discard_def discard_n.simps [of readMIME n 0 b] body_Read_def errBodyReadAfterClose_def)

text \<open>The header of an empty reply to such a request.\<close>

lemma empty_reply_header:
  assumes w: "rs_cw w = \<lparr>cw_header = None, cw_wroteHeader = False, cw_chunking = False\<rparr>" "rs_handlerHeader w = []" "rs_handlerDone w"
    "rs_status w = 200" "rs_contentLength w = - 1" "\<not> rs_wants10KeepAlive w" "\<not> rs_wantsClose w" "\<not> rs_closeAfterReply w"
    and q: "rq_Method (rs_req w) \<noteq> ''HEAD''" "rq_ProtoMajor (rs_req w) = 1" "rq_ProtoMinor (rs_req w) = 1"
    and k: "sv_keepAlives E" and b: "rs_reqBody w = Some b" "bd_closed b" "rq_Body (rs_req w) = OtherBody \<or> rq_Body (rs_req w) = OwnBody \<and> bd_sawEOF b"
  obtains v where "good_vars v" and "\<not> hv_owned v" and "chunkWriter_writeHeader E [] w =
      header_emit E (v, w\<lparr>rs_cw := \<lparr>cw_header = None, cw_wroteHeader = True, cw_chunking = False\<rparr>, rs_contentLength := 0\<rparr>)"
proof -
  define w1 where "w1 = w\<lparr>rs_cw := \<lparr>cw_header = None, cw_wroteHeader = True, cw_chunking = False\<rparr>\<rparr>"
  define w2 where "w2 = w1\<lparr>rs_contentLength := 0\<rparr>"
  define v0 where "v0 = header_start w1"
  define v1 where "v1 = set_extra (\<lambda>s. s\<lparr>eh_contentLength := Some (fmt_int 0)\<rparr>) v0"
  have v0: "hv_header v0 = []" "\<not> hv_owned v0" "hv_exclude v0 = []" using w(1,2) by (simp_all add: v0_def w1_def header_start_def)
  have s1: "header_trailers E (v0, w1) = (False, v0, w1)"
    using v0(3) by (simp add: header_trailers_def w1_def header_values_def)
  have allowed: "bodyAllowedForStatus 200" by (simp add: bodyAllowedForStatus_def)
  have p: "ProtoAtLeast (rs_req w) 1 1" "ProtoAtLeast (rs_req w) 1 0" using q(2,3) by (simp_all add: ProtoAtLeast_def)
  have s2: "auto_length False False 0 (v0, w1) = (v1, w2)"
    using w(3,4) q(1) allowed v0(1) by (simp add: auto_length_def v1_def w1_def w2_def header_has_def)
  have v1: "hv_header v1 = []" "\<not> hv_owned v1" "hv_exclude v1 = []" using v0 by (simp_all add: v1_def)
  have r1: "keep_alive10 True [] w2 = w2" using w(6) by (simp add: keep_alive10_def w2_def w1_def)
  have r2: "keep_alive_reply (v1, w2) = (v1, w2)" using w(6,7) p(1) by (simp add: keep_alive_reply_def w2_def w1_def)
  have r3: "close_asked True [] w2 = w2" by (simp add: close_asked_def header_get_def header_values_def)
  have r4: "close_unread_expect w2 = w2" using b(3) by (auto simp: close_unread_expect_def w2_def w1_def)
  have s3: "keep_alive True (v1, w2) = (v1, w2)" by (simp add: keep_alive_def v1(1) r1 r2 r3 r4)
  have "drain_choice w2 = (True, False, w2) \<or> drain_choice w2 = (False, False, w2)"
    using b by (auto simp: drain_choice_def w2_def w1_def)
  moreover have "drain_discard E w2 = (False, w2)"
  proof -
    have "rs_reqBody w2 = Some b" using b(1) by (simp add: w2_def w1_def)
    moreover have "w2\<lparr>rs_reqBody := Some b\<rparr> = w2" using b(1) by (simp add: w2_def w1_def)
    ultimately show ?thesis using closed_copyN [OF b(2), of "maxPostHandlerReadBytes + 1" "sv_readMIME E"] by (simp add: drain_discard_def)
  qed
  ultimately have s4: "drain_body E (v1, w2) = (v1, w2)" by (auto simp: drain_body_def)
  define v6 where "v6 = header_date E v1"
  have v6: "hv_header v6 = []" "\<not> hv_owned v6" "hv_exclude v6 = []" using v1 by (simp_all add: v6_def header_date_def)
  have s5: "header_date E (header_type False [] (rs_status w2) v1) = v6"
    using w(4) allowed by (simp add: v6_def header_type_def w2_def w1_def)
  have del: "delHeader key v6 = v6" for key using v6 by (simp add: delHeader_def header_has_def)
  have s7: "header_framing [] True (v6, w2) = (v6, w2)"
    using q(1) w(4) by (simp add: header_framing_def body_framing_def del w2_def w1_def)
  have "\<not> rs_closeAfterReply w2" using w(8) by (simp add: w2_def w1_def)
  then have s8: "header_connection E (v6, w2) = v6" by (simp add: header_connection_def)
  have e: "rs_cw w\<lparr>cw_wroteHeader := True\<rparr> = \<lparr>cw_header = None, cw_wroteHeader = True, cw_chunking = False\<rparr>" using w(1) by simp
  have "rs_contentLength w2 \<noteq> - 1" "rs_req w2 = rs_req w" by (simp_all add: w2_def w1_def)
  then have "chunkWriter_writeHeader E [] w = header_emit E (v6, w2)"
    using w(1) p k v0(1)
    by (simp add: chunkWriter_writeHeader_def Let_def e w1_def [symmetric] v0_def [symmetric] s1 s2 s3 s4 s5 s7 s8 header_get_def header_values_def)
  moreover have "good_vars v6" using v6 by (simp add: good_vars_def)
  ultimately show thesis using that [of v6] v6(2) by (simp add: w2_def w1_def)
qed

lemma finish_empty_reply:
  assumes c: "conn_ok w" and w: "\<not> rs_wroteHeader w" "\<not> rs_calledHeader w" "rs_w w = []" "rs_w_err w = None" "rs_written w = 0"
    and st: "rs_cw w = \<lparr>cw_header = None, cw_wroteHeader = False, cw_chunking = False\<rparr>" "rs_handlerHeader w = []"
    "rs_contentLength w = - 1" "\<not> rs_wants10KeepAlive w" "\<not> rs_wantsClose w" "\<not> rs_closeAfterReply w"
    and q: "rq_Method (rs_req w) \<noteq> ''HEAD''" "rq_ProtoMajor (rs_req w) = 1" "rq_ProtoMinor (rs_req w) = 1"
    and k: "sv_keepAlives E" and b: "rs_reqBody w = Some b" "bd_closed b"
    "rq_Body (rs_req w) = OtherBody \<or> rq_Body (rs_req w) = OwnBody \<and> bd_sawEOF b \<and> \<not> bd_earlyClose b"
  shows "\<exists>w'. finishRequest E w = Ret w' \<and> shouldReuseConnection w' = Ret True \<and> rs_reqBody w' = Some b"
proof -
  define w3 where "w3 = w\<lparr>rs_handlerDone := True, rs_wroteHeader := True, rs_status := 200\<rparr>"
  have wh: "response_WriteHeader E 200 (w\<lparr>rs_handlerDone := True\<rparr>) = Ret w3"
    using c w(1,2) st(2)
    by (simp add: response_WriteHeader_def w3_def checkWriteHeaderCode_def Let_def header_get_def header_values_def conn_ok_def)
  have fl: "w_Flush E w3 = (None, w3)" using w(3,4) by (simp add: w_Flush_def w3_def)
  have h3: "rs_cw w3 = \<lparr>cw_header = None, cw_wroteHeader = False, cw_chunking = False\<rparr>" "rs_handlerHeader w3 = []" "rs_handlerDone w3"
    "rs_status w3 = 200" "rs_contentLength w3 = - 1" "\<not> rs_wants10KeepAlive w3" "\<not> rs_wantsClose w3" "\<not> rs_closeAfterReply w3"
    "rq_Method (rs_req w3) \<noteq> ''HEAD''" "rq_ProtoMajor (rs_req w3) = 1" "rq_ProtoMinor (rs_req w3) = 1"
    "rs_reqBody w3 = Some b" "rq_Body (rs_req w3) = OtherBody \<or> rq_Body (rs_req w3) = OwnBody \<and> bd_sawEOF b"
    using st q b by (simp_all add: w3_def) blast
  define w4 where "w4 = w3\<lparr>rs_cw := \<lparr>cw_header = None, cw_wroteHeader = True, cw_chunking = False\<rparr>, rs_contentLength := 0\<rparr>"
  obtain v where v: "good_vars v" "\<not> hv_owned v" "chunkWriter_writeHeader E [] w3 = header_emit E (v, w4)"
    unfolding w4_def by (rule empty_reply_header [OF h3(1-11) k h3(12) b(2) h3(13)])
  define w5 where "w5 = header_emit E (v, w4)"
  have ok4: "conn_ok w4" using c by (simp add: w4_def w3_def conn_ok_def)
  obtain t where s5: "sends t w4 w5" using header_emit_sends [OF ok4 v(1), of E] v(2) by (auto simp: w5_def)
  note e5 = sends_stable [OF s5]
  have ok5: "conn_ok w5" by (rule sendsD(2) [OF s5 ok4])
  have "\<not> cw_chunking (rs_cw w5)" using e5 by (simp add: w4_def)
  then have "chunkWriter_close E w3 = w5"
    using h3(1) v(3) by (simp add: chunkWriter_close_def w5_def [symmetric] Let_def)
  moreover from conn_Flush_sends [OF ok5] obtain w6 where w6: "conn_Flush w5 = (None, w6)" "sends [] w5 w6" by metis
  note e6 = sends_stable [OF w6(2)]
  have r6: "rs_reqBody w6 = Some b" using e5 e6 h3(12) by (simp add: w4_def)
  then have "reqBody_Close E w6 = (None, w6\<lparr>rs_reqBody := Some b\<rparr>)" using b(2) by (simp add: reqBody_Close_def body_Close_def)
  moreover have "w6\<lparr>rs_reqBody := Some b\<rparr> = w6" using r6 by simp
  ultimately have fin: "finishRequest E w = Ret w6"
    using wh w(1) w6(1) by (simp add: finishRequest_def Let_def fl)
  have "conn_ok w6" by (rule sendsD(2) [OF w6(2) ok5])
  then have "bw_err (c_bufw (rs_conn w6)) = None" by (simp add: conn_ok_def good_bufw_def)
  moreover have "rs_req w6 = rs_req w" "rs_contentLength w6 = 0" "rs_written w6 = 0" "rs_status w6 = 200" "rs_wroteHeader w6" "\<not> rs_closeAfterReply w6"
    using e5 e6 w(5) h3(8) by (simp_all add: stable_def w4_def w3_def)
  ultimately have "shouldReuseConnection w6 = Ret True"
    using q(1) b(3) r6
    by (auto simp: shouldReuseConnection_def bodyAllowed_def bodyAllowedForStatus_def closedRequestBodyEarly_def didEarlyClose_def)
  then show ?thesis using fin r6 by blast
qed

text \<open>C31: the boundary is lost when the handler has put another reader in the place of the request body. The server
  finds out that a large body was closed before its end only if \<open>Body\<close> is still its own: for a handler that
  wraps it, as with \<open>MaxBytesReader\<close>, and closes it unread, the reply is complete, the connection is reused, and all bytes of the
  body, more than 256 KB, are still on it. The next request is read from the body.\<close>

theorem replaced_body_left:
  assumes conn: "good_bufw (c_bufw c)" "\<not> c_hijacked c" and E: "sv_keepAlives E"
    and req: "rq_Method req \<noteq> ''HEAD''" "rq_ProtoMajor req = 1" "rq_ProtoMinor req = 1" "\<not> wantsClose closing h"
    and b: "body_at b dat rest" "bd_src b = SrcLimited r n" "n > int maxPostHandlerReadBytes" "bd_doEarlyClose b" "\<not> bd_closing b"
  shows "\<exists>w w' b'. run_handler E [HReplaceBody, HCloseBody] ([], new_response c req h closing (Some b) False) = Ret ([], w) \<and>
    finishRequest E w = Ret w' \<and> shouldReuseConnection w' = Ret True \<and>
    rs_reqBody w' = Some b' \<and> remaining (src_conn (bd_src b')) = dat @ rest"
proof -
  define bc where "bc = b\<lparr>bd_earlyClose := True, bd_closed := True\<rparr>"
  have at: "remaining r = dat @ rest" "\<not> bd_closed b" "\<not> bd_sawEOF b" "\<not> bd_hdr b" using b(1,2) by (simp_all add: body_at_def)
  have close: "body_Close (sv_readMIME E) b = (None, bc)" using at b(2-5) by (simp add: body_Close_def bc_def)
  define w where "w = (new_response c req h closing (Some b) False)\<lparr>rs_req := req\<lparr>rq_Body := OtherBody\<rparr>, rs_reqBody := Some bc\<rparr>"
  have run: "run_handler E [HReplaceBody, HCloseBody] ([], new_response c req h closing (Some b) False) = Ret ([], w)"
    using close by (simp add: w_def req_Body_Close_def reqBody_Close_def new_response_def)
  have "wantsHttp10KeepAlive req h = False" using req(3) by (simp add: wantsHttp10KeepAlive_def)
  then obtain w' where w': "finishRequest E w = Ret w'" "shouldReuseConnection w' = Ret True" "rs_reqBody w' = Some bc"
    using finish_empty_reply [of w E bc] conn E req
    by (auto simp: w_def new_response_def conn_ok_def bc_def)
  moreover have "remaining (src_conn (bd_src bc)) = dat @ rest" using at(1) b(2) by (simp add: bc_def)
  ultimately show ?thesis using run by blast
qed

subsection \<open>Examples\<close>

definition post_req :: server_req where
  "post_req = \<lparr>rq_Method = ''POST'', rq_ProtoMajor = 1, rq_ProtoMinor = 1, rq_ContentLength = 5, rq_Body = OwnBody\<rparr>"

definition big_body :: body where
  "big_body = (new_body (SrcLimited \<lparr>bf_buf = [], bf_src = [replicate 262145 (CHR ''x''), ''GET''] \<rparr> 262145) False False None)\<lparr>bd_doEarlyClose := True\<rparr>"

theorem replaced_body_left_witness:
  "\<exists>w w' b'. run_handler example_env [HReplaceBody, HCloseBody] ([], new_response example_conn post_req [] False (Some big_body) False) = Ret ([], w) \<and>
    finishRequest example_env w = Ret w' \<and> shouldReuseConnection w' = Ret True \<and>
    rs_reqBody w' = Some b' \<and> remaining (src_conn (bd_src b')) = replicate 262145 (CHR ''x'') @ ''GET''"
proof -
  have c: "good_bufw (c_bufw example_conn)" "\<not> c_hijacked example_conn" by (simp_all add: example_conn_def good_bufw_def)
  have q: "rq_Method post_req \<noteq> ''HEAD''" "rq_ProtoMajor post_req = 1" "rq_ProtoMinor post_req = 1" by (simp_all add: post_req_def)
  have nc: "\<not> wantsClose False []" by code_simp
  have k: "sv_keepAlives example_env" by (simp add: example_env_def)
  let ?r = "\<lparr>bf_buf = [], bf_src = [replicate 262145 (CHR ''x''), ''GET''] \<rparr>"
  have b: "body_at big_body (replicate 262145 (CHR ''x'')) ''GET''" "bd_src big_body = SrcLimited ?r 262145"
    "262145 > int maxPostHandlerReadBytes" "bd_doEarlyClose big_body" "\<not> bd_closing big_body"
    by (simp_all add: big_body_def new_body_def body_at_def remaining_def maxPostHandlerReadBytes_def)
  show ?thesis by (rule replaced_body_left [OF c k q nc b])
qed


end
