(* ===== verification/Punycode.thy ===== *)
theory Punycode
  imports Header
begin

section \<open>Punycode (cookiejar/punycode.go)\<close>

text \<open>
  The encoder that the cookie jar uses for host names. The code computes with \<open>int32\<close>; here these are integers, wrapped by \<open>i32\<close> wherever a sum or
  a product could leave the range, so that the check \<open>delta < 0\<close> sees what the code sees. The loop over the code points
  has as fuel the number of runes that are not ASCII; the theory shows that this is enough, that \<open>encodeDigit\<close> never
  panics, and that the result is ASCII with the same number of labels.
\<close>

definition i32 :: "int \<Rightarrow> int" where
  "i32 x = (x + 2147483648) mod 4294967296 - 2147483648"

definition puny_base :: int where "puny_base = 36"
definition puny_damp :: int where "puny_damp = 700"
definition puny_initialBias :: int where "puny_initialBias = 72"
definition puny_initialN :: int where "puny_initialN = 128"
definition puny_skew :: int where "puny_skew = 38"
definition puny_tmax :: int where "puny_tmax = 26"
definition puny_tmin :: int where "puny_tmin = 1"

lemmas puny_consts = puny_base_def puny_damp_def puny_initialBias_def puny_initialN_def puny_skew_def puny_tmax_def puny_tmin_def

definition encodeDigit :: "int \<Rightarrow> char go" where
  "encodeDigit digit =
     (if 0 \<le> digit \<and> digit < 26 then Ret (byte_of (nat (digit + 97)))
      else if 26 \<le> digit \<and> digit < 36 then Ret (byte_of (nat (digit + (48 - 26))))
      else Panic ''cookiejar: internal error in punycode encoding'')"

function adapt_loop :: "int \<Rightarrow> int \<Rightarrow> int \<times> int" where
  "adapt_loop delta k =
     (if delta > ((puny_base - puny_tmin) * puny_tmax) div 2
      then adapt_loop (delta div (puny_base - puny_tmin)) (k + puny_base) else (delta, k))"
  by pat_completeness auto
termination
  by (relation "measure (\<lambda>(d, k). nat d)") (auto simp: puny_consts)

definition adapt :: "int \<Rightarrow> int \<Rightarrow> bool \<Rightarrow> int" where
  "adapt delta0 numPoints firstTime =
     (let d1 = (if firstTime then delta0 div puny_damp else delta0 div 2);
          d2 = i32 (d1 + d1 div numPoints)
      in case adapt_loop d2 0 of
           (d, k) \<Rightarrow> i32 (k + (puny_base - puny_tmin + 1) * d div (d + puny_skew)))"

definition threshold :: "int \<Rightarrow> int \<Rightarrow> int" where
  "threshold bias k =
     (let t = k - bias in if t < puny_tmin then puny_tmin else if t > puny_tmax then puny_tmax else t)"

lemma threshold_range: "1 \<le> threshold bias k" "threshold bias k \<le> 26"
  by (simp_all add: threshold_def Let_def puny_consts)

function puny_digits :: "int \<Rightarrow> int \<Rightarrow> int \<Rightarrow> string go" where
  "puny_digits bias k q =
     (let t = threshold bias k in
      if q < t then go_bind (encodeDigit q) (\<lambda>c. Ret [c])
      else go_bind (encodeDigit (t + (q - t) mod (puny_base - t))) (\<lambda>c.
             go_bind (puny_digits bias (k + puny_base) ((q - t) div (puny_base - t))) (\<lambda>cs. Ret (c # cs))))"
  by pat_completeness auto
termination
proof (relation "measure (\<lambda>(bias, k, q). nat q)")
  fix bias k q t :: int and c
  assume t: "t = threshold bias k" and q: "\<not> q < t"
  note r = threshold_range [of bias k, folded t]
  have "(q - t) div (36 - t) < q"
  proof (cases "q = t")
    case False
    then have "(q - t) div (36 - t) < q - t" using q r by (intro int_div_less_self) auto
    with r show ?thesis by simp
  qed (use r in simp)
  then show "((bias, k + puny_base, (q - t) div (puny_base - t)), bias, k, q) \<in> measure (\<lambda>(bias, k, q). nat q)"
    using r q by (simp add: puny_base_def)
qed simp

declare adapt_loop.simps [simp del] puny_digits.simps [simp del]

text \<open>One pass over the runes for the code point \<open>n\<close>; the state is output, delta, bias, \<open>h\<close> and \<open>remaining\<close>.\<close>

type_synonym puny_state = "string \<times> int \<times> int \<times> int \<times> int"

datatype puny_error = InvalidLabel

fun puny_pass :: "int \<Rightarrow> int \<Rightarrow> nat list \<Rightarrow> puny_state \<Rightarrow> (puny_error + puny_state) go" where
  "puny_pass b n [] st = Ret (Inr st)"
| "puny_pass b n (r # rs) (out, delta, bias, h, remain) =
     (if int r < n then
        (let d = i32 (delta + 1) in if d < 0 then Ret (Inl InvalidLabel) else puny_pass b n rs (out, d, bias, h, remain))
      else if int r > n then puny_pass b n rs (out, delta, bias, h, remain)
      else go_bind (puny_digits bias puny_base delta) (\<lambda>ds.
             puny_pass b n rs (out @ ds, 0, adapt delta (h + 1) (h = b), h + 1, remain - 1)))"

fun puny_loop :: "nat \<Rightarrow> int \<Rightarrow> int \<Rightarrow> nat list \<Rightarrow> puny_state \<Rightarrow> (puny_error + string) go" where
  "puny_loop fuel b n s (out, delta, bias, h, remain) =
     (if remain = 0 then Ret (Inr out)
      else
        (case fuel of
           0 \<Rightarrow> Panic ''out of fuel''
         | Suc f \<Rightarrow>
             (let m = fold (\<lambda>r m. if m > int r \<and> int r \<ge> n then int r else m) s 0x7fffffff;
                  d = i32 (delta + (m - n) * (h + 1))
              in if d < 0 then Ret (Inl InvalidLabel)
                 else go_bind (puny_pass b m s (out, d, bias, h, remain)) (\<lambda>r.
                   (case r of
                      Inl e \<Rightarrow> Ret (Inl e)
                    | Inr (out1, d1, bias1, h1, remaining1) \<Rightarrow>
                        puny_loop f b (m + 1) s (out1, i32 (d1 + 1), bias1, h1, remaining1))))))"

declare puny_loop.simps [simp del]

definition puny_encode :: "string \<Rightarrow> string \<Rightarrow> (puny_error + string) go" where
  "puny_encode pre s =
     (let rs = runes s; basic = filter (\<lambda>r. r < 128) rs; rest = filter (\<lambda>r. \<not> r < 128) rs; b = int (length basic)
      in puny_loop (length rest) b puny_initialN rs
           (pre @ map byte_of basic @ (if b > 0 then ''-'' else []), 0, puny_initialBias, b, int (length rest)))"

definition acePrefix :: string where
  "acePrefix = ''xn--''"

fun encode_labels :: "string list \<Rightarrow> (puny_error + string list) go" where
  "encode_labels [] = Ret (Inr [])"
| "encode_labels (l # ls) =
     go_bind (if \<not> ascii_Is l then puny_encode acePrefix l else Ret (Inr l)) (\<lambda>r.
       (case r of
          Inl e \<Rightarrow> Ret (Inl e)
        | Inr a \<Rightarrow> go_bind (encode_labels ls) (\<lambda>q. Ret (case q of Inl e \<Rightarrow> Inl e | Inr as \<Rightarrow> Inr (a # as)))))"

definition toASCII :: "string \<Rightarrow> (puny_error + string) go" where
  "toASCII s =
     (if ascii_Is s then Ret (Inr s)
      else go_bind (encode_labels (split_byte (CHR ''.'') s)) (\<lambda>r. Ret (map_sum id (join_byte (CHR ''.'')) r)))"

subsection \<open>The encoder never panics and its output is ASCII\<close>

text \<open>Letters, digits and hyphen of the encoding: ASCII, and no dot.\<close>

definition plain :: "string \<Rightarrow> bool" where
  "plain s = list_all (\<lambda>c. \<not> 127 < byte_val c \<and> c \<noteq> CHR ''.'') s"

lemma plain_simps [simp]: "plain []" "plain (a @ b) \<longleftrightarrow> plain a \<and> plain b"
  "plain (c # s) \<longleftrightarrow> \<not> 127 < byte_val c \<and> c \<noteq> CHR ''.'' \<and> plain s"
  by (simp_all add: plain_def)

lemma encodeDigit_Ret:
  assumes "0 \<le> d" "d < 36"
  shows "\<exists>c. encodeDigit d = Ret c \<and> plain [c]"
proof -
  have dot: "byte_of n \<noteq> CHR ''.''" if "46 < n" "n < 128" for n
  proof
    assume "byte_of n = CHR ''.''"
    then have "byte_val (byte_of n) = 46" by simp
    with that byte_val_of [of n] show False by simp
  qed
  show ?thesis
  proof (cases "d < 26")
    case True
    then show ?thesis using assms dot [of "nat (d + 97)"] by (simp add: encodeDigit_def byte_val_of)
  next
    case False
    then show ?thesis using assms dot [of "nat (d + 22)"] by (simp add: encodeDigit_def byte_val_of)
  qed
qed

lemma puny_digits_Ret: "0 \<le> q \<Longrightarrow> \<exists>ds. puny_digits bias k q = Ret ds \<and> plain ds"
proof (induction bias k q rule: puny_digits.induct)
  case (1 bias k q)
  define t where "t = threshold bias k"
  note r = threshold_range [of bias k, folded t_def]
  show ?case
  proof (cases "q < t")
    case True
    then obtain c where "encodeDigit q = Ret c" "plain [c]" using encodeDigit_Ret [of q] 1 r by auto
    then show ?thesis using True by (subst puny_digits.simps) (simp add: t_def [symmetric])
  next
    case False
    have "0 \<le> (q - t) mod (36 - t)" "(q - t) mod (36 - t) < 36 - t" using r by simp_all
    then have "0 \<le> t + (q - t) mod (36 - t)" "t + (q - t) mod (36 - t) < 36" using r by linarith+
    from encodeDigit_Ret [OF this] obtain c where c: "encodeDigit (t + (q - t) mod (36 - t)) = Ret c" "plain [c]" by blast
    have "0 \<le> (q - t) div (puny_base - t)" using False r by (simp add: puny_base_def pos_imp_zdiv_nonneg_iff)
    with 1 c(1) False obtain ds where "puny_digits bias (k + puny_base) ((q - t) div (puny_base - t)) = Ret ds" "plain ds"
      by (auto simp: t_def puny_base_def)
    then show ?thesis using False c by (subst puny_digits.simps) (simp add: t_def [symmetric] puny_base_def)
  qed
qed

lemma puny_pass_Ret:
  "0 \<le> delta \<Longrightarrow> \<exists>r. puny_pass b n s (out, delta, bias, h, remain) = Ret r \<and>
     (\<forall>st. r = Inr st \<longrightarrow> (\<exists>ds d1 bias1 h1. st = (out @ ds, d1, bias1, h1, remain - int (length (filter (\<lambda>r. int r = n) s))) \<and> plain ds))"
proof (induction s arbitrary: out delta bias h remain)
  case (Cons r rs)
  show ?case
  proof (cases "int r = n")
    case True
    obtain ds where ds: "puny_digits bias puny_base delta = Ret ds" "plain ds" using puny_digits_Ret Cons.prems by blast
    from Cons.IH [of 0 "out @ ds" "adapt delta (h + 1) (h = b)" "h + 1" "remain - 1"] True ds show ?thesis
      by (fastforce simp: algebra_simps)
  next
    case False
    with Cons.IH [of "i32 (delta + 1)" out bias h remain] Cons.IH [of delta out bias h remain] Cons.prems show ?thesis
      by (auto simp: Let_def)
  qed
qed simp


lemma fold_min:
  fixes m0 n :: int
  shows "fold (\<lambda>r m. if m > int r \<and> int r \<ge> n then int r else m) s m0 \<in> insert m0 {int r |r. r \<in> set s \<and> n \<le> int r} \<and>
    fold (\<lambda>r m. if m > int r \<and> int r \<ge> n then int r else m) s m0 \<le> m0 \<and>
    (\<forall>r\<in>set s. n \<le> int r \<longrightarrow> fold (\<lambda>r m. if m > int r \<and> int r \<ge> n then int r else m) s m0 \<le> int r)"
proof (induction s rule: rev_induct)
  case (snoc x xs)
  then show ?case by (auto simp: not_less intro: order_trans less_imp_le)
qed simp

definition left_over :: "int \<Rightarrow> nat list \<Rightarrow> nat" where
  "left_over n s = length (filter (\<lambda>r. n \<le> int r) s)"

lemma left_over_step:
  assumes "\<forall>r\<in>set s. n \<le> int r \<longrightarrow> m \<le> int r" "n \<le> m"
  shows "left_over n s = length (filter (\<lambda>r. int r = m) s) + left_over (m + 1) s"
  using assms(1) by (induction s) (use assms(2) in \<open>auto simp: left_over_def\<close>)

lemma puny_loop_Ret:
  assumes "\<forall>r\<in>set s. int r < 0x7fffffff"
  shows "left_over n s \<le> fuel \<Longrightarrow> n \<le> 0x7fffffff \<Longrightarrow>
    \<exists>r. puny_loop fuel b n s (out, delta, bias, h, int (left_over n s)) = Ret r \<and> (\<forall>o1. r = Inr o1 \<longrightarrow> (\<exists>ds. o1 = out @ ds \<and> plain ds))"
proof (induction fuel arbitrary: n out delta bias h)
  case 0
  then show ?case by (subst puny_loop.simps) simp
next
  case (Suc f)
  define m where "m = fold (\<lambda>r m. if m > int r \<and> int r \<ge> n then int r else m) s 0x7fffffff"
  define d where "d = i32 (delta + (m - n) * (h + 1))"
  show ?case
  proof (cases "left_over n s = 0 \<or> d < 0")
    case True
    then show ?thesis by (subst puny_loop.simps) (auto simp: Let_def m_def d_def)
  next
    case False
    note fm = fold_min [of n s "0x7fffffff", folded m_def]
    from False obtain r where r: "r \<in> set s" "n \<le> int r" by (auto simp: left_over_def filter_empty_conv)
    then have "m \<noteq> 0x7fffffff" using fm assms by fastforce
    with fm obtain r0 where r0: "r0 \<in> set s" "m = int r0" "n \<le> m" by auto
    with fm have step: "left_over n s = length (filter (\<lambda>r. int r = m) s) + left_over (m + 1) s" by (intro left_over_step) auto
    have "filter (\<lambda>r. int r = m) s \<noteq> []" using r0 by (auto simp: filter_empty_conv)
    then have pos: "0 < length (filter (\<lambda>r. int r = m) s)" by blast
    have m1: "m + 1 \<le> 0x7fffffff" using r0 assms by fastforce
    have "0 \<le> d" using False by simp
    from puny_pass_Ret [OF this, of b m s out bias h "int (left_over n s)"]
    obtain q where q: "puny_pass b m s (out, d, bias, h, int (left_over n s)) = Ret q"
      "\<forall>st. q = Inr st \<longrightarrow> (\<exists>ds d1 bias1 h1. st = (out @ ds, d1, bias1, h1, int (left_over n s) - int (length (filter (\<lambda>r. int r = m) s))) \<and> plain ds)"
      by (elim exE conjE)
    show ?thesis
    proof (cases q)
      case (Inl e)
      then show ?thesis using False q(1) by (subst puny_loop.simps) (simp add: Let_def m_def [symmetric] d_def [symmetric])
    next
      case (Inr st)
      then obtain ds d1 bias1 h1 where st: "st = (out @ ds, d1, bias1, h1, int (left_over (m + 1) s))" "plain ds"
        using q(2) step by auto
      have "left_over (m + 1) s \<le> f" using Suc.prems(1) step pos by linarith
      from Suc.IH [OF this m1, of "out @ ds" "i32 (d1 + 1)" bias1 h1] obtain z where
        z: "puny_loop f b (m + 1) s (out @ ds, i32 (d1 + 1), bias1, h1, int (left_over (m + 1) s)) = Ret z"
          "\<forall>o1. z = Inr o1 \<longrightarrow> (\<exists>es. o1 = (out @ ds) @ es \<and> plain es)" by auto
      show ?thesis using False q(1) Inr st z
        by (subst puny_loop.simps) (auto simp: Let_def m_def [symmetric] d_def [symmetric])
    qed
  qed
qed


lemma runes_bound: "r \<in> set (runes s) \<Longrightarrow> r < 2097152 \<and> (r < 128 \<longrightarrow> byte_of r \<in> set s)"
proof (induction s rule: runes.induct)
  case (2 b s)
  obtain x w where d: "decode_rune b s = (x, w)" by fastforce
  have lt: "byte_val c < 256" for c by (rule byte_val_less)
  have x: "x < 2097152 \<and> (x < 128 \<longrightarrow> x = byte_val b)"
    using d lt [of b] lt [of "hd s"] lt [of "hd (tl s)"] lt [of "hd (tl (tl s))"]
    by (auto simp: decode_rune_def Let_def cont_byte_def split: if_splits list.splits)
  show ?case
  proof (cases "r = x")
    case True
    have "byte_of (byte_val b) = b" by (metis byte_val_eq byte_val_less byte_val_of)
    with x True show ?thesis by auto
  next
    case False
    with 2 d show ?thesis using set_drop_subset [of "w - 1" s] by auto
  qed
qed simp

lemma puny_encode_Ret:
  "\<exists>r. puny_encode pre s = Ret r \<and> (\<forall>out. r = Inr out \<longrightarrow> (\<exists>ds. out = pre @ ds \<and> (CHR ''.'' \<notin> set s \<longrightarrow> plain ds)))"
proof -
  define rs where "rs = runes s"
  define basic where "basic = filter (\<lambda>r. r < 128) rs"
  define mid where "mid = map byte_of basic @ (if length basic > 0 then ''-'' else [])"
  define pre1 where "pre1 = pre @ mid"
  have left: "length (filter (\<lambda>r. \<not> r < 128) rs) = left_over 128 rs"
    unfolding left_over_def by (rule arg_cong [of _ _ length], rule filter_cong) auto
  have bound: "\<forall>r\<in>set rs. int r < 0x7fffffff" using runes_bound [of _ s] by (fastforce simp: rs_def)
  have enc: "puny_encode pre s =
      puny_loop (left_over 128 rs) (int (length basic)) 128 rs (pre1, 0, 72, int (length basic), int (left_over 128 rs))"
    by (simp add: puny_encode_def Let_def rs_def [symmetric] basic_def [symmetric] left puny_consts pre1_def mid_def)
  obtain r where r: "puny_encode pre s = Ret r" "\<forall>o1. r = Inr o1 \<longrightarrow> (\<exists>ds. o1 = pre1 @ ds \<and> plain ds)"
  proof -
    have "(128::int) \<le> 0x7fffffff" by simp
    from puny_loop_Ret [OF bound order_refl this, where b = "int (length basic)" and out = pre1 and delta = 0 and bias = 72 and h = "int (length basic)"]
    show thesis unfolding enc [symmetric] by (elim exE conjE) (rule that)
  qed
  have "plain (map byte_of basic)" if "CHR ''.'' \<notin> set s"
    using that runes_bound [of _ s] by (force simp: plain_def list_all_iff basic_def rs_def byte_val_of)
  then have mid: "CHR ''.'' \<notin> set s \<longrightarrow> plain mid" by (simp add: mid_def)
  have "\<forall>out. r = Inr out \<longrightarrow> (\<exists>ds. out = pre @ ds \<and> (CHR ''.'' \<notin> set s \<longrightarrow> plain ds))"
  proof (intro allI impI)
    fix out assume "r = Inr out"
    with r(2) obtain ds where "out = pre @ (mid @ ds)" "plain ds" by (auto simp: pre1_def)
    with mid show "\<exists>ds. out = pre @ ds \<and> (CHR ''.'' \<notin> set s \<longrightarrow> plain ds)" by (intro exI [of _ "mid @ ds"]) simp
  qed
  with r(1) show ?thesis by blast
qed

lemma encode_labels_Ret:
  "\<exists>r. encode_labels ls = Ret r \<and> (\<forall>as. r = Inr as \<longrightarrow> length as = length ls \<and>
     ((\<forall>l\<in>set ls. CHR ''.'' \<notin> set l) \<longrightarrow> list_all plain as))"
proof (induction ls)
  case (Cons l ls)
  then obtain q where q: "encode_labels ls = Ret q" "\<forall>as. q = Inr as \<longrightarrow> length as = length ls \<and>
     ((\<forall>l\<in>set ls. CHR ''.'' \<notin> set l) \<longrightarrow> list_all plain as)" by blast
  have ace: "plain acePrefix" by (simp add: acePrefix_def)
  show ?case
  proof (cases "ascii_Is l")
    case True
    with q show ?thesis by (cases q) (auto simp: ascii_Is_def plain_def list_all_iff)
  next
    case False
    obtain r where "puny_encode acePrefix l = Ret r"
      "\<forall>out. r = Inr out \<longrightarrow> (\<exists>ds. out = acePrefix @ ds \<and> (CHR ''.'' \<notin> set l \<longrightarrow> plain ds))"
      using puny_encode_Ret by blast
    note enc = this
    show ?thesis
    proof (cases r)
      case (Inl e)
      with False enc(1) show ?thesis by simp
    next
      case (Inr a)
      with False enc(1) q(1) have "encode_labels (l # ls) = Ret (case q of Inl e \<Rightarrow> Inl e | Inr as \<Rightarrow> Inr (a # as))" by simp
      moreover from enc(2) Inr ace have "CHR ''.'' \<notin> set l \<longrightarrow> plain a" by auto
      ultimately show ?thesis using q(2) by (cases q) auto
    qed
  qed
qed simp


lemma ascii_join: "list_all plain as \<Longrightarrow> ascii_Is (join_byte (CHR ''.'') as)"
  by (induction "CHR ''.''" as rule: join_byte.induct) (auto simp: ascii_Is_def plain_def list_all_iff)

text \<open>Converting a host name never panics; where it succeeds the result is ASCII and has as many labels, and an ASCII name is
  returned as it is.\<close>

lemma toASCII_Ret:
  "\<exists>r. toASCII s = Ret r \<and> (\<forall>t. r = Inr t \<longrightarrow> ascii_Is t \<and> (ascii_Is s \<longrightarrow> t = s) \<and>
     length (split_byte (CHR ''.'') t) = length (split_byte (CHR ''.'') s))"
proof (cases "ascii_Is s")
  case True
  then show ?thesis by (simp add: toASCII_def)
next
  case False
  define ls where "ls = split_byte (CHR ''.'') s"
  obtain r where r: "encode_labels ls = Ret r" "\<forall>as. r = Inr as \<longrightarrow> length as = length ls \<and>
     ((\<forall>l\<in>set ls. CHR ''.'' \<notin> set l) \<longrightarrow> list_all plain as)" using encode_labels_Ret by blast
  show ?thesis
  proof (cases r)
    case (Inl e)
    with False r show ?thesis by (simp add: toASCII_def ls_def)
  next
    case (Inr as)
    have "list_all plain as" "length as = length ls" using r(2) Inr by (auto simp: ls_def dest: split_byte_no_sep)
    moreover have "as \<noteq> []" using calculation(2) by (auto simp: ls_def)
    moreover have "ascii_Is (join_byte (CHR ''.'') as)" using calculation(1) by (rule ascii_join)
    moreover have "split_byte (CHR ''.'') (join_byte (CHR ''.'') as) = as"
      using calculation(1,3) by (intro split_join_byte) (auto simp: plain_def list_all_iff)
    ultimately show ?thesis using False r(1) Inr by (simp add: toASCII_def ls_def)
  qed
qed

end
