(* ===== verification/Url.thy ===== *)
theory Url
  imports Mux_Request Header
begin

section \<open>URLs as client and transport use them (net/url, request.go, transport.go)\<close>

text \<open>
  The fields of \<open>url.URL\<close>, its methods \<open>String\<close>, \<open>Hostname\<close> and \<open>Port\<close> of the standard library, and the functions of the
  repository that name a host: \<open>idnaASCII\<close>, \<open>idnaASCIIFromURL\<close> and \<open>canonicalAddr\<close>. IDNA itself
  (golang.org/x/net/idna) is an argument. The lemmas say where the user information stands in the printed URL.
\<close>

record URL =
  u_Scheme :: string
  u_Opaque :: string
  u_User :: "(string \<times> string option) option"
  u_Host :: string
  u_Path :: string
  u_RawPath :: string
  u_OmitHost :: bool
  u_ForceQuery :: bool
  u_RawQuery :: string
  u_Fragment :: string
  u_RawFragment :: string

definition url_of :: "URL \<Rightarrow> url" where
  "url_of u = \<lparr>url_Host = u_Host u, url_Path = u_Path u, url_RawPath = u_RawPath u, url_RawQuery = u_RawQuery u\<rparr>"

text \<open>\<open>shouldEscape\<close> of \<open>net/url\<close> in the modes for user information, hosts and fragments, and \<open>escape\<close>.\<close>

definition user_should_escape :: "char \<Rightarrow> bool" where
  "user_should_escape c = (\<not> is_alnum c \<and> c \<notin> set ''-_.~$&+,;='')"

definition host_should_escape :: "char \<Rightarrow> bool" where
  "host_should_escape c = (\<not> is_alnum c \<and> c \<notin> set ''-_.~!$&()*+,;=:[]<>'' \<and> byte_val c \<noteq> 39 \<and> byte_val c \<noteq> 34)"

definition fragment_should_escape :: "char \<Rightarrow> bool" where
  "fragment_should_escape c = (\<not> is_alnum c \<and> c \<notin> set ''-_.~$&+,/:;=?@!()*'')"

definition url_escape :: "(char \<Rightarrow> bool) \<Rightarrow> string \<Rightarrow> string" where
  "url_escape esc s = concat (map (\<lambda>c. if esc c
     then [CHR ''%'', upper_hex (byte_val c div 16), upper_hex (byte_val c mod 16)] else [c]) s)"

definition valid_encoded_fragment :: "string \<Rightarrow> bool" where
  "valid_encoded_fragment s =
     list_all (\<lambda>c. c \<in> set ''!$&()*+,;=:@[]%'' \<or> byte_val c = 39 \<or> \<not> fragment_should_escape c) s"

definition EscapedFragment :: "URL \<Rightarrow> string" where
  "EscapedFragment u =
     (if u_RawFragment u \<noteq> [] \<and> valid_encoded_fragment (u_RawFragment u) \<and>
         url_PathUnescape (u_RawFragment u) = Some (u_Fragment u)
      then u_RawFragment u else url_escape fragment_should_escape (u_Fragment u))"

definition Userinfo_String :: "string \<times> string option \<Rightarrow> string" where
  "Userinfo_String ui =
     url_escape user_should_escape (fst ui) @
     (case snd ui of None \<Rightarrow> [] | Some p \<Rightarrow> '':'' @ url_escape user_should_escape p)"

text \<open>What \<open>String\<close> prints between the scheme and the path, and the path itself.\<close>

definition url_authority :: "URL \<Rightarrow> string" where
  "url_authority u =
     (if u_Scheme u \<noteq> [] \<or> u_Host u \<noteq> [] \<or> u_User u \<noteq> None then
        (if u_OmitHost u \<and> u_Host u = [] \<and> u_User u = None then []
         else
           (if u_Host u \<noteq> [] \<or> u_Path u \<noteq> [] \<or> u_User u \<noteq> None then ''//'' else []) @
           (case u_User u of None \<Rightarrow> [] | Some ui \<Rightarrow> Userinfo_String ui @ ''@'') @
           url_escape host_should_escape (u_Host u))
      else [])"

definition url_path_text :: "string \<Rightarrow> URL \<Rightarrow> string" where
  "url_path_text before u =
     (let p = EscapedPath (url_of u);
          b = before @ (if p \<noteq> [] \<and> hd p \<noteq> CHR ''/'' \<and> u_Host u \<noteq> [] then ''/'' else [])
      in b @ (if b = [] \<and> CHR '':'' \<in> set (fst (break_byte (CHR ''/'') p)) then ''./'' else []) @ p)"

definition url_String :: "URL \<Rightarrow> string" where
  "url_String u =
     (let scheme = (if u_Scheme u \<noteq> [] then u_Scheme u @ '':'' else []) in
      (if u_Opaque u \<noteq> [] then scheme @ u_Opaque u else url_path_text (scheme @ url_authority u) u) @
      (if u_ForceQuery u \<or> u_RawQuery u \<noteq> [] then ''?'' @ u_RawQuery u else []) @
      (if u_Fragment u \<noteq> [] then ''#'' @ EscapedFragment u else []))"

text \<open>\<open>strings.Replace(s, old, new, 1)\<close> for an \<open>old\<close> that is not empty.\<close>

fun replace_first :: "string \<Rightarrow> string \<Rightarrow> string \<Rightarrow> string" where
  "replace_first [] old new = []"
| "replace_first (c # s) old new =
     (if has_prefix (c # s) old then new @ drop (length old) (c # s) else c # replace_first s old new)"

subsection \<open>Hosts and ports\<close>

definition validOptionalPort :: "string \<Rightarrow> bool" where
  "validOptionalPort p =
     (p = [] \<or> (hd p = CHR '':'' \<and> list_all (\<lambda>c. CHR ''0'' \<le> c \<and> c \<le> CHR ''9'') (tl p)))"

definition url_splitHostPort :: "string \<Rightarrow> string \<times> string" where
  "url_splitHostPort hostPort =
     (case (case last_index_byte hostPort (CHR '':'') of
              Some i \<Rightarrow> if validOptionalPort (drop i hostPort) then (take i hostPort, drop (Suc i) hostPort) else (hostPort, [])
            | None \<Rightarrow> (hostPort, [])) of
        (host, port) \<Rightarrow>
          (if has_prefix host ''['' \<and> has_suffix host '']'' then take (length host - 2) (drop 1 host) else host, port))"

definition url_Hostname :: "URL \<Rightarrow> string" where
  "url_Hostname u = fst (url_splitHostPort (u_Host u))"

definition url_Port :: "URL \<Rightarrow> string" where
  "url_Port u = snd (url_splitHostPort (u_Host u))"

text \<open>\<open>idna\<close> is \<open>idna.Lookup.ToASCII\<close>.\<close>

definition idnaASCII :: "(string \<Rightarrow> string option) \<Rightarrow> string \<Rightarrow> string option" where
  "idnaASCII idna v = (if ascii_Is v then Some v else idna v)"

definition idnaASCIIFromURL :: "(string \<Rightarrow> string option) \<Rightarrow> URL \<Rightarrow> string" where
  "idnaASCIIFromURL idna u =
     (let addr = url_Hostname u in case idnaASCII idna addr of Some v \<Rightarrow> v | None \<Rightarrow> addr)"

text \<open>\<open>net.JoinHostPort\<close> and the table \<open>portMap\<close>.\<close>

definition net_JoinHostPort :: "string \<Rightarrow> string \<Rightarrow> string" where
  "net_JoinHostPort host port =
     (if CHR '':'' \<in> set host then ''['' @ host @ '']:'' @ port else host @ '':'' @ port)"

definition portMap :: "string \<Rightarrow> string" where
  "portMap scheme =
     (if scheme = ''http'' then ''80'' else if scheme = ''https'' then ''443'' else if scheme = ''socks5'' then ''1080'' else [])"

definition canonicalAddr :: "(string \<Rightarrow> string option) \<Rightarrow> URL \<Rightarrow> string" where
  "canonicalAddr idna u =
     (let port = url_Port u in
      net_JoinHostPort (idnaASCIIFromURL idna u) (if port = [] then portMap (u_Scheme u) else port))"

subsection \<open>The user information in a printed URL\<close>

lemma upper_hex_alnum: "n < 16 \<Longrightarrow> is_alnum (upper_hex n)"
  by (simp add: upper_hex_def is_alnum_def less_Suc_eq numeral_eq_Suc; elim disjE; simp)

lemma at_not_alnum: "\<not> is_alnum (CHR ''@'')"
  by (simp add: is_alnum_def)

lemma user_escape_no_at: "CHR ''@'' \<notin> set (url_escape user_should_escape s)"
proof -
  have "upper_hex (byte_val c div 16) \<noteq> CHR ''@''" "upper_hex (byte_val c mod 16) \<noteq> CHR ''@''" for c
    using upper_hex_alnum [of "byte_val c div 16"] upper_hex_alnum [of "byte_val c mod 16"] at_not_alnum byte_val_less [of c]
    by (auto simp: less_mult_imp_div_less)
  then show ?thesis by (induction s) (auto simp: url_escape_def user_should_escape_def at_not_alnum dest: sym)
qed

lemma Userinfo_no_at: "CHR ''@'' \<notin> set (Userinfo_String ui)"
  by (auto simp: Userinfo_String_def user_escape_no_at split: option.splits)

text \<open>The first occurrence of \<open>auth @ "@"\<close> is where it was put if nothing before it holds an \<open>@\<close>.\<close>

lemma replace_first_at:
  assumes "CHR ''@'' \<notin> set s" "CHR ''@'' \<notin> set auth"
  shows "replace_first (s @ auth @ ''@'' @ rest) (auth @ ''@'') new = s @ new @ rest"
  using assms(1)
proof (induction s)
  case Nil
  then show ?case by (cases auth) (auto simp: has_prefix_def)
next
  case (Cons c s)
  have no: "takeWhile (\<lambda>x. x \<noteq> CHR ''@'') (l @ CHR ''@'' # r) = l" if "CHR ''@'' \<notin> set l" for l r
    using that by (induction l) auto
  have "\<not> prefix (auth @ ''@'') ((c # s) @ auth @ ''@'' @ rest)"
  proof
    assume "prefix (auth @ ''@'') ((c # s) @ auth @ ''@'' @ rest)"
    then obtain r where r: "((c # s) @ auth) @ CHR ''@'' # rest = auth @ CHR ''@'' # r" by (auto simp: prefix_def)
    have "CHR ''@'' \<notin> set ((c # s) @ auth)" using Cons.prems assms(2) by simp
    from no [OF this, of rest] no [OF assms(2), of r] have "(c # s) @ auth = auth" unfolding r by simp
    then show False by simp
  qed
  with Cons show ?case by (simp add: has_prefix_def)
qed

end
