(* ===== verification/Cookie.thy ===== *)
theory Cookie
  imports Preconditions Pattern
begin

section \<open>Cookies (cookie.go, request.go)\<close>

text \<open>
  Reading and writing of cookies: \<open>Cookie.String\<close>, \<open>Valid\<close>, \<open>SetCookie\<close>, \<open>readSetCookies\<close>, \<open>readCookies\<close> and \<open>Request.AddCookie\<close>. Times are those of
  \<open>Preconditions\<close>, in UTC. Warnings that are only logged are left out.
\<close>

type_synonym SameSite = int

abbreviation SameSiteDefaultMode :: SameSite where "SameSiteDefaultMode \<equiv> 1"
abbreviation SameSiteLaxMode :: SameSite where "SameSiteLaxMode \<equiv> 2"
abbreviation SameSiteStrictMode :: SameSite where "SameSiteStrictMode \<equiv> 3"
abbreviation SameSiteNoneMode :: SameSite where "SameSiteNoneMode \<equiv> 4"

record Cookie =
  ck_Name :: string
  ck_Value :: string
  ck_Path :: string
  ck_Domain :: string
  ck_Expires :: gotime
  ck_RawExpires :: string
  ck_MaxAge :: int
  ck_Secure :: bool
  ck_HttpOnly :: bool
  ck_SameSite :: SameSite
  ck_Raw :: string
  ck_Unparsed :: "string list"

definition new_Cookie :: "string \<Rightarrow> string \<Rightarrow> Cookie" where
  "new_Cookie name v = \<lparr>ck_Name = name, ck_Value = v, ck_Path = [], ck_Domain = [], ck_Expires = zero_time, ck_RawExpires = [], ck_MaxAge = 0,
     ck_Secure = False, ck_HttpOnly = False, ck_SameSite = 0, ck_Raw = [], ck_Unparsed = []\<rparr>"

subsection \<open>Names, values and attributes\<close>

definition isCookieNameValid :: "golib \<Rightarrow> string \<Rightarrow> bool" where
  "isCookieNameValid L raw = (raw \<noteq> [] \<and> \<not> list_ex (isNotToken L) (runes raw))"

definition validCookieValueByte :: "char \<Rightarrow> bool" where
  "validCookieValueByte b = (0x20 \<le> byte_val b \<and> byte_val b < 0x7f \<and> b \<noteq> CHR 0x22 \<and> b \<noteq> CHR '';'' \<and> byte_val b \<noteq> 92)"

definition validCookiePathByte :: "char \<Rightarrow> bool" where
  "validCookiePathByte b = (0x20 \<le> byte_val b \<and> byte_val b < 0x7f \<and> b \<noteq> CHR '';'')"

definition sanitizeOrWarn :: "(char \<Rightarrow> bool) \<Rightarrow> string \<Rightarrow> string" where
  "sanitizeOrWarn valid v = (if list_all valid v then v else filter valid v)"

definition sanitizeCookieValue :: "string \<Rightarrow> string" where
  "sanitizeCookieValue v0 =
     (let v = sanitizeOrWarn validCookieValueByte v0 in
      if v = [] then v
      else if CHR '' '' \<in> set v \<or> CHR '','' \<in> set v then [CHR 0x22] @ v @ [CHR 0x22]
      else v)"

definition sanitizeCookiePath :: "string \<Rightarrow> string" where
  "sanitizeCookiePath v = sanitizeOrWarn validCookiePathByte v"

definition sanitizeCookieName :: "string \<Rightarrow> string" where
  "sanitizeCookieName n = map (\<lambda>c. if c = CHR 0x0A \<or> c = CHR 0x0D then CHR ''-'' else c) n"

definition parseCookieValue :: "string \<Rightarrow> bool \<Rightarrow> string \<times> bool" where
  "parseCookieValue raw0 allowDoubleQuote =
     (let raw = (if allowDoubleQuote \<and> length raw0 > 1 \<and> hd raw0 = CHR 0x22 \<and> last raw0 = CHR 0x22 then butlast (tl raw0) else raw0)
      in if list_all validCookieValueByte raw then (raw, True) else ([], False))"

text \<open>The loop of \<open>isCookieDomainName\<close>: the rest of the name, the last byte, whether a letter was seen, and the length of the label.\<close>

fun domain_loop :: "string \<Rightarrow> char \<Rightarrow> bool \<Rightarrow> nat \<Rightarrow> bool" where
  "domain_loop [] lst ok partlen = (if lst = CHR ''-'' \<or> partlen > 63 then False else ok)"
| "domain_loop (c # s) lst ok partlen =
     (if (CHR ''a'' \<le> c \<and> c \<le> CHR ''z'') \<or> (CHR ''A'' \<le> c \<and> c \<le> CHR ''Z'') then domain_loop s c True (partlen + 1)
      else if CHR ''0'' \<le> c \<and> c \<le> CHR ''9'' then domain_loop s c ok (partlen + 1)
      else if c = CHR ''-'' then (if lst = CHR ''.'' then False else domain_loop s c ok (partlen + 1))
      else if c = CHR ''.'' then
        (if lst = CHR ''.'' \<or> lst = CHR ''-'' then False
         else if partlen > 63 \<or> partlen = 0 then False
         else domain_loop s c ok 0)
      else False)"

definition isCookieDomainName :: "string \<Rightarrow> bool" where
  "isCookieDomainName s =
     (if length s = 0 then False
      else if length s > 255 then False
      else domain_loop (if hd s = CHR ''.'' then tl s else s) (CHR ''.'') False 0)"

text \<open>\<open>net.ParseIP\<close> on text without a colon: four decimal fields without leading zeros.\<close>

definition ipv4_field :: "string \<Rightarrow> bool" where
  "ipv4_field f = (f \<noteq> [] \<and> all_digits f \<and> length f \<le> 3 \<and> dec_num 0 f \<le> 255 \<and> (length f > 1 \<longrightarrow> hd f \<noteq> CHR ''0''))"

definition is_ipv4 :: "string \<Rightarrow> bool" where
  "is_ipv4 s = (let fs = split_byte (CHR ''.'') s in length fs = 4 \<and> list_all ipv4_field fs)"

definition validCookieDomain :: "string \<Rightarrow> bool" where
  "validCookieDomain v = (if isCookieDomainName v then True else is_ipv4 v)"

text \<open>The year of \<open>t\<close> is 1601 or later.\<close>

definition validCookieExpires :: "gotime \<Rightarrow> bool" where
  "validCookieExpires t = (t \<ge> - 11644473600000000000)"

subsection \<open>Writing\<close>

definition Cookie_String :: "golib \<Rightarrow> fslib \<Rightarrow> Cookie \<Rightarrow> string" where
  "Cookie_String L T c =
     (if \<not> isCookieNameValid L (ck_Name c) then []
      else
        ck_Name c @ ''='' @ sanitizeCookieValue (ck_Value c) @
        (if ck_Path c \<noteq> [] then ''; Path='' @ sanitizeCookiePath (ck_Path c) else []) @
        (if ck_Domain c \<noteq> [] \<and> validCookieDomain (ck_Domain c)
         then ''; Domain='' @ (if hd (ck_Domain c) = CHR ''.'' then tl (ck_Domain c) else ck_Domain c) else []) @
        (if validCookieExpires (ck_Expires c) then ''; Expires='' @ fs_timeFormat T (ck_Expires c) else []) @
        (if ck_MaxAge c > 0 then ''; Max-Age='' @ fmt_int (ck_MaxAge c)
         else if ck_MaxAge c < 0 then ''; Max-Age=0'' else []) @
        (if ck_HttpOnly c then ''; HttpOnly'' else []) @
        (if ck_Secure c then ''; Secure'' else []) @
        (if ck_SameSite c = SameSiteNoneMode then ''; SameSite=None''
         else if ck_SameSite c = SameSiteLaxMode then ''; SameSite=Lax''
         else if ck_SameSite c = SameSiteStrictMode then ''; SameSite=Strict'' else []))"

datatype cookie_error = InvalidCookieName | InvalidCookieExpires | InvalidValueByte char | InvalidPathByte char | InvalidCookieDomain

definition Cookie_Valid :: "golib \<Rightarrow> Cookie \<Rightarrow> cookie_error option" where
  "Cookie_Valid L c =
     (if \<not> isCookieNameValid L (ck_Name c) then Some InvalidCookieName
      else if ck_Expires c \<noteq> zero_time \<and> \<not> validCookieExpires (ck_Expires c) then Some InvalidCookieExpires
      else
        (case find (\<lambda>b. \<not> validCookieValueByte b) (ck_Value c) of
           Some b \<Rightarrow> Some (InvalidValueByte b)
         | None \<Rightarrow>
             (case find (\<lambda>b. \<not> validCookiePathByte b) (ck_Path c) of
                Some b \<Rightarrow> Some (InvalidPathByte b)
              | None \<Rightarrow>
                  if ck_Domain c \<noteq> [] \<and> \<not> validCookieDomain (ck_Domain c) then Some InvalidCookieDomain else None)))"

definition SetCookie :: "golib \<Rightarrow> fslib \<Rightarrow> Cookie \<Rightarrow> Header \<Rightarrow> Header" where
  "SetCookie L T c h = (let v = Cookie_String L T c in if v \<noteq> [] then Header_Add ''Set-Cookie'' v h else h)"

definition AddCookie :: "Cookie \<Rightarrow> Header \<Rightarrow> Header" where
  "AddCookie c h =
     (let s = sanitizeCookieName (ck_Name c) @ ''='' @ sanitizeCookieValue (ck_Value c); old = Header_Get h ''Cookie''
      in if old \<noteq> [] then Header_Set ''Cookie'' (old @ ''; '' @ s) h else Header_Set ''Cookie'' s h)"

subsection \<open>Reading\<close>

text \<open>One attribute of \<open>Set-Cookie\<close>, already trimmed and not empty.\<close>

definition unparsed :: "string \<Rightarrow> Cookie \<Rightarrow> Cookie" where
  "unparsed part c = c\<lparr>ck_Unparsed := ck_Unparsed c @ [part]\<rparr>"

definition same_site :: "string \<Rightarrow> SameSite" where
  "same_site val =
     (case ascii_ToLower val of (lowerVal, ok) \<Rightarrow>
        if \<not> ok then SameSiteDefaultMode
        else if lowerVal = ''lax'' then SameSiteLaxMode
        else if lowerVal = ''strict'' then SameSiteStrictMode
        else if lowerVal = ''none'' then SameSiteNoneMode
        else SameSiteDefaultMode)"

definition cookie_attr :: "fslib \<Rightarrow> string \<Rightarrow> Cookie \<Rightarrow> Cookie" where
  "cookie_attr T part c =
     (case cut_byte part (CHR ''='') of (attr, val0, _) \<Rightarrow>
       (case ascii_ToLower attr of (lowerAttr, isASCII) \<Rightarrow>
          if \<not> isASCII then c
          else
            (case parseCookieValue val0 False of (val, ok) \<Rightarrow>
               if \<not> ok then unparsed part c
               else if lowerAttr = ''samesite'' then c\<lparr>ck_SameSite := same_site val\<rparr>
               else if lowerAttr = ''secure'' then c\<lparr>ck_Secure := True\<rparr>
               else if lowerAttr = ''httponly'' then c\<lparr>ck_HttpOnly := True\<rparr>
               else if lowerAttr = ''domain'' then c\<lparr>ck_Domain := val\<rparr>
               else if lowerAttr = ''max-age'' then
                 (case go_Atoi val of
                    Inl e \<Rightarrow> unparsed part c
                  | Inr secs \<Rightarrow>
                      if secs \<noteq> 0 \<and> hd val = CHR ''0'' then unparsed part c
                      else c\<lparr>ck_MaxAge := (if secs \<le> 0 then - 1 else secs)\<rparr>)
               else if lowerAttr = ''expires'' then
                 (let c1 = c\<lparr>ck_RawExpires := val\<rparr> in
                  case fs_timeParse T ''Mon, 02 Jan 2006 15:04:05 MST'' val of
                    Some t \<Rightarrow> c1\<lparr>ck_Expires := t\<rparr>
                  | None \<Rightarrow>
                      (case fs_timeParse T ''Mon, 02-Jan-2006 15:04:05 MST'' val of
                         Some t \<Rightarrow> c1\<lparr>ck_Expires := t\<rparr>
                       | None \<Rightarrow> unparsed part (c1\<lparr>ck_Expires := zero_time\<rparr>)))
               else if lowerAttr = ''path'' then c\<lparr>ck_Path := val\<rparr>
               else unparsed part c)))"

fun cookie_attrs :: "fslib \<Rightarrow> string list \<Rightarrow> Cookie \<Rightarrow> Cookie" where
  "cookie_attrs T [] c = c"
| "cookie_attrs T (p # parts) c =
     (let part = trim_string p in cookie_attrs T parts (if length part = 0 then c else cookie_attr T part c))"

definition read_set_cookie :: "golib \<Rightarrow> fslib \<Rightarrow> string \<Rightarrow> Cookie option" where
  "read_set_cookie L T line =
     (let parts = split_byte (CHR '';'') (trim_string line) in
      if length parts = 1 \<and> hd parts = [] then None
      else
        (case cut_byte (trim_string (hd parts)) (CHR ''='') of (name0, value0, ok) \<Rightarrow>
           if \<not> ok then None
           else
             (let name = trim_string name0 in
              if \<not> isCookieNameValid L name then None
              else
                (case parseCookieValue value0 True of (v, ok1) \<Rightarrow>
                   if \<not> ok1 then None
                   else Some (cookie_attrs T (tl parts) ((new_Cookie name v)\<lparr>ck_Raw := line\<rparr>))))))"

definition readSetCookies :: "golib \<Rightarrow> fslib \<Rightarrow> Header \<Rightarrow> Cookie list" where
  "readSetCookies L T h = List.map_filter (read_set_cookie L T) (header_values h ''Set-Cookie'')"

text \<open>The inner loop of \<open>readCookies\<close>.\<close>

function read_cookie_line :: "golib \<Rightarrow> string \<Rightarrow> string \<Rightarrow> Cookie list" where
  "read_cookie_line L nameFilter line =
     (if length line > 0 then
        (case cut_byte line (CHR '';'') of (part0, rest, _) \<Rightarrow>
           (let part = trim_string part0;
                found =
                  (if part = [] then []
                   else
                     (case cut_byte part (CHR ''='') of (name0, val0, _) \<Rightarrow>
                        (let name = trim_string name0 in
                         if \<not> isCookieNameValid L name then []
                         else if nameFilter \<noteq> [] \<and> nameFilter \<noteq> name then []
                         else (case parseCookieValue val0 True of (val, ok) \<Rightarrow> if ok then [new_Cookie name val] else []))))
            in found @ read_cookie_line L nameFilter rest))
      else [])"
  by pat_completeness auto
termination
proof (relation "measure (\<lambda>(L, f, line). length line)", goal_cases)
  case (2 L f line p part0 q rest ok)
  then have "cut_byte line (CHR '';'') = (p, q, rest)" "line \<noteq> []" by simp_all
  then show ?case using cut_byte_cases [of line "CHR '';''" p q rest] by (auto split: if_splits)
qed simp

declare read_cookie_line.simps [simp del]

definition readCookies :: "golib \<Rightarrow> string \<Rightarrow> Header \<Rightarrow> Cookie list" where
  "readCookies L nameFilter h =
     concat (map (\<lambda>line. read_cookie_line L nameFilter (trim_string line)) (header_values h ''Cookie''))"

subsection \<open>Trimmed parts\<close>

lemma rtrim_last: "s \<noteq> [] \<Longrightarrow> \<not> ascii_space (last s) \<Longrightarrow> rtrim s = s"
  by (cases s rule: rev_cases) (simp_all add: rtrim_def)

lemma split_byte_pad:
  assumes "c \<notin> set p"
  shows "split_byte c (u @ p) = butlast (split_byte c u) @ [last (split_byte c u) @ p]"
proof (induction u)
  case Nil
  then show ?case using split_byte_no_sep_id [OF assms] by simp
next
  case (Cons x u)
  have "split_byte c u \<noteq> []" by simp
  then show ?case using Cons by (cases "split_byte c u") (auto split: if_splits)
qed

lemma trim_right_pad: "list_all ascii_space p \<Longrightarrow> trim_string (x @ p) = trim_string x"
  using trim_pad [of "[]" p x] by simp

lemma trim_left_pad: "list_all ascii_space p \<Longrightarrow> trim_string (p @ x) = trim_string x"
  using trim_pad [of p "[]" x] by simp

lemma split_rtrim:
  assumes "\<not> ascii_space c"
  shows "map trim_string (split_byte c (rtrim s)) = map trim_string (split_byte c s)"
proof -
  obtain p where p: "s = rtrim s @ p" "list_all ascii_space p" using rtrim_split by blast
  then have "c \<notin> set p" using assms by (auto simp: list_all_iff)
  obtain P where P: "split_byte c (rtrim s) = P" "P \<noteq> []" by simp
  have "split_byte c s = butlast P @ [last P @ p]"
    using split_byte_pad [OF \<open>c \<notin> set p\<close>, of "rtrim s"] unfolding P(1) p(1) [symmetric] .
  then have "map trim_string (split_byte c s) = map trim_string (butlast P @ [last P])" by (simp add: trim_right_pad [OF p(2)])
  then show ?thesis using P by simp
qed

lemma cookie_attrs_trim: "cookie_attrs T ps c = cookie_attrs T (map trim_string ps) c"
  by (induction ps arbitrary: c) (simp_all add: Let_def)

lemma cookie_attrs_append: "cookie_attrs T (xs @ ys) c = cookie_attrs T ys (cookie_attrs T xs c)"
  by (induction xs arbitrary: c) (simp_all add: Let_def)

lemma ascii_rune:
  assumes "c \<in> set s" "byte_val c < 128"
  shows "byte_val c \<in> set (runes s)"
  using assms
proof (induction s rule: runes.induct)
  case (2 b s)
  obtain r w where rw: "decode_rune b s = (r, w)" by (cases "decode_rune b s")
  show ?case
  proof (cases "c = b")
    case True
    then have "r = byte_val c" using rw "2.prems"(2) by (simp add: decode_rune_def Let_def)
    then show ?thesis using rw by simp
  next
    case False
    then have c: "c \<in> set s" using "2.prems"(1) by simp
    have "c \<notin> set (take (w - 1) s)"
      using rw "2.prems"(2) by (auto simp: decode_rune_def Let_def cont_byte_def split: if_splits list.splits)
    then have "c \<in> set (drop (w - 1) s)" using c by (metis Un_iff append_take_drop_id set_append)
    from "2.IH" [OF rw [symmetric] this "2.prems"(2)] show ?thesis using rw by simp
  qed
qed simp

text \<open>What \<open>httpguts.IsTokenRune\<close> documents: separators and white space are not token characters.\<close>

definition token_table :: "golib \<Rightarrow> bool" where
  "token_table L \<longleftrightarrow> (\<forall>r \<in> {9, 10, 13, 32, 59, 61}. \<not> lib_isTokenRune L r)"

lemma cookie_name_plain:
  assumes "token_table L" "isCookieNameValid L name"
  shows "name \<noteq> []" "CHR ''='' \<notin> set name" "CHR '';'' \<notin> set name" "list_all (\<lambda>c. \<not> ascii_space c) name"
proof -
  have t: "lib_isTokenRune L (byte_val c)" if "c \<in> set name" "byte_val c < 128" for c
    using assms(2) ascii_rune [OF that] by (auto simp: isCookieNameValid_def isNotToken_def list_ex_iff)
  show "name \<noteq> []" using assms(2) by (simp add: isCookieNameValid_def)
  show "CHR ''='' \<notin> set name" "CHR '';'' \<notin> set name"
    using t [of "CHR ''=''"] t [of "CHR '';''"] assms(1) by (auto simp: token_table_def)
  show "list_all (\<lambda>c. \<not> ascii_space c) name"
    using t [of "CHR '' ''"] t [of "CHR 0x09"] t [of "CHR 0x0A"] t [of "CHR 0x0D"] assms(1)
    by (auto simp: token_table_def list_all_iff ascii_space_def)
qed

subsection \<open>What is sent is what is read\<close>

definition domain_text :: "Cookie \<Rightarrow> string" where
  "domain_text c = (if hd (ck_Domain c) = CHR ''.'' then tl (ck_Domain c) else ck_Domain c)"

definition attr_texts :: "fslib \<Rightarrow> Cookie \<Rightarrow> string list" where
  "attr_texts T c =
     (if ck_Path c \<noteq> [] then [''Path='' @ sanitizeCookiePath (ck_Path c)] else []) @
     (if ck_Domain c \<noteq> [] \<and> validCookieDomain (ck_Domain c) then [''Domain='' @ domain_text c] else []) @
     (if validCookieExpires (ck_Expires c) then [''Expires='' @ fs_timeFormat T (ck_Expires c)] else []) @
     (if ck_MaxAge c > 0 then [''Max-Age='' @ fmt_int (ck_MaxAge c)] else if ck_MaxAge c < 0 then [''Max-Age=0''] else []) @
     (if ck_HttpOnly c then [''HttpOnly''] else []) @
     (if ck_Secure c then [''Secure''] else []) @
     (if ck_SameSite c = SameSiteNoneMode then [''SameSite=None'']
      else if ck_SameSite c = SameSiteLaxMode then [''SameSite=Lax'']
      else if ck_SameSite c = SameSiteStrictMode then [''SameSite=Strict''] else [])"

lemma Cookie_String_texts:
  "isCookieNameValid L (ck_Name c) \<Longrightarrow>
   Cookie_String L T c = (ck_Name c @ ''='' @ sanitizeCookieValue (ck_Value c)) @ concat (map (\<lambda>a. '';'' @ '' '' @ a) (attr_texts T c))"
  by (simp add: Cookie_String_def attr_texts_def domain_text_def)

lemma sanitize_filter: "sanitizeOrWarn valid v = filter valid v"
  by (auto simp: sanitizeOrWarn_def list_all_iff intro: filter_True [symmetric])

text \<open>A received cookie: the value and the path without the bytes that may not be sent, a valid domain without its dot, and
  a path the reader cannot parse among the unparsed attributes.\<close>

definition sent_path :: "Cookie \<Rightarrow> string" where
  "sent_path c = rtrim (filter validCookiePathByte (ck_Path c))"

definition received :: "golib \<Rightarrow> fslib \<Rightarrow> Cookie \<Rightarrow> Cookie" where
  "received L T c =
     (let readable = list_all validCookieValueByte (sent_path c) in
      \<lparr>ck_Name = ck_Name c, ck_Value = filter validCookieValueByte (ck_Value c),
       ck_Path = (if readable then sent_path c else []),
       ck_Domain = (if ck_Domain c \<noteq> [] \<and> validCookieDomain (ck_Domain c) then domain_text c else []),
       ck_Expires = (if validCookieExpires (ck_Expires c) then truncate_second (ck_Expires c) else zero_time),
       ck_RawExpires = (if validCookieExpires (ck_Expires c) then fs_timeFormat T (ck_Expires c) else []),
       ck_MaxAge = (if ck_MaxAge c > 0 then ck_MaxAge c else if ck_MaxAge c < 0 then - 1 else 0),
       ck_Secure = ck_Secure c, ck_HttpOnly = ck_HttpOnly c,
       ck_SameSite = (if ck_SameSite c \<in> {SameSiteLaxMode, SameSiteStrictMode, SameSiteNoneMode} then ck_SameSite c else 0),
       ck_Raw = Cookie_String L T c, ck_Unparsed = (if readable then [] else [''Path='' @ sent_path c])\<rparr>)"

text \<open>What is documented of the time format: its text has no byte a cookie cannot carry, and parsing it returns the time in seconds.\<close>

definition good_time :: "fslib \<Rightarrow> gotime \<Rightarrow> bool" where
  "good_time T t \<longleftrightarrow> fs_timeFormat T t \<noteq> [] \<and> list_all validCookieValueByte (fs_timeFormat T t) \<and> \<not> ascii_space (last (fs_timeFormat T t)) \<and>
     fs_timeParse T ''Mon, 02 Jan 2006 15:04:05 MST'' (fs_timeFormat T t) = Some (truncate_second t)"

lemma value_byte_plain: "list_all validCookieValueByte s \<Longrightarrow> CHR '';'' \<notin> set s"
  by (auto simp: list_all_iff validCookieValueByte_def)

text \<open>Attributes of the form \<open>key=value\<close>.\<close>

lemma cut_key: "CHR ''='' \<notin> set k \<Longrightarrow> cut_byte (k @ CHR ''='' # v) (CHR ''='') = (k, v, True)"
  by (rule cut_byte_found)

lemma trim_attr:
  assumes "k \<noteq> []" "\<not> ascii_space (hd k)"
  shows "trim_string (k @ CHR ''='' # v) = k @ CHR ''='' # rtrim v"
proof -
  obtain x k' where k: "k = x # k'" "\<not> ascii_space x" using assms by (cases k) auto
  then show ?thesis using trim_visible [OF k(2), of "k' @ CHR ''='' # v"] rtrim_visible [of "CHR ''=''" k' v]
    by (simp add: ascii_space_def)
qed

lemma attr_lower:
  "ascii_ToLower ''Path'' = (''path'', True)" "ascii_ToLower ''Domain'' = (''domain'', True)" "ascii_ToLower ''Expires'' = (''expires'', True)"
  "ascii_ToLower ''Max-Age'' = (''max-age'', True)" "ascii_ToLower ''HttpOnly'' = (''httponly'', True)" "ascii_ToLower ''Secure'' = (''secure'', True)"
  "ascii_ToLower ''SameSite'' = (''samesite'', True)" "same_site ''None'' = 4" "same_site ''Lax'' = 2" "same_site ''Strict'' = 3"
  by code_simp+

lemma parse_plain_value: "parseCookieValue v False = (if list_all validCookieValueByte v then (v, True) else ([], False))"
  by (simp add: parseCookieValue_def)

lemma path_attr:
  "cookie_attrs T [''Path='' @ p] c =
     (if list_all validCookieValueByte (rtrim p) then c\<lparr>ck_Path := rtrim p\<rparr> else unparsed (''Path='' @ rtrim p) c)"
  using trim_attr [of "''Path''" p] cut_key [of "''Path''" "rtrim p"]
  by (simp add: cookie_attr_def attr_lower parse_plain_value ascii_space_def)

lemma domain_attr:
  "list_all validCookieValueByte d \<Longrightarrow> rtrim d = d \<Longrightarrow> cookie_attrs T [''Domain='' @ d] c = c\<lparr>ck_Domain := d\<rparr>"
  using trim_attr [of "''Domain''" d] cut_key [of "''Domain''" d]
  by (simp add: cookie_attr_def attr_lower parse_plain_value ascii_space_def)

lemma expires_attr:
  "good_time T t \<Longrightarrow> cookie_attrs T [''Expires='' @ fs_timeFormat T t] c = c\<lparr>ck_RawExpires := fs_timeFormat T t, ck_Expires := truncate_second t\<rparr>"
  using trim_attr [of "''Expires''" "fs_timeFormat T t"] cut_key [of "''Expires''" "fs_timeFormat T t"] rtrim_last [of "fs_timeFormat T t"]
  by (simp add: cookie_attr_def attr_lower parse_plain_value ascii_space_def good_time_def Let_def)

lemma rtrim_Nil [simp]: "rtrim [] = []"
  by (simp add: rtrim_def)

lemma rtrim_plain: "list_all (\<lambda>c. \<not> ascii_space c) s \<Longrightarrow> rtrim s = s"
  by (cases s rule: rev_cases) (simp_all add: rtrim_def)

lemma hd_fmt_nat_pos: "0 < n \<Longrightarrow> hd (fmt_nat n) \<noteq> CHR ''0''"
proof (induction n rule: fmt_nat.induct)
  case (1 n)
  show ?case
  proof (cases "n < 10")
    case True
    have "list_all (\<lambda>n. n = 0 \<or> dec_char n \<noteq> CHR ''0'') [0 ..< 10]" by code_simp
    moreover have "n \<in> set [0 ..< 10]" using True by simp
    ultimately have "n = 0 \<or> dec_char n \<noteq> CHR ''0''" unfolding list_all_iff by blast
    then show ?thesis using True 1(2) by (subst fmt_nat.simps) simp
  next
    case False
    then have "hd (fmt_nat (n div 10)) \<noteq> CHR ''0''" using 1 by simp
    then show ?thesis using False by (subst fmt_nat.simps) simp
  qed
qed

lemma digits_value: "list_all validCookieValueByte (fmt_nat n)"
  using fmt_nat_plain [of _ n] by (force simp: list_all_iff validCookieValueByte_def less_eq_char_def)

lemma max_age_attr:
  assumes "0 < m" "m < 2 ^ 63"
  shows "cookie_attrs T [''Max-Age='' @ fmt_int m] c = c\<lparr>ck_MaxAge := m\<rparr>"
proof -
  have m: "fmt_int m = fmt_nat (nat m)" "0 < nat m" using assms by (simp_all add: fmt_int_def)
  have "go_Atoi (fmt_int m) = Inr m" unfolding go_Atoi_def by (rule parse_int_fmt) (use assms in simp_all)
  then show ?thesis
    using trim_attr [of "''Max-Age''" "fmt_int m"] cut_key [of "''Max-Age''" "fmt_int m"] rtrim_plain [OF digits_plain] hd_fmt_nat_pos [OF m(2)] assms
    by (simp add: cookie_attr_def attr_lower parse_plain_value ascii_space_def digits_value m(1))
qed

lemma max_age_zero: "cookie_attrs T [''Max-Age=0''] c = c\<lparr>ck_MaxAge := - 1\<rparr>"
proof -
  have "fmt_nat 0 = ''0''" by (simp add: fmt_nat.simps dec_char_def)
  then have "go_Atoi ''0'' = Inr 0" "list_all validCookieValueByte ''0''"
    using parse_int_digits [of 0] digits_value [of 0] by (simp_all add: go_Atoi_def)
  then show ?thesis
    using trim_attr [of "''Max-Age''" "''0''"] cut_key [of "''Max-Age''" "''0''"]
    by (simp add: cookie_attr_def attr_lower parse_plain_value ascii_space_def rtrim_def)
qed

lemma flag_attrs:
  "cookie_attrs T [''HttpOnly''] c = c\<lparr>ck_HttpOnly := True\<rparr>" "cookie_attrs T [''Secure''] c = c\<lparr>ck_Secure := True\<rparr>"
  "cookie_attrs T [''SameSite=None''] c = c\<lparr>ck_SameSite := 4\<rparr>" "cookie_attrs T [''SameSite=Lax''] c = c\<lparr>ck_SameSite := 2\<rparr>"
  "cookie_attrs T [''SameSite=Strict''] c = c\<lparr>ck_SameSite := 3\<rparr>"
  using cut_key [of "''SameSite''" "''None''"] cut_key [of "''SameSite''" "''Lax''"] cut_key [of "''SameSite''" "''Strict''"]
    cut_byte_not_found [of "CHR ''=''" "''HttpOnly''"] cut_byte_not_found [of "CHR ''=''" "''Secure''"]
  by (simp_all add: cookie_attr_def attr_lower parse_plain_value trim_string_def ascii_space_def validCookieValueByte_def)

definition domain_char :: "char \<Rightarrow> bool" where
  "domain_char c \<longleftrightarrow> ascii_alnum (byte_val c) \<or> c = CHR ''-'' \<or> c = CHR ''.''"

lemma domain_loop_chars: "domain_loop s lst ok n \<Longrightarrow> list_all domain_char s"
  by (induction s lst ok n rule: domain_loop.induct)
    (auto simp: domain_char_def ascii_alnum_def less_eq_char_def split: if_splits)

lemma ipv4_chars: "is_ipv4 s \<Longrightarrow> list_all domain_char s"
proof -
  assume a: "is_ipv4 s"
  have join: "c \<in> set (join_byte d ss) \<Longrightarrow> c = d \<or> (\<exists>x \<in> set ss. c \<in> set x)" for c d ss
    by (induction d ss rule: join_byte.induct) auto
  have "domain_char c" if mem: "c \<in> set s" for c
  proof -
    consider "c = CHR ''.''" | x where "x \<in> set (split_byte (CHR ''.'') s)" "c \<in> set x"
      using join [of c "CHR ''.''" "split_byte (CHR ''.'') s"] mem by (auto simp: join_split_byte)
    then show ?thesis
    proof cases
      case 2
      then have "all_digits x" using a by (auto simp: is_ipv4_def Let_def list_all_iff ipv4_field_def)
      then show ?thesis using 2(2)
        by (auto simp: all_digits_def list_all_iff dec_byte_def domain_char_def ascii_alnum_def less_eq_char_def split: if_splits)
    qed (simp add: domain_char_def)
  qed
  then show ?thesis by (simp add: list_all_iff)
qed

lemma domain_text_chars: "validCookieDomain (ck_Domain c) \<Longrightarrow> list_all domain_char (domain_text c)"
proof -
  assume "validCookieDomain (ck_Domain c)"
  then consider "isCookieDomainName (ck_Domain c)" | "is_ipv4 (ck_Domain c)" by (auto simp: validCookieDomain_def split: if_splits)
  then show ?thesis
  proof cases
    case 1
    then show ?thesis using domain_loop_chars by (auto simp: isCookieDomainName_def domain_text_def split: if_splits)
  next
    case 2
    then have "list_all domain_char (ck_Domain c)" by (rule ipv4_chars)
    then show ?thesis by (cases "ck_Domain c") (simp_all add: domain_text_def)
  qed
qed

lemma domain_char_plain: "domain_char c \<Longrightarrow> validCookieValueByte c \<and> \<not> ascii_space c"
  by (auto simp: domain_char_def validCookieValueByte_def ascii_alnum_def ascii_space_def)

lemma value_roundtrip: "parseCookieValue (sanitizeCookieValue v) True = (filter validCookieValueByte v, True)"
proof -
  let ?v = "filter validCookieValueByte v"
  have ok: "list_all validCookieValueByte ?v" by (simp add: list_all_iff)
  have "hd ?v \<noteq> CHR 0x22" if "?v \<noteq> []"
    using hd_in_set [OF that] by (auto simp: validCookieValueByte_def)
  then show ?thesis using ok by (auto simp: sanitizeCookieValue_def sanitize_filter parseCookieValue_def Let_def)
qed

lemma value_shape:
  shows "CHR '';'' \<notin> set (sanitizeCookieValue v)" "rtrim (sanitizeCookieValue v) = sanitizeCookieValue v"
proof -
  let ?v = "filter validCookieValueByte v"
  show "CHR '';'' \<notin> set (sanitizeCookieValue v)"
    by (auto simp: sanitizeCookieValue_def sanitize_filter Let_def validCookieValueByte_def)
  have "\<not> ascii_space c" if "CHR '' '' \<notin> set ?v" "c \<in> set ?v" for c
    using that by (auto simp: validCookieValueByte_def ascii_space_def)
  then show "rtrim (sanitizeCookieValue v) = sanitizeCookieValue v"
    using rtrim_plain [of ?v] rtrim_last [of "[CHR 0x22] @ ?v @ [CHR 0x22]"]
    by (auto simp: sanitizeCookieValue_def sanitize_filter Let_def list_all_iff ascii_space_def)
qed

lemma attr_texts_separator:
  assumes "validCookieExpires (ck_Expires c) \<longrightarrow> good_time T (ck_Expires c)" "a \<in> set (attr_texts T c)"
  shows "CHR '';'' \<notin> set a"
proof -
  have "CHR '';'' \<notin> set (sanitizeCookiePath p)" for p by (auto simp: sanitizeCookiePath_def sanitize_filter validCookiePathByte_def)
  moreover have "validCookieDomain (ck_Domain c) \<Longrightarrow> CHR '';'' \<notin> set (domain_text c)"
    using domain_text_chars [of c] by (auto simp: list_all_iff domain_char_def ascii_alnum_def)
  moreover have "good_time T t \<Longrightarrow> CHR '';'' \<notin> set (fs_timeFormat T t)" for t using value_byte_plain by (simp add: good_time_def)
  moreover have "CHR '';'' \<notin> set (fmt_nat n)" for n using value_byte_plain digits_value by blast
  ultimately show ?thesis using assms by (auto simp: attr_texts_def fmt_int_def split: if_splits)
qed

lemma split_attrs:
  assumes "CHR '';'' \<notin> set a" "\<And>x. x \<in> set as \<Longrightarrow> CHR '';'' \<notin> set x"
  shows "map trim_string (split_byte (CHR '';'') (a @ concat (map (\<lambda>x. '';'' @ '' '' @ x) as))) = trim_string a # map trim_string as"
  using assms
proof (induction as arbitrary: a)
  case Nil
  then show ?case by (simp add: split_byte_no_sep_id)
next
  case (Cons x as)
  have "a @ concat (map (\<lambda>x. '';'' @ '' '' @ x) (x # as)) = a @ CHR '';'' # (CHR '' '' # x) @ concat (map (\<lambda>x. '';'' @ '' '' @ x) as)" by simp
  moreover have "map trim_string (split_byte (CHR '';'') ((CHR '' '' # x) @ concat (map (\<lambda>x. '';'' @ '' '' @ x) as))) =
      trim_string (CHR '' '' # x) # map trim_string as"
    by (rule Cons.IH) (use Cons.prems(2) in auto)
  moreover have "trim_string (CHR '' '' # x) = trim_string x" using trim_left_pad [of "'' ''" x] by (simp add: ascii_space_def)
  moreover have "split_byte (CHR '';'') (a @ CHR '';'' # y) = a # split_byte (CHR '';'') y" for y
    using Cons.prems(1) by (rule split_byte_append_sep)
  ultimately show ?case by (simp only: list.map)
qed

lemma cookie_attrs_texts:
  assumes "validCookieExpires (ck_Expires c) \<longrightarrow> good_time T (ck_Expires c)" "ck_MaxAge c < 2 ^ 63"
  shows "cookie_attrs T (attr_texts T c) ((new_Cookie (ck_Name c) (filter validCookieValueByte (ck_Value c)))\<lparr>ck_Raw := Cookie_String L T c\<rparr>) = received L T c"
proof -
  have dom: "cookie_attrs T [''Domain='' @ domain_text c] x = x\<lparr>ck_Domain := domain_text c\<rparr>" if "validCookieDomain (ck_Domain c)" for x
  proof (rule domain_attr)
    show "list_all validCookieValueByte (domain_text c)" "rtrim (domain_text c) = domain_text c"
      using domain_text_chars [OF that] domain_char_plain by (auto simp: list_all_iff intro!: rtrim_plain)
  qed
  have path: "sanitizeCookiePath (ck_Path c) = filter validCookiePathByte (ck_Path c)" by (simp add: sanitizeCookiePath_def sanitize_filter)
  have empty: "ck_Path c = [] \<Longrightarrow> sent_path c = []" by (simp add: sent_path_def rtrim_def)
  let ?readable = "list_all validCookieValueByte (sent_path c)"
  have s1: "cookie_attrs T (if ck_Path c \<noteq> [] then [''Path='' @ filter validCookiePathByte (ck_Path c)] else []) x =
      (if ck_Path c = [] then x else if ?readable then x\<lparr>ck_Path := sent_path c\<rparr> else unparsed (''Path='' @ sent_path c) x)" for x
    using path_attr [of T "filter validCookiePathByte (ck_Path c)" x] by (simp add: sent_path_def)
  have s2: "cookie_attrs T (if ck_Domain c \<noteq> [] \<and> validCookieDomain (ck_Domain c) then [''Domain='' @ domain_text c] else []) x =
      (if ck_Domain c \<noteq> [] \<and> validCookieDomain (ck_Domain c) then x\<lparr>ck_Domain := domain_text c\<rparr> else x)" for x
    using dom [of x] by simp
  have s3: "cookie_attrs T (if validCookieExpires (ck_Expires c) then [''Expires='' @ fs_timeFormat T (ck_Expires c)] else []) x =
      (if validCookieExpires (ck_Expires c) then x\<lparr>ck_RawExpires := fs_timeFormat T (ck_Expires c), ck_Expires := truncate_second (ck_Expires c)\<rparr> else x)" for x
    using expires_attr [of T "ck_Expires c" x] assms(1) by simp
  have s4: "cookie_attrs T (if ck_MaxAge c > 0 then [''Max-Age='' @ fmt_int (ck_MaxAge c)] else if ck_MaxAge c < 0 then [''Max-Age=0''] else []) x =
      (if ck_MaxAge c > 0 then x\<lparr>ck_MaxAge := ck_MaxAge c\<rparr> else if ck_MaxAge c < 0 then x\<lparr>ck_MaxAge := - 1\<rparr> else x)" for x
    using max_age_attr [of "ck_MaxAge c" T x] max_age_zero [of T x] assms(2) by simp
  have s5: "cookie_attrs T (if ck_HttpOnly c then [''HttpOnly''] else []) x = (if ck_HttpOnly c then x\<lparr>ck_HttpOnly := True\<rparr> else x)"
    "cookie_attrs T (if ck_Secure c then [''Secure''] else []) x = (if ck_Secure c then x\<lparr>ck_Secure := True\<rparr> else x)" for x
    using flag_attrs(1,2) [of T x] by simp_all
  have s6: "cookie_attrs T (if ck_SameSite c = SameSiteNoneMode then [''SameSite=None''] else if ck_SameSite c = SameSiteLaxMode then [''SameSite=Lax'']
        else if ck_SameSite c = SameSiteStrictMode then [''SameSite=Strict''] else []) x =
      (if ck_SameSite c \<in> {SameSiteLaxMode, SameSiteStrictMode, SameSiteNoneMode} then x\<lparr>ck_SameSite := ck_SameSite c\<rparr> else x)" for x
    using flag_attrs(3-5) [of T x] by simp
  show ?thesis
    unfolding attr_texts_def path cookie_attrs_append s1 s2 s3 s4 s5 s6
    by (rule Cookie.equality) (use empty in \<open>simp_all add: received_def new_Cookie_def unparsed_def Let_def\<close>)
qed

lemma read_set_cookie_String:
  assumes L: "token_table L" "isCookieNameValid L (ck_Name c)"
    and T: "validCookieExpires (ck_Expires c) \<longrightarrow> good_time T (ck_Expires c)" and m: "ck_MaxAge c < 2 ^ 63"
  shows "read_set_cookie L T (Cookie_String L T c) = Some (received L T c)"
proof -
  note name = cookie_name_plain [OF L]
  let ?v = "sanitizeCookieValue (ck_Value c)" and ?line = "Cookie_String L T c"
  let ?nv = "ck_Name c @ ''='' @ ?v"
  obtain x n' where n: "ck_Name c = x # n'" "\<not> ascii_space x" using name(1,4) by (cases "ck_Name c") auto
  have line: "?line = ?nv @ concat (map (\<lambda>a. '';'' @ '' '' @ a) (attr_texts T c))" by (rule Cookie_String_texts [OF L(2)])
  have semi: "CHR '';'' \<notin> set ?nv" using name(3) value_shape(1) by auto
  have "trim_string ?nv = ?nv"
    using trim_attr [OF name(1), of ?v] n value_shape(2) [of "ck_Value c"] by simp
  then have parts: "map trim_string (split_byte (CHR '';'') ?line) = ?nv # map trim_string (attr_texts T c)"
    unfolding line using split_attrs [OF semi attr_texts_separator [OF T]] by simp
  obtain y where y: "?line = x # y" using line n(1) by simp
  have tl: "trim_string ?line = rtrim ?line"
    using trim_visible [OF n(2), of y] rtrim_visible [OF n(2), of "[]" y] y by simp
  obtain p ps where P: "split_byte (CHR '';'') (trim_string ?line) = p # ps" by (cases "split_byte (CHR '';'') (trim_string ?line)") simp_all
  have eq: "trim_string p = ?nv" "map trim_string ps = map trim_string (attr_texts T c)"
    using split_rtrim [of "CHR '';''" ?line] parts P tl by (simp_all add: ascii_space_def)
  then have "p \<noteq> []" using n(1) by auto
  moreover have "cut_byte ?nv (CHR ''='') = (ck_Name c, ?v, True)" using cut_key [OF name(2), of ?v] by simp
  moreover have "cookie_attrs T ps z = cookie_attrs T (attr_texts T c) z" for z
    using eq(2) by (metis cookie_attrs_trim)
  ultimately show ?thesis
    using P eq(1) trim_plain [OF name(4)] L(2) value_roundtrip [of "ck_Value c"] cookie_attrs_texts [OF T m, of L]
    by (simp add: read_set_cookie_def Let_def)
qed

lemma Set_Cookie_key: "CanonicalHeaderKey ''Set-Cookie'' = ''Set-Cookie''" "CanonicalHeaderKey ''Cookie'' = ''Cookie''"
  by code_simp+

text \<open>C27: \<open>Set-Cookie\<close> carries exactly the cookie. Whatever bytes the fields of a cookie with a valid name hold, the line that
  \<open>SetCookie\<close> adds is read back by \<open>readSetCookies\<close> as one cookie with the same name, the value and the path
  without the bytes that may not be sent, the domain if it is valid, and the same flags and times: no field
  can forge an attribute or another cookie.\<close>

theorem set_cookie_exact:
  assumes "token_table L" "isCookieNameValid L (ck_Name c)"
    "validCookieExpires (ck_Expires c) \<longrightarrow> good_time T (ck_Expires c)" "ck_MaxAge c < 2 ^ 63"
  shows "readSetCookies L T (SetCookie L T c h) = readSetCookies L T h @ [received L T c]"
proof -
  have "Cookie_String L T c \<noteq> []" using assms(2) by (auto simp: Cookie_String_def isCookieNameValid_def)
  then have "header_values (SetCookie L T c h) ''Set-Cookie'' = header_values h ''Set-Cookie'' @ [Cookie_String L T c]"
    by (simp add: SetCookie_def Header_Add_def Set_Cookie_key header_values_def update_conv')
  then show ?thesis using read_set_cookie_String [OF assms] by (simp add: readSetCookies_def map_filter_def)
qed

definition example_times :: fslib where
  "example_times = \<lparr>fs_timeParse = (\<lambda>layout t. if t = ''epoch'' then Some 0 else None), fs_timeFormat = (\<lambda>t. ''epoch''), fs_TypeByExtension = (\<lambda>e. [])\<rparr>"

definition hostile_cookie :: Cookie where
  "hostile_cookie = (new_Cookie ''a'' ''b; Secure'')\<lparr>ck_Path := ''/x; HttpOnly'', ck_Expires := 0\<rparr>"

lemma valid_cookie_received:
  assumes "Cookie_Valid L c = None"
  shows "ck_Value (received L T c) = ck_Value c"
    "ck_Domain c \<noteq> [] \<Longrightarrow> ck_Domain (received L T c) = domain_text c"
    "list_all validCookieValueByte (ck_Path c) \<Longrightarrow> rtrim (ck_Path c) = ck_Path c \<Longrightarrow> ck_Path (received L T c) = ck_Path c"
proof -
  have v: "list_all validCookieValueByte (ck_Value c)" "list_all validCookiePathByte (ck_Path c)"
    "ck_Domain c \<noteq> [] \<longrightarrow> validCookieDomain (ck_Domain c)"
    using assms by (auto simp: Cookie_Valid_def find_None_iff list_all_iff split: if_splits option.splits)
  then show "ck_Value (received L T c) = ck_Value c" "ck_Domain c \<noteq> [] \<Longrightarrow> ck_Domain (received L T c) = domain_text c"
    by (simp_all add: received_def Let_def list_all_iff filter_True)
  have "filter validCookiePathByte (ck_Path c) = ck_Path c" using v(2) by (simp add: list_all_iff filter_True)
  then show "list_all validCookieValueByte (ck_Path c) \<Longrightarrow> rtrim (ck_Path c) = ck_Path c \<Longrightarrow> ck_Path (received L T c) = ck_Path c"
    by (simp add: received_def sent_path_def Let_def)
qed

text \<open>
  A quote is allowed in a path by \<open>Valid\<close> and sent by \<open>String\<close>, but the reader refuses it: the cookie loses its path.
\<close>

definition quoted_path :: Cookie where
  "quoted_path = (new_Cookie ''a'' ''b'')\<lparr>ck_Path := [CHR ''/'', CHR 0x22]\<rparr>"

lemma quoted_path_lost: "Cookie_Valid example_lib quoted_path = None" "ck_Path (received example_lib T quoted_path) = []"
  by (simp_all add: quoted_path_def new_Cookie_def received_def sent_path_def rtrim_def ascii_space_def validCookiePathByte_def validCookieValueByte_def
      Cookie_Valid_def isCookieNameValid_def isNotToken_def decode_rune_def example_lib_def ascii_alnum_def)

theorem set_cookie_exact_witness:
  "readSetCookies example_lib example_times (SetCookie example_lib example_times hostile_cookie []) =
     [received example_lib example_times hostile_cookie] \<and>
   ck_Value (received example_lib example_times hostile_cookie) = ''b Secure'' \<and> \<not> ck_Secure (received example_lib example_times hostile_cookie)"
proof -
  have "readSetCookies example_lib example_times (SetCookie example_lib example_times hostile_cookie []) =
      readSetCookies example_lib example_times [] @ [received example_lib example_times hostile_cookie]"
  proof (rule set_cookie_exact)
    show "token_table example_lib" by (simp add: token_table_def example_lib_def ascii_alnum_def)
    show "isCookieNameValid example_lib (ck_Name hostile_cookie)"
      by (simp add: hostile_cookie_def new_Cookie_def isCookieNameValid_def isNotToken_def decode_rune_def example_lib_def ascii_alnum_def)
    show "validCookieExpires (ck_Expires hostile_cookie) \<longrightarrow> good_time example_times (ck_Expires hostile_cookie)"
      by (simp add: hostile_cookie_def good_time_def example_times_def truncate_second_def validCookieValueByte_def ascii_space_def)
    show "ck_MaxAge hostile_cookie < 2 ^ 63" by (simp add: hostile_cookie_def new_Cookie_def)
  qed
  then show ?thesis
    by (simp add: readSetCookies_def header_values_def map_filter_simps received_def Let_def hostile_cookie_def new_Cookie_def validCookieValueByte_def)
qed

subsection \<open>The cookies of a request\<close>

definition cookie_pair :: "Cookie \<Rightarrow> string" where
  "cookie_pair c = ck_Name c @ CHR ''='' # sanitizeCookieValue (ck_Value c)"

fun cookie_line :: "Cookie list \<Rightarrow> string" where
  "cookie_line [] = []"
| "cookie_line (c # cs) = cookie_pair c @ concat (map (\<lambda>x. CHR '';'' # CHR '' '' # cookie_pair x) cs)"

lemma cookie_line_snoc: "cookie_line (cs @ [c]) = (if cs = [] then cookie_pair c else cookie_line cs @ ''; '' @ cookie_pair c)"
  by (cases cs) simp_all

lemma cookie_line_Nil: "cookie_line cs = [] \<longleftrightarrow> cs = []"
  by (cases cs) (simp_all add: cookie_pair_def)

lemma sanitize_name: "token_table L \<Longrightarrow> isCookieNameValid L n \<Longrightarrow> sanitizeCookieName n = n"
proof -
  assume "token_table L" "isCookieNameValid L n"
  from cookie_name_plain(4) [OF this] have "\<forall>x \<in> set n. \<not> ascii_space x" by (simp add: list_all_iff)
  then show ?thesis unfolding sanitizeCookieName_def by (intro map_idI) (auto simp: ascii_space_def)
qed

lemma AddCookie_line:
  assumes "token_table L" "list_all (\<lambda>c. isCookieNameValid L (ck_Name c)) cs" "header_values h ''Cookie'' = []"
  shows "header_values (fold AddCookie cs h) ''Cookie'' = (if cs = [] then [] else [cookie_line cs])"
  using assms(2)
proof (induction cs rule: rev_induct)
  case (snoc c cs)
  have c: "sanitizeCookieName (ck_Name c) = ck_Name c" using sanitize_name [OF assms(1)] snoc.prems by simp
  define h' where "h' = fold AddCookie cs h"
  have "Header_Get h' ''Cookie'' = cookie_line cs"
    using snoc by (simp add: h'_def Header_Get_def header_get_def Set_Cookie_key)
  then have "header_values (AddCookie c h') ''Cookie'' = [cookie_line (cs @ [c])]"
    by (simp add: AddCookie_def c Let_def Header_Set_def Set_Cookie_key header_values_def update_conv' cookie_line_snoc cookie_line_Nil cookie_pair_def)
  then show ?case by (simp add: h'_def)
qed (simp add: assms(3))

lemma cookie_pair_plain:
  assumes "token_table L" "isCookieNameValid L (ck_Name c)"
  shows "CHR '';'' \<notin> set (cookie_pair c)" "cookie_pair c \<noteq> []" "trim_string (cookie_pair c) = cookie_pair c"
    "cut_byte (cookie_pair c) (CHR ''='') = (ck_Name c, sanitizeCookieValue (ck_Value c), True)"
proof -
  note name = cookie_name_plain [OF assms]
  show "CHR '';'' \<notin> set (cookie_pair c)" "cookie_pair c \<noteq> []" using name(3) value_shape(1) by (auto simp: cookie_pair_def)
  have "\<not> ascii_space (hd (ck_Name c))" using name(1,4) by (cases "ck_Name c") simp_all
  from trim_attr [OF name(1) this] show "trim_string (cookie_pair c) = cookie_pair c" by (simp add: cookie_pair_def value_shape(2))
  show "cut_byte (cookie_pair c) (CHR ''='') = (ck_Name c, sanitizeCookieValue (ck_Value c), True)"
    unfolding cookie_pair_def by (rule cut_key [OF name(2)])
qed

definition plain_cookie :: "Cookie \<Rightarrow> Cookie" where
  "plain_cookie c = new_Cookie (ck_Name c) (filter validCookieValueByte (ck_Value c))"

lemma read_cookie_line_pairs:
  assumes "token_table L" "list_all (\<lambda>c. isCookieNameValid L (ck_Name c)) (c # cs)" "list_all ascii_space p"
  shows "read_cookie_line L f (p @ cookie_line (c # cs)) = map plain_cookie (filter (\<lambda>c. f = [] \<or> f = ck_Name c) (c # cs))"
  using assms(2,3)
proof (induction cs arbitrary: c p)
  case Nil
  note pair = cookie_pair_plain [OF assms(1), of c]
  have "CHR '';'' \<notin> set (p @ cookie_pair c)" using pair(1) Nil by (auto simp: list_all_iff ascii_space_def)
  then have "cut_byte (p @ cookie_pair c) (CHR '';'') = (p @ cookie_pair c, [], False)" by (rule cut_byte_not_found)
  then show ?case using pair Nil trim_left_pad [OF Nil(2), of "cookie_pair c"] trim_plain [OF cookie_name_plain(4) [OF assms(1)]]
    by (subst read_cookie_line.simps, subst read_cookie_line.simps) (auto simp: Let_def value_roundtrip plain_cookie_def)
next
  case (Cons d cs)
  note pair = cookie_pair_plain [OF assms(1), of c]
  let ?rest = "'' '' @ cookie_line (d # cs)"
  have "CHR '';'' \<notin> set (p @ cookie_pair c)" using pair(1) Cons.prems by (auto simp: list_all_iff ascii_space_def)
  from cut_byte_found [OF this, of ?rest]
  have "cut_byte (p @ cookie_line (c # d # cs)) (CHR '';'') = (p @ cookie_pair c, ?rest, True)" by simp
  moreover have "read_cookie_line L f ?rest = map plain_cookie (filter (\<lambda>c. f = [] \<or> f = ck_Name c) (d # cs))"
    using Cons.IH [of d "'' ''"] Cons.prems by (simp add: ascii_space_def)
  ultimately show ?case using pair Cons.prems trim_left_pad [OF Cons.prems(2), of "cookie_pair c"] trim_plain [OF cookie_name_plain(4) [OF assms(1)]]
    by (subst read_cookie_line.simps) (auto simp: Let_def value_roundtrip plain_cookie_def cookie_line_Nil simp del: cookie_line.simps)
qed

lemma cookie_line_trim:
  assumes "token_table L" "list_all (\<lambda>c. isCookieNameValid L (ck_Name c)) cs"
  shows "trim_string (cookie_line cs) = cookie_line cs"
proof (cases cs rule: rev_cases)
  case (snoc cs' c)
  have v: "rtrim (sanitizeCookieValue (ck_Value c)) = sanitizeCookieValue (ck_Value c)" by (rule value_shape(2))
  define s where "s = (if cs' = [] then ck_Name c else cookie_line cs' @ ''; '' @ ck_Name c)"
  have s: "cookie_line cs = s @ CHR ''='' # sanitizeCookieValue (ck_Value c)"
    using snoc by (simp add: s_def cookie_line_snoc cookie_pair_def)
  obtain x t where x: "cookie_line cs = x # t" "\<not> ascii_space x"
  proof -
    obtain d ds where d: "cs = d # ds" using snoc by (cases cs') auto
    then obtain y n where "ck_Name d = y # n" "\<not> ascii_space y"
      using cookie_name_plain(1,4) [OF assms(1), of "ck_Name d"] assms(2) by (cases "ck_Name d") auto
    then show ?thesis using that d by (simp add: cookie_pair_def)
  qed
  have "rtrim (cookie_line cs) = cookie_line cs" unfolding s using v rtrim_visible [of "CHR ''=''" s] by (simp add: ascii_space_def)
  then show ?thesis using trim_visible [OF x(2), of t] rtrim_visible [OF x(2), of "[]" t] x(1) by simp
qed (simp add: trim_string_def)

text \<open>C28: The cookies a client adds to a request are the cookies the server reads. After \<open>AddCookie\<close> for any sequence of cookies with
  valid names, \<open>readCookies\<close> returns exactly these, in this order, with the bytes removed that a value may
  not hold, and with a name given exactly those of this name.\<close>

theorem request_cookies_roundtrip:
  assumes "token_table L" "list_all (\<lambda>c. isCookieNameValid L (ck_Name c)) cs" "header_values h ''Cookie'' = []"
  shows "readCookies L name (fold AddCookie cs h) = map plain_cookie (filter (\<lambda>c. name = [] \<or> name = ck_Name c) cs)"
proof (cases cs)
  case (Cons c cs')
  have "readCookies L name (fold AddCookie cs h) = read_cookie_line L name (cookie_line cs)"
    using AddCookie_line [OF assms] Cons cookie_line_trim [OF assms(1,2)] by (simp add: readCookies_def del: cookie_line.simps)
  then show ?thesis using read_cookie_line_pairs [OF assms(1), of c cs' "[]" name] assms(2) Cons by (simp del: cookie_line.simps)
qed (simp add: readCookies_def assms(3))

theorem request_cookies_roundtrip_witness:
  "readCookies example_lib [] (fold AddCookie [new_Cookie ''a'' ''1'', new_Cookie ''b'' ''x;y'', new_Cookie ''a'' ''2, 3''] []) =
     [new_Cookie ''a'' ''1'', new_Cookie ''b'' ''xy'', new_Cookie ''a'' ''2, 3'']"
proof -
  have "token_table example_lib" by (simp add: token_table_def example_lib_def ascii_alnum_def)
  from request_cookies_roundtrip [OF this, of "[new_Cookie ''a'' ''1'', new_Cookie ''b'' ''x;y'', new_Cookie ''a'' ''2, 3'']" "[]" "[]"]
  show ?thesis
    by (simp add: new_Cookie_def plain_cookie_def isCookieNameValid_def isNotToken_def decode_rune_def example_lib_def ascii_alnum_def
        header_values_def validCookieValueByte_def)
qed

end
