(* ===== verification/Client.thy ===== *)
theory Client
  imports Url Cookie
begin

section \<open>The client (client.go)\<close>

text \<open>
  \<open>Client.do\<close> with its redirects: \<open>send\<close>, \<open>Client.send\<close>, \<open>redirectBehavior\<close>, \<open>makeHeadersCopier\<close>, \<open>refererForURL\<close> and
  \<open>shouldCopyHeaderOnRedirect\<close>. What is outside this code is the record \<open>client_env\<close>: the \<open>RoundTripper\<close>, the
  \<open>CookieJar\<close> and the \<open>CheckRedirect\<close> function of the client, parsing and resolving of URLs, IDNA, and what reading and closing bodies does. All of
  them act on a world \<open>'w\<close>. A body is given by its bytes; \<open>None\<close> is \<open>nil\<close> or \<open>NoBody\<close>. The client has no
  timeout, so that no timer cancels a request. \<open>GetBody\<close> answers the same on every call.
\<close>

record cl_resp =
  cp_StatusCode :: int
  cp_Header :: Header
  cp_Body :: "string option"
  cp_ContentLength :: int
  cp_Request :: "URL option"

record cl_req =
  cq_Method :: string
  cq_URL :: "URL option"
  cq_Header :: "Header option"
  cq_Body :: "string option"
  cq_GetBody :: "(string + string option) option"
  cq_ContentLength :: int
  cq_Host :: string
  cq_RequestURI :: string
  cq_Response :: "cl_resp option"

datatype rt_error = TLSRecordHeader string | RTError string

datatype cl_err =
  NoTransport | NilURL | RequestURISet | ErrSchemeMismatch | RoundTripError rt_error | NilResponse | NilResponseBody int |
  BadLocation string string | GetBodyError string | TooManyRedirects | ErrUseLastResponse | PolicyError string

record url_error =
  ue_Op :: string
  ue_URL :: string
  ue_Err :: cl_err

record 'w cookie_jar =
  cj_Cookies :: "URL \<Rightarrow> 'w \<Rightarrow> Cookie list \<times> 'w"
  cj_SetCookies :: "URL \<Rightarrow> Cookie list \<Rightarrow> 'w \<Rightarrow> 'w"

record 'w client_env =
  ce_lib :: golib
  ce_times :: fslib
  ce_idna :: "string \<Rightarrow> string option"
  ce_Parse :: "string \<Rightarrow> string + URL"
  ce_Resolve :: "URL \<Rightarrow> URL \<Rightarrow> URL"
  ce_RoundTrip :: "(cl_req \<Rightarrow> 'w \<Rightarrow> (rt_error + cl_resp option) \<times> 'w) option"
  ce_CheckRedirect :: "(cl_req \<Rightarrow> cl_req list \<Rightarrow> 'w \<Rightarrow> cl_err option \<times> cl_req \<times> 'w) option"
  ce_Jar :: "'w cookie_jar option"
  ce_closeReq :: "cl_req \<Rightarrow> 'w \<Rightarrow> 'w"
  ce_slurp :: "cl_resp \<Rightarrow> 'w \<Rightarrow> 'w"
  ce_closeResp :: "cl_resp \<Rightarrow> 'w \<Rightarrow> 'w"

definition closeBody :: "'w client_env \<Rightarrow> cl_req \<Rightarrow> 'w \<Rightarrow> 'w" where
  "closeBody E r w = (case cq_Body r of None \<Rightarrow> w | Some b \<Rightarrow> ce_closeReq E r w)"

definition request_outgoingLength :: "cl_req \<Rightarrow> int" where
  "request_outgoingLength r =
     (if cq_Body r = None then 0 else if cq_ContentLength r \<noteq> 0 then cq_ContentLength r else - 1)"

definition request_header :: "cl_req \<Rightarrow> Header" where
  "request_header r = (case cq_Header r of None \<Rightarrow> [] | Some h \<Rightarrow> h)"

definition request_URL :: "cl_req \<Rightarrow> URL" where
  "request_URL r = the (cq_URL r)"

subsection \<open>Sending one request\<close>

text \<open>\<open>base64.StdEncoding.EncodeToString\<close>.\<close>

definition base64_char :: "nat \<Rightarrow> char" where
  "base64_char n = ''ABCDEFGHIJKLMNOPQRSTUVWXYZabcdefghijklmnopqrstuvwxyz0123456789+/'' ! (n mod 64)"

fun base64 :: "nat list \<Rightarrow> string" where
  "base64 [] = []"
| "base64 [a] = [base64_char (a div 4), base64_char (a * 16), CHR ''='', CHR ''='']"
| "base64 [a, b] = [base64_char (a div 4), base64_char (a * 16 + b div 16), base64_char (b * 4), CHR ''='']"
| "base64 (a # b # c # s) =
     base64_char (a div 4) # base64_char (a * 16 + b div 16) # base64_char (b * 4 + c div 64) # base64_char c # base64 s"

definition basicAuth :: "string \<Rightarrow> string \<Rightarrow> string" where
  "basicAuth username password = base64 (map byte_val (username @ '':'' @ password))"

text \<open>The part of \<open>send\<close> that prepares the header.\<close>

definition prepare_header :: "URL \<Rightarrow> cl_req \<Rightarrow> cl_req" where
  "prepare_header u ireq =
     (let req = (if cq_Header ireq = None then ireq\<lparr>cq_Header := Some []\<rparr> else ireq) in
      case u_User u of
        Some (username, password) \<Rightarrow>
          if Header_Get (request_header req) ''Authorization'' = []
          then req\<lparr>cq_Header := Some (Header_Set ''Authorization''
                 (''Basic '' @ basicAuth username (case password of None \<Rightarrow> [] | Some p \<Rightarrow> p)) (request_header ireq))\<rparr>
          else req
      | None \<Rightarrow> req)"

definition round_trip_error :: "rt_error \<Rightarrow> cl_err" where
  "round_trip_error e =
     (case e of TLSRecordHeader h \<Rightarrow> if h = ''HTTP/'' then ErrSchemeMismatch else RoundTripError e | _ \<Rightarrow> RoundTripError e)"

definition send_request :: "'w client_env \<Rightarrow> cl_req \<Rightarrow> 'w \<Rightarrow> (cl_err + cl_resp) \<times> 'w" where
  "send_request E ireq w =
     (case ce_RoundTrip E of
        None \<Rightarrow> (Inl NoTransport, closeBody E ireq w)
      | Some rt \<Rightarrow>
          (case cq_URL ireq of
             None \<Rightarrow> (Inl NilURL, closeBody E ireq w)
           | Some u \<Rightarrow>
               if cq_RequestURI ireq \<noteq> [] then (Inl RequestURISet, closeBody E ireq w)
               else
                 (let req = prepare_header u ireq in
                  case rt req w of
                    (Inl e, w1) \<Rightarrow> (Inl (round_trip_error e), w1)
                  | (Inr None, w1) \<Rightarrow> (Inl NilResponse, w1)
                  | (Inr (Some resp), w1) \<Rightarrow>
                      (if cp_Body resp \<noteq> None then Inr resp
                       else if cp_ContentLength resp > 0 \<and> cq_Method req \<noteq> ''HEAD''
                       then Inl (NilResponseBody (cp_ContentLength resp))
                       else Inr (resp\<lparr>cp_Body := Some []\<rparr>), w1))))"

text \<open>\<open>AddCookie\<close> writes to the map \<open>req.Header\<close>.\<close>

fun add_cookies :: "Cookie list \<Rightarrow> cl_req \<Rightarrow> cl_req go" where
  "add_cookies [] req = Ret req"
| "add_cookies (c # cs) req =
     (case cq_Header req of
        None \<Rightarrow> Panic ''assignment to entry in nil map''
      | Some h \<Rightarrow> add_cookies cs (req\<lparr>cq_Header := Some (AddCookie c h)\<rparr>))"

text \<open>\<open>Client.send\<close>; the request is returned as the cookies have changed it.\<close>

definition client_send :: "'w client_env \<Rightarrow> cl_req \<Rightarrow> 'w \<Rightarrow> (cl_req \<times> (cl_err + cl_resp)) go \<times> 'w" where
  "client_send E req w =
     (case ce_Jar E of
        None \<Rightarrow> (case send_request E req w of (r, w1) \<Rightarrow> (Ret (req, r), w1))
      | Some jar \<Rightarrow>
          (case cj_Cookies jar (request_URL req) w of
             (cookies, w1) \<Rightarrow>
               (case add_cookies cookies req of
                  Panic m \<Rightarrow> (Panic m, w1)
                | Ret req1 \<Rightarrow>
                    (case send_request E req1 w1 of
                       (Inl e, w2) \<Rightarrow> (Ret (req1, Inl e), w2)
                     | (Inr resp, w2) \<Rightarrow>
                         (let rc = readSetCookies (ce_lib E) (ce_times E) (cp_Header resp)
                          in (Ret (req1, Inr resp),
                              if rc \<noteq> [] then cj_SetCookies jar (request_URL req) rc w2 else w2))))))"

subsection \<open>Redirects\<close>

definition redirectBehavior :: "string \<Rightarrow> cl_resp \<Rightarrow> cl_req \<Rightarrow> string \<times> bool \<times> bool" where
  "redirectBehavior reqMethod resp ireq =
     (if cp_StatusCode resp \<in> {301, 302, 303}
      then (if reqMethod \<noteq> ''GET'' \<and> reqMethod \<noteq> ''HEAD'' then ''GET'' else reqMethod, True, False)
      else if cp_StatusCode resp \<in> {307, 308}
      then (reqMethod, \<not> (cq_GetBody ireq = None \<and> request_outgoingLength ireq \<noteq> 0), True)
      else ([], False, False))"

definition urlErrorOp :: "string \<Rightarrow> string" where
  "urlErrorOp meth =
     (if meth = [] then ''Get''
      else (case ascii_ToLower meth of (lowerMethod, ok) \<Rightarrow> if ok then take 1 meth @ drop 1 lowerMethod else meth))"

definition stripPassword :: "URL \<Rightarrow> string" where
  "stripPassword u =
     (case u_User u of
        Some (name, Some p) \<Rightarrow> replace_first (url_String u) (Userinfo_String (name, Some p) @ ''@'') (name @ '':***@'')
      | _ \<Rightarrow> url_String u)"

definition refererForURL :: "URL \<Rightarrow> URL \<Rightarrow> string \<Rightarrow> string" where
  "refererForURL lastReq newReq explicitRef =
     (if u_Scheme lastReq = ''https'' \<and> u_Scheme newReq = ''http'' then []
      else if explicitRef \<noteq> [] then explicitRef
      else
        (case u_User lastReq of
           Some ui \<Rightarrow> replace_first (url_String lastReq) (Userinfo_String ui @ ''@'') []
         | None \<Rightarrow> url_String lastReq))"

definition isDomainOrSubdomain :: "string \<Rightarrow> string \<Rightarrow> bool" where
  "isDomainOrSubdomain sub parent =
     (if sub = parent then True
      else if CHR '':'' \<in> set sub \<or> CHR ''%'' \<in> set sub then False
      else if \<not> has_suffix sub parent then False
      else sub ! (length sub - length parent - 1) = CHR ''.'')"

definition sensitive_header :: "string \<Rightarrow> bool" where
  "sensitive_header k =
     (CanonicalHeaderKey k \<in> {''Authorization'', ''Www-Authenticate'', ''Cookie'', ''Cookie2''})"

definition shouldCopyHeaderOnRedirect :: "(string \<Rightarrow> string option) \<Rightarrow> string \<Rightarrow> URL \<Rightarrow> URL \<Rightarrow> bool" where
  "shouldCopyHeaderOnRedirect idna headerKey initial dest =
     (if sensitive_header headerKey
      then isDomainOrSubdomain (idnaASCIIFromURL idna dest) (idnaASCIIFromURL idna initial)
      else True)"

definition defaultCheckRedirect :: "cl_req list \<Rightarrow> cl_err option" where
  "defaultCheckRedirect via = (if length via \<ge> 10 then Some TooManyRedirects else None)"

definition checkRedirect :: "'w client_env \<Rightarrow> cl_req \<Rightarrow> cl_req list \<Rightarrow> 'w \<Rightarrow> cl_err option \<times> cl_req \<times> 'w" where
  "checkRedirect E req via w =
     (case ce_CheckRedirect E of None \<Rightarrow> (defaultCheckRedirect via, req, w) | Some f \<Rightarrow> f req via w)"

text \<open>The variables of \<open>makeHeadersCopier\<close>: the initial header, the cookies in it by name, and the previous request.\<close>

record copier =
  hc_ireqhdr :: Header
  hc_icookies :: "(string \<times> Cookie list) list option"
  hc_preq :: cl_req

definition group_cookies :: "Cookie list \<Rightarrow> (string \<times> Cookie list) list" where
  "group_cookies cs =
     fold (\<lambda>c m. AList.update (ck_Name c) ((case map_of m (ck_Name c) of None \<Rightarrow> [] | Some l \<Rightarrow> l) @ [c]) m) cs []"

definition makeHeadersCopier :: "'w client_env \<Rightarrow> cl_req \<Rightarrow> copier" where
  "makeHeadersCopier E ireq =
     \<lparr>hc_ireqhdr = request_header ireq,
      hc_icookies = (if ce_Jar E \<noteq> None \<and> Header_Get (request_header ireq) ''Cookie'' \<noteq> []
                     then Some (group_cookies (readCookies (ce_lib E) [] (request_header ireq))) else None),
      hc_preq = ireq\<rparr>"

fun join_semi :: "string list \<Rightarrow> string" where
  "join_semi [] = []"
| "join_semi [s] = s"
| "join_semi (s # t # ss) = s @ ''; '' @ join_semi (t # ss)"

definition cookies_header :: "(string \<times> Cookie list) list \<Rightarrow> string" where
  "cookies_header m =
     join_semi (sort_key (map byte_val) (concat (map (\<lambda>(k, cs). map (\<lambda>c. ck_Name c @ ''='' @ ck_Value c) cs) m)))"

text \<open>The initial header after the cookies that the last response has set were taken out.\<close>

definition update_cookies :: "'w client_env \<Rightarrow> cl_req \<Rightarrow> copier \<Rightarrow> copier" where
  "update_cookies E req cp =
     (case (ce_Jar E, hc_icookies cp) of
        (Some _, Some icookies) \<Rightarrow>
          (let names = (case cq_Response req of
                          None \<Rightarrow> [] | Some resp \<Rightarrow> map ck_Name (readSetCookies (ce_lib E) (ce_times E) (cp_Header resp)));
               left = [(k, cs) \<leftarrow> icookies. k \<notin> set names]
           in if left \<noteq> icookies
              then cp\<lparr>hc_icookies := Some left,
                      hc_ireqhdr := Header_Set ''Cookie'' (cookies_header left) (Header_Del ''Cookie'' (hc_ireqhdr cp))\<rparr>
              else cp)
      | _ \<Rightarrow> cp)"

definition copyHeaders :: "'w client_env \<Rightarrow> cl_req \<Rightarrow> copier \<Rightarrow> cl_req \<times> copier" where
  "copyHeaders E req cp0 =
     (let cp = update_cookies E req cp0;
          h = fold (\<lambda>(k, vv) h. if shouldCopyHeaderOnRedirect (ce_idna E) k (request_URL (hc_preq cp)) (request_URL req)
                                then AList.update k vv h else h) (hc_ireqhdr cp) (request_header req);
          req1 = req\<lparr>cq_Header := Some h\<rparr>
      in (req1, cp\<lparr>hc_preq := req1\<rparr>))"

subsection \<open>Do\<close>

record do_state =
  do_req :: cl_req
  do_reqs :: "cl_req list"
  do_copier :: copier
  do_method :: string
  do_includeBody :: bool

type_synonym do_result = "cl_resp option \<times> url_error option"

definition uerr :: "cl_resp option \<Rightarrow> cl_req \<Rightarrow> cl_req list \<Rightarrow> cl_err \<Rightarrow> url_error" where
  "uerr resp req reqs e =
     \<lparr>ue_Op = urlErrorOp (cq_Method (hd reqs)),
      ue_URL = (case resp of
                  Some r \<Rightarrow> (case cp_Request r of Some u \<Rightarrow> stripPassword u | None \<Rightarrow> stripPassword (request_URL req))
                | None \<Rightarrow> stripPassword (request_URL req)),
      ue_Err = e\<rparr>"

text \<open>The next hop: from the response \<open>resp\<close> to the request that follows it, or to the result of \<open>Do\<close>.\<close>

definition redirect_host :: "'w client_env \<Rightarrow> cl_req \<Rightarrow> string \<Rightarrow> string" where
  "redirect_host E req loc =
     (if cq_Host req \<noteq> [] \<and> cq_Host req \<noteq> u_Host (request_URL req)
      then (case ce_Parse E loc of Inr u \<Rightarrow> if u_Scheme u = [] then cq_Host req else [] | Inl _ \<Rightarrow> [])
      else [])"

definition new_request :: "do_state \<Rightarrow> URL \<Rightarrow> string \<Rightarrow> cl_resp \<Rightarrow> cl_req" where
  "new_request st u host resp =
     \<lparr>cq_Method = do_method st, cq_URL = Some u, cq_Header = Some [], cq_Body = None, cq_GetBody = None,
      cq_ContentLength = 0, cq_Host = host, cq_RequestURI = [], cq_Response = Some resp\<rparr>"

text \<open>The request with the body of the first one, if the redirect asks for it; \<open>GetBody\<close> may fail.\<close>

definition hop_request :: "do_state \<Rightarrow> URL \<Rightarrow> string \<Rightarrow> cl_resp \<Rightarrow> string + cl_req" where
  "hop_request st u host resp =
     (let ireq = hd (do_reqs st); req = new_request st u host resp in
      if do_includeBody st then
        (case cq_GetBody ireq of
           None \<Rightarrow> Inr req
         | Some (Inl e) \<Rightarrow> Inl e
         | Some (Inr b) \<Rightarrow> Inr (req\<lparr>cq_Body := b, cq_ContentLength := cq_ContentLength ireq\<rparr>))
      else Inr req)"

definition set_referer :: "URL \<Rightarrow> cl_req \<Rightarrow> cl_req" where
  "set_referer lastURL req =
     (let ref = refererForURL lastURL (request_URL req) (Header_Get (request_header req) ''Referer'')
      in if ref \<noteq> [] then req\<lparr>cq_Header := Some (Header_Set ''Referer'' ref (request_header req))\<rparr> else req)"

definition maxBodySlurpSize :: int where
  "maxBodySlurpSize = 2048"

definition finish_hop :: "'w client_env \<Rightarrow> do_state \<Rightarrow> cl_resp \<Rightarrow> string \<Rightarrow> cl_req \<Rightarrow> copier \<Rightarrow> 'w \<Rightarrow>
    (do_result + do_state) \<times> 'w" where
  "finish_hop E st resp loc req cp w =
     (case checkRedirect E req (do_reqs st) w of
        (err, req1, w1) \<Rightarrow>
          if err = Some ErrUseLastResponse then (Inl (Some resp, None), w1)
          else
            (let w2 = (if cp_ContentLength resp = - 1 \<or> cp_ContentLength resp \<le> maxBodySlurpSize
                       then ce_slurp E resp w1 else w1);
                 w3 = ce_closeResp E resp w2
             in case err of
                  Some e \<Rightarrow> (Inl (Some resp, Some ((uerr (Some resp) req1 (do_reqs st) e)\<lparr>ue_URL := loc\<rparr>)),
                             closeBody E req1 w3)
                | None \<Rightarrow> (Inr (st\<lparr>do_req := req1, do_copier := cp\<lparr>hc_preq := req1\<rparr>\<rparr>), w3)))"

definition next_hop :: "'w client_env \<Rightarrow> do_state \<Rightarrow> cl_resp \<Rightarrow> 'w \<Rightarrow> (do_result + do_state) \<times> 'w" where
  "next_hop E st resp w =
     (let loc = Header_Get (cp_Header resp) ''Location'' in
      if loc = [] then (Inl (Some resp, None), w)
      else
        (case ce_Parse E loc of
           Inl e \<Rightarrow> (Inl (None, Some (uerr (Some resp) (do_req st) (do_reqs st) (BadLocation loc e))),
                      closeBody E (do_req st) (ce_closeResp E resp w))
         | Inr ref \<Rightarrow>
             (let u = ce_Resolve E (request_URL (do_req st)) ref; host = redirect_host E (do_req st) loc
              in case hop_request st u host resp of
                   Inl e \<Rightarrow> (Inl (None, Some (uerr (Some resp) (new_request st u host resp) (do_reqs st) (GetBodyError e))),
                              ce_closeResp E resp w)
                 | Inr req \<Rightarrow>
                     (case copyHeaders E req (do_copier st) of
                        (req1, cp) \<Rightarrow>
                          finish_hop E st resp loc (set_referer (request_URL (last (do_reqs st))) req1) cp w))))"

text \<open>One round of the loop after the request was made: send it and decide how to go on.\<close>

definition send_hop :: "'w client_env \<Rightarrow> do_state \<Rightarrow> 'w \<Rightarrow> (do_result + do_state \<times> cl_resp) go \<times> 'w" where
  "send_hop E st w =
     (case client_send E (do_req st) w of
        (Panic m, w1) \<Rightarrow> (Panic m, w1)
      | (Ret (req, Inl e), w1) \<Rightarrow>
          (Ret (Inl (None, Some (uerr None req (do_reqs st @ [req]) e))), w1)
      | (Ret (req, Inr resp), w1) \<Rightarrow>
          (let reqs = do_reqs st @ [req] in
           case redirectBehavior (cq_Method req) resp (hd reqs) of
             (meth, shouldRedirect, includeBody) \<Rightarrow>
               if \<not> shouldRedirect then (Ret (Inl (Some resp, None)), w1)
               else (Ret (Inr (st\<lparr>do_req := req, do_reqs := reqs, do_method := meth, do_includeBody := includeBody\<rparr>, resp)),
                     closeBody E req w1)))"

partial_function (option) do_loop :: "'w client_env \<Rightarrow> do_state \<Rightarrow> 'w \<Rightarrow> (do_result go \<times> 'w) option" where
  "do_loop E st w =
     (case send_hop E st w of
        (Panic m, w1) \<Rightarrow> Some (Panic m, w1)
      | (Ret (Inl res), w1) \<Rightarrow> Some (Ret res, w1)
      | (Ret (Inr (st1, resp)), w1) \<Rightarrow>
          (case next_hop E st1 resp w1 of
             (Inl res, w2) \<Rightarrow> Some (Ret res, w2)
           | (Inr st2, w2) \<Rightarrow> do_loop E st2 w2))"

definition start_state :: "'w client_env \<Rightarrow> cl_req \<Rightarrow> do_state" where
  "start_state E req =
     \<lparr>do_req = req, do_reqs = [], do_copier = makeHeadersCopier E req, do_method = [], do_includeBody = False\<rparr>"

definition client_do :: "'w client_env \<Rightarrow> cl_req \<Rightarrow> 'w \<Rightarrow> (do_result go \<times> 'w) option" where
  "client_do E req w =
     (case cq_URL req of
        None \<Rightarrow> Some (Ret (None, Some \<lparr>ue_Op = urlErrorOp (cq_Method req), ue_URL = [], ue_Err = NilURL\<rparr>), closeBody E req w)
      | Some u \<Rightarrow> do_loop E (start_state E req) w)"

end
