(* ===== verification/Cookie_Jar.thy ===== *)
theory Cookie_Jar
  imports Punycode Client "HOL-Library.Product_Lexorder"
begin

section \<open>The cookie jar (cookiejar/jar.go)\<close>

text \<open>
  \<open>Jar\<close> with \<open>Cookies\<close> and \<open>SetCookies\<close>. The two levels of maps are association lists: the entries by the key of the host, and
  below it by the id of the cookie; the answers do not depend on their order. A time is an integer as in \<open>Preconditions\<close>, and durations are 64 bit
  wide. The public suffix list is an argument; the counter \<open>nextSeqNum\<close> is unbounded here, the code's would need
  \<open>2 ^ 64\<close> cookies to wrap. Each operation holds the mutex of the jar and is one step.
\<close>

record entry =
  je_Name :: string
  je_Value :: string
  je_Domain :: string
  je_Path :: string
  je_SameSite :: string
  je_Secure :: bool
  je_HttpOnly :: bool
  je_Persistent :: bool
  je_HostOnly :: bool
  je_Expires :: gotime
  je_Creation :: gotime
  je_LastAccess :: gotime
  je_seqNum :: int

type_synonym submap = "(string \<times> entry) list"

record Jar =
  jr_psList :: "(string \<Rightarrow> string) option"
  jr_entries :: "(string \<times> submap) list"
  jr_nextSeqNum :: int

definition jar_New :: "(string \<Rightarrow> string) option \<Rightarrow> Jar" where
  "jar_New psl = \<lparr>jr_psList = psl, jr_entries = [], jr_nextSeqNum = 0\<rparr>"

definition entry_id :: "entry \<Rightarrow> string" where
  "entry_id e = je_Domain e @ '';'' @ je_Path e @ '';'' @ je_Name e"

subsection \<open>Matching\<close>

definition hasDotSuffix :: "string \<Rightarrow> string \<Rightarrow> bool" where
  "hasDotSuffix s suf =
     (length s > length suf \<and> s ! (length s - length suf - 1) = CHR ''.'' \<and> drop (length s - length suf) s = suf)"

definition domainMatch :: "entry \<Rightarrow> string \<Rightarrow> bool" where
  "domainMatch e host = (if je_Domain e = host then True else \<not> je_HostOnly e \<and> hasDotSuffix host (je_Domain e))"

definition pathMatch :: "entry \<Rightarrow> string \<Rightarrow> bool" where
  "pathMatch e requestPath =
     (if requestPath = je_Path e then True
      else if has_prefix requestPath (je_Path e) then
        (if last (je_Path e) = CHR ''/'' then True else requestPath ! length (je_Path e) = CHR ''/'')
      else False)"

definition shouldSend :: "entry \<Rightarrow> bool \<Rightarrow> string \<Rightarrow> string \<Rightarrow> bool" where
  "shouldSend e https host path = (domainMatch e host \<and> pathMatch e path \<and> (https \<or> \<not> je_Secure e))"

subsection \<open>Hosts and paths\<close>

definition hasPort :: "string \<Rightarrow> bool" where
  "hasPort host =
     (let colons = count_list host (CHR '':'') in
      if colons = 0 then False
      else if colons = 1 then True
      else hd host = CHR ''['' \<and> sublist '']:'' host)"

definition trim_dot :: "string \<Rightarrow> string" where
  "trim_dot host = (if has_suffix host ''.'' then butlast host else host)"

definition canonicalHost :: "string \<Rightarrow> string option go" where
  "canonicalHost host0 =
     (case (if hasPort host0 then map_option fst (net_SplitHostPort host0) else Some host0) of
        None \<Rightarrow> Ret None
      | Some host \<Rightarrow>
          go_bind (toASCII (trim_dot host)) (\<lambda>r.
            Ret (case r of Inl e \<Rightarrow> None | Inr encoded \<Rightarrow> Some (fst (ascii_ToLower encoded)))))"

definition isIP :: "string \<Rightarrow> bool" where
  "isIP host = (if CHR '':'' \<in> set host \<or> CHR ''%'' \<in> set host then True else is_ipv4 host)"

text \<open>\<open>i\<close> is the start of the public suffix; the key is that suffix with one more label.\<close>

definition key_from :: "nat \<Rightarrow> string \<Rightarrow> string" where
  "key_from i host =
     (case last_index_byte (take (i - 1) host) (CHR ''.'') of None \<Rightarrow> host | Some prevDot \<Rightarrow> drop (Suc prevDot) host)"

definition jarKey :: "string \<Rightarrow> (string \<Rightarrow> string) option \<Rightarrow> string" where
  "jarKey host psl =
     (if isIP host then host
      else
        (case psl of
           None \<Rightarrow>
             (case last_index_byte host (CHR ''.'') of
                None \<Rightarrow> host
              | Some i \<Rightarrow> if i = 0 then host else key_from i host)
         | Some ps \<Rightarrow>
             (let suf = ps host; i = length host - length suf in
              if suf = host then host
              else if length host \<le> length suf \<or> host ! (i - 1) \<noteq> CHR ''.'' then host
              else key_from i host)))"

definition defaultPath :: "string \<Rightarrow> string" where
  "defaultPath path =
     (if path = [] \<or> hd path \<noteq> CHR ''/'' then ''/''
      else
        (case last_index_byte path (CHR ''/'') of
           None \<Rightarrow> take 0 path
         | Some i \<Rightarrow> if i = 0 then ''/'' else take i path))"

subsection \<open>New entries\<close>

datatype jar_error = errIllegalDomain | errMalformedDomain

definition endOfTime :: gotime where
  "endOfTime = 253402300799000000000"

text \<open>The part of \<open>domainAndType\<close> after the leading dot was cut off.\<close>

definition domain_cookie :: "(string \<Rightarrow> string) option \<Rightarrow> string \<Rightarrow> string \<Rightarrow> jar_error + string \<times> bool" where
  "domain_cookie psl host domain0 =
     (if domain0 = [] \<or> hd domain0 = CHR ''.'' then Inl errMalformedDomain
      else
        (case ascii_ToLower domain0 of
           (domain, isASCII) \<Rightarrow>
             if \<not> isASCII then Inl errMalformedDomain
             else if last domain = CHR ''.'' then Inl errMalformedDomain
             else if (case psl of None \<Rightarrow> False | Some ps \<Rightarrow> ps domain \<noteq> [] \<and> \<not> hasDotSuffix domain (ps domain))
             then (if host = domain then Inr (host, True) else Inl errIllegalDomain)
             else if host \<noteq> domain \<and> \<not> hasDotSuffix host domain then Inl errIllegalDomain
             else Inr (domain, False)))"

definition domainAndType :: "(string \<Rightarrow> string) option \<Rightarrow> string \<Rightarrow> string \<Rightarrow> jar_error + string \<times> bool" where
  "domainAndType psl host domain =
     (if domain = [] then Inr (host, True)
      else if isIP host then (if host \<noteq> domain then Inl errIllegalDomain else Inr (host, True))
      else domain_cookie psl host (if hd domain = CHR ''.'' then tl domain else domain))"

text \<open>\<open>Time.Add(Duration(MaxAge) * Second)\<close>; the product is an \<open>int64\<close>.\<close>

definition max_age_time :: "gotime \<Rightarrow> int \<Rightarrow> gotime" where
  "max_age_time now maxAge = now + int64 (maxAge * 1000000000)"

definition blank_entry :: "string \<Rightarrow> string \<Rightarrow> string \<Rightarrow> bool \<Rightarrow> entry" where
  "blank_entry name domain path hostOnly =
     \<lparr>je_Name = name, je_Value = [], je_Domain = domain, je_Path = path, je_SameSite = [], je_Secure = False, je_HttpOnly = False,
      je_Persistent = False, je_HostOnly = hostOnly, je_Expires = zero_time, je_Creation = zero_time, je_LastAccess = zero_time, je_seqNum = 0\<rparr>"

definition fill_entry :: "Cookie \<Rightarrow> gotime \<Rightarrow> bool \<Rightarrow> entry \<Rightarrow> entry" where
  "fill_entry c expires persistent e =
     e\<lparr>je_Expires := expires, je_Persistent := persistent, je_Value := ck_Value c, je_Secure := ck_Secure c, je_HttpOnly := ck_HttpOnly c,
       je_SameSite := (if ck_SameSite c = SameSiteDefaultMode then ''SameSite''
                       else if ck_SameSite c = SameSiteStrictMode then ''SameSite=Strict''
                       else if ck_SameSite c = SameSiteLaxMode then ''SameSite=Lax'' else [])\<rparr>"

definition newEntry :: "(string \<Rightarrow> string) option \<Rightarrow> Cookie \<Rightarrow> gotime \<Rightarrow> string \<Rightarrow> string \<Rightarrow> jar_error + entry \<times> bool" where
  "newEntry psl c now defPath host =
     (let path = (if ck_Path c = [] \<or> hd (ck_Path c) \<noteq> CHR ''/'' then defPath else ck_Path c) in
      case domainAndType psl host (ck_Domain c) of
        Inl err \<Rightarrow> Inl err
      | Inr (domain, hostOnly) \<Rightarrow>
          (let e = blank_entry (ck_Name c) domain path hostOnly in
           if ck_MaxAge c < 0 then Inr (e, True)
           else if ck_MaxAge c > 0 then Inr (fill_entry c (max_age_time now (ck_MaxAge c)) True e, False)
           else if ck_Expires c = zero_time then Inr (fill_entry c endOfTime False e, False)
           else if \<not> ck_Expires c > now then Inr (e, True)
           else Inr (fill_entry c (ck_Expires c) True e, False)))"

subsection \<open>SetCookies and Cookies\<close>

text \<open>The loop of \<open>setCookies\<close>: the submap (\<open>None\<close> for \<open>nil\<close>), the next sequence number and \<open>modified\<close>.\<close>

fun set_loop :: "(string \<Rightarrow> string) option \<Rightarrow> gotime \<Rightarrow> string \<Rightarrow> string \<Rightarrow> Cookie list \<Rightarrow>
    submap option \<times> int \<times> bool \<Rightarrow> submap option \<times> int \<times> bool" where
  "set_loop psl now defPath host [] st = st"
| "set_loop psl now defPath host (c # cs) (sub, seq, modified) =
     (case newEntry psl c now defPath host of
        Inl err \<Rightarrow> set_loop psl now defPath host cs (sub, seq, modified)
      | Inr (e, remove) \<Rightarrow>
          (let id = entry_id e in
           if remove then
             (case sub of
                None \<Rightarrow> set_loop psl now defPath host cs (sub, seq, modified)
              | Some m \<Rightarrow>
                  if map_of m id \<noteq> None then set_loop psl now defPath host cs (Some (AList.delete id m), seq, True)
                  else set_loop psl now defPath host cs (sub, seq, modified))
           else
             (let m = (case sub of None \<Rightarrow> [] | Some m \<Rightarrow> m) in
              case map_of m id of
                Some old \<Rightarrow>
                  set_loop psl now defPath host cs
                    (Some (AList.update id (e\<lparr>je_Creation := je_Creation old, je_seqNum := je_seqNum old, je_LastAccess := now\<rparr>) m), seq, True)
              | None \<Rightarrow>
                  set_loop psl now defPath host cs
                    (Some (AList.update id (e\<lparr>je_Creation := now, je_seqNum := seq, je_LastAccess := now\<rparr>) m), seq + 1, True))))"

definition put_submap :: "string \<Rightarrow> submap \<Rightarrow> (string \<times> submap) list \<Rightarrow> (string \<times> submap) list" where
  "put_submap key m es = (if m = [] then AList.delete key es else AList.update key m es)"

definition http_scheme :: "URL \<Rightarrow> bool" where
  "http_scheme u = (u_Scheme u = ''http'' \<or> u_Scheme u = ''https'')"

definition setCookies :: "URL \<Rightarrow> Cookie list \<Rightarrow> gotime \<Rightarrow> Jar \<Rightarrow> Jar go" where
  "setCookies u cookies now j =
     (if cookies = [] then Ret j
      else if \<not> http_scheme u then Ret j
      else go_bind (canonicalHost (u_Host u)) (\<lambda>r.
        (case r of
           None \<Rightarrow> Ret j
         | Some host \<Rightarrow>
             (let key = jarKey host (jr_psList j) in
              case set_loop (jr_psList j) now (defaultPath (u_Path u)) host cookies (map_of (jr_entries j) key, jr_nextSeqNum j, False) of
                (sub, seq, modified) \<Rightarrow>
                  Ret (if modified
                       then j\<lparr>jr_nextSeqNum := seq, jr_entries := put_submap key (case sub of None \<Rightarrow> [] | Some m \<Rightarrow> m) (jr_entries j)\<rparr>
                       else j\<lparr>jr_nextSeqNum := seq\<rparr>)))))"

definition expired :: "gotime \<Rightarrow> entry \<Rightarrow> bool" where
  "expired now e = (je_Persistent e \<and> \<not> je_Expires e > now)"

definition request_path :: "URL \<Rightarrow> string" where
  "request_path u = (if u_Path u = [] then ''/'' else u_Path u)"

definition select :: "gotime \<Rightarrow> bool \<Rightarrow> string \<Rightarrow> string \<Rightarrow> submap \<Rightarrow> submap \<times> entry list" where
  "select now https host path m =
     (let live = [(i, e) \<leftarrow> m. \<not> expired now e];
          touched = map (\<lambda>(i, e). (i, if shouldSend e https host path then e\<lparr>je_LastAccess := now\<rparr> else e)) live
      in (touched, [e \<leftarrow> map snd touched. shouldSend e https host path]))"

definition sort_order :: "entry \<Rightarrow> int \<times> int \<times> int" where
  "sort_order e = (- int (length (je_Path e)), je_Creation e, je_seqNum e)"

definition jar_cookies :: "URL \<Rightarrow> gotime \<Rightarrow> Jar \<Rightarrow> (Cookie list \<times> Jar) go" where
  "jar_cookies u now j =
     (if \<not> http_scheme u then Ret ([], j)
      else go_bind (canonicalHost (u_Host u)) (\<lambda>r.
        (case r of
           None \<Rightarrow> Ret ([], j)
         | Some host \<Rightarrow>
             (let key = jarKey host (jr_psList j) in
              case map_of (jr_entries j) key of
                None \<Rightarrow> Ret ([], j)
              | Some m \<Rightarrow>
                  (case select now (u_Scheme u = ''https'') host (request_path u) m of
                     (m1, selected) \<Rightarrow>
                       Ret (map (\<lambda>e. new_Cookie (je_Name e) (je_Value e)) (sort_key sort_order selected),
                            if m1 = m \<and> selected = [] then j else j\<lparr>jr_entries := put_submap key m1 (jr_entries j)\<rparr>))))))"

end
