(* ===== verification/Client_Redirects.thy ===== *)
theory Client_Redirects
  imports Client
begin

section \<open>What the client sends when it follows redirects\<close>

text \<open>
  The world is extended by the list of requests that reached the \<open>RoundTripper\<close>. With the default policy \<open>Do\<close> returns after
  at most ten requests; every request is the one before it, rewritten as the response demands, with the headers that
  \<open>shouldCopyHeaderOnRedirect\<close> lets through. Then follow the cases where the code does not keep its promises.
\<close>

definition logged_jar :: "'w cookie_jar \<Rightarrow> ('w \<times> cl_req list) cookie_jar" where
  "logged_jar j =
     \<lparr>cj_Cookies = (\<lambda>u (w, log). case cj_Cookies j u w of (cs, w1) \<Rightarrow> (cs, (w1, log))),
      cj_SetCookies = (\<lambda>u cs (w, log). (cj_SetCookies j u cs w, log))\<rparr>"

definition logged :: "'w client_env \<Rightarrow> ('w \<times> cl_req list) client_env" where
  "logged E =
     \<lparr>ce_lib = ce_lib E, ce_times = ce_times E, ce_idna = ce_idna E, ce_Parse = ce_Parse E, ce_Resolve = ce_Resolve E,
      ce_RoundTrip = map_option (\<lambda>rt req (w, log). case rt req w of (r, w1) \<Rightarrow> (r, (w1, log @ [req]))) (ce_RoundTrip E),
      ce_CheckRedirect = map_option (\<lambda>f req via (w, log). case f req via w of (err, req1, w1) \<Rightarrow> (err, req1, (w1, log)))
        (ce_CheckRedirect E),
      ce_Jar = map_option logged_jar (ce_Jar E),
      ce_closeReq = (\<lambda>r (w, log). (ce_closeReq E r w, log)),
      ce_slurp = (\<lambda>r (w, log). (ce_slurp E r w, log)),
      ce_closeResp = (\<lambda>r (w, log). (ce_closeResp E r w, log))\<rparr>"

lemma logged_simps [simp]:
  "ce_lib (logged E) = ce_lib E" "ce_times (logged E) = ce_times E" "ce_idna (logged E) = ce_idna E"
  "ce_Parse (logged E) = ce_Parse E" "ce_Resolve (logged E) = ce_Resolve E"
  "ce_Jar (logged E) = map_option logged_jar (ce_Jar E)"
  "ce_CheckRedirect (logged E) = map_option (\<lambda>f req via (w, log). case f req via w of (err, req1, w1) \<Rightarrow> (err, req1, (w1, log)))
     (ce_CheckRedirect E)"
  "ce_closeReq (logged E) r (w, log) = (ce_closeReq E r w, log)"
  "ce_slurp (logged E) q (w, log) = (ce_slurp E q w, log)"
  "ce_closeResp (logged E) q (w, log) = (ce_closeResp E q w, log)"
  by (simp_all add: logged_def)

lemma snd_closes [simp]:
  "snd (closeBody (logged E) r wl) = snd wl" "snd (ce_closeResp (logged E) q wl) = snd wl" "snd (ce_slurp (logged E) q wl) = snd wl"
  by (cases wl; simp add: closeBody_def split: option.splits)+

text \<open>The request as \<open>send\<close> passes it on.\<close>

definition sent :: "cl_req \<Rightarrow> cl_req" where
  "sent r = prepare_header (request_URL r) r"

lemma send_request_log:
  assumes "send_request (logged E) r wl = (res, wl1)"
  shows "snd wl1 = snd wl \<and> (\<exists>e. res = Inl e) \<or> snd wl1 = snd wl @ [sent r]"
  using assms
  by (cases wl) (auto simp: send_request_def logged_def sent_def request_URL_def Let_def closeBody_def
      split: option.splits prod.splits sum.splits if_splits)

lemma client_send_log:
  assumes "client_send (logged E) r wl = (Ret (r1, res), wl1)"
  shows "snd wl1 = snd wl \<and> (\<exists>e. res = Inl e) \<or> snd wl1 = snd wl @ [sent r1]"
    and "ce_Jar E = None \<Longrightarrow> r1 = r"
proof -
  have "snd wl1 = snd wl \<and> (\<exists>e. res = Inl e) \<or> snd wl1 = snd wl @ [sent r1]" and "ce_Jar E = None \<longrightarrow> r1 = r"
  proof (atomize (full), cases "ce_Jar E")
    case None
    then show "(snd wl1 = snd wl \<and> (\<exists>e. res = Inl e) \<or> snd wl1 = snd wl @ [sent r1]) \<and> (ce_Jar E = None \<longrightarrow> r1 = r)"
      using assms send_request_log [of E r wl]
      by (auto simp: client_send_def split: prod.splits option.splits)
  next
    case (Some jar)
    obtain w log where wl: "wl = (w, log)" by fastforce
    obtain cs w0 where cs: "cj_Cookies jar (request_URL r) w = (cs, w0)" by fastforce
    with assms Some wl obtain r0 where r0: "add_cookies cs r = Ret r0"
      by (auto simp: client_send_def logged_def logged_jar_def split: go.splits)
    obtain q w2 log2 where s: "send_request (logged E) r0 (w0, log) = (q, (w2, log2))" by (metis surj_pair)
    with assms Some wl cs r0 have "r1 = r0" "res = q" "snd wl1 = log2"
      by (auto simp: client_send_def logged_def logged_jar_def Let_def split: sum.splits if_splits)
    with send_request_log [OF s] wl Some
    show "(snd wl1 = snd wl \<and> (\<exists>e. res = Inl e) \<or> snd wl1 = snd wl @ [sent r1]) \<and> (ce_Jar E = None \<longrightarrow> r1 = r)" by simp
  qed
  then show "snd wl1 = snd wl \<and> (\<exists>e. res = Inl e) \<or> snd wl1 = snd wl @ [sent r1]"
    and "ce_Jar E = None \<Longrightarrow> r1 = r" by auto
qed

lemma client_send_panic_log: "client_send (logged E) r wl = (Panic m, wl1) \<Longrightarrow> snd wl1 = snd wl"
  by (cases wl) (auto simp: client_send_def logged_def logged_jar_def Let_def split: option.splits prod.splits go.splits sum.splits if_splits)

subsection \<open>Ten requests\<close>

lemma send_hop_log:
  assumes "send_hop (logged E) st wl = (res, wl1)"
  shows "length (snd wl1) \<le> Suc (length (snd wl))"
    and "res = Ret (Inr (st1, resp)) \<Longrightarrow> length (do_reqs st1) = Suc (length (do_reqs st))"
proof -
  have l: "length (snd wl1) \<le> Suc (length (snd wl)) \<and> (\<forall>st1 resp. res = Ret (Inr (st1, resp)) \<longrightarrow> length (do_reqs st1) = Suc (length (do_reqs st)))"
    using assms
    by (auto simp: send_hop_def Let_def split: prod.splits go.splits sum.splits if_splits
        dest!: client_send_log(1) client_send_panic_log)
  then show "length (snd wl1) \<le> Suc (length (snd wl))"
    and "res = Ret (Inr (st1, resp)) \<Longrightarrow> length (do_reqs st1) = Suc (length (do_reqs st))" by blast+
qed

lemma default_policy:
  "ce_CheckRedirect E = None \<Longrightarrow> checkRedirect (logged E) req via wl = (defaultCheckRedirect via, req, wl)"
  by (simp add: checkRedirect_def)

lemma finish_hop_default:
  assumes "ce_CheckRedirect E = None"
  shows "finish_hop (logged E) st resp loc req cp wl =
    (let w2 = (if cp_ContentLength resp = - 1 \<or> cp_ContentLength resp \<le> maxBodySlurpSize then ce_slurp (logged E) resp wl else wl);
         w3 = ce_closeResp (logged E) resp w2
     in if length (do_reqs st) \<ge> 10
        then (Inl (Some resp, Some ((uerr (Some resp) req (do_reqs st) TooManyRedirects)\<lparr>ue_URL := loc\<rparr>)), closeBody (logged E) req w3)
        else (Inr (st\<lparr>do_req := req, do_copier := cp\<lparr>hc_preq := req\<rparr>\<rparr>), w3))"
  by (simp add: finish_hop_def default_policy [OF assms] defaultCheckRedirect_def Let_def)

text \<open>The next hop leaves the log alone and, under the default policy, ends after ten requests.\<close>

lemma finish_hop_log:
  assumes "ce_CheckRedirect E = None" "finish_hop (logged E) st resp loc req cp wl = (res, wl1)"
  shows "snd wl1 = snd wl"
    and "res = Inr st1 \<Longrightarrow> st1 = st\<lparr>do_req := req, do_copier := cp\<lparr>hc_preq := req\<rparr>\<rparr> \<and> length (do_reqs st) < 10"
  using assms(2) unfolding finish_hop_default [OF assms(1)]
  by (auto simp: Let_def split: if_splits)

definition hop_body :: "do_state \<Rightarrow> string option" where
  "hop_body st = (case (if do_includeBody st then cq_GetBody (hd (do_reqs st)) else None) of Some (Inr b) \<Rightarrow> b | _ \<Rightarrow> None)"

lemma hop_request_fields:
  assumes "hop_request st u host resp = Inr r"
  shows "cq_Method r = do_method st" "cq_URL r = Some u" "cq_Header r = Some []" "cq_Body r = hop_body st"
    "cq_RequestURI r = []" "cq_Response r = Some resp"
  using assms
  by (auto simp: hop_request_def hop_body_def new_request_def Let_def split: option.splits sum.splits if_splits)

lemma next_hop_log:
  assumes "ce_CheckRedirect E = None" "next_hop (logged E) st resp wl = (res, wl1)"
  shows "snd wl1 = snd wl"
  using assms(2)
  by (auto simp: next_hop_def Let_def dest: finish_hop_log(1) [OF assms(1)] split: sum.splits prod.splits if_splits)

lemma next_hop_next:
  assumes c: "ce_CheckRedirect E = None" and n: "next_hop (logged E) st resp wl = (Inr st1, wl1)"
  obtains u host req r cp where "length (do_reqs st) < 10" "hop_request st u host resp = Inr req"
    "copyHeaders (logged E) req (do_copier st) = (r, cp)"
    "st1 = st\<lparr>do_req := set_referer (request_URL (last (do_reqs st))) r,
               do_copier := cp\<lparr>hc_preq := set_referer (request_URL (last (do_reqs st))) r\<rparr>\<rparr>"
  using n
  by (auto simp: next_hop_def Let_def dest!: finish_hop_log(2) [OF c _ refl] split: sum.splits prod.splits if_splits)

subsection \<open>The chain of requests\<close>

text \<open>What the code makes of request \<open>a\<close> when a response redirects it: \<open>b\<close>. \<open>keep\<close> is a redirect with code 307 or 308.\<close>

definition redirected :: "'w client_env \<Rightarrow> cl_req \<Rightarrow> cl_req \<Rightarrow> cl_req \<Rightarrow> bool" where
  "redirected E ireq a b \<longleftrightarrow>
     (\<exists>keep. cq_Method b = (if keep \<or> cq_Method a = ''GET'' \<or> cq_Method a = ''HEAD'' then cq_Method a else ''GET'') \<and>
        cq_Body b = (case cq_GetBody ireq of Some (Inr x) \<Rightarrow> if keep then x else None | _ \<Rightarrow> None)) \<and>
     cq_URL b \<noteq> None \<and>
     (\<forall>k. k \<noteq> ''Referer'' \<longrightarrow> map_of (request_header b) k =
        (if shouldCopyHeaderOnRedirect (ce_idna E) k (request_URL a) (request_URL b) then map_of (request_header ireq) k else None)) \<and>
     map_of (request_header b) ''Referer'' =
       (let ref = refererForURL (request_URL a) (request_URL b) (Header_Get (request_header ireq) ''Referer'')
        in if ref \<noteq> [] then Some [ref] else map_of (request_header ireq) ''Referer'')"

lemma copy_fold:
  "map_of (fold (\<lambda>(k, vv) h. if f k then AList.update k vv h else h) h0 h) k =
     (if f k \<and> k \<in> fst ` set h0 then map_of (rev h0) k else map_of h k)"
proof (induction h0 rule: rev_induct)
  case (snoc x xs)
  then show ?case by (cases x) (auto simp: update_conv')
qed simp

lemma map_of_rev_distinct: "distinct (map fst h) \<Longrightarrow> map_of (rev h) k = map_of h k"
proof (induction h)
  case (Cons a h)
  then have "map_of h (fst a) = None" by (simp add: map_of_eq_None_iff)
  with Cons show ?case by (cases a) (auto simp: map_add_def split: option.splits)
qed simp

lemma copied_header:
  assumes "ce_Jar E = None" "cq_Header r = Some []" "copyHeaders (logged E) r cp = (r1, cp1)" "distinct (map fst (hc_ireqhdr cp))"
  shows "map_of (request_header r1) k =
      (if shouldCopyHeaderOnRedirect (ce_idna E) k (request_URL (hc_preq cp)) (request_URL r)
       then map_of (hc_ireqhdr cp) k else None)"
    and "cq_Method r1 = cq_Method r" "cq_URL r1 = cq_URL r" "cq_Body r1 = cq_Body r" "cp1 = cp\<lparr>hc_preq := r1\<rparr>"
proof -
  have u: "update_cookies (logged E) r cp = cp" using assms(1) by (simp add: update_cookies_def)
  have r1: "r1 = r\<lparr>cq_Header := Some (fold (\<lambda>(k, vv) h. if shouldCopyHeaderOnRedirect (ce_idna E) k (request_URL (hc_preq cp)) (request_URL r)
                                then AList.update k vv h else h) (hc_ireqhdr cp) [])\<rparr>"
    and c: "cp1 = cp\<lparr>hc_preq := r1\<rparr>"
    using assms(2,3) u by (auto simp: copyHeaders_def Let_def request_header_def)
  show "map_of (request_header r1) k =
      (if shouldCopyHeaderOnRedirect (ce_idna E) k (request_URL (hc_preq cp)) (request_URL r)
       then map_of (hc_ireqhdr cp) k else None)"
    by (auto simp add: r1 request_header_def copy_fold map_of_rev_distinct [OF assms(4)] dest: map_of_eq_None_iff [THEN iffD2, THEN sym])
  show "cq_Method r1 = cq_Method r" "cq_URL r1 = cq_URL r" "cq_Body r1 = cq_Body r" "cp1 = cp\<lparr>hc_preq := r1\<rparr>"
    by (simp_all add: r1 c)
qed

lemma canonical_Referer [simp]: "CanonicalHeaderKey ''Referer'' = ''Referer''"
  by code_simp


lemma map_of_update: "map_of (AList.update k v h) k' = (if k' = k then Some v else map_of h k')"
  by (simp add: update_conv')

lemma Header_Get_via: "Header_Get h ''Referer'' = (case map_of h ''Referer'' of Some (v # vs) \<Rightarrow> v | _ \<Rightarrow> [])"
  by (simp add: Header_Get_def header_get_def header_values_def split: option.splits list.splits)

lemma Referer_not_sensitive [simp]: "\<not> sensitive_header ''Referer''"
  by (simp add: sensitive_header_def)

lemma referer_header:
  "map_of (request_header (set_referer u r)) k =
     (let ref = refererForURL u (request_URL r) (Header_Get (request_header r) ''Referer'')
      in if k = ''Referer'' \<and> ref \<noteq> [] then Some [ref] else map_of (request_header r) k)"
  "cq_Method (set_referer u r) = cq_Method r" "cq_URL (set_referer u r) = cq_URL r" "cq_Body (set_referer u r) = cq_Body r"
  by (simp_all add: set_referer_def request_header_def Let_def Header_Set_def map_of_update)

lemma request_URL_cong: "cq_URL a = cq_URL b \<Longrightarrow> request_URL a = request_URL b"
  by (simp add: request_URL_def)

text \<open>The state of the loop before a request is sent.\<close>

definition chain_inv :: "'w client_env \<Rightarrow> cl_req \<Rightarrow> do_state \<Rightarrow> bool" where
  "chain_inv E ireq st \<longleftrightarrow>
     hd (do_reqs st @ [do_req st]) = ireq \<and> successively (redirected E ireq) (do_reqs st @ [do_req st]) \<and>
     length (do_reqs st) < 10 \<and> cq_URL (do_req st) \<noteq> None \<and>
     hc_ireqhdr (do_copier st) = request_header ireq \<and> hc_preq (do_copier st) = do_req st"

lemma redirect_behavior_cases:
  assumes "redirectBehavior meth resp ireq = (m, True, b)"
  shows "m = (if b \<or> meth = ''GET'' \<or> meth = ''HEAD'' then meth else ''GET'')"
  using assms by (auto simp: redirectBehavior_def split: if_splits)

lemma hop_redirected:
  assumes c: "ce_CheckRedirect E = None" and j: "ce_Jar E = None" and d: "distinct (map fst (request_header ireq))"
    and inv: "hd (do_reqs st) = ireq" "last (do_reqs st) = do_req st" "hc_ireqhdr (do_copier st) = request_header ireq"
      "hc_preq (do_copier st) = do_req st"
      "do_method st = (if do_includeBody st \<or> cq_Method (do_req st) = ''GET'' \<or> cq_Method (do_req st) = ''HEAD''
                       then cq_Method (do_req st) else ''GET'')"
    and n: "next_hop (logged E) st resp wl = (Inr st1, wl1)"
  shows "redirected E ireq (do_req st) (do_req st1)" "do_reqs st1 = do_reqs st" "length (do_reqs st) < 10"
    "hc_ireqhdr (do_copier st1) = request_header ireq" "hc_preq (do_copier st1) = do_req st1"
proof -
  from next_hop_next [OF c n] obtain u host req r cp where l: "length (do_reqs st) < 10"
    and h: "hop_request st u host resp = Inr req" and cop: "copyHeaders (logged E) req (do_copier st) = (r, cp)"
    and st1: "st1 = st\<lparr>do_req := set_referer (request_URL (last (do_reqs st))) r,
               do_copier := cp\<lparr>hc_preq := set_referer (request_URL (last (do_reqs st))) r\<rparr>\<rparr>" .
  note f = hop_request_fields [OF h]
  note cph = copied_header [OF j f(3) cop, unfolded inv(3,4), OF d]
  have U: "request_URL (do_req st1) = request_URL req" "request_URL r = request_URL req"
    using cph(3) by (simp_all add: request_URL_def st1 referer_header)
  have ref: "Header_Get (request_header r) ''Referer'' = Header_Get (request_header ireq) ''Referer''"
    by (simp add: Header_Get_via cph(1) shouldCopyHeaderOnRedirect_def)
  show "redirected E ireq (do_req st) (do_req st1)"
    unfolding redirected_def U
  proof (intro conjI exI [of _ "do_includeBody st"] allI impI)
    show "cq_Body (do_req st1) = (case cq_GetBody ireq of Some (Inr x) \<Rightarrow> if do_includeBody st then x else None | _ \<Rightarrow> None)"
      using inv(1) by (simp add: st1 referer_header cph(4) f(4) hop_body_def split: option.splits sum.splits)
    show "map_of (request_header (do_req st1)) k = (if shouldCopyHeaderOnRedirect (ce_idna E) k (request_URL (do_req st)) (request_URL req)
        then map_of (request_header ireq) k else None)" if "k \<noteq> ''Referer''" for k
      using that by (simp add: st1 referer_header Let_def cph(1))
    show "map_of (request_header (do_req st1)) ''Referer'' =
       (let ref = refererForURL (request_URL (do_req st)) (request_URL req) (Header_Get (request_header ireq) ''Referer'')
        in if ref \<noteq> [] then Some [ref] else map_of (request_header ireq) ''Referer'')"
      by (simp add: st1 referer_header Let_def ref U inv(2) cph(1) shouldCopyHeaderOnRedirect_def)
  qed (use inv(5) in \<open>simp_all add: st1 referer_header cph f\<close>)
  show "do_reqs st1 = do_reqs st" "length (do_reqs st) < 10" "hc_preq (do_copier st1) = do_req st1"
    "hc_ireqhdr (do_copier st1) = request_header ireq"
    using l cph(5) inv(3) by (simp_all add: st1)
qed


lemma chain_start: "cq_URL req \<noteq> None \<Longrightarrow> chain_inv E req (start_state E0 req)"
  by (simp add: chain_inv_def start_state_def makeHeadersCopier_def)

text \<open>One round of the loop: it ends with one more request sent at most, or the invariant holds again.\<close>

definition chain_end :: "'w client_env \<Rightarrow> cl_req \<Rightarrow> cl_req list \<Rightarrow> bool" where
  "chain_end E ireq reqs \<longleftrightarrow>
     length reqs \<le> 10 \<and> successively (redirected E ireq) reqs \<and> (reqs = [] \<or> hd reqs = ireq)"

lemma chain_end_before: "chain_inv E ireq st \<Longrightarrow> chain_end E ireq (do_reqs st)"
  using successively_append_iff [of "redirected E ireq" "do_reqs st" "[do_req st]"]
  by (cases "do_reqs st") (auto simp: chain_inv_def chain_end_def)

lemma chain_end_after: "chain_inv E ireq st \<Longrightarrow> chain_end E ireq (do_reqs st @ [do_req st])"
  by (auto simp: chain_inv_def chain_end_def)

lemma do_loop_chain:
  assumes c: "ce_CheckRedirect E = None" and j: "ce_Jar E = None" and d: "distinct (map fst (request_header ireq))"
  shows "chain_inv E ireq st \<Longrightarrow> snd wl = map sent (do_reqs st) \<Longrightarrow>
    \<exists>res wl1 reqs. do_loop (logged E) st wl = Some (Ret res, wl1) \<and> snd wl1 = map sent reqs \<and> chain_end E ireq reqs"
proof (induction "10 - length (do_reqs st)" arbitrary: st wl rule: less_induct)
  case less
  note inv = less.prems(1)
  have jl: "ce_Jar (logged E) = None" using j by simp
  obtain q wl1 where cs: "client_send (logged E) (do_req st) wl = (Ret (do_req st, q), wl1)"
    using jl by (cases "send_request (logged E) (do_req st) wl") (auto simp: client_send_def)
  note log = client_send_log(1) [OF cs]
  show ?case
  proof (cases q)
    case (Inl e)
    then have "do_loop (logged E) st wl = Some (Ret (None, Some (uerr None (do_req st) (do_reqs st @ [do_req st]) e)), wl1)"
      by (subst do_loop.simps) (simp add: send_hop_def cs)
    moreover from log less.prems(2) have "snd wl1 = map sent (do_reqs st) \<or> snd wl1 = map sent (do_reqs st @ [do_req st])" by auto
    ultimately show ?thesis using chain_end_before [OF inv] chain_end_after [OF inv] by blast
  next
    case (Inr resp)
    with log less.prems(2) have l1: "snd wl1 = map sent (do_reqs st @ [do_req st])" by simp
    have h: "hd (do_reqs st @ [do_req st]) = ireq" using inv by (simp add: chain_inv_def)
    obtain m sr b where rb: "redirectBehavior (cq_Method (do_req st)) resp ireq = (m, sr, b)" by (metis surj_pair)
    show ?thesis
    proof (cases sr)
      case False
      then have "do_loop (logged E) st wl = Some (Ret (Some resp, None), wl1)"
        by (subst do_loop.simps) (simp add: send_hop_def cs Inr h rb)
      then show ?thesis using l1 chain_end_after [OF inv] by blast
    next
      case True
      define st1 where "st1 = st\<lparr>do_reqs := do_reqs st @ [do_req st], do_method := m, do_includeBody := b\<rparr>"
      define wl2 where "wl2 = closeBody (logged E) (do_req st) wl1"
      have sh: "send_hop (logged E) st wl = (Ret (Inr (st1, resp)), wl2)"
        using True by (simp add: send_hop_def cs Inr h rb st1_def wl2_def)
      obtain nx wl3 where nh: "next_hop (logged E) st1 resp wl2 = (nx, wl3)" by (meson surj_pair)
      have l3: "snd wl3 = map sent (do_reqs st1)"
        using next_hop_log [OF c nh] l1 by (simp add: wl2_def st1_def)
      show ?thesis
      proof (cases nx)
        case (Inl res)
        then have "do_loop (logged E) st wl = Some (Ret res, wl3)" by (subst do_loop.simps) (simp add: sh nh)
        moreover have "snd wl3 = map sent (do_reqs st @ [do_req st])" using l3 by (simp add: st1_def)
        ultimately show ?thesis using chain_end_after [OF inv] by blast
      next
        case (Inr st2)
        have m: "do_method st1 = (if do_includeBody st1 \<or> cq_Method (do_req st1) = ''GET'' \<or> cq_Method (do_req st1) = ''HEAD''
             then cq_Method (do_req st1) else ''GET'')"
          using redirect_behavior_cases [OF rb [unfolded eqTrueI [OF True]]] by (simp add: st1_def)
        have i1: "hd (do_reqs st1) = ireq" "last (do_reqs st1) = do_req st1" "hc_ireqhdr (do_copier st1) = request_header ireq"
            "hc_preq (do_copier st1) = do_req st1"
          using inv h by (simp_all add: st1_def chain_inv_def)
        note hop1 = hop_redirected [OF c j d i1 m nh [unfolded Inr]]
        have reqs2: "do_reqs st2 = do_reqs st @ [do_req st]" and r2: "redirected E ireq (do_req st) (do_req st2)"
          using hop1(1,2) by (simp_all add: st1_def)
        have "chain_inv E ireq st2"
          unfolding chain_inv_def
        proof (intro conjI)
          show "hd (do_reqs st2 @ [do_req st2]) = ireq" using h by (cases "do_reqs st") (simp_all add: reqs2)
          show "successively (redirected E ireq) (do_reqs st2 @ [do_req st2])"
            using inv r2 successively_append_iff [of "redirected E ireq" "do_reqs st @ [do_req st]" "[do_req st2]"]
            by (simp add: reqs2 chain_inv_def)
          show "length (do_reqs st2) < 10" using hop1(2,3) by simp
          show "cq_URL (do_req st2) \<noteq> None" using r2 unfolding redirected_def by blast
        qed (fact hop1)+
        moreover have "10 - length (do_reqs st2) < 10 - length (do_reqs st)"
          using hop1(3) arg_cong [OF reqs2, of length] unfolding hop1(2) by simp
        moreover have "snd wl3 = map sent (do_reqs st2)" using l3 hop1(2) by simp
        ultimately obtain res wl4 reqs where r: "do_loop (logged E) st2 wl3 = Some (Ret res, wl4)" "snd wl4 = map sent reqs" "chain_end E ireq reqs"
          using less.hyps by blast
        have "do_loop (logged E) st wl = do_loop (logged E) st2 wl3" by (subst do_loop.simps) (simp add: sh nh Inr)
        with r show ?thesis by auto
      qed
    qed
  qed
qed


lemma client_do_chain:
  assumes "ce_CheckRedirect E = None" "ce_Jar E = None" "distinct (map fst (request_header req))"
  shows "\<exists>res w1 reqs. client_do (logged E) req (w, []) = Some (Ret res, (w1, map sent reqs)) \<and> chain_end E req reqs"
proof (cases "cq_URL req")
  case None
  then show ?thesis
    by (cases "cq_Body req") (auto simp: client_do_def chain_end_def closeBody_def intro!: exI [of _ "[]"])
next
  case (Some u)
  then have "chain_inv E req (start_state (logged E) req)" by (simp add: chain_start)
  from do_loop_chain [OF assms this, of "(w, [])"] obtain res wl1 reqs where
    "do_loop (logged E) (start_state (logged E) req) (w, []) = Some (Ret res, wl1)" "snd wl1 = map sent reqs" "chain_end E req reqs"
    by (auto simp: start_state_def)
  with Some show ?thesis by (cases wl1) (auto simp: client_do_def)
qed

lemma sent_simps [simp]:
  "cq_URL (sent r) = cq_URL r" "request_URL (sent r) = request_URL r" "cq_Method (sent r) = cq_Method r" "cq_Body (sent r) = cq_Body r"
  by (auto simp: sent_def prepare_header_def request_URL_def Let_def split: option.splits prod.splits)

lemma canonical_Authorization [simp]: "CanonicalHeaderKey ''Authorization'' = ''Authorization''"
  by code_simp

lemma sent_header:
  "k \<noteq> ''Authorization'' \<or> u_User (request_URL r) = None \<Longrightarrow> map_of (request_header (sent r)) k = map_of (request_header r) k"
  by (auto simp: sent_def prepare_header_def request_header_def Let_def Header_Set_def map_of_update split: option.splits prod.splits)

lemma isDomainOrSubdomain_iff:
  "isDomainOrSubdomain sub parent \<longleftrightarrow>
     sub = parent \<or> (CHR '':'' \<notin> set sub \<and> CHR ''%'' \<notin> set sub \<and> (\<exists>l. sub = l @ ''.'' @ parent))"
proof (cases "sub = parent \<or> \<not> suffix parent sub")
  case True
  then show ?thesis by (auto simp: isDomainOrSubdomain_def has_suffix_def suffix_def)
next
  case False
  then obtain l where l: "sub = l @ parent" "l \<noteq> []" by (auto simp: suffix_def)
  then obtain l' c where c: "l = l' @ [c]" by (metis rev_exhaust)
  have "sub ! (length sub - length parent - 1) = c" using l c by (simp add: nth_append)
  with False l c show ?thesis by (auto simp: isDomainOrSubdomain_def has_suffix_def)
qed




subsection \<open>Broken promises\<close>

text \<open>A client for tests: it knows URLs of the form \<open>https://host/path\<close> and \<open>http://host/path\<close>, and the servers are given by the redirect of each
  URL: a status and a location.\<close>

definition simple_URL :: "string \<Rightarrow> string \<Rightarrow> string \<Rightarrow> URL" where
  "simple_URL scheme host path =
     \<lparr>u_Scheme = scheme, u_Opaque = [], u_User = None, u_Host = host, u_Path = path, u_RawPath = [], u_OmitHost = False,
      u_ForceQuery = False, u_RawQuery = [], u_Fragment = [], u_RawFragment = []\<rparr>"

definition simple_Parse :: "string \<Rightarrow> string + URL" where
  "simple_Parse s =
     (if has_prefix s ''https://'' then (case break_byte (CHR ''/'') (drop 8 s) of (h, p) \<Rightarrow> Inr (simple_URL ''https'' h p))
      else if has_prefix s ''http://'' then (case break_byte (CHR ''/'') (drop 7 s) of (h, p) \<Rightarrow> Inr (simple_URL ''http'' h p))
      else Inl ''unknown'')"

definition redirect_client :: "(string \<times> string \<Rightarrow> (int \<times> string) option) \<Rightarrow> unit client_env" where
  "redirect_client servers =
     \<lparr>ce_lib = example_lib, ce_times = example_times, ce_idna = (\<lambda>_. None), ce_Parse = simple_Parse, ce_Resolve = (\<lambda>base ref. ref),
      ce_RoundTrip = Some (\<lambda>req w. (Inr (Some
        (case servers (u_Host (request_URL req), u_Path (request_URL req)) of
           Some (code, loc) \<Rightarrow> \<lparr>cp_StatusCode = code, cp_Header = [(''Location'', [loc])], cp_Body = None, cp_ContentLength = 0,
             cp_Request = cq_URL req\<rparr>
         | None \<Rightarrow> \<lparr>cp_StatusCode = 200, cp_Header = [], cp_Body = None, cp_ContentLength = 0, cp_Request = cq_URL req\<rparr>)), w)),
      ce_CheckRedirect = None, ce_Jar = None, ce_closeReq = (\<lambda>_ w. w), ce_slurp = (\<lambda>_ w. w), ce_closeResp = (\<lambda>_ w. w)\<rparr>"

definition simple_request :: "string \<Rightarrow> URL \<Rightarrow> Header \<Rightarrow> string option \<Rightarrow> cl_req" where
  "simple_request meth u h b =
     \<lparr>cq_Method = meth, cq_URL = Some u, cq_Header = Some h, cq_Body = b, cq_GetBody = map_option (\<lambda>x. Inr (Some x)) b,
      cq_ContentLength = (case b of None \<Rightarrow> 0 | Some x \<Rightarrow> int (length x)), cq_Host = [], cq_RequestURI = [], cq_Response = None\<rparr>"

definition two_redirects :: "int \<Rightarrow> int \<Rightarrow> string \<times> string \<Rightarrow> (int \<times> string) option" where
  "two_redirects c1 c2 hp =
     (if hp = (''example.com'', ''/'') then Some (c1, ''https://evil.org/a'')
      else if hp = (''evil.org'', ''/a'') then Some (c2, ''https://evil.org/b'') else None)"

lemma simple_URL_fields [simp]:
  "u_Scheme (simple_URL s h p) = s" "u_Opaque (simple_URL s h p) = []" "u_User (simple_URL s h p) = None" "u_Host (simple_URL s h p) = h"
  "u_Path (simple_URL s h p) = p" "u_RawPath (simple_URL s h p) = []" "\<not> u_OmitHost (simple_URL s h p)"
  "\<not> u_ForceQuery (simple_URL s h p)" "u_RawQuery (simple_URL s h p) = []" "u_Fragment (simple_URL s h p) = []"
  "u_RawFragment (simple_URL s h p) = []"
  by (simp_all add: simple_URL_def)

lemma simple_hosts [simp]:
  "idnaASCIIFromURL idna (simple_URL s ''example.com'' p) = ''example.com''"
  "idnaASCIIFromURL idna (simple_URL s ''evil.org'' p) = ''evil.org''"
  "\<not> isDomainOrSubdomain ''evil.org'' ''example.com''" "isDomainOrSubdomain d d"
  by (simp_all add: idnaASCIIFromURL_def idnaASCII_def url_Hostname_def url_splitHostPort_def isDomainOrSubdomain_def has_suffix_def
      has_prefix_def suffix_to_prefix ascii_Is_def validOptionalPort_def)

lemma canonical_names [simp]: "CanonicalHeaderKey ''Location'' = ''Location''" "sensitive_header ''Authorization''"
  "\<not> sensitive_header ''Accept''"
  by (code_simp, simp add: sensitive_header_def, code_simp)

lemmas redirect_run = client_do_def send_hop_def client_send_def send_request_def redirect_client_def logged_def two_redirects_def
  simple_Parse_def start_state_def makeHeadersCopier_def prepare_header_def request_header_def request_URL_def
  redirectBehavior_def closeBody_def next_hop_def finish_hop_def checkRedirect_def defaultCheckRedirect_def hop_request_def
  new_request_def copyHeaders_def update_cookies_def shouldCopyHeaderOnRedirect_def set_referer_def refererForURL_def redirect_host_def
  simple_request_def maxBodySlurpSize_def request_outgoingLength_def
  Header_Get_def header_get_def header_values_def Header_Set_def header_has_def has_prefix_def break_byte_def url_String_def url_path_text_def
  url_authority_def url_of_def EscapedPath_def EscapedFragment_def path_escape_def path_should_escape_def url_escape_def host_should_escape_def
  is_alnum_def Let_def


text \<open>A body that a 303 has dropped is sent again: a POST that is answered by 303 and then 307 ends in a GET with the body of
  the POST, against the documentation of \<open>Do\<close>.\<close>

theorem dropped_body_returns:
  "\<exists>res reqs. client_do (logged (redirect_client (two_redirects 303 307)))
       (simple_request ''POST'' (simple_URL ''https'' ''example.com'' ''/'') [] (Some b)) ((), []) =
       Some (Ret (res, None), ((), reqs)) \<and>
     map cq_Method reqs = [''POST'', ''GET'', ''GET''] \<and> map cq_Body reqs = [Some b, None, Some b]"
  by (simp add: client_do_def, (subst do_loop.simps, simp add: redirect_run)+)

text \<open>A Referer set by the caller is sent from https to http: \<open>refererForURL\<close> answers that there is to be none, as its test
  demands, but the header was copied before.\<close>

theorem referer_sent_in_clear:
  "refererForURL (simple_URL ''https'' ''example.com'' ''/'') (simple_URL ''http'' ''example.com'' ''/x'') ref = [] \<and>
   (\<exists>res reqs. client_do (logged (redirect_client (\<lambda>hp. if hp = (''example.com'', ''/'') then Some (302, ''http://example.com/x'') else None)))
       (simple_request ''GET'' (simple_URL ''https'' ''example.com'' ''/'') [(''Referer'', [ref])] None) ((), []) =
       Some (Ret (res, None), ((), reqs)) \<and>
     map (\<lambda>r. u_Scheme (request_URL r)) reqs = [''https'', ''http''] \<and>
     header_values (request_header (reqs ! 1)) ''Referer'' = [ref])"
  by (simp add: client_do_def refererForURL_def, (subst do_loop.simps, simp add: redirect_run)+)

text \<open>A request without a header map, which \<open>send\<close> provides for, panics when the cookie jar has a cookie for its URL.\<close>

theorem nil_header_panics:
  assumes "ce_Jar E = Some jar" "cj_Cookies jar u w = (c # cs, w1)" "cq_URL req = Some u" "cq_Header req = None"
  shows "client_do E req w = Some (Panic ''assignment to entry in nil map'', w1)"
  using assms
  by (simp add: client_do_def, subst do_loop.simps, simp add: send_hop_def client_send_def start_state_def request_URL_def)

definition one_cookie_jar :: "unit cookie_jar" where
  "one_cookie_jar = \<lparr>cj_Cookies = (\<lambda>u w. ([new_Cookie ''a'' ''b''], w)), cj_SetCookies = (\<lambda>u cs w. w)\<rparr>"

theorem nil_header_panics_witness:
  "client_do ((redirect_client (\<lambda>_. None))\<lparr>ce_Jar := Some one_cookie_jar\<rparr>)
     ((simple_request ''GET'' (simple_URL ''https'' ''example.com'' ''/'') [] None)\<lparr>cq_Header := None\<rparr>) () =
   Some (Panic ''assignment to entry in nil map'', ())"
  by (rule nil_header_panics [where jar = one_cookie_jar and u = "simple_URL ''https'' ''example.com'' ''/''" and c = "new_Cookie ''a'' ''b''" and cs = "[]"])
    (simp_all add: one_cookie_jar_def simple_request_def)

subsection \<open>The Referer\<close>

text \<open>C35: The Referer that \<open>Do\<close> adds is the URL of the last request without its user information.\<close>

theorem referer_hides_user:
  assumes "u_Opaque u = []" "u_Host u \<noteq> []" "CHR ''@'' \<notin> set (u_Scheme u)"
    and "\<not> (u_Scheme u = ''https'' \<and> u_Scheme v = ''http'')"
  shows "refererForURL u v [] = url_String (u\<lparr>u_User := None\<rparr>)"
proof (cases "u_User u")
  case None
  then have eq: "u\<lparr>u_User := None\<rparr> = u" by (cases u) simp
  show ?thesis using assms(4) unfolding refererForURL_def eq None by auto
next
  case (Some ui)
  define s where "s = (if u_Scheme u \<noteq> [] then u_Scheme u @ '':'' else []) @ ''//''"
  define rest where "rest = url_escape host_should_escape (u_Host u) @
      (let p = EscapedPath (url_of u) in (if p \<noteq> [] \<and> hd p \<noteq> CHR ''/'' \<and> u_Host u \<noteq> [] then ''/'' else []) @ p) @
      (if u_ForceQuery u \<or> u_RawQuery u \<noteq> [] then ''?'' @ u_RawQuery u else []) @
      (if u_Fragment u \<noteq> [] then ''#'' @ EscapedFragment u else [])"
  have path: "url_of (u\<lparr>u_User := None\<rparr>) = url_of u" "EscapedFragment (u\<lparr>u_User := None\<rparr>) = EscapedFragment u"
    by (simp_all add: url_of_def EscapedFragment_def)
  have with_user: "url_String u = s @ Userinfo_String ui @ ''@'' @ rest"
    using assms(1,2) Some by (simp add: url_String_def url_path_text_def url_authority_def s_def rest_def Let_def)
  have without: "url_String (u\<lparr>u_User := None\<rparr>) = s @ rest"
    using assms(1,2) by (simp add: url_String_def url_path_text_def url_authority_def s_def rest_def Let_def path)
  have "CHR ''@'' \<notin> set s" using assms(3) by (simp add: s_def)
  from replace_first_at [OF this Userinfo_no_at, of ui rest "[]"] show ?thesis
    using Some assms(4) by (auto simp: refererForURL_def with_user without)
qed

theorem referer_hides_user_witness:
  "refererForURL ((simple_URL ''https'' ''example.com'' ''/'')\<lparr>u_User := Some (''joe'', Some ''secret'')\<rparr>) (simple_URL ''https'' ''evil.org'' ''/'') [] =
   ''https://example.com/''"
  using referer_hides_user [of "(simple_URL ''https'' ''example.com'' ''/'')\<lparr>u_User := Some (''joe'', Some ''secret'')\<rparr>" "simple_URL ''https'' ''evil.org'' ''/''"]
  by (simp add: simple_URL_def url_String_def url_path_text_def url_authority_def url_of_def EscapedPath_def path_escape_def
      path_should_escape_def url_escape_def host_should_escape_def is_alnum_def Let_def)

subsection \<open>The theorems at work\<close>

definition example_request :: cl_req where
  "example_request = simple_request ''GET'' (simple_URL ''https'' ''example.com'' ''/'') [(''Authorization'', [''x''])] None"

lemma example_run:
  "\<exists>res log. client_do (logged (redirect_client (two_redirects 302 302))) example_request ((), []) = Some (res, ((), log)) \<and>
     length log = 3 \<and> header_has (request_header (log ! 2)) ''Authorization'' \<and> u_User (request_URL (log ! 2)) = None"
  unfolding example_request_def
  by (simp add: client_do_def, (subst do_loop.simps, simp add: redirect_run)+)

lemma example_client:
  "ce_CheckRedirect (redirect_client f) = None" "ce_Jar (redirect_client f) = None" "distinct (map fst (request_header example_request))"
  by (simp_all add: redirect_client_def example_request_def simple_request_def request_header_def)



end
