(* ===== verification/Cookie_Jar_Meaning.thy ===== *)
theory Cookie_Jar_Meaning
  imports Cookie_Jar Client_Redirects
begin

section \<open>What the cookie jar gives away\<close>

text \<open>
  Histories of a jar as lists of calls. Every cookie the jar returns was set by an earlier call for a host that may share it with the
  host of the request; the jar is a finite map from domain, path and name; what is returned is exactly what matches.
\<close>

datatype jar_op = SetOp URL "Cookie list" gotime | GetOp URL gotime

fun jar_run :: "jar_op list \<Rightarrow> Jar \<Rightarrow> Jar go" where
  "jar_run [] j = Ret j"
| "jar_run (SetOp u cs t # ops) j = go_bind (setCookies u cs t j) (jar_run ops)"
| "jar_run (GetOp u t # ops) j = go_bind (jar_cookies u t j) (\<lambda>(cs, j1). jar_run ops j1)"

definition host_of :: "string \<Rightarrow> string option" where
  "host_of h = (case canonicalHost h of Ret r \<Rightarrow> r | Panic m \<Rightarrow> None)"

lemma canonicalHost_Ret: "canonicalHost h = Ret (host_of h)"
proof -
  have "\<exists>r. canonicalHost h = Ret r"
  proof (cases "if hasPort h then map_option fst (net_SplitHostPort h) else Some h")
    case (Some x)
    obtain r where "toASCII (trim_dot x) = Ret r" using toASCII_Ret by blast
    with Some show ?thesis by (simp add: canonicalHost_def)
  qed (simp add: canonicalHost_def)
  then show ?thesis by (auto simp: host_of_def)
qed

lemma hasDotSuffix_iff: "hasDotSuffix s suf \<longleftrightarrow> (\<exists>l. s = l @ ''.'' @ suf)"
proof
  assume h: "hasDotSuffix s suf"
  let ?n = "length s - length suf - 1"
  have "s = take ?n s @ s ! ?n # drop (Suc ?n) s" using h unfolding hasDotSuffix_def by (intro id_take_nth_drop) linarith
  moreover have "Suc ?n = length s - length suf" using h unfolding hasDotSuffix_def by linarith
  ultimately show "\<exists>l. s = l @ ''.'' @ suf" using h by (intro exI [of _ "take ?n s"]) (simp add: hasDotSuffix_def)
qed (auto simp: hasDotSuffix_def nth_append)

subsection \<open>The invariant\<close>

text \<open>The cookie and the call that an entry under \<open>key\<close> comes from.\<close>

definition set_by :: "jar_op list \<Rightarrow> (string \<Rightarrow> string) option \<Rightarrow> string \<Rightarrow> entry \<Rightarrow> bool" where
  "set_by hist psl key e \<longleftrightarrow>
     (\<exists>u0 cs t c h0 e0. SetOp u0 cs t \<in> set hist \<and> c \<in> set cs \<and> http_scheme u0 \<and> host_of (u_Host u0) = Some h0 \<and>
        jarKey h0 psl = key \<and> newEntry psl c t (defaultPath (u_Path u0)) h0 = Inr (e0, False) \<and>
        e = e0\<lparr>je_Creation := je_Creation e, je_seqNum := je_seqNum e, je_LastAccess := je_LastAccess e\<rparr>)"

definition submap_ok :: "jar_op list \<Rightarrow> (string \<Rightarrow> string) option \<Rightarrow> string \<Rightarrow> int \<Rightarrow> submap \<Rightarrow> bool" where
  "submap_ok hist psl key seq m \<longleftrightarrow>
     distinct (map fst m) \<and>
     (\<forall>i e. map_of m i = Some e \<longrightarrow> i = entry_id e \<and> set_by hist psl key e \<and> je_seqNum e < seq) \<and>
     (\<forall>i e i' e'. map_of m i = Some e \<longrightarrow> map_of m i' = Some e' \<longrightarrow> je_seqNum e = je_seqNum e' \<longrightarrow> i = i')"

definition jar_ok :: "jar_op list \<Rightarrow> Jar \<Rightarrow> bool" where
  "jar_ok hist j \<longleftrightarrow>
     distinct (map fst (jr_entries j)) \<and>
     (\<forall>key m. map_of (jr_entries j) key = Some m \<longrightarrow> m \<noteq> [] \<and> submap_ok hist (jr_psList j) key (jr_nextSeqNum j) m)"

lemma jar_ok_New: "jar_ok hist (jar_New psl)"
  by (simp add: jar_ok_def jar_New_def)

lemma set_by_mono: "set_by hist psl key e \<Longrightarrow> set hist \<subseteq> set hist' \<Longrightarrow> set_by hist' psl key e"
  unfolding set_by_def by blast

lemma submap_ok_mono:
  "submap_ok hist psl key seq m \<Longrightarrow> set hist \<subseteq> set hist' \<Longrightarrow> seq \<le> seq' \<Longrightarrow> submap_ok hist' psl key seq' m"
  unfolding submap_ok_def by (meson less_le_trans set_by_mono)

lemma set_by_touch:
  assumes "set_by hist psl key e"
  shows "set_by hist psl key (e\<lparr>je_LastAccess := t\<rparr>)"
proof -
  have stamp: "e\<lparr>je_LastAccess := t\<rparr> = e0\<lparr>je_Creation := je_Creation (e\<lparr>je_LastAccess := t\<rparr>), je_seqNum := je_seqNum (e\<lparr>je_LastAccess := t\<rparr>),
      je_LastAccess := je_LastAccess (e\<lparr>je_LastAccess := t\<rparr>)\<rparr>"
    if "e = e0\<lparr>je_Creation := je_Creation e, je_seqNum := je_seqNum e, je_LastAccess := je_LastAccess e\<rparr>" for e0 :: entry
    using that by (cases e; cases e0) simp
  from assms show ?thesis unfolding set_by_def by (elim exE conjE) (intro exI conjI stamp; assumption)
qed

lemma entry_id_stamp [simp]: "entry_id (e\<lparr>je_LastAccess := t\<rparr>) = entry_id e" "entry_id (e\<lparr>je_seqNum := n\<rparr>) = entry_id e"
  "entry_id (e\<lparr>je_Creation := t\<rparr>) = entry_id e"
  by (simp_all add: entry_id_def)

text \<open>Adding or replacing an entry.\<close>

lemma submap_ok_update:
  assumes "submap_ok hist psl key seq m" "set_by hist psl key e" "seq \<le> seq'" "je_seqNum e < seq'"
    and "\<And>i e'. map_of m i = Some e' \<Longrightarrow> je_seqNum e' = je_seqNum e \<Longrightarrow> i = entry_id e"
  shows "submap_ok hist psl key seq' (AList.update (entry_id e) e m)"
proof -
  have lt: "map_of m i = Some x \<Longrightarrow> je_seqNum x < seq'" for i x using assms(1,3) unfolding submap_ok_def by (meson less_le_trans)
  show ?thesis unfolding submap_ok_def
  proof (intro conjI allI impI)
    show "distinct (map fst (AList.update (entry_id e) e m))" using assms(1) by (simp add: submap_ok_def distinct_update)
    fix i x assume x: "map_of (AList.update (entry_id e) e m) i = Some x"
    show "i = entry_id x" "set_by hist psl key x" "je_seqNum x < seq'"
      using x assms(1,2,4) lt by (auto simp: update_conv' submap_ok_def split: if_splits)
    fix i' x' assume "map_of (AList.update (entry_id e) e m) i' = Some x'" "je_seqNum x = je_seqNum x'"
    with x assms(1,5) show "i = i'" unfolding submap_ok_def by (auto simp: update_conv' split: if_splits)
  qed
qed

lemma submap_ok_delete: "submap_ok hist psl key seq m \<Longrightarrow> submap_ok hist psl key seq (AList.delete i m)"
  unfolding submap_ok_def by (auto simp: delete_conv' distinct_delete split: if_splits)

definition the_submap :: "submap option \<Rightarrow> submap" where
  "the_submap sub = (case sub of None \<Rightarrow> [] | Some m \<Rightarrow> m)"

lemma set_loop_ok:
  assumes "SetOp u0 cs0 t \<in> set hist" "http_scheme u0" "host_of (u_Host u0) = Some h0" "jarKey h0 psl = key"
  shows "set cs \<subseteq> set cs0 \<Longrightarrow> submap_ok hist psl key seq (the_submap sub) \<Longrightarrow>
    set_loop psl t (defaultPath (u_Path u0)) h0 cs (sub, seq, modi) = (sub', seq', modi') \<Longrightarrow>
    submap_ok hist psl key seq' (the_submap sub') \<and> seq \<le> seq' \<and> (\<not> modi' \<longrightarrow> \<not> modi \<and> sub' = sub)"
proof (induction cs arbitrary: sub seq modi)
  case (Cons c cs)
  note IH = Cons.IH
  have cs: "set cs \<subseteq> set cs0" "c \<in> set cs0" using Cons.prems(1) by auto
  note ok = Cons.prems(2)
  show ?case
  proof (cases "newEntry psl c t (defaultPath (u_Path u0)) h0")
    case (Inl err)
    with Cons show ?thesis by auto
  next
    case (Inr er)
    obtain e remove where er: "er = (e, remove)" by fastforce
    show ?thesis
    proof (cases remove)
      case True
      show ?thesis
      proof (cases "sub = None \<or> map_of (the_submap sub) (entry_id e) = None")
        case True
        with \<open>remove\<close> Inr er Cons.prems(3)
        have "set_loop psl t (defaultPath (u_Path u0)) h0 cs (sub, seq, modi) = (sub', seq', modi')"
          by (cases sub) (auto simp: the_submap_def Let_def)
        from IH [OF cs(1) ok this] show ?thesis .
      next
        case False
        then obtain m where m: "sub = Some m" "map_of m (entry_id e) \<noteq> None" by (auto simp: the_submap_def)
        with \<open>remove\<close> Inr er Cons.prems(3)
        have "set_loop psl t (defaultPath (u_Path u0)) h0 cs (Some (AList.delete (entry_id e) m), seq, True) = (sub', seq', modi')"
          by (simp add: Let_def)
        from IH [OF cs(1) _ this] ok m show ?thesis by (simp add: the_submap_def submap_ok_delete)
      qed
    next
      case False
      have from_e: "set_by hist psl key (e\<lparr>je_Creation := x, je_seqNum := y, je_LastAccess := z\<rparr>)" for x y z
        unfolding set_by_def using assms cs(2) Inr er False by fastforce
      show ?thesis
      proof (cases "map_of (the_submap sub) (entry_id e)")
        case None
        let ?e = "e\<lparr>je_Creation := t, je_seqNum := seq, je_LastAccess := t\<rparr>"
        have "submap_ok hist psl key (seq + 1) (AList.update (entry_id ?e) ?e (the_submap sub))"
          by (rule submap_ok_update [OF ok from_e]) (use ok in \<open>fastforce simp: submap_ok_def\<close>)+
        moreover have "set_loop psl t (defaultPath (u_Path u0)) h0 cs (Some (AList.update (entry_id e) ?e (the_submap sub)), seq + 1, True) = (sub', seq', modi')"
          using Cons.prems(3) Inr er False None by (simp add: Let_def the_submap_def)
        ultimately show ?thesis using IH [OF cs(1), of "seq + 1" "Some (AList.update (entry_id e) ?e (the_submap sub))" True]
          by (simp add: the_submap_def)
      next
        case (Some old)
        let ?e = "e\<lparr>je_Creation := je_Creation old, je_seqNum := je_seqNum old, je_LastAccess := t\<rparr>"
        have "submap_ok hist psl key seq (AList.update (entry_id ?e) ?e (the_submap sub))"
          by (rule submap_ok_update [OF ok from_e]) (use ok Some in \<open>auto simp: submap_ok_def simp del: map_of_eq_Some_iff\<close>)
        moreover have "set_loop psl t (defaultPath (u_Path u0)) h0 cs (Some (AList.update (entry_id e) ?e (the_submap sub)), seq, True) = (sub', seq', modi')"
          using Cons.prems(3) Inr er False Some by (simp add: Let_def the_submap_def)
        ultimately show ?thesis using IH [OF cs(1), of seq "Some (AList.update (entry_id e) ?e (the_submap sub))" True]
          by (simp add: the_submap_def)
      qed
    qed
  qed
qed auto

text \<open>What a request does to an entry, and the submap after it.\<close>

definition touched :: "gotime \<Rightarrow> bool \<Rightarrow> string \<Rightarrow> string \<Rightarrow> entry \<Rightarrow> entry" where
  "touched now https host path e = (if shouldSend e https host path then e\<lparr>je_LastAccess := now\<rparr> else e)"

lemma map_of_kept:
  "distinct (map fst m) \<Longrightarrow> map_of (map (\<lambda>(i, e). (i, f e)) (filter (\<lambda>(i, e). p e) m)) i =
     (case map_of m i of Some e \<Rightarrow> if p e then Some (f e) else None | None \<Rightarrow> None)"
proof (induction m)
  case (Cons a m)
  obtain k e where a: "a = (k, e)" by fastforce
  with Cons.prems have "map_of m k = None" by (simp add: map_of_eq_None_iff)
  with Cons show ?case by (cases "i = k") (auto simp: a simp del: map_of_eq_Some_iff map_of_eq_None_iff)
qed simp

lemma select_fst:
  "fst (select now https host path m) = map (\<lambda>(i, e). (i, touched now https host path e)) (filter (\<lambda>(i, e). \<not> expired now e) m)"
  by (simp add: select_def Let_def touched_def)

lemma select_snd: "snd (select now https host path m) = [e \<leftarrow> map snd (fst (select now https host path m)). shouldSend e https host path]"
  by (simp add: select_def Let_def)

lemma shouldSend_touched [simp]: "shouldSend (touched now a b c e) https host path = shouldSend e https host path"
proof -
  have "shouldSend (e\<lparr>je_LastAccess := now\<rparr>) https host path = shouldSend e https host path"
    by (simp add: shouldSend_def domainMatch_def pathMatch_def)
  then show ?thesis by (simp add: touched_def)
qed

lemma touched_simps [simp]: "je_seqNum (touched now a b c e) = je_seqNum e" "entry_id (touched now a b c e) = entry_id e"
  "je_Name (touched now a b c e) = je_Name e" "je_Value (touched now a b c e) = je_Value e" "je_Path (touched now a b c e) = je_Path e"
  "je_Creation (touched now a b c e) = je_Creation e" "expired t (touched now a b c e) = expired t e"
  by (simp_all add: touched_def entry_id_def expired_def)

lemma submap_ok_select:
  assumes "submap_ok hist psl key seq m"
  shows "submap_ok hist psl key seq (fst (select now https host path m))"
proof -
  have d: "distinct (map fst m)" using assms by (simp add: submap_ok_def)
  have "distinct (map fst (fst (select now https host path m)))"
    using d by (simp add: select_fst comp_def case_prod_beta distinct_map_filter)
  moreover have "set_by hist psl key (touched now https host path e)" if "set_by hist psl key e" for e
    using that set_by_touch by (simp add: touched_def)
  ultimately show ?thesis
    using assms unfolding submap_ok_def select_fst map_of_kept [OF d]
    by (auto split: option.splits if_splits simp del: map_of_eq_Some_iff)
qed

lemma map_of_put_submap:
  "distinct (map fst es) \<Longrightarrow> map_of (put_submap key m es) k = (if k = key then (if m = [] then None else Some m) else map_of es k)"
  by (simp add: put_submap_def delete_conv' update_conv')

lemma jar_ok_put:
  assumes "jar_ok hist j" "submap_ok hist (jr_psList j) key seq m" "jr_nextSeqNum j \<le> seq"
  shows "jar_ok hist (j\<lparr>jr_nextSeqNum := seq, jr_entries := put_submap key m (jr_entries j)\<rparr>)"
proof -
  have d: "distinct (map fst (jr_entries j))" using assms(1) by (simp add: jar_ok_def)
  then have "distinct (map fst (put_submap key m (jr_entries j)))" by (simp add: put_submap_def distinct_delete distinct_update)
  then show ?thesis using assms d unfolding jar_ok_def
    by (auto simp: map_of_put_submap simp del: map_of_eq_Some_iff split: if_splits intro: submap_ok_mono)
qed

lemma jar_ok_mono: "jar_ok hist j \<Longrightarrow> set hist \<subseteq> set hist' \<Longrightarrow> jar_ok hist' j"
  unfolding jar_ok_def by (blast intro: submap_ok_mono)

lemma jar_ok_submap: "jar_ok hist j \<Longrightarrow> submap_ok hist (jr_psList j) key (jr_nextSeqNum j) (the_submap (map_of (jr_entries j) key))"
  by (cases "map_of (jr_entries j) key") (auto simp: the_submap_def jar_ok_def submap_ok_def simp del: map_of_eq_Some_iff)

lemma setCookies_ok:
  assumes "jar_ok hist j" "SetOp u cs t \<in> set hist"
  shows "\<exists>j1. setCookies u cs t j = Ret j1 \<and> jar_ok hist j1 \<and> jr_psList j1 = jr_psList j"
proof (cases "cs = [] \<or> \<not> http_scheme u \<or> host_of (u_Host u) = None")
  case True
  then show ?thesis using assms(1) by (auto simp: setCookies_def canonicalHost_Ret)
next
  case False
  then obtain h where h: "host_of (u_Host u) = Some h" by blast
  define key where "key = jarKey h (jr_psList j)"
  obtain sub seq modi where l: "set_loop (jr_psList j) t (defaultPath (u_Path u)) h cs (map_of (jr_entries j) key, jr_nextSeqNum j, False) = (sub, seq, modi)"
    by (metis surj_pair)
  from set_loop_ok [OF assms(2) _ h key_def [symmetric] order_refl jar_ok_submap [OF assms(1)] l] False
  have ok: "submap_ok hist (jr_psList j) key seq (the_submap sub)" "jr_nextSeqNum j \<le> seq" "\<not> modi \<Longrightarrow> sub = map_of (jr_entries j) key" by auto
  have "setCookies u cs t j = Ret (if modi then j\<lparr>jr_nextSeqNum := seq, jr_entries := put_submap key (the_submap sub) (jr_entries j)\<rparr>
      else j\<lparr>jr_nextSeqNum := seq\<rparr>)"
    using False h l by (simp add: setCookies_def canonicalHost_Ret Let_def key_def [symmetric] the_submap_def)
  moreover have "jar_ok hist (j\<lparr>jr_nextSeqNum := seq\<rparr>)"
    using assms(1) ok(2) unfolding jar_ok_def by (auto intro: submap_ok_mono simp del: map_of_eq_Some_iff)
  ultimately show ?thesis using jar_ok_put [OF assms(1) ok(1,2)] by auto
qed

lemma cookies_ok:
  assumes "jar_ok hist j"
  shows "\<exists>cs j1. jar_cookies u t j = Ret (cs, j1) \<and> jar_ok hist j1 \<and> jr_psList j1 = jr_psList j"
proof (cases "\<not> http_scheme u \<or> host_of (u_Host u) = None")
  case True
  then show ?thesis using assms by (auto simp: jar_cookies_def canonicalHost_Ret)
next
  case False
  then obtain h where h: "host_of (u_Host u) = Some h" by blast
  define key where "key = jarKey h (jr_psList j)"
  show ?thesis
  proof (cases "map_of (jr_entries j) key")
    case None
    with False h assms show ?thesis by (auto simp: jar_cookies_def canonicalHost_Ret Let_def key_def)
  next
    case (Some m)
    obtain m1 sel where s: "select t (u_Scheme u = ''https'') h (request_path u) m = (m1, sel)" by fastforce
    have "submap_ok hist (jr_psList j) key (jr_nextSeqNum j) m1"
      using submap_ok_select [of hist "jr_psList j" key "jr_nextSeqNum j" m] jar_ok_submap [OF assms, of key] Some s
      by (metis fst_conv option.simps(5) the_submap_def)
    from jar_ok_put [OF assms this order_refl] have "jar_ok hist (j\<lparr>jr_entries := put_submap key m1 (jr_entries j)\<rparr>)" by simp
    with False h Some s assms show ?thesis
      by (auto simp: jar_cookies_def canonicalHost_Ret Let_def key_def [symmetric] simp del: map_of_eq_Some_iff)
  qed
qed

lemma jar_run_ok:
  "jar_ok hist j \<Longrightarrow> set ops \<subseteq> set hist \<Longrightarrow> \<exists>j1. jar_run ops j = Ret j1 \<and> jar_ok hist j1 \<and> jr_psList j1 = jr_psList j"
proof (induction ops arbitrary: j)
  case (Cons op ops)
  show ?case
  proof (cases op)
    case (SetOp u cs t)
    with Cons.prems obtain j1 where "setCookies u cs t j = Ret j1" "jar_ok hist j1" "jr_psList j1 = jr_psList j"
      using setCookies_ok by (metis list.set_intros(1) subset_iff)
    moreover obtain j2 where "jar_run ops j1 = Ret j2" "jar_ok hist j2" "jr_psList j2 = jr_psList j1"
      using Cons.IH [OF \<open>jar_ok hist j1\<close>] Cons.prems(2) by auto
    ultimately show ?thesis using SetOp by auto
  next
    case (GetOp u t)
    with Cons.prems obtain cs j1 where "jar_cookies u t j = Ret (cs, j1)" "jar_ok hist j1" "jr_psList j1 = jr_psList j"
      using cookies_ok by blast
    moreover obtain j2 where "jar_run ops j1 = Ret j2" "jar_ok hist j2" "jr_psList j2 = jr_psList j1"
      using Cons.IH [OF \<open>jar_ok hist j1\<close>] Cons.prems(2) by auto
    ultimately show ?thesis using GetOp by auto
  qed
qed simp

subsection \<open>Confinement\<close>

text \<open>A domain attribute \<open>attr\<close> that host \<open>h0\<close> may set and that lets \<open>h\<close> have the cookie.\<close>

definition shares_domain :: "(string \<Rightarrow> string) option \<Rightarrow> string \<Rightarrow> string \<Rightarrow> string \<Rightarrow> bool" where
  "shares_domain psl attr h0 h \<longleftrightarrow>
     \<not> isIP h0 \<and>
     (\<exists>d. d \<noteq> [] \<and> (attr = d \<or> attr = ''.'' @ d \<or> map lower attr = d \<or> map lower attr = ''.'' @ d) \<and>
        (h0 = d \<or> (\<exists>l. h0 = l @ ''.'' @ d)) \<and> (h = d \<or> (\<exists>l. h = l @ ''.'' @ d)) \<and>
        (case psl of None \<Rightarrow> True | Some ps \<Rightarrow> ps d = [] \<or> (\<exists>l. d = l @ ''.'' @ ps d)))"

lemma domainAndType_cases:
  assumes "domainAndType psl h0 attr = Inr (d, hostOnly)"
  shows "hostOnly \<and> d = h0 \<or>
    \<not> hostOnly \<and> (\<forall>h. h = d \<or> hasDotSuffix h d \<longrightarrow> shares_domain psl attr h0 h)"
proof (cases "hostOnly")
  case True
  with assms show ?thesis by (auto simp: domainAndType_def domain_cookie_def split: if_splits option.splits prod.splits)
next
  case False
  define a where "a = (if hd attr = CHR ''.'' then tl attr else attr)"
  from assms False have ip: "\<not> isIP h0" and ne: "attr \<noteq> []" and dc: "domain_cookie psl h0 a = Inr (d, False)"
    by (auto simp: domainAndType_def a_def split: if_splits)
  have a: "a \<noteq> []" "d = map lower a" "h0 = d \<or> hasDotSuffix h0 d"
    "case psl of None \<Rightarrow> True | Some ps \<Rightarrow> ps d = [] \<or> hasDotSuffix d (ps d)"
    using dc by (auto simp: domain_cookie_def ascii_ToLower_def split: if_splits option.splits)
  have "map lower attr = d \<or> map lower attr = ''.'' @ d"
    using ne a(2) by (cases attr) (auto simp: a_def lower_def)
  then have "shares_domain psl attr h0 h" if "h = d \<or> hasDotSuffix h d" for h
    unfolding shares_domain_def using that a ip
    by (intro conjI exI [of _ d]) (auto simp: hasDotSuffix_iff split: option.splits)
  with False show ?thesis by blast
qed

lemma newEntry_False:
  assumes "newEntry psl c t defPath h0 = Inr (e, False)"
  obtains d hostOnly where "domainAndType psl h0 (ck_Domain c) = Inr (d, hostOnly)" "je_Domain e = d" "je_HostOnly e = hostOnly"
    "je_Name e = ck_Name c" "je_Value e = ck_Value c" "je_Secure e = ck_Secure c"
    "je_Path e = (if ck_Path c = [] \<or> hd (ck_Path c) \<noteq> CHR ''/'' then defPath else ck_Path c)"
    "0 \<le> ck_MaxAge c" "0 < ck_MaxAge c \<Longrightarrow> je_Persistent e \<and> je_Expires e = max_age_time t (ck_MaxAge c)"
    "ck_MaxAge c = 0 \<Longrightarrow> ck_Expires c \<noteq> zero_time \<Longrightarrow> je_Persistent e \<and> je_Expires e = ck_Expires c"
  using assms that
  by (auto simp: newEntry_def Let_def blank_entry_def fill_entry_def split: sum.splits prod.splits if_splits)

definition still_valid :: "Cookie \<Rightarrow> gotime \<Rightarrow> gotime \<Rightarrow> bool" where
  "still_valid c t now \<longleftrightarrow>
     (if ck_MaxAge c > 0 then now < max_age_time t (ck_MaxAge c)
      else ck_MaxAge c = 0 \<and> (ck_Expires c = zero_time \<or> now < ck_Expires c))"

definition covers_path :: "string \<Rightarrow> string \<Rightarrow> bool" where
  "covers_path p r \<longleftrightarrow> r = p \<or> (\<exists>s. r = p @ s \<and> s \<noteq> [] \<and> (last p = CHR ''/'' \<or> hd s = CHR ''/''))"

lemma pathMatch_covers: "pathMatch e r \<longleftrightarrow> covers_path (je_Path e) r"
proof -
  have "r ! length p = hd s" if "r = p @ s" "s \<noteq> []" for p s using that by (simp add: nth_append hd_conv_nth)
  then show ?thesis
    by (auto simp: pathMatch_def covers_path_def has_prefix_def prefix_def nth_append hd_conv_nth split: if_splits)
qed

text \<open>What one call returns, from the submap that it looks at.\<close>

lemma jar_cookies_sent:
  assumes "jar_cookies u now j = Ret (cs, j1)" "ck \<in> set cs" "jar_ok hist j"
  obtains h i e where "http_scheme u" "host_of (u_Host u) = Some h"
    "map_of (the_submap (map_of (jr_entries j) (jarKey h (jr_psList j)))) i = Some e"
    "\<not> expired now e" "shouldSend e (u_Scheme u = ''https'') h (request_path u)"
    "ck_Name ck = je_Name e" "ck_Value ck = je_Value e"
proof -
  obtain h where h: "http_scheme u" "host_of (u_Host u) = Some h"
    using assms(1,2) by (cases "host_of (u_Host u)") (auto simp: jar_cookies_def canonicalHost_Ret split: if_splits)
  obtain m where m: "map_of (jr_entries j) (jarKey h (jr_psList j)) = Some m"
    using assms(1,2) h by (cases "map_of (jr_entries j) (jarKey h (jr_psList j))") (auto simp: jar_cookies_def canonicalHost_Ret Let_def)
  obtain m1 sel where s: "select now (u_Scheme u = ''https'') h (request_path u) m = (m1, sel)" by fastforce
  have "cs = map (\<lambda>e. new_Cookie (je_Name e) (je_Value e)) (sort_key sort_order sel)"
    using assms(1) h m s by (auto simp: jar_cookies_def canonicalHost_Ret Let_def)
  with assms(2) obtain e1 where e1: "e1 \<in> set sel" "ck = new_Cookie (je_Name e1) (je_Value e1)" by auto
  have "sel = [e \<leftarrow> map snd m1. shouldSend e (u_Scheme u = ''https'') h (request_path u)]"
    using select_snd [of now "u_Scheme u = ''https''" h "request_path u" m] s by simp
  with e1 obtain i where i: "(i, e1) \<in> set m1" "shouldSend e1 (u_Scheme u = ''https'') h (request_path u)" by auto
  with select_fst [of now "u_Scheme u = ''https''" h "request_path u" m] s
  obtain e where e: "(i, e) \<in> set m" "\<not> expired now e" "e1 = touched now (u_Scheme u = ''https'') h (request_path u) e" by auto
  have "distinct (map fst m)" using assms(3) m by (auto simp: jar_ok_def submap_ok_def simp del: map_of_eq_Some_iff)
  with e(1) have "map_of m i = Some e" by simp
  with h m e i e1 show thesis by (intro that [of h i e]) (auto simp: the_submap_def new_Cookie_def)
qed

text \<open>C36: Confinement: whatever calls were made, a cookie that is returned for a URL was set by an earlier call, with this value, for the
  same host or with a domain that both hosts lie in and that is no public suffix; a secure cookie goes to https only, and the
  path and the lifetime of the cookie cover the request.\<close>

theorem jar_confined:
  assumes "jar_run ops (jar_New psl) = Ret j" "jar_cookies u now j = Ret (cs, j1)" "ck \<in> set cs"
  shows "\<exists>u0 cs0 t c h0 h. SetOp u0 cs0 t \<in> set ops \<and> c \<in> set cs0 \<and> ck_Name ck = ck_Name c \<and> ck_Value ck = ck_Value c \<and>
     host_of (u_Host u0) = Some h0 \<and> host_of (u_Host u) = Some h \<and>
     (h = h0 \<or> shares_domain psl (ck_Domain c) h0 h) \<and> (ck_Secure c \<longrightarrow> u_Scheme u = ''https'') \<and>
     covers_path (if ck_Path c = [] \<or> hd (ck_Path c) \<noteq> CHR ''/'' then defaultPath (u_Path u0) else ck_Path c) (request_path u) \<and>
     still_valid c t now"
proof -
  from jar_run_ok [OF jar_ok_New order_refl, of ops psl] assms(1) have ok: "jar_ok ops j" "jr_psList j = psl"
    by (auto simp: jar_New_def)
  from jar_cookies_sent [OF assms(2,3) ok(1)] obtain h i e where h: "host_of (u_Host u) = Some h"
    and e: "map_of (the_submap (map_of (jr_entries j) (jarKey h psl))) i = Some e"
      "\<not> expired now e" "shouldSend e (u_Scheme u = ''https'') h (request_path u)" and ck: "ck_Name ck = je_Name e" "ck_Value ck = je_Value e"
    unfolding ok(2) by blast
  from jar_ok_submap [OF ok(1), of "jarKey h psl"] e(1) have "set_by ops psl (jarKey h psl) e" unfolding ok(2) submap_ok_def by blast
  then obtain u0 cs0 t c h0 e0 where s: "SetOp u0 cs0 t \<in> set ops" "c \<in> set cs0" "host_of (u_Host u0) = Some h0"
    "newEntry psl c t (defaultPath (u_Path u0)) h0 = Inr (e0, False)"
    "e = e0\<lparr>je_Creation := je_Creation e, je_seqNum := je_seqNum e, je_LastAccess := je_LastAccess e\<rparr>"
    unfolding set_by_def by blast
  have same: "je_Name e = je_Name e0" "je_Value e = je_Value e0" "je_Secure e = je_Secure e0" "je_Path e = je_Path e0"
    "je_Domain e = je_Domain e0" "je_HostOnly e = je_HostOnly e0" "je_Persistent e = je_Persistent e0" "je_Expires e = je_Expires e0"
    using s(5) by (cases e; cases e0; simp)+
  from newEntry_False [OF s(4)] obtain d hostOnly where ne: "domainAndType psl h0 (ck_Domain c) = Inr (d, hostOnly)" "je_Domain e0 = d"
    "je_HostOnly e0 = hostOnly" "je_Name e0 = ck_Name c" "je_Value e0 = ck_Value c" "je_Secure e0 = ck_Secure c"
    "je_Path e0 = (if ck_Path c = [] \<or> hd (ck_Path c) \<noteq> CHR ''/'' then defaultPath (u_Path u0) else ck_Path c)"
    "0 \<le> ck_MaxAge c" "0 < ck_MaxAge c \<Longrightarrow> je_Persistent e0 \<and> je_Expires e0 = max_age_time t (ck_MaxAge c)"
    "ck_MaxAge c = 0 \<Longrightarrow> ck_Expires c \<noteq> zero_time \<Longrightarrow> je_Persistent e0 \<and> je_Expires e0 = ck_Expires c" by blast
  have "h = d \<or> (\<not> hostOnly \<and> hasDotSuffix h d)" using e(3) ne(2,3) same by (auto simp: shouldSend_def domainMatch_def split: if_splits)
  with domainAndType_cases [OF ne(1)] have "h = h0 \<or> shares_domain psl (ck_Domain c) h0 h" by blast
  moreover have "still_valid c t now" using e(2) ne(8-10) same(7,8)
    by (cases "ck_MaxAge c = 0"; cases "ck_Expires c = zero_time") (auto simp: still_valid_def expired_def)
  moreover have "covers_path (if ck_Path c = [] \<or> hd (ck_Path c) \<noteq> CHR ''/'' then defaultPath (u_Path u0) else ck_Path c) (request_path u)"
    using e(3) same ne(7) by (simp add: shouldSend_def pathMatch_covers)
  moreover have "ck_Secure c \<longrightarrow> u_Scheme u = ''https''" using e(3) same ne(6) by (auto simp: shouldSend_def)
  ultimately show ?thesis using s(1-3) h ck same ne(4,5) by metis
qed


subsection \<open>The jar as a map\<close>

definition jar_lookup :: "Jar \<Rightarrow> string \<Rightarrow> string \<Rightarrow> entry option" where
  "jar_lookup j key i = map_of (the_submap (map_of (jr_entries j) key)) i"

definition stamped :: "Jar \<Rightarrow> string \<Rightarrow> gotime \<Rightarrow> entry \<Rightarrow> entry" where
  "stamped j key t e =
     (case jar_lookup j key (entry_id e) of
        Some old \<Rightarrow> e\<lparr>je_Creation := je_Creation old, je_seqNum := je_seqNum old, je_LastAccess := t\<rparr>
      | None \<Rightarrow> e\<lparr>je_Creation := t, je_seqNum := jr_nextSeqNum j, je_LastAccess := t\<rparr>)"

lemma set_one_lookup:
  assumes "jar_ok hist j" "setCookies u [c] t j = Ret j1"
    "http_scheme u" "host_of (u_Host u) = Some h" "newEntry (jr_psList j) c t (defaultPath (u_Path u)) h = Inr (e, remove)"
  shows "jar_lookup j1 key i =
     (if key = jarKey h (jr_psList j) \<and> i = entry_id e then (if remove then None else Some (stamped j key t e)) else jar_lookup j key i)"
proof -
  define k where "k = jarKey h (jr_psList j)"
  define m where "m = the_submap (map_of (jr_entries j) k)"
  have d: "distinct (map fst (jr_entries j))" using assms(1) by (simp add: jar_ok_def)
  have nil: "map_of (jr_entries j) k \<noteq> Some []" using assms(1) by (auto simp: jar_ok_def simp del: map_of_eq_Some_iff)
  have put: "jar_lookup (j\<lparr>jr_nextSeqNum := q, jr_entries := put_submap k m1 (jr_entries j)\<rparr>) key i =
      (if key = k then map_of m1 i else jar_lookup j key i)" for q m1
    by (simp add: jar_lookup_def map_of_put_submap [OF d] the_submap_def)
  have put0: "jar_lookup (j\<lparr>jr_entries := put_submap k m1 (jr_entries j)\<rparr>) key i =
      (if key = k then map_of m1 i else jar_lookup j key i)" for m1
    by (simp add: jar_lookup_def map_of_put_submap [OF d] the_submap_def)
  have j1: "j1 = (if remove then (if map_of m (entry_id e) = None then j
        else j\<lparr>jr_nextSeqNum := jr_nextSeqNum j, jr_entries := put_submap k (AList.delete (entry_id e) m) (jr_entries j)\<rparr>)
      else (let q = (if map_of m (entry_id e) = None then jr_nextSeqNum j + 1 else jr_nextSeqNum j)
            in j\<lparr>jr_nextSeqNum := q, jr_entries := put_submap k (AList.update (entry_id e) (stamped j k t e) m) (jr_entries j)\<rparr>))"
    using assms(2-5) nil
    by (cases "map_of (jr_entries j) k"; cases remove; cases "map_of m (entry_id e)")
      (auto simp: setCookies_def canonicalHost_Ret Let_def k_def [symmetric] m_def the_submap_def stamped_def jar_lookup_def simp del: map_of_eq_Some_iff)
  have l: "jar_lookup j k i = map_of m i" by (simp add: jar_lookup_def m_def)
  show ?thesis
  proof (cases remove)
    case True
    then show ?thesis unfolding j1 k_def [symmetric] using put0 l by (auto simp: delete_conv' simp del: map_of_eq_Some_iff)
  next
    case False
    then show ?thesis unfolding j1 k_def [symmetric] Let_def using put l by (auto simp: update_conv' simp del: map_of_eq_Some_iff)
  qed
qed

text \<open>C39: The jar refines a finite map: setting a cookie replaces or removes exactly the entry with its domain, path and name under the
  key of the host, keeps the creation time of the entry it replaces, and changes nothing else.\<close>

theorem jar_set_is_update:
  assumes "jar_run ops (jar_New psl) = Ret j" "setCookies u [c] t j = Ret j1" "http_scheme u" "host_of (u_Host u) = Some h"
    "newEntry psl c t (defaultPath (u_Path u)) h = Inr (e, remove)"
  shows "jar_lookup j1 key i =
     (if key = jarKey h psl \<and> i = entry_id e then (if remove then None else Some (stamped j key t e)) else jar_lookup j key i)"
proof -
  from jar_run_ok [OF jar_ok_New order_refl, of ops psl] assms(1) have ok: "jar_ok ops j" "jr_psList j = psl"
    by (auto simp: jar_New_def)
  from set_one_lookup [OF ok(1) assms(2-4), unfolded ok(2), OF assms(5)] show ?thesis .
qed

subsection \<open>What a request gets\<close>

text \<open>The order of RFC 6265: longer paths first, then earlier creation, then earlier arrival.\<close>

definition sent_before :: "entry \<Rightarrow> entry \<Rightarrow> bool" where
  "sent_before a b \<longleftrightarrow>
     length (je_Path a) > length (je_Path b) \<or>
     length (je_Path a) = length (je_Path b) \<and>
       (je_Creation a < je_Creation b \<or> je_Creation a = je_Creation b \<and> je_seqNum a < je_seqNum b)"

lemma sort_order_less: "sort_order a < sort_order b \<longleftrightarrow> sent_before a b"
  by (auto simp: sort_order_def sent_before_def)

lemma cookies_lookup:
  assumes ok: "jar_ok hist j" and c: "jar_cookies u now j = Ret (cs, j1)" "http_scheme u" "host_of (u_Host u) = Some h"
  defines "key \<equiv> jarKey h (jr_psList j)"
  shows "\<exists>es. cs = map (\<lambda>e. new_Cookie (je_Name e) (je_Value e)) es \<and> sorted_wrt sent_before es \<and>
     set es = {touched now (u_Scheme u = ''https'') h (request_path u) e |e i. jar_lookup j key i = Some e \<and> \<not> expired now e \<and>
       shouldSend e (u_Scheme u = ''https'') h (request_path u)}"
    and "jar_lookup j1 k i = (if k = key then
       (case jar_lookup j k i of Some e \<Rightarrow> if expired now e then None else Some (touched now (u_Scheme u = ''https'') h (request_path u) e) | None \<Rightarrow> None)
       else jar_lookup j k i)"
proof -
  define m where "m = the_submap (map_of (jr_entries j) key)"
  obtain m1 sel where s: "select now (u_Scheme u = ''https'') h (request_path u) m = (m1, sel)" by fastforce
  note fst = select_fst [of now "u_Scheme u = ''https''" h "request_path u" m, unfolded s fst_conv]
  note snd = select_snd [of now "u_Scheme u = ''https''" h "request_path u" m, unfolded s fst_conv snd_conv]
  have okm: "submap_ok hist (jr_psList j) key (jr_nextSeqNum j) m" using jar_ok_submap [OF ok] by (simp add: m_def)
  have okm1: "submap_ok hist (jr_psList j) key (jr_nextSeqNum j) m1"
    using submap_ok_select [OF okm, of now "u_Scheme u = ''https''" h "request_path u"] s by simp
  have d: "distinct (map fst (jr_entries j))" "distinct (map fst m)" using ok okm by (simp_all add: jar_ok_def submap_ok_def)
  have empty: "sel = [] \<and> m1 = []" if "m = []" using fst snd that by simp
  have cs: "cs = map (\<lambda>e. new_Cookie (je_Name e) (je_Value e)) (sort_key sort_order sel)"
    and j1: "j1 = (if m1 = m \<and> sel = [] then j else j\<lparr>jr_entries := put_submap key m1 (jr_entries j)\<rparr>)"
    using c s empty by (cases "map_of (jr_entries j) key"; auto simp: jar_cookies_def canonicalHost_Ret Let_def key_def m_def the_submap_def)+
  have seqs: "distinct (map je_seqNum (map snd m1))"
  proof -
    have "a = b" if "a \<in> set m1" "b \<in> set m1" "je_seqNum (snd a) = je_seqNum (snd b)" for a b
      using okm1 that unfolding submap_ok_def by (metis eq_key_imp_eq_value map_of_eq_Some_iff prod.collapse)
    moreover have "distinct m1" using okm1 by (simp add: submap_ok_def distinct_map)
    ultimately show ?thesis by (auto simp: distinct_map inj_on_def)
  qed
  have "distinct (map sort_order sel)"
  proof -
    have "distinct (map je_seqNum sel)" using seqs unfolding snd by (rule distinct_map_filter)
    then have "distinct (map (\<lambda>t. snd (snd t)) (map sort_order sel))" by (simp add: sort_order_def comp_def)
    then show ?thesis by (rule distinct_map [THEN iffD1, THEN conjunct1])
  qed
  then have "distinct (map sort_order (sort_key sort_order sel))"
    by (metis distinct_map distinct_sort set_sort)
  then have "sorted_wrt (<) (map sort_order (sort_key sort_order sel))" by (simp add: strict_sorted_iff)
  then have sorted: "sorted_wrt sent_before (sort_key sort_order sel)" by (simp add: sorted_wrt_map sort_order_less)
  have "(i, e) \<in> set m \<longleftrightarrow> jar_lookup j key i = Some e" for i e using d(2) by (simp add: jar_lookup_def m_def)
  then have "set (sort_key sort_order sel) = {touched now (u_Scheme u = ''https'') h (request_path u) e |e i. jar_lookup j key i = Some e \<and> \<not> expired now e \<and>
       shouldSend e (u_Scheme u = ''https'') h (request_path u)}"
    unfolding snd fst by force
  with cs sorted show "\<exists>es. cs = map (\<lambda>e. new_Cookie (je_Name e) (je_Value e)) es \<and> sorted_wrt sent_before es \<and>
     set es = {touched now (u_Scheme u = ''https'') h (request_path u) e |e i. jar_lookup j key i = Some e \<and> \<not> expired now e \<and>
       shouldSend e (u_Scheme u = ''https'') h (request_path u)}" by blast
  have look: "jar_lookup j1 k i = (if k = key then map_of m1 i else jar_lookup j k i)"
    unfolding j1 by (auto simp: jar_lookup_def map_of_put_submap [OF d(1)] the_submap_def m_def simp del: map_of_eq_Some_iff)
  then show "jar_lookup j1 k i = (if k = key then
       (case jar_lookup j k i of Some e \<Rightarrow> if expired now e then None else Some (touched now (u_Scheme u = ''https'') h (request_path u) e) | None \<Rightarrow> None)
       else jar_lookup j k i)"
    unfolding fst map_of_kept [OF d(2)] by (auto simp: jar_lookup_def m_def split: option.splits)
qed

text \<open>C37: A call of \<open>Cookies\<close> returns exactly the cookies under the key of the host that are not expired and match host, path and scheme, each
  once, longest path first and then oldest first. It removes the expired ones it saw, notes the access, and changes nothing else.\<close>

theorem jar_answers_exactly:
  assumes "jar_run ops (jar_New psl) = Ret j" "jar_cookies u now j = Ret (cs, j1)" "http_scheme u" "host_of (u_Host u) = Some h"
  shows "(\<exists>es. cs = map (\<lambda>e. new_Cookie (je_Name e) (je_Value e)) es \<and> sorted_wrt sent_before es \<and>
     set es = {touched now (u_Scheme u = ''https'') h (request_path u) e |e i. jar_lookup j (jarKey h psl) i = Some e \<and> \<not> expired now e \<and>
       shouldSend e (u_Scheme u = ''https'') h (request_path u)}) \<and>
     (\<forall>k i. jar_lookup j1 k i = (if k = jarKey h psl then
       (case jar_lookup j k i of Some e \<Rightarrow> if expired now e then None else Some (touched now (u_Scheme u = ''https'') h (request_path u) e) | None \<Rightarrow> None)
       else jar_lookup j k i))"
proof -
  from jar_run_ok [OF jar_ok_New order_refl, of ops psl] assms(1) have ok: "jar_ok ops j" "jr_psList j = psl"
    by (auto simp: jar_New_def)
  from cookies_lookup [OF ok(1) assms(2-4), unfolded ok(2)] show ?thesis by blast
qed

subsection \<open>The key never hides a cookie\<close>

lemma last_index_byte_split: "c \<notin> set b \<Longrightarrow> last_index_byte (a @ c # b) c = Some (length a)"
proof -
  have n: "c \<notin> set b \<Longrightarrow> last_index_byte b c = None" for b by (induction b) auto
  show "c \<notin> set b \<Longrightarrow> last_index_byte (a @ c # b) c = Some (length a)" by (induction a) (auto simp: n)
qed

lemma last_index_byte_notin: "c \<notin> set b \<Longrightarrow> last_index_byte b c = None"
  by (induction b) auto

definition last_label :: "string \<Rightarrow> string" where
  "last_label x = rev (takeWhile (\<lambda>c. c \<noteq> CHR ''.'') (rev x))"

lemma takeWhile_rev_all: "CHR ''.'' \<notin> set b \<Longrightarrow> takeWhile (\<lambda>c. c \<noteq> CHR ''.'') (rev b) = rev b"
  by (auto simp: takeWhile_eq_all_conv)

lemma last_label_id: "CHR ''.'' \<notin> set x \<Longrightarrow> last_label x = x"
  by (simp add: last_label_def takeWhile_rev_all)

lemma last_label_dot [simp]: "last_label (a @ CHR ''.'' # b) = last_label b"
proof (cases "CHR ''.'' \<in> set b")
  case True
  then show ?thesis by (simp add: last_label_def takeWhile_append1 [of "CHR ''.''"])
next
  case False
  then have "\<forall>x\<in>set (rev b). x \<noteq> CHR ''.''" by auto
  with takeWhile_append2 [of "rev b" "\<lambda>c. c \<noteq> CHR ''.''" "CHR ''.'' # rev a"]
  have "last_label (a @ CHR ''.'' # b) = b" by (simp add: last_label_def)
  with last_label_id [OF False] show ?thesis by simp
qed

lemma last_label_cases:
  obtains "CHR ''.'' \<notin> set x" "last_label x = x" | q where "x = q @ CHR ''.'' # last_label x" "CHR ''.'' \<notin> set (last_label x)"
proof (cases "CHR ''.'' \<in> set x")
  case True
  then obtain q l where x: "x = q @ CHR ''.'' # l" "CHR ''.'' \<notin> set l" by (meson split_list_last)
  then have l: "last_label x = l" by (simp add: last_label_id)
  show thesis
  proof (rule that(2) [of q])
    show "x = q @ CHR ''.'' # last_label x" unfolding l by (rule x(1))
    show "CHR ''.'' \<notin> set (last_label x)" unfolding l by (rule x(2))
  qed
next
  case False
  with that(1) last_label_id show thesis by blast
qed

lemma key_from_label:
  assumes "host = x @ ''.'' @ s" "take (i - 1) host = x"
  shows "key_from i host = last_label x @ ''.'' @ s"
proof (cases rule: last_label_cases [of x])
  case 1
  then show ?thesis using assms by (simp add: key_from_def last_index_byte_notin)
next
  case (2 q)
  then have "last_index_byte x (CHR ''.'') = Some (length q)" by (metis last_index_byte_split)
  moreover have "drop (Suc (length q)) host = last_label x @ ''.'' @ s"
    by (subst assms(1), subst 2(1)) simp
  ultimately show ?thesis using assms(2) by (simp add: key_from_def)
qed

lemma jarKey_psl:
  assumes "\<not> isIP h" "h = x @ ''.'' @ ps h"
  shows "jarKey h (Some ps) = last_label x @ ''.'' @ ps h"
proof -
  have l: "length h = Suc (length x + length (ps h))" using arg_cong [OF assms(2), of length] by simp
  then have "ps h \<noteq> h" by auto
  moreover have "h ! length x = CHR ''.''" by (subst assms(2)) (simp add: nth_append)
  moreover have "take (length x) h = x" by (subst assms(2)) simp
  ultimately show ?thesis using assms l key_from_label [of h x "ps h" "length h - length (ps h)"]
    by (simp add: jarKey_def Let_def)
qed

text \<open>Two hosts in one domain that is no public suffix have the same key.\<close>

lemma jarKey_shared:
  assumes "\<not> isIP h" "ps h = ps d" "hasDotSuffix d (ps d)" "h = d \<or> hasDotSuffix h d"
  shows "jarKey h (Some ps) = last_label (take (length d - length (ps d) - 1) d) @ ''.'' @ ps d"
proof -
  obtain l where d: "d = l @ ''.'' @ ps d" using assms(3) hasDotSuffix_iff by blast
  have l: "take (length d - length (ps d) - 1) d = l" by (subst (3) d, subst (1) d) simp
  have "h = l @ ''.'' @ ps h \<or> (\<exists>p. h = (p @ CHR ''.'' # l) @ ''.'' @ ps h)"
    using assms(2,4) d hasDotSuffix_iff [of h d] by (metis append.assoc append_Cons append_Nil)
  then show ?thesis using jarKey_psl [OF assms(1)] assms(2) l by auto
qed



subsection \<open>Examples\<close>

definition site :: "string \<Rightarrow> URL" where
  "site host = simple_URL ''https'' host ''/''"

definition session :: Cookie where
  "session = (new_Cookie ''sid'' ''1'')\<lparr>ck_Domain := ''example.com''\<rparr>"

definition example_ops :: "jar_op list" where
  "example_ops = [SetOp (site ''www.example.com'') [session] 0]"

lemma example_jar:
  "(case jar_run example_ops (jar_New (Some (\<lambda>_. ''com''))) of
      Ret j \<Rightarrow> (case jar_cookies (site ''api.example.com'') 1 j of Ret (cs, j1) \<Rightarrow> map ck_Value cs = [''1''] | Panic m \<Rightarrow> False)
    | Panic m \<Rightarrow> False)"
  by code_simp


lemma example_jar_run:
  obtains j cs j1 ck where "jar_run example_ops (jar_New (Some (\<lambda>_. ''com''))) = Ret j"
    "jar_cookies (site ''api.example.com'') 1 j = Ret (cs, j1)" "ck \<in> set cs" "ck_Value ck = ''1''"
proof -
  obtain j where j: "jar_run example_ops (jar_New (Some (\<lambda>_. ''com''))) = Ret j"
    using example_jar by (cases "jar_run example_ops (jar_New (Some (\<lambda>_. ''com'')))") auto
  moreover obtain cs j1 where "jar_cookies (site ''api.example.com'') 1 j = Ret (cs, j1)" "map ck_Value cs = [''1'']"
    using example_jar j by (cases "jar_cookies (site ''api.example.com'') 1 j") auto
  ultimately show thesis using that by auto
qed

theorem jar_confined_witness:
  "\<exists>j cs j1 ck h0 h. jar_run example_ops (jar_New (Some (\<lambda>_. ''com''))) = Ret j \<and> jar_cookies (site ''api.example.com'') 1 j = Ret (cs, j1) \<and>
     ck \<in> set cs \<and> host_of ''www.example.com'' = Some h0 \<and> host_of ''api.example.com'' = Some h \<and>
     (h = h0 \<or> shares_domain (Some (\<lambda>_. ''com'')) ''example.com'' h0 h)"
proof (rule example_jar_run)
  fix j cs j1 ck
  assume r: "jar_run example_ops (jar_New (Some (\<lambda>_. ''com''))) = Ret j" "jar_cookies (site ''api.example.com'') 1 j = Ret (cs, j1)" "ck \<in> set cs"
  from jar_confined [OF this] r show ?thesis
    by (auto simp: example_ops_def session_def site_def new_Cookie_def)
qed

lemma example_hosts: "host_of ''www.example.com'' = Some ''www.example.com''" "host_of ''api.example.com'' = Some ''api.example.com''"
  "host_of ''example.com'' = Some ''example.com''"
  by code_simp+

lemma session_entry:
  "newEntry psl session 0 ''/'' ''www.example.com'' =
     (if (case psl of None \<Rightarrow> False | Some ps \<Rightarrow> ps ''example.com'' \<noteq> [] \<and> \<not> hasDotSuffix ''example.com'' (ps ''example.com''))
      then Inl errIllegalDomain
      else Inr (fill_entry session endOfTime False (blank_entry ''sid'' ''example.com'' ''/'' False), False))"
  by (simp add: newEntry_def session_def new_Cookie_def domainAndType_def domain_cookie_def isIP_def is_ipv4_def ipv4_field_def all_digits_def
      ascii_ToLower_def ascii_IsPrint_def lower_def hasDotSuffix_def Let_def split: option.splits)

theorem jar_set_is_update_witness:
  "\<exists>j1. setCookies (site ''www.example.com'') [session] 0 (jar_New None) = Ret j1 \<and>
     jar_lookup j1 (jarKey ''www.example.com'' None) ''example.com;/;sid'' \<noteq> None"
proof -
  obtain j1 where j1: "setCookies (site ''www.example.com'') [session] 0 (jar_New None) = Ret j1"
    using setCookies_ok [OF jar_ok_New, of "site ''www.example.com''" "[session]" 0 "[SetOp (site ''www.example.com'') [session] 0]" None] by auto
  have "newEntry None session 0 (defaultPath (u_Path (site ''www.example.com''))) ''www.example.com'' =
      Inr (fill_entry session endOfTime False (blank_entry ''sid'' ''example.com'' ''/'' False), False)"
    using session_entry [of None] by (simp add: site_def defaultPath_def)
  from jar_set_is_update [OF _ j1 _ _ this, of "[]" "jarKey ''www.example.com'' None" "''example.com;/;sid''"]
  have "jar_lookup j1 (jarKey ''www.example.com'' None) ''example.com;/;sid'' \<noteq> None"
    using example_hosts by (simp add: site_def http_scheme_def entry_id_def fill_entry_def blank_entry_def)
  with j1 show ?thesis by blast
qed

theorem jar_answers_exactly_witness:
  "\<exists>j cs j1 es. jar_run example_ops (jar_New (Some (\<lambda>_. ''com''))) = Ret j \<and> jar_cookies (site ''api.example.com'') 1 j = Ret (cs, j1) \<and>
     cs \<noteq> [] \<and> cs = map (\<lambda>e. new_Cookie (je_Name e) (je_Value e)) es \<and> sorted_wrt sent_before es"
proof (rule example_jar_run)
  fix j cs j1 ck
  assume r: "jar_run example_ops (jar_New (Some (\<lambda>_. ''com''))) = Ret j" "jar_cookies (site ''api.example.com'') 1 j = Ret (cs, j1)" "ck \<in> set cs"
  have "http_scheme (site ''api.example.com'')" "host_of (u_Host (site ''api.example.com'')) = Some ''api.example.com''"
    using example_hosts by (simp_all add: http_scheme_def site_def)
  from jar_answers_exactly [OF r(1,2) this] r show ?thesis by fastforce
qed


subsection \<open>Limits\<close>


text \<open>With a public suffix list that always answers the empty string, each host is its own key: no domain cookie is shared.\<close>

lemma empty_list_shares_nothing:
  "(case jar_run [SetOp (site ''www.example.com'') [session] 0] (jar_New (Some (\<lambda>_. []))) of
      Ret j \<Rightarrow> (case jar_cookies (site ''example.com'') 1 j of Ret (cs, j1) \<Rightarrow> cs = [] | Panic m \<Rightarrow> False)
    | Panic m \<Rightarrow> False)"
  by code_simp

end
