(* ===== verification/Spec2Isabelle.thy ===== *)
theory Spec2Isabelle
  imports Pattern_Conflict Mux_Limits Chunked Http2_Meta Http2_Fairness Http2_Pipe File_Server Response_Reuse Cookie_Jar_Meaning
begin

text \<open>
  \<^bold>\<open>Verification of oohttp.\<close> The repository is a fork of Go's \<open>net/http\<close> (Go 1.22.3) that can be used with
  another TLS library. This development models the parts of it that decide: which handler serves a request, how
  messages are delimited on a connection, how header fields and bodies are written and read, how files are served, and how HTTP/2
  frames, windows, buffers and the write scheduler work. The theories import each other in the order below.

  \<^bold>\<open>Shared vocabulary.\<close>
  \<^item> \<open>Prelude\<close>: Go strings as lists of bytes, results \<open>Ret\<close> or \<open>Panic\<close> for calls that may panic, sums
    for calls that return an error, the functions of the standard library the sources use. The record
    \<open>golib\<close> is the parameter for what is outside the repository and the standard library:
    the token table and header checks of \<open>golang.org/x/net/http/httpguts\<close> and the Unicode tables.
  \<^item> \<open>Bytes\<close>, \<open>Strconv\<close>: big-endian integers and decimal numbers, with their round trips.
  \<^item> \<open>Bufio\<close>: \<open>bufio.Reader\<close> over a source that delivers blocks of any sizes and \<open>bufio.Writer\<close> over a
    connection that may fail after any number of bytes. The locale \<open>byte_sink\<close> is the contract of
    \<open>io.Writer\<close>; the buffered writer is its interpretation.

  \<^bold>\<open>The multiplexer\<close> (\<open>server.go\<close>, \<open>pattern.go\<close>, \<open>mapping.go\<close>, \<open>routing_tree.go\<close>, \<open>routing_index.go\<close>,
  \<open>servemux121.go\<close>, the path values of \<open>request.go\<close>). A pattern is parsed (\<open>Pattern\<close>, \<open>Pattern_Parse\<close>), checked
  against the registered ones found through the index (\<open>Routing_Index\<close>, \<open>Pattern_Conflict\<close>) and stored in a
  decision tree (\<open>Child_Mapping\<close>, \<open>Routing_Tree\<close>). \<open>Pattern_Meaning\<close> gives patterns their meaning as sets of
  request paths and shows that the comparison of patterns computes the relation of these sets.
  \<open>Routing_Match\<close> and \<open>Routing_Methods\<close> show that matching finds the most specific pattern; \<open>Serve_Mux\<close>,
  \<open>Mux_Register\<close> and \<open>Mux_Dispatch\<close> compose these into registration and dispatch with their reachable states; \<open>Mux_Limits\<close>
  proves behaviour that differs from the documentation. \<open>Serve_Mux_121\<close> is the multiplexer of Go 1.21, chosen by a
  GODEBUG setting, which is an argument.

  \<^bold>\<open>Messages of HTTP/1\<close>.
  \<^item> \<open>Header\<close> (\<open>header.go\<close>, \<open>internal/ascii\<close>): the header map, canonical keys, \<open>WriteSubset\<close>, \<open>hasToken\<close>. A map is an
    association list whose order is the order of iteration; what is written does not depend on it.
  \<^item> \<open>Chunked\<close> (\<open>internal/chunked.go\<close>): reader and writer of the chunked coding with 64-bit counters. The reader
    refines reading from the byte stream the chunks carry, ends on every input, and reads back what the writer wrote.
  \<^item> \<open>Transfer_Read\<close> (\<open>transfer.go\<close>): \<open>readTransfer\<close> and what it calls; the framing of requests follows from
    RFC 7230 alone.
  \<^item> \<open>Body\<close> (\<open>transfer.go\<close>): \<open>body.Read\<close>, trailers, \<open>body.Close\<close>; a body ends exactly where the next message begins.
  \<^item> \<open>Transfer_Write\<close> (\<open>transfer.go\<close>): \<open>transferWriter\<close>; the body a client gives is the body a server reads.
  \<^item> \<open>Cookie\<close> (\<open>cookie.go\<close>): cookies of requests and responses; what is written is what is read, whatever the fields hold.

  \<^bold>\<open>Responses of the server\<close> (\<open>server.go\<close>, \<open>request.go\<close>, \<open>response.go\<close>).
  \<^item> \<open>Server_Response\<close>: the records \<open>response\<close>, \<open>chunkWriter\<close> and \<open>server_conn\<close> and every step from a handler's call to the
    wire: \<open>WriteHeader\<close>, \<open>Write\<close>, \<open>Flush\<close>, the decisions of \<open>chunkWriter.writeHeader\<close> one by one, the body of a request that
    expects 100 Continue, and the end of the request.
  \<^item> \<open>Response_Framing\<close>: runs of a handler as lists of its operations, and what each of them puts on the wire.
  \<^item> \<open>Response_Exact\<close>: a client that frames a reply by its header reads exactly the bytes whose writes succeeded.
  \<^item> \<open>Response_Reuse\<close>: a connection is only reused where the next request begins, with the one exception that is proved there.

  \<^bold>\<open>The client\<close> (\<open>client.go\<close>, \<open>jar.go\<close>).
  \<^item> \<open>Url\<close>: the fields and methods of \<open>url.URL\<close> that the client needs and the names of hosts.
  \<^item> \<open>Client\<close>: \<open>Client.do\<close> as a partial function that may loop for ever under a policy of the caller. The round tripper, the cookie jar,
    the policy and the parser of URLs are a record of functions on an arbitrary world.
  \<^item> \<open>Client_Redirects\<close>: the requests that reach the round tripper, which credentials they carry, and where that breaks the documentation.
  \<^item> \<open>Punycode\<close>, \<open>Cookie_Jar\<close> (\<open>cookiejar\<close>): the jar, with the encoding of host names in 32-bit arithmetic; the public suffix list is an argument.
  \<^item> \<open>Cookie_Jar_Meaning\<close>: histories of a jar; a cookie goes only to hosts that may share it and reaches all of them, and the two levels of
    maps are one finite map.

  \<^bold>\<open>Files and content\<close>.
  \<^item> \<open>Sniff\<close> (\<open>sniff.go\<close>): \<open>DetectContentType\<close> with its table of signatures.
  \<^item> \<open>File_Range\<close>, \<open>Preconditions\<close> (\<open>fs.go\<close>): range headers, entity tags, dates and the order of their checks. Times are integers;
    parsing and printing of dates and the table of file types are fields of the parameter record \<open>fslib\<close>.
  \<^item> \<open>Response_Writer\<close> (\<open>server.go\<close>, \<open>httptest/recorder.go\<close>, \<open>filetransport.go\<close>, \<open>status.go\<close>): the interface \<open>ResponseWriter\<close> as a
    record of operations with the locale \<open>response_writer\<close> of its laws; the recorder and the writer of the file transport are its
    interpretations.
  \<^item> \<open>Serve_Content\<close>, \<open>File_Server\<close> (\<open>fs.go\<close>): \<open>serveContent\<close>, replies with one or several ranges, \<open>serveFile\<close>, directory listings,
    \<open>Dir\<close>, \<open>FS\<close> and the file transport; what is sent is exact, and a server for a directory is confined to it.

  \<^bold>\<open>HTTP/2\<close> (\<open>h2_bundle.go\<close>).
  \<^item> \<open>Http2_Frame\<close>, \<open>Http2_Framer\<close>, \<open>Http2_Roundtrip\<close>, \<open>Http2_Meta\<close>: frame parsers, all write methods, \<open>ReadFrame\<close> with the
    order of header blocks, and the merging of header blocks over a parameter for the HPACK decoder; the locale \<open>frame_sink\<close> states
    what the framer needs of its writer.
  \<^item> \<open>Http2_Flow\<close>: receive and send windows as 32-bit words.
  \<^item> \<open>Http2_Pipe\<close>: the chunked data buffer and the pipe of a stream; the locale \<open>pipe_buffer\<close> is the contract between them.
  \<^item> \<open>Http2_Scheduler\<close>, \<open>Http2_Fairness\<close>: requests to write, their queues, and the round-robin scheduler with its
    ring of pointers, as one function per field from addresses to values; the locale \<open>machine_refinement\<close> carries the refinement of a list
    of streams over whole runs.

  \<^bold>\<open>Bounds and fuel.\<close> Loops are total functions with a termination proof, except \<open>rr_Pop_loop\<close>, whose fuel is the number of
  queues ever allocated; \<open>roundRobin_refines\<close> shows that it is enough. Counters that may wrap are words of their width;
  lengths in the framing of bodies are integers shown to be below 2 to the 63.

  \<^bold>\<open>Not modelled.\<close> The connection loops of server, transport and HTTP/2 (goroutines, channels, timers, sockets), TLS and
  proxies, the files of the operating system, processes (CGI, FastCGI), tracing, logging and test helpers: their logic is in the interleaving of I/O
  that the model does not have. HPACK, IDNA and the Unicode tables are outside the repository and are parameters.
  Methods guarded by a mutex are single steps; condition variables and callbacks are left out. The manifest lists every part.
\<close>

end
